(* ===== verification/Wire_Prelude.thy ===== *)
theory Wire_Prelude
  imports Main "HOL-Library.Word" "HOL-Library.Monad_Syntax"
begin

text \<open>
  Shared vocabulary of the development: the machine types of the C++ code, memory reads with
  their bounds made explicit, and the generic lemmas on lists, words and the option monad that
  the component theories use.

  Conventions of the model.
  \<^item> \<open>uint8\<close>, \<open>uint32\<close> and \<open>uint64\<close> are words of that width. The C++ type \<open>int\<close> (and
    \<open>int64\<close> for stream positions) is HOL's \<open>int\<close>; every place where the code tests against
    \<open>INT_MAX\<close> keeps the test, and the invariants of the stream theories bound the
    counters, so no \<open>int\<close> operation leaves its range.
  \<^item> An operation that the language leaves undefined or that aborts the process (a read past
    the end of a buffer, a dereferenced null pointer, a failed \<open>GOOGLE_CHECK\<close>), and a loop that
    does not end, is the value \<open>None\<close> of the outer option. The theorems that say \<open>Some\<close> of
    something therefore also say that none of these happens.
\<close>

unbundle bit_operations_syntax

type_synonym uint8 = "8 word"
type_synonym uint32 = "32 word"
type_synonym uint64 = "64 word"
type_synonym bytes = "8 word list"

named_theorems coded_defs \<open>definitions of the small accessors of the coded streams\<close>

definition INT_MAX :: int where
  "INT_MAX = 2147483647"

definition byte_at :: "bytes \<Rightarrow> int \<Rightarrow> uint8 option" where
  \<comment> \<open>Reading one byte through a pointer into the array \<open>mem\<close>.\<close>
  "byte_at mem i = (if 0 \<le> i \<and> nat i < length mem then Some (mem ! nat i) else None)"

definition mem_read :: "bytes \<Rightarrow> int \<Rightarrow> int \<Rightarrow> bytes option" where
  \<comment> \<open>\<open>memcpy\<close> of \<open>n\<close> bytes from offset \<open>i\<close> of the array \<open>mem\<close>.\<close>
  "mem_read mem i n =
     (if 0 \<le> i \<and> 0 \<le> n \<and> nat i + nat n \<le> length mem then Some (take (nat n) (drop (nat i) mem))
      else None)"

definition mem_write :: "bytes \<Rightarrow> nat \<Rightarrow> bytes \<Rightarrow> bytes" where
  \<comment> \<open>Storing the bytes \<open>bs\<close> at offset \<open>i\<close> of the array \<open>mem\<close>.\<close>
  "mem_write mem i bs = take i mem @ bs @ drop (i + length bs) mem"

lemma byte_at_drop: "byte_at mem i = Some b \<Longrightarrow> drop (nat i) mem = b # drop (nat i + 1) mem"
  by (auto simp: byte_at_def Cons_nth_drop_Suc split: if_splits)

lemma byte_at_Some: "0 \<le> i \<Longrightarrow> nat i < length mem \<Longrightarrow> byte_at mem i = Some (mem ! nat i)"
  by (simp add: byte_at_def)

lemma length_mem_write [simp]:
  "i + length bs \<le> length mem \<Longrightarrow> length (mem_write mem i bs) = length mem"
  by (simp add: mem_write_def)

lemma mem_write_Nil [simp]: "mem_write mem i [] = mem"
  by (simp add: mem_write_def)

lemma take_mem_write:
  "i + length bs \<le> length mem \<Longrightarrow> take (i + length bs) (mem_write mem i bs) = take i mem @ bs"
  by (cases bs) (auto simp: mem_write_def min_def)

lemma take_mem_write_before:
  "j \<le> i \<Longrightarrow> i \<le> length mem \<Longrightarrow> take j (mem_write mem i bs) = take j mem"
  by (simp add: mem_write_def min_def)

lemma drop_mem_write:
  "i + length bs \<le> j \<Longrightarrow> i \<le> length mem \<Longrightarrow> drop j (mem_write mem i bs) = drop j mem"
  by (simp add: mem_write_def)

lemma take_mem_write_inside:
  "i + length bs \<le> j \<Longrightarrow> j \<le> length mem \<Longrightarrow> take j (mem_write mem i bs) = mem_write (take j mem) i bs"
  by (cases "j = i") (auto simp: mem_write_def drop_take min_def)

lemma bind_eq_Some: "(m \<bind> f) = Some y \<longleftrightarrow> (\<exists>x. m = Some x \<and> f x = Some y)"
  for m :: "'a option" and f :: "'a \<Rightarrow> 'b option"
  by (cases m) auto

lemma nat_minus_int [simp]: "nat (int a - int b) = a - b"
  by simp

lemma drop_append_take: "n \<le> length xs \<Longrightarrow> drop n xs @ ys = drop n (xs @ ys)"
  by simp

lemma and_mask_127: "b AND 127 = take_bit 7 b" for b :: "'a::len word"
  by (simp add: take_bit_eq_mask mask_eq_exp_minus_1)

lemma unat_and_127: "unat (b AND 127) = unat b mod 128" for b :: "'a::len word"
proof -
  have "unat (b AND 127) = take_bit 7 (unat b)"
    by (simp only: and_mask_127 unsigned_take_bit_eq)
  also have "\<dots> = unat b mod 128"
    by (simp add: take_bit_eq_mod)
  finally show ?thesis .
qed

lemma and_128_iff: "b AND 128 = 0 \<longleftrightarrow> unat b < 128" for b :: uint8
proof -
  have "b AND 128 = 0 \<longleftrightarrow> \<not> bit b 7"
    using and_exp_eq_0_iff_not_bit [of b 7] by simp
  moreover have "bit b 7 \<longleftrightarrow> bit (unat b) 7"
    by (simp add: bit_unsigned_iff)
  moreover have "bit (unat b) 7 \<longleftrightarrow> 128 \<le> unat b"
  proof -
    have "unat b < 256"
      using unsigned_less [of b] by simp
    then have "unat b div 128 < 2" by simp
    then have "odd (unat b div 128) \<longleftrightarrow> unat b div 128 = 1"
      by (cases "unat b div 128 = 0") auto
    also have "\<dots> \<longleftrightarrow> 128 \<le> unat b"
      using \<open>unat b div 128 < 2\<close> by (auto simp: div_greater_zero_iff less_2_cases_iff)
    finally show ?thesis by (simp add: bit_iff_odd)
  qed
  ultimately show ?thesis by auto
qed

lemma unat_drop_bit: "unat (drop_bit k v) = unat v div 2 ^ k" for v :: "'a::len word"
  by (metis unat_drop_bit_eq drop_bit_eq_div)

lemma unat_less_256: "unat b < 256" for b :: uint8
proof -
  have "unat b < 2 ^ LENGTH(8)" by (rule unsigned_less)
  then show ?thesis by simp
qed

lemma unat_less_2_32: "unat v < 4294967296" for v :: uint32
proof -
  have "unat v < 2 ^ LENGTH(32)" by (rule unsigned_less)
  then show ?thesis by simp
qed

lemma unat_less_2_64: "unat v < 18446744073709551616" for v :: uint64
proof -
  have "unat v < 2 ^ LENGTH(64)" by (rule unsigned_less)
  then show ?thesis by simp
qed

end
