(* ===== verification/Varint.thy ===== *)
theory Varint
  imports Wire_Prelude "HOL-Library.Signed_Division"
begin

text \<open>
  The integer encodings of \<open>io/coded_stream.h\<close> and \<open>io/coded_stream.cc\<close> that work on a plain
  array: varints of 32 and 64 bits, little-endian fixed-width integers, the size functions,
  and \<open>stubs/port.h\<close>'s \<open>Bits::Log2FloorNonZero\<close>. A function that reads takes the array and an
  offset and returns \<open>None\<close> when it would read outside the array. A \<open>...ToArray\<close> function,
  which stores at \<open>target\<close>, is the list of the bytes it stores from \<open>target\<close> upwards; the
  pointer it returns is \<open>target\<close> plus the length of that list.

  The reference codec (\<open>varint_enc\<close>, \<open>varint_split\<close>, \<open>leb\<close>) is the base-128 format on natural
  numbers; the hand-optimised code is proved equal to it.
\<close>

declare bind_eq_Some [simp]

section \<open>Reference codec\<close>

fun leb :: "bytes \<Rightarrow> nat" where
  "leb [] = 0"
| "leb (b # bs) = unat b mod 128 + 128 * leb bs"

fun varint_split :: "nat \<Rightarrow> bytes \<Rightarrow> (bytes \<times> bytes) option" where
  \<comment> \<open>The bytes of the varint at the front of the input, at most \<open>n\<close> of them, and the rest.\<close>
  "varint_split 0 bs = None"
| "varint_split (Suc n) [] = None"
| "varint_split (Suc n) (b # bs) =
     (if unat b < 128 then Some ([b], bs)
      else (case varint_split n bs of None \<Rightarrow> None | Some (ds, r) \<Rightarrow> Some (b # ds, r)))"

fun varint_enc :: "nat \<Rightarrow> bytes" where
  "varint_enc n =
     (if n < 128 then [of_nat n] else of_nat (n mod 128 + 128) # varint_enc (n div 128))"

declare varint_enc.simps [simp del]

section \<open>Reading from an array\<close>

definition kMaxVarintBytes :: nat where
  "kMaxVarintBytes = 10"

definition kMaxVarint32Bytes :: nat where
  "kMaxVarint32Bytes = 5"

definition next_b :: "bytes \<Rightarrow> int \<Rightarrow> uint32 option" where
  \<comment> \<open>\<open>b = *(ptr++)\<close>: the byte widened to \<open>uint32\<close>.\<close>
  "next_b mem ptr = map_option ucast (byte_at mem ptr)"

fun discard_high_bytes :: "nat \<Rightarrow> bytes \<Rightarrow> int \<Rightarrow> (bool \<times> int) option" where
  \<comment> \<open>The loop that reads the bytes beyond the 32nd bit and drops them.\<close>
  "discard_high_bytes 0 mem ptr = Some (False, ptr)"
| "discard_high_bytes (Suc n) mem ptr =
     do {
       b \<leftarrow> next_b mem ptr;
       if b AND 0x80 = 0 then Some (True, ptr + 1) else discard_high_bytes n mem (ptr + 1)
     }"

definition ReadVarint32FromArray ::
    "uint32 \<Rightarrow> bytes \<Rightarrow> int \<Rightarrow> (uint32 option \<times> int) option" where
  \<comment> \<open>The value (None: the varint is too long) and the advanced pointer.\<close>
  "ReadVarint32FromArray first_byte mem buffer =
     (let result = first_byte - 0x80; ptr = buffer + 1 in
      do {
        b \<leftarrow> next_b mem ptr;
        let ptr = ptr + 1; let result = result + push_bit 7 b;
        if b AND 0x80 = 0 then Some (Some result, ptr) else do {
        let result = result - push_bit 7 0x80;
        b \<leftarrow> next_b mem ptr;
        let ptr = ptr + 1; let result = result + push_bit 14 b;
        if b AND 0x80 = 0 then Some (Some result, ptr) else do {
        let result = result - push_bit 14 0x80;
        b \<leftarrow> next_b mem ptr;
        let ptr = ptr + 1; let result = result + push_bit 21 b;
        if b AND 0x80 = 0 then Some (Some result, ptr) else do {
        let result = result - push_bit 21 0x80;
        b \<leftarrow> next_b mem ptr;
        let ptr = ptr + 1; let result = result + push_bit 28 b;
        if b AND 0x80 = 0 then Some (Some result, ptr) else do {
        (ok, ptr) \<leftarrow> discard_high_bytes (kMaxVarintBytes - kMaxVarint32Bytes) mem ptr;
        Some (if ok then Some result else None, ptr)
        }}}}
      })"

definition combine_parts :: "uint32 \<Rightarrow> uint32 \<Rightarrow> uint32 \<Rightarrow> uint64" where
  \<comment> \<open>The label \<open>done\<close> of \<open>ReadVarint64FromArray\<close>.\<close>
  "combine_parts part0 part1 part2 =
     ucast part0 OR push_bit 28 (ucast part1) OR push_bit 56 (ucast part2)"

definition ReadVarint64FromArray :: "bytes \<Rightarrow> int \<Rightarrow> (uint64 option \<times> int) option" where
  "ReadVarint64FromArray mem buffer =
     (let ptr = buffer in
      do {
        b \<leftarrow> next_b mem ptr;
        let ptr = ptr + 1; let part0 = b;
        if b AND 0x80 = 0 then Some (Some (combine_parts part0 0 0), ptr) else do {
        let part0 = part0 - 0x80;
        b \<leftarrow> next_b mem ptr;
        let ptr = ptr + 1; let part0 = part0 + push_bit 7 b;
        if b AND 0x80 = 0 then Some (Some (combine_parts part0 0 0), ptr) else do {
        let part0 = part0 - push_bit 7 0x80;
        b \<leftarrow> next_b mem ptr;
        let ptr = ptr + 1; let part0 = part0 + push_bit 14 b;
        if b AND 0x80 = 0 then Some (Some (combine_parts part0 0 0), ptr) else do {
        let part0 = part0 - push_bit 14 0x80;
        b \<leftarrow> next_b mem ptr;
        let ptr = ptr + 1; let part0 = part0 + push_bit 21 b;
        if b AND 0x80 = 0 then Some (Some (combine_parts part0 0 0), ptr) else do {
        let part0 = part0 - push_bit 21 0x80;
        b \<leftarrow> next_b mem ptr;
        let ptr = ptr + 1; let part1 = b;
        if b AND 0x80 = 0 then Some (Some (combine_parts part0 part1 0), ptr) else do {
        let part1 = part1 - 0x80;
        b \<leftarrow> next_b mem ptr;
        let ptr = ptr + 1; let part1 = part1 + push_bit 7 b;
        if b AND 0x80 = 0 then Some (Some (combine_parts part0 part1 0), ptr) else do {
        let part1 = part1 - push_bit 7 0x80;
        b \<leftarrow> next_b mem ptr;
        let ptr = ptr + 1; let part1 = part1 + push_bit 14 b;
        if b AND 0x80 = 0 then Some (Some (combine_parts part0 part1 0), ptr) else do {
        let part1 = part1 - push_bit 14 0x80;
        b \<leftarrow> next_b mem ptr;
        let ptr = ptr + 1; let part1 = part1 + push_bit 21 b;
        if b AND 0x80 = 0 then Some (Some (combine_parts part0 part1 0), ptr) else do {
        let part1 = part1 - push_bit 21 0x80;
        b \<leftarrow> next_b mem ptr;
        let ptr = ptr + 1; let part2 = b;
        if b AND 0x80 = 0 then Some (Some (combine_parts part0 part1 part2), ptr) else do {
        let part2 = part2 - 0x80;
        b \<leftarrow> next_b mem ptr;
        let ptr = ptr + 1; let part2 = part2 + push_bit 7 b;
        if b AND 0x80 = 0 then Some (Some (combine_parts part0 part1 part2), ptr)
        else Some (None, ptr)
        }}}}}}}}}
      })"

definition ReadLittleEndian32FromArray :: "bytes \<Rightarrow> int \<Rightarrow> (uint32 \<times> int) option" where
  "ReadLittleEndian32FromArray mem buffer =
     do {
       b0 \<leftarrow> byte_at mem buffer; b1 \<leftarrow> byte_at mem (buffer + 1);
       b2 \<leftarrow> byte_at mem (buffer + 2); b3 \<leftarrow> byte_at mem (buffer + 3);
       Some (ucast b0 OR push_bit 8 (ucast b1) OR push_bit 16 (ucast b2) OR push_bit 24 (ucast b3),
             buffer + 4)
     }"

definition ReadLittleEndian64FromArray :: "bytes \<Rightarrow> int \<Rightarrow> (uint64 \<times> int) option" where
  "ReadLittleEndian64FromArray mem buffer =
     do {
       b0 \<leftarrow> byte_at mem buffer; b1 \<leftarrow> byte_at mem (buffer + 1);
       b2 \<leftarrow> byte_at mem (buffer + 2); b3 \<leftarrow> byte_at mem (buffer + 3);
       let part0 = (ucast b0 OR push_bit 8 (ucast b1) OR push_bit 16 (ucast b2)
                    OR push_bit 24 (ucast b3) :: uint32);
       b4 \<leftarrow> byte_at mem (buffer + 4); b5 \<leftarrow> byte_at mem (buffer + 5);
       b6 \<leftarrow> byte_at mem (buffer + 6); b7 \<leftarrow> byte_at mem (buffer + 7);
       let part1 = (ucast b4 OR push_bit 8 (ucast b5) OR push_bit 16 (ucast b6)
                    OR push_bit 24 (ucast b7) :: uint32);
       Some (ucast part0 OR push_bit 32 (ucast part1), buffer + 8)
     }"

definition ExpectTagFromArray :: "bytes \<Rightarrow> int \<Rightarrow> uint32 \<Rightarrow> int option option" where
  \<comment> \<open>The pointer past the expected tag; the inner None is the null pointer.\<close>
  "ExpectTagFromArray mem buffer expected =
     (if expected < 2 ^ 7 then do {
        b0 \<leftarrow> byte_at mem buffer;
        if ucast b0 = expected then Some (Some (buffer + 1)) else Some None
      }
      else if expected < 2 ^ 14 then do {
        b0 \<leftarrow> byte_at mem buffer;
        if b0 = ucast (expected OR 0x80) then do {
          b1 \<leftarrow> byte_at mem (buffer + 1);
          if b1 = ucast (drop_bit 7 expected) then Some (Some (buffer + 2)) else Some None
        }
        else Some None
      }
      else Some None)"

section \<open>Writing to an array\<close>

function WriteVarint32ToArray :: "uint32 \<Rightarrow> bytes" where
  "WriteVarint32ToArray value =
     (if 0x80 \<le> value then ucast (value OR 0x80) # WriteVarint32ToArray (drop_bit 7 value)
      else [ucast value])"
  by pat_completeness auto
termination
proof (relation "measure unat", simp_all)
  fix v :: uint32
  assume "128 \<le> v"
  then have "unat (128 :: uint32) \<le> unat v" by (simp only: word_le_nat_alt)
  then show "unat (drop_bit 7 v) < unat v"
    by (simp only: unat_drop_bit) simp
qed

declare WriteVarint32ToArray.simps [simp del]

function WriteVarint64Loop :: "uint64 \<Rightarrow> bytes" where
  \<comment> \<open>The slow path of \<open>CodedOutputStream::WriteVarint64\<close>: the bytes composed in \<open>bytes[]\<close>.\<close>
  "WriteVarint64Loop value =
     (if 0x7F < value
      then ((ucast value AND 0x7F) OR 0x80) # WriteVarint64Loop (drop_bit 7 value)
      else [ucast value AND 0x7F])"
  by pat_completeness auto
termination
proof (relation "measure unat", simp_all)
  fix v :: uint64
  assume "127 < v"
  then have "unat (127 :: uint64) < unat v" by (simp only: word_less_nat_alt)
  then show "unat (drop_bit 7 v) < unat v"
    by (simp only: unat_drop_bit) simp
qed

declare WriteVarint64Loop.simps [simp del]

definition WriteVarint64_size :: "uint32 \<Rightarrow> uint32 \<Rightarrow> uint32 \<Rightarrow> nat" where
  \<comment> \<open>The hard-coded binary search tree.\<close>
  "WriteVarint64_size part0 part1 part2 =
     (if part2 = 0 then
        if part1 = 0 then
          if part0 < 2 ^ 14 then (if part0 < 2 ^ 7 then 1 else 2)
          else (if part0 < 2 ^ 21 then 3 else 4)
        else
          if part1 < 2 ^ 14 then (if part1 < 2 ^ 7 then 5 else 6)
          else (if part1 < 2 ^ 21 then 7 else 8)
      else (if part2 < 2 ^ 7 then 9 else 10))"

definition WriteVarint64ToArrayInline :: "uint64 \<Rightarrow> bytes" where
  \<comment> \<open>Jumping to label \<open>size\<close>\<open>n\<close> stores the entries \<open>n - 1\<close> down to 0.\<close>
  "WriteVarint64ToArrayInline value =
     (let part0 = ucast value :: uint32;
          part1 = ucast (drop_bit 28 value) :: uint32;
          part2 = ucast (drop_bit 56 value) :: uint32;
          size = WriteVarint64_size part0 part1 part2;
          target = take size
            [ucast (part0 OR 0x80), ucast (drop_bit 7 part0 OR 0x80),
             ucast (drop_bit 14 part0 OR 0x80), ucast (drop_bit 21 part0 OR 0x80),
             ucast (part1 OR 0x80), ucast (drop_bit 7 part1 OR 0x80),
             ucast (drop_bit 14 part1 OR 0x80), ucast (drop_bit 21 part1 OR 0x80),
             ucast (part2 OR 0x80), ucast (drop_bit 7 part2 OR 0x80)]
      in target[size - 1 := target ! (size - 1) AND 0x7F])"

definition WriteVarint64ToArray :: "uint64 \<Rightarrow> bytes" where
  "WriteVarint64ToArray value = WriteVarint64ToArrayInline value"

definition WriteVarint32SignExtendedToArray :: "uint32 \<Rightarrow> bytes" where
  \<comment> \<open>The \<open>int32\<close> argument is given by its bit pattern; the cast to \<open>uint64\<close> sign-extends.\<close>
  "WriteVarint32SignExtendedToArray value =
     (if sint value < 0 then WriteVarint64ToArray (scast value) else WriteVarint32ToArray value)"

definition WriteTagToArray :: "uint32 \<Rightarrow> bytes" where
  "WriteTagToArray value = WriteVarint32ToArray value"

definition WriteLittleEndian32ToArray :: "uint32 \<Rightarrow> bytes" where
  "WriteLittleEndian32ToArray value =
     [ucast value, ucast (drop_bit 8 value), ucast (drop_bit 16 value), ucast (drop_bit 24 value)]"

definition WriteLittleEndian64ToArray :: "uint64 \<Rightarrow> bytes" where
  "WriteLittleEndian64ToArray value =
     (let part0 = ucast value :: uint32; part1 = ucast (drop_bit 32 value) :: uint32 in
      [ucast part0, ucast (drop_bit 8 part0), ucast (drop_bit 16 part0), ucast (drop_bit 24 part0),
       ucast part1, ucast (drop_bit 8 part1), ucast (drop_bit 16 part1), ucast (drop_bit 24 part1)])"

definition WriteRawToArray :: "bytes \<Rightarrow> bytes" where
  "WriteRawToArray data = data"

definition WriteStringToArray :: "bytes \<Rightarrow> bytes" where
  "WriteStringToArray str = WriteRawToArray str"

definition WriteStringWithSizeToArray :: "bytes \<Rightarrow> bytes" where
  \<comment> \<open>\<open>str.size()\<close> is converted to \<open>uint32\<close>.\<close>
  "WriteStringWithSizeToArray str =
     WriteVarint32ToArray (of_nat (length str)) @ WriteStringToArray str"

section \<open>Sizes\<close>

definition log2_step :: "nat \<Rightarrow> uint32 \<times> int \<Rightarrow> uint32 \<times> int" where
  \<comment> \<open>One round of the loop: \<open>shift = 1 << i\<close>.\<close>
  "log2_step i = (\<lambda>(value, log).
     let shift = 2 ^ i; x = drop_bit shift value in
     if x \<noteq> 0 then (x, log + int shift) else (value, log))"

definition Log2FloorNonZero :: "uint32 \<Rightarrow> int" where
  "Log2FloorNonZero n = (if n = 0 then -1 else snd (fold log2_step [4, 3, 2, 1, 0] (n, 0)))"

definition Log2FloorNonZero64 :: "uint64 \<Rightarrow> int" where
  "Log2FloorNonZero64 n =
     (let topbits = ucast (drop_bit 32 n) :: uint32 in
      if topbits = 0 then Log2FloorNonZero (ucast n) else 32 + Log2FloorNonZero topbits)"

definition VarintSize32Fallback :: "uint32 \<Rightarrow> nat" where
  "VarintSize32Fallback value = nat (1 + Log2FloorNonZero value sdiv 7)"

definition VarintSize32 :: "uint32 \<Rightarrow> nat" where
  "VarintSize32 value = (if value < 2 ^ 7 then 1 else VarintSize32Fallback value)"

definition VarintSize64 :: "uint64 \<Rightarrow> nat" where
  "VarintSize64 value = (if value < 2 ^ 7 then 1 else nat (1 + Log2FloorNonZero64 value sdiv 7))"

definition VarintSize32SignExtended :: "uint32 \<Rightarrow> nat" where
  "VarintSize32SignExtended value = (if sint value < 0 then 10 else VarintSize32 value)"

definition StaticVarintSize32 :: "uint32 \<Rightarrow> nat" where
  "StaticVarintSize32 Value =
     (if Value < 2 ^ 7 then 1 else if Value < 2 ^ 14 then 2 else if Value < 2 ^ 21 then 3
      else if Value < 2 ^ 28 then 4 else 5)"

definition vbyte :: "uint64 \<Rightarrow> nat \<Rightarrow> uint8" where
  \<comment> \<open>The continuation byte that carries the seven bits of \<open>v\<close> from bit \<open>k\<close>.\<close>
  "vbyte v k = of_nat (unat v div 2 ^ k mod 128 + 128)"

section \<open>The reference codec\<close>

lemma varint_enc_small: "n < 128 \<Longrightarrow> varint_enc n = [of_nat n]"
  by (simp add: varint_enc.simps [of n])

lemma varint_enc_big: "\<not> n < 128 \<Longrightarrow> varint_enc n = of_nat (n mod 128 + 128) # varint_enc (n div 128)"
  by (simp add: varint_enc.simps [of n])

lemma varint_enc_neq_Nil [simp]: "varint_enc n \<noteq> []"
  by (cases "n < 128") (simp_all add: varint_enc_small varint_enc_big)

lemma unat_byte_of_nat: "m < 256 \<Longrightarrow> unat (of_nat m :: uint8) = m"
  by (simp add: unat_of_nat)

lemma unat_cont_byte [simp]: "unat (word_of_nat (n mod 128) + 128 :: uint8) = n mod 128 + 128"
  using unat_byte_of_nat [of "n mod 128 + 128"] by simp

lemma leb_varint_enc [simp]: "leb (varint_enc n) = n"
proof (induction n rule: varint_enc.induct)
  case (1 n)
  show ?case
  proof (cases "n < 128")
    case True
    then show ?thesis by (simp add: varint_enc_small unat_byte_of_nat)
  next
    case False
    with 1 show ?thesis by (simp add: varint_enc_big unat_byte_of_nat)
  qed
qed

lemma length_varint_enc_le_iff: "length (varint_enc n) \<le> Suc k \<longleftrightarrow> n < 128 ^ Suc k"
proof (induction k arbitrary: n)
  case 0
  show ?case
    by (cases "n < 128") (simp_all add: varint_enc_small varint_enc_big)
next
  case (Suc k)
  show ?case
  proof (cases "n < 128")
    case True
    moreover have "n < 128 ^ Suc (Suc k)"
      by (rule order_less_le_trans [OF True]) simp
    ultimately show ?thesis by (simp only: varint_enc_small) simp
  next
    case False
    have "length (varint_enc n) \<le> Suc (Suc k) \<longleftrightarrow> n div 128 < 128 ^ Suc k"
      using False Suc.IH [of "n div 128"] by (simp add: varint_enc_big)
    also have "\<dots> \<longleftrightarrow> n < 128 ^ Suc (Suc k)"
      by (simp add: div_less_iff_less_mult mult.commute)
    finally show ?thesis .
  qed
qed

lemma varint_split_enc:
  "length (varint_enc n) \<le> k \<Longrightarrow> varint_split k (varint_enc n @ r) = Some (varint_enc n, r)"
proof (induction n arbitrary: k rule: varint_enc.induct)
  case (1 n)
  then obtain k' where k: "k = Suc k'"
    by (cases k) auto
  show ?case
  proof (cases "n < 128")
    case True
    then show ?thesis by (simp add: k varint_enc_small unat_byte_of_nat)
  next
    case False
    moreover from False "1.prems" have "length (varint_enc (n div 128)) \<le> k'"
      by (simp add: k varint_enc_big)
    ultimately show ?thesis
      using "1.IH" [of k'] by (simp add: k varint_enc_big unat_byte_of_nat)
  qed
qed

lemma varint_split_SomeD:
  "varint_split k bs = Some (ds, r) \<Longrightarrow> bs = ds @ r \<and> ds \<noteq> [] \<and> length ds \<le> k"
  by (induction k bs arbitrary: ds rule: varint_split.induct) (auto split: if_splits option.splits)

lemma varint_split_append:
  "varint_split k bs = Some (ds, r) \<Longrightarrow> varint_split k (bs @ cs) = Some (ds, r @ cs)"
  by (induction k bs arbitrary: ds rule: varint_split.induct) (auto split: if_splits option.splits)

lemma varint_split_mono:
  "varint_split k bs = Some (ds, r) \<Longrightarrow> k \<le> m \<Longrightarrow> varint_split m bs = Some (ds, r)"
proof (induction k bs arbitrary: ds m rule: varint_split.induct)
  case (3 n b bs)
  then obtain m' where m: "m = Suc m'" "n \<le> m'" by (cases m) simp_all
  show ?case
  proof (cases "unat b < 128")
    case True
    with 3 m show ?thesis by simp
  next
    case False
    with "3.prems" obtain ds' where "varint_split n bs = Some (ds', r)" "ds = b # ds'"
      by (auto split: option.splits)
    with 3 m False show ?thesis by simp
  qed
qed simp_all

section \<open>The writers compute the reference encoding\<close>

lemma bit_128_int: "bit (128 :: int) n \<longleftrightarrow> n = 7"
  using bit_exp_iff [where 'a = int, of 7 n] by auto

lemma bit_127_int: "bit (127 :: int) n \<longleftrightarrow> n < 7"
  using bit_mask_iff [where 'a = int, of 7 n] by (auto simp: mask_eq_exp_minus_1)

lemma ucast_or_128:
  fixes v :: "'a::len word"
  assumes "8 \<le> LENGTH('a)"
  shows "ucast (v OR 128) = (of_nat (unat v mod 128 + 128) :: uint8)"
proof -
  have "ucast (v OR 128) = (ucast v AND 127) + (128 :: uint8)"
  proof -
    have "(ucast v AND 127) + (128 :: uint8) = (ucast v AND 127) OR 128"
      by (rule disjunctive_add) (simp add: bit_simps bit_127_int bit_128_int)
    also have "\<dots> = ucast (v OR 128)"
      using assms by (intro bit_word_eqI) (auto simp: bit_simps bit_127_int bit_128_int)
    finally show ?thesis ..
  qed
  also have "ucast v AND 127 = (of_nat (unat v mod 128) :: uint8)"
    by (rule word_unat_eq_iff [THEN iffD2]) (simp add: unat_and_127 unat_of_nat unsigned_ucast_eq take_bit_eq_mod mod_mod_cancel)
  finally show ?thesis by simp
qed

lemma WriteVarint32ToArray_eq: "WriteVarint32ToArray v = varint_enc (unat v)"
proof (induction v rule: WriteVarint32ToArray.induct)
  case (1 v)
  show ?case
  proof (cases "unat v < 128")
    case True
    then have "\<not> 0x80 \<le> v" by (simp add: word_le_nat_alt)
    with True show ?thesis
      by (subst WriteVarint32ToArray.simps) (simp add: varint_enc_small)
  next
    case False
    then have "0x80 \<le> v" by (simp add: word_le_nat_alt)
    with False 1 show ?thesis
      by (subst WriteVarint32ToArray.simps)
        (simp add: varint_enc_big ucast_or_128 unat_drop_bit)
  qed
qed

lemma WriteVarint64Loop_eq: "WriteVarint64Loop v = varint_enc (unat v)"
proof (induction v rule: WriteVarint64Loop.induct)
  case (1 v)
  have byte: "(ucast v AND 127 :: uint8) = of_nat (unat v mod 128)"
    by (rule word_unat_eq_iff [THEN iffD2]) (simp add: unat_and_127 unat_of_nat unsigned_ucast_eq take_bit_eq_mod mod_mod_cancel)
  have cont: "((ucast v AND 127) OR 128 :: uint8) = of_nat (unat v mod 128 + 128)"
  proof -
    have "((ucast v AND 127) OR 128 :: uint8) = ucast (v OR 128)"
      by (rule bit_word_eqI) (auto simp: bit_simps bit_127_int bit_128_int)
    then show ?thesis by (simp add: ucast_or_128)
  qed
  show ?case
  proof (cases "unat v < 128")
    case True
    then have "\<not> 0x7F < v" by (simp add: word_less_nat_alt)
    with True show ?thesis
      by (subst WriteVarint64Loop.simps) (simp add: varint_enc_small byte)
  next
    case False
    then have "0x7F < v" by (simp add: word_less_nat_alt)
    with False 1 show ?thesis
      by (subst WriteVarint64Loop.simps) (simp add: varint_enc_big cont unat_drop_bit)
  qed
qed

lemma ucast_part_or_128:
  assumes "s + 7 \<le> 32"
  shows "ucast (drop_bit s (ucast (drop_bit k v) :: uint32) OR 128) = vbyte v (k + s)"
proof -
  have "ucast (drop_bit s (ucast (drop_bit k v) :: uint32) OR 128) = (ucast (drop_bit (k + s) v OR 128) :: uint8)"
    using assms
    by (intro bit_word_eqI) (auto simp: bit_simps bit_128_int ac_simps)
  then show ?thesis
    by (simp add: ucast_or_128 vbyte_def unat_drop_bit)
qed


lemma varint_enc_shape:
  "n div 128 ^ k < 128 \<Longrightarrow> k = 0 \<or> 128 ^ k \<le> n \<Longrightarrow>
   varint_enc n = map (\<lambda>i. of_nat (n div 128 ^ i mod 128 + 128)) [0..<k] @ [of_nat (n div 128 ^ k)]"
proof (induction k arbitrary: n)
  case 0
  then show ?case by (simp add: varint_enc_small)
next
  case (Suc k)
  have big: "\<not> n < 128"
  proof -
    have "(128::nat) \<le> 128 ^ Suc k" by simp
    with Suc.prems(2) show ?thesis by linarith
  qed
  have "n div 128 div 128 ^ k < 128"
    using Suc.prems(1) by (simp add: div_mult2_eq)
  moreover have "k = 0 \<or> 128 ^ k \<le> n div 128"
    using Suc.prems(2) by (simp add: less_eq_div_iff_mult_less_eq mult.commute)
  ultimately have "varint_enc (n div 128) =
      map (\<lambda>i. of_nat (n div 128 div 128 ^ i mod 128 + 128)) [0..<k] @ [of_nat (n div 128 div 128 ^ k)]"
    by (rule Suc.IH)
  then show ?case
    using big by (simp add: varint_enc_big map_upt_Suc div_mult2_eq del: upt_Suc)
qed

lemma length_varint_enc_eq:
  "n < 128 ^ Suc k \<Longrightarrow> k = 0 \<or> 128 ^ k \<le> n \<Longrightarrow> length (varint_enc n) = Suc k"
proof -
  assume n: "n < 128 ^ Suc k" "k = 0 \<or> 128 ^ k \<le> n"
  then have "length (varint_enc n) \<le> Suc k"
    by (simp add: length_varint_enc_le_iff)
  moreover have "\<not> length (varint_enc n) \<le> k"
    using n length_varint_enc_le_iff [of n "k - 1"] by (cases k) auto
  ultimately show ?thesis by simp
qed

lemma WriteVarint64_size_eq:
  "WriteVarint64_size (ucast v) (ucast (drop_bit 28 v)) (ucast (drop_bit 56 v)) =
   length (varint_enc (unat v))" for v :: uint64
proof -
  define n where "n = unat v"
  have n: "n < 2 ^ 64"
    using unsigned_less [of v] by (simp add: n_def)
  have p0: "unat (ucast v :: uint32) = n mod 2 ^ 32"
    by (simp add: n_def unsigned_ucast_eq take_bit_eq_mod)
  have p1: "unat (ucast (drop_bit 28 v) :: uint32) = n div 2 ^ 28 mod 2 ^ 32"
    by (simp add: n_def unsigned_ucast_eq take_bit_eq_mod unat_drop_bit)
  have p2: "unat (ucast (drop_bit 56 v) :: uint32) = n div 2 ^ 56"
    using n by (simp add: n_def unsigned_ucast_eq take_bit_eq_mod unat_drop_bit)
  have len: "\<And>k. n < 128 ^ Suc k \<Longrightarrow> k = 0 \<or> 128 ^ k \<le> n \<Longrightarrow> length (varint_enc n) = Suc k"
    by (rule length_varint_enc_eq)
  have lo: "n < 2 ^ 28 \<Longrightarrow> n mod 2 ^ 32 = n"
    by simp
  have mid: "n < 2 ^ 56 \<Longrightarrow> n div 2 ^ 28 mod 2 ^ 32 = n div 2 ^ 28"
    by (rule mod_less) (simp add: div_less_iff_less_mult)
  let ?P = "\<lambda>s. WriteVarint64_size (ucast v) (ucast (drop_bit 28 v)) (ucast (drop_bit 56 v)) = s"
  note tree = WriteVarint64_size_def word_less_nat_alt unat_eq_zero [symmetric] p0 p1 p2
  consider "n < 128" | "128 \<le> n" "n < 128^2" | "128^2 \<le> n" "n < 128^3"
    | "128^3 \<le> n" "n < 128^4" | "128^4 \<le> n" "n < 128^5" | "128^5 \<le> n" "n < 128^6"
    | "128^6 \<le> n" "n < 128^7" | "128^7 \<le> n" "n < 128^8" | "128^8 \<le> n" "n < 128^9"
    | "128^9 \<le> n"
    by linarith
  then show ?thesis
  proof cases
    case 1
    then show ?thesis using len [of 0] n mid by (simp add: tree n_def [symmetric] div_less_iff_less_mult del: unat_eq_zero)
  next
    case 2
    then show ?thesis using len [of 1] n mid by (simp add: tree n_def [symmetric] div_less_iff_less_mult del: unat_eq_zero)
  next
    case 3
    then show ?thesis using len [of 2] n mid by (simp add: tree n_def [symmetric] div_less_iff_less_mult del: unat_eq_zero)
  next
    case 4
    then show ?thesis using len [of 3] n mid by (simp add: tree n_def [symmetric] div_less_iff_less_mult del: unat_eq_zero)
  next
    case 5
    then show ?thesis using len [of 4] n mid by (simp add: tree n_def [symmetric] div_less_iff_less_mult del: unat_eq_zero)
  next
    case 6
    then show ?thesis using len [of 5] n mid by (simp add: tree n_def [symmetric] div_less_iff_less_mult del: unat_eq_zero)
  next
    case 7
    then show ?thesis using len [of 6] n mid by (simp add: tree n_def [symmetric] div_less_iff_less_mult del: unat_eq_zero)
  next
    case 8
    then show ?thesis using len [of 7] n mid by (simp add: tree n_def [symmetric] div_less_iff_less_mult del: unat_eq_zero)
  next
    case 9
    then show ?thesis using len [of 8] n mid by (simp add: tree n_def [symmetric] div_less_iff_less_mult del: unat_eq_zero)
  next
    case 10
    then show ?thesis using len [of 9] n mid by (simp add: tree n_def [symmetric] div_less_iff_less_mult del: unat_eq_zero)
  qed
qed

lemma map_upt_update_last:
  "0 < k \<Longrightarrow> (map f [0..<k])[k - 1 := x] = map f [0..<k - 1] @ [x]"
  by (cases k) (simp_all add: list_update_append)


lemma vbyte_and_127: "vbyte v k AND 127 = of_nat (unat v div 2 ^ k mod 128)"
  by (rule word_unat_eq_iff [THEN iffD2])
    (simp add: vbyte_def unat_and_127 unat_of_nat mod_mod_cancel)

lemma length_varint_enc_64: "length (varint_enc (unat v)) \<le> 10" for v :: uint64
proof -
  have "unat v < 128 ^ Suc 9"
    using unat_less_2_64 [of v] by simp
  then show ?thesis
    using length_varint_enc_le_iff [of "unat v" 9] by simp
qed

lemma length_varint_enc_32: "length (varint_enc (unat v)) \<le> 5" for v :: uint32
proof -
  have "unat v < 128 ^ Suc 4"
    using unat_less_2_32 [of v] by simp
  then show ?thesis
    using length_varint_enc_le_iff [of "unat v" 4] by simp
qed

lemma WriteVarint64ToArrayInline_eq: "WriteVarint64ToArrayInline v = varint_enc (unat v)"
proof -
  let ?n = "unat v"
  let ?k = "length (varint_enc ?n)"
  have k: "0 < ?k" "?k \<le> 10"
    using length_varint_enc_64 by simp_all
  have entries: "[ucast (ucast v OR (128::uint32)), ucast (drop_bit 7 (ucast v :: uint32) OR 128),
     ucast (drop_bit 14 (ucast v :: uint32) OR 128), ucast (drop_bit 21 (ucast v :: uint32) OR 128),
     ucast (ucast (drop_bit 28 v) OR (128::uint32)), ucast (drop_bit 7 (ucast (drop_bit 28 v) :: uint32) OR 128),
     ucast (drop_bit 14 (ucast (drop_bit 28 v) :: uint32) OR 128), ucast (drop_bit 21 (ucast (drop_bit 28 v) :: uint32) OR 128),
     ucast (ucast (drop_bit 56 v) OR (128::uint32)), ucast (drop_bit 7 (ucast (drop_bit 56 v) :: uint32) OR 128)]
     = map (\<lambda>i. vbyte v (7 * i)) [0..<10]"
  proof -
    have s0: "ucast ((ucast (drop_bit k v) :: uint32) OR 128) = vbyte v k" for k
      using ucast_part_or_128 [of 0 k v] by simp
    have k0: "ucast (drop_bit s (ucast v :: uint32) OR 128) = vbyte v s" if "s + 7 \<le> 32" for s
      using ucast_part_or_128 [of s 0 v] that by simp
    have "ucast ((ucast v :: uint32) OR 128) = vbyte v 0"
      using s0 [of 0] by simp
    moreover have "[0..<10] = [0, 1, 2, 3, 4, 5, 6, 7, 8, 9 :: nat]"
      by (simp add: upt_rec)
    ultimately show ?thesis
      by (simp only: list.map s0 [of 28] s0 [of 56] k0 [of 7, simplified] k0 [of 14, simplified]
          k0 [of 21, simplified] ucast_part_or_128 [of 7 28, simplified]
          ucast_part_or_128 [of 14 28, simplified] ucast_part_or_128 [of 21 28, simplified]
          ucast_part_or_128 [of 7 56, simplified]) simp
  qed
  have "take ?k (map (\<lambda>i. vbyte v (7 * i)) [0..<10]) = map (\<lambda>i. vbyte v (7 * i)) [0..<?k]"
    using k by (simp add: take_map)
  moreover obtain m where m: "?k = Suc m"
    using k by (cases ?k) auto
  moreover have "?n div 128 ^ m < 128"
    using length_varint_enc_le_iff [of ?n m] m by (simp add: div_less_iff_less_mult)
  moreover have "m = 0 \<or> 128 ^ m \<le> ?n"
    using length_varint_enc_le_iff [of ?n "m - 1"] m by (cases m) auto
  moreover have last: "vbyte v (7 * m) AND 127 = of_nat (?n div 128 ^ m)"
    using calculation by (simp add: vbyte_and_127 power_mult)
  moreover have "varint_enc ?n = map (\<lambda>i. vbyte v (7 * i)) [0..<m] @ [of_nat (?n div 128 ^ m)]"
    using calculation varint_enc_shape [of ?n m] by (simp add: vbyte_def power_mult)
  ultimately show ?thesis
    unfolding WriteVarint64ToArrayInline_def Let_def WriteVarint64_size_eq entries
    by (simp add: list_update_append nth_append)
qed

section \<open>The readers compute the reference decoding\<close>

lemma next_b_drop:
  "0 \<le> p \<Longrightarrow> drop (nat p) mem = b # xs \<Longrightarrow> next_b mem p = Some (ucast b)"
  by (metis byte_at_Some drop_all linorder_not_le list.distinct(1) next_b_def nth_via_drop option.map(2))

lemma drop_Suc_ptr:
  "0 \<le> p \<Longrightarrow> drop (nat p) mem = b # xs \<Longrightarrow> drop (nat (p + 1)) mem = xs"
  by (metis add.commute drop_drop list.sel(3) nat_add_distrib nat_one_as_int one_add_one
      drop_Suc drop0 One_nat_def tl_drop zero_le_one of_nat_1 nat_int)

lemma ucast_and_128: "(ucast b AND 128 = (0 :: uint32)) \<longleftrightarrow> unat b < 128" for b :: uint8
proof -
  have "(ucast b AND 128 = (0 :: uint32)) \<longleftrightarrow> \<not> bit (ucast b :: uint32) 7"
    using and_exp_eq_0_iff_not_bit [of "ucast b :: uint32" 7] by simp
  also have "\<dots> \<longleftrightarrow> b AND 128 = 0"
    using and_exp_eq_0_iff_not_bit [of b 7] by (simp add: bit_simps)
  finally show ?thesis by (simp add: and_128_iff)
qed

lemma ucast_last: "unat b < 128 \<Longrightarrow> ucast b = (of_nat (unat b mod 128) :: 'a::len word)" for b :: uint8
  by simp

lemma ucast_cont: "\<not> unat b < 128 \<Longrightarrow> ucast b = (of_nat (unat b mod 128) + 128 :: 'a::len word)" for b :: uint8
proof -
  assume "\<not> unat b < 128"
  then have "unat b = unat b mod 128 + 128"
    using unat_less_256 [of b] by (simp add: le_mod_geq)
  then have "of_nat (unat b) = (of_nat (unat b mod 128) + 128 :: 'a word)"
    by (metis of_nat_add of_nat_numeral)
  then show ?thesis by simp
qed

lemma or_push_bit_add:
  "a < 2 ^ k \<Longrightarrow> of_nat a OR push_bit k w = of_nat a + push_bit k w" for w :: uint64
proof -
  assume a: "a < 2 ^ k"
  have "\<not> bit a n" if "k \<le> n" for n
    using a that by (metis bit_take_bit_iff linorder_not_le take_bit_nat_eq_self)
  then have "of_nat a + push_bit k w = of_nat a OR push_bit k w"
    by (intro disjunctive_add) (auto simp: bit_simps)
  then show ?thesis by simp
qed

lemma combine_parts_eq:
  assumes "q0 < 2 ^ 28" "q1 < 2 ^ 28" "q2 < 2 ^ 32"
  shows "combine_parts (of_nat q0) (of_nat q1) (of_nat q2) = of_nat (q0 + 2 ^ 28 * q1 + 2 ^ 56 * q2)"
proof -
  have c: "ucast (of_nat q :: uint32) = (of_nat q :: uint64)" if "q < 2 ^ 32" for q
    using that by (simp add: unsigned_of_nat take_bit_nat_eq_self)
  have "of_nat q0 OR push_bit 28 (of_nat q1) = (of_nat (q0 + 2 ^ 28 * q1) :: uint64)"
    using or_push_bit_add [OF assms(1)] by (simp add: push_bit_eq_mult mult.commute)
  moreover have "of_nat (q0 + 2 ^ 28 * q1) OR push_bit 56 (of_nat q2)
      = (of_nat (q0 + 2 ^ 28 * q1 + 2 ^ 56 * q2) :: uint64)"
  proof -
    have "q0 + 2 ^ 28 * q1 < 2 ^ 56"
      using assms(1,2) by simp
    from or_push_bit_add [OF this, of "of_nat q2"] show ?thesis
      by (simp add: push_bit_eq_mult mult.commute)
  qed
  ultimately show ?thesis
    using assms by (simp add: combine_parts_def c flip: or.assoc)
qed

lemma discard_high_bytes_eq:
  "0 \<le> p \<Longrightarrow> varint_split n (drop (nat p) mem) = Some (ds, r) \<Longrightarrow>
   discard_high_bytes n mem p = Some (True, p + int (length ds))"
proof (induction n mem p arbitrary: ds rule: discard_high_bytes.induct)
  case (2 n mem p)
  then obtain b xs where xs: "drop (nat p) mem = b # xs"
    by (cases "drop (nat p) mem") auto
  show ?case
  proof (cases "unat b < 128")
    case True
    with 2 xs show ?thesis
      by (auto simp: next_b_drop [OF _ xs] ucast_and_128)
  next
    case False
    with 2 xs obtain ds' where "varint_split n (drop (nat (p + 1)) mem) = Some (ds', r)" "ds = b # ds'"
      by (auto simp: drop_Suc_ptr [OF _ xs] split: option.splits)
    with 2 xs False show ?thesis
      by (simp add: next_b_drop [OF _ xs] ucast_and_128)
  qed
qed simp



text \<open>The unrolled code is a loop over the shift amounts.\<close>

fun part_add :: "nat \<times> nat \<Rightarrow> uint32 \<Rightarrow> uint32 \<times> uint32 \<times> uint32 \<Rightarrow> uint32 \<times> uint32 \<times> uint32" where
  "part_add (j, s) x (a, b, c) =
     (if j = 0 then (a + push_bit s x, b, c) else if j = 1 then (a, b + push_bit s x, c)
      else (a, b, c + push_bit s x))"

fun rd64 :: "(nat \<times> nat) list \<Rightarrow> uint32 \<times> uint32 \<times> uint32 \<Rightarrow> bytes \<Rightarrow> int \<Rightarrow> (uint64 option \<times> int) option" where
  "rd64 [] ps mem p = Some (None, p)"
| "rd64 (s # ss) ps mem p = do {
     b \<leftarrow> next_b mem p;
     if b AND 0x80 = 0 then
       Some (Some (case part_add s b ps of (x, y, z) \<Rightarrow> combine_parts x y z), p + 1)
     else rd64 ss (part_add s (- 0x80) (part_add s b ps)) mem (p + 1)
   }"

fun rd32 :: "nat list \<Rightarrow> uint32 \<Rightarrow> bytes \<Rightarrow> int \<Rightarrow> (uint32 option \<times> int) option" where
  "rd32 [] acc mem p = do {
     (ok, p) \<leftarrow> discard_high_bytes (kMaxVarintBytes - kMaxVarint32Bytes) mem p;
     Some (if ok then Some acc else None, p)
   }"
| "rd32 (s # ss) acc mem p = do {
     b \<leftarrow> next_b mem p;
     if b AND 0x80 = 0 then Some (Some (acc + push_bit s b), p + 1)
     else rd32 ss (acc + push_bit s b - push_bit s 0x80) mem (p + 1)
   }"

lemma rd32_code: "ReadVarint32FromArray f mem p = rd32 [7, 14, 21, 28] (f - 0x80) mem (p + 1)"
proof -
  have wrap: "(34630287488 :: uint32) = 270549120" by simp
  show ?thesis
    by (simp add: ReadVarint32FromArray_def Let_def algebra_simps wrap cong: if_cong)
qed

lemma rd64_code: "ReadVarint64FromArray mem p =
   rd64 [(0, 0), (0, 7), (0, 14), (0, 21), (1, 0), (1, 7), (1, 14), (1, 21), (2, 0), (2, 7)] (0, 0, 0) mem p"
  by (simp add: ReadVarint64FromArray_def Let_def algebra_simps cong: if_cong)


lemma rd32_eq:
  assumes "0 \<le> p" "i \<le> 5"
    and "varint_split (5 - i + 5) (drop (nat p) mem) = Some (ds, r)"
  shows "rd32 (map ((*) 7) [i..<5]) (of_nat v) mem p
    = Some (Some (of_nat (v + 2 ^ (7 * i) * leb ds)), p + int (length ds))"
  using assms
proof (induction "5 - i" arbitrary: i v p ds)
  case 0
  then have i: "i = 5" and "discard_high_bytes 5 mem p = Some (True, p + int (length ds))"
    using discard_high_bytes_eq [of p 5 mem ds r] by simp_all
  moreover have "of_nat (2 ^ 35 * leb ds) = (0 :: uint32)"
  proof -
    have wrap: "(34359738368 :: uint32) = 0" by simp
    show ?thesis by (simp add: wrap)
  qed
  ultimately show ?case
    by (simp add: kMaxVarintBytes_def kMaxVarint32Bytes_def)
next
  case (Suc n)
  then have i: "i < 5" and k: "5 - i + 5 = Suc (5 - Suc i + 5)" by simp_all
  have shifts: "map ((*) 7) [i..<5] = 7 * i # map ((*) 7) [Suc i..<5]"
    using i by (simp add: upt_conv_Cons)
  obtain b xs where xs: "drop (nat p) mem = b # xs"
    using Suc.prems k by (cases "drop (nat p) mem") auto
  note step = next_b_drop [OF Suc.prems(1) xs] drop_Suc_ptr [OF Suc.prems(1) xs]
  show ?case
  proof (cases "unat b < 128")
    case True
    then have "ds = [b]"
      using Suc.prems xs k by simp
    with True show ?thesis
      by (simp add: shifts step ucast_and_128 push_bit_eq_mult mult.commute)
  next
    case False
    then obtain ds' where ds': "varint_split (5 - Suc i + 5) (drop (nat (p + 1)) mem) = Some (ds', r)"
      "ds = b # ds'"
      using Suc.prems xs k by (auto simp: step split: option.splits)
    have "rd32 (map ((*) 7) [Suc i..<5]) (of_nat (v + 2 ^ (7 * i) * (unat b mod 128))) mem (p + 1)
      = Some (Some (of_nat (v + 2 ^ (7 * i) * (unat b mod 128) + 2 ^ (7 * Suc i) * leb ds')), p + 1 + int (length ds'))"
    proof (rule Suc.hyps(1))
      show "n = 5 - Suc i" using Suc.hyps(2) by simp
    qed (use Suc.prems(1) ds'(1) i in simp_all)
    moreover have "of_nat v + push_bit (7 * i) (ucast b) - push_bit (7 * i) 128
      = (of_nat (v + 2 ^ (7 * i) * (unat b mod 128)) :: uint32)"
      by (simp only: ucast_cont [OF False] push_bit_add) (simp add: push_bit_eq_mult mult.commute)
    ultimately show ?thesis
      using False by (simp add: shifts step ucast_and_128 ds'(2) algebra_simps power_add)
  qed
qed


definition part_shift :: "nat \<Rightarrow> nat \<times> nat" where
  "part_shift j = (j div 4, 7 * (j mod 4))"

definition parts_val :: "nat \<times> nat \<times> nat \<Rightarrow> nat" where
  "parts_val = (\<lambda>(a, b, c). a + 2 ^ 28 * b + 2 ^ 56 * c)"

definition parts_bounded :: "nat \<Rightarrow> nat \<times> nat \<times> nat \<Rightarrow> bool" where
  "parts_bounded i = (\<lambda>(a, b, c).
     a < 2 ^ (7 * min i 4) \<and> b < 2 ^ (7 * (min i 8 - 4)) \<and> c < 2 ^ (7 * (i - 8)))"

definition parts_word :: "nat \<times> nat \<times> nat \<Rightarrow> uint32 \<times> uint32 \<times> uint32" where
  "parts_word = (\<lambda>(a, b, c). (of_nat a, of_nat b, of_nat c))"

lemma part_add_step:
  assumes "i < 10" "parts_bounded i q" "d < 128"
  obtains q' where "part_add (part_shift i) (of_nat d) (parts_word q) = parts_word q'"
    "parts_bounded (Suc i) q'" "parts_val q' = parts_val q + 2 ^ (7 * i) * d"
proof -
  obtain a b c where q: "q = (a, b, c)" by (cases q)
  let ?q = "if i < 4 then (a + 2 ^ (7 * i) * d, b, c)
    else if i < 8 then (a, b + 2 ^ (7 * (i - 4)) * d, c) else (a, b, c + 2 ^ (7 * (i - 8)) * d)"
  have i: "i = 0 \<or> i = 1 \<or> i = 2 \<or> i = 3 \<or> i = 4 \<or> i = 5 \<or> i = 6 \<or> i = 7 \<or> i = 8 \<or> i = 9"
    using assms(1) by presburger
  have "part_add (part_shift i) (of_nat d) (parts_word q) = parts_word ?q"
    using i by (elim disjE) (simp_all add: q part_shift_def parts_word_def push_bit_eq_mult)
  moreover have "parts_bounded (Suc i) ?q"
    using i assms(2,3) by (elim disjE) (simp_all add: q parts_bounded_def)
  moreover have "parts_val ?q = parts_val q + 2 ^ (7 * i) * d"
    using i by (elim disjE) (simp_all add: q parts_val_def)
  ultimately show ?thesis by (rule that)
qed

lemma combine_parts_word:
  assumes "i \<le> 10" "parts_bounded i q"
  shows "(case parts_word q of (x, y, z) \<Rightarrow> combine_parts x y z) = of_nat (parts_val q)"
proof -
  obtain a b c where q: "q = (a, b, c)" by (cases q)
  have "(2::nat) ^ (7 * min i 4) \<le> 2 ^ 28" "(2::nat) ^ (7 * (min i 8 - 4)) \<le> 2 ^ 28"
    "(2::nat) ^ (7 * (i - 8)) \<le> 2 ^ 32"
    using assms(1) by (intro power_increasing; simp)+
  then have "a < 2 ^ 28" "b < 2 ^ 28" "c < 2 ^ 32"
    using assms(2) by (simp_all only: parts_bounded_def q prod.case)
      (meson order_less_le_trans)+
  then show ?thesis
    by (simp only: q parts_word_def parts_val_def prod.case combine_parts_eq)
qed

lemma part_add_sub: "part_add s (- 128) (part_add s (x + 128) ps) = part_add s x ps"
  by (cases s; cases ps) (simp add: push_bit_eq_mult algebra_simps)

lemma rd64_eq:
  assumes "0 \<le> p" "i \<le> 10" "parts_bounded i q"
    and "varint_split (10 - i) (drop (nat p) mem) = Some (ds, r)"
  shows "rd64 (map part_shift [i..<10]) (parts_word q) mem p
    = Some (Some (of_nat (parts_val q + 2 ^ (7 * i) * leb ds)), p + int (length ds))"
  using assms
proof (induction "10 - i" arbitrary: i q p ds)
  case 0
  then show ?case by simp
next
  case (Suc n)
  then have i: "i < 10" and k: "10 - i = Suc (10 - Suc i)" by simp_all
  have shifts: "map part_shift [i..<10] = part_shift i # map part_shift [Suc i..<10]"
    using i by (simp add: upt_conv_Cons)
  obtain b xs where xs: "drop (nat p) mem = b # xs"
    using Suc.prems k by (cases "drop (nat p) mem") auto
  note step = next_b_drop [OF Suc.prems(1) xs] drop_Suc_ptr [OF Suc.prems(1) xs]
  obtain q' where q': "part_add (part_shift i) (of_nat (unat b mod 128)) (parts_word q) = parts_word q'"
    "parts_bounded (Suc i) q'" "parts_val q' = parts_val q + 2 ^ (7 * i) * (unat b mod 128)"
    using part_add_step [OF i Suc.prems(3), of "unat b mod 128"] by auto
  show ?case
  proof (cases "unat b < 128")
    case True
    then have "ds = [b]"
      using Suc.prems xs k by simp
    moreover have "(case part_add (part_shift i) (ucast b) (parts_word q) of (x, y, z) \<Rightarrow> combine_parts x y z)
      = of_nat (parts_val q')"
      using combine_parts_word [OF _ q'(2)] i q'(1) by (simp add: ucast_last [OF True])
    ultimately show ?thesis
      using True q'(3) by (simp add: shifts step ucast_and_128)
  next
    case False
    then obtain ds' where ds': "varint_split (10 - Suc i) (drop (nat (p + 1)) mem) = Some (ds', r)"
      "ds = b # ds'"
      using Suc.prems xs k by (auto simp: step split: option.splits)
    have "rd64 (map part_shift [Suc i..<10]) (parts_word q') mem (p + 1)
      = Some (Some (of_nat (parts_val q' + 2 ^ (7 * Suc i) * leb ds')), p + 1 + int (length ds'))"
    proof (rule Suc.hyps(1))
      show "n = 10 - Suc i" using Suc.hyps(2) by simp
    qed (use Suc.prems(1) ds'(1) i q'(2) in simp_all)
    moreover have "part_add (part_shift i) (- 128) (part_add (part_shift i) (ucast b) (parts_word q)) = parts_word q'"
      by (simp only: ucast_cont [OF False] part_add_sub q'(1))
    ultimately show ?thesis
      using False by (simp add: shifts step ucast_and_128 ds'(2) q'(3) algebra_simps power_add)
  qed
qed

lemma ReadVarint64FromArray_eq:
  assumes "0 \<le> p" "varint_split 10 (drop (nat p) mem) = Some (ds, r)"
  shows "ReadVarint64FromArray mem p = Some (Some (of_nat (leb ds)), p + int (length ds))"
  using rd64_eq [of p 0 "(0, 0, 0)" mem ds r] assms
  by (simp add: rd64_code parts_bounded_def parts_word_def parts_val_def upt_rec part_shift_def)

lemma ReadVarint32FromArray_eq:
  assumes "0 \<le> p" "varint_split 10 (drop (nat p) mem) = Some (ds, r)"
    and "drop (nat p) mem = b # bs" "\<not> unat b < 128"
  shows "ReadVarint32FromArray (ucast b) mem p = Some (Some (of_nat (leb ds)), p + int (length ds))"
proof -
  obtain ds' where ds': "varint_split 9 (drop (nat (p + 1)) mem) = Some (ds', r)" "ds = b # ds'"
    using assms by (auto simp: drop_Suc_ptr [OF assms(1,3)] eval_nat_numeral split: option.splits)
  have "ucast b - 128 = (of_nat (unat b mod 128) :: uint32)"
    by (simp only: ucast_cont [OF assms(4)]) simp
  moreover have "[7, 14, 21, 28] = map ((*) 7) [1..<5 :: nat]"
    by (simp add: upt_rec)
  ultimately show ?thesis
    using rd32_eq [of "p + 1" 1 mem ds' r "unat b mod 128"] assms(1) ds'
    by (simp add: rd32_code algebra_simps)
qed


lemma varint_split_None_append:
  "varint_split k bs = None \<Longrightarrow> k \<le> length bs \<Longrightarrow> varint_split k (bs @ cs) = None"
  by (induction k bs rule: varint_split.induct) (auto split: if_splits option.splits)

lemma varint_split_last_None:
  "varint_split k bs = None \<Longrightarrow> bs \<noteq> [] \<Longrightarrow> unat (last bs) < 128 \<Longrightarrow> k \<le> length bs"
  by (induction k bs rule: varint_split.induct) (auto split: if_splits option.splits)

lemma discard_high_bytes_None:
  "0 \<le> p \<Longrightarrow> varint_split n (drop (nat p) mem) = None \<Longrightarrow> n \<le> length (drop (nat p) mem) \<Longrightarrow>
   discard_high_bytes n mem p = Some (False, p + int n)"
proof (induction n mem p rule: discard_high_bytes.induct)
  case (2 n mem p)
  then obtain b xs where xs: "drop (nat p) mem = b # xs"
    by (cases "drop (nat p) mem") auto
  with 2 show ?case
    by (auto simp: next_b_drop [OF _ xs] drop_Suc_ptr [OF _ xs] ucast_and_128 split: if_splits option.splits)
qed simp

lemma rd64_None:
  "0 \<le> p \<Longrightarrow> varint_split (length ss) (drop (nat p) mem) = None \<Longrightarrow> length ss \<le> length (drop (nat p) mem) \<Longrightarrow>
   rd64 ss ps mem p = Some (None, p + int (length ss))"
proof (induction ss ps mem p rule: rd64.induct)
  case (2 s ss ps mem p)
  then obtain b xs where xs: "drop (nat p) mem = b # xs"
    by (cases "drop (nat p) mem") auto
  with 2 show ?case
    by (auto simp: next_b_drop [OF _ xs] drop_Suc_ptr [OF _ xs] ucast_and_128 split: if_splits option.splits)
qed simp

lemma varint_split_Suc_None:
  "varint_split (Suc n) (b # xs) = None \<longleftrightarrow> \<not> unat b < 128 \<and> varint_split n xs = None"
  by (auto split: option.splits)

lemma rd32_None:
  "0 \<le> p \<Longrightarrow> varint_split (length ss + 5) (drop (nat p) mem) = None \<Longrightarrow> length ss + 5 \<le> length (drop (nat p) mem) \<Longrightarrow>
   rd32 ss acc mem p = Some (None, p + int (length ss + 5))"
proof (induction ss acc mem p rule: rd32.induct)
  case (1 acc mem p)
  then show ?case
    using discard_high_bytes_None [of p 5 mem] by (simp add: kMaxVarintBytes_def kMaxVarint32Bytes_def)
next
  case (2 s ss acc mem p)
  then obtain b xs where xs: "drop (nat p) mem = b # xs"
    by (cases "drop (nat p) mem") auto
  have n: "length (s # ss) + 5 = Suc (length ss + 5)" by simp
  have b: "\<not> unat b < 128" "varint_split (length ss + 5) xs = None" "length ss + 5 \<le> length xs"
    using "2.prems"(2,3) unfolding n xs varint_split_Suc_None by simp_all
  show ?case
    using "2.IH" [of "ucast b"] "2.prems"(1) b
    by (simp add: next_b_drop [OF "2.prems"(1) xs] drop_Suc_ptr [OF "2.prems"(1) xs] ucast_and_128)
qed

lemma ReadVarint64FromArray_overlong:
  assumes "0 \<le> p" "varint_split 10 (drop (nat p) mem) = None" "10 \<le> length (drop (nat p) mem)"
  shows "ReadVarint64FromArray mem p = Some (None, p + 10)"
proof -
  have ten: "length [(0, 0), (0, 7), (0, 14), (0, 21), (1, 0), (1, 7), (1, 14), (1, 21), (2, 0), (2::nat, 7::nat)] = 10"
    by simp
  show ?thesis
    unfolding rd64_code by (subst rd64_None) (use assms in \<open>simp_all only: ten\<close>, simp_all)
qed

lemma ReadVarint32FromArray_overlong:
  assumes "0 \<le> p" "varint_split 10 (drop (nat p) mem) = None" "10 \<le> length (drop (nat p) mem)"
  shows "ReadVarint32FromArray f mem p = Some (None, p + 10)"
proof -
  obtain b xs where xs: "drop (nat p) mem = b # xs"
    using assms by (cases "drop (nat p) mem") auto
  have "varint_split 9 xs = None" "9 \<le> length xs"
    using assms(2,3) xs by (auto simp: eval_nat_numeral split: if_splits option.splits)
  then show ?thesis
    unfolding rd32_code by (subst rd32_None) (use assms(1) in \<open>simp_all add: drop_Suc_ptr [OF assms(1) xs]\<close>)
qed

lemma byte_at_window:
  "0 \<le> p \<Longrightarrow> drop (nat p) mem = bs @ r \<Longrightarrow> i < length bs \<Longrightarrow> byte_at mem (p + int i) = Some (bs ! i)"
proof -
  assume p: "0 \<le> p" and d: "drop (nat p) mem = bs @ r" and i: "i < length bs"
  have n: "nat (p + int i) = nat p + i" using p by (simp add: nat_add_distrib)
  have "length (drop (nat p) mem) = length bs + length r" by (simp add: d)
  with i have "nat p + i < length mem" by simp
  moreover have "mem ! (nat p + i) = bs ! i"
    using d i calculation by (metis add_leD1 less_imp_le nth_append nth_drop)
  ultimately show ?thesis
    using p by (simp add: byte_at_def n)
qed

lemma ReadLittleEndian32_Write:
  assumes "0 \<le> p" "drop (nat p) mem = WriteLittleEndian32ToArray v @ r"
  shows "ReadLittleEndian32FromArray mem p = Some (v, p + 4)"
proof -
  have w: "length (WriteLittleEndian32ToArray v) = 4" by (simp add: WriteLittleEndian32ToArray_def)
  note at = byte_at_window [OF assms, unfolded w]
  have val: "ucast (ucast v :: uint8) OR push_bit 8 (ucast (ucast (drop_bit 8 v) :: uint8))
    OR push_bit 16 (ucast (ucast (drop_bit 16 v) :: uint8)) OR push_bit 24 (ucast (ucast (drop_bit 24 v) :: uint8)) = v"
  proof (rule bit_word_eqI)
    fix n
    show "bit (ucast (ucast v :: uint8) OR push_bit 8 (ucast (ucast (drop_bit 8 v) :: uint8))
      OR push_bit 16 (ucast (ucast (drop_bit 16 v) :: uint8))
      OR push_bit 24 (ucast (ucast (drop_bit 24 v) :: uint8)) :: uint32) n \<longleftrightarrow> bit v n" if "n < LENGTH(32)"
      using that by (cases "24 \<le> n"; cases "16 \<le> n") (auto simp: bit_simps)
  qed
  show ?thesis
    using at [of 0] at [of 1] at [of 2] at [of 3] val
    by (simp add: ReadLittleEndian32FromArray_def WriteLittleEndian32ToArray_def)
qed

lemma ReadLittleEndian64_Write:
  assumes "0 \<le> p" "drop (nat p) mem = WriteLittleEndian64ToArray v @ r"
  shows "ReadLittleEndian64FromArray mem p = Some (v, p + 8)"
proof -
  have w: "WriteLittleEndian64ToArray v =
      WriteLittleEndian32ToArray (ucast v) @ WriteLittleEndian32ToArray (ucast (drop_bit 32 v))"
    by (simp add: WriteLittleEndian32ToArray_def WriteLittleEndian64ToArray_def Let_def)
  have n4: "nat (p + 4) = nat p + 4" using assms(1) by simp
  have "drop (nat (p + 4)) mem = drop 4 (drop (nat p) mem)"
    by (simp add: n4 add.commute)
  also have "\<dots> = WriteLittleEndian32ToArray (ucast (drop_bit 32 v)) @ r"
    by (simp add: assms(2) w) (simp add: WriteLittleEndian32ToArray_def)
  finally have hi: "ReadLittleEndian32FromArray mem (p + 4) = Some (ucast (drop_bit 32 v), p + 8)"
    using assms(1) by (subst ReadLittleEndian32_Write [of "p + 4"]) (simp_all)
  have lo: "ReadLittleEndian32FromArray mem p = Some (ucast v, p + 4)"
    using assms by (intro ReadLittleEndian32_Write) (simp_all add: w)
  have val: "ucast (ucast v :: uint32) OR push_bit 32 (ucast (ucast (drop_bit 32 v) :: uint32)) = v"
    by (rule bit_word_eqI) (auto simp: bit_simps)
  from hi lo val show ?thesis
    by (auto simp: ReadLittleEndian32FromArray_def ReadLittleEndian64FromArray_def Let_def add.commute [of p])
qed

lemma VarintSize_StaticSize: "length (varint_enc (unat v)) = StaticVarintSize32 v"
proof -
  have len: "\<And>k. unat v < 128 ^ Suc k \<Longrightarrow> k = 0 \<or> 128 ^ k \<le> unat v \<Longrightarrow> length (varint_enc (unat v)) = Suc k"
    by (rule length_varint_enc_eq)
  show ?thesis
    using len [of 0] len [of 1] len [of 2] len [of 3] len [of 4] unat_less_2_32 [of v]
    by (simp add: StaticVarintSize32_def word_less_nat_alt)
qed

definition log2_inv :: "uint32 \<Rightarrow> nat \<Rightarrow> uint32 \<times> int \<Rightarrow> bool" where
  "log2_inv n k = (\<lambda>(value, log). \<exists>l. log = int l \<and> unat value = unat n div 2 ^ l \<and> 0 < unat value \<and> unat value < 2 ^ k)"

lemma log2_step_inv:
  "log2_inv n (2 * 2 ^ i) s \<Longrightarrow> log2_inv n (2 ^ i) (log2_step i s)"
proof -
  assume "log2_inv n (2 * 2 ^ i) s"
  moreover obtain value' log where s: "s = (value', log)" by (cases s)
  ultimately obtain l where l: "log = int l" "unat value' = unat n div 2 ^ l" "0 < unat value'"
    "unat value' < 2 ^ (2 * 2 ^ i)" by (auto simp: log2_inv_def)
  show ?thesis
  proof (cases "drop_bit (2 ^ i) value' = 0")
    case True
    then have "unat value' div 2 ^ 2 ^ i = 0" by (metis unat_0 unat_drop_bit)
    then have "unat value' < 2 ^ 2 ^ i" by (simp add: div_eq_0_iff)
    with True l show ?thesis by (auto simp: log2_inv_def log2_step_def s)
  next
    case False
    then have "0 < unat value' div 2 ^ 2 ^ i"
      by (metis unat_drop_bit unat_gt_0)
    moreover have "unat value' div 2 ^ 2 ^ i < 2 ^ 2 ^ i"
      using l(4) by (simp add: div_less_iff_less_mult mult_2 flip: power_add)
    ultimately show ?thesis
      using False l by (auto simp: log2_inv_def log2_step_def s unat_drop_bit intro!: exI [of _ "l + 2 ^ i"] simp flip: div_mult2_eq power_add)
  qed
qed

lemma Log2FloorNonZero_spec:
  assumes "n \<noteq> 0"
  obtains l where "Log2FloorNonZero n = int l" "2 ^ l \<le> unat n" "unat n < 2 ^ Suc l"
proof -
  have "log2_inv n 32 (n, 0)"
    using assms unat_less_2_32 [of n] by (auto simp: log2_inv_def unat_gt_0 intro!: exI [of _ 0])
  then have "log2_inv n 1 (fold log2_step [4, 3, 2, 1, 0] (n, 0))"
    using log2_step_inv [of n 4] log2_step_inv [of n 3] log2_step_inv [of n 2]
      log2_step_inv [of n 1] log2_step_inv [of n 0] by simp
  then obtain l where l: "snd (fold log2_step [4, 3, 2, 1, 0] (n, 0)) = int l" "unat n div 2 ^ l = 1"
    unfolding log2_inv_def by (auto simp: less_2_cases_iff split: prod.splits)
  have "2 ^ l \<le> unat n"
    using l(2) by (metis div_less less_irrefl not_le zero_less_one)
  moreover have "unat n < 2 ^ Suc l"
    using l(2) by (metis One_nat_def div_less_iff_less_mult lessI numeral_2_eq_2 power_Suc zero_less_numeral zero_less_power)
  ultimately show ?thesis
    using l(1) assms that by (simp add: Log2FloorNonZero_def)
qed

section \<open>The size functions compute the length of the encoding\<close>

lemma length_varint_enc_log2:
  assumes "2 ^ l \<le> n" "n < 2 ^ Suc l"
  shows "length (varint_enc n) = Suc (l div 7)"
proof (rule length_varint_enc_eq)
  have "(128 :: nat) ^ k = 2 ^ (7 * k)" for k by (simp add: power_mult)
  moreover have "(2::nat) ^ Suc l \<le> 2 ^ (7 * Suc (l div 7))" "(2::nat) ^ (7 * (l div 7)) \<le> 2 ^ l"
    by (intro power_increasing; simp)+
  ultimately have "2 ^ Suc l \<le> (128::nat) ^ Suc (l div 7)" "(128::nat) ^ (l div 7) \<le> 2 ^ l"
    by (simp_all only:)
  then show "n < 128 ^ Suc (l div 7)" "l div 7 = 0 \<or> 128 ^ (l div 7) \<le> n"
    using assms by (meson order_less_le_trans order_trans)+
qed

lemma sdiv_7: "int l sdiv 7 = int (l div 7)"
  by (simp add: signed_divide_int_def sgn_if zdiv_int)

lemma VarintSize32Fallback_eq:
  assumes "v \<noteq> 0"
  shows "VarintSize32Fallback v = length (varint_enc (unat v))"
proof -
  obtain l where "Log2FloorNonZero v = int l" "2 ^ l \<le> unat v" "unat v < 2 ^ Suc l"
    using Log2FloorNonZero_spec [OF assms] by blast
  then show ?thesis
    by (simp add: VarintSize32Fallback_def length_varint_enc_log2 sdiv_7 nat_add_distrib)
qed

lemma VarintSize32_eq: "VarintSize32 v = length (varint_enc (unat v))"
proof (cases "v < 2 ^ 7")
  case True
  then show ?thesis
    by (simp add: VarintSize32_def varint_enc_small word_less_nat_alt)
next
  case False
  then have "v \<noteq> 0" by auto
  with False show ?thesis
    using VarintSize32Fallback_eq [of v] by (simp add: VarintSize32_def)
qed

lemma Log2FloorNonZero64_spec:
  assumes "n \<noteq> 0"
  obtains l where "Log2FloorNonZero64 n = int l" "2 ^ l \<le> unat n" "unat n < 2 ^ Suc l"
proof -
  let ?top = "ucast (drop_bit 32 n) :: uint32" and ?low = "ucast n :: uint32"
  have top: "unat ?top = unat n div 2 ^ 32"
    using unat_less_2_64 [of n]
    by (simp add: unsigned_ucast_eq take_bit_eq_mod unat_drop_bit)
  have low: "unat ?low = unat n mod 2 ^ 32"
    by (simp add: unsigned_ucast_eq take_bit_eq_mod)
  show ?thesis
  proof (cases "?top = 0")
    case True
    then have z: "unat n div 2 ^ 32 = 0" using top by simp
    then have l: "unat ?low = unat n" using low by (simp add: div_eq_0_iff)
    have "?low \<noteq> 0"
    proof
      assume "?low = 0"
      then have "unat n = 0" using l by (simp only: unat_0)
      with assms show False by (simp add: word_unat_eq_iff)
    qed
    then obtain k where "Log2FloorNonZero ?low = int k" "2 ^ k \<le> unat ?low" "unat ?low < 2 ^ Suc k"
      using Log2FloorNonZero_spec [of ?low] by blast
    then show ?thesis
      using l that [of k] True by (simp add: Log2FloorNonZero64_def Let_def)
  next
    case False
    then obtain l where l: "Log2FloorNonZero ?top = int l" "2 ^ l \<le> unat n div 2 ^ 32" "unat n div 2 ^ 32 < 2 ^ Suc l"
      using Log2FloorNonZero_spec [of ?top] unfolding top by blast
    have "2 ^ (32 + l) \<le> unat n"
      using l(2) by (simp add: less_eq_div_iff_mult_less_eq power_add mult.commute)
    moreover have "unat n < 2 ^ Suc (32 + l)"
      using l(3) by (simp add: div_less_iff_less_mult power_add mult.commute)
    ultimately show ?thesis
      using that [of "32 + l"] False l(1) by (simp add: Log2FloorNonZero64_def Let_def)
  qed
qed

lemma VarintSize64_eq: "VarintSize64 v = length (varint_enc (unat v))"
proof (cases "v < 2 ^ 7")
  case True
  then show ?thesis
    by (simp add: VarintSize64_def varint_enc_small word_less_nat_alt)
next
  case False
  then have "v \<noteq> 0" by auto
  then obtain l where "Log2FloorNonZero64 v = int l" "2 ^ l \<le> unat v" "unat v < 2 ^ Suc l"
    using Log2FloorNonZero64_spec by blast
  with False show ?thesis
    by (simp add: VarintSize64_def length_varint_enc_log2 sdiv_7 nat_add_distrib)
qed

lemma sint_uint_32: "sint v = uint v - (if bit (uint v) 31 then 2 ^ 32 else 0)" for v :: uint32
proof -
  have "uint v mod 2 ^ 32 = uint v"
    using unsigned_less [of v, where ?'a = int] by (intro mod_pos_pos_trivial) simp_all
  then show ?thesis
    by (simp add: sint_uint signed_take_bit_eq_take_bit_minus take_bit_eq_mod)
qed

lemma uint_scast_64: "uint (scast v :: uint64) = sint v mod 2 ^ 64" for v :: uint32
  by (simp only: scast_eq uint_word_of_int) simp

lemma int_unat: "uint x = k \<Longrightarrow> int (unat x) = k"
  by simp

lemma mod_wrap_64: "0 \<le> u \<Longrightarrow> u < 2 ^ 32 \<Longrightarrow> (u - 2 ^ 32) mod 2 ^ 64 = u + (18446744069414584320 :: int)"
  using mod_pos_pos_trivial [of "u + 18446744069414584320" "2 ^ 64"]
    mod_add_self2 [of "u - 2 ^ 32" "2 ^ 64"]
  by (simp add: algebra_simps)

lemma unat_scast_neg:
  fixes v :: uint32
  assumes "sint v < 0"
  shows "unat (scast v :: uint64) = unat v + 18446744069414584320"
proof -
  have v: "0 \<le> uint v" "uint v < 2 ^ 32"
    using unsigned_less [of v, where ?'a = int] by simp_all
  have "sint v = uint v - 2 ^ 32"
    using assms v sint_uint_32 [of v] by (simp split: if_splits)
  then have "sint v mod 2 ^ 64 = uint v + 18446744069414584320"
    using mod_wrap_64 [OF v] by simp
  with int_unat [OF uint_scast_64 [of v]] int_unat [OF refl, of v]
  show ?thesis by linarith
qed

lemma unat_scast_nonneg:
  fixes v :: uint32
  assumes "\<not> sint v < 0"
  shows "unat (scast v :: uint64) = unat v"
proof -
  have v: "0 \<le> uint v" "uint v < 2 ^ 32"
    using unsigned_less [of v, where ?'a = int] by simp_all
  have "sint v = uint v"
    using assms v sint_uint_32 [of v] by (simp split: if_splits)
  then have "sint v mod 2 ^ 64 = uint v"
    using v by simp
  with int_unat [OF uint_scast_64 [of v]] int_unat [OF refl, of v]
  show ?thesis by linarith
qed

lemma WriteVarint32SignExtendedToArray_eq:
  "WriteVarint32SignExtendedToArray v = varint_enc (unat (scast v :: uint64))"
proof (cases "sint v < 0")
  case True
  then show ?thesis
    by (simp add: WriteVarint32SignExtendedToArray_def WriteVarint64ToArray_def WriteVarint64ToArrayInline_eq)
next
  case False
  then have "unat (scast v :: uint64) = unat v"
    using unat_scast_nonneg [of v] by simp
  with False show ?thesis
    by (simp add: WriteVarint32SignExtendedToArray_def WriteVarint32ToArray_eq)
qed

lemma VarintSize32SignExtended_eq:
  "VarintSize32SignExtended v = length (WriteVarint32SignExtendedToArray v)"
proof (cases "sint v < 0")
  case True
  have "unat (scast v :: uint64) < 128 ^ Suc 9" "128 ^ 9 \<le> unat (scast v :: uint64)"
    using unat_less_2_32 [of v] by (simp_all add: unat_scast_neg [OF True])
  then have "length (varint_enc (unat (scast v :: uint64))) = 10"
    using length_varint_enc_eq [of _ 9] by simp
  with True show ?thesis
    by (simp add: VarintSize32SignExtended_def WriteVarint32SignExtendedToArray_eq)
next
  case False
  then show ?thesis
    by (simp add: VarintSize32SignExtended_def WriteVarint32SignExtendedToArray_def VarintSize32_eq WriteVarint32ToArray_eq)
qed

lemma unat_ucast_mod: "unat (ucast x :: 'b::len word) = unat x mod 2 ^ LENGTH('b)" for x :: "'a::len word"
  by (simp only: unsigned_ucast_eq take_bit_eq_mod)

lemma WriteTagToArray_1: "t < 2 ^ 7 \<Longrightarrow> WriteTagToArray t = [ucast t]"
  by (simp add: WriteTagToArray_def WriteVarint32ToArray.simps [of t] linorder_not_le [symmetric])

lemma WriteTagToArray_2:
  assumes "\<not> t < 2 ^ 7" "t < 2 ^ 14"
  shows "WriteTagToArray t = [ucast (t OR 128), ucast (drop_bit 7 t)]"
proof -
  have "drop_bit 7 t < 128"
    using assms(2) by (simp add: word_less_nat_alt unat_drop_bit div_less_iff_less_mult)
  then show ?thesis
    using assms(1) by (simp add: WriteTagToArray_def WriteVarint32ToArray.simps [of t]
        WriteVarint32ToArray.simps [of "drop_bit 7 t"] linorder_not_le [symmetric])
qed

lemma ExpectTagFromArray_hit:
  assumes "0 \<le> p" "drop (nat p) mem = WriteTagToArray t @ r" "t < 2 ^ 14"
  shows "ExpectTagFromArray mem p t = Some (Some (p + int (length (WriteTagToArray t))))"
proof -
  note at = byte_at_window [OF assms(1,2)]
  show ?thesis
  proof (cases "t < 2 ^ 7")
    case True
    note WriteTagToArray_1 [OF True]
    moreover have "ucast (ucast t :: uint8) = t"
      unfolding word_unat_eq_iff unat_ucast_mod using True by (simp add: word_less_nat_alt)
    ultimately show ?thesis
      using True at [of 0] by (simp add: ExpectTagFromArray_def)
  next
    case False
    show ?thesis
      using False WriteTagToArray_2 [OF False assms(3)] assms(3) at [of 0] at [of 1] by (simp add: ExpectTagFromArray_def)
  qed
qed

lemma ExpectTagFromArray_sound:
  assumes "ExpectTagFromArray mem p t = Some (Some q)"
  shows "\<exists>r. drop (nat p) mem = WriteTagToArray t @ r \<and> q = p + int (length (WriteTagToArray t))"
proof (cases "t < 2 ^ 7")
  case True
  note w = WriteTagToArray_1 [OF True]
  have "b = ucast t" if "ucast b = t" for b :: uint8
    using that unat_less_256 [of b] unfolding word_unat_eq_iff unat_ucast_mod by simp
  with True assms show ?thesis
    by (auto simp: ExpectTagFromArray_def w dest!: byte_at_drop split: if_splits)
next
  case False
  with assms have t: "t < 2 ^ 14" by (auto simp: ExpectTagFromArray_def split: if_splits)
  note w = WriteTagToArray_2 [OF False t]
  have b: "byte_at mem p = Some (ucast (t OR 128))" "byte_at mem (p + 1) = Some (ucast (drop_bit 7 t))" "q = p + 2"
    using assms False t by (auto simp: ExpectTagFromArray_def split: if_splits)
  then have "0 \<le> p" by (auto simp: byte_at_def split: if_splits)
  then have "nat (p + 1) = Suc (nat p)" by simp
  with b show ?thesis
    using byte_at_drop [OF b(1)] byte_at_drop [OF b(2)] by (auto simp: w)
qed

section \<open>Every block of bytes is a fixed-width integer\<close>

lemma WriteLittleEndian32_surj:
  assumes "length bs = 4"
  obtains v where "bs = WriteLittleEndian32ToArray v"
proof -
  obtain b0 b1 b2 b3 where bs: "bs = [b0, b1, b2, b3]"
    using assms by (auto simp: length_Suc_conv eval_nat_numeral)
  let ?v = "ucast b0 OR push_bit 8 (ucast b1) OR push_bit 16 (ucast b2) OR push_bit 24 (ucast b3) :: uint32"
  have "ucast ?v = b0" "ucast (drop_bit 8 ?v) = b1" "ucast (drop_bit 16 ?v) = b2" "ucast (drop_bit 24 ?v) = b3"
    by (rule bit_word_eqI; auto simp: bit_simps dest: bit_imp_le_length)+
  then have "bs = WriteLittleEndian32ToArray ?v"
    by (simp only: bs WriteLittleEndian32ToArray_def)
  then show ?thesis by (rule that)
qed

lemma WriteLittleEndian64_split:
  "WriteLittleEndian64ToArray v =
     WriteLittleEndian32ToArray (ucast v) @ WriteLittleEndian32ToArray (ucast (drop_bit 32 v))"
  by (simp add: WriteLittleEndian32ToArray_def WriteLittleEndian64ToArray_def Let_def)

lemma WriteLittleEndian64_surj:
  assumes "length bs = 8"
  obtains v where "bs = WriteLittleEndian64ToArray v"
proof -
  obtain a b where ab: "take 4 bs = WriteLittleEndian32ToArray a" "drop 4 bs = WriteLittleEndian32ToArray b"
    using WriteLittleEndian32_surj [of "take 4 bs"] WriteLittleEndian32_surj [of "drop 4 bs"] assms by (metis diff_numeral_simps(1) length_drop length_take min_def numeral_le_iff semiring_norm(69) semiring_norm(71) semiring_norm(76) diff_cancel2 numeral_Bit0 add_diff_cancel_left')
  let ?v = "ucast a OR push_bit 32 (ucast b) :: uint64"
  have "ucast ?v = a" "ucast (drop_bit 32 ?v) = b"
    by (rule bit_word_eqI; auto simp: bit_simps dest: bit_imp_le_length)+
  then have "bs = WriteLittleEndian64ToArray ?v"
    using append_take_drop_id [of 4 bs] by (simp only: WriteLittleEndian64_split ab)
  then show ?thesis by (rule that)
qed

lemma length_WriteLittleEndian [simp]:
  "length (WriteLittleEndian32ToArray v) = 4" "length (WriteLittleEndian64ToArray w) = 8"
  by (simp_all add: WriteLittleEndian32ToArray_def WriteLittleEndian64ToArray_def Let_def)

declare bind_eq_Some [simp del]

end
