(* ===== verification/Codec_Properties.thy ===== *)
theory Codec_Properties
  imports Varint
begin

text \<open>
  The properties of the codec on plain arrays (theory \<open>Varint\<close>): what the readers make of what the
  writers produce, at any offset of a larger buffer, and what they do with input no writer produces.
\<close>

text \<open>C19. A 64-bit value written by \<open>WriteVarint64ToArray\<close> anywhere in a buffer is read back by
  \<open>ReadVarint64FromArray\<close>, which stops right behind it and reads no byte past it.\<close>

theorem varint64_roundtrip:
  "ReadVarint64FromArray (before @ WriteVarint64ToArray v @ after) (int (length before)) =
     Some (Some v, int (length before) + int (length (WriteVarint64ToArray v)))"
  using varint_split_enc [OF length_varint_enc_64 [of v], of after]
  by (subst ReadVarint64FromArray_eq [where ds = "WriteVarint64ToArray v" and r = after])
    (simp_all add: WriteVarint64ToArray_def WriteVarint64ToArrayInline_eq)

text \<open>The 32-bit reader accepts every encoding the 64-bit writer makes, the ten-byte encodings
  of negative numbers included, and returns the low 32 bits. Its caller has looked at the first
  byte, which has its top bit set.\<close>

theorem varint32_reads_varint64:
  assumes "128 \<le> v"
  shows "ReadVarint32FromArray (ucast (hd (WriteVarint64ToArray v)))
      (before @ WriteVarint64ToArray v @ after) (int (length before)) =
    Some (Some (ucast v), int (length before) + int (length (WriteVarint64ToArray v)))"
proof -
  have big: "\<not> unat v < 128"
    using assms by (simp add: word_le_nat_alt)
  have enc: "WriteVarint64ToArray v = varint_enc (unat v)"
    by (simp add: WriteVarint64ToArray_def WriteVarint64ToArrayInline_eq)
  have split: "varint_split 10 (varint_enc (unat v) @ after) = Some (varint_enc (unat v), after)"
    by (rule varint_split_enc [OF length_varint_enc_64])
  obtain b bs where b: "varint_enc (unat v) = b # bs" "\<not> unat b < 128"
    using that by (simp add: varint_enc_big [OF big])
  have leb: "leb (b # bs) = unat v"
    by (simp only: leb_varint_enc flip: b(1))
  have "ReadVarint32FromArray (ucast b) (before @ (b # bs) @ after) (int (length before)) =
      Some (Some (of_nat (leb (b # bs))), int (length before) + int (length (b # bs)))"
    using split b by (intro ReadVarint32FromArray_eq [where r = after and bs = "bs @ after"]) auto
  then show ?thesis
    unfolding leb enc b(1) by simp
qed

theorem varint32_reads_varint64_witness:
  "ReadVarint32FromArray 0xAC [7, 0xAC, 2, 9] 1 = Some (Some 300, 3)"
  using varint32_reads_varint64 [of 300 "[7]" "[9]"]
  by (simp add: WriteVarint64ToArray_def WriteVarint64ToArrayInline_eq varint_enc.simps)

text \<open>A varint of more than ten bytes is rejected by both readers, which look at its first ten
  bytes and no further.\<close>

theorem overlong_varint_rejected:
  assumes "10 \<le> length bs" "\<forall>b \<in> set (take 10 bs). 128 \<le> b"
  shows "ReadVarint64FromArray (before @ bs) (int (length before)) = Some (None, int (length before) + 10) \<and>
    ReadVarint32FromArray first (before @ bs) (int (length before)) = Some (None, int (length before) + 10)"
proof -
  have "varint_split n bs = None" if "n \<le> length bs" "\<forall>b \<in> set (take n bs). 128 \<le> b" for n
    using that
  proof (induction n bs rule: varint_split.induct)
    case (3 n b bs)
    then show ?case by (simp add: word_le_nat_alt)
  qed auto
  with assms have none: "varint_split 10 bs = None" by simp
  show ?thesis
    using none assms(1)
    by (intro conjI ReadVarint64FromArray_overlong ReadVarint32FromArray_overlong) simp_all
qed

theorem overlong_varint_rejected_witness:
  "ReadVarint64FromArray ([5] @ replicate 11 255) 1 = Some (None, 11) \<and>
   ReadVarint32FromArray 255 ([5] @ replicate 11 255) 1 = Some (None, 11)"
  using overlong_varint_rejected [of "replicate 11 255" "[5]" 255] by simp

text \<open>The hand-unrolled 64-bit writer, the writer's slow loop and the 32-bit writer produce the
  same bytes for the same number, and the sign-extending writer those of the extended number.\<close>

theorem varint_writers_agree:
  "WriteVarint64Loop v = WriteVarint64ToArrayInline v \<and>
   WriteVarint32ToArray w = WriteVarint64ToArrayInline (ucast w) \<and>
   WriteVarint32SignExtendedToArray w = WriteVarint64ToArrayInline (scast w)"
  by (simp add: WriteVarint64Loop_eq WriteVarint64ToArrayInline_eq WriteVarint32ToArray_eq
      WriteVarint32SignExtendedToArray_eq unat_ucast_mod mod_less unat_less_2_32 [THEN less_trans])

text \<open>The size functions, which compute with the position of the top bit, are exact: they give
  the number of bytes the writers produce.\<close>

theorem varint_sizes_exact:
  "VarintSize64 v = length (WriteVarint64ToArray v) \<and>
   VarintSize32 w = length (WriteVarint32ToArray w) \<and>
   StaticVarintSize32 w = length (WriteVarint32ToArray w) \<and>
   VarintSize32SignExtended w = length (WriteVarint32SignExtendedToArray w) \<and>
   VarintSize64 v \<le> kMaxVarintBytes \<and> VarintSize32 w \<le> kMaxVarint32Bytes"
  by (simp add: VarintSize64_eq VarintSize32_eq VarintSize_StaticSize VarintSize32SignExtended_eq
      WriteVarint32ToArray_eq WriteVarint64ToArray_def WriteVarint64ToArrayInline_eq
      length_varint_enc_64 length_varint_enc_32 kMaxVarintBytes_def kMaxVarint32Bytes_def
      flip: VarintSize_StaticSize)

text \<open>Fixed-width integers survive the trip through a buffer, and every eight bytes are the
  encoding of the number the reader returns.\<close>

theorem little_endian_roundtrip:
  "ReadLittleEndian32FromArray (before @ WriteLittleEndian32ToArray v @ after) (int (length before)) =
     Some (v, int (length before) + 4) \<and>
   ReadLittleEndian64FromArray (before @ WriteLittleEndian64ToArray w @ after) (int (length before)) =
     Some (w, int (length before) + 8)"
  using ReadLittleEndian32_Write [of "int (length before)" "before @ WriteLittleEndian32ToArray v @ after" v after]
    ReadLittleEndian64_Write [of "int (length before)" "before @ WriteLittleEndian64ToArray w @ after" w after]
  by simp

text \<open>\<open>ExpectTagFromArray\<close> answers yes exactly when the buffer holds the canonical encoding of
  the tag (of at most two bytes), and then points behind it; a larger tag is never found.\<close>

theorem expect_tag_from_array_iff:
  "ExpectTagFromArray mem (int p) tag = Some (Some q) \<longleftrightarrow>
     tag < 2 ^ 14 \<and>
     (\<exists>after. drop p mem = WriteTagToArray tag @ after \<and> q = int p + int (length (WriteTagToArray tag)))"
proof
  assume found: "ExpectTagFromArray mem (int p) tag = Some (Some q)"
  then have "tag < 2 ^ 14"
    by (auto simp: ExpectTagFromArray_def word_less_nat_alt split: if_splits)
  with ExpectTagFromArray_sound [OF found]
  show "tag < 2 ^ 14 \<and>
     (\<exists>after. drop p mem = WriteTagToArray tag @ after \<and> q = int p + int (length (WriteTagToArray tag)))"
    by simp
next
  assume "tag < 2 ^ 14 \<and>
     (\<exists>after. drop p mem = WriteTagToArray tag @ after \<and> q = int p + int (length (WriteTagToArray tag)))"
  then show "ExpectTagFromArray mem (int p) tag = Some (Some q)"
    using ExpectTagFromArray_hit [of "int p" mem tag] by auto
qed

end
