(* ===== verification/Zero_Copy.thy ===== *)
theory Zero_Copy
  imports Wire_Prelude
begin

text \<open>
  The interfaces of \<open>io/zero_copy_stream.h\<close>. A stream class is a record of its virtual
  functions over the type of the object's state; the contracts that the header comments state
  are the locales \<open>zero_copy_input\<close> and \<open>zero_copy_output\<close>. A client (the coded streams, the
  concatenating and the limiting stream) is a function of the record, so it works on every
  implementation, and its lemmas are proved from the contract.

  An input buffer handed out by \<open>Next()\<close> is the list of its bytes. An output buffer is an address
  in the stream's own memory and a size, and stores through the pointer are the operation
  \<open>out_poke\<close>, so that what the client wrote is found again in the stream's target.
\<close>

section \<open>The virtual function tables\<close>

record 's zc_input_ops =
  in_next :: "'s \<Rightarrow> (bytes option \<times> 's) option"
  in_backup :: "int \<Rightarrow> 's \<Rightarrow> 's option"
  in_skip :: "int \<Rightarrow> 's \<Rightarrow> (bool \<times> 's) option"
  in_bytecount :: "'s \<Rightarrow> int"

record 's zc_output_ops =
  out_next :: "'s \<Rightarrow> ((nat \<times> nat) option \<times> 's) option"
  out_backup :: "int \<Rightarrow> 's \<Rightarrow> 's option"
  out_bytecount :: "'s \<Rightarrow> int option"
  out_poke :: "nat \<Rightarrow> bytes \<Rightarrow> 's \<Rightarrow> 's"
  out_write_aliased :: "bytes \<Rightarrow> 's \<Rightarrow> (bool \<times> 's) option"
  out_allows_aliasing :: bool

partial_function (option) NextNonEmpty :: "'s zc_input_ops \<Rightarrow> 's \<Rightarrow> (bytes option \<times> 's) option" where
  \<comment> \<open>\<open>do success = input->Next(data, size); while (success && *size == 0)\<close>\<close>
  "NextNonEmpty ops s = do {
     (r, s') \<leftarrow> in_next ops s;
     if r = Some [] then NextNonEmpty ops s' else Some (r, s')
   }"

definition suffix_of :: "nat \<Rightarrow> bytes \<Rightarrow> bytes" where
  \<comment> \<open>The last \<open>n\<close> bytes.\<close>
  "suffix_of n bs = drop (length bs - n) bs"

lemma suffix_of_0 [simp]: "suffix_of 0 bs = []"
  by (simp add: suffix_of_def)

lemma length_suffix_of [simp]: "n \<le> length bs \<Longrightarrow> length (suffix_of n bs) = n"
  by (simp add: suffix_of_def)

lemma suffix_of_append [simp]: "n \<le> length bs \<Longrightarrow> suffix_of n (as @ bs) = suffix_of n bs"
  by (simp add: suffix_of_def)

lemma suffix_of_all [simp]: "length bs \<le> n \<Longrightarrow> suffix_of n bs = bs"
  by (simp add: suffix_of_def)

section \<open>The contract of an input stream\<close>

locale zero_copy_input =
  fixes ops :: "'s zc_input_ops"
    and inv :: "'s \<Rightarrow> bool"
    and rest :: "'s \<Rightarrow> bytes"
    and last_chunk :: "'s \<Rightarrow> bytes"
    and empties :: "'s \<Rightarrow> nat"
  assumes next_ok: "inv s \<Longrightarrow> \<exists>r s'. in_next ops s = Some (r, s') \<and> inv s' \<and>
      (case r of
         None \<Rightarrow> rest s = [] \<and> rest s' = [] \<and> in_bytecount ops s' = in_bytecount ops s
       | Some c \<Rightarrow> rest s = c @ rest s' \<and> (\<exists>p. last_chunk s' = p @ c) \<and>
           in_bytecount ops s' = in_bytecount ops s + int (length c) \<and>
           (c = [] \<longrightarrow> empties s' < empties s))"
    and backup_ok: "inv s \<Longrightarrow> 0 < n \<Longrightarrow> n \<le> length (last_chunk s) \<Longrightarrow>
      \<exists>s'. in_backup ops (int n) s = Some s' \<and> inv s' \<and>
        rest s' = suffix_of n (last_chunk s) @ rest s \<and>
        in_bytecount ops s' = in_bytecount ops s - int n"
    and skip_ok: "inv s \<Longrightarrow> \<exists>b s'. in_skip ops (int n) s = Some (b, s') \<and> inv s' \<and>
      rest s' = drop n (rest s) \<and>
      in_bytecount ops s' = in_bytecount ops s + int (min n (length (rest s))) \<and>
      (b \<longrightarrow> n \<le> length (rest s)) \<and> (\<not> b \<longrightarrow> rest s' = []) \<and>
      (0 < n \<longrightarrow> n \<le> length (rest s) \<longrightarrow> b)"
begin

lemma NextNonEmpty_ok:
  "inv s \<Longrightarrow> \<exists>r s'. NextNonEmpty ops s = Some (r, s') \<and> inv s' \<and>
     in_bytecount ops s' = in_bytecount ops s + int (length (rest s)) - int (length (rest s')) \<and>
     (case r of None \<Rightarrow> rest s = [] \<and> rest s' = []
      | Some c \<Rightarrow> c \<noteq> [] \<and> rest s = c @ rest s' \<and> (\<exists>p. last_chunk s' = p @ c))"
proof (induction "empties s" arbitrary: s rule: less_induct)
  case less
  obtain r s' where step: "in_next ops s = Some (r, s')" "inv s'"
    and law: "case r of
         None \<Rightarrow> rest s = [] \<and> rest s' = [] \<and> in_bytecount ops s' = in_bytecount ops s
       | Some c \<Rightarrow> rest s = c @ rest s' \<and> (\<exists>p. last_chunk s' = p @ c) \<and>
           in_bytecount ops s' = in_bytecount ops s + int (length c) \<and>
           (c = [] \<longrightarrow> empties s' < empties s)"
    using next_ok [OF less.prems] by blast
  show ?case
  proof (cases "r = Some []")
    case True
    with law have eq: "rest s' = rest s" "in_bytecount ops s' = in_bytecount ops s"
      and "empties s' < empties s"
      by simp_all
    moreover have "NextNonEmpty ops s = NextNonEmpty ops s'"
      using step by (subst NextNonEmpty.simps) (simp add: True)
    ultimately show ?thesis
      using less.hyps [of s'] step(2) by (simp only: eq)
  next
    case False
    with step law show ?thesis
      by (subst NextNonEmpty.simps) (auto split: option.splits)
  qed
qed

lemma skip_ok_int:
  "inv s \<Longrightarrow> 0 \<le> k \<Longrightarrow> \<exists>b s'. in_skip ops k s = Some (b, s') \<and> inv s' \<and>
      rest s' = drop (nat k) (rest s) \<and>
      in_bytecount ops s' = in_bytecount ops s + min k (int (length (rest s))) \<and>
      (b \<longrightarrow> nat k \<le> length (rest s)) \<and> (\<not> b \<longrightarrow> rest s' = []) \<and>
      (0 < k \<longrightarrow> nat k \<le> length (rest s) \<longrightarrow> b)"
  using skip_ok [of s "nat k"] by (simp add: of_nat_min)

lemma backup_ok_int:
  "inv s \<Longrightarrow> 0 < k \<Longrightarrow> nat k \<le> length (last_chunk s) \<Longrightarrow>
      \<exists>s'. in_backup ops k s = Some s' \<and> inv s' \<and>
        rest s' = suffix_of (nat k) (last_chunk s) @ rest s \<and>
        in_bytecount ops s' = in_bytecount ops s - k"
  using backup_ok [of s "nat k"] by simp

end

section \<open>The contract of an output stream\<close>

text \<open>
  \<open>content\<close> is everything up to the end of the buffer handed out last; \<open>window s a n\<close> says that
  the \<open>n\<close> bytes at address \<open>a\<close> are the end of that buffer, the only memory the client may store
  to or give back; \<open>room\<close> is a number of bytes that further calls of \<open>Next()\<close> are certain to
  hand out.
\<close>

locale zero_copy_output =
  fixes ops :: "'s zc_output_ops"
    and inv :: "'s \<Rightarrow> bool"
    and content :: "'s \<Rightarrow> bytes"
    and window :: "'s \<Rightarrow> nat \<Rightarrow> nat \<Rightarrow> bool"
    and room :: "'s \<Rightarrow> nat"
  assumes onext_ok: "inv s \<Longrightarrow> \<exists>r s'. out_next ops s = Some (r, s') \<and> inv s' \<and>
      (case r of
         None \<Rightarrow> content s' = content s \<and> room s = 0
       | Some (a, n) \<Rightarrow> 0 < n \<and> window s' a n \<and> length (content s') = length (content s) + n \<and>
           take (length (content s)) (content s') = content s \<and> room s \<le> n + room s')"
    and window_ok: "inv s \<Longrightarrow> window s a n \<Longrightarrow> n \<le> length (content s) \<and> int n \<le> INT_MAX"
    and poke_ok: "inv s \<Longrightarrow> window s a n \<Longrightarrow> i + length bs \<le> n \<Longrightarrow>
      inv (out_poke ops (a + i) bs s) \<and>
      window (out_poke ops (a + i) bs s) a n \<and>
      room (out_poke ops (a + i) bs s) = room s \<and>
      content (out_poke ops (a + i) bs s) = mem_write (content s) (length (content s) - n + i) bs"
    and obackup_ok: "inv s \<Longrightarrow> window s a n \<Longrightarrow> 0 < k \<Longrightarrow> k \<le> n \<Longrightarrow>
      \<exists>s'. out_backup ops (int k) s = Some s' \<and> inv s' \<and>
        content s' = take (length (content s) - k) (content s) \<and> room s \<le> room s'"
    and obytecount_ok: "inv s \<Longrightarrow> out_bytecount ops s = Some (int (length (content s)))"
    and aliased_ok: "inv s \<Longrightarrow> out_allows_aliasing ops \<Longrightarrow>
      \<exists>b s'. out_write_aliased ops bs s = Some (b, s') \<and> inv s' \<and>
        (b \<longrightarrow> content s' = content s @ bs)"

end
