(* ===== verification/Zero_Copy_Lite.thy ===== *)
theory Zero_Copy_Lite
  imports Zero_Copy
begin

text \<open>
  The memory-backed streams of \<open>io/zero_copy_stream_impl_lite.cc\<close>: \<open>ArrayInputStream\<close>,
  \<open>ArrayOutputStream\<close>, \<open>StringOutputStream\<close> and \<open>LazyStringOutputStream\<close>, one record per class
  with one field per data member, one definition per member function, and the proof that each
  class keeps the contract of its interface.
\<close>

section \<open>ArrayInputStream\<close>

record array_input =
  ai_data :: bytes
  ai_size :: int
  ai_block_size :: int
  ai_position :: int
  ai_last_returned_size :: int

definition ArrayInputStream :: "bytes \<Rightarrow> int \<Rightarrow> array_input" where
  \<comment> \<open>The constructor; \<open>size\<close> is the length of the array.\<close>
  "ArrayInputStream data block_size =
     (let size = int (length data) in
      \<lparr>ai_data = data, ai_size = size,
       ai_block_size = (if block_size > 0 then block_size else size),
       ai_position = 0, ai_last_returned_size = 0\<rparr>)"

definition ArrayInput_Next :: "array_input \<Rightarrow> (bytes option \<times> array_input) option" where
  "ArrayInput_Next s =
     (if ai_position s < ai_size s then
        (let n = min (ai_block_size s) (ai_size s - ai_position s) in do {
           c \<leftarrow> mem_read (ai_data s) (ai_position s) n;
           Some (Some c, s\<lparr>ai_last_returned_size := n, ai_position := ai_position s + n\<rparr>)
         })
      else Some (None, s\<lparr>ai_last_returned_size := 0\<rparr>))"

definition ArrayInput_BackUp :: "int \<Rightarrow> array_input \<Rightarrow> array_input option" where
  "ArrayInput_BackUp count s =
     (if ai_last_returned_size s > 0 \<and> count \<le> ai_last_returned_size s \<and> count \<ge> 0
      then Some (s\<lparr>ai_position := ai_position s - count, ai_last_returned_size := 0\<rparr>)
      else None)"

definition ArrayInput_Skip :: "int \<Rightarrow> array_input \<Rightarrow> (bool \<times> array_input) option" where
  "ArrayInput_Skip count s =
     (if count \<ge> 0 then
        (let s = s\<lparr>ai_last_returned_size := 0\<rparr> in
         if count > ai_size s - ai_position s then Some (False, s\<lparr>ai_position := ai_size s\<rparr>)
         else Some (True, s\<lparr>ai_position := ai_position s + count\<rparr>))
      else None)"

definition ArrayInput_ByteCount :: "array_input \<Rightarrow> int" where
  "ArrayInput_ByteCount s = ai_position s"

definition array_input_ops :: "array_input zc_input_ops" where
  "array_input_ops = \<lparr>in_next = ArrayInput_Next, in_backup = ArrayInput_BackUp,
     in_skip = ArrayInput_Skip, in_bytecount = ArrayInput_ByteCount\<rparr>"

definition array_input_inv :: "array_input \<Rightarrow> bool" where
  "array_input_inv s \<longleftrightarrow> ai_size s = int (length (ai_data s)) \<and> 0 \<le> ai_position s \<and>
     ai_position s \<le> ai_size s \<and> 0 \<le> ai_last_returned_size s \<and>
     ai_last_returned_size s \<le> ai_position s \<and> (ai_size s = 0 \<or> 0 < ai_block_size s)"

definition array_input_rest :: "array_input \<Rightarrow> bytes" where
  "array_input_rest s = drop (nat (ai_position s)) (ai_data s)"

definition array_input_last :: "array_input \<Rightarrow> bytes" where
  "array_input_last s =
     suffix_of (nat (ai_last_returned_size s)) (take (nat (ai_position s)) (ai_data s))"

lemma append_take_drop_id_sub: "n \<le> p \<Longrightarrow> take n (drop (p - n) xs) @ drop p xs = drop (p - n) xs"
  using append_take_drop_id [of n "drop (p - n) xs"] by simp

lemma ArrayInput_Next_ok:
  assumes "array_input_inv s"
  shows "\<exists>r s'. ArrayInput_Next s = Some (r, s') \<and> array_input_inv s' \<and>
      (case r of
         None \<Rightarrow> array_input_rest s = [] \<and> array_input_rest s' = [] \<and> ai_position s' = ai_position s
       | Some c \<Rightarrow> array_input_rest s = c @ array_input_rest s' \<and> array_input_last s' = c \<and>
           ai_position s' = ai_position s + int (length c) \<and> c \<noteq> [])"
proof (cases "ai_position s < ai_size s")
  case True
  define n where "n = min (ai_block_size s) (ai_size s - ai_position s)"
  define p where "p = nat (ai_position s)"
  have n: "0 < n" "n \<le> ai_size s - ai_position s"
    using assms True by (auto simp: n_def array_input_inv_def)
  have eq: "nat (ai_position s + n) = p + nat n" "p + nat n \<le> length (ai_data s)" "p \<le> length (ai_data s)"
    using assms n by (simp_all add: p_def array_input_inv_def nat_add_distrib) linarith+
  have "ArrayInput_Next s = Some (Some (take (nat n) (drop p (ai_data s))),
      s\<lparr>ai_last_returned_size := n, ai_position := ai_position s + n\<rparr>)"
    unfolding ArrayInput_Next_def n_def [symmetric] Let_def mem_read_def
    using True n assms eq by (simp add: p_def array_input_inv_def)
  moreover have "array_input_inv (s\<lparr>ai_last_returned_size := n, ai_position := ai_position s + n\<rparr>)"
    using assms n by (auto simp: array_input_inv_def)
  moreover have "array_input_last (s\<lparr>ai_last_returned_size := n, ai_position := ai_position s + n\<rparr>)
      = take (nat n) (drop p (ai_data s))"
    using eq by (simp add: array_input_last_def suffix_of_def drop_take)
  moreover have "array_input_rest s = take (nat n) (drop p (ai_data s)) @ drop (p + nat n) (ai_data s)"
    by (metis append_take_drop_id array_input_rest_def drop_drop p_def add.commute)
  moreover have "take (nat n) (drop p (ai_data s)) \<noteq> []"
    using eq n by simp
  ultimately show ?thesis
    using eq n by (simp add: array_input_rest_def)
qed (use assms in \<open>auto simp: ArrayInput_Next_def array_input_inv_def array_input_rest_def\<close>)

interpretation array_in: zero_copy_input array_input_ops array_input_inv array_input_rest
  array_input_last "\<lambda>_. 0"
proof
  fix s assume "array_input_inv s"
  from ArrayInput_Next_ok [OF this]
  show "\<exists>r s'. in_next array_input_ops s = Some (r, s') \<and> array_input_inv s' \<and>
      (case r of
         None \<Rightarrow> array_input_rest s = [] \<and> array_input_rest s' = [] \<and>
           in_bytecount array_input_ops s' = in_bytecount array_input_ops s
       | Some c \<Rightarrow> array_input_rest s = c @ array_input_rest s' \<and> (\<exists>p. array_input_last s' = p @ c) \<and>
           in_bytecount array_input_ops s' = in_bytecount array_input_ops s + int (length c) \<and>
           (c = [] \<longrightarrow> (0::nat) < 0))"
    by (fastforce simp: array_input_ops_def ArrayInput_ByteCount_def split: option.splits)
next
  fix s n assume s: "array_input_inv s" and n: "0 < n" "n \<le> length (array_input_last s)"
  define p l where "p = nat (ai_position s)" and "l = nat (ai_last_returned_size s)"
  have p: "ai_position s = int p" "ai_last_returned_size s = int l" "l \<le> p" "p \<le> length (ai_data s)"
    using s by (auto simp: p_def l_def array_input_inv_def)
  then have "length (array_input_last s) = l"
    by (simp add: array_input_last_def)
  with n have nl: "n \<le> l" "0 < l" by simp_all
  have suf: "suffix_of n (array_input_last s) = drop (p - n) (take p (ai_data s))"
    using p nl by (simp add: array_input_last_def suffix_of_def min_def)
  have "array_input_rest (s\<lparr>ai_position := int p - int n, ai_last_returned_size := 0\<rparr>)
      = suffix_of n (array_input_last s) @ array_input_rest s"
    unfolding suf using p nl
    by (simp add: array_input_rest_def drop_take nat_diff_distrib append_take_drop_id_sub)
  moreover have "array_input_inv (s\<lparr>ai_position := int p - int n, ai_last_returned_size := 0\<rparr>)"
    using s p nl by (auto simp: array_input_inv_def)
  ultimately show "\<exists>s'. in_backup array_input_ops (int n) s = Some s' \<and> array_input_inv s' \<and>
        array_input_rest s' = suffix_of n (array_input_last s) @ array_input_rest s \<and>
        in_bytecount array_input_ops s' = in_bytecount array_input_ops s - int n"
    using p nl by (simp add: array_input_ops_def ArrayInput_ByteCount_def ArrayInput_BackUp_def)
next
  fix s n assume s: "array_input_inv s"
  show "\<exists>b s'. in_skip array_input_ops (int n) s = Some (b, s') \<and> array_input_inv s' \<and>
      array_input_rest s' = drop n (array_input_rest s) \<and>
      in_bytecount array_input_ops s' = in_bytecount array_input_ops s + int (min n (length (array_input_rest s))) \<and>
      (b \<longrightarrow> n \<le> length (array_input_rest s)) \<and> (\<not> b \<longrightarrow> array_input_rest s' = []) \<and>
      (0 < n \<longrightarrow> n \<le> length (array_input_rest s) \<longrightarrow> b)"
  proof -
    define p where "p = nat (ai_position s)"
    have p: "ai_position s = int p" "ai_size s = int (length (ai_data s))" "p \<le> length (ai_data s)"
      "0 \<le> ai_last_returned_size s" "ai_data s = [] \<or> 0 < ai_block_size s"
      using s by (auto simp: p_def array_input_inv_def)
    have skip: "ArrayInput_Skip (int n) s =
      (if length (ai_data s) < p + n
       then Some (False, s\<lparr>ai_last_returned_size := 0, ai_position := int (length (ai_data s))\<rparr>)
       else Some (True, s\<lparr>ai_last_returned_size := 0, ai_position := int (p + n)\<rparr>))"
      by (auto simp: ArrayInput_Skip_def Let_def p)
    have rest: "array_input_rest s = drop p (ai_data s)"
      by (simp add: array_input_rest_def p)
    show ?thesis
    proof (cases "length (ai_data s) < p + n")
      case True
      with p show ?thesis
        by (intro exI [of _ False] exI [of _ "s\<lparr>ai_last_returned_size := 0, ai_position := int (length (ai_data s))\<rparr>"])
          (auto simp: array_input_ops_def ArrayInput_ByteCount_def skip rest array_input_inv_def array_input_rest_def)
    next
      case False
      with p show ?thesis
        by (intro exI [of _ True] exI [of _ "s\<lparr>ai_last_returned_size := 0, ai_position := int (p + n)\<rparr>"])
          (auto simp: array_input_ops_def ArrayInput_ByteCount_def skip rest array_input_inv_def
            array_input_rest_def add.commute [of n p] simp del: of_nat_add)
    qed
  qed
qed


section \<open>ArrayOutputStream\<close>

record array_output =
  ao_data :: bytes
  ao_size :: int
  ao_block_size :: int
  ao_position :: int
  ao_last_returned_size :: int

definition ArrayOutputStream :: "bytes \<Rightarrow> int \<Rightarrow> array_output" where
  \<comment> \<open>The constructor, given the array's present contents.\<close>
  "ArrayOutputStream data block_size =
     (let size = int (length data) in
      \<lparr>ao_data = data, ao_size = size,
       ao_block_size = (if block_size > 0 then block_size else size),
       ao_position = 0, ao_last_returned_size = 0\<rparr>)"

definition ArrayOutput_Next :: "array_output \<Rightarrow> ((nat \<times> nat) option \<times> array_output) option" where
  "ArrayOutput_Next s =
     (if ao_position s < ao_size s then
        (let n = min (ao_block_size s) (ao_size s - ao_position s) in
         Some (Some (nat (ao_position s), nat n),
               s\<lparr>ao_last_returned_size := n, ao_position := ao_position s + n\<rparr>))
      else Some (None, s\<lparr>ao_last_returned_size := 0\<rparr>))"

definition ArrayOutput_BackUp :: "int \<Rightarrow> array_output \<Rightarrow> array_output option" where
  "ArrayOutput_BackUp count s =
     (if ao_last_returned_size s > 0 \<and> count \<le> ao_last_returned_size s \<and> count \<ge> 0
      then Some (s\<lparr>ao_position := ao_position s - count, ao_last_returned_size := 0\<rparr>)
      else None)"

definition ArrayOutput_ByteCount :: "array_output \<Rightarrow> int option" where
  "ArrayOutput_ByteCount s = Some (ao_position s)"

definition ArrayOutput_poke :: "nat \<Rightarrow> bytes \<Rightarrow> array_output \<Rightarrow> array_output" where
  "ArrayOutput_poke a bs s = s\<lparr>ao_data := mem_write (ao_data s) a bs\<rparr>"

definition array_output_ops :: "array_output zc_output_ops" where
  \<comment> \<open>\<open>WriteAliasedRaw\<close> and \<open>AllowsAliasing\<close> are those of the base class.\<close>
  "array_output_ops = \<lparr>out_next = ArrayOutput_Next, out_backup = ArrayOutput_BackUp,
     out_bytecount = ArrayOutput_ByteCount, out_poke = ArrayOutput_poke,
     out_write_aliased = (\<lambda>_ _. None), out_allows_aliasing = False\<rparr>"

definition array_output_inv :: "array_output \<Rightarrow> bool" where
  "array_output_inv s \<longleftrightarrow> ao_size s = int (length (ao_data s)) \<and> ao_size s \<le> INT_MAX \<and> 0 \<le> ao_position s \<and>
     ao_position s \<le> ao_size s \<and> 0 \<le> ao_last_returned_size s \<and>
     ao_last_returned_size s \<le> ao_position s \<and> (ao_size s = 0 \<or> 0 < ao_block_size s)"

definition array_output_content :: "array_output \<Rightarrow> bytes" where
  "array_output_content s = take (nat (ao_position s)) (ao_data s)"

definition array_output_window :: "array_output \<Rightarrow> nat \<Rightarrow> nat \<Rightarrow> bool" where
  "array_output_window s a n \<longleftrightarrow>
     a = nat (ao_position s - ao_last_returned_size s) \<and> n = nat (ao_last_returned_size s)"

definition array_output_room :: "array_output \<Rightarrow> nat" where
  "array_output_room s = nat (ao_size s - ao_position s)"

lemma ArrayOutput_Next_ok:
  assumes "array_output_inv s"
  shows "\<exists>r s'. ArrayOutput_Next s = Some (r, s') \<and> array_output_inv s' \<and>
      (case r of
         None \<Rightarrow> array_output_content s' = array_output_content s \<and> array_output_room s = 0
       | Some (a, n) \<Rightarrow> 0 < n \<and> array_output_window s' a n \<and>
           length (array_output_content s') = length (array_output_content s) + n \<and>
           take (length (array_output_content s)) (array_output_content s') = array_output_content s \<and>
           array_output_room s \<le> n + array_output_room s')"
proof (cases "ao_position s < ao_size s")
  case True
  define n where "n = min (ao_block_size s) (ao_size s - ao_position s)"
  define p where "p = nat (ao_position s)"
  let ?s = "s\<lparr>ao_last_returned_size := n, ao_position := ao_position s + n\<rparr>"
  have n: "0 < n" "n \<le> ao_size s - ao_position s"
    using assms True by (auto simp: n_def array_output_inv_def)
  have eq: "nat (ao_position s + n) = p + nat n" "p + nat n \<le> length (ao_data s)" "p \<le> length (ao_data s)"
    using assms n by (simp_all add: p_def array_output_inv_def nat_add_distrib) linarith+
  have "ArrayOutput_Next s = Some (Some (p, nat n), ?s)"
    unfolding ArrayOutput_Next_def n_def [symmetric] Let_def using True by (simp add: p_def)
  moreover have "array_output_inv ?s"
    using assms n by (auto simp: array_output_inv_def)
  moreover have "array_output_window ?s p (nat n)"
    by (simp add: array_output_window_def p_def)
  moreover have "length (array_output_content s) = p" "length (array_output_content ?s) = p + nat n"
    "take p (array_output_content ?s) = array_output_content s"
    using eq by (simp_all add: array_output_content_def p_def min_def)
  moreover have "array_output_room s \<le> nat n + array_output_room ?s"
    using n by (simp add: array_output_room_def)
  ultimately show ?thesis
    using n by simp
qed (use assms in \<open>auto simp: ArrayOutput_Next_def array_output_inv_def array_output_content_def array_output_room_def\<close>)

interpretation array_out: zero_copy_output array_output_ops array_output_inv array_output_content
  array_output_window array_output_room
proof
  fix s assume "array_output_inv s"
  then show "\<exists>r s'. out_next array_output_ops s = Some (r, s') \<and> array_output_inv s' \<and>
      (case r of
         None \<Rightarrow> array_output_content s' = array_output_content s \<and> array_output_room s = 0
       | Some (a, n) \<Rightarrow> 0 < n \<and> array_output_window s' a n \<and>
           length (array_output_content s') = length (array_output_content s) + n \<and>
           take (length (array_output_content s)) (array_output_content s') = array_output_content s \<and>
           array_output_room s \<le> n + array_output_room s')"
    using ArrayOutput_Next_ok by (simp add: array_output_ops_def)
next
  fix s a n assume "array_output_inv s" "array_output_window s a n"
  then show "n \<le> length (array_output_content s) \<and> int n \<le> INT_MAX"
    by (auto simp: array_output_inv_def array_output_window_def array_output_content_def)
next
  fix s assume "array_output_inv s"
  then show "out_bytecount array_output_ops s = Some (int (length (array_output_content s)))"
    by (auto simp: array_output_inv_def array_output_content_def array_output_ops_def ArrayOutput_ByteCount_def)
next
  fix s a n i and bs :: bytes
  assume s: "array_output_inv s" and w: "array_output_window s a n" and i: "i + length bs \<le> n"
  define p l where "p = nat (ao_position s)" and "l = nat (ao_last_returned_size s)"
  have p: "ao_position s = int p" "ao_last_returned_size s = int l" "l \<le> p" "p \<le> length (ao_data s)"
    using s by (auto simp: p_def l_def array_output_inv_def)
  have an: "a = p - l" "n = l"
    using w p by (simp_all add: array_output_window_def)
  have "take p (mem_write (ao_data s) (p - l + i) bs) = mem_write (take p (ao_data s)) (p - l + i) bs"
    using i an p by (intro take_mem_write_inside) simp_all
  then show "array_output_inv (out_poke array_output_ops (a + i) bs s) \<and>
      array_output_window (out_poke array_output_ops (a + i) bs s) a n \<and>
      array_output_room (out_poke array_output_ops (a + i) bs s) = array_output_room s \<and>
      array_output_content (out_poke array_output_ops (a + i) bs s) =
        mem_write (array_output_content s) (length (array_output_content s) - n + i) bs"
    using s p i
    by (auto simp: array_output_ops_def ArrayOutput_poke_def array_output_inv_def array_output_window_def
        array_output_room_def array_output_content_def an)
next
  fix s a n k assume s: "array_output_inv s" and w: "array_output_window s a n" and k: "0 < k" "k \<le> n"
  define p l where "p = nat (ao_position s)" and "l = nat (ao_last_returned_size s)"
  have p: "ao_position s = int p" "ao_last_returned_size s = int l" "l \<le> p" "p \<le> length (ao_data s)"
    using s by (auto simp: p_def l_def array_output_inv_def)
  have kl: "k \<le> l" "0 < l"
    using k w p by (simp_all add: array_output_window_def)
  show "\<exists>s'. out_backup array_output_ops (int k) s = Some s' \<and> array_output_inv s' \<and>
        array_output_content s' = take (length (array_output_content s) - k) (array_output_content s) \<and>
        array_output_room s \<le> array_output_room s'"
    using s p kl
    by (auto simp: array_output_ops_def ArrayOutput_BackUp_def array_output_inv_def array_output_content_def
        array_output_room_def min_def nat_diff_distrib)
qed (simp add: array_output_ops_def)


section \<open>StringOutputStream\<close>

record std_string =
  str_data :: bytes
  str_capacity :: nat

record string_output =
  so_target :: "std_string option"

definition kMinimumSize :: int where
  "kMinimumSize = 16"

definition STLStringResizeUninitialized :: "(nat \<Rightarrow> nat \<Rightarrow> nat) \<Rightarrow> std_string \<Rightarrow> nat \<Rightarrow> std_string" where
  \<comment> \<open>\<open>s->resize(new_size)\<close>; \<open>grow cap n\<close> is the capacity the standard library chooses when the
    string has to be reallocated for \<open>n\<close> bytes.\<close>
  "STLStringResizeUninitialized grow s new_size =
     \<lparr>str_data = take new_size (str_data s) @ replicate (new_size - length (str_data s)) 0,
      str_capacity = (if new_size \<le> str_capacity s then str_capacity s else grow (str_capacity s) new_size)\<rparr>"

definition StringOutput_Next ::
    "(nat \<Rightarrow> nat \<Rightarrow> nat) \<Rightarrow> string_output \<Rightarrow> ((nat \<times> nat) option \<times> string_output) option" where
  "StringOutput_Next grow s =
     do {
       target \<leftarrow> so_target s;
       let old_size = length (str_data target);
       if old_size < str_capacity target then
         (let target = STLStringResizeUninitialized grow target (str_capacity target) in
          Some (Some (old_size, length (str_data target) - old_size), s\<lparr>so_target := Some target\<rparr>))
       else if int old_size > INT_MAX div 2 then Some (None, s)
       else
         (let target = STLStringResizeUninitialized grow target
                         (nat (max (int old_size * 2) (kMinimumSize + 0))) in
          Some (Some (old_size, length (str_data target) - old_size), s\<lparr>so_target := Some target\<rparr>))
     }"

definition StringOutput_BackUp :: "int \<Rightarrow> string_output \<Rightarrow> string_output option" where
  "StringOutput_BackUp count s =
     (if count \<ge> 0 then do {
        target \<leftarrow> so_target s;
        if count \<le> int (length (str_data target)) then
          Some (s\<lparr>so_target := Some (STLStringResizeUninitialized (\<lambda>c _. c) target
                    (length (str_data target) - nat count))\<rparr>)
        else None
      }
      else None)"

definition StringOutput_ByteCount :: "string_output \<Rightarrow> int option" where
  "StringOutput_ByteCount s = map_option (\<lambda>target. int (length (str_data target))) (so_target s)"

definition StringOutput_SetString :: "std_string option \<Rightarrow> string_output \<Rightarrow> string_output" where
  "StringOutput_SetString target s = s\<lparr>so_target := target\<rparr>"

definition StringOutput_poke :: "nat \<Rightarrow> bytes \<Rightarrow> string_output \<Rightarrow> string_output" where
  "StringOutput_poke a bs s =
     s\<lparr>so_target := map_option (\<lambda>t. t\<lparr>str_data := mem_write (str_data t) a bs\<rparr>) (so_target s)\<rparr>"

definition string_output_ops :: "(nat \<Rightarrow> nat \<Rightarrow> nat) \<Rightarrow> string_output zc_output_ops" where
  "string_output_ops grow = \<lparr>out_next = StringOutput_Next grow, out_backup = StringOutput_BackUp,
     out_bytecount = StringOutput_ByteCount, out_poke = StringOutput_poke,
     out_write_aliased = (\<lambda>_ _. None), out_allows_aliasing = False\<rparr>"

definition string_policy :: "(nat \<Rightarrow> nat \<Rightarrow> nat) \<Rightarrow> bool" where
  \<comment> \<open>What the class relies on: a reallocated string has room for the requested size, and its
    size still fits the \<open>int\<close> that \<open>Next()\<close> reports.\<close>
  "string_policy grow \<longleftrightarrow> (\<forall>c n. int n \<le> INT_MAX \<longrightarrow> n \<le> grow c n \<and> int (grow c n) \<le> INT_MAX)"

definition string_output_inv :: "string_output \<Rightarrow> bool" where
  "string_output_inv s \<longleftrightarrow> (\<exists>t. so_target s = Some t \<and> length (str_data t) \<le> str_capacity t \<and>
     int (str_capacity t) \<le> INT_MAX)"

definition string_output_content :: "string_output \<Rightarrow> bytes" where
  "string_output_content s = (case so_target s of None \<Rightarrow> [] | Some t \<Rightarrow> str_data t)"

definition string_output_window :: "string_output \<Rightarrow> nat \<Rightarrow> nat \<Rightarrow> bool" where
  "string_output_window s a n \<longleftrightarrow> a + n = length (string_output_content s)"

definition string_output_room :: "string_output \<Rightarrow> nat" where
  \<comment> \<open>The string doubles at least until it has 2 to the 30 bytes.\<close>
  "string_output_room s = nat (INT_MAX div 2 + 1) - length (string_output_content s)"

definition exact_capacity :: "nat \<Rightarrow> nat \<Rightarrow> nat" where
  "exact_capacity c n = n"

lemma string_output_contract:
  assumes "string_policy grow"
  shows "zero_copy_output (string_output_ops grow) string_output_inv string_output_content
    string_output_window string_output_room"
proof
  fix s assume "string_output_inv s"
  then obtain t where t: "so_target s = Some t" "length (str_data t) \<le> str_capacity t"
    "int (str_capacity t) \<le> INT_MAX" by (auto simp: string_output_inv_def)
  have grow: "n \<le> grow c n" "int (grow c n) \<le> INT_MAX" if "int n \<le> INT_MAX" for c n
    using assms that by (auto simp: string_policy_def)
  let ?P = "\<lambda>r s'. string_output_inv s' \<and>
      (case r of
         None \<Rightarrow> string_output_content s' = string_output_content s \<and> string_output_room s = 0
       | Some (a, n) \<Rightarrow> 0 < n \<and> string_output_window s' a n \<and>
           length (string_output_content s') = length (string_output_content s) + n \<and>
           take (length (string_output_content s)) (string_output_content s') = string_output_content s \<and>
           string_output_room s \<le> n + string_output_room s')"
  have resize: "?P (Some (length (str_data t), m - length (str_data t)))
      (s\<lparr>so_target := Some (STLStringResizeUninitialized grow t m)\<rparr>)"
    if "length (str_data t) < m" "int m \<le> INT_MAX" for m
    using that t grow [of m "str_capacity t"]
    by (simp add: string_output_inv_def string_output_content_def string_output_window_def
        string_output_room_def STLStringResizeUninitialized_def)
  have len: "length (str_data (STLStringResizeUninitialized grow t m)) = m" for m
    by (simp add: STLStringResizeUninitialized_def)
  show "\<exists>r s'. out_next (string_output_ops grow) s = Some (r, s') \<and> ?P r s'"
  proof (cases "length (str_data t) < str_capacity t")
    case True
    with resize [of "str_capacity t"] t show ?thesis
      by (simp add: string_output_ops_def StringOutput_Next_def Let_def len)
  next
    case False
    show ?thesis
    proof (cases "int (length (str_data t)) > INT_MAX div 2")
      case True
      with False t show ?thesis
        by (simp add: string_output_ops_def StringOutput_Next_def string_output_room_def
            string_output_content_def string_output_inv_def)
    next
      case small: False
      let ?m = "nat (max (int (length (str_data t)) * 2) (kMinimumSize + 0))"
      have "length (str_data t) < ?m" "int ?m \<le> INT_MAX"
        using small by (auto simp: kMinimumSize_def INT_MAX_def)
      from resize [OF this] False small t show ?thesis
        by (simp add: string_output_ops_def StringOutput_Next_def Let_def len)
    qed
  qed
next
  fix s a n assume "string_output_inv s" "string_output_window s a n"
  then show "n \<le> length (string_output_content s) \<and> int n \<le> INT_MAX"
    by (auto simp: string_output_inv_def string_output_window_def string_output_content_def)
next
  fix s a n i and bs :: bytes
  assume s: "string_output_inv s" "string_output_window s a n" "i + length bs \<le> n"
  then have pos: "length (string_output_content s) - n + i = a + i"
    by (simp add: string_output_window_def)
  from s show "string_output_inv (out_poke (string_output_ops grow) (a + i) bs s) \<and>
      string_output_window (out_poke (string_output_ops grow) (a + i) bs s) a n \<and>
      string_output_room (out_poke (string_output_ops grow) (a + i) bs s) = string_output_room s \<and>
      string_output_content (out_poke (string_output_ops grow) (a + i) bs s) =
        mem_write (string_output_content s) (length (string_output_content s) - n + i) bs"
    unfolding pos
    by (auto simp: string_output_inv_def string_output_window_def string_output_content_def
        string_output_room_def string_output_ops_def StringOutput_poke_def)
next
  fix s a n k assume s: "string_output_inv s" and w: "string_output_window s a n" "0 < k" "k \<le> n"
  obtain t where t: "so_target s = Some t" "length (str_data t) \<le> str_capacity t"
    "int (str_capacity t) \<le> INT_MAX" using s by (auto simp: string_output_inv_def)
  then show "\<exists>s'. out_backup (string_output_ops grow) (int k) s = Some s' \<and> string_output_inv s' \<and>
        string_output_content s' = take (length (string_output_content s) - k) (string_output_content s) \<and>
        string_output_room s \<le> string_output_room s'"
    using w by (auto simp: string_output_inv_def string_output_window_def string_output_content_def
        string_output_room_def string_output_ops_def StringOutput_BackUp_def STLStringResizeUninitialized_def)
qed (auto simp: string_output_ops_def string_output_inv_def string_output_content_def StringOutput_ByteCount_def)

interpretation string_out: zero_copy_output "string_output_ops exact_capacity" string_output_inv
  string_output_content string_output_window string_output_room
  by (rule string_output_contract) (simp add: string_policy_def exact_capacity_def)


section \<open>LazyStringOutputStream\<close>

record lazy_string_output =
  ls_base :: string_output
  ls_string_is_set :: bool

definition LazyStringOutputStream :: lazy_string_output where
  "LazyStringOutputStream = \<lparr>ls_base = \<lparr>so_target = None\<rparr>, ls_string_is_set = False\<rparr>"

definition LazyStringOutput_Next ::
    "(nat \<Rightarrow> nat \<Rightarrow> nat) \<Rightarrow> std_string \<Rightarrow> lazy_string_output \<Rightarrow> ((nat \<times> nat) option \<times> lazy_string_output) option" where
  \<comment> \<open>\<open>callback\<close> is the string that \<open>callback_->Run()\<close> returns.\<close>
  "LazyStringOutput_Next grow callback s =
     (let s = (if \<not> ls_string_is_set s
               then s\<lparr>ls_base := StringOutput_SetString (Some callback) (ls_base s), ls_string_is_set := True\<rparr>
               else s) in
      do {
        (r, base) \<leftarrow> StringOutput_Next grow (ls_base s);
        Some (r, s\<lparr>ls_base := base\<rparr>)
      })"

definition LazyStringOutput_BackUp :: "int \<Rightarrow> lazy_string_output \<Rightarrow> lazy_string_output option" where
  \<comment> \<open>Inherited from \<open>StringOutputStream\<close>.\<close>
  "LazyStringOutput_BackUp count s =
     map_option (\<lambda>base. s\<lparr>ls_base := base\<rparr>) (StringOutput_BackUp count (ls_base s))"

definition LazyStringOutput_ByteCount :: "lazy_string_output \<Rightarrow> int option" where
  "LazyStringOutput_ByteCount s =
     (if ls_string_is_set s then StringOutput_ByteCount (ls_base s) else Some 0)"

definition lazy_string_output_ops ::
    "(nat \<Rightarrow> nat \<Rightarrow> nat) \<Rightarrow> std_string \<Rightarrow> lazy_string_output zc_output_ops" where
  "lazy_string_output_ops grow callback = \<lparr>out_next = LazyStringOutput_Next grow callback,
     out_backup = LazyStringOutput_BackUp, out_bytecount = LazyStringOutput_ByteCount,
     out_poke = (\<lambda>a bs s. s\<lparr>ls_base := StringOutput_poke a bs (ls_base s)\<rparr>),
     out_write_aliased = (\<lambda>_ _. None), out_allows_aliasing = False\<rparr>"

definition lazy_string_inv :: "lazy_string_output \<Rightarrow> bool" where
  "lazy_string_inv s \<longleftrightarrow> (if ls_string_is_set s then string_output_inv (ls_base s)
     else so_target (ls_base s) = None)"

definition lazy_string_content :: "lazy_string_output \<Rightarrow> bytes" where
  "lazy_string_content s = string_output_content (ls_base s)"

definition lazy_string_window :: "lazy_string_output \<Rightarrow> nat \<Rightarrow> nat \<Rightarrow> bool" where
  "lazy_string_window s a n \<longleftrightarrow> ls_string_is_set s \<and> string_output_window (ls_base s) a n"

definition lazy_string_room :: "lazy_string_output \<Rightarrow> nat" where
  "lazy_string_room s = string_output_room (ls_base s)"

lemma lazy_string_contract:
  assumes "string_policy grow" and cb: "str_data callback = []" "int (str_capacity callback) \<le> INT_MAX"
  shows "zero_copy_output (lazy_string_output_ops grow callback) lazy_string_inv lazy_string_content
    lazy_string_window lazy_string_room"
proof
  note base = string_output_contract [OF assms(1)]
  note defs = lazy_string_inv_def lazy_string_content_def lazy_string_window_def lazy_string_room_def
    lazy_string_output_ops_def
  fix s assume s: "lazy_string_inv s"
  show "\<exists>r s'. out_next (lazy_string_output_ops grow callback) s = Some (r, s') \<and> lazy_string_inv s' \<and>
      (case r of
         None \<Rightarrow> lazy_string_content s' = lazy_string_content s \<and> lazy_string_room s = 0
       | Some (a, n) \<Rightarrow> 0 < n \<and> lazy_string_window s' a n \<and>
           length (lazy_string_content s') = length (lazy_string_content s) + n \<and>
           take (length (lazy_string_content s)) (lazy_string_content s') = lazy_string_content s \<and>
           lazy_string_room s \<le> n + lazy_string_room s')"
  proof -
    let ?b = "if \<not> ls_string_is_set s then StringOutput_SetString (Some callback) (ls_base s) else ls_base s"
    have b: "string_output_inv ?b" "string_output_content ?b = lazy_string_content s"
      "string_output_room ?b = lazy_string_room s"
      using s cb by (auto simp: defs StringOutput_SetString_def string_output_inv_def
          string_output_content_def string_output_room_def)
    obtain r b' where step: "StringOutput_Next grow ?b = Some (r, b')" "string_output_inv b'"
      and law: "case r of
         None \<Rightarrow> string_output_content b' = string_output_content ?b \<and> string_output_room ?b = 0
       | Some (a, n) \<Rightarrow> 0 < n \<and> string_output_window b' a n \<and>
           length (string_output_content b') = length (string_output_content ?b) + n \<and>
           take (length (string_output_content ?b)) (string_output_content b') = string_output_content ?b \<and>
           string_output_room ?b \<le> n + string_output_room b'"
      using zero_copy_output.onext_ok [OF base b(1)] by (auto simp: string_output_ops_def)
    have "out_next (lazy_string_output_ops grow callback) s
      = Some (r, s\<lparr>ls_base := b', ls_string_is_set := True\<rparr>)"
      using step(1) by (cases "ls_string_is_set s") (simp_all add: lazy_string_output_ops_def LazyStringOutput_Next_def Let_def)
    with step(2) law show ?thesis
      unfolding b by (auto simp: defs split: option.splits)
  qed
next
  fix s a n assume "lazy_string_inv s" "lazy_string_window s a n"
  then show "n \<le> length (lazy_string_content s) \<and> int n \<le> INT_MAX"
    using zero_copy_output.window_ok [OF string_output_contract [OF assms(1)], of "ls_base s" a n]
    by (simp add: lazy_string_inv_def lazy_string_window_def lazy_string_content_def)
next
  fix s a n i and bs :: bytes
  assume "lazy_string_inv s" "lazy_string_window s a n" "i + length bs \<le> n"
  then show "lazy_string_inv (out_poke (lazy_string_output_ops grow callback) (a + i) bs s) \<and>
      lazy_string_window (out_poke (lazy_string_output_ops grow callback) (a + i) bs s) a n \<and>
      lazy_string_room (out_poke (lazy_string_output_ops grow callback) (a + i) bs s) = lazy_string_room s \<and>
      lazy_string_content (out_poke (lazy_string_output_ops grow callback) (a + i) bs s) =
        mem_write (lazy_string_content s) (length (lazy_string_content s) - n + i) bs"
    using zero_copy_output.poke_ok [OF string_output_contract [OF assms(1)], of "ls_base s" a n i bs]
    by (simp add: lazy_string_inv_def lazy_string_window_def lazy_string_content_def lazy_string_room_def
        lazy_string_output_ops_def string_output_ops_def)
next
  fix s a n k assume "lazy_string_inv s" "lazy_string_window s a n" "0 < k" "k \<le> n"
  then show "\<exists>s'. out_backup (lazy_string_output_ops grow callback) (int k) s = Some s' \<and> lazy_string_inv s' \<and>
        lazy_string_content s' = take (length (lazy_string_content s) - k) (lazy_string_content s) \<and>
        lazy_string_room s \<le> lazy_string_room s'"
    using zero_copy_output.obackup_ok [OF string_output_contract [OF assms(1)], of "ls_base s" a n k]
    by (auto simp: lazy_string_inv_def lazy_string_window_def lazy_string_content_def lazy_string_room_def
        lazy_string_output_ops_def string_output_ops_def LazyStringOutput_BackUp_def)
next
  fix s assume "lazy_string_inv s"
  then show "out_bytecount (lazy_string_output_ops grow callback) s = Some (int (length (lazy_string_content s)))"
    using zero_copy_output.obytecount_ok [OF string_output_contract [OF assms(1)], of "ls_base s"]
    by (auto simp: lazy_string_inv_def lazy_string_content_def string_output_content_def
        lazy_string_output_ops_def string_output_ops_def LazyStringOutput_ByteCount_def split: if_splits)
qed (simp add: lazy_string_output_ops_def)

interpretation lazy_string_out: zero_copy_output
  "lazy_string_output_ops exact_capacity \<lparr>str_data = [], str_capacity = 15\<rparr>"
  lazy_string_inv lazy_string_content lazy_string_window lazy_string_room
  by (rule lazy_string_contract) (simp_all add: string_policy_def exact_capacity_def INT_MAX_def)

end
