(* ===== verification/Zero_Copy_Impl.thy ===== *)
theory Zero_Copy_Impl
  imports Zero_Copy_Lite
begin

text \<open>
  The streams of \<open>io/zero_copy_stream_impl.cc\<close> that are built from other streams:
  \<open>ConcatenatingInputStream\<close> and \<open>LimitingInputStream\<close>. Both are functions of the table of the
  stream they wrap; if that one keeps the input contract, so do they.
\<close>

section \<open>LimitingInputStream\<close>

record 's limiting_input =
  li_input :: 's
  li_limit :: int
  li_prior_bytes_read :: int

definition LimitingInputStream :: "'s zc_input_ops \<Rightarrow> 's \<Rightarrow> int \<Rightarrow> 's limiting_input" where
  "LimitingInputStream ops input limit =
     \<lparr>li_input = input, li_limit = limit, li_prior_bytes_read = in_bytecount ops input\<rparr>"

definition LimitingInput_destroy :: "'s zc_input_ops \<Rightarrow> 's limiting_input \<Rightarrow> 's option" where
  \<comment> \<open>The destructor gives the overshoot back; the result is the underlying stream.\<close>
  "LimitingInput_destroy ops s =
     (if li_limit s < 0 then in_backup ops (- li_limit s) (li_input s) else Some (li_input s))"

definition LimitingInput_Next ::
    "'s zc_input_ops \<Rightarrow> 's limiting_input \<Rightarrow> (bytes option \<times> 's limiting_input) option" where
  "LimitingInput_Next ops s =
     (if li_limit s \<le> 0 then Some (None, s)
      else do {
        (r, input) \<leftarrow> in_next ops (li_input s);
        let s = s\<lparr>li_input := input\<rparr>;
        case r of
          None \<Rightarrow> Some (None, s)
        | Some c \<Rightarrow>
            (let s = s\<lparr>li_limit := li_limit s - int (length c)\<rparr> in
             if li_limit s < 0 then Some (Some (take (nat (int (length c) + li_limit s)) c), s)
             else Some (Some c, s))
      })"

definition LimitingInput_BackUp ::
    "'s zc_input_ops \<Rightarrow> int \<Rightarrow> 's limiting_input \<Rightarrow> 's limiting_input option" where
  "LimitingInput_BackUp ops count s =
     (if li_limit s < 0 then do {
        input \<leftarrow> in_backup ops (count - li_limit s) (li_input s);
        Some (s\<lparr>li_input := input, li_limit := count\<rparr>)
      }
      else do {
        input \<leftarrow> in_backup ops count (li_input s);
        Some (s\<lparr>li_input := input, li_limit := li_limit s + count\<rparr>)
      })"

definition LimitingInput_Skip ::
    "'s zc_input_ops \<Rightarrow> int \<Rightarrow> 's limiting_input \<Rightarrow> (bool \<times> 's limiting_input) option" where
  "LimitingInput_Skip ops count s =
     (if count > li_limit s then
        if li_limit s < 0 then Some (False, s)
        else do {
          (_, input) \<leftarrow> in_skip ops (li_limit s) (li_input s);
          Some (False, s\<lparr>li_input := input, li_limit := 0\<rparr>)
        }
      else do {
        (ok, input) \<leftarrow> in_skip ops count (li_input s);
        let s = s\<lparr>li_input := input\<rparr>;
        if \<not> ok then Some (False, s)
        else Some (True, s\<lparr>li_limit := li_limit s - count\<rparr>)
      })"

definition LimitingInput_ByteCount :: "'s zc_input_ops \<Rightarrow> 's limiting_input \<Rightarrow> int" where
  "LimitingInput_ByteCount ops s =
     (if li_limit s < 0 then in_bytecount ops (li_input s) + li_limit s - li_prior_bytes_read s
      else in_bytecount ops (li_input s) - li_prior_bytes_read s)"

definition limiting_ops :: "'s zc_input_ops \<Rightarrow> 's limiting_input zc_input_ops" where
  "limiting_ops ops = \<lparr>in_next = LimitingInput_Next ops, in_backup = LimitingInput_BackUp ops,
     in_skip = LimitingInput_Skip ops, in_bytecount = LimitingInput_ByteCount ops\<rparr>"

definition limiting_inv ::
    "('s \<Rightarrow> bool) \<Rightarrow> ('s \<Rightarrow> bytes) \<Rightarrow> 's limiting_input \<Rightarrow> bool" where
  "limiting_inv valid last_chunk s \<longleftrightarrow>
     valid (li_input s) \<and> - li_limit s \<le> int (length (last_chunk (li_input s)))"

definition limiting_rest :: "('s \<Rightarrow> bytes) \<Rightarrow> 's limiting_input \<Rightarrow> bytes" where
  "limiting_rest rest s = take (nat (li_limit s)) (rest (li_input s))"

definition limiting_last :: "('s \<Rightarrow> bytes) \<Rightarrow> 's limiting_input \<Rightarrow> bytes" where
  "limiting_last last_chunk s =
     (let c = last_chunk (li_input s) in take (nat (int (length c) + min 0 (li_limit s))) c)"

section \<open>ConcatenatingInputStream\<close>

record 's concatenating_input =
  ci_streams :: "'s list"
  ci_bytes_retired :: int

definition ConcatenatingInputStream :: "'s list \<Rightarrow> 's concatenating_input" where
  "ConcatenatingInputStream streams = \<lparr>ci_streams = streams, ci_bytes_retired = 0\<rparr>"

fun Concatenating_next_loop ::
    "'s zc_input_ops \<Rightarrow> 's list \<Rightarrow> int \<Rightarrow> (bytes option \<times> 's concatenating_input) option" where
  \<comment> \<open>The \<open>while (stream_count_ > 0)\<close> loop; \<open>streams_\<close> and \<open>stream_count_\<close> are the list.\<close>
  "Concatenating_next_loop ops [] retired =
     Some (None, \<lparr>ci_streams = [], ci_bytes_retired = retired\<rparr>)"
| "Concatenating_next_loop ops (s # ss) retired = do {
     (r, s') \<leftarrow> in_next ops s;
     case r of
       Some c \<Rightarrow> Some (Some c, \<lparr>ci_streams = s' # ss, ci_bytes_retired = retired\<rparr>)
     | None \<Rightarrow> Concatenating_next_loop ops ss (retired + in_bytecount ops s')
   }"

definition ConcatenatingInput_Next ::
    "'s zc_input_ops \<Rightarrow> 's concatenating_input \<Rightarrow> (bytes option \<times> 's concatenating_input) option" where
  "ConcatenatingInput_Next ops s = Concatenating_next_loop ops (ci_streams s) (ci_bytes_retired s)"

definition ConcatenatingInput_BackUp ::
    "'s zc_input_ops \<Rightarrow> int \<Rightarrow> 's concatenating_input \<Rightarrow> 's concatenating_input option" where
  \<comment> \<open>\<open>DFATAL\<close> is \<open>FATAL\<close> in a debug build and an error message otherwise; it counts as an abort.\<close>
  "ConcatenatingInput_BackUp ops count s =
     (case ci_streams s of
        [] \<Rightarrow> None
      | t # ts \<Rightarrow> map_option (\<lambda>t'. s\<lparr>ci_streams := t' # ts\<rparr>) (in_backup ops count t))"

fun Concatenating_skip_loop ::
    "'s zc_input_ops \<Rightarrow> int \<Rightarrow> 's list \<Rightarrow> int \<Rightarrow> (bool \<times> 's concatenating_input) option" where
  "Concatenating_skip_loop ops count [] retired =
     Some (False, \<lparr>ci_streams = [], ci_bytes_retired = retired\<rparr>)"
| "Concatenating_skip_loop ops count (s # ss) retired =
     (let target_byte_count = in_bytecount ops s + count in do {
        (ok, s') \<leftarrow> in_skip ops count s;
        if ok then Some (True, \<lparr>ci_streams = s' # ss, ci_bytes_retired = retired\<rparr>)
        else (let final_byte_count = in_bytecount ops s' in
          Concatenating_skip_loop ops (target_byte_count - final_byte_count) ss (retired + final_byte_count))
      })"

definition ConcatenatingInput_Skip ::
    "'s zc_input_ops \<Rightarrow> int \<Rightarrow> 's concatenating_input \<Rightarrow> (bool \<times> 's concatenating_input) option" where
  "ConcatenatingInput_Skip ops count s =
     Concatenating_skip_loop ops count (ci_streams s) (ci_bytes_retired s)"

definition ConcatenatingInput_ByteCount :: "'s zc_input_ops \<Rightarrow> 's concatenating_input \<Rightarrow> int" where
  "ConcatenatingInput_ByteCount ops s =
     (case ci_streams s of
        [] \<Rightarrow> ci_bytes_retired s
      | t # _ \<Rightarrow> ci_bytes_retired s + in_bytecount ops t)"

definition concatenating_ops :: "'s zc_input_ops \<Rightarrow> 's concatenating_input zc_input_ops" where
  "concatenating_ops ops = \<lparr>in_next = ConcatenatingInput_Next ops,
     in_backup = ConcatenatingInput_BackUp ops, in_skip = ConcatenatingInput_Skip ops,
     in_bytecount = ConcatenatingInput_ByteCount ops\<rparr>"

definition concatenating_inv ::
    "'s zc_input_ops \<Rightarrow> ('s \<Rightarrow> bool) \<Rightarrow> 's concatenating_input \<Rightarrow> bool" where
  \<comment> \<open>No byte of the streams after the first has been read yet.\<close>
  "concatenating_inv ops valid s \<longleftrightarrow> list_all valid (ci_streams s) \<and>
     (ci_streams s \<noteq> [] \<longrightarrow> list_all (\<lambda>t. in_bytecount ops t = 0) (tl (ci_streams s)))"

definition concatenating_rest :: "('s \<Rightarrow> bytes) \<Rightarrow> 's concatenating_input \<Rightarrow> bytes" where
  "concatenating_rest rest s = concat (map rest (ci_streams s))"

definition concatenating_last :: "('s \<Rightarrow> bytes) \<Rightarrow> 's concatenating_input \<Rightarrow> bytes" where
  "concatenating_last last_chunk s = (case ci_streams s of [] \<Rightarrow> [] | t # _ \<Rightarrow> last_chunk t)"

definition concatenating_empties :: "('s \<Rightarrow> nat) \<Rightarrow> 's concatenating_input \<Rightarrow> nat" where
  "concatenating_empties empties s = sum_list (map empties (ci_streams s))"

section \<open>The limiting stream keeps the contract\<close>

context zero_copy_input
begin

abbreviation "lops \<equiv> limiting_ops ops"
abbreviation "linv \<equiv> limiting_inv inv last_chunk"
abbreviation "lrest \<equiv> limiting_rest rest"
abbreviation "llast \<equiv> limiting_last last_chunk"

lemma limiting_next_ok:
  assumes "linv s"
  shows "\<exists>r s'. in_next lops s = Some (r, s') \<and> linv s' \<and>
      (case r of
         None \<Rightarrow> lrest s = [] \<and> lrest s' = [] \<and> in_bytecount lops s' = in_bytecount lops s
       | Some c \<Rightarrow> lrest s = c @ lrest s' \<and> (\<exists>p. llast s' = p @ c) \<and>
           in_bytecount lops s' = in_bytecount lops s + int (length c) \<and>
           (c = [] \<longrightarrow> empties (li_input s') < empties (li_input s)))"
proof (cases "li_limit s \<le> 0")
  case True
  with assms show ?thesis
    by (simp add: limiting_ops_def LimitingInput_Next_def limiting_rest_def)
next
  case False
  then obtain l where l: "li_limit s = int l" "0 < l"
    using that [of "nat (li_limit s)"] by simp
  obtain r t where t: "in_next ops (li_input s) = Some (r, t)" "inv t"
    and law: "case r of
         None \<Rightarrow> rest (li_input s) = [] \<and> rest t = [] \<and> in_bytecount ops t = in_bytecount ops (li_input s)
       | Some c \<Rightarrow> rest (li_input s) = c @ rest t \<and> (\<exists>p. last_chunk t = p @ c) \<and>
           in_bytecount ops t = in_bytecount ops (li_input s) + int (length c) \<and>
           (c = [] \<longrightarrow> empties t < empties (li_input s))"
    using next_ok [of "li_input s"] assms unfolding limiting_inv_def by blast
  show ?thesis
  proof (cases r)
    case None
    with t law l assms show ?thesis
      by (auto simp: limiting_ops_def LimitingInput_Next_def limiting_rest_def limiting_inv_def
          LimitingInput_ByteCount_def)
  next
    case (Some c)
    let ?s = "s\<lparr>li_input := t, li_limit := int l - int (length c)\<rparr>"
    have step: "LimitingInput_Next ops s = Some (Some (take l c), ?s)"
      using t(1) l by (simp add: LimitingInput_Next_def Some Let_def)
    have "linv ?s"
      using t(2) law l by (auto simp: limiting_inv_def Some)
    moreover have "lrest s = take l c @ lrest ?s"
      using law l by (simp add: limiting_rest_def Some nat_diff_distrib)
    moreover have "\<exists>p. llast ?s = p @ take l c"
    proof -
      obtain p where "last_chunk t = p @ c" using law by (auto simp: Some)
      moreover have "nat (int (length (p @ c)) + min 0 (int l - int (length c))) = length p + min l (length c)"
        by (simp add: min_def) linarith
      ultimately show ?thesis by (intro exI [of _ p]) (simp add: limiting_last_def min_def)
    qed
    moreover have "in_bytecount lops ?s = in_bytecount lops s + int (length (take l c))"
      using law l by (simp add: limiting_ops_def LimitingInput_ByteCount_def Some min_def)
    moreover have "take l c = [] \<longrightarrow> empties (li_input ?s) < empties (li_input s)"
      using law l by (simp add: Some)
    ultimately show ?thesis
      by (intro exI conjI [rotated]) (auto simp: limiting_ops_def step)
  qed
qed

lemma limiting_backup_ok:
  assumes "linv s" "0 < n" "n \<le> length (llast s)"
  shows "\<exists>s'. in_backup lops (int n) s = Some s' \<and> linv s' \<and>
        lrest s' = suffix_of n (llast s) @ lrest s \<and>
        in_bytecount lops s' = in_bytecount lops s - int n"
proof -
  define c where "c = last_chunk (li_input s)"
  have inv: "inv (li_input s)" and over: "- li_limit s \<le> int (length c)"
    using assms(1) by (simp_all add: limiting_inv_def c_def)
  show ?thesis
  proof (cases "li_limit s < 0")
    case True
    define k where "k = nat (- li_limit s)"
    have k: "li_limit s = - int k" "k \<le> length c"
      using True over by (simp_all add: k_def)
    have nk: "n \<le> length c - k"
      using assms(3) True k by (auto simp: limiting_last_def c_def [symmetric] min_def Let_def split: if_splits)
    obtain t where t: "in_backup ops (int (n + k)) (li_input s) = Some t" "inv t"
      "rest t = suffix_of (n + k) c @ rest (li_input s)"
      "in_bytecount ops t = in_bytecount ops (li_input s) - int (n + k)"
      using backup_ok [OF inv, of "n + k"] assms(2) nk k unfolding c_def by fastforce
    have "take n (suffix_of (n + k) c) = suffix_of n (take (length c - k) c)"
      using nk k by (simp add: suffix_of_def drop_take diff_diff_left add.commute)
    moreover have "llast s = take (length c - k) c"
      using True k by (simp add: limiting_last_def c_def [symmetric] min_def)
    ultimately show ?thesis
      using t k True nk
      by (simp add: limiting_ops_def LimitingInput_BackUp_def limiting_rest_def limiting_inv_def
          LimitingInput_ByteCount_def)
  next
    case False
    then have "llast s = c"
      by (simp add: limiting_last_def c_def)
    moreover obtain t where t: "in_backup ops (int n) (li_input s) = Some t" "inv t"
      "rest t = suffix_of n c @ rest (li_input s)"
      "in_bytecount ops t = in_bytecount ops (li_input s) - int n"
      using backup_ok [OF inv, of n] assms calculation by (auto simp: c_def)
    ultimately show ?thesis
      using t False assms(3)
      by (simp add: limiting_ops_def LimitingInput_BackUp_def limiting_rest_def limiting_inv_def
          LimitingInput_ByteCount_def nat_add_distrib)
  qed
qed


lemma limiting_skip_ok:
  assumes "linv s"
  shows "\<exists>b s'. in_skip lops (int n) s = Some (b, s') \<and> linv s' \<and>
      lrest s' = drop n (lrest s) \<and>
      in_bytecount lops s' = in_bytecount lops s + int (min n (length (lrest s))) \<and>
      (b \<longrightarrow> n \<le> length (lrest s)) \<and> (\<not> b \<longrightarrow> lrest s' = []) \<and>
      (0 < n \<longrightarrow> n \<le> length (lrest s) \<longrightarrow> b)"
proof (cases "li_limit s < 0")
  case True
  with assms show ?thesis
    by (intro exI [of _ False] exI [of _ s]) (simp add: limiting_ops_def LimitingInput_Skip_def limiting_rest_def)
next
  case False
  then obtain l where l: "li_limit s = int l"
    using that [of "nat (li_limit s)"] by simp
  have inv: "inv (li_input s)"
    using assms by (simp add: limiting_inv_def)
  obtain b t where t: "in_skip ops (int (min n l)) (li_input s) = Some (b, t)" "inv t"
      "rest t = drop (min n l) (rest (li_input s))"
      "in_bytecount ops t = in_bytecount ops (li_input s) + int (min (min n l) (length (rest (li_input s))))"
      "b \<longrightarrow> min n l \<le> length (rest (li_input s))" "\<not> b \<longrightarrow> rest t = []"
      "0 < min n l \<longrightarrow> min n l \<le> length (rest (li_input s)) \<longrightarrow> b"
    using skip_ok [OF inv, of "min n l"] by (elim exE conjE) (rule that; assumption)
  let ?s = "if l < n then s\<lparr>li_input := t, li_limit := 0\<rparr>
    else if b then s\<lparr>li_input := t, li_limit := int (l - n)\<rparr> else s\<lparr>li_input := t\<rparr>"
  have step: "in_skip lops (int n) s = Some (\<not> l < n \<and> b, ?s)"
    using t(1) l by (cases "l < n") (simp_all add: limiting_ops_def LimitingInput_Skip_def min_def)
  moreover have "linv ?s"
    using t(2) l by (simp add: limiting_inv_def)
  moreover have "lrest ?s = drop n (lrest s)"
    using t(3,6) l by (auto simp: limiting_rest_def min_def drop_take)
  moreover have "in_bytecount lops ?s = in_bytecount lops s + int (min n (length (lrest s)))"
    using t(4) l by (auto simp: limiting_ops_def LimitingInput_ByteCount_def limiting_rest_def min_def)
  moreover have "\<not> l < n \<and> b \<longrightarrow> n \<le> length (lrest s)" "\<not> (\<not> l < n \<and> b) \<longrightarrow> lrest ?s = []"
    "0 < n \<longrightarrow> n \<le> length (lrest s) \<longrightarrow> \<not> l < n \<and> b"
    using t(5,6,7) l by (auto simp: limiting_rest_def min_def)
  ultimately show ?thesis by blast
qed

lemma limiting_contract: "zero_copy_input lops linv lrest llast (\<lambda>s. empties (li_input s))"
  by (unfold_locales) (use limiting_next_ok limiting_backup_ok limiting_skip_ok in blast)+

lemma limiting_destroy_ok:
  assumes "linv s"
  shows "\<exists>t. LimitingInput_destroy ops s = Some t \<and> inv t \<and> rest t =
    suffix_of (nat (- li_limit s)) (last_chunk (li_input s)) @ rest (li_input s)"
proof (cases "li_limit s < 0")
  case True
  with assms have pre: "inv (li_input s)" "0 < - li_limit s" "nat (- li_limit s) \<le> length (last_chunk (li_input s))"
    by (auto simp: limiting_inv_def)
  from backup_ok_int [OF this] True show ?thesis
    by (auto simp: LimitingInput_destroy_def)
next
  case False
  with assms show ?thesis
    by (simp add: LimitingInput_destroy_def limiting_inv_def)
qed

end

interpretation array_limited: zero_copy_input "limiting_ops array_input_ops"
  "limiting_inv array_input_inv array_input_last" "limiting_rest array_input_rest"
  "limiting_last array_input_last" "\<lambda>s. 0"
  by (rule array_in.limiting_contract)

section \<open>The concatenating stream keeps the contract\<close>

context zero_copy_input
begin

abbreviation "cops \<equiv> concatenating_ops ops"
abbreviation "cinv \<equiv> concatenating_inv ops inv"
abbreviation "crest \<equiv> concatenating_rest rest"
abbreviation "clast \<equiv> concatenating_last last_chunk"

lemmas concatenating_defs = concatenating_ops_def concatenating_inv_def concatenating_rest_def
  concatenating_last_def concatenating_empties_def ConcatenatingInput_ByteCount_def

lemma concatenating_eta: "\<lparr>ci_streams = ci_streams s, ci_bytes_retired = ci_bytes_retired s\<rparr> = s"
  by simp

lemma concatenating_next_loop_ok:
  assumes "cinv \<lparr>ci_streams = ss, ci_bytes_retired = k\<rparr>"
  shows "\<exists>r s'. Concatenating_next_loop ops ss k = Some (r, s') \<and> cinv s' \<and>
      (case r of
         None \<Rightarrow> crest \<lparr>ci_streams = ss, ci_bytes_retired = k\<rparr> = [] \<and> crest s' = [] \<and>
           in_bytecount cops s' = in_bytecount cops \<lparr>ci_streams = ss, ci_bytes_retired = k\<rparr>
       | Some c \<Rightarrow> crest \<lparr>ci_streams = ss, ci_bytes_retired = k\<rparr> = c @ crest s' \<and> (\<exists>p. clast s' = p @ c) \<and>
           in_bytecount cops s' = in_bytecount cops \<lparr>ci_streams = ss, ci_bytes_retired = k\<rparr> + int (length c) \<and>
           (c = [] \<longrightarrow> concatenating_empties empties s' < concatenating_empties empties \<lparr>ci_streams = ss, ci_bytes_retired = k\<rparr>))"
  using assms
proof (induction ss arbitrary: k)
  case Nil
  then show ?case by (simp add: concatenating_defs)
next
  case (Cons s ss)
  then have inv: "inv s" by (simp add: concatenating_defs)
  obtain r t where t: "in_next ops s = Some (r, t)" "inv t"
    and law: "case r of
         None \<Rightarrow> rest s = [] \<and> rest t = [] \<and> in_bytecount ops t = in_bytecount ops s
       | Some c \<Rightarrow> rest s = c @ rest t \<and> (\<exists>p. last_chunk t = p @ c) \<and>
           in_bytecount ops t = in_bytecount ops s + int (length c) \<and>
           (c = [] \<longrightarrow> empties t < empties s)"
    using next_ok [OF inv] by blast
  show ?case
  proof (cases r)
    case (Some c)
    with t law Cons.prems show ?thesis by (simp add: concatenating_defs)
  next
    case None
    let ?k = "k + in_bytecount ops t"
    have pre: "cinv \<lparr>ci_streams = ss, ci_bytes_retired = ?k\<rparr>"
      using Cons.prems by (cases ss) (simp_all add: concatenating_defs)
    have same: "crest \<lparr>ci_streams = s # ss, ci_bytes_retired = k\<rparr> = crest \<lparr>ci_streams = ss, ci_bytes_retired = ?k\<rparr>"
      "in_bytecount cops \<lparr>ci_streams = s # ss, ci_bytes_retired = k\<rparr> =
       in_bytecount cops \<lparr>ci_streams = ss, ci_bytes_retired = ?k\<rparr>"
      "concatenating_empties empties \<lparr>ci_streams = ss, ci_bytes_retired = ?k\<rparr> \<le>
       concatenating_empties empties \<lparr>ci_streams = s # ss, ci_bytes_retired = k\<rparr>"
      using law None Cons.prems by (cases ss; simp add: concatenating_defs)+
    have "Concatenating_next_loop ops (s # ss) k = Concatenating_next_loop ops ss ?k"
      by (simp add: t None)
    moreover obtain r' s' where "Concatenating_next_loop ops ss ?k = Some (r', s')" "cinv s'"
      and "case r' of
         None \<Rightarrow> crest \<lparr>ci_streams = ss, ci_bytes_retired = ?k\<rparr> = [] \<and> crest s' = [] \<and>
           in_bytecount cops s' = in_bytecount cops \<lparr>ci_streams = ss, ci_bytes_retired = ?k\<rparr>
       | Some c \<Rightarrow> crest \<lparr>ci_streams = ss, ci_bytes_retired = ?k\<rparr> = c @ crest s' \<and> (\<exists>p. clast s' = p @ c) \<and>
           in_bytecount cops s' = in_bytecount cops \<lparr>ci_streams = ss, ci_bytes_retired = ?k\<rparr> + int (length c) \<and>
           (c = [] \<longrightarrow> concatenating_empties empties s' < concatenating_empties empties \<lparr>ci_streams = ss, ci_bytes_retired = ?k\<rparr>)"
      using Cons.IH [OF pre] by blast
    ultimately show ?thesis
      unfolding same(1,2) using same(3) by (cases r') auto
  qed
qed

lemma concatenating_skip_loop_ok:
  assumes "cinv \<lparr>ci_streams = ss, ci_bytes_retired = k\<rparr>"
  shows "\<exists>b s'. Concatenating_skip_loop ops (int n) ss k = Some (b, s') \<and> cinv s' \<and>
      crest s' = drop n (crest \<lparr>ci_streams = ss, ci_bytes_retired = k\<rparr>) \<and>
      in_bytecount cops s' = in_bytecount cops \<lparr>ci_streams = ss, ci_bytes_retired = k\<rparr>
        + int (min n (length (crest \<lparr>ci_streams = ss, ci_bytes_retired = k\<rparr>))) \<and>
      (b \<longrightarrow> n \<le> length (crest \<lparr>ci_streams = ss, ci_bytes_retired = k\<rparr>)) \<and> (\<not> b \<longrightarrow> crest s' = []) \<and>
      (0 < n \<longrightarrow> n \<le> length (crest \<lparr>ci_streams = ss, ci_bytes_retired = k\<rparr>) \<longrightarrow> b)"
  using assms
proof (induction ss arbitrary: k n)
  case Nil
  then show ?case by (intro exI [of _ False] exI) (auto simp: concatenating_defs)
next
  case (Cons s ss)
  then have inv: "inv s" by (simp add: concatenating_defs)
  obtain b t where t: "in_skip ops (int n) s = Some (b, t)" "inv t" "rest t = drop n (rest s)"
      "in_bytecount ops t = in_bytecount ops s + int (min n (length (rest s)))"
      "b \<longrightarrow> n \<le> length (rest s)" "\<not> b \<longrightarrow> rest t = []" "0 < n \<longrightarrow> n \<le> length (rest s) \<longrightarrow> b"
    using skip_ok [OF inv, of n] by (elim exE conjE) (rule that; assumption)
  let ?s = "\<lparr>ci_streams = s # ss, ci_bytes_retired = k\<rparr>"
  show ?case
  proof (cases b)
    case True
    let ?t = "\<lparr>ci_streams = t # ss, ci_bytes_retired = k\<rparr>"
    have "Concatenating_skip_loop ops (int n) (s # ss) k = Some (True, ?t)"
      using t(1) True by simp
    moreover have "cinv ?t"
      using t(2) Cons.prems by (simp add: concatenating_defs)
    moreover have "crest ?t = drop n (crest ?s)" "n \<le> length (crest ?s)"
      using t(3,5) True by (simp_all add: concatenating_defs)
    moreover have "in_bytecount cops ?t = in_bytecount cops ?s + int n"
      using t(4,5) True by (simp add: concatenating_defs)
    ultimately show ?thesis by (intro exI [of _ True] exI [of _ ?t]) (simp add: min_def)
  next
    case False
    let ?k = "k + in_bytecount ops t" and ?n = "n - length (rest s)"
    let ?t = "\<lparr>ci_streams = ss, ci_bytes_retired = ?k\<rparr>"
    have short: "length (rest s) \<le> n"
      using t(3,6) False by simp
    have pre: "cinv ?t"
      using Cons.prems by (cases ss) (simp_all add: concatenating_defs)
    have crest: "crest ?s = rest s @ crest ?t"
      by (simp add: concatenating_defs)
    have count: "in_bytecount cops ?t = in_bytecount cops ?s + int (length (rest s))"
      using t(4) short Cons.prems by (cases ss) (simp_all add: concatenating_defs)
    have left: "in_bytecount ops s + int n - in_bytecount ops t = int ?n"
      using t(4) short by (simp add: of_nat_diff)
    have "Concatenating_skip_loop ops (int n) (s # ss) k = Concatenating_skip_loop ops (int ?n) ss ?k"
      unfolding Concatenating_skip_loop.simps Let_def t(1) using False by (simp only: bind.bind_lunit prod.case left if_False)
    moreover obtain b' s' where "Concatenating_skip_loop ops (int ?n) ss ?k = Some (b', s')" "cinv s'"
      "crest s' = drop ?n (crest ?t)"
      "in_bytecount cops s' = in_bytecount cops ?t + int (min ?n (length (crest ?t)))"
      "b' \<longrightarrow> ?n \<le> length (crest ?t)" "\<not> b' \<longrightarrow> crest s' = []"
      "0 < ?n \<longrightarrow> ?n \<le> length (crest ?t) \<longrightarrow> b'"
      using Cons.IH [OF pre, of ?n] by (elim exE conjE) (rule that; assumption)
    moreover have "0 < n \<longrightarrow> n \<le> length (crest ?s) \<longrightarrow> 0 < ?n"
      using t(7) False short by auto
    moreover have "drop ?n (crest ?t) = drop n (crest ?s)" "?n \<le> length (crest ?t) \<longleftrightarrow> n \<le> length (crest ?s)"
      "int (min ?n (length (crest ?t))) + int (length (rest s)) = int (min n (length (crest ?s)))"
      using short by (auto simp: crest)
    ultimately show ?thesis
      by (intro exI [of _ b'] exI [of _ s']) (simp add: count)
  qed
qed

lemma concatenating_contract:
  "zero_copy_input cops cinv crest clast (concatenating_empties empties)"
proof (unfold_locales, goal_cases)
  case (1 s)
  then show ?case
    using concatenating_next_loop_ok [of "ci_streams s" "ci_bytes_retired s", unfolded concatenating_eta]
    by (simp add: concatenating_ops_def ConcatenatingInput_Next_def)
next
  case (2 s n)
  then obtain t ts where s: "ci_streams s = t # ts"
    by (cases "ci_streams s") (simp_all add: concatenating_defs)
  obtain t' where "in_backup ops (int n) t = Some t'" "inv t'" "rest t' = suffix_of n (last_chunk t) @ rest t"
    "in_bytecount ops t' = in_bytecount ops t - int n"
    using backup_ok [of t n] 2 s by (auto simp: concatenating_defs)
  with 2 s show ?case
    by (simp add: concatenating_defs ConcatenatingInput_BackUp_def)
next
  case (3 s n)
  then show ?case
    using concatenating_skip_loop_ok [of "ci_streams s" "ci_bytes_retired s", unfolded concatenating_eta]
    by (simp add: concatenating_ops_def ConcatenatingInput_Skip_def)
qed

end

interpretation array_concat: zero_copy_input "concatenating_ops array_input_ops"
  "concatenating_inv array_input_ops array_input_inv" "concatenating_rest array_input_rest"
  "concatenating_last array_input_last" "concatenating_empties (\<lambda>_. 0)"
  by (rule array_in.concatenating_contract)

end
