(* ===== verification/Coded_Input.thy ===== *)
theory Coded_Input
  imports Zero_Copy_Impl Varint
begin

text \<open>
  \<open>io::CodedInputStream\<close> (\<open>io/coded_stream.h\<close>, \<open>io/coded_stream.cc\<close>, \<open>io/coded_stream_inl.h\<close>).

  The record has one field per data member. \<open>buffer_\<close> and \<open>buffer_end_\<close> are offsets into the
  array \<open>cis_chunk\<close>, the memory block they point into (empty for the null pointer); \<open>input_\<close> is
  \<open>None\<close> for the flat-array constructor. The functions take the table \<open>ops\<close> of the underlying
  stream. \<open>cis_log\<close> records the messages written with \<open>GOOGLE_LOG\<close>. \<open>GOOGLE_DCHECK\<close> and
  \<open>assert\<close> are compiled out, as in a release build; \<open>PROTOBUF_LITTLE_ENDIAN\<close> is not defined.
\<close>

unbundle bit_operations_syntax

section \<open>State\<close>

datatype log_event =
    TotalBytesLimitError int
  | DangerouslyLargeWarning int
  | TotalBytesReadWarning int

record 's coded_input =
  cis_chunk :: bytes
  cis_buffer :: int
  cis_buffer_end :: int
  cis_input :: "'s option"
  cis_total_bytes_read :: int
  cis_overflow_bytes :: int
  cis_last_tag :: uint32
  cis_legitimate_message_end :: bool
  cis_aliasing_enabled :: bool
  cis_current_limit :: int
  cis_buffer_size_after_limit :: int
  cis_total_bytes_limit :: int
  cis_total_bytes_warning_threshold :: int
  cis_recursion_budget :: int
  cis_recursion_limit :: int
  cis_extension_pool :: "nat option"
  cis_extension_factory :: "nat option"
  cis_log :: "log_event list"

definition kDefaultTotalBytesLimit :: int where
  "kDefaultTotalBytesLimit = 64 * 2 ^ 20"

definition kDefaultTotalBytesWarningThreshold :: int where
  "kDefaultTotalBytesWarningThreshold = 32 * 2 ^ 20"

definition default_recursion_limit :: int where
  "default_recursion_limit = 100"

definition BufferSize :: "'s coded_input \<Rightarrow> int" where
  "BufferSize s = cis_buffer_end s - cis_buffer s"

definition Advance :: "int \<Rightarrow> 's coded_input \<Rightarrow> 's coded_input" where
  "Advance amount s = s\<lparr>cis_buffer := cis_buffer s + amount\<rparr>"

definition CurrentPosition :: "'s coded_input \<Rightarrow> int" where
  "CurrentPosition s = cis_total_bytes_read s - (BufferSize s + cis_buffer_size_after_limit s)"

definition IsFlat :: "'s coded_input \<Rightarrow> bool" where
  "IsFlat s \<longleftrightarrow> cis_input s = None"

definition cis_log_add :: "log_event \<Rightarrow> 's coded_input \<Rightarrow> 's coded_input" where
  "cis_log_add e s = s\<lparr>cis_log := cis_log s @ [e]\<rparr>"

definition cis_null_buffer :: "'s coded_input \<Rightarrow> 's coded_input" where
  \<comment> \<open>\<open>buffer_ = NULL; buffer_end_ = NULL\<close>\<close>
  "cis_null_buffer s = s\<lparr>cis_chunk := [], cis_buffer := 0, cis_buffer_end := 0\<rparr>"

section \<open>Limits\<close>

definition RecomputeBufferLimits :: "'s coded_input \<Rightarrow> 's coded_input" where
  "RecomputeBufferLimits s =
     (let s = s\<lparr>cis_buffer_end := cis_buffer_end s + cis_buffer_size_after_limit s\<rparr>;
          closest_limit = min (cis_current_limit s) (cis_total_bytes_limit s) in
      if closest_limit < cis_total_bytes_read s then
        (let after = cis_total_bytes_read s - closest_limit in
         s\<lparr>cis_buffer_size_after_limit := after, cis_buffer_end := cis_buffer_end s - after\<rparr>)
      else s\<lparr>cis_buffer_size_after_limit := 0\<rparr>)"

definition BackUpInputToCurrentPosition ::
    "'s zc_input_ops \<Rightarrow> 's coded_input \<Rightarrow> 's coded_input option" where
  "BackUpInputToCurrentPosition ops s =
     (let backup_bytes = BufferSize s + cis_buffer_size_after_limit s + cis_overflow_bytes s in
      if backup_bytes > 0 then do {
        input \<leftarrow> cis_input s;
        input \<leftarrow> in_backup ops backup_bytes input;
        Some (s\<lparr>cis_input := Some input,
                cis_total_bytes_read := cis_total_bytes_read s - (BufferSize s + cis_buffer_size_after_limit s),
                cis_buffer_end := cis_buffer s, cis_buffer_size_after_limit := 0,
                cis_overflow_bytes := 0\<rparr>)
      }
      else Some s)"

definition PushLimit :: "int \<Rightarrow> 's coded_input \<Rightarrow> int \<times> 's coded_input" where
  "PushLimit byte_limit s =
     (let current_position = CurrentPosition s; old_limit = cis_current_limit s;
          limit = (if byte_limit \<ge> 0 \<and> byte_limit \<le> INT_MAX - current_position
                   then current_position + byte_limit else INT_MAX)
      in (old_limit, RecomputeBufferLimits (s\<lparr>cis_current_limit := min limit old_limit\<rparr>)))"

definition PopLimit :: "int \<Rightarrow> 's coded_input \<Rightarrow> 's coded_input" where
  "PopLimit limit s =
     (RecomputeBufferLimits (s\<lparr>cis_current_limit := limit\<rparr>))\<lparr>cis_legitimate_message_end := False\<rparr>"

definition BytesUntilLimit :: "'s coded_input \<Rightarrow> int" where
  "BytesUntilLimit s =
     (if cis_current_limit s = INT_MAX then -1 else cis_current_limit s - CurrentPosition s)"

definition SetTotalBytesLimit :: "int \<Rightarrow> int \<Rightarrow> 's coded_input \<Rightarrow> 's coded_input" where
  "SetTotalBytesLimit total_bytes_limit warning_threshold s =
     (let current_position = CurrentPosition s in
      RecomputeBufferLimits
        (s\<lparr>cis_total_bytes_limit := max current_position total_bytes_limit,
           cis_total_bytes_warning_threshold := (if warning_threshold \<ge> 0 then warning_threshold else -1)\<rparr>))"

definition BytesUntilTotalBytesLimit :: "'s coded_input \<Rightarrow> int" where
  "BytesUntilTotalBytesLimit s =
     (if cis_total_bytes_limit s = INT_MAX then -1 else cis_total_bytes_limit s - CurrentPosition s)"

definition PrintTotalBytesLimitError :: "'s coded_input \<Rightarrow> 's coded_input" where
  "PrintTotalBytesLimitError s = cis_log_add (TotalBytesLimitError (cis_total_bytes_limit s)) s"

section \<open>Refilling the buffer\<close>

definition Refresh_warn :: "'s coded_input \<Rightarrow> 's coded_input" where
  \<comment> \<open>The part of \<open>Refresh\<close> that logs the size warning.\<close>
  "Refresh_warn s =
     (if cis_total_bytes_warning_threshold s \<ge> 0 \<and>
         cis_total_bytes_read s \<ge> cis_total_bytes_warning_threshold s
      then (cis_log_add (DangerouslyLargeWarning (cis_total_bytes_limit s)) s)
             \<lparr>cis_total_bytes_warning_threshold := -2\<rparr>
      else s)"

definition Refresh_accept :: "bytes \<Rightarrow> 's coded_input \<Rightarrow> 's coded_input" where
  \<comment> \<open>The part of \<open>Refresh\<close> that installs the new buffer.\<close>
  "Refresh_accept c s =
     (let buffer_size = int (length c);
          s = s\<lparr>cis_chunk := c, cis_buffer := 0, cis_buffer_end := buffer_size\<rparr>;
          s = (if cis_total_bytes_read s \<le> INT_MAX - buffer_size
               then s\<lparr>cis_total_bytes_read := cis_total_bytes_read s + buffer_size\<rparr>
               else (let overflow = cis_total_bytes_read s - (INT_MAX - buffer_size) in
                     s\<lparr>cis_overflow_bytes := overflow, cis_buffer_end := cis_buffer_end s - overflow,
                       cis_total_bytes_read := INT_MAX\<rparr>))
      in RecomputeBufferLimits s)"

definition Refresh :: "'s zc_input_ops \<Rightarrow> 's coded_input \<Rightarrow> (bool \<times> 's coded_input) option" where
  "Refresh ops s =
     (if cis_buffer_size_after_limit s > 0 \<or> cis_overflow_bytes s > 0 \<or>
         cis_total_bytes_read s = cis_current_limit s then
        (let current_position = cis_total_bytes_read s - cis_buffer_size_after_limit s in
         if current_position \<ge> cis_total_bytes_limit s \<and>
            cis_total_bytes_limit s \<noteq> cis_current_limit s
         then Some (False, PrintTotalBytesLimitError s)
         else Some (False, s))
      else do {
        let s = Refresh_warn s;
        input \<leftarrow> cis_input s;
        (r, input) \<leftarrow> NextNonEmpty ops input;
        let s = s\<lparr>cis_input := Some input\<rparr>;
        case r of
          Some c \<Rightarrow> Some (True, Refresh_accept c s)
        | None \<Rightarrow> Some (False, cis_null_buffer s)
      })"

section \<open>Construction and destruction\<close>

definition CodedInputStream_init :: "bytes \<Rightarrow> 's option \<Rightarrow> int \<Rightarrow> int \<Rightarrow> 's coded_input" where
  \<comment> \<open>The member initialisers the two constructors share.\<close>
  "CodedInputStream_init chunk input total_bytes_read current_limit =
     \<lparr>cis_chunk = chunk, cis_buffer = 0, cis_buffer_end = int (length chunk), cis_input = input,
      cis_total_bytes_read = total_bytes_read, cis_overflow_bytes = 0, cis_last_tag = 0,
      cis_legitimate_message_end = False, cis_aliasing_enabled = False,
      cis_current_limit = current_limit, cis_buffer_size_after_limit = 0,
      cis_total_bytes_limit = kDefaultTotalBytesLimit,
      cis_total_bytes_warning_threshold = kDefaultTotalBytesWarningThreshold,
      cis_recursion_budget = default_recursion_limit, cis_recursion_limit = default_recursion_limit,
      cis_extension_pool = None, cis_extension_factory = None, cis_log = []\<rparr>"

definition CodedInputStream :: "'s zc_input_ops \<Rightarrow> 's \<Rightarrow> 's coded_input option" where
  "CodedInputStream ops input =
     map_option snd (Refresh ops (CodedInputStream_init [] (Some input) 0 INT_MAX))"

definition CodedInputStream_flat :: "bytes \<Rightarrow> 's coded_input" where
  "CodedInputStream_flat buffer =
     CodedInputStream_init buffer None (int (length buffer)) (int (length buffer))"

definition CodedInputStream_destroy :: "'s zc_input_ops \<Rightarrow> 's coded_input \<Rightarrow> 's coded_input option" where
  "CodedInputStream_destroy ops s =
     do {
       s \<leftarrow> (if cis_input s \<noteq> None then BackUpInputToCurrentPosition ops s else Some s);
       Some (if cis_total_bytes_warning_threshold s = -2
             then cis_log_add (TotalBytesReadWarning (cis_total_bytes_read s)) s else s)
     }"

section \<open>Skipping and raw reads\<close>

definition Skip :: "'s zc_input_ops \<Rightarrow> int \<Rightarrow> 's coded_input \<Rightarrow> (bool \<times> 's coded_input) option" where
  "Skip ops count s =
     (if count < 0 then Some (False, s)
      else (let original_buffer_size = BufferSize s in
      if count \<le> original_buffer_size then Some (True, Advance count s)
      else if cis_buffer_size_after_limit s > 0 then Some (False, Advance original_buffer_size s)
      else
        (let count = count - original_buffer_size;
             s = cis_null_buffer s;
             closest_limit = min (cis_current_limit s) (cis_total_bytes_limit s);
             bytes_until_limit = closest_limit - cis_total_bytes_read s in
         if bytes_until_limit < count then
           if bytes_until_limit > 0 then do {
             let s = s\<lparr>cis_total_bytes_read := closest_limit\<rparr>;
             input \<leftarrow> cis_input s;
             (_, input) \<leftarrow> in_skip ops bytes_until_limit input;
             Some (False, s\<lparr>cis_input := Some input\<rparr>)
           }
           else Some (False, s)
         else do {
           let s = s\<lparr>cis_total_bytes_read := cis_total_bytes_read s + count\<rparr>;
           input \<leftarrow> cis_input s;
           (ok, input) \<leftarrow> in_skip ops count input;
           Some (ok, s\<lparr>cis_input := Some input\<rparr>)
         })))"

definition GetDirectBufferPointer ::
    "'s zc_input_ops \<Rightarrow> 's coded_input \<Rightarrow> (bytes option \<times> 's coded_input) option" where
  \<comment> \<open>The bytes of the buffer from \<open>*data\<close> on, \<open>*size\<close> of them; \<open>None\<close> for a false result.\<close>
  "GetDirectBufferPointer ops s =
     do {
       (ok, s) \<leftarrow> (if BufferSize s = 0 then Refresh ops s else Some (True, s));
       if ok then do {
         data \<leftarrow> mem_read (cis_chunk s) (cis_buffer s) (BufferSize s);
         Some (Some data, s)
       }
       else Some (None, s)
     }"

definition GetDirectBufferPointerInline :: "'s coded_input \<Rightarrow> bytes option" where
  "GetDirectBufferPointerInline s = mem_read (cis_chunk s) (cis_buffer s) (BufferSize s)"

partial_function (option) InternalReadRawInline ::
    "'s zc_input_ops \<Rightarrow> int \<Rightarrow> 's coded_input \<Rightarrow> (bool \<times> bytes \<times> 's coded_input) option" where
  \<comment> \<open>The result and the bytes stored through \<open>buffer\<close>.\<close>
  "InternalReadRawInline ops sz s =
     (let current_buffer_size = BufferSize s in
      if current_buffer_size < sz then do {
        c \<leftarrow> mem_read (cis_chunk s) (cis_buffer s) current_buffer_size;
        (ok, s) \<leftarrow> Refresh ops (Advance current_buffer_size s);
        if \<not> ok then Some (False, c, s)
        else do {
          (ok, cs, s) \<leftarrow> InternalReadRawInline ops (sz - current_buffer_size) s;
          Some (ok, c @ cs, s)
        }
      }
      else do {
        c \<leftarrow> mem_read (cis_chunk s) (cis_buffer s) sz;
        Some (True, c, Advance sz s)
      })"

definition ReadRaw ::
    "'s zc_input_ops \<Rightarrow> int \<Rightarrow> 's coded_input \<Rightarrow> (bool \<times> bytes \<times> 's coded_input) option" where
  "ReadRaw ops sz s = InternalReadRawInline ops sz s"

partial_function (option) ReadStringFallback_loop ::
    "'s zc_input_ops \<Rightarrow> int \<Rightarrow> bytes \<Rightarrow> 's coded_input \<Rightarrow> (bool \<times> bytes \<times> 's coded_input) option" where
  \<comment> \<open>The loop of \<open>ReadStringFallback\<close>; \<open>buffer\<close> is the string read so far.\<close>
  "ReadStringFallback_loop ops sz buffer s =
     (let current_buffer_size = BufferSize s in
      if current_buffer_size < sz then do {
        buffer \<leftarrow> (if current_buffer_size \<noteq> 0 then do {
                     c \<leftarrow> mem_read (cis_chunk s) (cis_buffer s) current_buffer_size;
                     Some (buffer @ c)
                   }
                   else Some buffer);
        (ok, s) \<leftarrow> Refresh ops (Advance current_buffer_size s);
        if \<not> ok then Some (False, buffer, s)
        else ReadStringFallback_loop ops (sz - current_buffer_size) buffer s
      }
      else do {
        c \<leftarrow> mem_read (cis_chunk s) (cis_buffer s) sz;
        Some (True, buffer @ c, Advance sz s)
      })"

definition ReadStringFallback ::
    "'s zc_input_ops \<Rightarrow> int \<Rightarrow> bytes \<Rightarrow> 's coded_input \<Rightarrow> (bool \<times> bytes \<times> 's coded_input) option" where
  \<comment> \<open>The call of \<open>reserve\<close> changes the string's capacity only, which is not part of its value.\<close>
  "ReadStringFallback ops sz buffer s =
     (let buffer = (if buffer \<noteq> [] then [] else buffer) in ReadStringFallback_loop ops sz buffer s)"

definition InternalReadStringInline ::
    "'s zc_input_ops \<Rightarrow> int \<Rightarrow> bytes \<Rightarrow> 's coded_input \<Rightarrow> (bool \<times> bytes \<times> 's coded_input) option" where
  "InternalReadStringInline ops sz buffer s =
     (if sz < 0 then Some (False, buffer, s)
      else if BufferSize s \<ge> sz then do {
        c \<leftarrow> mem_read (cis_chunk s) (cis_buffer s) sz;
        Some (True, c, Advance sz s)
      }
      else ReadStringFallback ops sz buffer s)"

definition ReadString ::
    "'s zc_input_ops \<Rightarrow> int \<Rightarrow> bytes \<Rightarrow> 's coded_input \<Rightarrow> (bool \<times> bytes \<times> 's coded_input) option" where
  "ReadString ops sz buffer s =
     (if sz < 0 then Some (False, buffer, s) else InternalReadStringInline ops sz buffer s)"

section \<open>Little-endian integers\<close>

definition ReadLittleEndian32Fallback ::
    "'s zc_input_ops \<Rightarrow> 's coded_input \<Rightarrow> (uint32 option \<times> 's coded_input) option" where
  \<comment> \<open>The value, or \<open>None\<close> for a false result.\<close>
  "ReadLittleEndian32Fallback ops s =
     (if BufferSize s \<ge> 4 then do {
        (v, _) \<leftarrow> ReadLittleEndian32FromArray (cis_chunk s) (cis_buffer s);
        Some (Some v, Advance 4 s)
      }
      else do {
        (ok, bs, s) \<leftarrow> ReadRaw ops 4 s;
        if \<not> ok then Some (None, s)
        else do { (v, _) \<leftarrow> ReadLittleEndian32FromArray bs 0; Some (Some v, s) }
      })"

definition ReadLittleEndian32 ::
    "'s zc_input_ops \<Rightarrow> 's coded_input \<Rightarrow> (uint32 option \<times> 's coded_input) option" where
  "ReadLittleEndian32 ops s = ReadLittleEndian32Fallback ops s"

definition ReadLittleEndian64Fallback ::
    "'s zc_input_ops \<Rightarrow> 's coded_input \<Rightarrow> (uint64 option \<times> 's coded_input) option" where
  "ReadLittleEndian64Fallback ops s =
     (if BufferSize s \<ge> 8 then do {
        (v, _) \<leftarrow> ReadLittleEndian64FromArray (cis_chunk s) (cis_buffer s);
        Some (Some v, Advance 8 s)
      }
      else do {
        (ok, bs, s) \<leftarrow> ReadRaw ops 8 s;
        if \<not> ok then Some (None, s)
        else do { (v, _) \<leftarrow> ReadLittleEndian64FromArray bs 0; Some (Some v, s) }
      })"

definition ReadLittleEndian64 ::
    "'s zc_input_ops \<Rightarrow> 's coded_input \<Rightarrow> (uint64 option \<times> 's coded_input) option" where
  "ReadLittleEndian64 ops s = ReadLittleEndian64Fallback ops s"

section \<open>Varints\<close>

definition fast_varint :: "'s coded_input \<Rightarrow> bool option" where
  \<comment> \<open>\<open>BufferSize() >= kMaxVarintBytes || (buffer_end_ > buffer_ && !(buffer_end_[-1] & 0x80))\<close>\<close>
  "fast_varint s =
     (if BufferSize s \<ge> int kMaxVarintBytes then Some True
      else if cis_buffer_end s > cis_buffer s then do {
        b \<leftarrow> byte_at (cis_chunk s) (cis_buffer_end s - 1);
        Some (b AND 0x80 = 0)
      }
      else Some False)"

partial_function (option) refill :: "'s zc_input_ops \<Rightarrow> 's coded_input \<Rightarrow> (bool \<times> 's coded_input) option" where
  \<comment> \<open>\<open>while (buffer_ == buffer_end_) if (!Refresh()) return false;\<close>\<close>
  "refill ops s =
     (if cis_buffer s = cis_buffer_end s then do {
        (ok, s) \<leftarrow> Refresh ops s;
        if \<not> ok then Some (False, s) else refill ops s
      }
      else Some (True, s))"

fun ReadVarint64Slow_loop ::
    "'s zc_input_ops \<Rightarrow> nat \<Rightarrow> nat \<Rightarrow> uint64 \<Rightarrow> 's coded_input \<Rightarrow> (uint64 option \<times> 's coded_input) option" where
  \<comment> \<open>The \<open>do ... while (b & 0x80)\<close> loop; the first number is \<open>kMaxVarintBytes - count\<close>.\<close>
  "ReadVarint64Slow_loop ops 0 count result s = Some (None, s)"
| "ReadVarint64Slow_loop ops (Suc left) count result s = do {
     (ok, s) \<leftarrow> refill ops s;
     if \<not> ok then Some (None, s)
     else do {
       b \<leftarrow> next_b (cis_chunk s) (cis_buffer s);
       let result = result OR push_bit (7 * count) (ucast (b AND 0x7F));
       let s = Advance 1 s;
       if b AND 0x80 \<noteq> 0 then ReadVarint64Slow_loop ops left (count + 1) result s
       else Some (Some result, s)
     }
   }"

definition ReadVarint64Slow ::
    "'s zc_input_ops \<Rightarrow> 's coded_input \<Rightarrow> (uint64 option \<times> 's coded_input) option" where
  "ReadVarint64Slow ops s = ReadVarint64Slow_loop ops kMaxVarintBytes 0 0 s"

definition ReadVarint64Fallback ::
    "'s zc_input_ops \<Rightarrow> 's coded_input \<Rightarrow> (uint64 option \<times> 's coded_input) option" where
  \<comment> \<open>\<open>None\<close> stands for a pair whose second part is false; no caller uses its first part.\<close>
  "ReadVarint64Fallback ops s =
     do {
       fast \<leftarrow> fast_varint s;
       if fast then do {
         (r, ptr) \<leftarrow> ReadVarint64FromArray (cis_chunk s) (cis_buffer s);
         case r of None \<Rightarrow> Some (None, s) | Some temp \<Rightarrow> Some (Some temp, s\<lparr>cis_buffer := ptr\<rparr>)
       }
       else ReadVarint64Slow ops s
     }"

definition ReadVarint64 ::
    "'s zc_input_ops \<Rightarrow> 's coded_input \<Rightarrow> (uint64 option \<times> 's coded_input) option" where
  "ReadVarint64 ops s =
     (if cis_buffer s < cis_buffer_end s then do {
        b \<leftarrow> byte_at (cis_chunk s) (cis_buffer s);
        if b < 0x80 then Some (Some (ucast b), Advance 1 s) else ReadVarint64Fallback ops s
      }
      else ReadVarint64Fallback ops s)"

definition ReadVarint32Slow ::
    "'s zc_input_ops \<Rightarrow> 's coded_input \<Rightarrow> (uint32 option \<times> 's coded_input) option" where
  "ReadVarint32Slow ops s =
     do { (p, s) \<leftarrow> ReadVarint64Fallback ops s; Some (map_option ucast p, s) }"

definition ReadVarint32Fallback ::
    "'s zc_input_ops \<Rightarrow> uint32 \<Rightarrow> 's coded_input \<Rightarrow> (int \<times> 's coded_input) option" where
  \<comment> \<open>The \<open>int64\<close> result: the value, or -1.\<close>
  "ReadVarint32Fallback ops first_byte_or_zero s =
     do {
       fast \<leftarrow> fast_varint s;
       if fast then do {
         (r, ptr) \<leftarrow> ReadVarint32FromArray first_byte_or_zero (cis_chunk s) (cis_buffer s);
         case r of None \<Rightarrow> Some (-1, s) | Some temp \<Rightarrow> Some (uint temp, s\<lparr>cis_buffer := ptr\<rparr>)
       }
       else do {
         (r, s) \<leftarrow> ReadVarint32Slow ops s;
         Some (case r of None \<Rightarrow> -1 | Some temp \<Rightarrow> uint temp, s)
       }
     }"

definition ReadVarint32 ::
    "'s zc_input_ops \<Rightarrow> 's coded_input \<Rightarrow> (uint32 option \<times> 's coded_input) option" where
  "ReadVarint32 ops s =
     do {
       v \<leftarrow> (if cis_buffer s < cis_buffer_end s then next_b (cis_chunk s) (cis_buffer s) else Some 0);
       if cis_buffer s < cis_buffer_end s \<and> v < 0x80 then Some (Some v, Advance 1 s)
       else do {
         (result, s) \<leftarrow> ReadVarint32Fallback ops v s;
         Some (if result \<ge> 0 then Some (word_of_int result) else None, s)
       }
     }"

definition ReadVarintSizeAsIntSlow ::
    "'s zc_input_ops \<Rightarrow> 's coded_input \<Rightarrow> (int \<times> 's coded_input) option" where
  "ReadVarintSizeAsIntSlow ops s =
     do {
       (p, s) \<leftarrow> ReadVarint64Fallback ops s;
       Some (case p of None \<Rightarrow> -1 | Some v \<Rightarrow> if v > word_of_int INT_MAX then -1 else uint v, s)
     }"

definition ReadVarintSizeAsIntFallback ::
    "'s zc_input_ops \<Rightarrow> 's coded_input \<Rightarrow> (int \<times> 's coded_input) option" where
  "ReadVarintSizeAsIntFallback ops s =
     do {
       fast \<leftarrow> fast_varint s;
       if fast then do {
         (r, ptr) \<leftarrow> ReadVarint64FromArray (cis_chunk s) (cis_buffer s);
         case r of
           None \<Rightarrow> Some (-1, s)
         | Some temp \<Rightarrow>
             if temp > word_of_int INT_MAX then Some (-1, s)
             else Some (uint temp, s\<lparr>cis_buffer := ptr\<rparr>)
       }
       else ReadVarintSizeAsIntSlow ops s
     }"

definition ReadVarintSizeAsInt ::
    "'s zc_input_ops \<Rightarrow> 's coded_input \<Rightarrow> (bool \<times> int \<times> 's coded_input) option" where
  \<comment> \<open>The result and \<open>*value\<close>.\<close>
  "ReadVarintSizeAsInt ops s =
     do {
       v \<leftarrow> (if cis_buffer s < cis_buffer_end s
             then map_option uint (byte_at (cis_chunk s) (cis_buffer s)) else Some 0);
       if cis_buffer s < cis_buffer_end s \<and> v < 0x80 then Some (True, v, Advance 1 s)
       else do {
         (v, s) \<leftarrow> ReadVarintSizeAsIntFallback ops s;
         Some (v \<ge> 0, v, s)
       }
     }"

definition ReadLengthAndPushLimit ::
    "'s zc_input_ops \<Rightarrow> 's coded_input \<Rightarrow> (int \<times> 's coded_input) option" where
  \<comment> \<open>The \<open>uint32\<close> length becomes an \<open>int\<close> argument by its bit pattern.\<close>
  "ReadLengthAndPushLimit ops s =
     do {
       (r, s) \<leftarrow> ReadVarint32 ops s;
       Some (PushLimit (case r of None \<Rightarrow> 0 | Some len \<Rightarrow> sint len) s)
     }"

section \<open>Tags\<close>

definition ReadTagSlow ::
    "'s zc_input_ops \<Rightarrow> 's coded_input \<Rightarrow> (uint32 \<times> 's coded_input) option" where
  "ReadTagSlow ops s =
     do {
       (ok, s) \<leftarrow> (if cis_buffer s = cis_buffer_end s then Refresh ops s else Some (True, s));
       if \<not> ok then
         (let current_position = cis_total_bytes_read s - cis_buffer_size_after_limit s in
          Some (0, s\<lparr>cis_legitimate_message_end :=
                      (if current_position \<ge> cis_total_bytes_limit s
                       then cis_current_limit s = cis_total_bytes_limit s else True)\<rparr>))
       else do {
         (r, s) \<leftarrow> ReadVarint64 ops s;
         Some (case r of None \<Rightarrow> 0 | Some result \<Rightarrow> ucast result, s)
       }
     }"

definition ReadTagFallback ::
    "'s zc_input_ops \<Rightarrow> uint32 \<Rightarrow> 's coded_input \<Rightarrow> (uint32 \<times> 's coded_input) option" where
  "ReadTagFallback ops first_byte_or_zero s =
     do {
       fast \<leftarrow> fast_varint s;
       if fast then
         if first_byte_or_zero = 0 then Some (0, s\<lparr>cis_buffer := cis_buffer s + 1\<rparr>)
         else do {
           (r, ptr) \<leftarrow> ReadVarint32FromArray first_byte_or_zero (cis_chunk s) (cis_buffer s);
           case r of None \<Rightarrow> Some (0, s) | Some tag \<Rightarrow> Some (tag, s\<lparr>cis_buffer := ptr\<rparr>)
         }
       else if BufferSize s = 0 \<and>
               (cis_buffer_size_after_limit s > 0 \<or> cis_total_bytes_read s = cis_current_limit s) \<and>
               cis_total_bytes_read s - cis_buffer_size_after_limit s < cis_total_bytes_limit s
       then Some (0, s\<lparr>cis_legitimate_message_end := True\<rparr>)
       else ReadTagSlow ops s
     }"

definition ReadTag :: "'s zc_input_ops \<Rightarrow> 's coded_input \<Rightarrow> (uint32 \<times> 's coded_input) option" where
  "ReadTag ops s =
     do {
       v \<leftarrow> (if cis_buffer s < cis_buffer_end s then next_b (cis_chunk s) (cis_buffer s) else Some 0);
       if cis_buffer s < cis_buffer_end s \<and> v < 0x80
       then Some (v, Advance 1 (s\<lparr>cis_last_tag := v\<rparr>))
       else do {
         (tag, s) \<leftarrow> ReadTagFallback ops v s;
         Some (tag, s\<lparr>cis_last_tag := tag\<rparr>)
       }
     }"

definition ReadTagWithCutoff ::
    "'s zc_input_ops \<Rightarrow> uint32 \<Rightarrow> 's coded_input \<Rightarrow> (uint32 \<times> bool \<times> 's coded_input) option" where
  "ReadTagWithCutoff ops cutoff s =
     do {
       b0 \<leftarrow> (if cis_buffer s < cis_buffer_end s then byte_at (cis_chunk s) (cis_buffer s) else Some 0);
       if cis_buffer s < cis_buffer_end s \<and> sint b0 > 0 then
         (let tag = ucast b0 in
          Some (tag, cutoff \<ge> 0x7f \<or> tag \<le> cutoff, Advance 1 (s\<lparr>cis_last_tag := tag\<rparr>)))
       else do {
         b1 \<leftarrow> (if cis_buffer s + 1 < cis_buffer_end s then byte_at (cis_chunk s) (cis_buffer s + 1)
               else Some 0);
         if cis_buffer s < cis_buffer_end s \<and> cutoff \<ge> 0x80 \<and> cis_buffer s + 1 < cis_buffer_end s \<and>
            (b0 AND NOT b1) \<ge> 0x80
         then
           (let tag = 2 ^ 7 * ucast b1 + (ucast b0 - 0x80) in
            Some (tag, cutoff \<ge> push_bit 7 0x7f + 0x7f \<or> tag \<le> cutoff,
                  Advance 2 (s\<lparr>cis_last_tag := tag\<rparr>)))
         else do {
           (tag, s) \<leftarrow> ReadTagFallback ops (ucast b0) s;
           Some (tag, tag - 1 < cutoff, s\<lparr>cis_last_tag := tag\<rparr>)
         }
       }
     }"

definition LastTagWas :: "uint32 \<Rightarrow> 's coded_input \<Rightarrow> bool" where
  "LastTagWas expected s \<longleftrightarrow> cis_last_tag s = expected"

definition ConsumedEntireMessage :: "'s coded_input \<Rightarrow> bool" where
  "ConsumedEntireMessage s = cis_legitimate_message_end s"

definition ExpectTag :: "uint32 \<Rightarrow> 's coded_input \<Rightarrow> (bool \<times> 's coded_input) option" where
  "ExpectTag expected s =
     (if expected < 2 ^ 7 then
        if cis_buffer s < cis_buffer_end s then do {
          b0 \<leftarrow> byte_at (cis_chunk s) (cis_buffer s);
          if ucast b0 = expected then Some (True, Advance 1 s) else Some (False, s)
        }
        else Some (False, s)
      else if expected < 2 ^ 14 then
        if BufferSize s \<ge> 2 then do {
          b0 \<leftarrow> byte_at (cis_chunk s) (cis_buffer s);
          if b0 = ucast (expected OR 0x80) then do {
            b1 \<leftarrow> byte_at (cis_chunk s) (cis_buffer s + 1);
            if b1 = ucast (drop_bit 7 expected) then Some (True, Advance 2 s) else Some (False, s)
          }
          else Some (False, s)
        }
        else Some (False, s)
      else Some (False, s))"

definition ExpectAtEnd :: "'s coded_input \<Rightarrow> bool \<times> 's coded_input" where
  "ExpectAtEnd s =
     (if cis_buffer s = cis_buffer_end s \<and>
         (cis_buffer_size_after_limit s \<noteq> 0 \<or> cis_total_bytes_read s = cis_current_limit s)
      then (True, s\<lparr>cis_last_tag := 0, cis_legitimate_message_end := True\<rparr>)
      else (False, s))"

section \<open>Recursion budget and registry\<close>

definition SetRecursionLimit :: "int \<Rightarrow> 's coded_input \<Rightarrow> 's coded_input" where
  "SetRecursionLimit limit s =
     s\<lparr>cis_recursion_budget := cis_recursion_budget s + (limit - cis_recursion_limit s),
       cis_recursion_limit := limit\<rparr>"

definition IncrementRecursionDepth :: "'s coded_input \<Rightarrow> bool \<times> 's coded_input" where
  "IncrementRecursionDepth s =
     (let s = s\<lparr>cis_recursion_budget := cis_recursion_budget s - 1\<rparr> in
      (cis_recursion_budget s \<ge> 0, s))"

definition DecrementRecursionDepth :: "'s coded_input \<Rightarrow> 's coded_input" where
  "DecrementRecursionDepth s =
     (if cis_recursion_budget s < cis_recursion_limit s
      then s\<lparr>cis_recursion_budget := cis_recursion_budget s + 1\<rparr> else s)"

definition UnsafeDecrementRecursionDepth :: "'s coded_input \<Rightarrow> 's coded_input" where
  "UnsafeDecrementRecursionDepth s = s\<lparr>cis_recursion_budget := cis_recursion_budget s + 1\<rparr>"

definition IncrementRecursionDepthAndPushLimit :: "int \<Rightarrow> 's coded_input \<Rightarrow> (int \<times> int) \<times> 's coded_input" where
  \<comment> \<open>The pair's two parts touch different members, so their order does not matter.\<close>
  "IncrementRecursionDepthAndPushLimit byte_limit s =
     (case PushLimit byte_limit s of
        (limit, s) \<Rightarrow>
          (let s = s\<lparr>cis_recursion_budget := cis_recursion_budget s - 1\<rparr>
           in ((limit, cis_recursion_budget s), s)))"

definition DecrementRecursionDepthAndPopLimit :: "int \<Rightarrow> 's coded_input \<Rightarrow> bool \<times> 's coded_input" where
  "DecrementRecursionDepthAndPopLimit limit s =
     (let result = ConsumedEntireMessage s; s = PopLimit limit s in
      (result, s\<lparr>cis_recursion_budget := cis_recursion_budget s + 1\<rparr>))"

definition CheckEntireMessageConsumedAndPopLimit :: "int \<Rightarrow> 's coded_input \<Rightarrow> bool \<times> 's coded_input" where
  "CheckEntireMessageConsumedAndPopLimit limit s = (ConsumedEntireMessage s, PopLimit limit s)"

definition SetExtensionRegistry :: "nat option \<Rightarrow> nat option \<Rightarrow> 's coded_input \<Rightarrow> 's coded_input" where
  "SetExtensionRegistry pool factory s =
     s\<lparr>cis_extension_pool := pool, cis_extension_factory := factory\<rparr>"

definition GetExtensionPool :: "'s coded_input \<Rightarrow> nat option" where
  "GetExtensionPool s = cis_extension_pool s"

definition GetExtensionFactory :: "'s coded_input \<Rightarrow> nat option" where
  "GetExtensionFactory s = cis_extension_factory s"

end
