(* ===== verification/Coded_Input_Spec.thy ===== *)
theory Coded_Input_Spec
  imports Coded_Input
begin

text \<open>
  What \<open>CodedInputStream\<close> promises. A stream is abstracted to \<open>unread\<close>, the bytes that have been
  handed to nobody yet, and \<open>view\<close>, the part of them in front of the closest limit. Every read is
  specified on \<open>view\<close> alone, so the result of a parse does not depend on how the underlying stream
  cuts the input into buffers. All lemmas follow from the contract \<open>zero_copy_input\<close>.
\<close>

section \<open>Abstraction\<close>

definition closest_limit :: "'s coded_input \<Rightarrow> int" where
  "closest_limit s = min (cis_current_limit s) (cis_total_bytes_limit s)"

definition buffered :: "'s coded_input \<Rightarrow> bytes" where
  \<comment> \<open>The bytes between \<open>buffer_\<close> and \<open>buffer_end_\<close>.\<close>
  "buffered s = take (nat (BufferSize s)) (drop (nat (cis_buffer s)) (cis_chunk s))"

definition pending :: "'s coded_input \<Rightarrow> bytes" where
  \<comment> \<open>The bytes of the buffer, the ones beyond the limit included.\<close>
  "pending s = take (nat (BufferSize s + cis_buffer_size_after_limit s))
                 (drop (nat (cis_buffer s)) (cis_chunk s))"

definition beyond :: "('s \<Rightarrow> bytes) \<Rightarrow> ('s \<Rightarrow> bytes) \<Rightarrow> 's coded_input \<Rightarrow> bytes" where
  "beyond rest last_chunk s =
     (case cis_input s of None \<Rightarrow> []
      | Some i \<Rightarrow> suffix_of (nat (cis_overflow_bytes s)) (last_chunk i) @ rest i)"

definition unread :: "('s \<Rightarrow> bytes) \<Rightarrow> ('s \<Rightarrow> bytes) \<Rightarrow> 's coded_input \<Rightarrow> bytes" where
  "unread rest last_chunk s = pending s @ beyond rest last_chunk s"

definition view :: "('s \<Rightarrow> bytes) \<Rightarrow> ('s \<Rightarrow> bytes) \<Rightarrow> 's coded_input \<Rightarrow> bytes" where
  "view rest last_chunk s = take (nat (closest_limit s - CurrentPosition s)) (unread rest last_chunk s)"

definition input_inv :: "('s \<Rightarrow> bool) \<Rightarrow> ('s \<Rightarrow> bytes) \<Rightarrow> 's coded_input \<Rightarrow> bool" where
  "input_inv valid last_chunk s \<longleftrightarrow>
     (case cis_input s of
        None \<Rightarrow> cis_overflow_bytes s = 0 \<and> cis_current_limit s \<le> cis_total_bytes_read s
      | Some i \<Rightarrow> valid i \<and>
          suffix_of (length (pending s) + nat (cis_overflow_bytes s)) (last_chunk i) =
            pending s @ suffix_of (nat (cis_overflow_bytes s)) (last_chunk i) \<and>
          length (pending s) + nat (cis_overflow_bytes s) \<le> length (last_chunk i))"

definition coded_inv :: "('s \<Rightarrow> bool) \<Rightarrow> ('s \<Rightarrow> bytes) \<Rightarrow> 's coded_input \<Rightarrow> bool" where
  "coded_inv valid last_chunk s \<longleftrightarrow>
     0 \<le> cis_buffer s \<and> cis_buffer s \<le> cis_buffer_end s \<and>
     cis_buffer_end s + cis_buffer_size_after_limit s \<le> int (length (cis_chunk s)) \<and>
     cis_buffer_size_after_limit s = max 0 (cis_total_bytes_read s - closest_limit s) \<and>
     0 \<le> CurrentPosition s \<and> cis_total_bytes_read s \<le> INT_MAX \<and> cis_current_limit s \<le> INT_MAX \<and>
     0 \<le> cis_overflow_bytes s \<and> (0 < cis_overflow_bytes s \<longrightarrow> cis_total_bytes_read s = INT_MAX) \<and>
     input_inv valid last_chunk s"

section \<open>Facts about the state alone\<close>

lemma coded_invD:
  assumes "coded_inv valid last_chunk s"
  shows "0 \<le> cis_buffer s" "cis_buffer s \<le> cis_buffer_end s" "0 \<le> BufferSize s"
    "0 \<le> cis_buffer_size_after_limit s"
    "cis_buffer_end s + cis_buffer_size_after_limit s \<le> int (length (cis_chunk s))"
    "cis_buffer_size_after_limit s = max 0 (cis_total_bytes_read s - closest_limit s)"
    "0 \<le> CurrentPosition s" "CurrentPosition s \<le> closest_limit s" "closest_limit s \<le> INT_MAX"
    "cis_total_bytes_read s \<le> INT_MAX" "0 \<le> cis_overflow_bytes s"
    "0 < cis_overflow_bytes s \<longrightarrow> cis_total_bytes_read s = INT_MAX"
    "cis_current_limit s \<le> INT_MAX"
  using assms by (auto simp: coded_inv_def BufferSize_def CurrentPosition_def closest_limit_def)

lemma length_buffered:
  "coded_inv valid last_chunk s \<Longrightarrow> length (buffered s) = nat (BufferSize s)"
  using coded_invD [of valid last_chunk s] by (auto simp: buffered_def BufferSize_def)

lemma length_pending:
  "coded_inv valid last_chunk s \<Longrightarrow>
   length (pending s) = nat (BufferSize s) + nat (cis_buffer_size_after_limit s)"
  using coded_invD [of valid last_chunk s] by (auto simp: pending_def BufferSize_def)

lemma pending_buffered:
  "coded_inv valid last_chunk s \<Longrightarrow> \<exists>tl. pending s = buffered s @ tl"
  using coded_invD [of valid last_chunk s]
  by (auto simp: pending_def buffered_def BufferSize_def nat_add_distrib take_add)

lemma view_buffered:
  assumes "coded_inv valid last_chunk s"
  shows "\<exists>tl. view rest last_chunk s = buffered s @ tl \<and> (0 < cis_buffer_size_after_limit s \<longrightarrow> tl = [])"
proof -
  note i = coded_invD [OF assms]
  obtain tl where tl: "pending s = buffered s @ tl"
    using pending_buffered [OF assms] by blast
  have gap: "closest_limit s - CurrentPosition s =
      BufferSize s + (closest_limit s - cis_total_bytes_read s) + cis_buffer_size_after_limit s"
    by (simp add: CurrentPosition_def)
  then have "BufferSize s \<le> closest_limit s - CurrentPosition s"
    "0 < cis_buffer_size_after_limit s \<Longrightarrow> closest_limit s - CurrentPosition s = BufferSize s"
    using i by auto
  moreover have "view rest last_chunk s = take (nat (closest_limit s - CurrentPosition s)) (buffered s @ tl @ beyond rest last_chunk s)"
    by (simp add: view_def unread_def tl)
  ultimately show ?thesis
    using length_buffered [OF assms] i(3) by (auto simp: nat_diff_distrib)
qed

lemma length_view: "coded_inv valid last_chunk s \<Longrightarrow> int (length (view rest last_chunk s)) \<le> INT_MAX"
  using coded_invD [of valid last_chunk s] by (auto simp: view_def)

lemma drop_buffer_buffered:
  assumes "coded_inv valid last_chunk s"
  shows "\<exists>tl. drop (nat (cis_buffer s)) (cis_chunk s) = buffered s @ tl"
  by (metis append_take_drop_id buffered_def)

lemma mem_read_buffer:
  assumes "coded_inv valid last_chunk s" "0 \<le> n" "n \<le> BufferSize s"
  shows "mem_read (cis_chunk s) (cis_buffer s) n = Some (take (nat n) (view rest last_chunk s))"
proof -
  note i = coded_invD [OF assms(1)]
  obtain tl where "view rest last_chunk s = buffered s @ tl"
    using view_buffered [OF assms(1)] by blast
  moreover have "take (nat n) (buffered s) = take (nat n) (drop (nat (cis_buffer s)) (cis_chunk s))"
    using assms(3) by (simp add: buffered_def min_def nat_le_iff)
  moreover have "nat n \<le> length (buffered s)"
    using assms by (simp add: length_buffered)
  ultimately show ?thesis
    using i assms by (auto simp: mem_read_def BufferSize_def)
qed

lemma Advance_simps [simp]:
  "cis_chunk (Advance n s) = cis_chunk s" "cis_buffer_end (Advance n s) = cis_buffer_end s"
  "cis_buffer (Advance n s) = cis_buffer s + n"
  "cis_input (Advance n s) = cis_input s" "cis_total_bytes_read (Advance n s) = cis_total_bytes_read s"
  "cis_buffer_size_after_limit (Advance n s) = cis_buffer_size_after_limit s"
  "cis_current_limit (Advance n s) = cis_current_limit s"
  "cis_total_bytes_limit (Advance n s) = cis_total_bytes_limit s"
  "cis_overflow_bytes (Advance n s) = cis_overflow_bytes s"
  "closest_limit (Advance n s) = closest_limit s" "BufferSize (Advance n s) = BufferSize s - n"
  "CurrentPosition (Advance n s) = CurrentPosition s + n"
  "beyond rest last_chunk (Advance n s) = beyond rest last_chunk s"
  by (simp_all add: Advance_def closest_limit_def BufferSize_def CurrentPosition_def beyond_def
      split: option.split)

lemma suffix_of_shorter:
  assumes "suffix_of (a + b) c = p @ q" "length p = a" "k \<le> a" "a + b \<le> length c"
  shows "suffix_of (a - k + b) c = drop k p @ q"
proof -
  have "suffix_of (a - k + b) c = drop k (suffix_of (a + b) c)"
    using assms(3,4) by (simp add: suffix_of_def add.commute)
  also have "\<dots> = drop k p @ q"
    using assms(1-3) by simp
  finally show ?thesis .
qed

lemma pending_Advance:
  assumes "coded_inv valid last_chunk s" "0 \<le> n" "n \<le> BufferSize s"
  shows "pending (Advance n s) = drop (nat n) (pending s)"
proof -
  note i = coded_invD [OF assms(1)]
  have "nat (cis_buffer s + n) = nat (cis_buffer s) + nat n"
    using i(1) assms(2) by (simp add: nat_add_distrib)
  moreover have "nat (BufferSize s + cis_buffer_size_after_limit s) - nat n =
      nat (BufferSize s - n + cis_buffer_size_after_limit s)"
    using i assms by (simp add: nat_diff_distrib [symmetric] algebra_simps)
  ultimately show ?thesis
    by (simp add: pending_def drop_take add.commute)
qed

lemma coded_inv_Advance:
  assumes "coded_inv valid last_chunk s" "0 \<le> n" "n \<le> BufferSize s"
  shows "coded_inv valid last_chunk (Advance n s)"
proof -
  note i = coded_invD [OF assms(1)]
  have len: "length (pending (Advance n s)) = length (pending s) - nat n" "nat n \<le> length (pending s)"
    using length_pending [OF assms(1)] assms by (simp_all add: pending_Advance)
  have "input_inv valid last_chunk (Advance n s)"
  proof (cases "cis_input s")
    case None
    then show ?thesis using assms(1) by (simp add: coded_inv_def input_inv_def)
  next
    case (Some j)
    then have j: "valid j" "suffix_of (length (pending s) + nat (cis_overflow_bytes s)) (last_chunk j) =
            pending s @ suffix_of (nat (cis_overflow_bytes s)) (last_chunk j)"
      "length (pending s) + nat (cis_overflow_bytes s) \<le> length (last_chunk j)"
      using assms(1) by (simp_all add: coded_inv_def input_inv_def)
    from suffix_of_shorter [OF j(2) refl len(2) j(3)] j show ?thesis
      unfolding input_inv_def Advance_simps Some option.case len(1) pending_Advance [OF assms] by simp
  qed
  then show ?thesis
    using i assms(2,3) by (simp add: coded_inv_def BufferSize_def)
qed

lemma unread_Advance:
  assumes "coded_inv valid last_chunk s" "0 \<le> n" "n \<le> BufferSize s"
  shows "unread rest last_chunk (Advance n s) = drop (nat n) (unread rest last_chunk s)"
  using length_pending [OF assms(1)] assms(2,3) coded_invD(4) [OF assms(1)]
  by (simp add: unread_def pending_Advance [OF assms])

lemma view_Advance:
  assumes "coded_inv valid last_chunk s" "0 \<le> n" "n \<le> BufferSize s"
  shows "view rest last_chunk (Advance n s) = drop (nat n) (view rest last_chunk s)"
  using coded_invD(7,8) [OF assms(1)] assms(2)
  by (simp add: view_def unread_Advance [OF assms] drop_take nat_diff_distrib' nat_add_distrib diff_diff_eq)

section \<open>Limits\<close>

lemma Recompute_simps [simp]:
  "cis_chunk (RecomputeBufferLimits s) = cis_chunk s" "cis_buffer (RecomputeBufferLimits s) = cis_buffer s"
  "cis_input (RecomputeBufferLimits s) = cis_input s"
  "cis_total_bytes_read (RecomputeBufferLimits s) = cis_total_bytes_read s"
  "cis_overflow_bytes (RecomputeBufferLimits s) = cis_overflow_bytes s"
  "cis_current_limit (RecomputeBufferLimits s) = cis_current_limit s"
  "cis_total_bytes_limit (RecomputeBufferLimits s) = cis_total_bytes_limit s"
  "cis_last_tag (RecomputeBufferLimits s) = cis_last_tag s"
  "cis_legitimate_message_end (RecomputeBufferLimits s) = cis_legitimate_message_end s"
  "cis_recursion_budget (RecomputeBufferLimits s) = cis_recursion_budget s"
  "cis_recursion_limit (RecomputeBufferLimits s) = cis_recursion_limit s"
  "closest_limit (RecomputeBufferLimits s) = closest_limit s"
  "cis_buffer_size_after_limit (RecomputeBufferLimits s) = max 0 (cis_total_bytes_read s - closest_limit s)"
  "cis_buffer_end (RecomputeBufferLimits s) = cis_buffer_end s + cis_buffer_size_after_limit s -
     max 0 (cis_total_bytes_read s - closest_limit s)"
  by (auto simp: RecomputeBufferLimits_def closest_limit_def Let_def)

lemma Recompute_derived [simp]:
  "BufferSize (RecomputeBufferLimits s) = BufferSize s + cis_buffer_size_after_limit s -
     max 0 (cis_total_bytes_read s - closest_limit s)"
  "CurrentPosition (RecomputeBufferLimits s) = CurrentPosition s"
  "pending (RecomputeBufferLimits s) = pending s"
  "beyond rest last_chunk (RecomputeBufferLimits s) = beyond rest last_chunk s"
  "unread rest last_chunk (RecomputeBufferLimits s) = unread rest last_chunk s"
  by (simp_all add: BufferSize_def CurrentPosition_def pending_def beyond_def unread_def algebra_simps
      cong: option.case_cong)

lemma input_inv_Recompute [simp]:
  "input_inv valid last_chunk (RecomputeBufferLimits s) = input_inv valid last_chunk s"
  by (simp add: input_inv_def cong: option.case_cong)

lemma coded_inv_Recompute:
  assumes "0 \<le> cis_buffer s" "0 \<le> BufferSize s + cis_buffer_size_after_limit s"
    "cis_buffer_end s + cis_buffer_size_after_limit s \<le> int (length (cis_chunk s))"
    "0 \<le> CurrentPosition s" "CurrentPosition s \<le> closest_limit s" "cis_current_limit s \<le> INT_MAX"
    "cis_total_bytes_read s \<le> INT_MAX" "0 \<le> cis_overflow_bytes s"
    "0 < cis_overflow_bytes s \<longrightarrow> cis_total_bytes_read s = INT_MAX" "input_inv valid last_chunk s"
  shows "coded_inv valid last_chunk (RecomputeBufferLimits s)"
  using assms unfolding coded_inv_def
  by (auto simp: BufferSize_def CurrentPosition_def)

lemma coded_inv_input_inv: "coded_inv valid last_chunk s \<Longrightarrow> input_inv valid last_chunk s"
  by (simp add: coded_inv_def)

lemma set_current_limit_simps [simp]:
  "BufferSize (s\<lparr>cis_current_limit := l\<rparr>) = BufferSize s"
  "CurrentPosition (s\<lparr>cis_current_limit := l\<rparr>) = CurrentPosition s"
  "pending (s\<lparr>cis_current_limit := l\<rparr>) = pending s"
  "beyond rest last_chunk (s\<lparr>cis_current_limit := l\<rparr>) = beyond rest last_chunk s"
  "unread rest last_chunk (s\<lparr>cis_current_limit := l\<rparr>) = unread rest last_chunk s"
  "closest_limit (s\<lparr>cis_current_limit := l\<rparr>) = min l (cis_total_bytes_limit s)"
  by (simp_all add: BufferSize_def CurrentPosition_def pending_def beyond_def unread_def closest_limit_def
      cong: option.case_cong)

text \<open>Changing a member that the abstraction does not look at changes nothing.\<close>

lemma irrelevant_simps [simp]:
  "coded_inv valid last_chunk (s\<lparr>cis_legitimate_message_end := b\<rparr>) = coded_inv valid last_chunk s"
  "view rest last_chunk (s\<lparr>cis_legitimate_message_end := b\<rparr>) = view rest last_chunk s"
  "unread rest last_chunk (s\<lparr>cis_legitimate_message_end := b\<rparr>) = unread rest last_chunk s"
  "coded_inv valid last_chunk (s\<lparr>cis_last_tag := t\<rparr>) = coded_inv valid last_chunk s"
  "view rest last_chunk (s\<lparr>cis_last_tag := t\<rparr>) = view rest last_chunk s"
  "unread rest last_chunk (s\<lparr>cis_last_tag := t\<rparr>) = unread rest last_chunk s"
  "coded_inv valid last_chunk (s\<lparr>cis_recursion_budget := n\<rparr>) = coded_inv valid last_chunk s"
  "view rest last_chunk (s\<lparr>cis_recursion_budget := n\<rparr>) = view rest last_chunk s"
  "unread rest last_chunk (s\<lparr>cis_recursion_budget := n\<rparr>) = unread rest last_chunk s"
  "closest_limit (s\<lparr>cis_legitimate_message_end := b\<rparr>) = closest_limit s"
  "BufferSize (s\<lparr>cis_last_tag := t\<rparr>) = BufferSize s"
  "CurrentPosition (s\<lparr>cis_last_tag := t\<rparr>) = CurrentPosition s"
  "CurrentPosition (s\<lparr>cis_legitimate_message_end := b\<rparr>) = CurrentPosition s"
  "CurrentPosition (s\<lparr>cis_recursion_budget := n\<rparr>) = CurrentPosition s"
  by (simp_all add: coded_inv_def input_inv_def view_def unread_def pending_def beyond_def
      closest_limit_def BufferSize_def CurrentPosition_def cong: option.case_cong)

lemma coded_inv_set_limit:
  assumes "coded_inv valid last_chunk s" "CurrentPosition s \<le> l" "l \<le> INT_MAX"
    "IsFlat s \<longrightarrow> l \<le> cis_total_bytes_read s"
  shows "coded_inv valid last_chunk (RecomputeBufferLimits (s\<lparr>cis_current_limit := l\<rparr>))"
proof -
  note i = coded_invD [OF assms(1)]
  have "input_inv valid last_chunk (s\<lparr>cis_current_limit := l\<rparr>)"
    using coded_inv_input_inv [OF assms(1)] assms(4)
    by (simp add: input_inv_def IsFlat_def split: option.splits)
  moreover have "CurrentPosition s \<le> cis_total_bytes_limit s"
    using i(8) by (simp add: closest_limit_def)
  ultimately show ?thesis
    using i assms(2,3) by (intro coded_inv_Recompute) (auto simp: BufferSize_def min_def)
qed

lemma PushLimit_ok:
  assumes "coded_inv valid last_chunk s" "PushLimit n s = (old, s')"
  shows "coded_inv valid last_chunk s'" "old = cis_current_limit s"
    "unread rest last_chunk s' = unread rest last_chunk s"
    "CurrentPosition s' = CurrentPosition s"
    "view rest last_chunk s' =
       (if 0 \<le> n then take (nat n) (view rest last_chunk s) else view rest last_chunk s)"
proof -
  note i = coded_invD [OF assms(1)]
  define l where "l = (if n \<ge> 0 \<and> n \<le> INT_MAX - CurrentPosition s then CurrentPosition s + n else INT_MAX)"
  have s': "s' = RecomputeBufferLimits (s\<lparr>cis_current_limit := min l (cis_current_limit s)\<rparr>)"
    and old: "old = cis_current_limit s"
    using assms(2) by (auto simp: PushLimit_def l_def Let_def)
  have pos: "CurrentPosition s \<le> cis_current_limit s" "CurrentPosition s \<le> INT_MAX"
    using i(8,9) by (auto simp: closest_limit_def)
  have l: "CurrentPosition s \<le> l" "l \<le> INT_MAX"
    using pos by (auto simp: l_def)
  have flat: "IsFlat s \<longrightarrow> min l (cis_current_limit s) \<le> cis_total_bytes_read s"
    using coded_inv_input_inv [OF assms(1)] by (auto simp: input_inv_def IsFlat_def)
  show "coded_inv valid last_chunk s'"
    unfolding s' using assms(1) pos l flat by (intro coded_inv_set_limit) auto
  show "old = cis_current_limit s" "unread rest last_chunk s' = unread rest last_chunk s"
    "CurrentPosition s' = CurrentPosition s"
    by (simp_all add: s' old)
  have lim: "closest_limit s' = min l (closest_limit s)"
    by (simp add: s' closest_limit_def min.assoc)
  show "view rest last_chunk s' =
       (if 0 \<le> n then take (nat n) (view rest last_chunk s) else view rest last_chunk s)"
  proof (cases "0 \<le> n \<and> n \<le> INT_MAX - CurrentPosition s")
    case True
    then have "nat (closest_limit s' - CurrentPosition s) = min (nat n) (nat (closest_limit s - CurrentPosition s))"
      using lim i by (auto simp: l_def min_def)
    with True show ?thesis
      by (simp add: view_def s' min.commute)
  next
    case False
    then have "closest_limit s' = closest_limit s"
      using lim i by (auto simp: l_def)
    then have "view rest last_chunk s' = view rest last_chunk s"
      by (simp add: view_def s' min.commute)
    moreover have "length (view rest last_chunk s) \<le> nat n" if "0 \<le> n"
      using that False i by (auto simp: view_def)
    ultimately show ?thesis by simp
  qed
qed

lemma PopLimit_ok:
  assumes "coded_inv valid last_chunk s" "CurrentPosition s \<le> l" "l \<le> INT_MAX"
    "IsFlat s \<longrightarrow> l \<le> cis_total_bytes_read s"
  shows "coded_inv valid last_chunk (PopLimit l s)"
    "unread rest last_chunk (PopLimit l s) = unread rest last_chunk s"
    "CurrentPosition (PopLimit l s) = CurrentPosition s"
    "view rest last_chunk (PopLimit l s) =
       take (nat (min l (cis_total_bytes_limit s) - CurrentPosition s)) (unread rest last_chunk s)"
  using coded_inv_set_limit [OF assms] by (simp_all add: PopLimit_def view_def)

section \<open>Refresh\<close>

context zero_copy_input
begin

abbreviation "cinv' \<equiv> coded_inv inv last_chunk"
abbreviation "cview \<equiv> view rest last_chunk"
abbreviation "cunread \<equiv> unread rest last_chunk"

lemma Refresh_accept_ok:
  assumes s: "coded_inv inv last_chunk s" "BufferSize s = 0" "cis_buffer_size_after_limit s = 0"
    "cis_overflow_bytes s = 0" "cis_input s = Some i"
    and i': "inv i'" "\<exists>p. last_chunk i' = p @ c" "rest i = c @ rest i'" "c \<noteq> []"
    and limit: "cis_total_bytes_read s \<noteq> cis_current_limit s"
    and t: "t = Refresh_accept c (s\<lparr>cis_input := Some i'\<rparr>)"
  shows "cinv' t" "cunread t = cunread s" "cview t = cview s" "CurrentPosition t = CurrentPosition s"
    "cis_current_limit t = cis_current_limit s" "cis_total_bytes_limit t = cis_total_bytes_limit s"
    "0 < BufferSize t \<or> 0 < cis_buffer_size_after_limit t"
proof -
  note I = coded_invD [OF s(1)]
  define ov where "ov = max 0 (cis_total_bytes_read s + int (length c) - INT_MAX)"
  define u where "u = s\<lparr>cis_input := Some i', cis_chunk := c, cis_buffer := 0,
    cis_buffer_end := int (length c) - ov, cis_overflow_bytes := ov,
    cis_total_bytes_read := cis_total_bytes_read s + int (length c) - ov\<rparr>"
  have tu: "t = RecomputeBufferLimits u"
  proof (cases "cis_total_bytes_read s \<le> INT_MAX - int (length c)")
    case True
    then have "ov = 0" by (simp add: ov_def)
    with True s(4) show ?thesis
      by (simp add: t Refresh_accept_def u_def Let_def) (rule arg_cong [of _ _ RecomputeBufferLimits], cases s, simp)
  next
    case False
    then have "ov = cis_total_bytes_read s + int (length c) - INT_MAX" by (simp add: ov_def)
    with False show ?thesis
      by (simp add: t Refresh_accept_def u_def Let_def) (rule arg_cong [of _ _ RecomputeBufferLimits], cases s, simp)
  qed
  have ov: "0 \<le> ov" "ov \<le> int (length c)" "cis_total_bytes_read s + int (length c) - ov \<le> INT_MAX"
    "0 < ov \<longrightarrow> cis_total_bytes_read s + int (length c) - ov = INT_MAX"
    using I(10) by (auto simp: ov_def)
  have pos: "CurrentPosition s = cis_total_bytes_read s"
    using s by (simp add: CurrentPosition_def)
  have u: "BufferSize u = int (length c) - ov" "cis_buffer_size_after_limit u = 0"
    "CurrentPosition u = CurrentPosition s" "closest_limit u = closest_limit s"
    using s by (simp_all add: u_def BufferSize_def CurrentPosition_def closest_limit_def)
  have pend: "pending u = take (length c - nat ov) c"
    using ov u(2) by (simp add: pending_def u(1)) (simp add: u_def nat_diff_distrib)
  have suf: "c = take (length c - nat ov) c @ suffix_of (nat ov) c"
    by (simp add: suffix_of_def)
  have bey: "beyond rest last_chunk u = suffix_of (nat ov) c @ rest i'"
    using i'(2) ov(2) by (auto simp: beyond_def u_def)
  have "input_inv inv last_chunk u"
  proof -
    have "length (pending u) + nat ov = length c"
      using ov by (simp add: pend nat_le_iff)
    moreover have "cis_input u = Some i'" "cis_overflow_bytes u = ov"
      by (simp_all add: u_def)
    ultimately show ?thesis
      using i' suf by (auto simp: input_inv_def pend)
  qed
  then show "cinv' t"
    unfolding tu using I ov s(3)
    by (intro coded_inv_Recompute) (simp_all add: u, simp_all add: u_def pos)
  have "pending s = []"
    using s by (simp add: pending_def)
  moreover have "beyond rest last_chunk s = rest i"
    by (simp add: beyond_def s)
  moreover have "pending u @ beyond rest last_chunk u = rest i"
    using suf unfolding pend bey i'(3) by (metis append.assoc)
  ultimately show un: "cunread t = cunread s"
    by (simp add: tu unread_def)
  show "CurrentPosition t = CurrentPosition s" "cis_current_limit t = cis_current_limit s"
    "cis_total_bytes_limit t = cis_total_bytes_limit s"
    using u by (simp_all add: tu) (simp_all add: u_def)
  then show "cview t = cview s"
    using un by (simp add: view_def closest_limit_def)
  show "0 < BufferSize t \<or> 0 < cis_buffer_size_after_limit t"
  proof (rule ccontr)
    assume "\<not> ?thesis"
    then have "cis_total_bytes_read u - closest_limit u \<le> 0" "BufferSize t \<le> 0"
      by (simp_all add: tu max_def split: if_splits)
    then have "int (length c) \<le> ov"
      using u(1,2) by (simp add: tu)
    with ov(2,4) i'(4) have "cis_total_bytes_read s = INT_MAX" by auto
    moreover have "cis_total_bytes_read s \<le> cis_current_limit s"
      using I(6) s(3) by (auto simp: closest_limit_def)
    ultimately show False
      using limit I(13) by simp
  qed
qed


text \<open>Only the members named here change the abstraction.\<close>

lemma Refresh_warn_simps:
  "coded_inv inv last_chunk (Refresh_warn s) = coded_inv inv last_chunk s"
  "cview (Refresh_warn s) = cview s" "cunread (Refresh_warn s) = cunread s"
  "CurrentPosition (Refresh_warn s) = CurrentPosition s" "BufferSize (Refresh_warn s) = BufferSize s"
  "cis_buffer_size_after_limit (Refresh_warn s) = cis_buffer_size_after_limit s"
  "cis_overflow_bytes (Refresh_warn s) = cis_overflow_bytes s"
  "cis_input (Refresh_warn s) = cis_input s" "cis_current_limit (Refresh_warn s) = cis_current_limit s"
  "cis_total_bytes_limit (Refresh_warn s) = cis_total_bytes_limit s"
  "cis_total_bytes_read (Refresh_warn s) = cis_total_bytes_read s"
  "cis_legitimate_message_end (Refresh_warn s) = cis_legitimate_message_end s"
  "cis_last_tag (Refresh_warn s) = cis_last_tag s"
  "cis_recursion_budget (Refresh_warn s) = cis_recursion_budget s"
  "cis_recursion_limit (Refresh_warn s) = cis_recursion_limit s"
  by (simp_all add: Refresh_warn_def cis_log_add_def coded_inv_def input_inv_def view_def unread_def
      pending_def beyond_def closest_limit_def BufferSize_def CurrentPosition_def cong: option.case_cong)

lemma print_error_simps:
  "coded_inv inv last_chunk (PrintTotalBytesLimitError s) = coded_inv inv last_chunk s"
  "cview (PrintTotalBytesLimitError s) = cview s" "cunread (PrintTotalBytesLimitError s) = cunread s"
  "CurrentPosition (PrintTotalBytesLimitError s) = CurrentPosition s"
  by (simp_all add: PrintTotalBytesLimitError_def cis_log_add_def coded_inv_def input_inv_def view_def
      unread_def pending_def beyond_def closest_limit_def BufferSize_def CurrentPosition_def cong: option.case_cong)

lemma view_at_limit:
  assumes "cinv' s" "BufferSize s = 0"
    "cis_buffer_size_after_limit s > 0 \<or> cis_overflow_bytes s > 0 \<or> cis_total_bytes_read s = cis_current_limit s"
  shows "cview s = []"
proof -
  note I = coded_invD [OF assms(1)]
  have "closest_limit s \<le> cis_total_bytes_read s"
    using I(6,9,12) assms(3) by (auto simp: closest_limit_def)
  then have "closest_limit s \<le> CurrentPosition s"
    using I(6) assms(2) by (simp add: CurrentPosition_def)
  then show ?thesis by (simp add: view_def)
qed

lemma Refresh_ok:
  assumes "cinv' s" "BufferSize s = 0"
  shows "\<exists>b t. Refresh ops s = Some (b, t) \<and> cinv' t \<and> cview t = cview s \<and> cunread t = cunread s \<and>
    CurrentPosition t = CurrentPosition s \<and> cis_current_limit t = cis_current_limit s \<and>
    cis_total_bytes_limit t = cis_total_bytes_limit s \<and>
    cis_legitimate_message_end t = cis_legitimate_message_end s \<and> cis_last_tag t = cis_last_tag s \<and>
    cis_recursion_budget t = cis_recursion_budget s \<and> cis_recursion_limit t = cis_recursion_limit s \<and>
    (cis_input t = None \<longleftrightarrow> cis_input s = None) \<and>
    (if b then 0 < BufferSize t \<or> 0 < cis_buffer_size_after_limit t else cview s = [] \<and> BufferSize t = 0) \<and>
    (0 < cis_buffer_size_after_limit s \<longrightarrow> \<not> b)"
proof (cases "cis_buffer_size_after_limit s > 0 \<or> cis_overflow_bytes s > 0 \<or> cis_total_bytes_read s = cis_current_limit s")
  case True
  have t: "cinv' t \<and> cview t = cview s \<and> cunread t = cunread s \<and> BufferSize t = 0 \<and>
      CurrentPosition t = CurrentPosition s \<and> cis_current_limit t = cis_current_limit s \<and>
      cis_total_bytes_limit t = cis_total_bytes_limit s \<and>
      cis_legitimate_message_end t = cis_legitimate_message_end s \<and> cis_last_tag t = cis_last_tag s \<and>
    cis_recursion_budget t = cis_recursion_budget s \<and> cis_recursion_limit t = cis_recursion_limit s \<and>
    (cis_input t = None \<longleftrightarrow> cis_input s = None)"
    if "t = s \<or> t = PrintTotalBytesLimitError s" for t
    using that assms
    by (auto simp: print_error_simps) (simp_all add: PrintTotalBytesLimitError_def cis_log_add_def BufferSize_def)
  show ?thesis
    using True view_at_limit [OF assms True] t [of s] t [of "PrintTotalBytesLimitError s"]
    by (auto simp: Refresh_def Let_def)
next
  case False
  note I = coded_invD [OF assms(1)]
  have z: "cis_buffer_size_after_limit s = 0" "cis_overflow_bytes s = 0"
    "cis_total_bytes_read s \<noteq> cis_current_limit s"
    using False I by auto
  obtain i where i: "cis_input s = Some i" "inv i"
    using coded_inv_input_inv [OF assms(1)] z I(6)
    by (cases "cis_input s") (auto simp: input_inv_def closest_limit_def)
  obtain r i' where step: "NextNonEmpty ops i = Some (r, i')" "inv i'"
    and law: "case r of None \<Rightarrow> rest i = [] \<and> rest i' = []
      | Some c \<Rightarrow> c \<noteq> [] \<and> rest i = c @ rest i' \<and> (\<exists>p. last_chunk i' = p @ c)"
    using NextNonEmpty_ok [OF i(2)] by blast
  let ?w = "Refresh_warn s"
  have w: "cinv' ?w" "BufferSize ?w = 0" "cis_buffer_size_after_limit ?w = 0" "cis_overflow_bytes ?w = 0"
    "cis_input ?w = Some i" "cis_total_bytes_read ?w \<noteq> cis_current_limit ?w"
    using assms z i by (simp_all add: Refresh_warn_simps)
  show ?thesis
  proof (cases r)
    case (Some c)
    let ?t = "Refresh_accept c (?w\<lparr>cis_input := Some i'\<rparr>)"
    note acc = Refresh_accept_ok [OF w(1-5) step(2) _ _ _ w(6) refl, of c]
    have frame: "cis_legitimate_message_end ?t = cis_legitimate_message_end s"
      "cis_last_tag ?t = cis_last_tag s" "cis_recursion_budget ?t = cis_recursion_budget s"
      "cis_recursion_limit ?t = cis_recursion_limit s" "cis_input ?t = None \<longleftrightarrow> cis_input s = None"
      using i by (simp_all add: Refresh_accept_def Let_def Refresh_warn_simps)
    have "Refresh ops s = Some (True, ?t)"
      using False i step by (simp add: Refresh_def Some Refresh_warn_simps)
    with acc law frame z(1) show ?thesis
      by (auto simp: Some Refresh_warn_simps)
  next
    case None
    let ?t = "cis_null_buffer (?w\<lparr>cis_input := Some i'\<rparr>)"
    have step': "Refresh ops s = Some (False, ?t)"
      using False i step by (simp add: Refresh_def None Refresh_warn_simps)
    have e: "cunread s = []"
      using law i z assms(2) by (simp add: None unread_def pending_def beyond_def)
    have "BufferSize ?t = 0" "pending ?t = []" "beyond rest last_chunk ?t = []"
      using law z by (simp_all add: None cis_null_buffer_def BufferSize_def pending_def beyond_def Refresh_warn_simps)
    then have "cunread ?t = []" "CurrentPosition ?t = CurrentPosition s"
      using assms(2) z by (simp_all add: unread_def CurrentPosition_def cis_null_buffer_def Refresh_warn_simps)
    moreover have "cinv' ?t"
    proof -
      have "input_inv inv last_chunk ?t"
        using step(2) z \<open>pending ?t = []\<close> by (simp add: input_inv_def) (simp add: cis_null_buffer_def Refresh_warn_simps)
      then show ?thesis
        using I z(1,2) \<open>CurrentPosition ?t = CurrentPosition s\<close>
        by (simp add: coded_inv_def) (simp add: cis_null_buffer_def Refresh_warn_simps closest_limit_def)
    qed
    ultimately show ?thesis
      using e step' \<open>BufferSize ?t = 0\<close> z(1) i(1)
      by (intro exI [of _ False] exI [of _ ?t])
        (simp add: view_def, simp add: cis_null_buffer_def Refresh_warn_simps)
  qed
qed

end

section \<open>Moving forward in the stream\<close>

definition coded_step ::
    "('s \<Rightarrow> bytes) \<Rightarrow> ('s \<Rightarrow> bytes) \<Rightarrow> nat \<Rightarrow> 's coded_input \<Rightarrow> 's coded_input \<Rightarrow> bool" where
  \<comment> \<open>From \<open>s\<close> to \<open>t\<close> the stream consumed \<open>n\<close> bytes and kept its kind, its limits and its
    recursion budget.\<close>
  "coded_step rest last_chunk n s t \<longleftrightarrow>
     CurrentPosition t = CurrentPosition s + int n \<and>
     unread rest last_chunk t = drop n (unread rest last_chunk s) \<and>
     cis_current_limit t = cis_current_limit s \<and> cis_total_bytes_limit t = cis_total_bytes_limit s \<and>
     cis_recursion_budget t = cis_recursion_budget s \<and> cis_recursion_limit t = cis_recursion_limit s \<and>
     (cis_input t = None \<longleftrightarrow> cis_input s = None)"

lemma coded_step_view:
  assumes "coded_step rest last_chunk n s t" "coded_inv valid last_chunk s"
  shows "view rest last_chunk t = drop n (view rest last_chunk s)"
  using assms coded_invD(7,8) [OF assms(2)]
  by (simp add: coded_step_def view_def closest_limit_def drop_take nat_diff_distrib' nat_add_distrib diff_diff_eq)

lemma coded_step_refl [simp]: "coded_step rest last_chunk 0 s s"
  by (simp add: coded_step_def)

lemma coded_step_trans:
  "coded_step rest last_chunk n s t \<Longrightarrow> coded_step rest last_chunk m t u \<Longrightarrow>
   coded_step rest last_chunk (n + m) s u"
  by (simp add: coded_step_def add.commute)

lemma coded_step_Advance:
  "coded_inv valid last_chunk s \<Longrightarrow> 0 \<le> n \<Longrightarrow> n \<le> BufferSize s \<Longrightarrow>
   coded_step rest last_chunk (nat n) s (Advance n s)"
  by (simp add: coded_step_def unread_Advance) (simp add: Advance_def)

lemma coded_step_irrelevant [simp]:
  "coded_step rest last_chunk n s (t\<lparr>cis_legitimate_message_end := b\<rparr>) = coded_step rest last_chunk n s t"
  "coded_step rest last_chunk n s (t\<lparr>cis_last_tag := v\<rparr>) = coded_step rest last_chunk n s t"
  "coded_step rest last_chunk n (s\<lparr>cis_last_tag := v\<rparr>) t = coded_step rest last_chunk n s t"
  by (simp_all add: coded_step_def)

lemma view_next_byte:
  assumes "coded_inv valid last_chunk s" "cis_buffer s < cis_buffer_end s"
  shows "\<exists>b bs. view rest last_chunk s = b # bs \<and> byte_at (cis_chunk s) (cis_buffer s) = Some b"
proof -
  note I = coded_invD [OF assms(1)]
  obtain tl where v: "view rest last_chunk s = buffered s @ tl"
    using view_buffered [OF assms(1)] by blast
  have l: "nat (cis_buffer s) < length (cis_chunk s)" "0 < nat (BufferSize s)"
    using I assms(2) by (auto simp: BufferSize_def)
  then have "buffered s \<noteq> []" "hd (buffered s) = cis_chunk s ! nat (cis_buffer s)"
    by (auto simp: buffered_def hd_drop_conv_nth)
  with v l I(1) show ?thesis
    by (cases "buffered s") (auto simp: byte_at_def)
qed

text \<open>A loop that consumes the buffer and refreshes ends: after a refresh without a byte before
  the limit, the next one fails.\<close>

definition stalled :: "'x coded_input \<Rightarrow> nat" where
  "stalled s = (if 0 < BufferSize s \<or> 0 < cis_buffer_size_after_limit s then 0 else 1)"

context zero_copy_input
begin

lemma cread:
  "cinv' s \<Longrightarrow> 0 \<le> n \<Longrightarrow> n \<le> BufferSize s \<Longrightarrow>
   mem_read (cis_chunk s) (cis_buffer s) n = Some (take (nat n) (cview s))"
  by (rule mem_read_buffer)

abbreviation "cstep \<equiv> coded_step rest last_chunk"

lemma Refresh_step:
  assumes "cinv' s" "BufferSize s = 0"
  obtains b t where "Refresh ops s = Some (b, t)" "cinv' t" "cstep 0 s t" "cview t = cview s"
    "cis_legitimate_message_end t = cis_legitimate_message_end s" "cis_last_tag t = cis_last_tag s"
    "b \<longrightarrow> 0 < BufferSize t \<or> 0 < cis_buffer_size_after_limit t" "\<not> b \<longrightarrow> cview s = [] \<and> BufferSize t = 0"
    "0 < cis_buffer_size_after_limit s \<longrightarrow> \<not> b"
  using Refresh_ok [OF assms] unfolding coded_step_def by (auto split: if_splits)

lemma InternalReadRawInline_ok:
  assumes "cinv' s" "0 \<le> n"
  shows "\<exists>t. InternalReadRawInline ops n s =
      Some (nat n \<le> length (cview s), take (nat n) (cview s), t) \<and> cinv' t \<and>
      cstep (min (nat n) (length (cview s))) s t"
  using assms
proof (induction "2 * nat n + stalled s" arbitrary: n s rule: less_induct)
  case less
  note I = coded_invD [OF less.prems(1)]
  let ?b = "BufferSize s"
  obtain tl where v: "cview s = buffered s @ tl"
    using view_buffered [OF less.prems(1)] by blast
  have lb: "length (buffered s) = nat ?b"
    using length_buffered [OF less.prems(1)] .
  show ?case
  proof (cases "?b < n")
    case False
    then have "mem_read (cis_chunk s) (cis_buffer s) n = Some (take (nat n) (cview s))"
      "cinv' (Advance n s)" "cstep (nat n) s (Advance n s)"
      using less.prems cread coded_inv_Advance coded_step_Advance by (auto simp: not_less)
    moreover have "nat n \<le> length (cview s)"
      using False lb v by simp
    ultimately show ?thesis
      using False by (subst InternalReadRawInline.simps) (simp add: min_absorb1)
  next
    case True
    let ?s = "Advance ?b s"
    have c: "mem_read (cis_chunk s) (cis_buffer s) ?b = Some (take (nat ?b) (cview s))"
      using cread [OF less.prems(1) I(3)] by simp
    have adv: "cinv' ?s" "cstep (nat ?b) s ?s"
      using coded_inv_Advance [OF less.prems(1) I(3)] coded_step_Advance [OF less.prems(1) I(3)] by auto
    have z: "BufferSize ?s = 0" by simp
    obtain ok t where t: "Refresh ops ?s = Some (ok, t)" "cinv' t" "cstep 0 ?s t" "cview t = cview ?s"
      "cis_legitimate_message_end t = cis_legitimate_message_end ?s" "cis_last_tag t = cis_last_tag ?s"
      and prog: "ok \<longrightarrow> 0 < BufferSize t \<or> 0 < cis_buffer_size_after_limit t"
      and eof: "\<not> ok \<longrightarrow> cview ?s = [] \<and> BufferSize t = 0"
      and stop: "0 < cis_buffer_size_after_limit ?s \<longrightarrow> \<not> ok"
      by (rule Refresh_step [OF adv(1) z])
    have vt: "cview t = drop (nat ?b) (cview s)"
      using t(4) coded_step_view [OF adv(2) less.prems(1)] by simp
    have st: "cstep (nat ?b) s t"
      using coded_step_trans [OF adv(2) t(3)] by simp
    show ?thesis
    proof (cases ok)
      case False
      then have "length (cview s) \<le> nat ?b"
        using eof vt t(4) by simp
      moreover have "nat ?b \<le> length (cview s)"
        using lb v by simp
      ultimately have "length (cview s) = nat ?b" by simp
      with False True c t st I(3) show ?thesis
        by (subst InternalReadRawInline.simps) (simp add: Let_def min_def)
    next
      case ok: True
      have "2 * nat (n - ?b) + stalled t < 2 * nat n + stalled s"
        using ok prog stop True I(3) by (auto simp: stalled_def)
      then obtain u where u: "InternalReadRawInline ops (n - ?b) t =
          Some (nat (n - ?b) \<le> length (cview t), take (nat (n - ?b)) (cview t), u)" "cinv' u"
        "cstep (min (nat (n - ?b)) (length (cview t))) t u"
        using less.hyps [of "n - ?b" t] t(2) True by auto
      have split: "nat n = nat ?b + nat (n - ?b)" "nat ?b \<le> length (cview s)"
        using True I(3) lb v by simp_all
      have "InternalReadRawInline ops n s =
          Some (nat (n - ?b) \<le> length (cview t), take (nat ?b) (cview s) @ take (nat (n - ?b)) (cview t), u)"
        using True c t(1) u(1) ok by (subst InternalReadRawInline.simps) (simp add: Let_def)
      moreover have "take (nat ?b) (cview s) @ take (nat (n - ?b)) (cview t) = take (nat n) (cview s)"
        unfolding split(1) vt by (simp add: take_add)
      moreover have "nat (n - ?b) \<le> length (cview t) \<longleftrightarrow> nat n \<le> length (cview s)"
        "nat ?b + min (nat (n - ?b)) (length (cview t)) = min (nat n) (length (cview s))"
        using split unfolding vt by (auto simp: min_def)
      moreover have "cstep (nat ?b + min (nat (n - ?b)) (length (cview t))) s u"
        using coded_step_trans [OF st u(3)] .
      ultimately show ?thesis
        using u(2) by auto
    qed
  qed
qed

lemmas ReadRaw_ok = InternalReadRawInline_ok [folded ReadRaw_def]

lemma ReadStringFallback_loop_eq:
  "cinv' s \<Longrightarrow> 0 \<le> n \<Longrightarrow> ReadStringFallback_loop ops n acc s =
     map_option (\<lambda>(ok, bs, t). (ok, acc @ bs, t)) (InternalReadRawInline ops n s)"
proof (induction "2 * nat n + stalled s" arbitrary: n s acc rule: less_induct)
  case less
  note I = coded_invD [OF less.prems(1)]
  let ?b = "BufferSize s"
  show ?case
  proof (cases "?b < n")
    case False
    then show ?thesis
      by (subst ReadStringFallback_loop.simps, subst InternalReadRawInline.simps)
        (simp add: Let_def split: option.splits bind_splits)
  next
    case True
    let ?s = "Advance ?b s"
    obtain c where c: "mem_read (cis_chunk s) (cis_buffer s) ?b = Some c" "?b = 0 \<longrightarrow> c = []"
      using cread [OF less.prems(1) I(3)] by simp
    have adv: "cinv' ?s"
      using coded_inv_Advance [OF less.prems(1) I(3)] by simp
    have z: "BufferSize ?s = 0" by simp
    obtain ok t where t: "Refresh ops ?s = Some (ok, t)" "cinv' t" "cstep 0 ?s t" "cview t = cview ?s"
      "cis_legitimate_message_end t = cis_legitimate_message_end ?s" "cis_last_tag t = cis_last_tag ?s"
      and prog: "ok \<longrightarrow> 0 < BufferSize t \<or> 0 < cis_buffer_size_after_limit t"
      and eof: "\<not> ok \<longrightarrow> cview ?s = [] \<and> BufferSize t = 0"
      and stop: "0 < cis_buffer_size_after_limit ?s \<longrightarrow> \<not> ok"
      by (rule Refresh_step [OF adv z])
    show ?thesis
    proof (cases ok)
      case False
      with True c t(1) show ?thesis
        by (subst ReadStringFallback_loop.simps, subst InternalReadRawInline.simps) (simp add: Let_def)
    next
      case ok: True
      have "2 * nat (n - ?b) + stalled t < 2 * nat n + stalled s"
        using ok prog stop True I(3) by (auto simp: stalled_def)
      from less.hyps [OF this t(2)] True have rec: "ReadStringFallback_loop ops (n - ?b) (acc @ c) t =
        map_option (\<lambda>(ok, bs, t). (ok, (acc @ c) @ bs, t)) (InternalReadRawInline ops (n - ?b) t)"
        by simp
      have "ReadStringFallback_loop ops n acc s = ReadStringFallback_loop ops (n - ?b) (acc @ c) t"
        using True c t(1) ok by (subst ReadStringFallback_loop.simps) (auto simp: Let_def)
      moreover have "InternalReadRawInline ops n s = do {
          (ok, cs, s) \<leftarrow> InternalReadRawInline ops (n - ?b) t;
          Some (ok, c @ cs, s)
        }"
        using True c t(1) ok by (subst InternalReadRawInline.simps) (simp add: Let_def)
      ultimately show ?thesis
        using rec by (cases "InternalReadRawInline ops (n - ?b) t") auto
    qed
  qed
qed

lemma ReadString_ok:
  assumes "cinv' s" "0 \<le> n"
  shows "\<exists>t. ReadString ops n str s =
      Some (nat n \<le> length (cview s), take (nat n) (cview s), t) \<and> cinv' t \<and>
      cstep (min (nat n) (length (cview s))) s t"
proof (cases "BufferSize s \<ge> n")
  case True
  obtain tl where v: "cview s = buffered s @ tl"
    using view_buffered [OF assms(1)] by blast
  have le: "nat n \<le> length (cview s)"
    using True length_buffered [OF assms(1)] v by simp
  have "ReadString ops n str s = Some (True, take (nat n) (cview s), Advance n s)"
    using True assms cread by (simp add: ReadString_def InternalReadStringInline_def)
  with le show ?thesis
    using coded_inv_Advance [OF assms True] coded_step_Advance [OF assms True] by (simp add: min_absorb1)
next
  case False
  have "ReadString ops n str s = ReadStringFallback_loop ops n [] s"
    using False assms(2) by (simp add: ReadString_def InternalReadStringInline_def ReadStringFallback_def)
  then show ?thesis
    using InternalReadRawInline_ok [OF assms] by (auto simp: ReadStringFallback_loop_eq [OF assms])
qed

lemma ReadString_negative: "n < 0 \<Longrightarrow> ReadString ops n str s = Some (False, str, s)"
  by (simp add: ReadString_def)

end

end
