(* ===== verification/Coded_Input_Read.thy ===== *)
theory Coded_Input_Read
  imports Coded_Input_Spec
begin

text \<open>
  \<open>Skip\<close>, the integer reads and the tag reads of \<open>CodedInputStream\<close>, specified on the view: their
  fast paths (directly on the buffer) and their slow paths (byte by byte, over refreshes) agree with
  the reference codec of \<open>Varint\<close>.
\<close>

unbundle bit_operations_syntax

section \<open>Skip\<close>

lemma split_at_buffer:
  assumes "coded_inv valid last_chunk s" "cis_buffer_size_after_limit s = 0"
  shows "unread rest last_chunk s = buffered s @ beyond rest last_chunk s"
    "view rest last_chunk s = buffered s @
       take (nat (closest_limit s - cis_total_bytes_read s)) (beyond rest last_chunk s)"
proof -
  note I = coded_invD [OF assms(1)]
  show un: "unread rest last_chunk s = buffered s @ beyond rest last_chunk s"
    using assms(2) by (simp add: unread_def pending_def buffered_def)
  have "closest_limit s - CurrentPosition s = BufferSize s + (closest_limit s - cis_total_bytes_read s)"
    using assms(2) by (simp add: CurrentPosition_def)
  moreover have "0 \<le> closest_limit s - cis_total_bytes_read s"
    using I(6) assms(2) by simp
  ultimately have "nat (closest_limit s - CurrentPosition s) =
      length (buffered s) + nat (closest_limit s - cis_total_bytes_read s)"
    using length_buffered [OF assms(1)] I(3) by (simp add: nat_add_distrib)
  then show "view rest last_chunk s = buffered s @
       take (nat (closest_limit s - cis_total_bytes_read s)) (beyond rest last_chunk s)"
    by (simp add: view_def un)
qed

lemma skipped_state:
  assumes "coded_inv valid last_chunk s" "cis_buffer_size_after_limit s = 0" "cis_overflow_bytes s = 0"
    and k: "0 \<le> k" "cis_total_bytes_read s + k \<le> closest_limit s"
    and i: "cis_input s = Some i" "valid i'" "rest i' = drop (nat k) (rest i)"
    and t: "t = (cis_null_buffer s)\<lparr>cis_total_bytes_read := cis_total_bytes_read s + k, cis_input := Some i'\<rparr>"
  shows "coded_inv valid last_chunk t" "coded_step rest last_chunk (nat (BufferSize s + k)) s t"
proof -
  note I = coded_invD [OF assms(1)]
  have f: "BufferSize t = 0" "cis_buffer_size_after_limit t = 0" "pending t = []"
    "cis_overflow_bytes t = 0" "closest_limit t = closest_limit s" "cis_input t = Some i'"
    "beyond rest last_chunk t = rest i'" "cis_total_bytes_read t = cis_total_bytes_read s + k"
    using assms(2,3) by (simp_all add: t cis_null_buffer_def BufferSize_def pending_def closest_limit_def beyond_def)
  have pos: "CurrentPosition t = CurrentPosition s + (BufferSize s + k)"
    using assms(2) f by (simp add: CurrentPosition_def)
  have "input_inv valid last_chunk t"
    using i(2) by (simp add: input_inv_def f)
  moreover have "0 \<le> CurrentPosition t"
    using I(3,7) k pos by simp
  ultimately show "coded_inv valid last_chunk t"
    using I(9,13) k assms(3)
    by (simp add: coded_inv_def f) (simp add: t cis_null_buffer_def)
  have "unread rest last_chunk t = drop (nat (BufferSize s + k)) (unread rest last_chunk s)"
    using split_at_buffer(1) [OF assms(1,2), of rest] i(1,3) assms(3) length_buffered [OF assms(1)] k(1) I(3)
    by (simp add: unread_def f beyond_def nat_add_distrib add.commute)
  then show "coded_step rest last_chunk (nat (BufferSize s + k)) s t"
    using pos I(3) k(1) i(1) by (simp add: coded_step_def) (simp add: t cis_null_buffer_def)
qed

context zero_copy_input
begin

lemma Skip_ok:
  assumes "cinv' s" "0 \<le> n"
  shows "\<exists>t m. Skip ops n s = Some (nat n \<le> length (cview s), t) \<and> cinv' t \<and> cstep m s t \<and>
    (if nat n \<le> length (cview s) then m = nat n else length (cview s) \<le> m)"
proof -
  note I = coded_invD [OF assms(1)]
  let ?b = "BufferSize s"
  have lb: "length (buffered s) = nat ?b"
    using length_buffered [OF assms(1)] .
  obtain tl where v: "cview s = buffered s @ tl" "0 < cis_buffer_size_after_limit s \<longrightarrow> tl = []"
    using view_buffered [OF assms(1)] by blast
  consider (inside) "n \<le> ?b" | (limit) "\<not> n \<le> ?b" "0 < cis_buffer_size_after_limit s"
    | (past) "\<not> n \<le> ?b" "cis_buffer_size_after_limit s = 0"
    using I(4) by linarith
  then show ?thesis
  proof cases
    case inside
    then show ?thesis
      using assms lb v coded_inv_Advance [OF assms inside] coded_step_Advance [OF assms inside]
      by (auto simp: Skip_def)
  next
    case limit
    have "Skip ops n s = Some (False, Advance ?b s)"
      using limit assms(2) by (simp add: Skip_def Let_def)
    moreover have "length (cview s) = nat ?b"
      using limit v lb by simp
    ultimately show ?thesis
      using limit I(3) coded_inv_Advance [OF assms(1) I(3)] coded_step_Advance [OF assms(1) I(3)]
      by (auto intro!: exI [of _ "Advance ?b s"] exI [of _ "nat ?b"])
  next
    case past
    let ?k = "n - ?b" and ?u = "closest_limit s - cis_total_bytes_read s"
    have u: "0 \<le> ?u" using I(6) past by simp
    note sp = split_at_buffer [OF assms(1) past(2), of rest]
    show ?thesis
    proof (cases "?u = 0")
      case True
      let ?t = "cis_null_buffer s"
      have skip: "Skip ops n s = Some (False, ?t)"
      proof -
        have "min (cis_current_limit s) (cis_total_bytes_limit s) = cis_total_bytes_read s"
          using True by (simp add: closest_limit_def)
        with past assms(2) show ?thesis
          by (simp add: Skip_def Let_def cis_null_buffer_def del: min_less_iff_conj)
      qed
      have f: "BufferSize ?t = 0" "cis_buffer_size_after_limit ?t = 0" "pending ?t = []"
        "closest_limit ?t = closest_limit s" "beyond rest last_chunk ?t = beyond rest last_chunk s"
        using past by (simp_all add: cis_null_buffer_def BufferSize_def pending_def closest_limit_def beyond_def
            cong: option.case_cong)
      have pos: "CurrentPosition ?t = CurrentPosition s + ?b"
        using past f by (simp add: CurrentPosition_def) (simp add: cis_null_buffer_def)
      have "input_inv inv last_chunk ?t"
        using coded_inv_input_inv [OF assms(1)]
        unfolding input_inv_def f(3)
        by (auto simp: cis_null_buffer_def split: option.splits)
      then have "cinv' ?t"
        using I past pos f True by (simp add: coded_inv_def) (simp add: cis_null_buffer_def)
      moreover have "cstep (nat ?b) s ?t"
        using pos f sp(1) lb I(3) by (simp add: coded_step_def unread_def) (simp add: cis_null_buffer_def)
      moreover have "length (cview s) = nat ?b" "\<not> nat n \<le> nat ?b"
        using sp(2) True lb past I(3) by simp_all
      ultimately show ?thesis
        using skip by auto
    next
      case False
      with u have ov: "cis_overflow_bytes s = 0"
        using I(9,11,12) by auto
      obtain i where i: "cis_input s = Some i" "inv i"
        using coded_inv_input_inv [OF assms(1)] False u I(6) past(2)
        by (cases "cis_input s") (auto simp: input_inv_def closest_limit_def)
      have vlen: "length (cview s) = nat ?b + min (nat ?u) (length (rest i))"
        using sp(2) lb ov i(1) by (simp add: beyond_def min.commute)
      let ?j = "min ?k ?u"
      have j: "0 < ?j" "?j \<le> ?u" using past False u by auto
      obtain b i' where sk: "in_skip ops ?j i = Some (b, i')" "inv i'" "rest i' = drop (nat ?j) (rest i)"
        "b \<longrightarrow> nat ?j \<le> length (rest i)" "nat ?j \<le> length (rest i) \<longrightarrow> b"
        using skip_ok_int [OF i(2), of ?j] j(1) by auto
      let ?t = "(cis_null_buffer s)\<lparr>cis_total_bytes_read := cis_total_bytes_read s + ?j, cis_input := Some i'\<rparr>"
      have "cinv' ?t" "cstep (nat (?b + ?j)) s ?t"
        using skipped_state [OF assms(1) past(2) ov _ _ i(1) sk(2,3) refl] j by auto
      moreover have "Skip ops n s = Some (\<not> ?u < ?k \<and> b, ?t)"
      proof (cases "?u < ?k")
        case True
        then have "?j = ?u" by simp
        moreover have "0 < ?u" using u False by simp
        ultimately show ?thesis
          using True sk(1) past assms(2) i(1)
          by (simp add: Skip_def Let_def closest_limit_def cis_null_buffer_def
              del: min_less_iff_conj min.bounded_iff)
      next
        case False
        then have "?j = ?k" by simp
        with False sk(1) show ?thesis
          using past assms(2) i(1)
          by (simp add: Skip_def Let_def closest_limit_def) (simp add: cis_null_buffer_def)
      qed
      moreover have "(\<not> ?u < ?k \<and> b) = (nat n \<le> length (cview s))"
        using sk(4,5) vlen u past I(3) by (auto simp: min_def split: if_splits)
      moreover have "if nat n \<le> length (cview s) then nat (?b + ?j) = nat n else length (cview s) \<le> nat (?b + ?j)"
        using vlen u past I(3) by (auto simp: min_def)
      ultimately show ?thesis by auto
    qed
  qed
qed

lemma Skip_negative: "n < 0 \<Longrightarrow> Skip ops n s = Some (False, s)"
  by (simp add: Skip_def)

section \<open>Little-endian integers\<close>

lemma chunk_prefix:
  assumes "cinv' s" "cview s = p @ r" "int (length p) \<le> BufferSize s"
  obtains r' where "drop (nat (cis_buffer s)) (cis_chunk s) = p @ r'"
proof -
  have "take (length p) (drop (nat (cis_buffer s)) (cis_chunk s)) = p"
    using cread [OF assms(1), of "int (length p)"] assms(2,3)
    by (simp add: mem_read_def split: if_splits)
  then show ?thesis
    using that [of "drop (length p) (drop (nat (cis_buffer s)) (cis_chunk s))"]
      append_take_drop_id [of "length p" "drop (nat (cis_buffer s)) (cis_chunk s)"] by simp
qed

lemma ReadLittleEndian32_ok:
  assumes "cinv' s" "cview s = WriteLittleEndian32ToArray v @ r"
  shows "\<exists>t. ReadLittleEndian32 ops s = Some (Some v, t) \<and> cinv' t \<and> cstep 4 s t"
proof (cases "BufferSize s \<ge> 4")
  case True
  obtain r' where "drop (nat (cis_buffer s)) (cis_chunk s) = WriteLittleEndian32ToArray v @ r'"
    using chunk_prefix [OF assms] True by auto
  then have "ReadLittleEndian32FromArray (cis_chunk s) (cis_buffer s) = Some (v, cis_buffer s + 4)"
    using ReadLittleEndian32_Write coded_invD(1) [OF assms(1)] by blast
  with True show ?thesis
    using coded_inv_Advance [OF assms(1), of 4] coded_step_Advance [OF assms(1), of 4]
    by (simp add: ReadLittleEndian32_def ReadLittleEndian32Fallback_def)
next
  case False
  have "ReadLittleEndian32FromArray (WriteLittleEndian32ToArray v) 0 = Some (v, 4)"
    using ReadLittleEndian32_Write [of 0 "WriteLittleEndian32ToArray v" v "[]"] by simp
  with False show ?thesis
    using ReadRaw_ok [OF assms(1), of 4] assms(2)
    by (auto simp: ReadLittleEndian32_def ReadLittleEndian32Fallback_def min_absorb1)
qed

lemma ReadLittleEndian32_short:
  assumes "cinv' s" "length (cview s) < 4"
  shows "\<exists>t. ReadLittleEndian32 ops s = Some (None, t) \<and> cinv' t \<and> cstep (length (cview s)) s t"
proof -
  have "\<not> BufferSize s \<ge> 4"
    using view_buffered [OF assms(1), of rest] length_buffered [OF assms(1)] assms(2) by auto
  then show ?thesis
    using ReadRaw_ok [OF assms(1), of 4] assms(2)
    by (auto simp: ReadLittleEndian32_def ReadLittleEndian32Fallback_def min_absorb2)
qed

lemma ReadLittleEndian64_ok:
  assumes "cinv' s" "cview s = WriteLittleEndian64ToArray v @ r"
  shows "\<exists>t. ReadLittleEndian64 ops s = Some (Some v, t) \<and> cinv' t \<and> cstep 8 s t"
proof (cases "BufferSize s \<ge> 8")
  case True
  obtain r' where "drop (nat (cis_buffer s)) (cis_chunk s) = WriteLittleEndian64ToArray v @ r'"
    using chunk_prefix [OF assms] True by auto
  then have "ReadLittleEndian64FromArray (cis_chunk s) (cis_buffer s) = Some (v, cis_buffer s + 8)"
    using ReadLittleEndian64_Write coded_invD(1) [OF assms(1)] by blast
  with True show ?thesis
    using coded_inv_Advance [OF assms(1), of 8] coded_step_Advance [OF assms(1), of 8]
    by (simp add: ReadLittleEndian64_def ReadLittleEndian64Fallback_def)
next
  case False
  have "ReadLittleEndian64FromArray (WriteLittleEndian64ToArray v) 0 = Some (v, 8)"
    using ReadLittleEndian64_Write [of 0 "WriteLittleEndian64ToArray v" v "[]"] by simp
  with False show ?thesis
    using ReadRaw_ok [OF assms(1), of 8] assms(2)
    by (auto simp: ReadLittleEndian64_def ReadLittleEndian64Fallback_def min_absorb1)
qed

lemma ReadLittleEndian64_short:
  assumes "cinv' s" "length (cview s) < 8"
  shows "\<exists>t. ReadLittleEndian64 ops s = Some (None, t) \<and> cinv' t \<and> cstep (length (cview s)) s t"
proof -
  have "\<not> BufferSize s \<ge> 8"
    using view_buffered [OF assms(1), of rest] length_buffered [OF assms(1)] assms(2) by auto
  then show ?thesis
    using ReadRaw_ok [OF assms(1), of 8] assms(2)
    by (auto simp: ReadLittleEndian64_def ReadLittleEndian64Fallback_def min_absorb2)
qed

end

section \<open>Varints\<close>

definition same_end :: "'s coded_input \<Rightarrow> 's coded_input \<Rightarrow> bool" where
  "same_end s t \<longleftrightarrow> cis_legitimate_message_end t = cis_legitimate_message_end s \<and>
     cis_last_tag t = cis_last_tag s"

lemma same_end_simps [simp]: "same_end s s" "same_end s (Advance n s)"
  by (simp_all add: same_end_def Advance_def)

lemma same_end_trans: "same_end s t \<Longrightarrow> same_end t u \<Longrightarrow> same_end s u"
  by (simp add: same_end_def)

lemma set_buffer_Advance: "s\<lparr>cis_buffer := cis_buffer s + n\<rparr> = Advance n s"
  by (simp add: Advance_def)

lemma ucast_and_7F: "ucast ((ucast b :: uint32) AND 0x7F) = (of_nat (unat b mod 128) :: uint64)" for b :: uint8
proof -
  have "unat ((ucast b :: uint32) AND 0x7F) = unat b mod 128"
    by (simp only: unat_and_127) (simp add: unat_ucast_mod less_trans [OF unat_less_256])
  then show ?thesis
    by (metis of_nat_unat)
qed

context zero_copy_input
begin

lemma fast_varint_ok:
  assumes "cinv' s"
  obtains f where "fast_varint s = Some f"
    "f \<longrightarrow> 10 \<le> length (buffered s) \<or> (buffered s \<noteq> [] \<and> unat (last (buffered s)) < 128)"
    "f \<longrightarrow> buffered s \<noteq> []"
proof (cases "BufferSize s \<ge> 10")
  case True
  then have n: "10 \<le> length (buffered s)"
    using length_buffered [OF assms] by simp
  then have "buffered s \<noteq> []" by auto
  with n True show ?thesis
    using that [of True] by (simp add: fast_varint_def kMaxVarintBytes_def)
next
  case False
  note I = coded_invD [OF assms]
  show ?thesis
  proof (cases "cis_buffer_end s > cis_buffer s")
    case True
    have n: "length (buffered s) = nat (BufferSize s)" "buffered s \<noteq> []"
      using length_buffered [OF assms] True by (auto simp: BufferSize_def)
    have "last (buffered s) = buffered s ! (nat (BufferSize s) - 1)"
      using n by (simp add: last_conv_nth)
    also have "\<dots> = cis_chunk s ! (nat (cis_buffer s) + (nat (BufferSize s) - 1))"
      using n True I by (simp add: buffered_def BufferSize_def nth_drop)
    also have "nat (cis_buffer s) + (nat (BufferSize s) - 1) = nat (cis_buffer_end s - 1)"
      using True I by (simp add: BufferSize_def nat_diff_distrib [symmetric] nat_add_distrib [symmetric])
    finally have "byte_at (cis_chunk s) (cis_buffer_end s - 1) = Some (last (buffered s))"
      using True I by (simp add: byte_at_def)
    then show ?thesis
      using that [of "last (buffered s) AND 128 = 0"] False True n
      by (simp add: fast_varint_def kMaxVarintBytes_def and_128_iff)
  next
    case False': False
    then show ?thesis
      using that [of False] False by (simp add: fast_varint_def kMaxVarintBytes_def)
  qed
qed

lemma refill_ok:
  assumes "cinv' s"
  shows "\<exists>t. refill ops s = Some (cview s \<noteq> [], t) \<and> cinv' t \<and> cstep 0 s t \<and> same_end s t \<and>
    (cview s \<noteq> [] \<longrightarrow> cis_buffer t < cis_buffer_end t)"
proof -
  have full: "refill ops s = Some (True, s) \<and> cview s \<noteq> [] \<and> cis_buffer s < cis_buffer_end s"
    if "cinv' s" "0 < BufferSize s" for s
    using that view_next_byte [OF that(1), of rest] by (subst refill.simps) (auto simp: BufferSize_def)
  show ?thesis
  proof (cases "BufferSize s = 0")
    case False
    then show ?thesis
      using full [OF assms] assms coded_invD(3) [OF assms] by auto
  next
    case True
    obtain ok t where t: "Refresh ops s = Some (ok, t)" "cinv' t" "cstep 0 s t" "cview t = cview s"
      "cis_legitimate_message_end t = cis_legitimate_message_end s" "cis_last_tag t = cis_last_tag s"
      and prog: "ok \<longrightarrow> 0 < BufferSize t \<or> 0 < cis_buffer_size_after_limit t"
      and eof: "\<not> ok \<longrightarrow> cview s = [] \<and> BufferSize t = 0"
      and stop: "0 < cis_buffer_size_after_limit s \<longrightarrow> \<not> ok"
      by (rule Refresh_step [OF assms True])
    have unf: "refill ops s = (if ok then refill ops t else Some (False, t))"
      using True t(1) by (subst refill.simps) (simp add: BufferSize_def)
    have se: "same_end s t" using t by (simp add: same_end_def)
    consider "\<not> ok" | "ok" "0 < BufferSize t" | "ok" "BufferSize t = 0" "0 < cis_buffer_size_after_limit t"
      using prog coded_invD(3) [OF t(2)] by linarith
    then show ?thesis
    proof cases
      case 1
      with unf eof t se show ?thesis by auto
    next
      case 2
      with unf full [OF t(2)] t se show ?thesis by auto
    next
      case 3
      obtain ok' u where u: "Refresh ops t = Some (ok', u)" "cinv' u" "cstep 0 t u" "cview u = cview t"
        "cis_legitimate_message_end u = cis_legitimate_message_end t" "cis_last_tag u = cis_last_tag t"
        and prog': "ok' \<longrightarrow> 0 < BufferSize u \<or> 0 < cis_buffer_size_after_limit u"
        and eof': "\<not> ok' \<longrightarrow> cview t = [] \<and> BufferSize u = 0"
        and stop': "0 < cis_buffer_size_after_limit t \<longrightarrow> \<not> ok'"
        by (rule Refresh_step [OF t(2) 3(2)])
      have "refill ops t = Some (False, u)"
        using 3 u(1) stop' by (subst refill.simps) (simp add: BufferSize_def)
      moreover have "same_end s u" "cstep 0 s u"
        using se u same_end_trans coded_step_trans [OF t(3) u(3)] by (auto simp: same_end_def)
      ultimately show ?thesis
        using unf 3 eof' stop' t(4) u(2) by auto
    qed
  qed
qed

lemma ReadVarint64Slow_loop_ok:
  assumes "cinv' s" "q < 2 ^ (7 * count)"
  shows "(\<forall>ds r. varint_split left (cview s) = Some (ds, r) \<longrightarrow>
      (\<exists>t. ReadVarint64Slow_loop ops left count (of_nat q) s =
         Some (Some (of_nat (q + 2 ^ (7 * count) * leb ds)), t) \<and>
         cinv' t \<and> cstep (length ds) s t \<and> same_end s t)) \<and>
    (varint_split left (cview s) = None \<longrightarrow>
      (\<exists>t m. ReadVarint64Slow_loop ops left count (of_nat q) s = Some (None, t) \<and>
         cinv' t \<and> cstep m s t \<and> same_end s t))"
  using assms
proof (induction left arbitrary: count q s)
  case 0
  then show ?case by (auto intro: exI [of _ s] exI [of _ 0])
next
  case (Suc left)
  obtain t where t: "refill ops s = Some (cview s \<noteq> [], t)" "cinv' t" "cstep 0 s t" "same_end s t"
    "cview s \<noteq> [] \<longrightarrow> cis_buffer t < cis_buffer_end t"
    using refill_ok [OF Suc.prems(1)] by blast
  have vt: "cview t = cview s"
    using coded_step_view [OF t(3) Suc.prems(1)] by simp
  show ?case
  proof (cases "cview s")
    case Nil
    then have "ReadVarint64Slow_loop ops (Suc left) count (of_nat q) s = Some (None, t)"
      using t(1) by simp
    with Nil t show ?thesis by auto
  next
    case (Cons b bs)
    with t vt have b: "byte_at (cis_chunk t) (cis_buffer t) = Some b"
      using view_next_byte [OF t(2), of rest] by auto
    have sz: "1 \<le> BufferSize t"
      using t(5) Cons by (simp add: BufferSize_def)
    let ?u = "Advance 1 t" and ?d = "unat b mod 128"
    have u: "cinv' ?u" "cstep 1 t ?u" "same_end s ?u"
      using coded_inv_Advance [OF t(2) _ sz] coded_step_Advance [OF t(2) _ sz, of rest]
        same_end_trans [OF t(4) same_end_simps(2)] by auto
    have su: "cstep 1 s ?u"
      using coded_step_trans [OF t(3) u(2)] by simp
    have vu: "cview ?u = bs"
      using coded_step_view [OF u(2) t(2)] vt Cons by simp
    let ?q = "q + 2 ^ (7 * count) * ?d"
    have acc: "of_nat q OR push_bit (7 * count) (ucast ((ucast b :: uint32) AND 0x7F)) = (of_nat ?q :: uint64)"
      using or_push_bit_add [OF Suc.prems(2), of "of_nat ?d"]
      by (simp add: ucast_and_7F push_bit_eq_mult mult.commute)
    have step: "ReadVarint64Slow_loop ops (Suc left) count (of_nat q) s =
      (if unat b < 128 then Some (Some (of_nat ?q), ?u) else ReadVarint64Slow_loop ops left (count + 1) (of_nat ?q) ?u)"
      using t(1) b acc Cons by (simp add: next_b_def ucast_and_128 Let_def)
    show ?thesis
    proof (cases "unat b < 128")
      case True
      with step Cons u(1,3) su show ?thesis by auto
    next
      case False
      have bound: "?q < 2 ^ (7 * (count + 1))"
      proof -
        have "2 ^ (7 * count) * ?d \<le> 2 ^ (7 * count) * (127 :: nat)"
          by (intro mult_le_mono2) (simp add: less_Suc_eq_le [symmetric])
        then have "?q < 2 ^ (7 * count) + 2 ^ (7 * count) * 127"
          using Suc.prems(2) by linarith
        then show ?thesis by (simp add: power_add mult.commute)
      qed
      note ih = Suc.IH [OF u(1) bound, unfolded vu]
      show ?thesis
      proof (cases "varint_split left bs")
        case None
        with ih obtain w m where w: "ReadVarint64Slow_loop ops left (count + 1) (of_nat ?q) ?u = Some (None, w)"
          "cinv' w" "cstep m ?u w" "same_end ?u w" by auto
        with None False step Cons show ?thesis
          using coded_step_trans [OF su w(3)] same_end_trans [OF u(3) w(4)] by auto
      next
        case (Some p)
        obtain ds r where p: "p = (ds, r)" by (cases p)
        with Some ih obtain w where w: "ReadVarint64Slow_loop ops left (count + 1) (of_nat ?q) ?u =
            Some (Some (of_nat (?q + 2 ^ (7 * (count + 1)) * leb ds)), w)"
          "cinv' w" "cstep (length ds) ?u w" "same_end ?u w" by auto
        have "?q + 2 ^ (7 * (count + 1)) * leb ds = q + 2 ^ (7 * count) * leb (b # ds)"
          by (simp add: power_add algebra_simps)
        with step False w(1) have "ReadVarint64Slow_loop ops (Suc left) count (of_nat q) s =
          Some (Some (of_nat (q + 2 ^ (7 * count) * leb (b # ds))), w)" by (simp only: if_False)
        moreover have "varint_split (Suc left) (cview s) = Some (b # ds, r)"
          using Some p False Cons by simp
        moreover have "cstep (length (b # ds)) s w"
          using coded_step_trans [OF su w(3)] by simp
        ultimately show ?thesis
          using w(2) same_end_trans [OF u(3) w(4)] by (simp only: option.inject prod.inject) blast
      qed
    qed
  qed
qed

lemma ReadVarint64Slow_ok:
  assumes "cinv' s"
  shows "varint_split 10 (cview s) = Some (ds, r) \<Longrightarrow>
      \<exists>t. ReadVarint64Slow ops s = Some (Some (of_nat (leb ds)), t) \<and> cinv' t \<and> cstep (length ds) s t \<and> same_end s t"
    and "varint_split 10 (cview s) = None \<Longrightarrow>
      \<exists>t m. ReadVarint64Slow ops s = Some (None, t) \<and> cinv' t \<and> cstep m s t \<and> same_end s t"
  using ReadVarint64Slow_loop_ok [OF assms, of 0 0 10]
  by (simp_all add: ReadVarint64Slow_def kMaxVarintBytes_def)

text \<open>On the fast path the buffer decides whether there is a varint, and which.\<close>

lemma fast_varint_split:
  assumes "cinv' s" "10 \<le> length (buffered s) \<or> (buffered s \<noteq> [] \<and> unat (last (buffered s)) < 128)"
  obtains (ok) ds r r' where "varint_split 10 (cview s) = Some (ds, r)"
      "varint_split 10 (drop (nat (cis_buffer s)) (cis_chunk s)) = Some (ds, r')"
      "0 \<le> int (length ds)" "int (length ds) \<le> BufferSize s" "ds \<noteq> []"
      "take (length ds) (cview s) = ds"
    | (bad) "varint_split 10 (cview s) = None"
      "varint_split 10 (drop (nat (cis_buffer s)) (cis_chunk s)) = None"
      "10 \<le> length (drop (nat (cis_buffer s)) (cis_chunk s))"
proof -
  obtain tl where v: "cview s = buffered s @ tl"
    using view_buffered [OF assms(1)] by blast
  obtain tl' where d: "drop (nat (cis_buffer s)) (cis_chunk s) = buffered s @ tl'"
    using drop_buffer_buffered [OF assms(1)] by blast
  note lb = length_buffered [OF assms(1)]
  show ?thesis
  proof (cases "varint_split 10 (buffered s)")
    case None
    then have "10 \<le> length (buffered s)"
      using assms(2) varint_split_last_None by blast
    with None varint_split_None_append [OF None] show ?thesis
      by (intro bad) (simp_all add: v d del: length_drop)
  next
    case (Some p)
    obtain ds r where p: "p = (ds, r)" by (cases p)
    have "buffered s = ds @ r" "ds \<noteq> []"
      using varint_split_SomeD [of 10 "buffered s" ds r] Some p by auto
    moreover have "int (length ds) \<le> BufferSize s"
      using lb calculation coded_invD(3) [OF assms(1)] by simp
    ultimately show ?thesis
      using Some p varint_split_append [of 10 "buffered s" ds r]
      by (intro ok [of ds "r @ tl" "r @ tl'"]) (simp_all add: v d)
  qed
qed

lemma Advance_ok:
  assumes "cinv' s" "int n \<le> BufferSize s"
  shows "cinv' (Advance (int n) s)" "cstep n s (Advance (int n) s)" "same_end s (Advance (int n) s)"
  using coded_inv_Advance [OF assms(1) _ assms(2)] coded_step_Advance [OF assms(1) _ assms(2)] by auto

lemma ReadVarint64Fallback_ok:
  assumes "cinv' s"
  shows "varint_split 10 (cview s) = Some (ds, r) \<Longrightarrow>
      \<exists>t. ReadVarint64Fallback ops s = Some (Some (of_nat (leb ds)), t) \<and> cinv' t \<and> cstep (length ds) s t \<and> same_end s t"
      (is "?ok \<Longrightarrow> ?P")
    and "varint_split 10 (cview s) = None \<Longrightarrow>
      \<exists>t m. ReadVarint64Fallback ops s = Some (None, t) \<and> cinv' t \<and> cstep m s t \<and> same_end s t"
      (is "?bad \<Longrightarrow> ?Q")
proof -
  obtain f where f: "fast_varint s = Some f"
    "f \<longrightarrow> 10 \<le> length (buffered s) \<or> (buffered s \<noteq> [] \<and> unat (last (buffered s)) < 128)"
    "f \<longrightarrow> buffered s \<noteq> []"
    by (rule fast_varint_ok [OF assms])
  have "(?ok \<longrightarrow> ?P) \<and> (?bad \<longrightarrow> ?Q)"
  proof (cases f)
    case False
    then have "ReadVarint64Fallback ops s = ReadVarint64Slow ops s"
      using f(1) by (simp add: ReadVarint64Fallback_def)
    then show ?thesis
      using ReadVarint64Slow_ok [OF assms] by auto
  next
    case True
    with f have pre: "10 \<le> length (buffered s) \<or> (buffered s \<noteq> [] \<and> unat (last (buffered s)) < 128)" by simp
    show ?thesis
    proof (cases rule: fast_varint_split [OF assms pre])
      case (1 ds' r' r'')
      have "ReadVarint64Fallback ops s = Some (Some (of_nat (leb ds')), Advance (int (length ds')) s)"
        using True f(1) ReadVarint64FromArray_eq [OF coded_invD(1) [OF assms] 1(2)]
        by (simp add: ReadVarint64Fallback_def set_buffer_Advance)
      with 1 Advance_ok [OF assms 1(4)] show ?thesis by auto
    next
      case 2
      have "ReadVarint64Fallback ops s = Some (None, s)"
        using True f(1) ReadVarint64FromArray_overlong [OF coded_invD(1) [OF assms] 2(2,3)]
        by (simp add: ReadVarint64Fallback_def)
      with 2 assms show ?thesis by (auto intro: exI [of _ s] exI [of _ 0])
    qed
  qed
  then show "?ok \<Longrightarrow> ?P" "?bad \<Longrightarrow> ?Q" by blast+
qed

text \<open>The inline fast path of every varint read: one byte.\<close>

lemma first_byte:
  assumes "cinv' s" "cis_buffer s < cis_buffer_end s"
  obtains b bs where "cview s = b # bs" "byte_at (cis_chunk s) (cis_buffer s) = Some b"
    "next_b (cis_chunk s) (cis_buffer s) = Some (ucast b)"
    "cinv' (Advance 1 s)" "cstep 1 s (Advance 1 s)" "same_end s (Advance 1 s)"
    "unat b < 128 \<longrightarrow> varint_split 10 (cview s) = Some ([b], bs)"
proof -
  obtain b bs where b: "cview s = b # bs" "byte_at (cis_chunk s) (cis_buffer s) = Some b"
    using view_next_byte [OF assms, of rest] by blast
  have "1 \<le> BufferSize s"
    using assms(2) by (simp add: BufferSize_def)
  with b Advance_ok [OF assms(1), of 1] show ?thesis
    by (intro that [of b bs]) (simp_all add: next_b_def eval_nat_numeral)
qed

lemma byte_less_128: "(b < 0x80) = (unat b < 128)" for b :: uint8
  by (simp add: word_less_nat_alt)

lemma ucast_less_128: "((ucast b :: uint32) < 0x80) = (unat b < 128)" for b :: uint8
  by (simp add: word_less_nat_alt unat_ucast_mod less_trans [OF unat_less_256])

lemma ReadVarint64_ok:
  assumes "cinv' s"
  shows "varint_split 10 (cview s) = Some (ds, r) \<Longrightarrow>
      \<exists>t. ReadVarint64 ops s = Some (Some (of_nat (leb ds)), t) \<and> cinv' t \<and> cstep (length ds) s t \<and> same_end s t"
      (is "?ok \<Longrightarrow> ?P")
    and "varint_split 10 (cview s) = None \<Longrightarrow>
      \<exists>t m. ReadVarint64 ops s = Some (None, t) \<and> cinv' t \<and> cstep m s t \<and> same_end s t"
      (is "?bad \<Longrightarrow> ?Q")
proof -
  have "(?ok \<longrightarrow> ?P) \<and> (?bad \<longrightarrow> ?Q)"
  proof (cases "cis_buffer s < cis_buffer_end s")
    case False
    then show ?thesis
      using ReadVarint64Fallback_ok [OF assms] by (auto simp: ReadVarint64_def)
  next
    case True
    obtain b bs where b: "cview s = b # bs" "byte_at (cis_chunk s) (cis_buffer s) = Some b"
      "next_b (cis_chunk s) (cis_buffer s) = Some (ucast b)"
      "cinv' (Advance 1 s)" "cstep 1 s (Advance 1 s)" "same_end s (Advance 1 s)"
      "unat b < 128 \<longrightarrow> varint_split 10 (cview s) = Some ([b], bs)"
      by (rule first_byte [OF assms True])
    show ?thesis
    proof (cases "unat b < 128")
      case small: True
      with True b(2) have "ReadVarint64 ops s = Some (Some (ucast b), Advance 1 s)"
        by (simp add: ReadVarint64_def byte_less_128)
      moreover have "(ucast b :: uint64) = of_nat (leb [b])"
        using small by simp
      moreover have split: "varint_split 10 (cview s) = Some ([b], bs)"
        using b(7) small by simp
      ultimately have "ReadVarint64 ops s = Some (Some (of_nat (leb [b])), Advance 1 s)" by (simp only:)
      then show ?thesis
        unfolding split option.inject prod.inject using b(4-6) by auto
    next
      case big: False
      with True b(2) have "ReadVarint64 ops s = ReadVarint64Fallback ops s"
        by (simp add: ReadVarint64_def byte_less_128)
      then show ?thesis
        using ReadVarint64Fallback_ok [OF assms] by auto
    qed
  qed
  then show "?ok \<Longrightarrow> ?P" "?bad \<Longrightarrow> ?Q" by blast+
qed

lemma ReadVarint32Fallback_ok:
  assumes "cinv' s"
    and fb: "cis_buffer s < cis_buffer_end s \<longrightarrow>
      (\<exists>b bs. cview s = b # bs \<and> fb = ucast b \<and> \<not> unat b < 128)"
  shows "varint_split 10 (cview s) = Some (ds, r) \<Longrightarrow>
      \<exists>t. ReadVarint32Fallback ops fb s = Some (uint (of_nat (leb ds) :: uint32), t) \<and>
        cinv' t \<and> cstep (length ds) s t \<and> same_end s t"
      (is "?ok \<Longrightarrow> ?P")
    and "varint_split 10 (cview s) = None \<Longrightarrow>
      \<exists>t m. ReadVarint32Fallback ops fb s = Some (-1, t) \<and> cinv' t \<and> cstep m s t \<and> same_end s t"
      (is "?bad \<Longrightarrow> ?Q")
proof -
  obtain f where f: "fast_varint s = Some f"
    "f \<longrightarrow> 10 \<le> length (buffered s) \<or> (buffered s \<noteq> [] \<and> unat (last (buffered s)) < 128)"
    "f \<longrightarrow> buffered s \<noteq> []"
    by (rule fast_varint_ok [OF assms(1)])
  have "(?ok \<longrightarrow> ?P) \<and> (?bad \<longrightarrow> ?Q)"
  proof (cases f)
    case False
    have slow: "ReadVarint32Fallback ops fb s = do {
        (p, s) \<leftarrow> ReadVarint64Fallback ops s;
        Some (case p of None \<Rightarrow> -1 | Some v \<Rightarrow> uint (ucast v :: uint32), s)
      }"
      using f(1) False
      by (cases "ReadVarint64Fallback ops s")
        (auto simp: ReadVarint32Fallback_def ReadVarint32Slow_def split: option.splits)
    have trunc: "uint (ucast (of_nat n :: uint64) :: uint32) = uint (of_nat n :: uint32)" for n
      by (simp add: unsigned_ucast_eq unsigned_of_nat take_bit_take_bit)
    show ?thesis
    proof (intro conjI impI)
      assume ?ok
      then obtain t where "ReadVarint64Fallback ops s = Some (Some (of_nat (leb ds)), t)" "cinv' t"
        "cstep (length ds) s t" "same_end s t"
        using ReadVarint64Fallback_ok(1) [OF assms(1)] by blast
      then show ?P
        by (intro exI [of _ t]) (simp add: slow trunc del: of_nat_0)
    next
      assume ?bad
      then obtain t m where "ReadVarint64Fallback ops s = Some (None, t)" "cinv' t" "cstep m s t" "same_end s t"
        using ReadVarint64Fallback_ok(2) [OF assms(1)] by blast
      then show ?Q
        by (intro exI [of _ t] exI [of _ m]) (simp add: slow)
    qed
  next
    case True
    with f have pre: "10 \<le> length (buffered s) \<or> (buffered s \<noteq> [] \<and> unat (last (buffered s)) < 128)" by simp
    have "cis_buffer s < cis_buffer_end s"
      using True f(3) length_buffered [OF assms(1)] by (cases "buffered s") (auto simp: BufferSize_def)
    then obtain b bs where b: "cview s = b # bs" "fb = ucast b" "\<not> unat b < 128"
      "byte_at (cis_chunk s) (cis_buffer s) = Some b"
      using fb view_next_byte [OF assms(1), of rest] by auto
    have head: "drop (nat (cis_buffer s)) (cis_chunk s) = b # drop (nat (cis_buffer s) + 1) (cis_chunk s)"
      using byte_at_drop [OF b(4)] .
    show ?thesis
    proof (cases rule: fast_varint_split [OF assms(1) pre])
      case (1 ds' r' r'')
      have "ReadVarint32FromArray fb (cis_chunk s) (cis_buffer s) =
          Some (Some (of_nat (leb ds')), cis_buffer s + int (length ds'))"
        unfolding b(2) using ReadVarint32FromArray_eq [OF coded_invD(1) [OF assms(1)] 1(2) head b(3)] .
      then have "ReadVarint32Fallback ops fb s = Some (uint (of_nat (leb ds') :: uint32), Advance (int (length ds')) s)"
        using True f(1) by (simp add: ReadVarint32Fallback_def set_buffer_Advance)
      with 1 Advance_ok [OF assms(1) 1(4)] show ?thesis by auto
    next
      case 2
      have "ReadVarint32Fallback ops fb s = Some (-1, s)"
        using True f(1) ReadVarint32FromArray_overlong [OF coded_invD(1) [OF assms(1)] 2(2,3)]
        by (simp add: ReadVarint32Fallback_def)
      with 2 assms(1) show ?thesis by (auto intro: exI [of _ s] exI [of _ 0])
    qed
  qed
  then show "?ok \<Longrightarrow> ?P" "?bad \<Longrightarrow> ?Q" by blast+
qed

lemma first_byte_small:
  assumes "cinv' s" "cis_buffer s < cis_buffer_end s" "cview s = b # bs" "unat b < 128"
  shows "varint_split 10 (cview s) = Some ([b], bs)" "ucast b = (of_nat (leb [b]) :: uint32)"
    "cinv' (Advance 1 s)" "cstep (length [b]) s (Advance 1 s)" "same_end s (Advance 1 s)"
  using assms Advance_ok [OF assms(1), of 1] varint_split.simps(3) [of 9 b bs] by (simp_all add: BufferSize_def)

lemma ReadVarint32_ok:
  assumes "cinv' s"
  shows "varint_split 10 (cview s) = Some (ds, r) \<Longrightarrow>
      \<exists>t. ReadVarint32 ops s = Some (Some (of_nat (leb ds)), t) \<and> cinv' t \<and> cstep (length ds) s t \<and> same_end s t"
      (is "?ok \<Longrightarrow> ?P")
    and "varint_split 10 (cview s) = None \<Longrightarrow>
      \<exists>t m. ReadVarint32 ops s = Some (None, t) \<and> cinv' t \<and> cstep m s t \<and> same_end s t"
      (is "?bad \<Longrightarrow> ?Q")
proof -
  have fall: "(?ok \<longrightarrow> ?P) \<and> (?bad \<longrightarrow> ?Q)"
    if fb: "cis_buffer s < cis_buffer_end s \<longrightarrow> (\<exists>b bs. cview s = b # bs \<and> fb = ucast b \<and> \<not> unat b < 128)"
    and eq: "ReadVarint32 ops s = do {
         (result, s) \<leftarrow> ReadVarint32Fallback ops fb s;
         Some (if result \<ge> 0 then Some (word_of_int result) else None, s)
       }" for fb
    using ReadVarint32Fallback_ok [OF assms fb] eq by fastforce
  have "(?ok \<longrightarrow> ?P) \<and> (?bad \<longrightarrow> ?Q)"
  proof (cases "cis_buffer s < cis_buffer_end s")
    case False
    then show ?thesis
      by (intro fall [of 0]) (simp_all add: ReadVarint32_def)
  next
    case True
    obtain b bs where b: "cview s = b # bs" "byte_at (cis_chunk s) (cis_buffer s) = Some b"
      using view_next_byte [OF assms True, of rest] by blast
    show ?thesis
    proof (cases "unat b < 128")
      case small: True
      note fs = first_byte_small [OF assms True b(1) small]
      from True b(2) small have "ReadVarint32 ops s = Some (Some (of_nat (leb [b])), Advance 1 s)"
        unfolding fs(2) [symmetric] by (simp add: ReadVarint32_def next_b_def ucast_less_128)
      with fs show ?thesis
        unfolding fs(1) option.inject prod.inject by auto
    next
      case big: False
      with True b show ?thesis
        by (intro fall [of "ucast b"]) (simp_all add: ReadVarint32_def next_b_def ucast_less_128)
    qed
  qed
  then show "?ok \<Longrightarrow> ?P" "?bad \<Longrightarrow> ?Q" by blast+
qed

lemma ReadVarintSizeAsIntFallback_ok:
  assumes "cinv' s"
  shows "varint_split 10 (cview s) = Some (ds, r) \<Longrightarrow> unat (of_nat (leb ds) :: uint64) \<le> 2147483647 \<Longrightarrow>
      \<exists>t. ReadVarintSizeAsIntFallback ops s = Some (uint (of_nat (leb ds) :: uint64), t) \<and>
        cinv' t \<and> cstep (length ds) s t \<and> same_end s t"
      (is "?ok \<Longrightarrow> ?small \<Longrightarrow> ?P")
    and "varint_split 10 (cview s) = None \<or>
        (\<exists>ds r. varint_split 10 (cview s) = Some (ds, r) \<and> \<not> unat (of_nat (leb ds) :: uint64) \<le> 2147483647) \<Longrightarrow>
      \<exists>t m. ReadVarintSizeAsIntFallback ops s = Some (-1, t) \<and> cinv' t \<and> cstep m s t \<and> same_end s t"
      (is "?bad \<Longrightarrow> ?Q")
proof -
  have cmp: "v > word_of_int INT_MAX \<longleftrightarrow> \<not> unat v \<le> 2147483647" for v :: uint64
    by (simp add: INT_MAX_def word_less_nat_alt not_le)
  obtain f where f: "fast_varint s = Some f"
    "f \<longrightarrow> 10 \<le> length (buffered s) \<or> (buffered s \<noteq> [] \<and> unat (last (buffered s)) < 128)"
    "f \<longrightarrow> buffered s \<noteq> []"
    by (rule fast_varint_ok [OF assms])
  have "(?ok \<longrightarrow> ?small \<longrightarrow> ?P) \<and> (?bad \<longrightarrow> ?Q)"
  proof (cases f)
    case False
    have slow: "ReadVarintSizeAsIntFallback ops s = do {
        (p, s) \<leftarrow> ReadVarint64Fallback ops s;
        Some (case p of None \<Rightarrow> -1 | Some v \<Rightarrow> if \<not> unat v \<le> 2147483647 then -1 else uint v, s)
      }"
      unfolding ReadVarintSizeAsIntFallback_def ReadVarintSizeAsIntSlow_def f(1) cmp using False by simp
    show ?thesis
    proof (intro conjI impI)
      assume ?ok and small: ?small
      then obtain t where t: "ReadVarint64Fallback ops s = Some (Some (of_nat (leb ds)), t)" "cinv' t"
        "cstep (length ds) s t" "same_end s t"
        using ReadVarint64Fallback_ok(1) [OF assms] by blast
      have "ReadVarintSizeAsIntFallback ops s = Some (uint (of_nat (leb ds) :: uint64), t)"
        using small by (simp only: slow t(1) bind.bind_lunit prod.case option.case not_not if_False simp_thms)
      with t(2-4) show ?P by blast
    next
      assume ?bad
      then show ?Q
      proof (elim disjE exE conjE)
        assume "varint_split 10 (cview s) = None"
        then obtain t m where "ReadVarint64Fallback ops s = Some (None, t)" "cinv' t" "cstep m s t" "same_end s t"
          using ReadVarint64Fallback_ok(2) [OF assms] by blast
        then show ?Q
          by (intro exI [of _ t] exI [of _ m]) (simp add: slow)
      next
        fix ds r
        assume "varint_split 10 (cview s) = Some (ds, r)" and big: "\<not> unat (of_nat (leb ds) :: uint64) \<le> 2147483647"
        then obtain t where t: "ReadVarint64Fallback ops s = Some (Some (of_nat (leb ds)), t)" "cinv' t"
          "cstep (length ds) s t" "same_end s t"
          using ReadVarint64Fallback_ok(1) [OF assms] by blast
        have "ReadVarintSizeAsIntFallback ops s = Some (-1, t)"
          using big by (simp only: slow t(1) bind.bind_lunit prod.case option.case not_not if_True simp_thms)
        with t(2-4) show ?Q by blast
      qed
    qed
  next
    case True
    with f have pre: "10 \<le> length (buffered s) \<or> (buffered s \<noteq> [] \<and> unat (last (buffered s)) < 128)" by simp
    show ?thesis
    proof (cases rule: fast_varint_split [OF assms pre])
      case (1 ds' r' r'')
      have "ReadVarintSizeAsIntFallback ops s =
          (if \<not> unat (of_nat (leb ds') :: uint64) \<le> 2147483647 then Some (-1, s)
           else Some (uint (of_nat (leb ds') :: uint64), Advance (int (length ds')) s))"
        unfolding ReadVarintSizeAsIntFallback_def f(1) cmp
          ReadVarint64FromArray_eq [OF coded_invD(1) [OF assms] 1(2)]
        using True by (simp only: set_buffer_Advance bind.bind_lunit prod.case option.case if_True)
      with 1 assms Advance_ok [OF assms 1(4)] show ?thesis
        by (auto simp del: of_nat_0 intro: exI [of _ s] exI [of _ 0])
    next
      case 2
      have "ReadVarintSizeAsIntFallback ops s = Some (-1, s)"
        using True f(1) ReadVarint64FromArray_overlong [OF coded_invD(1) [OF assms] 2(2,3)]
        by (simp add: ReadVarintSizeAsIntFallback_def)
      with 2 assms show ?thesis by (auto intro: exI [of _ s] exI [of _ 0])
    qed
  qed
  then show "?ok \<Longrightarrow> ?small \<Longrightarrow> ?P" "?bad \<Longrightarrow> ?Q" by blast+
qed

lemma ReadVarintSizeAsInt_ok:
  assumes "cinv' s"
  shows "varint_split 10 (cview s) = Some (ds, r) \<Longrightarrow> unat (of_nat (leb ds) :: uint64) \<le> 2147483647 \<Longrightarrow>
      \<exists>t. ReadVarintSizeAsInt ops s = Some (True, uint (of_nat (leb ds) :: uint64), t) \<and>
        cinv' t \<and> cstep (length ds) s t \<and> same_end s t"
      (is "?ok \<Longrightarrow> ?small \<Longrightarrow> ?P")
    and "varint_split 10 (cview s) = None \<or>
        (\<exists>ds r. varint_split 10 (cview s) = Some (ds, r) \<and> \<not> unat (of_nat (leb ds) :: uint64) \<le> 2147483647) \<Longrightarrow>
      \<exists>t m. ReadVarintSizeAsInt ops s = Some (False, -1, t) \<and> cinv' t \<and> cstep m s t \<and> same_end s t"
      (is "?bad \<Longrightarrow> ?Q")
proof -
  have fall: "(?ok \<longrightarrow> ?small \<longrightarrow> ?P) \<and> (?bad \<longrightarrow> ?Q)"
    if eq: "ReadVarintSizeAsInt ops s = do {
         (v, s) \<leftarrow> ReadVarintSizeAsIntFallback ops s;
         Some (v \<ge> 0, v, s)
       }"
  proof (intro conjI impI)
    assume ?ok ?small
    then obtain t where t: "ReadVarintSizeAsIntFallback ops s = Some (uint (of_nat (leb ds) :: uint64), t)"
      "cinv' t" "cstep (length ds) s t" "same_end s t"
      using ReadVarintSizeAsIntFallback_ok(1) [OF assms] by blast
    have "ReadVarintSizeAsInt ops s = Some (True, uint (of_nat (leb ds) :: uint64), t)"
      unfolding eq t(1) bind.bind_lunit prod.case by simp
    with t(2-4) show ?P by blast
  next
    assume ?bad
    then obtain t m where t: "ReadVarintSizeAsIntFallback ops s = Some (-1, t)"
      "cinv' t" "cstep m s t" "same_end s t"
      using ReadVarintSizeAsIntFallback_ok(2) [OF assms] by blast
    have "ReadVarintSizeAsInt ops s = Some (False, -1, t)"
      unfolding eq t(1) by simp
    with t(2-4) show ?Q by blast
  qed
  have "(?ok \<longrightarrow> ?small \<longrightarrow> ?P) \<and> (?bad \<longrightarrow> ?Q)"
  proof (cases "cis_buffer s < cis_buffer_end s")
    case False
    then show ?thesis
      by (intro fall) (simp add: ReadVarintSizeAsInt_def)
  next
    case True
    obtain b bs where b: "cview s = b # bs" "byte_at (cis_chunk s) (cis_buffer s) = Some b"
      using view_next_byte [OF assms True, of rest] by blast
    have ub: "uint b < 128 \<longleftrightarrow> unat b < 128"
      using int_unat [OF refl, of b] by linarith
    show ?thesis
    proof (cases "unat b < 128")
      case small: True
      note fs = first_byte_small [OF assms True b(1) small]
      have v: "unat (of_nat (leb [b]) :: uint64) = unat b"
        using small by (simp only: leb.simps unat_of_nat) simp
      then have val: "uint b = uint (of_nat (leb [b]) :: uint64)" "unat (of_nat (leb [b]) :: uint64) \<le> 2147483647"
        using small int_unat [OF refl, of b] int_unat [OF refl, of "of_nat (leb [b]) :: uint64"] by linarith+
      from True b(2) small have "ReadVarintSizeAsInt ops s = Some (True, uint b, Advance 1 s)"
        by (simp add: ReadVarintSizeAsInt_def ub)
      with fs(3-5) val show ?thesis
        unfolding fs(1) option.inject prod.inject by (auto simp del: leb.simps)
    next
      case big: False
      with True b show ?thesis
        by (intro fall) (simp add: ReadVarintSizeAsInt_def ub)
    qed
  qed
  then show "?ok \<Longrightarrow> ?small \<Longrightarrow> ?P" "?bad \<Longrightarrow> ?Q" by blast+
qed

section \<open>Tags\<close>

lemma ReadTagSlow_ok:
  assumes "cinv' s"
  shows "varint_split 10 (cview s) = Some (ds, r) \<Longrightarrow>
      \<exists>t. ReadTagSlow ops s = Some (of_nat (leb ds), t) \<and> cinv' t \<and> cstep (length ds) s t \<and> same_end s t"
      (is "?ok \<Longrightarrow> ?P")
    and "cview s \<noteq> [] \<Longrightarrow> varint_split 10 (cview s) = None \<Longrightarrow>
      \<exists>t m. ReadTagSlow ops s = Some (0, t) \<and> cinv' t \<and> cstep m s t \<and> same_end s t"
      (is "?ne \<Longrightarrow> ?bad \<Longrightarrow> ?Q")
    and "cview s = [] \<Longrightarrow>
      \<exists>t. ReadTagSlow ops s = Some (0, t) \<and> cinv' t \<and> (\<exists>m. cstep m s t) \<and> cis_last_tag t = cis_last_tag s \<and>
        (CurrentPosition s < cis_total_bytes_limit s \<or> cis_current_limit s = cis_total_bytes_limit s \<longrightarrow>
           cis_legitimate_message_end t) \<and>
        (\<not> (CurrentPosition s < cis_total_bytes_limit s \<or> cis_current_limit s = cis_total_bytes_limit s) \<longrightarrow>
           \<not> cis_legitimate_message_end s \<longrightarrow> \<not> cis_legitimate_message_end t)"
      (is "?e \<Longrightarrow> ?R")
proof -
  have read: "(?ok \<longrightarrow> (\<exists>t. do { (r, s) \<leftarrow> ReadVarint64 ops u; Some (case r of None \<Rightarrow> 0 | Some result \<Rightarrow> ucast result, s) }
        = Some (of_nat (leb ds) :: uint32, t) \<and> cinv' t \<and> cstep (length ds) s t \<and> same_end s t)) \<and>
      (?bad \<longrightarrow> (\<exists>t m. do { (r, s) \<leftarrow> ReadVarint64 ops u; Some (case r of None \<Rightarrow> 0 | Some result \<Rightarrow> ucast result, s) }
        = Some (0 :: uint32, t) \<and> cinv' t \<and> cstep m s t \<and> same_end s t))"
    if u: "cinv' u" "cstep 0 s u" "same_end s u" for u
  proof -
    have vu: "cview u = cview s" using coded_step_view [OF u(2) assms] by simp
    show ?thesis
    proof (intro conjI impI)
      assume ?ok
      then obtain t where t: "ReadVarint64 ops u = Some (Some (of_nat (leb ds)), t)" "cinv' t"
        "cstep (length ds) u t" "same_end u t"
        using ReadVarint64_ok(1) [OF u(1)] unfolding vu by blast
      have "ucast (of_nat (leb ds) :: uint64) = (of_nat (leb ds) :: uint32)"
        by (rule word_unat_eq_iff [THEN iffD2]) (simp add: unat_ucast_mod unat_of_nat mod_mod_cancel)
      with t show "\<exists>t. do { (r, s) \<leftarrow> ReadVarint64 ops u; Some (case r of None \<Rightarrow> 0 | Some result \<Rightarrow> ucast result, s) }
        = Some (of_nat (leb ds) :: uint32, t) \<and> cinv' t \<and> cstep (length ds) s t \<and> same_end s t"
        using coded_step_trans [OF u(2) t(3)] same_end_trans [OF u(3) t(4)] by auto
    next
      assume ?bad
      then obtain t m where t: "ReadVarint64 ops u = Some (None, t)" "cinv' t" "cstep m u t" "same_end u t"
        using ReadVarint64_ok(2) [OF u(1)] unfolding vu by blast
      then show "\<exists>t m. do { (r, s) \<leftarrow> ReadVarint64 ops u; Some (case r of None \<Rightarrow> 0 | Some result \<Rightarrow> ucast result, s) }
        = Some (0 :: uint32, t) \<and> cinv' t \<and> cstep m s t \<and> same_end s t"
        using coded_step_trans [OF u(2) t(3)] same_end_trans [OF u(3) t(4)] by auto
    qed
  qed
  have "(?ok \<longrightarrow> ?P) \<and> (?ne \<longrightarrow> ?bad \<longrightarrow> ?Q) \<and> (?e \<longrightarrow> ?R)"
  proof (cases "BufferSize s = 0")
    case False
    then have "ReadTagSlow ops s = do { (r, s) \<leftarrow> ReadVarint64 ops s; Some (case r of None \<Rightarrow> 0 | Some result \<Rightarrow> ucast result, s) }"
      by (simp add: ReadTagSlow_def BufferSize_def)
    moreover have "cview s \<noteq> []"
      using False coded_invD(2) [OF assms] view_next_byte [OF assms, of rest] by (auto simp: BufferSize_def)
    ultimately show ?thesis
      using read [of s] assms by auto
  next
    case True
    obtain ok u where u: "Refresh ops s = Some (ok, u)" "cinv' u" "cstep 0 s u" "cview u = cview s"
      "cis_legitimate_message_end u = cis_legitimate_message_end s" "cis_last_tag u = cis_last_tag s"
      and prog: "ok \<longrightarrow> 0 < BufferSize u \<or> 0 < cis_buffer_size_after_limit u"
      and eof: "\<not> ok \<longrightarrow> cview s = [] \<and> BufferSize u = 0"
      and stop: "0 < cis_buffer_size_after_limit s \<longrightarrow> \<not> ok"
      by (rule Refresh_step [OF assms True])
    have se: "same_end s u" using u by (simp add: same_end_def)
    show ?thesis
    proof (cases ok)
      case ok: True
      then have eq: "ReadTagSlow ops s = do { (r, s) \<leftarrow> ReadVarint64 ops u; Some (case r of None \<Rightarrow> 0 | Some result \<Rightarrow> ucast result, s) }"
        using True u(1) by (simp add: ReadTagSlow_def BufferSize_def)
      have "?e \<longrightarrow> ?R"
      proof
        assume e: ?e
        then have bad: ?bad by (simp add: eval_nat_numeral)
        with read [OF u(2,3) se] eq obtain t m where t: "ReadTagSlow ops s = Some (0, t)" "cinv' t" "cstep m s t" "same_end s t"
          by auto
        have "cis_total_bytes_read s \<noteq> cis_current_limit s" "cis_buffer_size_after_limit s = 0"
          using u(1) ok coded_invD(4) [OF assms] by (auto simp: Refresh_def Let_def split: if_splits)
        moreover have "BufferSize u = 0" "0 < cis_buffer_size_after_limit u"
        proof -
          show z: "BufferSize u = 0"
            using e u(4) coded_invD(3) [OF u(2)] view_next_byte [OF u(2), of rest] by (force simp: BufferSize_def)
          with prog ok show "0 < cis_buffer_size_after_limit u" by simp
        qed
        moreover have "closest_limit u = CurrentPosition s"
          using calculation coded_invD(6) [OF u(2)] u(3) by (simp add: CurrentPosition_def coded_step_def max_def split: if_splits)
        ultimately have "min (cis_current_limit s) (cis_total_bytes_limit s) = cis_total_bytes_read s"
          using u(3) True by (simp add: closest_limit_def coded_step_def CurrentPosition_def)
        with \<open>cis_total_bytes_read s \<noteq> cis_current_limit s\<close> \<open>cis_buffer_size_after_limit s = 0\<close>
        have "\<not> (CurrentPosition s < cis_total_bytes_limit s \<or> cis_current_limit s = cis_total_bytes_limit s)"
          using True by (auto simp: CurrentPosition_def min_def split: if_splits)
        with t show ?R by (auto simp: same_end_def)
      qed
      moreover have "?ne" if ?ok using that by (auto simp: eval_nat_numeral)
      ultimately show ?thesis using read [OF u(2,3) se] eq by auto
    next
      case False
      let ?t = "u\<lparr>cis_legitimate_message_end :=
        (if CurrentPosition s \<ge> cis_total_bytes_limit s then cis_current_limit s = cis_total_bytes_limit s else True)\<rparr>"
      have "cis_total_bytes_read u - cis_buffer_size_after_limit u = CurrentPosition s"
        using eof False u(3) by (simp add: coded_step_def CurrentPosition_def)
      then have "ReadTagSlow ops s = Some (0, ?t)"
        using True False u(1,3) by (simp add: ReadTagSlow_def BufferSize_def Let_def coded_step_def)
      moreover have "cview s = []" "\<not> ?ok"
        using eof False by (auto simp: eval_nat_numeral)
      ultimately show ?thesis
        using u by auto
    qed
  qed
  then show "?ok \<Longrightarrow> ?P" "?ne \<Longrightarrow> ?bad \<Longrightarrow> ?Q" "?e \<Longrightarrow> ?R" by blast+
qed

abbreviation "tag_end s \<equiv> CurrentPosition s < cis_total_bytes_limit s \<or> cis_current_limit s = cis_total_bytes_limit s"

lemma ReadTagFallback_ok:
  assumes "cinv' s"
    and fb: "cis_buffer s < cis_buffer_end s \<longrightarrow>
      (\<exists>b bs. cview s = b # bs \<and> fb = ucast b \<and> (b = 0 \<or> \<not> unat b < 128))"
  shows "varint_split 10 (cview s) = Some (ds, r) \<Longrightarrow>
      \<exists>t. ReadTagFallback ops fb s = Some (of_nat (leb ds), t) \<and> cinv' t \<and> cstep (length ds) s t \<and> same_end s t"
      (is "?ok \<Longrightarrow> ?P")
    and "cview s \<noteq> [] \<Longrightarrow> varint_split 10 (cview s) = None \<Longrightarrow>
      \<exists>t m. ReadTagFallback ops fb s = Some (0, t) \<and> cinv' t \<and> cstep m s t \<and> same_end s t"
      (is "?ne \<Longrightarrow> ?bad \<Longrightarrow> ?Q")
    and "cview s = [] \<Longrightarrow>
      \<exists>t. ReadTagFallback ops fb s = Some (0, t) \<and> cinv' t \<and> (\<exists>m. cstep m s t) \<and>
        (tag_end s \<longrightarrow> cis_legitimate_message_end t) \<and>
        (\<not> tag_end s \<longrightarrow> \<not> cis_legitimate_message_end s \<longrightarrow> \<not> cis_legitimate_message_end t)"
      (is "?e \<Longrightarrow> ?R")
proof -
  obtain f where f: "fast_varint s = Some f"
    "f \<longrightarrow> 10 \<le> length (buffered s) \<or> (buffered s \<noteq> [] \<and> unat (last (buffered s)) < 128)"
    "f \<longrightarrow> buffered s \<noteq> []"
    by (rule fast_varint_ok [OF assms(1)])
  have "(?ok \<longrightarrow> ?P) \<and> (?ne \<longrightarrow> ?bad \<longrightarrow> ?Q) \<and> (?e \<longrightarrow> ?R)"
  proof (cases f)
    case True
    with f have pre: "10 \<le> length (buffered s) \<or> (buffered s \<noteq> [] \<and> unat (last (buffered s)) < 128)" by simp
    have lt: "cis_buffer s < cis_buffer_end s"
      using True f(3) length_buffered [OF assms(1)] by (cases "buffered s") (auto simp: BufferSize_def)
    then obtain b bs where b: "cview s = b # bs" "fb = ucast b" "b = 0 \<or> \<not> unat b < 128"
      "byte_at (cis_chunk s) (cis_buffer s) = Some b"
      using fb view_next_byte [OF assms(1), of rest] by auto
    have head: "drop (nat (cis_buffer s)) (cis_chunk s) = b # drop (nat (cis_buffer s) + 1) (cis_chunk s)"
      using byte_at_drop [OF b(4)] .
    have ne: ?ne using b by simp
    show ?thesis
    proof (cases "b = 0")
      case zero: True
      note fs = first_byte_small [OF assms(1) lt b(1)]
      have "ReadTagFallback ops fb s = Some (of_nat (leb [b]), Advance 1 s)"
        using True f(1) zero b(2) by (simp add: ReadTagFallback_def Advance_def)
      then show ?thesis
        using fs ne zero by (auto simp del: leb.simps)
    next
      case False
      with b have big: "\<not> unat b < 128" "fb \<noteq> 0"
        using ucast_less_128 [of b] by auto
      show ?thesis
      proof (cases rule: fast_varint_split [OF assms(1) pre])
        case (1 ds' r' r'')
        have "ReadVarint32FromArray fb (cis_chunk s) (cis_buffer s) =
            Some (Some (of_nat (leb ds')), cis_buffer s + int (length ds'))"
          unfolding b(2) using ReadVarint32FromArray_eq [OF coded_invD(1) [OF assms(1)] 1(2) head big(1)] .
        then have "ReadTagFallback ops fb s = Some (of_nat (leb ds'), Advance (int (length ds')) s)"
          using True f(1) big(2) by (simp add: ReadTagFallback_def set_buffer_Advance)
        with 1 ne Advance_ok [OF assms(1) 1(4)] show ?thesis by auto
      next
        case 2
        have "ReadTagFallback ops fb s = Some (0, s)"
          using True f(1) big(2) ReadVarint32FromArray_overlong [OF coded_invD(1) [OF assms(1)] 2(2,3)]
          by (simp add: ReadTagFallback_def)
        with 2 ne assms(1) show ?thesis by (auto intro: exI [of _ s] exI [of _ 0])
      qed
    qed
  next
    case False
    let ?quick = "BufferSize s = 0 \<and>
      (cis_buffer_size_after_limit s > 0 \<or> cis_total_bytes_read s = cis_current_limit s) \<and>
      cis_total_bytes_read s - cis_buffer_size_after_limit s < cis_total_bytes_limit s"
    have eq: "ReadTagFallback ops fb s =
        (if ?quick then Some (0, s\<lparr>cis_legitimate_message_end := True\<rparr>) else ReadTagSlow ops s)"
      using f(1) False by (simp add: ReadTagFallback_def)
    show ?thesis
    proof (cases ?quick)
      case True
      then have "cview s = []"
        using view_at_limit [OF assms(1)] by blast
      moreover have "tag_end s"
        using True by (simp add: CurrentPosition_def)
      moreover have "\<not> ?ok" using calculation by (simp add: eval_nat_numeral)
      ultimately show ?thesis
        using eq True assms(1) by (auto intro: exI [of _ 0])
    next
      case False
      then show ?thesis
        using eq ReadTagSlow_ok [OF assms(1)] by auto
    qed
  qed
  then show "?ok \<Longrightarrow> ?P" "?ne \<Longrightarrow> ?bad \<Longrightarrow> ?Q" "?e \<Longrightarrow> ?R" by blast+
qed

lemma ReadTag_ok:
  assumes "cinv' s"
  shows "varint_split 10 (cview s) = Some (ds, r) \<Longrightarrow>
      \<exists>t. ReadTag ops s = Some (of_nat (leb ds), t) \<and> cinv' t \<and> cstep (length ds) s t \<and>
        cis_last_tag t = of_nat (leb ds) \<and> cis_legitimate_message_end t = cis_legitimate_message_end s"
      (is "?ok \<Longrightarrow> ?P")
    and "cview s \<noteq> [] \<Longrightarrow> varint_split 10 (cview s) = None \<Longrightarrow>
      \<exists>t m. ReadTag ops s = Some (0, t) \<and> cinv' t \<and> cstep m s t \<and>
        cis_last_tag t = 0 \<and> cis_legitimate_message_end t = cis_legitimate_message_end s"
      (is "?ne \<Longrightarrow> ?bad \<Longrightarrow> ?Q")
    and "cview s = [] \<Longrightarrow>
      \<exists>t m. ReadTag ops s = Some (0, t) \<and> cinv' t \<and> cstep m s t \<and> cis_last_tag t = 0 \<and>
        (tag_end s \<longrightarrow> cis_legitimate_message_end t) \<and>
        (\<not> tag_end s \<longrightarrow> \<not> cis_legitimate_message_end s \<longrightarrow> \<not> cis_legitimate_message_end t)"
      (is "?e \<Longrightarrow> ?R")
proof -
  have fall: "(?ok \<longrightarrow> ?P) \<and> (?ne \<longrightarrow> ?bad \<longrightarrow> ?Q) \<and> (?e \<longrightarrow> ?R)"
    if fb: "cis_buffer s < cis_buffer_end s \<longrightarrow> (\<exists>b bs. cview s = b # bs \<and> fb = ucast b \<and> (b = 0 \<or> \<not> unat b < 128))"
    and eq: "ReadTag ops s = do { (tag, s) \<leftarrow> ReadTagFallback ops fb s; Some (tag, s\<lparr>cis_last_tag := tag\<rparr>) }" for fb
  proof (intro conjI impI)
    assume ?ok
    then obtain t where "ReadTagFallback ops fb s = Some (of_nat (leb ds), t)" "cinv' t"
      "cstep (length ds) s t" "same_end s t"
      using ReadTagFallback_ok(1) [OF assms fb] by blast
    then show ?P by (simp add: eq same_end_def)
  next
    assume ?ne ?bad
    then obtain t m where "ReadTagFallback ops fb s = Some (0, t)" "cinv' t" "cstep m s t" "same_end s t"
      using ReadTagFallback_ok(2) [OF assms fb] by blast
    then show ?Q by (auto simp: eq same_end_def)
  next
    assume ?e
    then obtain t where "ReadTagFallback ops fb s = Some (0, t)" "cinv' t" "\<exists>m. cstep m s t"
        "tag_end s \<longrightarrow> cis_legitimate_message_end t"
        "\<not> tag_end s \<longrightarrow> \<not> cis_legitimate_message_end s \<longrightarrow> \<not> cis_legitimate_message_end t"
      using ReadTagFallback_ok(3) [OF assms fb] by blast
    then show ?R by (auto simp: eq)
  qed
  have "(?ok \<longrightarrow> ?P) \<and> (?ne \<longrightarrow> ?bad \<longrightarrow> ?Q) \<and> (?e \<longrightarrow> ?R)"
  proof (cases "cis_buffer s < cis_buffer_end s")
    case False
    then show ?thesis
      by (intro fall [of 0]) (simp_all add: ReadTag_def)
  next
    case True
    obtain b bs where b: "cview s = b # bs" "byte_at (cis_chunk s) (cis_buffer s) = Some b"
      using view_next_byte [OF assms True, of rest] by blast
    show ?thesis
    proof (cases "unat b < 128")
      case small: True
      note fs = first_byte_small [OF assms True b(1) small]
      from True b(2) small have "ReadTag ops s =
          Some (of_nat (leb [b]), Advance 1 (s\<lparr>cis_last_tag := of_nat (leb [b])\<rparr>))"
        unfolding fs(2) [symmetric] by (simp add: ReadTag_def next_b_def ucast_less_128)
      moreover have "Advance 1 (s\<lparr>cis_last_tag := v\<rparr>) = (Advance 1 s)\<lparr>cis_last_tag := v\<rparr>" for v
        by (simp add: Advance_def)
      ultimately show ?thesis
        using b fs(3-5) unfolding fs(1) option.inject prod.inject
        by (auto simp: same_end_def simp del: leb.simps)
    next
      case big: False
      with True b show ?thesis
        by (intro fall [of "ucast b"]) (simp_all add: ReadTag_def next_b_def ucast_less_128)
    qed
  qed
  then show "?ok \<Longrightarrow> ?P" "?ne \<Longrightarrow> ?bad \<Longrightarrow> ?Q" "?e \<Longrightarrow> ?R" by blast+
qed

lemma tag_le_cutoff: "v \<noteq> 0 \<Longrightarrow> v - 1 < cutoff \<longleftrightarrow> v \<le> cutoff" for v cutoff :: uint32
proof -
  assume "v \<noteq> 0"
  then have "unat (v - 1) = unat v - 1" "0 < unat v"
    by (simp_all add: unat_minus_one unat_gt_0)
  then show ?thesis
    by (auto simp: word_less_nat_alt word_le_nat_alt)
qed

lemma byte_ge_128: "0x80 \<le> b \<longleftrightarrow> bit b 7" "\<not> unat b < 128 \<longleftrightarrow> bit b 7" for b :: uint8
proof -
  show "\<not> unat b < 128 \<longleftrightarrow> bit b 7"
    using and_exp_eq_0_iff_not_bit [of b 7] and_128_iff [of b] by simp
  then show "0x80 \<le> b \<longleftrightarrow> bit b 7"
    by (simp add: word_le_nat_alt not_less)
qed

lemma sint_byte_pos: "0 < sint b \<longleftrightarrow> unat b < 128 \<and> b \<noteq> 0" for b :: uint8
proof -
  have "uint b mod 2 ^ 8 = uint b"
    using unsigned_less [of b, where ?'a = int] by (intro mod_pos_pos_trivial) simp_all
  then have s: "sint b = uint b - (if bit b 7 then 256 else 0)"
    by (simp add: sint_uint signed_take_bit_eq_take_bit_minus take_bit_eq_mod bit_uint_iff)
  have "b \<noteq> 0 \<longleftrightarrow> 0 < unat b"
    by (simp add: unat_gt_0)
  note facts = byte_ge_128(2) [of b] int_unat [OF refl, of b] unat_less_256 [of b]
  show ?thesis
  proof (cases "bit b 7")
    case True
    then have "\<not> 0 < sint b" "\<not> unat b < 128"
      using s facts unsigned_less [of b, where ?'a = int] by simp_all
    then show ?thesis by simp
  next
    case False
    then have "sint b = int (unat b)" "unat b < 128"
      using s facts by simp_all
    then show ?thesis
      using \<open>b \<noteq> 0 \<longleftrightarrow> 0 < unat b\<close> by (simp only: of_nat_0_less_iff simp_thms)
  qed
qed

text \<open>\<open>ReadTagWithCutoff\<close> reads the same tag as \<open>ReadTag\<close>; its flag compares it with the cutoff.\<close>

lemma ReadTagWithCutoff_ok:
  assumes "cinv' s" "varint_split 10 (cview s) = Some (ds, r)" "of_nat (leb ds) \<noteq> (0 :: uint32)"
  shows "\<exists>t. ReadTagWithCutoff ops cutoff s = Some (of_nat (leb ds), of_nat (leb ds) \<le> cutoff, t) \<and>
      cinv' t \<and> cstep (length ds) s t \<and> cis_last_tag t = of_nat (leb ds) \<and>
      cis_legitimate_message_end t = cis_legitimate_message_end s"
proof -
  have fall: ?thesis
    if fb: "cis_buffer s < cis_buffer_end s \<longrightarrow> (\<exists>b bs. cview s = b # bs \<and> fb = ucast b \<and> (b = 0 \<or> \<not> unat b < 128))"
    and eq: "ReadTagWithCutoff ops cutoff s = do {
           (tag, s) \<leftarrow> ReadTagFallback ops fb s;
           Some (tag, tag - 1 < cutoff, s\<lparr>cis_last_tag := tag\<rparr>)
         }" for fb
  proof -
    obtain t where "ReadTagFallback ops fb s = Some (of_nat (leb ds), t)" "cinv' t"
      "cstep (length ds) s t" "same_end s t"
      using ReadTagFallback_ok(1) [OF assms(1) fb assms(2)] by blast
    then show ?thesis
      using tag_le_cutoff [OF assms(3), of cutoff] by (simp add: eq same_end_def)
  qed
  show ?thesis
  proof (cases "cis_buffer s < cis_buffer_end s")
    case False
    then show ?thesis
      by (intro fall [of 0]) (simp_all add: ReadTagWithCutoff_def)
  next
    case True
    obtain b bs where b: "cview s = b # bs" "byte_at (cis_chunk s) (cis_buffer s) = Some b"
      using view_next_byte [OF assms(1) True, of rest] by blast
    note sgn = sint_byte_pos [of b]
    show ?thesis
    proof (cases "0 < sint b")
      case small: True
      then have lt: "unat b < 128" using sgn by simp
      note fs = first_byte_small [OF assms(1) True b(1) lt]
      have ds: "ds = [b]" using fs(1) assms(2) by simp
      have "cutoff \<ge> 0x7f \<or> ucast b \<le> cutoff \<longleftrightarrow> (ucast b :: uint32) \<le> cutoff"
        using lt by (auto simp: word_le_nat_alt unat_ucast_mod less_trans [OF unat_less_256])
      with True b(2) small have "ReadTagWithCutoff ops cutoff s =
          Some (of_nat (leb ds), of_nat (leb ds) \<le> cutoff, Advance 1 (s\<lparr>cis_last_tag := of_nat (leb ds)\<rparr>))"
        unfolding ds fs(2) [symmetric] by (simp add: ReadTagWithCutoff_def Let_def)
      moreover have "Advance 1 (s\<lparr>cis_last_tag := v\<rparr>) = (Advance 1 s)\<lparr>cis_last_tag := v\<rparr>" for v
        by (simp add: Advance_def)
      ultimately show ?thesis
        using fs(3-5) ds by (auto simp: same_end_def simp del: leb.simps)
    next
      case not_small: False
      then have b0: "b = 0 \<or> \<not> unat b < 128" using sgn by auto
      let ?two = "cis_buffer s + 1 < cis_buffer_end s"
      have out: ?thesis if "\<not> ?two"
        using that True b b0 not_small by (intro fall [of "ucast b"]) (simp_all add: ReadTagWithCutoff_def)
      show ?thesis
      proof (cases ?two)
        case two: True
        have "1 \<le> BufferSize s" "cis_buffer (Advance 1 s) < cis_buffer_end (Advance 1 s)"
          using two by (simp_all add: BufferSize_def)
        then obtain b1 bs' where b1: "cview (Advance 1 s) = b1 # bs'"
          "byte_at (cis_chunk s) (cis_buffer s + 1) = Some b1"
          using view_next_byte [of inv last_chunk "Advance 1 s" rest] coded_inv_Advance [OF assms(1), of 1] by auto
        have v: "cview s = b # b1 # bs'"
          using view_Advance [OF assms(1), of 1 rest] \<open>1 \<le> BufferSize s\<close> b1(1) b(1) by simp
        show ?thesis
        proof (cases "cutoff \<ge> 0x80 \<and> (b AND NOT b1) \<ge> 0x80")
          case False
          have "ReadTagWithCutoff ops cutoff s = do {
             (tag, s) \<leftarrow> ReadTagFallback ops (ucast b) s;
             Some (tag, tag - 1 < cutoff, s\<lparr>cis_last_tag := tag\<rparr>)
           }"
            using False True b(2) b1(2) not_small two by (auto simp: ReadTagWithCutoff_def)
          then show ?thesis
            using True b(1) b0 by (intro fall [of "ucast b"]) simp_all
        next
          case hot: True
          then have bb: "\<not> unat b < 128" "unat b1 < 128"
            using byte_ge_128 [of b] byte_ge_128 [of b1] byte_ge_128(1) [of "b AND NOT b1"]
            by (auto simp: bit_simps)
          have "varint_split 10 (cview s) = Some ([b, b1], bs')"
            using varint_split.simps(3) [of 9 b "b1 # bs'"] varint_split.simps(3) [of 8 b1 bs'] bb v by simp
          then have ds: "ds = [b, b1]" using assms(2) by simp
          have tag: "2 ^ 7 * ucast b1 + (ucast b - 0x80) = (of_nat (leb [b, b1]) :: uint32)"
            unfolding ucast_cont [OF bb(1)] using bb(2) by simp
          have "leb [b, b1] < 16384" using bb(2) by simp
          then have small: "unat (of_nat (leb [b, b1]) :: uint32) \<le> 16383"
            by (simp only: unat_of_nat) (simp add: less_Suc_eq_le [symmetric])
          have flag: "cutoff \<ge> push_bit 7 0x7f + 0x7f \<or> of_nat (leb [b, b1]) \<le> cutoff \<longleftrightarrow>
              (of_nat (leb [b, b1]) :: uint32) \<le> cutoff"
            using small by (auto simp: word_le_nat_alt simp del: leb.simps)
          have "ReadTagWithCutoff ops cutoff s =
            Some (of_nat (leb ds), of_nat (leb ds) \<le> cutoff, Advance 2 (s\<lparr>cis_last_tag := of_nat (leb ds)\<rparr>))"
            using True b b1 two hot not_small flag
            unfolding ds tag [symmetric] by (simp add: ReadTagWithCutoff_def Let_def)
          moreover have "Advance 2 (s\<lparr>cis_last_tag := v\<rparr>) = (Advance 2 s)\<lparr>cis_last_tag := v\<rparr>" for v
            by (simp add: Advance_def)
          moreover have "int (length ds) \<le> BufferSize s"
            using two by (simp add: ds BufferSize_def)
          ultimately show ?thesis
            using Advance_ok [OF assms(1), of "length ds"] ds
            by (auto simp: same_end_def simp del: leb.simps)
        qed
      qed (rule out)
    qed
  qed
qed

lemma ExpectTag_ok:
  assumes "cinv' s"
  shows "\<exists>b t. ExpectTag tag s = Some (b, t) \<and> cinv' t \<and> same_end s t \<and>
     (if b then cview s = WriteTagToArray tag @ cview t \<and> cstep (length (WriteTagToArray tag)) s t else t = s)"
proof -
  note I = coded_invD [OF assms]
  consider (one) "tag < 2 ^ 7" | (two) "\<not> tag < 2 ^ 7" "tag < 2 ^ 14" | (more) "\<not> tag < 2 ^ 14" "\<not> tag < 2 ^ 7"
    by (cases "tag < 2 ^ 7") auto
  then show ?thesis
  proof cases
    case one
    show ?thesis
    proof (cases "cis_buffer s < cis_buffer_end s")
      case True
      obtain b bs where b: "cview s = b # bs" "byte_at (cis_chunk s) (cis_buffer s) = Some b"
        using view_next_byte [OF assms True, of rest] by blast
      have adv: "cinv' (Advance 1 s)" "cstep 1 s (Advance 1 s)" "same_end s (Advance 1 s)"
        using Advance_ok [OF assms, of 1] True by (simp_all add: BufferSize_def)
      show ?thesis
      proof (cases "ucast b = tag")
        case eq: True
        have "b = ucast tag"
          using eq unat_less_256 [of b] unfolding word_unat_eq_iff unat_ucast_mod by simp
        then have "cview s = WriteTagToArray tag @ cview (Advance 1 s)"
          using WriteTagToArray_1 [OF one] coded_step_view [OF adv(2) assms] b(1) by simp
        moreover have "ExpectTag tag s = Some (True, Advance 1 s)"
          using eq one True b by (simp add: ExpectTag_def)
        ultimately show ?thesis
          using adv WriteTagToArray_1 [OF one] by auto
      qed (use one True b assms in \<open>auto simp: ExpectTag_def\<close>)
    qed (use one assms in \<open>auto simp: ExpectTag_def\<close>)
  next
    case two
    show ?thesis
    proof (cases "2 \<le> BufferSize s")
      case True
      have mr: "take 2 (cview s) = take 2 (drop (nat (cis_buffer s)) (cis_chunk s))"
        "nat (cis_buffer s) + 2 \<le> length (cis_chunk s)"
        using cread [OF assms, of 2] True by (auto simp: mem_read_def split: if_splits)
      obtain b0 b1 r where d: "drop (nat (cis_buffer s)) (cis_chunk s) = [b0, b1] @ r"
      proof -
        have "2 \<le> length (drop (nat (cis_buffer s)) (cis_chunk s))" using mr(2) by simp
        then show ?thesis
          using that by (cases "drop (nat (cis_buffer s)) (cis_chunk s)" rule: list.exhaust)
            (auto simp: Suc_le_length_iff eval_nat_numeral)
      qed
      have bytes: "byte_at (cis_chunk s) (cis_buffer s) = Some b0" "byte_at (cis_chunk s) (cis_buffer s + 1) = Some b1"
        using byte_at_window [OF I(1) d, of 0] byte_at_window [OF I(1) d, of 1] by simp_all
      have adv: "cinv' (Advance 2 s)" "cstep 2 s (Advance 2 s)" "same_end s (Advance 2 s)"
        using Advance_ok [OF assms, of 2] True by simp_all
      have v: "cview s = [b0, b1] @ cview (Advance 2 s)"
        using coded_step_view [OF adv(2) assms] mr(1) d append_take_drop_id [of 2 "cview s"] by simp
      note w = WriteTagToArray_2 [OF two]
      let ?hit = "b0 = ucast (tag OR 0x80) \<and> b1 = ucast (drop_bit 7 tag)"
      have eq: "ExpectTag tag s = Some (?hit, if ?hit then Advance 2 s else s)"
        using two True bytes by (simp add: ExpectTag_def)
      show ?thesis
      proof (cases ?hit)
        case True
        then have "cview s = WriteTagToArray tag @ cview (Advance 2 s)"
          using v w by simp
        moreover have "length (WriteTagToArray tag) = 2"
          by (simp add: w)
        ultimately show ?thesis
          using eq True adv by (intro exI [of _ True] exI [of _ "Advance 2 s"]) simp
      next
        case False
        then have "ExpectTag tag s = Some (False, s)"
          unfolding eq by (simp only: if_False)
        then show ?thesis
          using assms by (intro exI [of _ False] exI [of _ s]) simp
      qed
    qed (use two assms in \<open>auto simp: ExpectTag_def\<close>)
  next
    case more
    then show ?thesis using assms by (auto simp: ExpectTag_def)
  qed
qed

lemma ExpectAtEnd_ok:
  assumes "cinv' s" "ExpectAtEnd s = (b, t)"
  shows "cinv' t" "cstep 0 s t" "b \<Longrightarrow> cview s = [] \<and> cis_last_tag t = 0 \<and> cis_legitimate_message_end t"
    "\<not> b \<Longrightarrow> t = s"
proof -
  have "cview s = []" if "cis_buffer s = cis_buffer_end s" "cis_buffer_size_after_limit s \<noteq> 0 \<or> cis_total_bytes_read s = cis_current_limit s"
    using that coded_invD(4) [OF assms(1)] view_at_limit [OF assms(1)] by (simp add: BufferSize_def) linarith
  then show "cinv' t" "cstep 0 s t" "b \<Longrightarrow> cview s = [] \<and> cis_last_tag t = 0 \<and> cis_legitimate_message_end t"
    "\<not> b \<Longrightarrow> t = s"
    using assms by (auto simp: ExpectAtEnd_def split: if_splits)
qed

lemma ReadLengthAndPushLimit_ok:
  assumes "cinv' s" "varint_split 10 (cview s) = Some (ds, r)" "0 \<le> sint (of_nat (leb ds) :: uint32)"
  shows "\<exists>t. ReadLengthAndPushLimit ops s = Some (cis_current_limit s, t) \<and> cinv' t \<and>
    cview t = take (nat (sint (of_nat (leb ds) :: uint32))) r \<and>
    cunread t = drop (length ds) (cunread s)"
proof -
  obtain t where t: "ReadVarint32 ops s = Some (Some (of_nat (leb ds)), t)" "cinv' t" "cstep (length ds) s t"
    using ReadVarint32_ok(1) [OF assms(1,2)] by blast
  obtain old u where u: "PushLimit (sint (of_nat (leb ds) :: uint32)) t = (old, u)"
    by (cases "PushLimit (sint (of_nat (leb ds) :: uint32)) t")
  have "ReadLengthAndPushLimit ops s = Some (old, u)"
    unfolding ReadLengthAndPushLimit_def t(1) bind.bind_lunit prod.case option.case u ..
  moreover have "cview t = r"
    using coded_step_view [OF t(3) assms(1)] varint_split_SomeD [OF assms(2)] by simp
  ultimately show ?thesis
    using PushLimit_ok [OF t(2) u] t(3) assms(3) by (simp add: coded_step_def)
qed

section \<open>Construction and destruction\<close>

lemma CodedInputStream_ok:
  assumes "inv i"
  shows "\<exists>s. CodedInputStream ops i = Some s \<and> cinv' s \<and> cunread s = rest i \<and>
    cview s = take (nat kDefaultTotalBytesLimit) (rest i) \<and> CurrentPosition s = 0"
proof -
  let ?s = "CodedInputStream_init [] (Some i) 0 INT_MAX"
  have f: "BufferSize ?s = 0" "CurrentPosition ?s = 0" "pending ?s = []" "closest_limit ?s = kDefaultTotalBytesLimit"
    by (simp_all add: CodedInputStream_init_def BufferSize_def CurrentPosition_def pending_def
        closest_limit_def INT_MAX_def kDefaultTotalBytesLimit_def)
  have inv: "cinv' ?s"
    using assms f by (simp add: coded_inv_def input_inv_def)
      (simp add: CodedInputStream_init_def INT_MAX_def kDefaultTotalBytesLimit_def)
  have un: "cunread ?s = rest i"
    by (simp add: unread_def f beyond_def) (simp add: CodedInputStream_init_def)
  obtain b t where "Refresh ops ?s = Some (b, t)" "cinv' t" "cstep 0 ?s t" "cview t = cview ?s"
    using Refresh_step [OF inv f(1)] by blast
  then show ?thesis
    using un f by (simp add: CodedInputStream_def view_def coded_step_def)
qed

lemma CodedInputStream_flat_ok:
  assumes "int (length bs) \<le> kDefaultTotalBytesLimit"
  shows "cinv' (CodedInputStream_flat bs)" "cview (CodedInputStream_flat bs) = bs"
    "cunread (CodedInputStream_flat bs) = bs" "CurrentPosition (CodedInputStream_flat bs) = 0"
  using assms
  by (simp_all add: CodedInputStream_flat_def CodedInputStream_init_def coded_inv_def input_inv_def
      view_def unread_def pending_def beyond_def closest_limit_def BufferSize_def CurrentPosition_def
      INT_MAX_def kDefaultTotalBytesLimit_def)

lemma CodedInputStream_destroy_ok:
  assumes "cinv' s" "cis_input s = Some i"
  shows "\<exists>t j. CodedInputStream_destroy ops s = Some t \<and> cis_input t = Some j \<and> inv j \<and> rest j = cunread s"
proof -
  note I = coded_invD [OF assms(1)]
  have j: "inv i" "suffix_of (length (pending s) + nat (cis_overflow_bytes s)) (last_chunk i) =
            pending s @ suffix_of (nat (cis_overflow_bytes s)) (last_chunk i)"
      "length (pending s) + nat (cis_overflow_bytes s) \<le> length (last_chunk i)"
    using coded_inv_input_inv [OF assms(1)] by (simp_all add: input_inv_def assms(2))
  let ?k = "BufferSize s + cis_buffer_size_after_limit s + cis_overflow_bytes s"
  have k: "nat ?k = length (pending s) + nat (cis_overflow_bytes s)"
    using length_pending [OF assms(1)] I by (simp add: nat_add_distrib)
  have "\<exists>t j. BackUpInputToCurrentPosition ops s = Some t \<and> cis_input t = Some j \<and> inv j \<and> rest j = cunread s"
  proof (cases "0 < ?k")
    case False
    then have "length (pending s) + nat (cis_overflow_bytes s) = 0"
      using k by simp
    then have "cunread s = rest i"
      by (simp add: unread_def beyond_def assms(2))
    with False assms j show ?thesis
      by (simp add: BackUpInputToCurrentPosition_def Let_def)
  next
    case True
    obtain i' where "in_backup ops ?k i = Some i'" "inv i'" "rest i' = suffix_of (nat ?k) (last_chunk i) @ rest i"
      using backup_ok_int [OF j(1) True] j(3) k by auto
    with True assms(2) j(2) show ?thesis
      by (simp add: BackUpInputToCurrentPosition_def Let_def k unread_def beyond_def)
  qed
  then show ?thesis
    using assms(2) by (fastforce simp: CodedInputStream_destroy_def cis_log_add_def)
qed

end

end
