(* ===== verification/Coded_Output.thy ===== *)
theory Coded_Output
  imports Zero_Copy_Impl Varint
begin

text \<open>
  \<open>io::CodedOutputStream\<close> (\<open>io/coded_stream.h\<close>, \<open>io/coded_stream.cc\<close>). The record has one field
  per data member; \<open>buffer_\<close> is an address in the memory of the underlying output stream, and a
  store through it is the stream's \<open>out_poke\<close>. The function \<open>written\<close> abstracts a stream to the
  bytes that its target holds; the lemmas say what each operation appends to them, when it
  succeeds, and that a failure leaves a prefix. Overflow of the \<open>int\<close> counter \<open>total_bytes_\<close>
  is not modelled.
\<close>

section \<open>State\<close>

record 's coded_output =
  cos_output :: 's
  cos_buffer :: "nat option"
  cos_buffer_size :: int
  cos_total_bytes :: int
  cos_had_error :: bool
  cos_aliasing_enabled :: bool
  cos_serialization_deterministic_is_overridden :: bool
  cos_serialization_deterministic_override :: bool

definition cos_Advance :: "int \<Rightarrow> 's coded_output \<Rightarrow> 's coded_output" where
  "cos_Advance amount s =
     s\<lparr>cos_buffer := map_option (\<lambda>a. a + nat amount) (cos_buffer s),
       cos_buffer_size := cos_buffer_size s - amount\<rparr>"

definition cos_store :: "'s zc_output_ops \<Rightarrow> bytes \<Rightarrow> 's coded_output \<Rightarrow> 's coded_output option" where
  \<comment> \<open>\<open>memcpy(buffer_, data, n)\<close>; a null pointer or an overrun of the buffer is \<open>None\<close>.\<close>
  "cos_store ops bs s =
     (if bs = [] then Some s
      else if int (length bs) \<le> cos_buffer_size s then do {
        a \<leftarrow> cos_buffer s;
        Some (s\<lparr>cos_output := out_poke ops a bs (cos_output s)\<rparr>)
      }
      else None)"

section \<open>Operations\<close>

definition cos_Refresh :: "'s zc_output_ops \<Rightarrow> 's coded_output \<Rightarrow> (bool \<times> 's coded_output) option" where
  "cos_Refresh ops s =
     do {
       (r, output) \<leftarrow> out_next ops (cos_output s);
       let s = s\<lparr>cos_output := output\<rparr>;
       case r of
         Some (a, n) \<Rightarrow>
           Some (True, s\<lparr>cos_buffer := Some a, cos_buffer_size := int n,
                         cos_total_bytes := cos_total_bytes s + int n\<rparr>)
       | None \<Rightarrow> Some (False, s\<lparr>cos_buffer := None, cos_buffer_size := 0, cos_had_error := True\<rparr>)
     }"

definition CodedOutputStream_eager ::
    "'s zc_output_ops \<Rightarrow> 's \<Rightarrow> bool \<Rightarrow> 's coded_output option" where
  "CodedOutputStream_eager ops output do_eager_refresh =
     (let s = \<lparr>cos_output = output, cos_buffer = None, cos_buffer_size = 0, cos_total_bytes = 0,
               cos_had_error = False, cos_aliasing_enabled = False,
               cos_serialization_deterministic_is_overridden = False,
               cos_serialization_deterministic_override = False\<rparr> in
      if do_eager_refresh then do {
        (_, s) \<leftarrow> cos_Refresh ops s;
        Some (s\<lparr>cos_had_error := False\<rparr>)
      }
      else Some s)"

definition CodedOutputStream :: "'s zc_output_ops \<Rightarrow> 's \<Rightarrow> 's coded_output option" where
  "CodedOutputStream ops output = CodedOutputStream_eager ops output True"

definition Trim :: "'s zc_output_ops \<Rightarrow> 's coded_output \<Rightarrow> 's coded_output option" where
  "Trim ops s =
     (if cos_buffer_size s > 0 then do {
        output \<leftarrow> out_backup ops (cos_buffer_size s) (cos_output s);
        Some (s\<lparr>cos_output := output, cos_total_bytes := cos_total_bytes s - cos_buffer_size s,
                cos_buffer_size := 0, cos_buffer := None\<rparr>)
      }
      else Some s)"

definition CodedOutputStream_destroy :: "'s zc_output_ops \<Rightarrow> 's coded_output \<Rightarrow> 's coded_output option" where
  "CodedOutputStream_destroy ops s = Trim ops s"

definition EnableAliasing :: "'s zc_output_ops \<Rightarrow> bool \<Rightarrow> 's coded_output \<Rightarrow> 's coded_output" where
  "EnableAliasing ops enabled s = s\<lparr>cos_aliasing_enabled := (enabled \<and> out_allows_aliasing ops)\<rparr>"

partial_function (option) cos_Skip_loop ::
    "'s zc_output_ops \<Rightarrow> int \<Rightarrow> 's coded_output \<Rightarrow> (bool \<times> 's coded_output) option" where
  "cos_Skip_loop ops count s =
     (if count > cos_buffer_size s then do {
        (ok, t) \<leftarrow> cos_Refresh ops s;
        if \<not> ok then Some (False, t) else cos_Skip_loop ops (count - cos_buffer_size s) t
      }
      else Some (True, cos_Advance count s))"

definition cos_Skip :: "'s zc_output_ops \<Rightarrow> int \<Rightarrow> 's coded_output \<Rightarrow> (bool \<times> 's coded_output) option" where
  "cos_Skip ops count s = (if count < 0 then Some (False, s) else cos_Skip_loop ops count s)"

definition cos_GetDirectBufferPointer ::
    "'s zc_output_ops \<Rightarrow> 's coded_output \<Rightarrow> ((nat option \<times> int) option \<times> 's coded_output) option" where
  "cos_GetDirectBufferPointer ops s =
     do {
       (ok, s) \<leftarrow> (if cos_buffer_size s = 0 then cos_Refresh ops s else Some (True, s));
       Some (if ok then Some (cos_buffer s, cos_buffer_size s) else None, s)
     }"

definition GetDirectBufferForNBytesAndAdvance ::
    "int \<Rightarrow> 's coded_output \<Rightarrow> nat option \<times> 's coded_output" where
  "GetDirectBufferForNBytesAndAdvance n s =
     (if cos_buffer_size s < n then (None, s) else (cos_buffer s, cos_Advance n s))"

partial_function (option) WriteRaw ::
    "'s zc_output_ops \<Rightarrow> bytes \<Rightarrow> 's coded_output \<Rightarrow> 's coded_output option" where
  "WriteRaw ops data s =
     (if cos_buffer_size s < int (length data) then do {
        let n = nat (cos_buffer_size s);
        t \<leftarrow> cos_store ops (take n data) s;
        (ok, t) \<leftarrow> cos_Refresh ops t;
        if \<not> ok then Some t else WriteRaw ops (drop n data) t
      }
      else do {
        t \<leftarrow> cos_store ops data s;
        Some (cos_Advance (int (length data)) t)
      })"

definition WriteString :: "'s zc_output_ops \<Rightarrow> bytes \<Rightarrow> 's coded_output \<Rightarrow> 's coded_output option" where
  "WriteString ops str s = WriteRaw ops str s"

definition WriteAliasedRaw :: "'s zc_output_ops \<Rightarrow> bytes \<Rightarrow> 's coded_output \<Rightarrow> 's coded_output option" where
  "WriteAliasedRaw ops data s =
     (if int (length data) < cos_buffer_size s then WriteRaw ops data s
      else do {
        s \<leftarrow> Trim ops s;
        let s = s\<lparr>cos_total_bytes := cos_total_bytes s + int (length data)\<rparr>;
        (ok, output) \<leftarrow> out_write_aliased ops data (cos_output s);
        Some (s\<lparr>cos_output := output, cos_had_error := (cos_had_error s \<or> \<not> ok)\<rparr>)
      })"

definition WriteRawMaybeAliased ::
    "'s zc_output_ops \<Rightarrow> bytes \<Rightarrow> 's coded_output \<Rightarrow> 's coded_output option" where
  "WriteRawMaybeAliased ops data s =
     (if cos_aliasing_enabled s then WriteAliasedRaw ops data s else WriteRaw ops data s)"

definition fast_store :: "'s zc_output_ops \<Rightarrow> bytes \<Rightarrow> 's coded_output \<Rightarrow> 's coded_output option" where
  \<comment> \<open>The fast path of the integer writers: encode into \<open>buffer_\<close>, then advance by the size.\<close>
  "fast_store ops bs s =
     do { s \<leftarrow> cos_store ops bs s; Some (cos_Advance (int (length bs)) s) }"

definition WriteLittleEndian32 :: "'s zc_output_ops \<Rightarrow> uint32 \<Rightarrow> 's coded_output \<Rightarrow> 's coded_output option" where
  "WriteLittleEndian32 ops value s =
     (let use_fast = cos_buffer_size s \<ge> 4; bs = WriteLittleEndian32ToArray value in
      if use_fast then fast_store ops bs s else WriteRaw ops bs s)"

definition WriteLittleEndian64 :: "'s zc_output_ops \<Rightarrow> uint64 \<Rightarrow> 's coded_output \<Rightarrow> 's coded_output option" where
  "WriteLittleEndian64 ops value s =
     (let use_fast = cos_buffer_size s \<ge> 8; bs = WriteLittleEndian64ToArray value in
      if use_fast then fast_store ops bs s else WriteRaw ops bs s)"

definition WriteVarint32SlowPath :: "'s zc_output_ops \<Rightarrow> uint32 \<Rightarrow> 's coded_output \<Rightarrow> 's coded_output option" where
  "WriteVarint32SlowPath ops value s = WriteRaw ops (WriteVarint32ToArray value) s"

definition WriteVarint32 :: "'s zc_output_ops \<Rightarrow> uint32 \<Rightarrow> 's coded_output \<Rightarrow> 's coded_output option" where
  "WriteVarint32 ops value s =
     (if cos_buffer_size s \<ge> 5 then fast_store ops (WriteVarint32ToArray value) s
      else WriteVarint32SlowPath ops value s)"

definition WriteTag :: "'s zc_output_ops \<Rightarrow> uint32 \<Rightarrow> 's coded_output \<Rightarrow> 's coded_output option" where
  "WriteTag ops value s = WriteVarint32 ops value s"

definition WriteVarint64 :: "'s zc_output_ops \<Rightarrow> uint64 \<Rightarrow> 's coded_output \<Rightarrow> 's coded_output option" where
  "WriteVarint64 ops value s =
     (if cos_buffer_size s \<ge> int kMaxVarintBytes
      then fast_store ops (WriteVarint64ToArrayInline value) s
      else WriteRaw ops (WriteVarint64Loop value) s)"

definition WriteVarint32SignExtended ::
    "'s zc_output_ops \<Rightarrow> uint32 \<Rightarrow> 's coded_output \<Rightarrow> 's coded_output option" where
  "WriteVarint32SignExtended ops value s =
     (if sint value < 0 then WriteVarint64 ops (scast value) s else WriteVarint32 ops value s)"

definition ByteCount :: "'s coded_output \<Rightarrow> int" where
  "ByteCount s = cos_total_bytes s - cos_buffer_size s"

definition HadError :: "'s coded_output \<Rightarrow> bool" where
  "HadError s = cos_had_error s"

definition SetSerializationDeterministic :: "bool \<Rightarrow> 's coded_output \<Rightarrow> 's coded_output" where
  "SetSerializationDeterministic v s =
     s\<lparr>cos_serialization_deterministic_is_overridden := True,
       cos_serialization_deterministic_override := v\<rparr>"

definition IsSerializationDeterminstic :: "bool \<Rightarrow> 's coded_output \<Rightarrow> bool" where
  \<comment> \<open>The first argument is the static \<open>default_serialization_deterministic_\<close>.\<close>
  "IsSerializationDeterminstic dflt s =
     (if cos_serialization_deterministic_is_overridden s
      then cos_serialization_deterministic_override s else dflt)"

section \<open>Abstraction\<close>

definition written :: "('s \<Rightarrow> bytes) \<Rightarrow> 's coded_output \<Rightarrow> bytes" where
  "written content s =
     take (length (content (cos_output s)) - nat (cos_buffer_size s)) (content (cos_output s))"

definition cos_inv ::
    "('s \<Rightarrow> bool) \<Rightarrow> ('s \<Rightarrow> bytes) \<Rightarrow> ('s \<Rightarrow> nat \<Rightarrow> nat \<Rightarrow> bool) \<Rightarrow> 's coded_output \<Rightarrow> bool" where
  "cos_inv valid content window s \<longleftrightarrow>
     valid (cos_output s) \<and> 0 \<le> cos_buffer_size s \<and>
     (cos_buffer_size s = 0 \<or>
      (\<exists>w n. window (cos_output s) w n \<and> nat (cos_buffer_size s) \<le> n \<and>
             cos_buffer s = Some (w + (n - nat (cos_buffer_size s)))))"

definition available :: "('s \<Rightarrow> nat) \<Rightarrow> 's coded_output \<Rightarrow> nat" where
  "available room s = nat (cos_buffer_size s) + room (cos_output s)"

definition appended :: "('s \<Rightarrow> bytes) \<Rightarrow> bytes \<Rightarrow> 's coded_output \<Rightarrow> 's coded_output \<Rightarrow> bool" where
  "appended content bs s t \<longleftrightarrow>
     written content t = written content s @ bs \<and> ByteCount t = ByteCount s + int (length bs) \<and>
     cos_had_error t = cos_had_error s"

lemma cos_invI:
  "valid (cos_output s) \<Longrightarrow> 0 \<le> cos_buffer_size s \<Longrightarrow> window (cos_output s) w n \<Longrightarrow>
   nat (cos_buffer_size s) \<le> n \<Longrightarrow> cos_buffer s = Some (w + (n - nat (cos_buffer_size s))) \<Longrightarrow>
   cos_inv valid content window s"
  unfolding cos_inv_def by blast

lemma appended_refl [simp]: "appended content [] s s"
  by (simp add: appended_def)

lemma appended_trans:
  "appended content as s t \<Longrightarrow> appended content bs t u \<Longrightarrow> appended content (as @ bs) s u"
  by (simp add: appended_def)

text \<open>Every writer is \<open>WriteRaw\<close> of the bytes that its \<open>ToArray\<close> variant stores.\<close>

lemma WriteRaw_fast:
  "int (length bs) \<le> cos_buffer_size s \<Longrightarrow> fast_store ops bs s = WriteRaw ops bs s"
  by (subst WriteRaw.simps) (simp add: fast_store_def)

lemma WriteLittleEndian32_eq: "WriteLittleEndian32 ops v s = WriteRaw ops (WriteLittleEndian32ToArray v) s"
  by (simp add: WriteLittleEndian32_def Let_def WriteRaw_fast)

lemma WriteLittleEndian64_eq: "WriteLittleEndian64 ops v s = WriteRaw ops (WriteLittleEndian64ToArray v) s"
  by (simp add: WriteLittleEndian64_def Let_def WriteRaw_fast)

lemma WriteVarint32_eq: "WriteVarint32 ops v s = WriteRaw ops (WriteVarint32ToArray v) s"
  using length_varint_enc_32 [of v]
  by (simp add: WriteVarint32_def WriteVarint32SlowPath_def WriteRaw_fast WriteVarint32ToArray_eq)

lemma WriteVarint64_eq: "WriteVarint64 ops v s = WriteRaw ops (WriteVarint64ToArray v) s"
  using length_varint_enc_64 [of v]
  by (simp add: WriteVarint64_def WriteRaw_fast WriteVarint64ToArray_def WriteVarint64ToArrayInline_eq
      WriteVarint64Loop_eq kMaxVarintBytes_def)

lemma WriteTag_eq: "WriteTag ops v s = WriteRaw ops (WriteTagToArray v) s"
  by (simp add: WriteTag_def WriteVarint32_eq WriteTagToArray_def)

lemma WriteVarint32SignExtended_eq:
  "WriteVarint32SignExtended ops v s = WriteRaw ops (WriteVarint32SignExtendedToArray v) s"
  by (simp add: WriteVarint32SignExtended_def WriteVarint32SignExtendedToArray_def WriteVarint64_eq WriteVarint32_eq)

lemma WriteString_eq: "WriteString ops str s = WriteRaw ops (WriteStringToArray str) s"
  by (simp add: WriteString_def WriteStringToArray_def WriteRawToArray_def)

lemmas coded_write_eqs = WriteLittleEndian32_eq WriteLittleEndian64_eq WriteVarint32_eq WriteVarint64_eq
  WriteTag_eq WriteVarint32SignExtended_eq WriteString_eq

section \<open>The writers under the output contract\<close>

context zero_copy_output
begin

abbreviation "oinv \<equiv> cos_inv inv content window"
abbreviation "owritten \<equiv> written content"
abbreviation "oappended \<equiv> appended content"
abbreviation "oavail \<equiv> available room"

lemma cos_size_le: "oinv s \<Longrightarrow> nat (cos_buffer_size s) \<le> length (content (cos_output s))"
  using window_ok by (fastforce simp: cos_inv_def)

lemma cos_store_ok:
  assumes "oinv s" "int (length bs) \<le> cos_buffer_size s"
  shows "\<exists>t. cos_store ops bs s = Some t \<and> oinv t \<and> inv (cos_output t) \<and>
    room (cos_output t) = room (cos_output s) \<and> cos_buffer_size t = cos_buffer_size s \<and>
    cos_total_bytes t = cos_total_bytes s \<and> cos_had_error t = cos_had_error s \<and>
    length (content (cos_output t)) = length (content (cos_output s)) \<and>
    oinv (cos_Advance (int (length bs)) t) \<and>
    take (length (content (cos_output s)) - nat (cos_buffer_size s) + length bs) (content (cos_output t)) = owritten s @ bs"
proof (cases "bs = []")
  case True
  then show ?thesis
    using assms by (simp add: cos_store_def written_def) (simp add: cos_inv_def cos_Advance_def option.map_ident)
next
  case False
  define k where "k = nat (cos_buffer_size s)"
  have k: "cos_buffer_size s = int k" "length bs \<le> k" "0 < k"
    using assms False by (cases bs; auto simp: k_def cos_inv_def)+
  obtain w n where w: "inv (cos_output s)" "window (cos_output s) w n" "k \<le> n" "cos_buffer s = Some (w + (n - k))"
    using assms(1) k by (auto simp: cos_inv_def)
  let ?o = "out_poke ops (w + (n - k)) bs (cos_output s)"
  let ?t = "s\<lparr>cos_output := ?o\<rparr>"
  have p: "inv ?o" "window ?o w n" "room ?o = room (cos_output s)"
    "content ?o = mem_write (content (cos_output s)) (length (content (cos_output s)) - n + (n - k)) bs"
    using poke_ok [OF w(1,2), of "n - k" bs] k w(3) by simp_all
  have n: "n \<le> length (content (cos_output s))"
    using window_ok [OF w(1,2)] by simp
  then have pos: "length (content (cos_output s)) - n + (n - k) = length (content (cos_output s)) - k"
    using w(3) by simp
  have fit: "length (content (cos_output s)) - k + length bs \<le> length (content (cos_output s))"
    using k n w(3) by simp
  have "cos_store ops bs s = Some ?t"
    using False k w(4) by (simp add: cos_store_def)
  moreover have "oinv ?t" "oinv (cos_Advance (int (length bs)) ?t)"
  proof -
    have win: "cos_inv inv content window u"
      if "cos_output u = ?o" "cos_buffer_size u = int m" "m \<le> k" "cos_buffer u = Some (w + (n - m))" for u m
      by (rule cos_invI [of _ _ _ w n]) (use that p(1,2) w(3) in simp_all)
    show "oinv ?t" using w(4) k by (intro win [of _ k]) simp_all
    have "n - k + length bs = n - (k - length bs)"
      using k w(3) by simp
    then show "oinv (cos_Advance (int (length bs)) ?t)"
      using w k by (intro win [of _ "k - length bs"]) (simp_all add: cos_Advance_def add.assoc of_nat_diff)
  qed
  moreover have "take (length (content (cos_output s)) - k + length bs) (content ?o) = owritten s @ bs"
    unfolding p(4) pos using fit by (simp add: take_mem_write written_def k)
  moreover have "length (content ?o) = length (content (cos_output s))"
    unfolding p(4) pos using fit by simp
  ultimately show ?thesis
    using p k by simp
qed

lemma cos_Refresh_ok:
  assumes "oinv s"
  shows "\<exists>ok t. cos_Refresh ops s = Some (ok, t) \<and> oinv t \<and>
    owritten t = content (cos_output s) \<and> cos_total_bytes t - cos_buffer_size t = cos_total_bytes s \<and>
    (if ok then cos_had_error t = cos_had_error s \<and> 0 < cos_buffer_size t \<and> room (cos_output s) \<le> oavail t
     else cos_had_error t \<and> room (cos_output s) = 0)"
proof -
  have "inv (cos_output s)" using assms by (simp add: cos_inv_def)
  from onext_ok [OF this] obtain r o' where o': "out_next ops (cos_output s) = Some (r, o')" "inv o'"
    and law: "case r of
         None \<Rightarrow> content o' = content (cos_output s) \<and> room (cos_output s) = 0
       | Some (a, n) \<Rightarrow> 0 < n \<and> window o' a n \<and> length (content o') = length (content (cos_output s)) + n \<and>
           take (length (content (cos_output s))) (content o') = content (cos_output s) \<and>
           room (cos_output s) \<le> n + room o'"
    by blast
  show ?thesis
  proof (cases r)
    case None
    with o' law show ?thesis
      by (intro exI [of _ False]) (simp add: cos_Refresh_def, simp add: cos_inv_def written_def)
  next
    case (Some p)
    then obtain a n where r: "r = Some (a, n)" by (cases p) auto
    let ?t = "s\<lparr>cos_output := o', cos_buffer := Some a, cos_buffer_size := int n,
      cos_total_bytes := cos_total_bytes s + int n\<rparr>"
    have "cos_Refresh ops s = Some (True, ?t)"
      using o'(1) by (simp add: cos_Refresh_def r)
    moreover have "oinv ?t"
      by (rule cos_invI [of _ _ _ a n]) (use o'(2) law in \<open>simp_all add: r\<close>)
    moreover have "owritten ?t = content (cos_output s)" "0 < cos_buffer_size ?t" "room (cos_output s) \<le> oavail ?t"
      using law by (simp_all add: r written_def available_def)
    ultimately show ?thesis by (intro exI [of _ True] exI [of _ ?t]) simp
  qed
qed

lemma WriteRaw_ok:
  assumes "oinv s"
  shows "\<exists>t. WriteRaw ops data s = Some t \<and> oinv t \<and>
    (oappended data s t \<and> oavail s \<le> oavail t + length data \<or>
     cos_had_error t \<and> oavail s < length data \<and> (\<exists>k. owritten t = owritten s @ take k data))"
  using assms
proof (induction "2 * length data + (if 0 < cos_buffer_size s then 0 else 1)" arbitrary: data s rule: less_induct)
  case less
  have size: "0 \<le> cos_buffer_size s" using less.prems by (simp add: cos_inv_def)
  show ?case
  proof (cases "cos_buffer_size s < int (length data)")
    case False
    then obtain t where t: "cos_store ops data s = Some t" "oinv (cos_Advance (int (length data)) t)"
      "room (cos_output t) = room (cos_output s)" "cos_buffer_size t = cos_buffer_size s"
      "cos_total_bytes t = cos_total_bytes s" "cos_had_error t = cos_had_error s"
      "length (content (cos_output t)) = length (content (cos_output s))"
      "take (length (content (cos_output s)) - nat (cos_buffer_size s) + length data) (content (cos_output t)) = owritten s @ data"
      using cos_store_ok [OF less.prems, of data] by auto
    let ?t = "cos_Advance (int (length data)) t"
    have "length (content (cos_output s)) - nat (cos_buffer_size s - int (length data)) =
        length (content (cos_output s)) - nat (cos_buffer_size s) + length data"
      using False cos_size_le [OF less.prems] by simp
    then have "owritten ?t = owritten s @ data"
      using t(8) by (simp add: written_def cos_Advance_def t)
    moreover have "oavail s = oavail ?t + length data"
      using False t by (simp add: available_def cos_Advance_def)
    moreover have "ByteCount ?t = ByteCount s + int (length data)" "cos_had_error ?t = cos_had_error s"
      using t by (simp_all add: ByteCount_def cos_Advance_def)
    moreover have "WriteRaw ops data s = Some ?t"
      using False t(1) by (subst WriteRaw.simps) simp
    ultimately show ?thesis
      using t(2) by (simp add: appended_def)
  next
    case True
    define n where "n = nat (cos_buffer_size s)"
    have n: "cos_buffer_size s = int n" "n < length data"
      using size True by (simp_all add: n_def)
    then have "int (length (take n data)) \<le> cos_buffer_size s" by simp
    from cos_store_ok [OF less.prems this] obtain t where t: "cos_store ops (take n data) s = Some t" "oinv t"
      "room (cos_output t) = room (cos_output s)" "cos_buffer_size t = int n"
      "cos_total_bytes t = cos_total_bytes s" "cos_had_error t = cos_had_error s"
      "length (content (cos_output t)) = length (content (cos_output s))"
      "take (length (content (cos_output s)) - n + n) (content (cos_output t)) = owritten s @ take n data"
      using n by auto
    have ct: "content (cos_output t) = owritten s @ take n data"
      using t(7,8) cos_size_le [OF less.prems] n by simp
    obtain ok u where u: "cos_Refresh ops t = Some (ok, u)" "oinv u" "owritten u = owritten s @ take n data"
      "cos_total_bytes u - cos_buffer_size u = cos_total_bytes s"
      and yes: "ok \<longrightarrow> cos_had_error u = cos_had_error s \<and> 0 < cos_buffer_size u \<and> room (cos_output s) \<le> oavail u"
      and no: "\<not> ok \<longrightarrow> cos_had_error u \<and> room (cos_output s) = 0"
      using cos_Refresh_ok [OF t(2)] unfolding ct t(3,5,6) by (auto split: if_splits)
    have eq: "WriteRaw ops data s = (if ok then WriteRaw ops (drop n data) u else Some u)"
      using True n t(1) u(1) by (subst WriteRaw.simps) (simp add: Let_def)
    show ?thesis
    proof (cases ok)
      case False
      then have "oavail s < length data"
        using no n by (simp add: available_def)
      with False no eq u(2,3) show ?thesis by auto
    next
      case ok: True
      have "2 * length (drop n data) + (if 0 < cos_buffer_size u then 0 else 1)
          < 2 * length data + (if 0 < cos_buffer_size s then 0 else 1)"
        using yes ok n by auto
      from less.hyps [OF this u(2)] obtain v where v: "WriteRaw ops (drop n data) u = Some v" "oinv v"
        and res: "oappended (drop n data) u v \<and> oavail u \<le> oavail v + length (drop n data) \<or>
          cos_had_error v \<and> oavail u < length (drop n data) \<and> (\<exists>k. owritten v = owritten u @ take k (drop n data))"
        by blast
      have av: "oavail s \<le> oavail u + n"
        using yes ok n by (simp add: available_def)
      from res show ?thesis
      proof
        assume a: "oappended (drop n data) u v \<and> oavail u \<le> oavail v + length (drop n data)"
        then have "oappended data s v"
          using u(3,4) yes ok n by (simp add: appended_def ByteCount_def)
        moreover have "oavail s \<le> oavail v + length data"
          using a av n(2) by (simp add: le_diff_conv2)
        ultimately show ?thesis using eq ok v by auto
      next
        assume b: "cos_had_error v \<and> oavail u < length (drop n data) \<and> (\<exists>k. owritten v = owritten u @ take k (drop n data))"
        then obtain k where "owritten v = owritten s @ take (n + k) data"
          using u(3) by (auto simp: take_add)
        moreover have "oavail u < length data - n" using b by simp
        then have "oavail s < length data"
          using av n(2) by linarith
        ultimately show ?thesis using eq ok v b by auto
      qed
    qed
  qed
qed

lemma Trim_ok:
  assumes "oinv s"
  shows "\<exists>t. Trim ops s = Some t \<and> oinv t \<and> cos_buffer_size t = 0 \<and> content (cos_output t) = owritten s \<and>
    ByteCount t = ByteCount s \<and> cos_had_error t = cos_had_error s \<and> oappended [] s t"
proof (cases "0 < cos_buffer_size s")
  case False
  with assms have "cos_buffer_size s = 0" by (simp add: cos_inv_def)
  with assms show ?thesis by (simp add: Trim_def written_def)
next
  case True
  define k where "k = nat (cos_buffer_size s)"
  have k: "cos_buffer_size s = int k" "0 < k" using True by (simp_all add: k_def)
  obtain w n where w: "inv (cos_output s)" "window (cos_output s) w n" "k \<le> n"
    using assms k by (auto simp: cos_inv_def)
  obtain o' where "out_backup ops (int k) (cos_output s) = Some o'" "inv o'"
    "content o' = take (length (content (cos_output s)) - k) (content (cos_output s))"
    using obackup_ok [OF w(1,2) k(2) w(3)] by auto
  with k show ?thesis
    by (simp add: Trim_def) (simp add: cos_inv_def written_def ByteCount_def appended_def)
qed

lemma CodedOutputStream_ok:
  assumes "inv output"
  shows "\<exists>s. CodedOutputStream ops output = Some s \<and> oinv s \<and> owritten s = content output \<and>
    ByteCount s = 0 \<and> \<not> cos_had_error s \<and> room output \<le> oavail s"
proof -
  let ?s = "\<lparr>cos_output = output, cos_buffer = None, cos_buffer_size = 0, cos_total_bytes = 0,
     cos_had_error = False, cos_aliasing_enabled = False,
     cos_serialization_deterministic_is_overridden = False, cos_serialization_deterministic_override = False\<rparr>"
  have inv: "oinv ?s" using assms by (simp add: cos_inv_def)
  obtain ok t where t: "cos_Refresh ops ?s = Some (ok, t)" "oinv t" "owritten t = content output"
    "cos_total_bytes t - cos_buffer_size t = 0"
    and "if ok then room output \<le> oavail t else room output = 0"
    using cos_Refresh_ok [OF inv] by (auto split: if_splits)
  have "oinv (t\<lparr>cos_had_error := False\<rparr>)" "owritten (t\<lparr>cos_had_error := False\<rparr>) = owritten t"
    "oavail (t\<lparr>cos_had_error := False\<rparr>) = oavail t"
    using t(2) by (simp_all add: cos_inv_def written_def available_def)
  then show ?thesis
    using t \<open>if ok then room output \<le> oavail t else room output = 0\<close>
    by (auto simp: CodedOutputStream_def CodedOutputStream_eager_def ByteCount_def split: if_splits)
qed

lemma WriteAliasedRaw_ok:
  assumes "oinv s" "out_allows_aliasing ops"
  shows "\<exists>t. WriteAliasedRaw ops data s = Some t \<and> oinv t \<and>
    (\<not> cos_had_error t \<longrightarrow> \<not> cos_had_error s \<and> owritten t = owritten s @ data \<and>
      ByteCount t = ByteCount s + int (length data))"
proof (cases "int (length data) < cos_buffer_size s")
  case True
  then show ?thesis
    using WriteRaw_ok [OF assms(1), of data] by (auto simp: WriteAliasedRaw_def appended_def)
next
  case False
  obtain t where t: "Trim ops s = Some t" "oinv t" "cos_buffer_size t = 0"
    "content (cos_output t) = owritten s" "ByteCount t = ByteCount s" "cos_had_error t = cos_had_error s"
    using Trim_ok [OF assms(1)] by blast
  then have "inv (cos_output t)" by (simp add: cos_inv_def)
  from aliased_ok [OF this assms(2)] obtain b o' where "out_write_aliased ops data (cos_output t) = Some (b, o')"
    "inv o'" "b \<longrightarrow> content o' = content (cos_output t) @ data" by blast
  with False t show ?thesis
    by (simp add: WriteAliasedRaw_def) (auto simp: cos_inv_def written_def ByteCount_def)
qed

end

section \<open>Sequences of writes\<close>

text \<open>Aliasing is never switched by a write.\<close>

lemma cos_store_aliasing:
  "cos_store ops bs s = Some t \<Longrightarrow> cos_aliasing_enabled t = cos_aliasing_enabled s"
  by (auto simp: cos_store_def bind_eq_Some split: if_splits)

lemma cos_Refresh_aliasing:
  "cos_Refresh ops s = Some (ok, t) \<Longrightarrow> cos_aliasing_enabled t = cos_aliasing_enabled s"
  by (auto simp: cos_Refresh_def bind_eq_Some Let_def split: option.splits)

lemma cos_Advance_aliasing [simp]: "cos_aliasing_enabled (cos_Advance n s) = cos_aliasing_enabled s"
  by (simp add: cos_Advance_def)

lemma WriteRaw_aliasing:
  assumes "WriteRaw ops data s = Some t"
  shows "cos_aliasing_enabled t = cos_aliasing_enabled s"
proof (rule WriteRaw.raw_induct [OF _ assms, where P = "\<lambda>_ _ s t. cos_aliasing_enabled t = cos_aliasing_enabled s"])
  fix rec :: "'a zc_output_ops \<Rightarrow> bytes \<Rightarrow> 'a coded_output \<Rightarrow> 'a coded_output option"
    and ops data s t
  assume IH: "\<And>ops data s t. rec ops data s = Some t \<Longrightarrow> cos_aliasing_enabled t = cos_aliasing_enabled s"
    and body: "(if cos_buffer_size s < int (length data) then
        let n = nat (cos_buffer_size s)
        in cos_store ops (take n data) s \<bind>
           (\<lambda>t. cos_Refresh ops t \<bind> (\<lambda>(ok, t). if \<not> ok then Some t else rec ops (drop n data) t))
      else cos_store ops data s \<bind> (\<lambda>t. Some (cos_Advance (int (length data)) t))) = Some t"
  show "cos_aliasing_enabled t = cos_aliasing_enabled s"
  proof (cases "cos_buffer_size s < int (length data)")
    case True
    with body obtain x ok y where "cos_store ops (take (nat (cos_buffer_size s)) data) s = Some x"
        "cos_Refresh ops x = Some (ok, y)"
        "if ok then rec ops (drop (nat (cos_buffer_size s)) data) y = Some t else t = y"
      by (auto simp: bind_eq_Some Let_def split: if_splits)
    then show ?thesis
      using IH cos_store_aliasing cos_Refresh_aliasing by (metis (full_types))
  next
    case False
    with body show ?thesis
      by (auto simp: bind_eq_Some cos_store_aliasing)
  qed
qed

lemma WriteAliasedRaw_aliasing:
  "WriteAliasedRaw ops data s = Some t \<Longrightarrow> cos_aliasing_enabled t = cos_aliasing_enabled s"
  using WriteRaw_aliasing [of ops data s t]
  by (auto simp: WriteAliasedRaw_def Trim_def bind_eq_Some Let_def split: if_splits)

context zero_copy_output
begin

definition emits :: "bytes \<Rightarrow> 's coded_output \<Rightarrow> 's coded_output option \<Rightarrow> bool" where
  \<comment> \<open>The result \<open>r\<close> of a writer started in \<open>s\<close>: it does not get stuck; the bytes \<open>bs\<close> follow what
    was written before, or the error flag is set, and it is set for want of room only.\<close>
  "emits bs s r \<longleftrightarrow> (\<exists>t. r = Some t \<and> oinv t \<and> cos_aliasing_enabled t = cos_aliasing_enabled s \<and>
     (\<not> cos_had_error t \<longrightarrow> \<not> cos_had_error s \<and> oappended bs s t) \<and>
     (\<not> cos_aliasing_enabled s \<longrightarrow>
        (\<not> cos_had_error t \<longrightarrow> oavail s \<le> oavail t + length bs) \<and>
        (\<not> cos_had_error s \<and> length bs \<le> oavail s \<longrightarrow> \<not> cos_had_error t)))"

lemma emitsE:
  assumes "emits bs s r"
  obtains t where "r = Some t" "oinv t" "cos_aliasing_enabled t = cos_aliasing_enabled s"
    "\<not> cos_had_error t \<longrightarrow> \<not> cos_had_error s \<and> oappended bs s t"
    "\<not> cos_aliasing_enabled s \<longrightarrow> \<not> cos_had_error t \<longrightarrow> oavail s \<le> oavail t + length bs"
    "\<not> cos_aliasing_enabled s \<longrightarrow> \<not> cos_had_error s \<and> length bs \<le> oavail s \<longrightarrow> \<not> cos_had_error t"
  using assms unfolding emits_def by blast

lemma emits_return: "oinv s \<Longrightarrow> emits [] s (Some s)"
  by (simp add: emits_def)

lemma emits_bind:
  assumes "emits as s r" "\<And>t. oinv t \<Longrightarrow> cos_aliasing_enabled t = cos_aliasing_enabled s \<Longrightarrow> emits bs t (g t)"
  shows "emits (as @ bs) s (r \<bind> g)"
proof -
  from assms(1) obtain t where t: "r = Some t" "oinv t" "cos_aliasing_enabled t = cos_aliasing_enabled s"
    "\<not> cos_had_error t \<longrightarrow> \<not> cos_had_error s \<and> oappended as s t"
    "\<not> cos_aliasing_enabled s \<longrightarrow> \<not> cos_had_error t \<longrightarrow> oavail s \<le> oavail t + length as"
    "\<not> cos_aliasing_enabled s \<longrightarrow> \<not> cos_had_error s \<and> length as \<le> oavail s \<longrightarrow> \<not> cos_had_error t"
    by (rule emitsE)
  from assms(2) [OF t(2,3)] obtain u where u: "g t = Some u" "oinv u" "cos_aliasing_enabled u = cos_aliasing_enabled t"
    "\<not> cos_had_error u \<longrightarrow> \<not> cos_had_error t \<and> oappended bs t u"
    "\<not> cos_aliasing_enabled t \<longrightarrow> \<not> cos_had_error u \<longrightarrow> oavail t \<le> oavail u + length bs"
    "\<not> cos_aliasing_enabled t \<longrightarrow> \<not> cos_had_error t \<and> length bs \<le> oavail t \<longrightarrow> \<not> cos_had_error u"
    by (rule emitsE)
  have app: "\<not> cos_had_error u \<longrightarrow> \<not> cos_had_error s \<and> oappended (as @ bs) s u"
    using t(4) u(4) appended_trans by blast
  have room: "\<not> cos_aliasing_enabled s \<longrightarrow> \<not> cos_had_error u \<longrightarrow> oavail s \<le> oavail u + length (as @ bs)"
    using t(3,5) u(4,5) by auto
  have "\<not> cos_aliasing_enabled s \<longrightarrow> \<not> cos_had_error s \<and> length (as @ bs) \<le> oavail s \<longrightarrow> \<not> cos_had_error u"
    using t(3,5,6) u(6) by auto
  with t(1,3) u(1,2,3) app room show ?thesis
    unfolding emits_def by simp
qed

lemma emits_bind_eq:
  "emits as s r \<Longrightarrow> (\<And>t. oinv t \<Longrightarrow> cos_aliasing_enabled t = cos_aliasing_enabled s \<Longrightarrow> emits bs t (g t)) \<Longrightarrow>
   cs = as @ bs \<Longrightarrow> emits cs s (r \<bind> g)"
  by (simp add: emits_bind)

lemma WriteRaw_emits:
  assumes "oinv s"
  shows "emits bs s (WriteRaw ops bs s)"
proof -
  obtain t where t: "WriteRaw ops bs s = Some t" "oinv t"
      "oappended bs s t \<and> oavail s \<le> oavail t + length bs \<or>
       cos_had_error t \<and> oavail s < length bs"
    using WriteRaw_ok [OF assms, of bs] by blast
  moreover from WriteRaw_aliasing [OF t(1)] have "cos_aliasing_enabled t = cos_aliasing_enabled s" .
  ultimately show ?thesis
    unfolding emits_def by (auto simp: appended_def)
qed

lemma coded_write_emits:
  assumes "oinv s"
  shows "emits (WriteVarint32ToArray v) s (WriteVarint32 ops v s)"
    "emits (WriteVarint64ToArray w) s (WriteVarint64 ops w s)"
    "emits (WriteLittleEndian32ToArray v) s (WriteLittleEndian32 ops v s)"
    "emits (WriteLittleEndian64ToArray w) s (WriteLittleEndian64 ops w s)"
    "emits (WriteVarint32SignExtendedToArray v) s (WriteVarint32SignExtended ops v s)"
    "emits (WriteTagToArray v) s (WriteTag ops v s)"
    "emits bs s (WriteString ops bs s)"
  using assms by (simp_all add: coded_write_eqs WriteRaw_emits WriteStringToArray_def WriteRawToArray_def)

lemma WriteRawMaybeAliased_emits:
  assumes "oinv s" "cos_aliasing_enabled s \<longrightarrow> out_allows_aliasing ops"
  shows "emits bs s (WriteRawMaybeAliased ops bs s)"
proof (cases "cos_aliasing_enabled s")
  case True
  with assms obtain t where t: "WriteAliasedRaw ops bs s = Some t" "oinv t"
      "\<not> cos_had_error t \<longrightarrow> \<not> cos_had_error s \<and> owritten t = owritten s @ bs \<and>
        ByteCount t = ByteCount s + int (length bs)"
    using WriteAliasedRaw_ok [of s bs] by blast
  moreover from WriteAliasedRaw_aliasing [OF t(1)] have "cos_aliasing_enabled t = cos_aliasing_enabled s" .
  ultimately show ?thesis
    using True by (auto simp: emits_def WriteRawMaybeAliased_def appended_def)
next
  case False
  with assms show ?thesis
    by (simp add: WriteRawMaybeAliased_def WriteRaw_emits)
qed

end

end
