(* ===== verification/Repeated_Field.thy ===== *)
theory Repeated_Field
  imports Wire_Prelude
begin

text \<open>
  \<open>RepeatedField<Element>\<close> of \<open>repeated_field.h\<close>: the growable array in which the generated
  messages and the field readers keep repeated primitive fields.

  The record has the three data members. \<open>rep_\<close> is \<open>None\<close> for the null pointer; the storage it
  points to is a list as long as the allocation, so the elements behind \<open>current_size_\<close> are part
  of the model. An access outside the allocation or through the null pointer is \<open>None\<close>, as is the
  overflow of the \<open>int\<close> product in \<open>Reserve\<close>. The value of a freshly constructed \<open>Element()\<close> is
  the parameter \<open>e0\<close>. Two objects passed to one function are distinct ones; the tests for
  \<open>this == other\<close> are not modelled.
\<close>

section \<open>State\<close>

record 'a rf_rep =
  rep_arena :: "nat option"
  rep_elements :: "'a list"

record 'a repeated_field =
  rf_current_size :: int
  rf_total_size :: int
  rf_rep :: "'a rf_rep option"

definition kMinRepeatedFieldAllocationSize :: int where
  "kMinRepeatedFieldAllocationSize = 4"

definition RepeatedField :: "nat option \<Rightarrow> 'a repeated_field" where
  \<comment> \<open>The constructors; the one without an argument has no arena.\<close>
  "RepeatedField arena =
     \<lparr>rf_current_size = 0, rf_total_size = 0,
      rf_rep = map_option (\<lambda>a. \<lparr>rep_arena = Some a, rep_elements = []\<rparr>) arena\<rparr>"

definition rf_GetArena :: "'a repeated_field \<Rightarrow> nat option" where
  "rf_GetArena s = (case rf_rep s of None \<Rightarrow> None | Some rep \<Rightarrow> rep_arena rep)"

definition rf_empty :: "'a repeated_field \<Rightarrow> bool" where
  "rf_empty s \<longleftrightarrow> rf_current_size s = 0"

definition rf_size :: "'a repeated_field \<Rightarrow> int" where
  "rf_size s = rf_current_size s"

definition rf_Capacity :: "'a repeated_field \<Rightarrow> int" where
  "rf_Capacity s = rf_total_size s"

section \<open>Access\<close>

definition rf_Get :: "int \<Rightarrow> 'a repeated_field \<Rightarrow> 'a option" where
  "rf_Get index s =
     do {
       rep \<leftarrow> rf_rep s;
       if 0 \<le> index \<and> nat index < length (rep_elements rep)
       then Some (rep_elements rep ! nat index) else None
     }"

definition rf_Set :: "int \<Rightarrow> 'a \<Rightarrow> 'a repeated_field \<Rightarrow> 'a repeated_field option" where
  "rf_Set index value s =
     do {
       rep \<leftarrow> rf_rep s;
       if 0 \<le> index \<and> nat index < length (rep_elements rep)
       then Some (s\<lparr>rf_rep := Some (rep\<lparr>rep_elements := (rep_elements rep)[nat index := value]\<rparr>)\<rparr>)
       else None
     }"

definition rf_CopyArray :: "'a list \<Rightarrow> int \<Rightarrow> 'a list \<Rightarrow> int \<Rightarrow> 'a list option" where
  \<comment> \<open>\<open>CopyArray(to + at, from, array_size)\<close>\<close>
  "rf_CopyArray to at from array_size =
     (if 0 \<le> at \<and> 0 \<le> array_size \<and> array_size \<le> int (length from) \<and>
         at + array_size \<le> int (length to)
      then Some (take (nat at) to @ take (nat array_size) from @ drop (nat (at + array_size)) to)
      else None)"

section \<open>Growing and shrinking\<close>

definition rf_Reserve :: "'a \<Rightarrow> int \<Rightarrow> 'a repeated_field \<Rightarrow> 'a repeated_field option" where
  "rf_Reserve e0 new_size s =
     (if rf_total_size s \<ge> new_size then Some s
      else if rf_total_size s * 2 > INT_MAX then None
      else do {
        let old_rep = rf_rep s;
        let arena = rf_GetArena s;
        let new_size = max kMinRepeatedFieldAllocationSize (max (rf_total_size s * 2) new_size);
        let elements = replicate (nat new_size) e0;
        elements \<leftarrow> (if rf_current_size s > 0 then do {
                       old \<leftarrow> old_rep;
                       rf_CopyArray elements 0 (rep_elements old) (rf_current_size s)
                     }
                     else Some elements);
        Some (s\<lparr>rf_total_size := new_size,
                rf_rep := Some \<lparr>rep_arena = arena, rep_elements = elements\<rparr>\<rparr>)
      })"

definition rf_AddAlreadyReserved :: "'a \<Rightarrow> 'a repeated_field \<Rightarrow> 'a repeated_field option" where
  "rf_AddAlreadyReserved value s =
     do {
       t \<leftarrow> rf_Set (rf_current_size s) value s;
       Some (t\<lparr>rf_current_size := rf_current_size s + 1\<rparr>)
     }"

definition rf_Add :: "'a \<Rightarrow> 'a \<Rightarrow> 'a repeated_field \<Rightarrow> 'a repeated_field option" where
  "rf_Add e0 value s =
     do {
       s \<leftarrow> (if rf_current_size s = rf_total_size s then rf_Reserve e0 (rf_total_size s + 1) s
             else Some s);
       s' \<leftarrow> rf_Set (rf_current_size s) value s;
       Some (s'\<lparr>rf_current_size := rf_current_size s + 1\<rparr>)
     }"

definition rf_RemoveLast :: "'a repeated_field \<Rightarrow> 'a repeated_field" where
  "rf_RemoveLast s = s\<lparr>rf_current_size := rf_current_size s - 1\<rparr>"

definition rf_Truncate :: "int \<Rightarrow> 'a repeated_field \<Rightarrow> 'a repeated_field" where
  "rf_Truncate new_size s =
     (if rf_current_size s > 0 then s\<lparr>rf_current_size := new_size\<rparr> else s)"

definition rf_Resize :: "'a \<Rightarrow> int \<Rightarrow> 'a \<Rightarrow> 'a repeated_field \<Rightarrow> 'a repeated_field option" where
  "rf_Resize e0 new_size value s =
     do {
       s \<leftarrow> (if new_size > rf_current_size s then do {
               s \<leftarrow> rf_Reserve e0 new_size s;
               rep \<leftarrow> rf_rep s;
               let n = new_size - rf_current_size s;
               elements \<leftarrow> rf_CopyArray (rep_elements rep) (rf_current_size s) (replicate (nat n) value) n;
               Some (s\<lparr>rf_rep := Some (rep\<lparr>rep_elements := elements\<rparr>)\<rparr>)
             }
             else Some s);
       Some (s\<lparr>rf_current_size := new_size\<rparr>)
     }"

definition rf_Clear :: "'a repeated_field \<Rightarrow> 'a repeated_field" where
  "rf_Clear s = s\<lparr>rf_current_size := 0\<rparr>"

section \<open>Subranges\<close>

fun rf_slide :: "nat \<Rightarrow> int \<Rightarrow> int \<Rightarrow> 'a repeated_field \<Rightarrow> 'a repeated_field option" where
  \<comment> \<open>\<open>for (int i = start + num; i < current_size_; ++i) Set(i - num, Get(i));\<close> with the number of
    rounds left as first argument; \<open>Set\<close> leaves \<open>current_size_\<close> alone.\<close>
  "rf_slide 0 i num s = Some s"
| "rf_slide (Suc n) i num s = do {
     v \<leftarrow> rf_Get i s;
     s \<leftarrow> rf_Set (i - num) v s;
     rf_slide n (i + 1) num s
   }"

definition rf_read_range :: "int \<Rightarrow> int \<Rightarrow> 'a repeated_field \<Rightarrow> 'a list option" where
  \<comment> \<open>The values the first loop of \<open>ExtractSubrange\<close> copies out.\<close>
  "rf_read_range start num s = those (map (\<lambda>i. rf_Get (int i + start) s) [0..<nat num])"

definition rf_ExtractSubrange ::
    "int \<Rightarrow> int \<Rightarrow> bool \<Rightarrow> 'a repeated_field \<Rightarrow> ('a list \<times> 'a repeated_field) option" where
  \<comment> \<open>The flag says whether \<open>elements\<close> is not null; the list is what it receives.\<close>
  "rf_ExtractSubrange start num want s =
     do {
       out \<leftarrow> (if want then rf_read_range start num s else Some []);
       s \<leftarrow> (if num > 0 then do {
               s \<leftarrow> rf_slide (nat (rf_current_size s - (start + num))) (start + num) num s;
               Some (rf_Truncate (rf_current_size s - num) s)
             }
             else Some s);
       Some (out, s)
     }"

definition rf_erase :: "int \<Rightarrow> int \<Rightarrow> 'a repeated_field \<Rightarrow> (int \<times> 'a repeated_field) option" where
  \<comment> \<open>The iterators \<open>first\<close> and \<open>last\<close> are offsets from \<open>begin()\<close>, as is the returned one;
    \<open>std::copy\<close> wants its target not after its source.\<close>
  "rf_erase position to s =
     do {
       s \<leftarrow> (if position \<noteq> to then do {
               rep \<leftarrow> rf_rep s;
               let n = rf_current_size s - to;
               elements \<leftarrow> (if 0 \<le> to \<and> position \<le> to
                             then rf_CopyArray (rep_elements rep) position (drop (nat to) (rep_elements rep)) n
                            else None);
               Some (rf_Truncate (position + n) (s\<lparr>rf_rep := Some (rep\<lparr>rep_elements := elements\<rparr>)\<rparr>))
             }
             else Some s);
       Some (position, s)
     }"

section \<open>Merging and swapping\<close>

definition rf_UnsafeMergeFrom ::
    "'a \<Rightarrow> 'a repeated_field \<Rightarrow> 'a repeated_field \<Rightarrow> 'a repeated_field option" where
  "rf_UnsafeMergeFrom e0 other s =
     (if rf_current_size other \<noteq> 0 then do {
        s \<leftarrow> rf_Reserve e0 (rf_current_size s + rf_current_size other) s;
        rep \<leftarrow> rf_rep s;
        other_rep \<leftarrow> rf_rep other;
        elements \<leftarrow> rf_CopyArray (rep_elements rep) (rf_current_size s) (rep_elements other_rep)
                     (rf_current_size other);
        Some (s\<lparr>rf_rep := Some (rep\<lparr>rep_elements := elements\<rparr>),
                rf_current_size := rf_current_size s + rf_current_size other\<rparr>)
      }
      else Some s)"

definition rf_MergeFrom ::
    "'a \<Rightarrow> 'a repeated_field \<Rightarrow> 'a repeated_field \<Rightarrow> 'a repeated_field option" where
  "rf_MergeFrom e0 other s = rf_UnsafeMergeFrom e0 other s"

definition rf_CopyFrom ::
    "'a \<Rightarrow> 'a repeated_field \<Rightarrow> 'a repeated_field \<Rightarrow> 'a repeated_field option" where
  "rf_CopyFrom e0 other s = rf_MergeFrom e0 other (rf_Clear s)"

definition rf_InternalSwap ::
    "'a repeated_field \<Rightarrow> 'a repeated_field \<Rightarrow> 'a repeated_field \<times> 'a repeated_field" where
  \<comment> \<open>This object first, the other one second.\<close>
  "rf_InternalSwap s other =
     (s\<lparr>rf_rep := rf_rep other, rf_current_size := rf_current_size other,
        rf_total_size := rf_total_size other\<rparr>,
      other\<lparr>rf_rep := rf_rep s, rf_current_size := rf_current_size s,
        rf_total_size := rf_total_size s\<rparr>)"

definition rf_Swap ::
    "'a \<Rightarrow> 'a repeated_field \<Rightarrow> 'a repeated_field \<Rightarrow> ('a repeated_field \<times> 'a repeated_field) option" where
  "rf_Swap e0 s other =
     (if rf_GetArena s = rf_GetArena other then Some (rf_InternalSwap s other)
      else do {
        temp \<leftarrow> rf_MergeFrom e0 s (RepeatedField (rf_GetArena other));
        s \<leftarrow> rf_CopyFrom e0 other s;
        let (other, _) = rf_InternalSwap other temp;
        Some (s, other)
      })"

definition rf_SwapElements :: "int \<Rightarrow> int \<Rightarrow> 'a repeated_field \<Rightarrow> 'a repeated_field option" where
  "rf_SwapElements index1 index2 s =
     do {
       v1 \<leftarrow> rf_Get index1 s;
       v2 \<leftarrow> rf_Get index2 s;
       s \<leftarrow> rf_Set index1 v2 s;
       rf_Set index2 v1 s
     }"

fun rf_add_all :: "'a \<Rightarrow> 'a list \<Rightarrow> 'a repeated_field \<Rightarrow> 'a repeated_field option" where
  "rf_add_all e0 [] s = Some s"
| "rf_add_all e0 (v # vs) s = do { s \<leftarrow> rf_Add e0 v s; rf_add_all e0 vs s }"

fun rf_add_all_reserved :: "'a list \<Rightarrow> 'a repeated_field \<Rightarrow> 'a repeated_field option" where
  "rf_add_all_reserved [] s = Some s"
| "rf_add_all_reserved (v # vs) s = do { s \<leftarrow> rf_AddAlreadyReserved v s; rf_add_all_reserved vs s }"

definition RepeatedField_range :: "'a \<Rightarrow> bool \<Rightarrow> 'a list \<Rightarrow> 'a repeated_field option" where
  \<comment> \<open>The iterator constructor; the flag says whether the iterators are forward iterators, for
    which \<open>CalculateReserve\<close> is their distance, and -1 otherwise.\<close>
  "RepeatedField_range e0 forward vs =
     (let s = RepeatedField None; reserve = (if forward then int (length vs) else -1) in
      if reserve \<noteq> -1 then do { s \<leftarrow> rf_Reserve e0 reserve s; rf_add_all_reserved vs s }
      else rf_add_all e0 vs s)"

definition rf_SpaceUsedExcludingSelf :: "int \<Rightarrow> int \<Rightarrow> 'a repeated_field \<Rightarrow> int" where
  \<comment> \<open>Given \<open>sizeof(Element)\<close> and \<open>kRepHeaderSize\<close>.\<close>
  "rf_SpaceUsedExcludingSelf sizeof_Element kRepHeaderSize s =
     (if rf_rep s \<noteq> None then rf_total_size s * sizeof_Element + kRepHeaderSize else 0)"


section \<open>Invariant and abstraction\<close>

definition rf_inv :: "'a repeated_field \<Rightarrow> bool" where
  "rf_inv s \<longleftrightarrow> 0 \<le> rf_current_size s \<and> rf_current_size s \<le> rf_total_size s \<and>
     (case rf_rep s of None \<Rightarrow> rf_total_size s = 0
      | Some rep \<Rightarrow> rf_total_size s = int (length (rep_elements rep)))"

definition rf_list :: "'a repeated_field \<Rightarrow> 'a list" where
  "rf_list s = (case rf_rep s of None \<Rightarrow> []
     | Some rep \<Rightarrow> take (nat (rf_current_size s)) (rep_elements rep))"

lemma rf_invE:
  assumes "rf_inv s"
  obtains (null) "rf_rep s = None" "rf_current_size s = 0" "rf_total_size s = 0" "rf_list s = []"
  | (rep) a es n where "rf_rep s = Some \<lparr>rep_arena = a, rep_elements = es\<rparr>"
      "rf_current_size s = int n" "n \<le> length es" "rf_total_size s = int (length es)"
      "rf_list s = take n es"
proof (cases "rf_rep s")
  case None
  with assms show ?thesis
    by (intro null) (auto simp: rf_inv_def rf_list_def)
next
  case (Some rep)
  with assms show ?thesis
    by (intro rep [of "rep_arena rep" "rep_elements rep" "nat (rf_current_size s)"])
      (auto simp: rf_inv_def rf_list_def)
qed

lemma rf_size_list: "rf_inv s \<Longrightarrow> rf_size s = int (length (rf_list s))"
  by (erule rf_invE) (auto simp: rf_size_def)

lemma rf_Get_list: "rf_inv s \<Longrightarrow> i < length (rf_list s) \<Longrightarrow> rf_Get (int i) s = Some (rf_list s ! i)"
  by (erule rf_invE) (auto simp: rf_Get_def)

lemma RepeatedField_ok: "rf_inv (RepeatedField a)" "rf_list (RepeatedField a) = []"
  by (simp_all add: RepeatedField_def rf_inv_def rf_list_def split: option.split)

lemma rf_inv_rep:
  "rf_inv \<lparr>rf_current_size = int n, rf_total_size = int m, rf_rep = Some \<lparr>rep_arena = a, rep_elements = es\<rparr>, \<dots> = z\<rparr>
     \<longleftrightarrow> n \<le> m \<and> m = length es"
  by (auto simp: rf_inv_def)

lemma rf_Set_ok:
  assumes "rf_inv s" "0 \<le> i" "nat i < length (rf_list s)"
  shows "\<exists>t. rf_Set i v s = Some t \<and> rf_inv t \<and> rf_list t = (rf_list s)[nat i := v] \<and>
    rf_current_size t = rf_current_size s \<and> rf_total_size t = rf_total_size s"
  using assms by (elim rf_invE) (auto simp: rf_Set_def rf_inv_def rf_list_def take_update_swap)

lemma rf_Reserve_ok:
  assumes "rf_inv s" "rf_total_size s \<le> 2 ^ 30 - 1" "n \<le> 2 ^ 31 - 1"
  shows "\<exists>t. rf_Reserve e0 n s = Some t \<and> rf_inv t \<and> rf_list t = rf_list s \<and>
    rf_current_size t = rf_current_size s \<and> n \<le> rf_total_size t \<and> rf_total_size s \<le> rf_total_size t \<and>
    rf_GetArena t = rf_GetArena s"
proof (cases "rf_total_size s \<ge> n")
  case True
  with assms show ?thesis by (simp add: rf_Reserve_def)
next
  case False
  then have small: "\<not> rf_total_size s * 2 > INT_MAX"
    using assms by (simp add: INT_MAX_def)
  show ?thesis
    using assms(1)
  proof (cases rule: rf_invE)
    case null
    with False show ?thesis
      by (simp add: rf_Reserve_def Let_def INT_MAX_def rf_inv_def rf_list_def rf_GetArena_def
          kMinRepeatedFieldAllocationSize_def)
  next
    case (rep a es k)
    with False small show ?thesis
      by (auto simp: rf_Reserve_def Let_def rf_inv_def rf_list_def rf_GetArena_def rf_CopyArray_def
          kMinRepeatedFieldAllocationSize_def max_def)
  qed
qed

section \<open>Behaviour of the operations\<close>

text \<open>An addition needs a total size below half of \<open>INT_MAX\<close>; beyond it the doubling overflows.\<close>

lemma rf_AddAlreadyReserved_ok:
  assumes "rf_inv s" "rf_current_size s < rf_total_size s"
  shows "\<exists>t. rf_AddAlreadyReserved v s = Some t \<and> rf_inv t \<and> rf_list t = rf_list s @ [v] \<and>
    rf_current_size t = rf_current_size s + 1 \<and> rf_total_size t = rf_total_size s"
  using assms
  by (elim rf_invE)
    (auto simp: rf_AddAlreadyReserved_def rf_Set_def rf_inv_def rf_list_def nat_add_distrib take_Suc_conv_app_nth)

lemma rf_Add_eq:
  "rf_Add e0 v s = (if rf_current_size s = rf_total_size s then rf_Reserve e0 (rf_total_size s + 1) s
     else Some s) \<bind> rf_AddAlreadyReserved v"
  by (simp add: rf_Add_def rf_AddAlreadyReserved_def [abs_def])

lemma rf_Add_ok:
  assumes "rf_inv s" "rf_current_size s \<le> 2 ^ 30 - 1"
  shows "\<exists>t. rf_Add e0 v s = Some t \<and> rf_inv t \<and> rf_list t = rf_list s @ [v] \<and>
    rf_current_size t = rf_current_size s + 1 \<and> rf_total_size s \<le> rf_total_size t"
proof (cases "rf_current_size s = rf_total_size s")
  case True
  then obtain t where t: "rf_Reserve e0 (rf_total_size s + 1) s = Some t" "rf_inv t" "rf_list t = rf_list s"
      "rf_current_size t = rf_current_size s" "rf_total_size s + 1 \<le> rf_total_size t"
    using rf_Reserve_ok [OF assms(1), of "rf_total_size s + 1" e0] assms(2) by auto
  with True rf_AddAlreadyReserved_ok [of t v] show ?thesis
    by (auto simp: rf_Add_eq)
next
  case False
  with assms rf_AddAlreadyReserved_ok [of s v] show ?thesis
    by (auto simp: rf_Add_eq rf_inv_def)
qed

lemma rf_add_all_reserved_ok:
  "rf_inv s \<Longrightarrow> rf_current_size s + int (length vs) \<le> rf_total_size s \<Longrightarrow>
   \<exists>t. rf_add_all_reserved vs s = Some t \<and> rf_inv t \<and> rf_list t = rf_list s @ vs"
proof (induction vs arbitrary: s)
  case (Cons v vs)
  obtain t where t: "rf_AddAlreadyReserved v s = Some t" "rf_inv t" "rf_list t = rf_list s @ [v]"
      "rf_current_size t = rf_current_size s + 1" "rf_total_size t = rf_total_size s"
    using rf_AddAlreadyReserved_ok [OF Cons.prems(1), of v] Cons.prems(2) by auto
  with Cons.IH [OF t(2)] Cons.prems(2) show ?case by simp
qed simp

lemma rf_add_all_ok:
  "rf_inv s \<Longrightarrow> rf_current_size s + int (length vs) \<le> 2 ^ 30 \<Longrightarrow>
   \<exists>t. rf_add_all e0 vs s = Some t \<and> rf_inv t \<and> rf_list t = rf_list s @ vs"
proof (induction vs arbitrary: s)
  case (Cons v vs)
  obtain t where t: "rf_Add e0 v s = Some t" "rf_inv t" "rf_list t = rf_list s @ [v]"
      "rf_current_size t = rf_current_size s + 1"
    using rf_Add_ok [OF Cons.prems(1), of e0 v] Cons.prems(2) by auto
  with Cons.IH [OF t(2)] Cons.prems(2) show ?case by simp
qed simp

lemma rf_truncate_ok:
  assumes "rf_inv s" "n \<le> length (rf_list s)"
  shows "rf_inv (rf_Truncate (int n) s)" "rf_list (rf_Truncate (int n) s) = take n (rf_list s)"
  using assms by (elim rf_invE; auto simp: rf_Truncate_def rf_inv_def rf_list_def)+

lemma rf_Clear_ok: "rf_inv s \<Longrightarrow> rf_inv (rf_Clear s)" "rf_list (rf_Clear s) = []"
  by (auto simp: rf_Clear_def rf_inv_def rf_list_def split: option.splits)

lemma rf_RemoveLast_ok:
  assumes "rf_inv s" "rf_list s \<noteq> []"
  shows "rf_inv (rf_RemoveLast s)" "rf_list (rf_RemoveLast s) = butlast (rf_list s)"
  using assms
  by (elim rf_invE; auto simp: rf_RemoveLast_def rf_inv_def rf_list_def butlast_take nat_diff_distrib)+

lemma rf_Resize_ok:
  assumes "rf_inv s" "rf_total_size s \<le> 2 ^ 30 - 1" "0 \<le> n" "n \<le> 2 ^ 31 - 1"
  shows "\<exists>t. rf_Resize e0 n v s = Some t \<and> rf_inv t \<and>
    rf_list t = take (nat n) (rf_list s) @ replicate (nat n - length (rf_list s)) v"
proof (cases "n > rf_current_size s")
  case True
  obtain t where t: "rf_Reserve e0 n s = Some t" "rf_inv t" "rf_list t = rf_list s"
      "rf_current_size t = rf_current_size s" "n \<le> rf_total_size t"
    using rf_Reserve_ok [OF assms(1,2,4)] by blast
  show ?thesis
    using t(2)
  proof (cases rule: rf_invE)
    case null
    with t True assms show ?thesis by (auto simp: rf_inv_def)
  next
    case (rep a es k)
    with t True assms(3) show ?thesis
      by (auto simp: rf_Resize_def rf_CopyArray_def rf_inv_def rf_list_def Let_def)
  qed
next
  case False
  with assms(1,3) show ?thesis
    by (elim rf_invE) (auto simp: rf_Resize_def rf_inv_def rf_list_def)
qed

lemma rf_slide_ok:
  "rf_inv s \<Longrightarrow> rf_list s = pre @ gap @ mid \<Longrightarrow> length gap = num \<Longrightarrow>
   i = int (length pre + num) \<Longrightarrow> k = length mid \<Longrightarrow>
   \<exists>t gap'. rf_slide k i (int num) s = Some t \<and> rf_inv t \<and> rf_current_size t = rf_current_size s \<and>
     rf_list t = pre @ mid @ gap' \<and> length gap' = num"
proof (induction k arbitrary: s pre gap mid i)
  case 0
  then show ?case by auto
next
  case (Suc k)
  then obtain m mid' where mid: "mid = m # mid'" "length mid' = k" by (cases mid) auto
  have get: "rf_Get i s = Some m"
  proof -
    have "rf_list s ! (length pre + num) = m" "length pre + num < length (rf_list s)"
      unfolding Suc.prems(2) using Suc.prems(3) mid(1) by (simp_all add: nth_append)
    then show ?thesis
      unfolding Suc.prems(4) using rf_Get_list [OF Suc.prems(1), of "length pre + num"] by simp
  qed
  have len: "length (rf_list s) = length pre + num + Suc k"
    using Suc.prems mid by simp
  obtain t where t: "rf_Set (i - int num) m s = Some t" "rf_inv t" "rf_list t = (rf_list s)[length pre := m]"
      "rf_current_size t = rf_current_size s"
    using rf_Set_ok [OF Suc.prems(1), of "i - int num" m] Suc.prems(4) len by auto
  have "\<exists>gap1. gap @ mid = gap1 @ m # mid' \<and> length gap1 = num \<and>
      (pre @ gap1 @ m # mid')[length pre := m] = (pre @ [m]) @ (tl (gap1 @ [m])) @ mid'"
    using Suc.prems(3) mid by (intro exI [of _ gap]) (cases gap; simp)
  then have "rf_list t = (pre @ [m]) @ tl (gap @ [m]) @ mid'"
    using t(3) Suc.prems(2,3) mid by (cases gap) auto
  moreover have "length (tl (gap @ [m])) = num"
    using Suc.prems(3) by simp
  ultimately obtain u gap' where "rf_slide k (i + 1) (int num) t = Some u" "rf_inv u"
      "rf_current_size u = rf_current_size t" "rf_list u = (pre @ [m]) @ mid' @ gap'" "length gap' = num"
    using Suc.IH [OF t(2), of "pre @ [m]" "tl (gap @ [m])" mid' "i + 1"] mid(2) Suc.prems(4) by auto
  with get t mid show ?case by auto
qed

lemma those_map_Some: "(\<And>x. x \<in> set xs \<Longrightarrow> f x = Some (g x)) \<Longrightarrow> those (map f xs) = Some (map g xs)"
  by (induction xs) auto

lemma rf_read_range_ok:
  assumes "rf_inv s" "a + n \<le> length (rf_list s)"
  shows "rf_read_range (int a) (int n) s = Some (take n (drop a (rf_list s)))"
proof -
  have "rf_read_range (int a) (int n) s = Some (map (\<lambda>i. rf_list s ! (i + a)) [0..<n])"
    unfolding rf_read_range_def nat_int
    by (rule those_map_Some) (use assms rf_Get_list [OF assms(1)] in \<open>auto simp flip: of_nat_add\<close>)
  also have "map (\<lambda>i. rf_list s ! (i + a)) [0..<n] = take n (drop a (rf_list s))"
    using assms(2) by (intro nth_equalityI) (auto simp: add.commute)
  finally show ?thesis .
qed

lemma rf_ExtractSubrange_ok:
  assumes "rf_inv s" "a + n \<le> length (rf_list s)"
  shows "\<exists>t. rf_ExtractSubrange (int a) (int n) want s =
      Some (if want then take n (drop a (rf_list s)) else [], t) \<and> rf_inv t \<and>
    rf_list t = take a (rf_list s) @ drop (a + n) (rf_list s)"
proof (cases "0 < n")
  case True
  define xs where "xs = rf_list s"
  have cur: "rf_current_size s = int (length xs)"
    using rf_size_list [OF assms(1)] by (simp add: rf_size_def xs_def)
  have "rf_list s = take a xs @ take n (drop a xs) @ drop (a + n) xs"
    by (simp add: xs_def add.commute [of a] append_take_drop_id flip: drop_drop)
  moreover have "length (take n (drop a xs)) = n" "length (take a xs) = a"
    using assms(2) by (simp_all add: xs_def)
  ultimately obtain t gap where t: "rf_slide (length xs - (a + n)) (int a + int n) (int n) s = Some t" "rf_inv t"
      "rf_current_size t = rf_current_size s" "rf_list t = take a xs @ drop (a + n) xs @ gap" "length gap = n"
    using rf_slide_ok [OF assms(1), of "take a xs" "take n (drop a xs)" "drop (a + n) xs" n
        "int a + int n" "length xs - (a + n)"] by auto
  have trunc: "rf_Truncate (rf_current_size t - int n) t = rf_Truncate (int (length xs - n)) t"
    using assms(2) t(3) cur by (simp add: xs_def of_nat_diff)
  have "length xs - n \<le> length (rf_list t)" "take (length xs - n) (rf_list t) = take a xs @ drop (a + n) xs"
    using t(4,5) assms(2) by (simp_all add: xs_def)
  with rf_truncate_ok [OF t(2), of "length xs - n"]
  have "rf_inv (rf_Truncate (rf_current_size t - int n) t)"
    "rf_list (rf_Truncate (rf_current_size t - int n) t) = take a xs @ drop (a + n) xs"
    by (simp_all add: trunc)
  moreover have "nat (rf_current_size s - (int a + int n)) = length xs - (a + n)"
    using cur by simp
  ultimately show ?thesis
    using True t(1) rf_read_range_ok [OF assms] by (auto simp: rf_ExtractSubrange_def xs_def)
next
  case False
  with rf_read_range_ok [OF assms] assms show ?thesis
    by (auto simp: rf_ExtractSubrange_def)
qed

lemma rf_erase_ok:
  assumes "rf_inv s" "a \<le> b" "b \<le> length (rf_list s)"
  shows "\<exists>t. rf_erase (int a) (int b) s = Some (int a, t) \<and> rf_inv t \<and>
    rf_list t = take a (rf_list s) @ drop b (rf_list s)"
proof (cases "a = b")
  case True
  with assms show ?thesis by (simp add: rf_erase_def)
next
  case False
  show ?thesis
    using assms(1)
  proof (cases rule: rf_invE)
    case null
    with assms False show ?thesis by simp
  next
    case (rep ar es n)
    with assms False have ab: "a < b" "b \<le> n" by auto
    have "take (a + (n - b)) (take a es @ take (n - b) (drop b es) @ drop (a + (n - b)) es)
        = take a (take n es) @ drop b (take n es)"
      using ab rep(3) by (simp add: drop_take)
    with ab rep show ?thesis
      by (simp add: rf_erase_def rf_CopyArray_def rf_Truncate_def rf_inv_def rf_list_def Let_def
          nat_diff_distrib flip: of_nat_diff of_nat_add) linarith
  qed
qed

lemma rf_UnsafeMergeFrom_ok:
  assumes "rf_inv s" "rf_inv other" "rf_total_size s \<le> 2 ^ 30 - 1" "rf_total_size other \<le> 2 ^ 30"
  shows "\<exists>t. rf_UnsafeMergeFrom e0 other s = Some t \<and> rf_inv t \<and> rf_list t = rf_list s @ rf_list other \<and>
    rf_GetArena t = rf_GetArena s"
  using assms(2)
proof (cases rule: rf_invE)
  case null
  with assms show ?thesis by (simp add: rf_UnsafeMergeFrom_def)
next
  case (rep a es n)
  note other = rep
  show ?thesis
  proof (cases "n = 0")
    case True
    with assms rep show ?thesis by (simp add: rf_UnsafeMergeFrom_def)
  next
    case False
    have "rf_current_size s + int n \<le> 2 ^ 31 - 1"
      using assms rep by (auto simp: rf_inv_def)
    then obtain t where t: "rf_Reserve e0 (rf_current_size s + int n) s = Some t" "rf_inv t" "rf_list t = rf_list s"
        "rf_current_size t = rf_current_size s" "rf_current_size s + int n \<le> rf_total_size t"
        "rf_GetArena t = rf_GetArena s"
      using rf_Reserve_ok [OF assms(1,3)] by blast
    show ?thesis
      using t(2)
    proof (cases rule: rf_invE)
      case null
      with t False show ?thesis using assms(1) by (auto simp: rf_inv_def)
    next
      case (rep ar fs m)
      have cur: "rf_current_size s = int m" using t(4) rep by simp
      have list: "take m fs = rf_list s" using t(3) rep by simp
      have len: "m + n \<le> length fs" using t(5) rep cur by simp
      define u where "u = t\<lparr>rf_rep := Some \<lparr>rep_arena = ar, rep_elements = take m fs @ take n es @ drop (m + n) fs\<rparr>,
        rf_current_size := int m + int n\<rparr>"
      have "rf_UnsafeMergeFrom e0 other s = Some u"
        using t(1) rep cur len other False by (simp add: rf_UnsafeMergeFrom_def rf_CopyArray_def u_def nat_add_distrib)
      moreover have "rf_inv u" "rf_list u = take m fs @ take n es" "rf_GetArena u = rf_GetArena t"
        using rep len other(3) by (auto simp: u_def rf_inv_def rf_list_def rf_GetArena_def nat_add_distrib)
      ultimately show ?thesis using t(6) other list by simp
    qed
  qed
qed

lemma rf_CopyFrom_ok:
  assumes "rf_inv s" "rf_inv other" "rf_total_size s \<le> 2 ^ 30 - 1" "rf_total_size other \<le> 2 ^ 30"
  shows "\<exists>t. rf_CopyFrom e0 other s = Some t \<and> rf_inv t \<and> rf_list t = rf_list other \<and>
    rf_GetArena t = rf_GetArena s"
  using rf_UnsafeMergeFrom_ok [of "rf_Clear s" other e0] assms
  by (simp add: rf_CopyFrom_def rf_MergeFrom_def rf_Clear_ok) (simp add: rf_Clear_def rf_GetArena_def)

lemma rf_InternalSwap_ok:
  assumes "rf_inv s" "rf_inv other" "rf_InternalSwap s other = (s', other')"
  shows "rf_inv s'" "rf_inv other'" "rf_list s' = rf_list other" "rf_list other' = rf_list s"
    "rf_GetArena s' = rf_GetArena other" "rf_GetArena other' = rf_GetArena s"
  using assms by (auto simp: rf_InternalSwap_def rf_inv_def rf_list_def rf_GetArena_def cong: option.case_cong)

lemma rf_GetArena_RepeatedField: "rf_GetArena (RepeatedField a) = a"
  by (simp add: RepeatedField_def rf_GetArena_def split: option.split)

lemma rf_Swap_ok:
  assumes "rf_inv s" "rf_inv other" "rf_total_size s \<le> 2 ^ 30 - 1" "rf_total_size other \<le> 2 ^ 30 - 1"
  shows "\<exists>s' other'. rf_Swap e0 s other = Some (s', other') \<and> rf_inv s' \<and> rf_inv other' \<and>
    rf_list s' = rf_list other \<and> rf_list other' = rf_list s \<and>
    rf_GetArena s' = rf_GetArena s \<and> rf_GetArena other' = rf_GetArena other"
proof (cases "rf_GetArena s = rf_GetArena other")
  case True
  obtain s' other' where "rf_InternalSwap s other = (s', other')" by fastforce
  with rf_InternalSwap_ok [OF assms(1,2)] True show ?thesis
    by (auto simp: rf_Swap_def)
next
  case False
  obtain temp where temp: "rf_UnsafeMergeFrom e0 s (RepeatedField (rf_GetArena other)) = Some temp" "rf_inv temp"
      "rf_list temp = rf_list s" "rf_GetArena temp = rf_GetArena other"
    using rf_UnsafeMergeFrom_ok [of "RepeatedField (rf_GetArena other)" s e0] assms
    by (auto simp: RepeatedField_ok rf_GetArena_RepeatedField) (auto simp: RepeatedField_def)
  obtain t where t: "rf_CopyFrom e0 other s = Some t" "rf_inv t" "rf_list t = rf_list other" "rf_GetArena t = rf_GetArena s"
    using rf_CopyFrom_ok [OF assms(1,2,3), of e0] assms(4) by auto
  obtain other' temp' where "rf_InternalSwap other temp = (other', temp')" by fastforce
  with rf_InternalSwap_ok [OF assms(2) temp(2)] False temp t show ?thesis
    by (auto simp: rf_Swap_def rf_MergeFrom_def)
qed

lemma rf_SwapElements_ok:
  assumes "rf_inv s" "i < length (rf_list s)" "j < length (rf_list s)"
  shows "\<exists>t. rf_SwapElements (int i) (int j) s = Some t \<and> rf_inv t \<and>
    rf_list t = (rf_list s)[i := rf_list s ! j, j := rf_list s ! i]"
proof -
  obtain t where t: "rf_Set (int i) (rf_list s ! j) s = Some t" "rf_inv t"
      "rf_list t = (rf_list s)[i := rf_list s ! j]"
    using rf_Set_ok [OF assms(1), of "int i" "rf_list s ! j"] assms(2) by auto
  moreover obtain u where "rf_Set (int j) (rf_list s ! i) t = Some u" "rf_inv u"
      "rf_list u = (rf_list t)[j := rf_list s ! i]"
    using rf_Set_ok [OF t(2), of "int j" "rf_list s ! i"] assms(3) t(3) by auto
  ultimately show ?thesis
    using assms by (simp add: rf_SwapElements_def rf_Get_list)
qed

lemma RepeatedField_range_ok:
  assumes "int (length vs) \<le> 2 ^ 30"
  shows "\<exists>t. RepeatedField_range e0 forward vs = Some t \<and> rf_inv t \<and> rf_list t = vs"
proof (cases forward)
  case True
  obtain t where t: "rf_Reserve e0 (int (length vs)) (RepeatedField None) = Some t" "rf_inv t"
      "rf_list t = rf_list (RepeatedField None :: 'a repeated_field)" "rf_current_size t = 0"
      "int (length vs) \<le> rf_total_size t"
    using rf_Reserve_ok [OF RepeatedField_ok(1), of None "int (length vs)" e0] assms
    by (auto simp: RepeatedField_def)
  with True rf_add_all_reserved_ok [OF t(2), of vs] show ?thesis
    by (simp add: RepeatedField_range_def RepeatedField_ok)
next
  case False
  with rf_add_all_ok [OF RepeatedField_ok(1), of None vs e0] assms show ?thesis
    by (simp add: RepeatedField_range_def RepeatedField_ok) (simp add: RepeatedField_def)
qed

end
