(* ===== verification/Wire_Format_Lite.thy ===== *)
theory Wire_Format_Lite
  imports Coded_Input_Read Coded_Output Repeated_Field
begin

text \<open>
  \<open>internal::WireFormatLite\<close> (\<open>wire_format_lite.h\<close>, \<open>wire_format_lite_inl.h\<close>,
  \<open>wire_format_lite.cc\<close>): tags and wire types, the value encodings of the field types, and the
  functions that read, write and measure single fields.

  The template \<open>ReadPrimitive<CType, DeclaredType>\<close> and the families \<open>WriteInt32\<close> to
  \<open>WriteEnum\<close>, \<open>WriteInt32NoTag\<close> to \<open>WriteEnumNoTag\<close> and their \<open>ToArray\<close> variants are functions
  by cases on the declared type: one equation per specialisation or member function. A value is
  tagged with its declared type (\<open>field_value\<close>). \<open>int32\<close> and \<open>int64\<close> are the words of that
  width, read with \<open>sint\<close>; a \<open>float\<close> or \<open>double\<close> is its object representation, which is what the
  unions of \<open>EncodeFloat\<close> and its companions convert between.
\<close>

unbundle bit_operations_syntax

type_synonym int32 = "32 word"
type_synonym int64 = "64 word"

section \<open>Types and tags\<close>

datatype wire_type =
    WIRETYPE_VARINT
  | WIRETYPE_FIXED64
  | WIRETYPE_LENGTH_DELIMITED
  | WIRETYPE_START_GROUP
  | WIRETYPE_END_GROUP
  | WIRETYPE_FIXED32
  | WIRETYPE_unnamed uint32 \<comment> \<open>a value of the enum's range without a name: 6 or 7\<close>

fun wire_type_value :: "wire_type \<Rightarrow> uint32" where
  "wire_type_value WIRETYPE_VARINT = 0"
| "wire_type_value WIRETYPE_FIXED64 = 1"
| "wire_type_value WIRETYPE_LENGTH_DELIMITED = 2"
| "wire_type_value WIRETYPE_START_GROUP = 3"
| "wire_type_value WIRETYPE_END_GROUP = 4"
| "wire_type_value WIRETYPE_FIXED32 = 5"
| "wire_type_value (WIRETYPE_unnamed n) = n"

datatype field_type =
    TYPE_DOUBLE | TYPE_FLOAT | TYPE_INT64 | TYPE_UINT64 | TYPE_INT32 | TYPE_FIXED64
  | TYPE_FIXED32 | TYPE_BOOL | TYPE_STRING | TYPE_GROUP | TYPE_MESSAGE | TYPE_BYTES
  | TYPE_UINT32 | TYPE_ENUM | TYPE_SFIXED32 | TYPE_SFIXED64 | TYPE_SINT32 | TYPE_SINT64

datatype cpp_type =
    CPPTYPE_INT32 | CPPTYPE_INT64 | CPPTYPE_UINT32 | CPPTYPE_UINT64 | CPPTYPE_DOUBLE
  | CPPTYPE_FLOAT | CPPTYPE_BOOL | CPPTYPE_ENUM | CPPTYPE_STRING | CPPTYPE_MESSAGE

fun FieldTypeToCppType :: "field_type \<Rightarrow> cpp_type" where
  \<comment> \<open>The table \<open>kFieldTypeToCppTypeMap\<close>.\<close>
  "FieldTypeToCppType TYPE_DOUBLE = CPPTYPE_DOUBLE"
| "FieldTypeToCppType TYPE_FLOAT = CPPTYPE_FLOAT"
| "FieldTypeToCppType TYPE_INT64 = CPPTYPE_INT64"
| "FieldTypeToCppType TYPE_UINT64 = CPPTYPE_UINT64"
| "FieldTypeToCppType TYPE_INT32 = CPPTYPE_INT32"
| "FieldTypeToCppType TYPE_FIXED64 = CPPTYPE_UINT64"
| "FieldTypeToCppType TYPE_FIXED32 = CPPTYPE_UINT32"
| "FieldTypeToCppType TYPE_BOOL = CPPTYPE_BOOL"
| "FieldTypeToCppType TYPE_STRING = CPPTYPE_STRING"
| "FieldTypeToCppType TYPE_GROUP = CPPTYPE_MESSAGE"
| "FieldTypeToCppType TYPE_MESSAGE = CPPTYPE_MESSAGE"
| "FieldTypeToCppType TYPE_BYTES = CPPTYPE_STRING"
| "FieldTypeToCppType TYPE_UINT32 = CPPTYPE_UINT32"
| "FieldTypeToCppType TYPE_ENUM = CPPTYPE_ENUM"
| "FieldTypeToCppType TYPE_SFIXED32 = CPPTYPE_INT32"
| "FieldTypeToCppType TYPE_SFIXED64 = CPPTYPE_INT64"
| "FieldTypeToCppType TYPE_SINT32 = CPPTYPE_INT32"
| "FieldTypeToCppType TYPE_SINT64 = CPPTYPE_INT64"

fun WireTypeForFieldType :: "field_type \<Rightarrow> wire_type" where
  \<comment> \<open>The table \<open>kWireTypeForFieldType\<close>.\<close>
  "WireTypeForFieldType TYPE_DOUBLE = WIRETYPE_FIXED64"
| "WireTypeForFieldType TYPE_FLOAT = WIRETYPE_FIXED32"
| "WireTypeForFieldType TYPE_INT64 = WIRETYPE_VARINT"
| "WireTypeForFieldType TYPE_UINT64 = WIRETYPE_VARINT"
| "WireTypeForFieldType TYPE_INT32 = WIRETYPE_VARINT"
| "WireTypeForFieldType TYPE_FIXED64 = WIRETYPE_FIXED64"
| "WireTypeForFieldType TYPE_FIXED32 = WIRETYPE_FIXED32"
| "WireTypeForFieldType TYPE_BOOL = WIRETYPE_VARINT"
| "WireTypeForFieldType TYPE_STRING = WIRETYPE_LENGTH_DELIMITED"
| "WireTypeForFieldType TYPE_GROUP = WIRETYPE_START_GROUP"
| "WireTypeForFieldType TYPE_MESSAGE = WIRETYPE_LENGTH_DELIMITED"
| "WireTypeForFieldType TYPE_BYTES = WIRETYPE_LENGTH_DELIMITED"
| "WireTypeForFieldType TYPE_UINT32 = WIRETYPE_VARINT"
| "WireTypeForFieldType TYPE_ENUM = WIRETYPE_VARINT"
| "WireTypeForFieldType TYPE_SFIXED32 = WIRETYPE_FIXED32"
| "WireTypeForFieldType TYPE_SFIXED64 = WIRETYPE_FIXED64"
| "WireTypeForFieldType TYPE_SINT32 = WIRETYPE_VARINT"
| "WireTypeForFieldType TYPE_SINT64 = WIRETYPE_VARINT"

definition kTagTypeBits :: nat where
  "kTagTypeBits = 3"

definition kTagTypeMask :: uint32 where
  "kTagTypeMask = push_bit kTagTypeBits 1 - 1"

definition MakeTag :: "int32 \<Rightarrow> wire_type \<Rightarrow> uint32" where
  "MakeTag field_number type = push_bit kTagTypeBits field_number OR wire_type_value type"

definition WireType_cast :: "uint32 \<Rightarrow> wire_type" where
  \<comment> \<open>\<open>static_cast<WireType>\<close>\<close>
  "WireType_cast n =
     (if n = 0 then WIRETYPE_VARINT else if n = 1 then WIRETYPE_FIXED64
      else if n = 2 then WIRETYPE_LENGTH_DELIMITED else if n = 3 then WIRETYPE_START_GROUP
      else if n = 4 then WIRETYPE_END_GROUP else if n = 5 then WIRETYPE_FIXED32
      else WIRETYPE_unnamed n)"

definition GetTagWireType :: "uint32 \<Rightarrow> wire_type" where
  "GetTagWireType tag = WireType_cast (tag AND kTagTypeMask)"

definition GetTagFieldNumber :: "uint32 \<Rightarrow> int32" where
  "GetTagFieldNumber tag = drop_bit kTagTypeBits tag"

definition TagSize :: "int32 \<Rightarrow> field_type \<Rightarrow> nat" where
  "TagSize field_number type =
     (let result = VarintSize32 (push_bit kTagTypeBits field_number) in
      if type = TYPE_GROUP then result * 2 else result)"

section \<open>Value encodings\<close>

datatype cfloat = cfloat (float_bits: uint32)
datatype cdouble = cdouble (double_bits: uint64)

definition EncodeFloat :: "cfloat \<Rightarrow> uint32" where
  "EncodeFloat value = float_bits value"

definition DecodeFloat :: "uint32 \<Rightarrow> cfloat" where
  "DecodeFloat value = cfloat value"

definition EncodeDouble :: "cdouble \<Rightarrow> uint64" where
  "EncodeDouble value = double_bits value"

definition DecodeDouble :: "uint64 \<Rightarrow> cdouble" where
  "DecodeDouble value = cdouble value"

definition ZigZagEncode32 :: "int32 \<Rightarrow> uint32" where
  \<comment> \<open>\<open>n >> 31\<close> is the arithmetic shift.\<close>
  "ZigZagEncode32 n = push_bit 1 n XOR signed_drop_bit 31 n"

definition ZigZagDecode32 :: "uint32 \<Rightarrow> int32" where
  "ZigZagDecode32 n = drop_bit 1 n XOR - (n AND 1)"

definition ZigZagEncode64 :: "int64 \<Rightarrow> uint64" where
  "ZigZagEncode64 n = push_bit 1 n XOR signed_drop_bit 63 n"

definition ZigZagDecode64 :: "uint64 \<Rightarrow> int64" where
  "ZigZagDecode64 n = drop_bit 1 n XOR - (n AND 1)"

datatype field_value =
    Int32 int32 | Int64 int64 | UInt32 uint32 | UInt64 uint64 | SInt32 int32 | SInt64 int64
  | Fixed32 uint32 | Fixed64 uint64 | SFixed32 int32 | SFixed64 int64
  | Float cfloat | Double cdouble | Bool bool | Enum int32

fun type_of :: "field_value \<Rightarrow> field_type" where
  "type_of (Int32 _) = TYPE_INT32" | "type_of (Int64 _) = TYPE_INT64"
| "type_of (UInt32 _) = TYPE_UINT32" | "type_of (UInt64 _) = TYPE_UINT64"
| "type_of (SInt32 _) = TYPE_SINT32" | "type_of (SInt64 _) = TYPE_SINT64"
| "type_of (Fixed32 _) = TYPE_FIXED32" | "type_of (Fixed64 _) = TYPE_FIXED64"
| "type_of (SFixed32 _) = TYPE_SFIXED32" | "type_of (SFixed64 _) = TYPE_SFIXED64"
| "type_of (Float _) = TYPE_FLOAT" | "type_of (Double _) = TYPE_DOUBLE"
| "type_of (Bool _) = TYPE_BOOL" | "type_of (Enum _) = TYPE_ENUM"

section \<open>Reading\<close>

definition read_as ::
    "('a \<Rightarrow> 'b) \<Rightarrow> ('a option \<times> 's) option \<Rightarrow> ('b option \<times> 's) option" where
  \<comment> \<open>\<open>if (!input->Read(&temp)) return false; *value = f(temp); return true;\<close>\<close>
  "read_as f r = do { (v, s) \<leftarrow> r; Some (map_option f v, s) }"

fun ReadPrimitive ::
    "field_type \<Rightarrow> 's zc_input_ops \<Rightarrow> 's coded_input \<Rightarrow> (field_value option \<times> 's coded_input) option" where
  "ReadPrimitive TYPE_INT32 ops s = read_as Int32 (ReadVarint32 ops s)"
| "ReadPrimitive TYPE_INT64 ops s = read_as Int64 (ReadVarint64 ops s)"
| "ReadPrimitive TYPE_UINT32 ops s = read_as UInt32 (ReadVarint32 ops s)"
| "ReadPrimitive TYPE_UINT64 ops s = read_as UInt64 (ReadVarint64 ops s)"
| "ReadPrimitive TYPE_SINT32 ops s = read_as (\<lambda>temp. SInt32 (ZigZagDecode32 temp)) (ReadVarint32 ops s)"
| "ReadPrimitive TYPE_SINT64 ops s = read_as (\<lambda>temp. SInt64 (ZigZagDecode64 temp)) (ReadVarint64 ops s)"
| "ReadPrimitive TYPE_FIXED32 ops s = read_as Fixed32 (ReadLittleEndian32 ops s)"
| "ReadPrimitive TYPE_FIXED64 ops s = read_as Fixed64 (ReadLittleEndian64 ops s)"
| "ReadPrimitive TYPE_SFIXED32 ops s = read_as SFixed32 (ReadLittleEndian32 ops s)"
| "ReadPrimitive TYPE_SFIXED64 ops s = read_as SFixed64 (ReadLittleEndian64 ops s)"
| "ReadPrimitive TYPE_FLOAT ops s = read_as (\<lambda>temp. Float (DecodeFloat temp)) (ReadLittleEndian32 ops s)"
| "ReadPrimitive TYPE_DOUBLE ops s = read_as (\<lambda>temp. Double (DecodeDouble temp)) (ReadLittleEndian64 ops s)"
| "ReadPrimitive TYPE_BOOL ops s = read_as (\<lambda>temp. Bool (temp \<noteq> 0)) (ReadVarint64 ops s)"
| "ReadPrimitive TYPE_ENUM ops s = read_as Enum (ReadVarint32 ops s)"
| "ReadPrimitive TYPE_STRING ops s = None"
| "ReadPrimitive TYPE_GROUP ops s = None"
| "ReadPrimitive TYPE_MESSAGE ops s = None"
| "ReadPrimitive TYPE_BYTES ops s = None"

fun ReadPrimitiveFromArray :: "field_type \<Rightarrow> bytes \<Rightarrow> int \<Rightarrow> (field_value \<times> int) option" where
  "ReadPrimitiveFromArray TYPE_FIXED32 mem buffer =
     map_option (apfst Fixed32) (ReadLittleEndian32FromArray mem buffer)"
| "ReadPrimitiveFromArray TYPE_FIXED64 mem buffer =
     map_option (apfst Fixed64) (ReadLittleEndian64FromArray mem buffer)"
| "ReadPrimitiveFromArray TYPE_SFIXED32 mem buffer =
     map_option (apfst SFixed32) (ReadLittleEndian32FromArray mem buffer)"
| "ReadPrimitiveFromArray TYPE_SFIXED64 mem buffer =
     map_option (apfst SFixed64) (ReadLittleEndian64FromArray mem buffer)"
| "ReadPrimitiveFromArray TYPE_FLOAT mem buffer =
     map_option (apfst (\<lambda>temp. Float (DecodeFloat temp))) (ReadLittleEndian32FromArray mem buffer)"
| "ReadPrimitiveFromArray TYPE_DOUBLE mem buffer =
     map_option (apfst (\<lambda>temp. Double (DecodeDouble temp))) (ReadLittleEndian64FromArray mem buffer)"
| "ReadPrimitiveFromArray _ mem buffer = None"

definition ReadBytes ::
    "'s zc_input_ops \<Rightarrow> bytes \<Rightarrow> 's coded_input \<Rightarrow> (bool \<times> bytes \<times> 's coded_input) option" where
  \<comment> \<open>\<open>ReadBytesToString\<close>; the \<open>uint32\<close> length becomes an \<open>int\<close> by its bit pattern.\<close>
  "ReadBytes ops value s =
     do {
       (length, s) \<leftarrow> ReadVarint32 ops s;
       case length of
         None \<Rightarrow> Some (False, value, s)
       | Some n \<Rightarrow> InternalReadStringInline ops (sint n) value s
     }"

definition ReadString_field ::
    "'s zc_input_ops \<Rightarrow> bytes \<Rightarrow> 's coded_input \<Rightarrow> (bool \<times> bytes \<times> 's coded_input) option" where
  "ReadString_field ops value s = ReadBytes ops value s"

section \<open>Writing\<close>

definition WriteTag_field :: "'s zc_output_ops \<Rightarrow> int32 \<Rightarrow> wire_type \<Rightarrow> 's coded_output \<Rightarrow> 's coded_output option" where
  "WriteTag_field ops field_number type s = WriteTag ops (MakeTag field_number type) s"

fun WriteNoTag :: "'s zc_output_ops \<Rightarrow> field_value \<Rightarrow> 's coded_output \<Rightarrow> 's coded_output option" where
  "WriteNoTag ops (Int32 value) s = WriteVarint32SignExtended ops value s"
| "WriteNoTag ops (Int64 value) s = WriteVarint64 ops value s"
| "WriteNoTag ops (UInt32 value) s = WriteVarint32 ops value s"
| "WriteNoTag ops (UInt64 value) s = WriteVarint64 ops value s"
| "WriteNoTag ops (SInt32 value) s = WriteVarint32 ops (ZigZagEncode32 value) s"
| "WriteNoTag ops (SInt64 value) s = WriteVarint64 ops (ZigZagEncode64 value) s"
| "WriteNoTag ops (Fixed32 value) s = WriteLittleEndian32 ops value s"
| "WriteNoTag ops (Fixed64 value) s = WriteLittleEndian64 ops value s"
| "WriteNoTag ops (SFixed32 value) s = WriteLittleEndian32 ops value s"
| "WriteNoTag ops (SFixed64 value) s = WriteLittleEndian64 ops value s"
| "WriteNoTag ops (Float value) s = WriteLittleEndian32 ops (EncodeFloat value) s"
| "WriteNoTag ops (Double value) s = WriteLittleEndian64 ops (EncodeDouble value) s"
| "WriteNoTag ops (Bool value) s = WriteVarint32 ops (if value then 1 else 0) s"
| "WriteNoTag ops (Enum value) s = WriteVarint32SignExtended ops value s"

definition tagged ::
    "'s zc_output_ops \<Rightarrow> int32 \<Rightarrow> wire_type \<Rightarrow> field_value \<Rightarrow> 's coded_output \<Rightarrow> 's coded_output option" where
  \<comment> \<open>The two calls every member function of the family makes.\<close>
  "tagged ops field_number type value s =
     do { s \<leftarrow> WriteTag_field ops field_number type s; WriteNoTag ops value s }"

fun WriteField ::
    "'s zc_output_ops \<Rightarrow> int32 \<Rightarrow> field_value \<Rightarrow> 's coded_output \<Rightarrow> 's coded_output option" where
  \<comment> \<open>\<open>WriteInt32\<close>, \<open>WriteInt64\<close>, \<open>\<dots>\<close>, \<open>WriteEnum\<close>\<close>
  "WriteField ops n (Int32 v) s = tagged ops n WIRETYPE_VARINT (Int32 v) s"
| "WriteField ops n (Int64 v) s = tagged ops n WIRETYPE_VARINT (Int64 v) s"
| "WriteField ops n (UInt32 v) s = tagged ops n WIRETYPE_VARINT (UInt32 v) s"
| "WriteField ops n (UInt64 v) s = tagged ops n WIRETYPE_VARINT (UInt64 v) s"
| "WriteField ops n (SInt32 v) s = tagged ops n WIRETYPE_VARINT (SInt32 v) s"
| "WriteField ops n (SInt64 v) s = tagged ops n WIRETYPE_VARINT (SInt64 v) s"
| "WriteField ops n (Fixed32 v) s = tagged ops n WIRETYPE_FIXED32 (Fixed32 v) s"
| "WriteField ops n (Fixed64 v) s = tagged ops n WIRETYPE_FIXED64 (Fixed64 v) s"
| "WriteField ops n (SFixed32 v) s = tagged ops n WIRETYPE_FIXED32 (SFixed32 v) s"
| "WriteField ops n (SFixed64 v) s = tagged ops n WIRETYPE_FIXED64 (SFixed64 v) s"
| "WriteField ops n (Float v) s = tagged ops n WIRETYPE_FIXED32 (Float v) s"
| "WriteField ops n (Double v) s = tagged ops n WIRETYPE_FIXED64 (Double v) s"
| "WriteField ops n (Bool v) s = tagged ops n WIRETYPE_VARINT (Bool v) s"
| "WriteField ops n (Enum v) s = tagged ops n WIRETYPE_VARINT (Enum v) s"

definition WriteString_field ::
    "'s zc_output_ops \<Rightarrow> int32 \<Rightarrow> bytes \<Rightarrow> 's coded_output \<Rightarrow> 's coded_output option" where
  \<comment> \<open>\<open>WriteString\<close> and \<open>WriteBytes\<close>; a value beyond \<open>kint32max\<close> aborts.\<close>
  "WriteString_field ops field_number value s =
     do {
       s \<leftarrow> WriteTag_field ops field_number WIRETYPE_LENGTH_DELIMITED s;
       if int (length value) \<le> INT_MAX then do {
         s \<leftarrow> WriteVarint32 ops (of_nat (length value)) s;
         WriteString ops value s
       }
       else None
     }"

definition WriteStringMaybeAliased_field ::
    "'s zc_output_ops \<Rightarrow> int32 \<Rightarrow> bytes \<Rightarrow> 's coded_output \<Rightarrow> 's coded_output option" where
  \<comment> \<open>\<open>WriteStringMaybeAliased\<close> and \<open>WriteBytesMaybeAliased\<close>\<close>
  "WriteStringMaybeAliased_field ops field_number value s =
     do {
       s \<leftarrow> WriteTag_field ops field_number WIRETYPE_LENGTH_DELIMITED s;
       if int (length value) \<le> INT_MAX then do {
         s \<leftarrow> WriteVarint32 ops (of_nat (length value)) s;
         WriteRawMaybeAliased ops value s
       }
       else None
     }"

section \<open>Writing to an array\<close>

definition WriteTagToArray_field :: "int32 \<Rightarrow> wire_type \<Rightarrow> bytes" where
  "WriteTagToArray_field field_number type = WriteTagToArray (MakeTag field_number type)"

fun WriteNoTagToArray :: "field_value \<Rightarrow> bytes" where
  "WriteNoTagToArray (Int32 value) = WriteVarint32SignExtendedToArray value"
| "WriteNoTagToArray (Int64 value) = WriteVarint64ToArray value"
| "WriteNoTagToArray (UInt32 value) = WriteVarint32ToArray value"
| "WriteNoTagToArray (UInt64 value) = WriteVarint64ToArray value"
| "WriteNoTagToArray (SInt32 value) = WriteVarint32ToArray (ZigZagEncode32 value)"
| "WriteNoTagToArray (SInt64 value) = WriteVarint64ToArray (ZigZagEncode64 value)"
| "WriteNoTagToArray (Fixed32 value) = WriteLittleEndian32ToArray value"
| "WriteNoTagToArray (Fixed64 value) = WriteLittleEndian64ToArray value"
| "WriteNoTagToArray (SFixed32 value) = WriteLittleEndian32ToArray value"
| "WriteNoTagToArray (SFixed64 value) = WriteLittleEndian64ToArray value"
| "WriteNoTagToArray (Float value) = WriteLittleEndian32ToArray (EncodeFloat value)"
| "WriteNoTagToArray (Double value) = WriteLittleEndian64ToArray (EncodeDouble value)"
| "WriteNoTagToArray (Bool value) = WriteVarint32ToArray (if value then 1 else 0)"
| "WriteNoTagToArray (Enum value) = WriteVarint32SignExtendedToArray value"

definition taggedToArray :: "int32 \<Rightarrow> wire_type \<Rightarrow> field_value \<Rightarrow> bytes" where
  "taggedToArray field_number type value =
     WriteTagToArray_field field_number type @ WriteNoTagToArray value"

fun WriteFieldToArray :: "int32 \<Rightarrow> field_value \<Rightarrow> bytes" where
  \<comment> \<open>\<open>WriteInt32ToArray\<close>, \<open>WriteInt64ToArray\<close>, \<open>\<dots>\<close>, \<open>WriteEnumToArray\<close>\<close>
  "WriteFieldToArray n (Int32 v) = taggedToArray n WIRETYPE_VARINT (Int32 v)"
| "WriteFieldToArray n (Int64 v) = taggedToArray n WIRETYPE_VARINT (Int64 v)"
| "WriteFieldToArray n (UInt32 v) = taggedToArray n WIRETYPE_VARINT (UInt32 v)"
| "WriteFieldToArray n (UInt64 v) = taggedToArray n WIRETYPE_VARINT (UInt64 v)"
| "WriteFieldToArray n (SInt32 v) = taggedToArray n WIRETYPE_VARINT (SInt32 v)"
| "WriteFieldToArray n (SInt64 v) = taggedToArray n WIRETYPE_VARINT (SInt64 v)"
| "WriteFieldToArray n (Fixed32 v) = taggedToArray n WIRETYPE_FIXED32 (Fixed32 v)"
| "WriteFieldToArray n (Fixed64 v) = taggedToArray n WIRETYPE_FIXED64 (Fixed64 v)"
| "WriteFieldToArray n (SFixed32 v) = taggedToArray n WIRETYPE_FIXED32 (SFixed32 v)"
| "WriteFieldToArray n (SFixed64 v) = taggedToArray n WIRETYPE_FIXED64 (SFixed64 v)"
| "WriteFieldToArray n (Float v) = taggedToArray n WIRETYPE_FIXED32 (Float v)"
| "WriteFieldToArray n (Double v) = taggedToArray n WIRETYPE_FIXED64 (Double v)"
| "WriteFieldToArray n (Bool v) = taggedToArray n WIRETYPE_VARINT (Bool v)"
| "WriteFieldToArray n (Enum v) = taggedToArray n WIRETYPE_VARINT (Enum v)"

definition WriteStringToArray_field :: "int32 \<Rightarrow> bytes \<Rightarrow> bytes" where
  \<comment> \<open>\<open>WriteStringToArray\<close> and \<open>WriteBytesToArray\<close>\<close>
  "WriteStringToArray_field field_number value =
     WriteTagToArray_field field_number WIRETYPE_LENGTH_DELIMITED @ WriteStringWithSizeToArray value"

section \<open>Sizes\<close>

definition LengthDelimitedSize :: "nat \<Rightarrow> nat" where
  \<comment> \<open>The \<open>size_t\<close> length is converted to \<open>uint32\<close> for its own size.\<close>
  "LengthDelimitedSize n = VarintSize32 (of_nat n) + n"

definition StringSize :: "bytes \<Rightarrow> nat" where
  \<comment> \<open>\<open>StringSize\<close> and \<open>BytesSize\<close>\<close>
  "StringSize value = LengthDelimitedSize (length value)"

definition kFixed32Size :: nat where "kFixed32Size = 4"
definition kFixed64Size :: nat where "kFixed64Size = 8"
definition kSFixed32Size :: nat where "kSFixed32Size = 4"
definition kSFixed64Size :: nat where "kSFixed64Size = 8"
definition kFloatSize :: nat where "kFloatSize = 4"
definition kDoubleSize :: nat where "kDoubleSize = 8"
definition kBoolSize :: nat where "kBoolSize = 1"

fun FieldSize :: "field_value \<Rightarrow> nat" where
  \<comment> \<open>\<open>Int32Size\<close> to \<open>EnumSize\<close>, and the constants of the types of fixed size\<close>
  "FieldSize (Int32 value) = VarintSize32SignExtended value"
| "FieldSize (Int64 value) = VarintSize64 value"
| "FieldSize (UInt32 value) = VarintSize32 value"
| "FieldSize (UInt64 value) = VarintSize64 value"
| "FieldSize (SInt32 value) = VarintSize32 (ZigZagEncode32 value)"
| "FieldSize (SInt64 value) = VarintSize64 (ZigZagEncode64 value)"
| "FieldSize (Enum value) = VarintSize32SignExtended value"
| "FieldSize (Fixed32 _) = kFixed32Size"
| "FieldSize (Fixed64 _) = kFixed64Size"
| "FieldSize (SFixed32 _) = kSFixed32Size"
| "FieldSize (SFixed64 _) = kSFixed64Size"
| "FieldSize (Float _) = kFloatSize"
| "FieldSize (Double _) = kDoubleSize"
| "FieldSize (Bool _) = kBoolSize"

section \<open>Tags\<close>

lemma take_bit_word_self: "unat w < 2 ^ n \<Longrightarrow> take_bit n w = w" for w :: "'a::len word"
  by (simp add: word_unat_eq_iff unsigned_take_bit_eq take_bit_nat_eq_self)

lemma bit_7_int: "bit (7 :: int) n \<longleftrightarrow> n < 3"
proof -
  have "bit (mask 3 :: int) n \<longleftrightarrow> n < 3" by (simp add: bit_mask_iff)
  then show ?thesis by (simp add: mask_eq_exp_minus_1)
qed

lemma push_bit_or_less_8: "w < 8 \<Longrightarrow> (push_bit 3 n OR w) AND 7 = w" for n w :: uint32
proof -
  assume "w < 8"
  then have w: "take_bit 3 w = w"
    by (intro take_bit_word_self) (simp add: word_less_nat_alt)
  have "(push_bit 3 n OR w) AND 7 = take_bit 3 (push_bit 3 n OR w)"
    by (simp add: take_bit_eq_mask mask_eq_exp_minus_1)
  also have "\<dots> = w"
    using w by (simp add: take_bit_push_bit)
  finally show ?thesis .
qed

lemma wire_type_value_less: "w \<notin> range WIRETYPE_unnamed \<Longrightarrow> wire_type_value w < 8"
  by (cases w) auto

lemma WireType_cast_value: "w \<notin> range WIRETYPE_unnamed \<Longrightarrow> WireType_cast (wire_type_value w) = w"
  by (cases w) (auto simp: WireType_cast_def)

lemma GetTagWireType_MakeTag:
  "w \<notin> range WIRETYPE_unnamed \<Longrightarrow> GetTagWireType (MakeTag n w) = w"
  using push_bit_or_less_8 [of "wire_type_value w" n]
  by (simp add: GetTagWireType_def MakeTag_def kTagTypeBits_def kTagTypeMask_def push_bit_of_1
      wire_type_value_less WireType_cast_value)

lemma GetTagFieldNumber_MakeTag:
  assumes "w \<notin> range WIRETYPE_unnamed" "n < 2 ^ 29"
  shows "GetTagFieldNumber (MakeTag n w) = n"
proof -
  have "take_bit 29 n = n"
    using assms(2) by (intro take_bit_word_self) (simp add: word_less_nat_alt)
  then have "drop_bit 3 (push_bit 3 n) = n"
    by (simp add: bit_eq_iff bit_simps)
  moreover have "drop_bit 3 (wire_type_value w) = 0"
    using wire_type_value_less [OF assms(1)] by (simp add: drop_bit_eq_div word_less_nat_alt div_word_less)
  ultimately show ?thesis
    by (simp add: GetTagFieldNumber_def MakeTag_def kTagTypeBits_def)
qed

lemma wire_type_value_cast: "wire_type_value (WireType_cast n) = n"
  by (simp add: WireType_cast_def)

lemma MakeTag_parts: "MakeTag (GetTagFieldNumber tag) (GetTagWireType tag) = tag"
  by (simp add: MakeTag_def GetTagFieldNumber_def GetTagWireType_def wire_type_value_cast
      kTagTypeBits_def kTagTypeMask_def push_bit_of_1)
    (auto simp: bit_eq_iff bit_simps bit_7_int not_less)

lemma GetTagWireType_eq_iff:
  "GetTagWireType tag = w \<Longrightarrow> MakeTag (GetTagFieldNumber tag) w = tag"
  using MakeTag_parts [of tag] by simp

section \<open>ZigZag\<close>

lemma neg_low_bit: "- (m AND 1) = (if bit m 0 then - 1 else 0)" for m :: "'a::len word"
  by (simp add: and_one_eq odd_iff_mod_2_eq_one bit_0)

lemma bit_ZigZagEncode32:
  "bit (ZigZagEncode32 n) i \<longleftrightarrow> i < 32 \<and> ((0 < i \<and> bit n (i - 1)) \<noteq> bit n 31)"
proof (cases "i < 32")
  case True
  then show ?thesis
    unfolding ZigZagEncode32_def bit_xor_iff bit_push_bit_iff bit_signed_drop_bit_iff
    by (cases "i = 0") (auto simp: Suc_le_eq)
qed (auto dest: bit_imp_le_length)

lemma bit_ZigZagEncode64:
  "bit (ZigZagEncode64 n) i \<longleftrightarrow> i < 64 \<and> ((0 < i \<and> bit n (i - 1)) \<noteq> bit n 63)"
proof (cases "i < 64")
  case True
  then show ?thesis
    unfolding ZigZagEncode64_def bit_xor_iff bit_push_bit_iff bit_signed_drop_bit_iff
    by (cases "i = 0") (auto simp: Suc_le_eq)
qed (auto dest: bit_imp_le_length)

lemma bit_ZigZagDecode32:
  "bit (ZigZagDecode32 m) i \<longleftrightarrow> i < 32 \<and> (bit m (Suc i) \<noteq> bit m 0)"
  by (cases "i < 32") (auto simp: ZigZagDecode32_def neg_low_bit bit_simps dest: bit_imp_le_length)

lemma bit_ZigZagDecode64:
  "bit (ZigZagDecode64 m) i \<longleftrightarrow> i < 64 \<and> (bit m (Suc i) \<noteq> bit m 0)"
  by (cases "i < 64") (auto simp: ZigZagDecode64_def neg_low_bit bit_simps dest: bit_imp_le_length)

lemma ZigZagDecode_Encode32 [simp]: "ZigZagDecode32 (ZigZagEncode32 n) = n"
proof (rule bit_word_eqI)
  fix i assume "i < LENGTH(32)"
  then have "i < 31 \<or> i = 31" by auto
  then show "bit (ZigZagDecode32 (ZigZagEncode32 n)) i = bit n i"
    by (auto simp: bit_ZigZagDecode32 bit_ZigZagEncode32)
qed

lemma ZigZagDecode_Encode64 [simp]: "ZigZagDecode64 (ZigZagEncode64 n) = n"
proof (rule bit_word_eqI)
  fix i assume "i < LENGTH(64)"
  then have "i < 63 \<or> i = 63" by auto
  then show "bit (ZigZagDecode64 (ZigZagEncode64 n)) i = bit n i"
    by (auto simp: bit_ZigZagDecode64 bit_ZigZagEncode64)
qed

lemma ZigZagEncode_Decode32 [simp]: "ZigZagEncode32 (ZigZagDecode32 m) = m"
proof (rule bit_word_eqI)
  fix i assume "i < LENGTH(32)"
  moreover have "\<not> bit m 32" by (auto dest: bit_imp_le_length)
  ultimately show "bit (ZigZagEncode32 (ZigZagDecode32 m)) i = bit m i"
    by (cases i) (auto simp: bit_ZigZagDecode32 bit_ZigZagEncode32)
qed

lemma ZigZagEncode_Decode64 [simp]: "ZigZagEncode64 (ZigZagDecode64 m) = m"
proof (rule bit_word_eqI)
  fix i assume "i < LENGTH(64)"
  moreover have "\<not> bit m 64" by (auto dest: bit_imp_le_length)
  ultimately show "bit (ZigZagEncode64 (ZigZagDecode64 m)) i = bit m i"
    by (cases i) (auto simp: bit_ZigZagDecode64 bit_ZigZagEncode64)
qed

text \<open>Small magnitudes get small codes.\<close>

lemma uint_not: "uint (NOT x) = 2 ^ LENGTH('a) - 1 - uint x" for x :: "'a::len word"
proof -
  have "uint (NOT x) = (- uint x - 1) mod 2 ^ LENGTH('a)"
    by (simp add: not_eq_complement uint_word_ariths mod_simps)
  also have "\<dots> = (2 ^ LENGTH('a) - 1 - uint x) mod 2 ^ LENGTH('a)"
    by (metis (no_types, lifting) add_diff_eq diff_add_eq diff_minus_eq_add minus_diff_commute mod_add_self1 uminus_add_conv_diff)
  also have "\<dots> = 2 ^ LENGTH('a) - 1 - uint x"
    using uint_lt2p [of x] uint_ge_0 [of x] by (intro mod_pos_pos_trivial) linarith+
  finally show ?thesis .
qed

lemma sint_uint_msb: "sint n = uint n - (if bit n (LENGTH('a) - 1) then 2 ^ LENGTH('a) else 0)" for n :: "'a::len word"
proof -
  have "uint n mod 2 ^ LENGTH('a) = uint n"
    using uint_lt2p [of n] by (intro mod_pos_pos_trivial) simp_all
  moreover have "Suc (LENGTH('a) - 1) = LENGTH('a)" by simp
  ultimately show ?thesis
    by (simp add: sint_uint signed_take_bit_eq_take_bit_minus take_bit_eq_mod bit_uint_iff)
qed

text \<open>The sign and the size of a number, in the form the two transforms need.\<close>

lemma sint_facts_32:
  fixes n :: int32
  shows "sint n = uint n - (if bit n 31 then 4294967296 else 0)" "bit n 31 \<longleftrightarrow> 2147483648 \<le> uint n"
    "0 \<le> uint n" "uint n < 4294967296"
  using sint_uint_msb [of n] bit_last_iff [of n] sint_lt [of n] sint_ge [of n] uint_lt2p [of n]
  by (auto split: if_splits)

lemma sint_facts_64:
  fixes n :: int64
  shows "sint n = uint n - (if bit n 63 then 18446744073709551616 else 0)"
    "bit n 63 \<longleftrightarrow> 9223372036854775808 \<le> uint n"
    "0 \<le> uint n" "uint n < 18446744073709551616"
  using sint_uint_msb [of n] bit_last_iff [of n] sint_lt [of n] sint_ge [of n] uint_lt2p [of n]
  by (auto split: if_splits)

lemma double_mod: "0 \<le> u \<Longrightarrow> u < m \<Longrightarrow> 2 * u mod m = (if 2 * u < m then 2 * u else 2 * u - m)" for u m :: int
  using mod_pos_pos_trivial [of "2 * u - m" m] minus_mod_self2 [of "2 * u" m] by auto

lemma ZigZagEncode32_value:
  "uint (ZigZagEncode32 n) = (if 0 \<le> sint n then 2 * sint n else - 2 * sint n - 1)"
proof -
  have enc: "ZigZagEncode32 n = (if bit n 31 then NOT (2 * n) else 2 * n)"
    by (rule bit_word_eqI) (auto simp: bit_ZigZagEncode32 bit_not_iff bit_double_iff Suc_le_eq)
  have "uint (2 * n) = (if 2 * uint n < 4294967296 then 2 * uint n else 2 * uint n - 4294967296)"
    using double_mod [of "uint n" 4294967296] sint_facts_32(3,4) [of n] by (simp add: uint_word_ariths)
  then show ?thesis
    using sint_facts_32 [of n] by (cases "bit n 31") (simp_all add: enc uint_not)
qed

lemma ZigZagEncode64_value:
  "uint (ZigZagEncode64 n) = (if 0 \<le> sint n then 2 * sint n else - 2 * sint n - 1)"
proof -
  have enc: "ZigZagEncode64 n = (if bit n 63 then NOT (2 * n) else 2 * n)"
    by (rule bit_word_eqI) (auto simp: bit_ZigZagEncode64 bit_not_iff bit_double_iff Suc_le_eq)
  have "uint (2 * n) = (if 2 * uint n < 18446744073709551616 then 2 * uint n else 2 * uint n - 18446744073709551616)"
    using double_mod [of "uint n" 18446744073709551616] sint_facts_64(3,4) [of n] by (simp add: uint_word_ariths)
  then show ?thesis
    using sint_facts_64 [of n] by (cases "bit n 63") (simp_all add: enc uint_not)
qed

end
