(* ===== verification/Wire_Fields.thy ===== *)
theory Wire_Fields
  imports Wire_Format_Lite
begin

text \<open>
  The parts of \<open>WireFormatLite\<close> that work on whole fields: repeated and packed fields, which add
  to a \<open>RepeatedField\<close>, and embedded groups and messages, which are objects of the class
  \<open>MessageLite\<close> known by its virtual functions only.
\<close>

unbundle bit_operations_syntax

section \<open>Repeated fields\<close>

fun sizeof_value :: "field_type \<Rightarrow> nat" where
  \<comment> \<open>\<open>sizeof(CType)\<close> for the types of fixed size on the wire, for which the templates
    \<open>ReadRepeatedPrimitive\<close> and \<open>ReadPackedPrimitive\<close> are specialised; 0 for the others.\<close>
  "sizeof_value TYPE_FIXED32 = 4"
| "sizeof_value TYPE_FIXED64 = 8"
| "sizeof_value TYPE_SFIXED32 = 4"
| "sizeof_value TYPE_SFIXED64 = 8"
| "sizeof_value TYPE_FLOAT = 4"
| "sizeof_value TYPE_DOUBLE = 8"
| "sizeof_value _ = 0"

fun ReadRepeatedPrimitive_loop ::
    "field_type \<Rightarrow> 's zc_input_ops \<Rightarrow> uint32 \<Rightarrow> nat \<Rightarrow> 's coded_input \<Rightarrow> field_value repeated_field \<Rightarrow>
     (bool \<times> 's coded_input \<times> field_value repeated_field) option" where
  \<comment> \<open>The number is \<open>elements_already_reserved\<close>.\<close>
  "ReadRepeatedPrimitive_loop type ops tag 0 s values = Some (True, s, values)"
| "ReadRepeatedPrimitive_loop type ops tag (Suc n) s values = do {
     (hit, s) \<leftarrow> ExpectTag tag s;
     if \<not> hit then Some (True, s, values)
     else do {
       (r, s) \<leftarrow> ReadPrimitive type ops s;
       case r of
         None \<Rightarrow> Some (False, s, values)
       | Some value \<Rightarrow> do {
           values \<leftarrow> rf_AddAlreadyReserved value values;
           ReadRepeatedPrimitive_loop type ops tag n s values
         }
     }
   }"

definition ReadRepeatedPrimitive_generic ::
    "field_value \<Rightarrow> field_type \<Rightarrow> 's zc_input_ops \<Rightarrow> uint32 \<Rightarrow> 's coded_input \<Rightarrow> field_value repeated_field \<Rightarrow>
     (bool \<times> 's coded_input \<times> field_value repeated_field) option" where
  \<comment> \<open>The unspecialised template; \<open>e0\<close> is the value of \<open>CType()\<close>.\<close>
  "ReadRepeatedPrimitive_generic e0 type ops tag s values =
     do {
       (r, s) \<leftarrow> ReadPrimitive type ops s;
       case r of
         None \<Rightarrow> Some (False, s, values)
       | Some value \<Rightarrow> do {
           values \<leftarrow> rf_Add e0 value values;
           let elements_already_reserved = rf_Capacity values - rf_size values;
           ReadRepeatedPrimitive_loop type ops tag (nat elements_already_reserved) s values
         }
     }"

fun ReadRepeatedFixed_loop ::
    "field_type \<Rightarrow> uint32 \<Rightarrow> bytes \<Rightarrow> nat \<Rightarrow> int \<Rightarrow> int \<Rightarrow> field_value repeated_field \<Rightarrow>
     (int \<times> field_value repeated_field) option" where
  \<comment> \<open>The loop over the raw buffer: the rounds left, \<open>num_read\<close> and the pointer; the result is the
    final \<open>num_read\<close>.\<close>
  "ReadRepeatedFixed_loop type tag mem 0 num_read buffer values = Some (num_read, values)"
| "ReadRepeatedFixed_loop type tag mem (Suc n) num_read buffer values = do {
     p \<leftarrow> ExpectTagFromArray mem buffer tag;
     case p of
       None \<Rightarrow> Some (num_read, values)
     | Some buffer \<Rightarrow> do {
         (value, buffer) \<leftarrow> ReadPrimitiveFromArray type mem buffer;
         values \<leftarrow> rf_AddAlreadyReserved value values;
         ReadRepeatedFixed_loop type tag mem n (num_read + 1) buffer values
       }
   }"

definition ReadRepeatedFixedSizePrimitive ::
    "field_value \<Rightarrow> field_type \<Rightarrow> 's zc_input_ops \<Rightarrow> int \<Rightarrow> uint32 \<Rightarrow> 's coded_input \<Rightarrow>
     field_value repeated_field \<Rightarrow> (bool \<times> 's coded_input \<times> field_value repeated_field) option" where
  \<comment> \<open>\<open>GetDirectBufferPointerInline\<close> gives \<open>buffer_\<close> and \<open>BufferSize()\<close>.\<close>
  "ReadRepeatedFixedSizePrimitive e0 type ops tag_size tag s values =
     do {
       (r, s) \<leftarrow> ReadPrimitive type ops s;
       case r of
         None \<Rightarrow> Some (False, s, values)
       | Some value \<Rightarrow> do {
           values \<leftarrow> rf_Add e0 value values;
           let size = BufferSize s;
           if size > 0 then do {
             let per_value_size = tag_size + int (sizeof_value type);
             let elements_available = min (rf_Capacity values - rf_size values) (size sdiv per_value_size);
             (num_read, values) \<leftarrow>
               ReadRepeatedFixed_loop type tag (cis_chunk s) (nat elements_available) 0 (cis_buffer s) values;
             let read_bytes = num_read * per_value_size;
             s \<leftarrow> (if read_bytes > 0 then map_option snd (Skip ops read_bytes s) else Some s);
             Some (True, s, values)
           }
           else Some (True, s, values)
         }
     }"

definition ReadRepeatedPrimitive ::
    "field_value \<Rightarrow> field_type \<Rightarrow> 's zc_input_ops \<Rightarrow> int \<Rightarrow> uint32 \<Rightarrow> 's coded_input \<Rightarrow>
     field_value repeated_field \<Rightarrow> (bool \<times> 's coded_input \<times> field_value repeated_field) option" where
  \<comment> \<open>The template with its specialisations.\<close>
  "ReadRepeatedPrimitive e0 type ops tag_size tag s values =
     (if sizeof_value type \<noteq> 0 then ReadRepeatedFixedSizePrimitive e0 type ops tag_size tag s values
      else ReadRepeatedPrimitive_generic e0 type ops tag s values)"

section \<open>Packed fields\<close>

partial_function (option) ReadPackedPrimitive_loop ::
    "field_value \<Rightarrow> field_type \<Rightarrow> 's zc_input_ops \<Rightarrow> 's coded_input \<Rightarrow> field_value repeated_field \<Rightarrow>
     (bool \<times> 's coded_input \<times> field_value repeated_field) option" where
  \<comment> \<open>\<open>while (input->BytesUntilLimit() > 0)\<close>\<close>
  "ReadPackedPrimitive_loop e0 type ops s values =
     (if BytesUntilLimit s > 0 then do {
        (r, s) \<leftarrow> ReadPrimitive type ops s;
        case r of
          None \<Rightarrow> Some (False, s, values)
        | Some value \<Rightarrow> do {
            values \<leftarrow> rf_Add e0 value values;
            ReadPackedPrimitive_loop e0 type ops s values
          }
      }
      else Some (True, s, values))"

definition ReadPackedPrimitive_generic ::
    "field_value \<Rightarrow> field_type \<Rightarrow> 's zc_input_ops \<Rightarrow> 's coded_input \<Rightarrow> field_value repeated_field \<Rightarrow>
     (bool \<times> 's coded_input \<times> field_value repeated_field) option" where
  "ReadPackedPrimitive_generic e0 type ops s values =
     do {
       (ok, len, s) \<leftarrow> ReadVarintSizeAsInt ops s;
       if \<not> ok then Some (False, s, values)
       else do {
         let (limit, s) = PushLimit len s;
         (ok, s, values) \<leftarrow> ReadPackedPrimitive_loop e0 type ops s values;
         if \<not> ok then Some (False, s, values) else Some (True, PopLimit limit s, values)
       }
     }"

fun ReadPackedFixed_loop ::
    "('v \<Rightarrow> 'v repeated_field \<Rightarrow> 'v repeated_field option) \<Rightarrow>
     ('s coded_input \<Rightarrow> ('v option \<times> 's coded_input) option) \<Rightarrow>
     nat \<Rightarrow> 's coded_input \<Rightarrow> 'v repeated_field \<Rightarrow> (bool \<times> 's coded_input \<times> 'v repeated_field) option" where
  \<comment> \<open>The two \<open>for (int i = 0; i < new_entries; ++i)\<close> loops, which differ in the way they add.\<close>
  "ReadPackedFixed_loop add rd 0 s values = Some (True, s, values)"
| "ReadPackedFixed_loop add rd (Suc n) s values = do {
     (r, s) \<leftarrow> rd s;
     case r of
       None \<Rightarrow> Some (False, s, values)
     | Some value \<Rightarrow> do { values \<leftarrow> add value values; ReadPackedFixed_loop add rd n s values }
   }"

definition ReadPackedFixedSizePrimitive ::
    "field_value \<Rightarrow> field_type \<Rightarrow> 's zc_input_ops \<Rightarrow> 's coded_input \<Rightarrow> field_value repeated_field \<Rightarrow>
     (bool \<times> 's coded_input \<times> field_value repeated_field) option" where
  \<comment> \<open>\<open>length / sizeof(CType)\<close> divides two unsigned numbers; \<open>length\<close> is not negative there.\<close>
  "ReadPackedFixedSizePrimitive e0 type ops s values =
     do {
       (ok, len, s) \<leftarrow> ReadVarintSizeAsInt ops s;
       if \<not> ok then Some (False, s, values)
       else do {
         let old_entries = rf_size values;
         let new_entries = len div int (sizeof_value type);
         let new_bytes = new_entries * int (sizeof_value type);
         if new_bytes \<noteq> len then Some (False, s, values)
         else do {
           let bytes_limit = (if BytesUntilTotalBytesLimit s = -1 then BytesUntilLimit s
                              else min (BytesUntilTotalBytesLimit s) (BytesUntilLimit s));
           if bytes_limit \<ge> new_bytes then do {
             values \<leftarrow> rf_Reserve e0 (old_entries + new_entries) values;
             ReadPackedFixed_loop rf_AddAlreadyReserved (ReadPrimitive type ops) (nat new_entries) s values
           }
           else ReadPackedFixed_loop (rf_Add e0) (ReadPrimitive type ops) (nat new_entries) s values
         }
       }
     }"

definition ReadPackedPrimitive ::
    "field_value \<Rightarrow> field_type \<Rightarrow> 's zc_input_ops \<Rightarrow> 's coded_input \<Rightarrow> field_value repeated_field \<Rightarrow>
     (bool \<times> 's coded_input \<times> field_value repeated_field) option" where
  \<comment> \<open>The template with its specialisations.\<close>
  "ReadPackedPrimitive e0 type ops s values =
     (if sizeof_value type \<noteq> 0 then ReadPackedFixedSizePrimitive e0 type ops s values
      else ReadPackedPrimitive_generic e0 type ops s values)"

definition enum_is_valid :: "(int32 \<Rightarrow> bool) option \<Rightarrow> field_value \<Rightarrow> bool" where
  \<comment> \<open>\<open>is_valid == NULL || is_valid(value)\<close>\<close>
  "enum_is_valid is_valid value \<longleftrightarrow>
     (case is_valid of None \<Rightarrow> True | Some f \<Rightarrow> (case value of Enum v \<Rightarrow> f v | _ \<Rightarrow> False))"

partial_function (option) ReadPackedEnum_loop ::
    "(int32 \<Rightarrow> bool) option \<Rightarrow> ('u \<Rightarrow> field_value \<Rightarrow> 'u option) \<Rightarrow> 's zc_input_ops \<Rightarrow> 's coded_input \<Rightarrow>
     field_value repeated_field \<Rightarrow> 'u \<Rightarrow> (bool \<times> 's coded_input \<times> field_value repeated_field \<times> 'u) option" where
  \<comment> \<open>The loop of the three packed enum readers; the function says what becomes of an unknown value.\<close>
  "ReadPackedEnum_loop is_valid unknown ops s values u =
     (if BytesUntilLimit s > 0 then do {
        (r, s) \<leftarrow> ReadPrimitive TYPE_ENUM ops s;
        case r of
          None \<Rightarrow> Some (False, s, values, u)
        | Some value \<Rightarrow>
            if enum_is_valid is_valid value then do {
              values \<leftarrow> rf_Add (Enum 0) value values;
              ReadPackedEnum_loop is_valid unknown ops s values u
            }
            else do {
              u \<leftarrow> unknown u value;
              ReadPackedEnum_loop is_valid unknown ops s values u
            }
      }
      else Some (True, s, values, u))"

definition ReadPackedEnum ::
    "(int32 \<Rightarrow> bool) option \<Rightarrow> ('u \<Rightarrow> field_value \<Rightarrow> 'u option) \<Rightarrow> 's zc_input_ops \<Rightarrow> 's coded_input \<Rightarrow>
     field_value repeated_field \<Rightarrow> 'u \<Rightarrow> (bool \<times> 's coded_input \<times> field_value repeated_field \<times> 'u) option" where
  \<comment> \<open>The body the packed enum readers share; the \<open>uint32\<close> length becomes an \<open>int\<close>.\<close>
  "ReadPackedEnum is_valid unknown ops s values u =
     do {
       (r, s) \<leftarrow> ReadVarint32 ops s;
       case r of
         None \<Rightarrow> Some (False, s, values, u)
       | Some len \<Rightarrow> do {
           let (limit, s) = PushLimit (sint len) s;
           (ok, s, values, u) \<leftarrow> ReadPackedEnum_loop is_valid unknown ops s values u;
           if \<not> ok then Some (False, s, values, u) else Some (True, PopLimit limit s, values, u)
         }
     }"

definition ReadPackedEnumNoInline ::
    "(int32 \<Rightarrow> bool) option \<Rightarrow> 's zc_input_ops \<Rightarrow> 's coded_input \<Rightarrow> field_value repeated_field \<Rightarrow>
     (bool \<times> 's coded_input \<times> field_value repeated_field) option" where
  "ReadPackedEnumNoInline is_valid ops s values =
     do {
       (ok, s, values, _) \<leftarrow> ReadPackedEnum is_valid (\<lambda>_ _. Some ()) ops s values ();
       Some (ok, s, values)
     }"

fun enum_value :: "field_value \<Rightarrow> int32" where
  "enum_value (Enum v) = v"
| "enum_value _ = 0"

definition ReadPackedEnumPreserveUnknowns_lite ::
    "int32 \<Rightarrow> (int32 \<Rightarrow> bool) option \<Rightarrow> 'o zc_output_ops \<Rightarrow> 's zc_input_ops \<Rightarrow> 's coded_input \<Rightarrow>
     field_value repeated_field \<Rightarrow> 'o coded_output \<Rightarrow>
     (bool \<times> 's coded_input \<times> field_value repeated_field \<times> 'o coded_output) option" where
  "ReadPackedEnumPreserveUnknowns_lite field_number is_valid wops ops s values unknown_fields_stream =
     ReadPackedEnum is_valid
       (\<lambda>u value. do {
          let tag = MakeTag field_number WIRETYPE_VARINT;
          u \<leftarrow> WriteVarint32 wops tag u;
          WriteVarint32 wops (enum_value value) u
        }) ops s values unknown_fields_stream"

section \<open>Groups and messages\<close>

record ('s, 'o, 'm) message_ops =
  msg_MergePartialFromCodedStream :: "'s coded_input \<Rightarrow> 'm \<Rightarrow> (bool \<times> 's coded_input \<times> 'm) option"
  msg_ByteSizeLong :: "'m \<Rightarrow> nat"
  msg_GetCachedSize :: "'m \<Rightarrow> int"
  msg_SerializeWithCachedSizes :: "'m \<Rightarrow> 'o coded_output \<Rightarrow> 'o coded_output option"
  msg_SerializeToArray :: "bool \<Rightarrow> 'm \<Rightarrow> bytes"

definition LastTagWas_end_group :: "int32 \<Rightarrow> 's coded_input \<Rightarrow> bool" where
  "LastTagWas_end_group field_number s = LastTagWas (MakeTag field_number WIRETYPE_END_GROUP) s"

definition ReadGroup ::
    "('s, 'o, 'm) message_ops \<Rightarrow> int32 \<Rightarrow> 's coded_input \<Rightarrow> 'm \<Rightarrow> (bool \<times> 's coded_input \<times> 'm) option" where
  "ReadGroup mops field_number s value =
     (let (ok, s) = IncrementRecursionDepth s in
      if \<not> ok then Some (False, s, value)
      else do {
        (ok, s, value) \<leftarrow> msg_MergePartialFromCodedStream mops s value;
        if \<not> ok then Some (False, s, value)
        else (let s = DecrementRecursionDepth s in
              Some (LastTagWas_end_group field_number s, s, value))
      })"

definition ReadMessage ::
    "('s, 'o, 'm) message_ops \<Rightarrow> 's zc_input_ops \<Rightarrow> 's coded_input \<Rightarrow> 'm \<Rightarrow> (bool \<times> 's coded_input \<times> 'm) option" where
  "ReadMessage mops ops s value =
     do {
       (ok, len, s) \<leftarrow> ReadVarintSizeAsInt ops s;
       if \<not> ok then Some (False, s, value)
       else do {
         let ((old_limit, budget), s) = IncrementRecursionDepthAndPushLimit len s;
         if budget < 0 then Some (False, s, value)
         else do {
           (ok, s, value) \<leftarrow> msg_MergePartialFromCodedStream mops s value;
           if \<not> ok then Some (False, s, value)
           else (let (ok, s) = DecrementRecursionDepthAndPopLimit old_limit s in Some (ok, s, value))
         }
       }
     }"

definition ReadGroupNoVirtual ::
    "('s, 'o, 'm) message_ops \<Rightarrow> int32 \<Rightarrow> 's coded_input \<Rightarrow> 'm \<Rightarrow> (bool \<times> 's coded_input \<times> 'm) option" where
  "ReadGroupNoVirtual mops field_number s value =
     (let (ok, s) = IncrementRecursionDepth s in
      if \<not> ok then Some (False, s, value)
      else do {
        (ok, s, value) \<leftarrow> msg_MergePartialFromCodedStream mops s value;
        if \<not> ok then Some (False, s, value)
        else (let s = UnsafeDecrementRecursionDepth s in
              Some (LastTagWas_end_group field_number s, s, value))
      })"

definition ReadGroupNoVirtualNoRecursionDepth ::
    "('s, 'o, 'm) message_ops \<Rightarrow> int32 \<Rightarrow> 's coded_input \<Rightarrow> 'm \<Rightarrow> (bool \<times> 's coded_input \<times> 'm) option" where
  "ReadGroupNoVirtualNoRecursionDepth mops field_number s value =
     do {
       (ok, s, value) \<leftarrow> msg_MergePartialFromCodedStream mops s value;
       Some (ok \<and> LastTagWas_end_group field_number s, s, value)
     }"

definition ReadMessageNoVirtual ::
    "('s, 'o, 'm) message_ops \<Rightarrow> 's zc_input_ops \<Rightarrow> 's coded_input \<Rightarrow> 'm \<Rightarrow> (bool \<times> 's coded_input \<times> 'm) option" where
  "ReadMessageNoVirtual mops ops s value = ReadMessage mops ops s value"

definition ReadMessageNoVirtualNoRecursionDepth ::
    "('s, 'o, 'm) message_ops \<Rightarrow> 's zc_input_ops \<Rightarrow> 's coded_input \<Rightarrow> 'm \<Rightarrow> (bool \<times> 's coded_input \<times> 'm) option" where
  "ReadMessageNoVirtualNoRecursionDepth mops ops s value =
     do {
       (old_limit, s) \<leftarrow> ReadLengthAndPushLimit ops s;
       (ok, s, value) \<leftarrow> msg_MergePartialFromCodedStream mops s value;
       if \<not> ok then Some (False, s, value)
       else (let (ok, s) = CheckEntireMessageConsumedAndPopLimit old_limit s in Some (ok, s, value))
     }"

definition WriteGroup ::
    "('s, 'o, 'm) message_ops \<Rightarrow> 'o zc_output_ops \<Rightarrow> int32 \<Rightarrow> 'm \<Rightarrow> 'o coded_output \<Rightarrow> 'o coded_output option" where
  \<comment> \<open>\<open>WriteGroup\<close> and \<open>WriteGroupNoVirtual\<close>\<close>
  "WriteGroup mops ops field_number value s =
     do {
       s \<leftarrow> WriteTag_field ops field_number WIRETYPE_START_GROUP s;
       s \<leftarrow> msg_SerializeWithCachedSizes mops value s;
       WriteTag_field ops field_number WIRETYPE_END_GROUP s
     }"

definition WriteMessage ::
    "('s, 'o, 'm) message_ops \<Rightarrow> 'o zc_output_ops \<Rightarrow> int32 \<Rightarrow> 'm \<Rightarrow> 'o coded_output \<Rightarrow> 'o coded_output option" where
  \<comment> \<open>\<open>WriteMessage\<close> and \<open>WriteMessageNoVirtual\<close>\<close>
  "WriteMessage mops ops field_number value s =
     do {
       s \<leftarrow> WriteTag_field ops field_number WIRETYPE_LENGTH_DELIMITED s;
       let size = msg_GetCachedSize mops value;
       s \<leftarrow> WriteVarint32 ops (word_of_int size) s;
       msg_SerializeWithCachedSizes mops value s
     }"

definition serialize_maybe_to_array ::
    "('s, 'o, 'm) message_ops \<Rightarrow> 'o zc_output_ops \<Rightarrow> bool \<Rightarrow> 'm \<Rightarrow> int \<Rightarrow> 'o coded_output \<Rightarrow> 'o coded_output option" where
  \<comment> \<open>Serialise straight into the output buffer if \<open>n\<close> bytes are free there. The flag is the
    static default of \<open>IsSerializationDeterminstic\<close>. More bytes than the buffer has is \<open>None\<close>.\<close>
  "serialize_maybe_to_array mops ops dflt value n s =
     (case GetDirectBufferForNBytesAndAdvance n s of
        (Some target, t) \<Rightarrow>
          (let bs = msg_SerializeToArray mops (IsSerializationDeterminstic dflt t) value in
           if bs = [] then Some t
           else if int (length bs) \<le> cos_buffer_size s
           then Some (t\<lparr>cos_output := out_poke ops target bs (cos_output t)\<rparr>) else None)
      | (None, t) \<Rightarrow> msg_SerializeWithCachedSizes mops value t)"

definition WriteGroupMaybeToArray ::
    "('s, 'o, 'm) message_ops \<Rightarrow> 'o zc_output_ops \<Rightarrow> bool \<Rightarrow> int32 \<Rightarrow> 'm \<Rightarrow> 'o coded_output \<Rightarrow> 'o coded_output option" where
  "WriteGroupMaybeToArray mops ops dflt field_number value s =
     do {
       s \<leftarrow> WriteTag_field ops field_number WIRETYPE_START_GROUP s;
       let size = msg_GetCachedSize mops value;
       s \<leftarrow> serialize_maybe_to_array mops ops dflt value size s;
       WriteTag_field ops field_number WIRETYPE_END_GROUP s
     }"

definition WriteMessageMaybeToArray ::
    "('s, 'o, 'm) message_ops \<Rightarrow> 'o zc_output_ops \<Rightarrow> bool \<Rightarrow> int32 \<Rightarrow> 'm \<Rightarrow> 'o coded_output \<Rightarrow> 'o coded_output option" where
  "WriteMessageMaybeToArray mops ops dflt field_number value s =
     do {
       s \<leftarrow> WriteTag_field ops field_number WIRETYPE_LENGTH_DELIMITED s;
       let size = msg_GetCachedSize mops value;
       s \<leftarrow> WriteVarint32 ops (word_of_int size) s;
       serialize_maybe_to_array mops ops dflt value size s
     }"

definition InternalWriteGroupToArray :: "('s, 'o, 'm) message_ops \<Rightarrow> int32 \<Rightarrow> 'm \<Rightarrow> bool \<Rightarrow> bytes" where
  "InternalWriteGroupToArray mops field_number value deterministic =
     WriteTagToArray_field field_number WIRETYPE_START_GROUP @
     msg_SerializeToArray mops deterministic value @
     WriteTagToArray_field field_number WIRETYPE_END_GROUP"

definition InternalWriteMessageToArray :: "('s, 'o, 'm) message_ops \<Rightarrow> int32 \<Rightarrow> 'm \<Rightarrow> bool \<Rightarrow> bytes" where
  "InternalWriteMessageToArray mops field_number value deterministic =
     WriteTagToArray_field field_number WIRETYPE_LENGTH_DELIMITED @
     WriteVarint32ToArray (word_of_int (msg_GetCachedSize mops value)) @
     msg_SerializeToArray mops deterministic value"

definition GroupSize :: "('s, 'o, 'm) message_ops \<Rightarrow> 'm \<Rightarrow> nat" where
  "GroupSize mops value = msg_ByteSizeLong mops value"

definition MessageSize :: "('s, 'o, 'm) message_ops \<Rightarrow> 'm \<Rightarrow> nat" where
  "MessageSize mops value = LengthDelimitedSize (msg_ByteSizeLong mops value)"

end
