(* ===== verification/Unknown_Fields.thy ===== *)
theory Unknown_Fields
  imports Wire_Format_Lite
begin

text \<open>
  \<open>UnknownFieldSet\<close> and \<open>UnknownField\<close> (\<open>unknown_field_set.h\<close>, \<open>unknown_field_set.cc\<close>): the data a
  parser keeps for fields its message type does not declare.

  A field is one constructor per \<open>UnknownField::Type\<close>, each with the number and the member of the
  union that type uses. A set is its pointer \<open>fields_\<close>: \<open>None\<close> for null, or the vector. The sets
  own their fields, so values stand for the heap objects and \<open>Delete\<close> leaves no trace; an access
  through the null pointer or outside the vector is \<open>None\<close> in the result.
\<close>

section \<open>Data\<close>

datatype unknown_field =
    Unknown_Varint (uf_number: int32) uint64
  | Unknown_Fixed32 (uf_number: int32) uint32
  | Unknown_Fixed64 (uf_number: int32) uint64
  | Unknown_LengthDelimited (uf_number: int32) bytes
  | Unknown_Group (uf_number: int32) "unknown_field list option"

type_synonym unknown_field_set = "unknown_field list option"

definition UnknownFieldSet :: unknown_field_set where
  "UnknownFieldSet = None"

definition ufs_fields :: "unknown_field_set \<Rightarrow> unknown_field list" where
  \<comment> \<open>The vector after \<open>if (fields_ == NULL) fields_ = new vector<UnknownField>();\<close>\<close>
  "ufs_fields s = (case s of None \<Rightarrow> [] | Some fs \<Rightarrow> fs)"

definition ufs_empty :: "unknown_field_set \<Rightarrow> bool" where
  "ufs_empty s \<longleftrightarrow> s = None"

definition ufs_field_count :: "unknown_field_set \<Rightarrow> int" where
  "ufs_field_count s = (case s of None \<Rightarrow> 0 | Some fs \<Rightarrow> int (length fs))"

definition ufs_field :: "int \<Rightarrow> unknown_field_set \<Rightarrow> unknown_field option" where
  "ufs_field index s =
     do {
       fs \<leftarrow> s;
       if 0 \<le> index \<and> nat index < length fs then Some (fs ! nat index) else None
     }"

section \<open>Clearing and copying\<close>

fun ClearFallback :: "unknown_field_set \<Rightarrow> unknown_field_set option" where
  \<comment> \<open>The loop deletes from the last field down; it starts with the last one whatever the size is.\<close>
  "ClearFallback None = None"
| "ClearFallback (Some []) = None"
| "ClearFallback (Some (f # fs)) = Some None"

definition ufs_Clear :: "unknown_field_set \<Rightarrow> unknown_field_set option" where
  "ufs_Clear s = (if s \<noteq> None then ClearFallback s else Some s)"

fun InternalMergeFrom :: "unknown_field_set \<Rightarrow> unknown_field_set"
  and DeepCopy :: "unknown_field \<Rightarrow> unknown_field" where
  \<comment> \<open>\<open>InternalMergeFrom\<close> gives the empty set the fields of its argument; a field makes copies of what
    it owns.\<close>
  "InternalMergeFrom None = None"
| "InternalMergeFrom (Some fs) = (if length fs > 0 then Some (map DeepCopy fs) else None)"
| "DeepCopy (Unknown_LengthDelimited n s) = Unknown_LengthDelimited n s"
| "DeepCopy (Unknown_Group n g) = Unknown_Group n (InternalMergeFrom g)"
| "DeepCopy (Unknown_Varint n v) = Unknown_Varint n v"
| "DeepCopy (Unknown_Fixed32 n v) = Unknown_Fixed32 n v"
| "DeepCopy (Unknown_Fixed64 n v) = Unknown_Fixed64 n v"

definition ufs_MergeFrom :: "unknown_field_set \<Rightarrow> unknown_field_set \<Rightarrow> unknown_field_set" where
  "ufs_MergeFrom other s =
     (if ufs_field_count other > 0 then Some (ufs_fields s @ map DeepCopy (ufs_fields other)) else s)"

definition ufs_MergeFromAndDestroy ::
    "unknown_field_set \<Rightarrow> unknown_field_set \<Rightarrow> unknown_field_set \<times> unknown_field_set" where
  \<comment> \<open>This set and the other one afterwards.\<close>
  "ufs_MergeFromAndDestroy other s =
     (if ufs_field_count other > 0 then Some (ufs_fields s @ ufs_fields other) else s, None)"

definition ufs_Swap :: "unknown_field_set \<Rightarrow> unknown_field_set \<Rightarrow> unknown_field_set \<times> unknown_field_set" where
  "ufs_Swap x s = (x, s)"

section \<open>Adding fields\<close>

definition ufs_push :: "unknown_field \<Rightarrow> unknown_field_set \<Rightarrow> unknown_field_set" where
  "ufs_push f s = Some (ufs_fields s @ [f])"

definition AddVarint :: "int32 \<Rightarrow> uint64 \<Rightarrow> unknown_field_set \<Rightarrow> unknown_field_set" where
  "AddVarint number value s = ufs_push (Unknown_Varint number value) s"

definition AddFixed32 :: "int32 \<Rightarrow> uint32 \<Rightarrow> unknown_field_set \<Rightarrow> unknown_field_set" where
  "AddFixed32 number value s = ufs_push (Unknown_Fixed32 number value) s"

definition AddFixed64 :: "int32 \<Rightarrow> uint64 \<Rightarrow> unknown_field_set \<Rightarrow> unknown_field_set" where
  "AddFixed64 number value s = ufs_push (Unknown_Fixed64 number value) s"

definition AddLengthDelimited :: "int32 \<Rightarrow> bytes \<Rightarrow> unknown_field_set \<Rightarrow> unknown_field_set" where
  \<comment> \<open>The string is what the caller stores through the returned pointer.\<close>
  "AddLengthDelimited number value s = ufs_push (Unknown_LengthDelimited number value) s"

definition AddGroup :: "int32 \<Rightarrow> unknown_field_set \<Rightarrow> unknown_field_set \<Rightarrow> unknown_field_set" where
  \<comment> \<open>The group is what the caller makes of the new set behind the returned pointer.\<close>
  "AddGroup number g s = ufs_push (Unknown_Group number g) s"

definition AddField :: "unknown_field \<Rightarrow> unknown_field_set \<Rightarrow> unknown_field_set" where
  "AddField field s = Some (ufs_fields s @ [DeepCopy field])"

section \<open>Deleting fields\<close>

definition in_range :: "int \<Rightarrow> 'a list \<Rightarrow> bool" where
  "in_range i xs \<longleftrightarrow> 0 \<le> i \<and> nat i < length xs"

function slide_fields :: "int \<Rightarrow> int \<Rightarrow> unknown_field list \<Rightarrow> unknown_field list option" where
  \<comment> \<open>\<open>for (i = start + num; i < fields_->size(); ++i) (*fields_)[i - num] = (*fields_)[i];\<close> The
    comparison is one of unsigned numbers, so a negative \<open>i\<close> ends the loop.\<close>
  "slide_fields i num fs =
     (if in_range i fs then
        if in_range (i - num) fs then slide_fields (i + 1) num (fs[nat (i - num) := fs ! nat i]) else None
      else Some fs)"
  by pat_completeness auto
termination
  by (relation "measure (\<lambda>(i, num, fs). nat (int (length fs) - i))") (auto simp: in_range_def)

declare slide_fields.simps [simp del]

definition DeleteSubrange :: "int \<Rightarrow> int \<Rightarrow> unknown_field_set \<Rightarrow> unknown_field_set option" where
  \<comment> \<open>The three loops: delete, slide down, pop. Each goes through \<open>fields_\<close>, the second one even
    when \<open>num\<close> is 0.\<close>
  "DeleteSubrange start num s =
     do {
       fs \<leftarrow> s;
       if list_all (\<lambda>i. in_range (int i + start) fs) [0..<nat num] then do {
         fs \<leftarrow> slide_fields (start + num) num fs;
         if nat num \<le> length fs then
           (let fs = take (length fs - nat num) fs in Some (if length fs = 0 then None else Some fs))
         else None
       }
       else None
     }"

fun delete_by_number_loop ::
    "int32 \<Rightarrow> nat \<Rightarrow> nat \<Rightarrow> nat \<Rightarrow> unknown_field list \<Rightarrow> unknown_field list \<times> nat" where
  \<comment> \<open>Rounds left, \<open>i\<close> and \<open>left\<close>.\<close>
  "delete_by_number_loop number 0 i left fs = (fs, left)"
| "delete_by_number_loop number (Suc k) i left fs =
     (if uf_number (fs ! i) = number then delete_by_number_loop number k (i + 1) left fs
      else delete_by_number_loop number k (i + 1) (left + 1)
             (if i \<noteq> left then fs[left := fs ! i] else fs))"

definition DeleteByNumber :: "int32 \<Rightarrow> unknown_field_set \<Rightarrow> unknown_field_set" where
  "DeleteByNumber number s =
     (case s of
        None \<Rightarrow> None
      | Some fs \<Rightarrow>
          (let (fs, left) = delete_by_number_loop number (length fs) 0 0 fs; fs = take left fs in
           if left = 0 then None else Some fs))"

section \<open>Invariant\<close>

text \<open>The comment on \<open>fields_\<close> in the header: it is null or points to a vector that is not empty.\<close>

fun uf_wf :: "unknown_field \<Rightarrow> bool" and ufs_wf :: "unknown_field_set \<Rightarrow> bool" where
  "uf_wf (Unknown_Group n g) = ufs_wf g"
| "uf_wf (Unknown_Varint n v) = True"
| "uf_wf (Unknown_Fixed32 n v) = True"
| "uf_wf (Unknown_Fixed64 n v) = True"
| "uf_wf (Unknown_LengthDelimited n v) = True"
| "ufs_wf None = True"
| "ufs_wf (Some fs) \<longleftrightarrow> fs \<noteq> [] \<and> list_all uf_wf fs"

definition ufs_of :: "unknown_field list \<Rightarrow> unknown_field_set" where
  \<comment> \<open>The set that holds these fields.\<close>
  "ufs_of fs = (if fs = [] then None else Some fs)"

lemma ufs_fields_of [simp]: "ufs_fields (ufs_of fs) = fs"
  by (simp add: ufs_fields_def ufs_of_def)

lemma ufs_of_fields [simp]: "ufs_wf s \<Longrightarrow> ufs_of (ufs_fields s) = s"
  by (cases s) (auto simp: ufs_fields_def ufs_of_def)

lemma ufs_wf_of: "ufs_wf (ufs_of fs) \<longleftrightarrow> list_all uf_wf fs"
  by (simp add: ufs_of_def)

lemma ufs_push_of [simp]: "ufs_push f (ufs_of fs) = ufs_of (fs @ [f])"
  by (simp add: ufs_push_def ufs_of_def ufs_fields_def)

lemma ufs_wf_push: "ufs_wf s \<Longrightarrow> uf_wf f \<Longrightarrow> ufs_wf (ufs_push f s)"
  by (cases s) (auto simp: ufs_push_def ufs_fields_def)

lemma InternalMergeFrom_id: "ufs_wf s \<Longrightarrow> InternalMergeFrom s = s" and DeepCopy_id: "uf_wf f \<Longrightarrow> DeepCopy f = f"
proof (induction s and f rule: InternalMergeFrom_DeepCopy.induct)
  case (2 fs)
  then have "map DeepCopy fs = fs"
    by (intro map_idI) (auto simp: list_all_iff)
  with 2(2) show ?case by simp
qed auto

lemma map_DeepCopy [simp]: "list_all uf_wf fs \<Longrightarrow> map DeepCopy fs = fs"
  by (intro map_idI) (auto simp: list_all_iff DeepCopy_id)

lemma ufs_MergeFrom_of:
  "list_all uf_wf fs \<Longrightarrow> ufs_MergeFrom (ufs_of fs) (ufs_of gs) = ufs_of (gs @ fs)"
  by (auto simp: ufs_MergeFrom_def ufs_field_count_def ufs_of_def ufs_fields_def)

lemma ufs_MergeFromAndDestroy_of:
  "ufs_MergeFromAndDestroy (ufs_of fs) (ufs_of gs) = (ufs_of (gs @ fs), ufs_of [])"
  by (auto simp: ufs_MergeFromAndDestroy_def ufs_field_count_def ufs_of_def ufs_fields_def)

lemma ufs_Clear_of: "ufs_Clear (ufs_of fs) = Some (ufs_of [])"
  by (cases fs) (auto simp: ufs_Clear_def ufs_of_def)

lemma delete_by_number_loop_ok:
  "fs = kept @ junk @ rest \<Longrightarrow> left = length kept \<Longrightarrow> i = length kept + length junk \<Longrightarrow> k = length rest \<Longrightarrow>
   \<exists>junk'. delete_by_number_loop number k i left fs =
     (kept @ filter (\<lambda>f. uf_number f \<noteq> number) rest @ junk', length kept + length (filter (\<lambda>f. uf_number f \<noteq> number) rest))"
proof (induction k arbitrary: i left fs kept junk rest)
  case 0
  then show ?case by auto
next
  case (Suc k)
  then obtain f rest' where rest: "rest = f # rest'" "length rest' = k"
    by (cases rest) auto
  have nth: "fs ! i = f"
    using Suc.prems rest by (simp add: nth_append)
  note prems = Suc.prems(1-3) Suc.prems(4) [unfolded rest(1)]
  show ?case
  proof (cases "uf_number f = number")
    case True
    have "\<exists>junk'. delete_by_number_loop number k (i + 1) left fs =
        (kept @ filter (\<lambda>f. uf_number f \<noteq> number) rest' @ junk', length kept + length (filter (\<lambda>f. uf_number f \<noteq> number) rest'))"
      using Suc.prems rest by (intro Suc.IH [of _ _ "junk @ [f]"]) auto
    with True nth rest show ?thesis by simp
  next
    case False
    let ?fs = "if i \<noteq> left then fs[left := fs ! i] else fs"
    have "?fs = (kept @ [f]) @ tl (junk @ [f]) @ rest'"
    proof (cases junk)
      case Nil
      with Suc.prems rest show ?thesis by simp
    next
      case (Cons j js)
      with Suc.prems(1-3) rest nth show ?thesis by (simp add: list_update_append)
    qed
    moreover have "length (tl (junk @ [f])) = length junk" by simp
    ultimately have "\<exists>junk'. delete_by_number_loop number k (i + 1) (left + 1) ?fs =
        ((kept @ [f]) @ filter (\<lambda>f. uf_number f \<noteq> number) rest' @ junk',
         length (kept @ [f]) + length (filter (\<lambda>f. uf_number f \<noteq> number) rest'))"
      using Suc.prems rest by (intro Suc.IH [of _ _ "tl (junk @ [f])"]) auto
    with False nth rest show ?thesis by auto
  qed
qed

lemma DeleteByNumber_of:
  "DeleteByNumber number (ufs_of fs) = ufs_of (filter (\<lambda>f. uf_number f \<noteq> number) fs)"
proof (cases "fs = []")
  case False
  obtain junk where "delete_by_number_loop number (length fs) 0 0 fs =
      (filter (\<lambda>f. uf_number f \<noteq> number) fs @ junk, length (filter (\<lambda>f. uf_number f \<noteq> number) fs))"
    using delete_by_number_loop_ok [of fs "[]" "[]" fs 0 0 "length fs" number] by auto
  with False show ?thesis
    by (simp add: DeleteByNumber_def ufs_of_def)
qed (simp add: DeleteByNumber_def ufs_of_def)

lemma slide_fields_ok:
  "fs = pre @ gap @ mid \<Longrightarrow> i = int (length pre + length gap) \<Longrightarrow> num = int (length gap) \<Longrightarrow>
   \<exists>gap'. slide_fields i num fs = Some (pre @ mid @ gap') \<and> length gap' = length gap"
proof (induction mid arbitrary: fs pre gap i)
  case Nil
  then show ?case
    by (subst slide_fields.simps) (simp add: in_range_def nat_add_distrib)
next
  case (Cons m mid)
  have range: "in_range i fs" "in_range (i - num) fs"
    using Cons.prems by (simp_all add: in_range_def nat_add_distrib)
  have upd: "fs[nat (i - num) := fs ! nat i] = (pre @ [m]) @ tl (gap @ [m]) @ mid"
    using Cons.prems by (cases gap) (auto simp: nat_add_distrib nth_append list_update_append)
  obtain gap' where "slide_fields (i + 1) num (fs[nat (i - num) := fs ! nat i]) = Some ((pre @ [m]) @ mid @ gap')"
      "length gap' = length (tl (gap @ [m]))"
    using Cons.IH [OF upd, of "i + 1"] Cons.prems(2,3) by auto
  with range show ?case
    by (subst slide_fields.simps) simp
qed

lemma DeleteSubrange_of:
  assumes "fs \<noteq> []" "a + n \<le> length fs"
  shows "DeleteSubrange (int a) (int n) (ufs_of fs) = Some (ufs_of (take a fs @ drop (a + n) fs))"
proof -
  let ?kept = "take a fs @ drop (a + n) fs"
  have "fs = take a fs @ take n (drop a fs) @ drop (a + n) fs"
    by (metis add.commute append_take_drop_id drop_drop)
  moreover have "int a + int n = int (length (take a fs) + length (take n (drop a fs)))"
      "int n = int (length (take n (drop a fs)))"
    using assms(2) by simp_all
  ultimately obtain gap where gap: "slide_fields (int a + int n) (int n) fs = Some (take a fs @ drop (a + n) fs @ gap)"
      "length gap = length (take n (drop a fs))"
    using slide_fields_ok by blast
  have "list_all (\<lambda>i. in_range (int i + int a) fs) [0..<nat (int n)]"
    using assms(2) by (auto simp: list_all_iff in_range_def)
  moreover have "length (?kept @ gap) = length fs" "take (length fs - n) (?kept @ gap) = ?kept"
    using assms(2) gap(2) by simp_all
  ultimately show ?thesis
    using assms gap(1) by (simp add: DeleteSubrange_def ufs_of_def Let_def del: take_append append_take_drop_id)
qed

end
