(* ===== verification/Wire_Skip.thy ===== *)
theory Wire_Skip
  imports Wire_Fields Unknown_Fields
begin

text \<open>
  Skipping fields a parser does not know: \<open>WireFormatLite::SkipField\<close> and \<open>SkipMessage\<close>, which drop
  the fields or copy them to an output stream (\<open>wire_format_lite.cc\<close>), \<open>WireFormat::SkipField\<close> and
  \<open>SkipMessage\<close>, which keep them in an \<open>UnknownFieldSet\<close> (\<open>wire_format.cc\<close>), the classes derived
  from \<open>FieldSkipper\<close>, and the parsers of \<open>UnknownFieldSet\<close>.

  Each pair of functions is mutually recursive. The body of \<open>SkipField\<close> is a function of the
  \<open>SkipMessage\<close> it calls, and \<open>SkipMessage\<close> is the least fixed point over it: a loop that does not
  end would be \<open>None\<close>.
\<close>

section \<open>Dropping the fields\<close>

definition end_group_of :: "uint32 \<Rightarrow> uint32" where
  "end_group_of tag = MakeTag (GetTagFieldNumber tag) WIRETYPE_END_GROUP"

definition SkipField_lite_body ::
    "('s coded_input \<Rightarrow> (bool \<times> 's coded_input) option) \<Rightarrow> 's zc_input_ops \<Rightarrow> uint32 \<Rightarrow> 's coded_input \<Rightarrow>
     (bool \<times> 's coded_input) option" where
  "SkipField_lite_body SkipMessage ops tag s =
     (case GetTagWireType tag of
        WIRETYPE_VARINT \<Rightarrow> do { (r, s) \<leftarrow> ReadVarint64 ops s; Some (r \<noteq> None, s) }
      | WIRETYPE_FIXED64 \<Rightarrow> do { (r, s) \<leftarrow> ReadLittleEndian64 ops s; Some (r \<noteq> None, s) }
      | WIRETYPE_LENGTH_DELIMITED \<Rightarrow> do {
          (r, s) \<leftarrow> ReadVarint32 ops s;
          case r of None \<Rightarrow> Some (False, s) | Some n \<Rightarrow> Skip ops (sint n) s
        }
      | WIRETYPE_START_GROUP \<Rightarrow>
          (let (ok, s) = IncrementRecursionDepth s in
           if \<not> ok then Some (False, s)
           else do {
             (ok, s) \<leftarrow> SkipMessage s;
             if \<not> ok then Some (False, s)
             else (let s = DecrementRecursionDepth s in Some (LastTagWas (end_group_of tag) s, s))
           })
      | WIRETYPE_END_GROUP \<Rightarrow> Some (False, s)
      | WIRETYPE_FIXED32 \<Rightarrow> do { (r, s) \<leftarrow> ReadLittleEndian32 ops s; Some (r \<noteq> None, s) }
      | WIRETYPE_unnamed _ \<Rightarrow> Some (False, s))"

lemma SkipField_lite_body_mono [partial_function_mono]:
  assumes "\<And>s. mono_option (\<lambda>f. skip f s)"
  shows "mono_option (\<lambda>f. SkipField_lite_body (skip f) ops tag s)"
  unfolding SkipField_lite_body_def
  using assms by (cases "GetTagWireType tag"; cases "IncrementRecursionDepth s")
    (auto intro!: partial_function_mono bind_mono simp: option.const_mono)

partial_function (option) SkipMessage_lite :: "'s zc_input_ops \<Rightarrow> 's coded_input \<Rightarrow> (bool \<times> 's coded_input) option" where
  "SkipMessage_lite ops s =
     do {
       (tag, s) \<leftarrow> ReadTag ops s;
       if tag = 0 then Some (True, s)
       else if GetTagWireType tag = WIRETYPE_END_GROUP then Some (True, s)
       else do {
         (ok, s) \<leftarrow> SkipField_lite_body (SkipMessage_lite ops) ops tag s;
         if \<not> ok then Some (False, s) else SkipMessage_lite ops s
       }
     }"

definition SkipField_lite :: "'s zc_input_ops \<Rightarrow> uint32 \<Rightarrow> 's coded_input \<Rightarrow> (bool \<times> 's coded_input) option" where
  "SkipField_lite ops = SkipField_lite_body (SkipMessage_lite ops) ops"

section \<open>Copying the fields to an output stream\<close>

definition SkipField_copy_body ::
    "('s coded_input \<Rightarrow> 'o coded_output \<Rightarrow> (bool \<times> 's coded_input \<times> 'o coded_output) option) \<Rightarrow>
     's zc_input_ops \<Rightarrow> 'o zc_output_ops \<Rightarrow> uint32 \<Rightarrow> 's coded_input \<Rightarrow> 'o coded_output \<Rightarrow>
     (bool \<times> 's coded_input \<times> 'o coded_output) option" where
  "SkipField_copy_body SkipMessage ops wops tag s out =
     (case GetTagWireType tag of
        WIRETYPE_VARINT \<Rightarrow> do {
          (r, s) \<leftarrow> ReadVarint64 ops s;
          case r of
            None \<Rightarrow> Some (False, s, out)
          | Some value \<Rightarrow> do {
              out \<leftarrow> WriteVarint32 wops tag out;
              out \<leftarrow> WriteVarint64 wops value out;
              Some (True, s, out)
            }
        }
      | WIRETYPE_FIXED64 \<Rightarrow> do {
          (r, s) \<leftarrow> ReadLittleEndian64 ops s;
          case r of
            None \<Rightarrow> Some (False, s, out)
          | Some value \<Rightarrow> do {
              out \<leftarrow> WriteVarint32 wops tag out;
              out \<leftarrow> WriteLittleEndian64 wops value out;
              Some (True, s, out)
            }
        }
      | WIRETYPE_LENGTH_DELIMITED \<Rightarrow> do {
          (r, s) \<leftarrow> ReadVarint32 ops s;
          case r of
            None \<Rightarrow> Some (False, s, out)
          | Some n \<Rightarrow> do {
              out \<leftarrow> WriteVarint32 wops tag out;
              out \<leftarrow> WriteVarint32 wops n out;
              (ok, temp, s) \<leftarrow> ReadString ops (sint n) [] s;
              if \<not> ok then Some (False, s, out)
              else do { out \<leftarrow> WriteString wops temp out; Some (True, s, out) }
            }
        }
      | WIRETYPE_START_GROUP \<Rightarrow> do {
          out \<leftarrow> WriteVarint32 wops tag out;
          let (ok, s) = IncrementRecursionDepth s;
          if \<not> ok then Some (False, s, out)
          else do {
            (ok, s, out) \<leftarrow> SkipMessage s out;
            if \<not> ok then Some (False, s, out)
            else (let s = DecrementRecursionDepth s in Some (LastTagWas (end_group_of tag) s, s, out))
          }
        }
      | WIRETYPE_END_GROUP \<Rightarrow> Some (False, s, out)
      | WIRETYPE_FIXED32 \<Rightarrow> do {
          (r, s) \<leftarrow> ReadLittleEndian32 ops s;
          case r of
            None \<Rightarrow> Some (False, s, out)
          | Some value \<Rightarrow> do {
              out \<leftarrow> WriteVarint32 wops tag out;
              out \<leftarrow> WriteLittleEndian32 wops value out;
              Some (True, s, out)
            }
        }
      | WIRETYPE_unnamed _ \<Rightarrow> Some (False, s, out))"

lemma SkipField_copy_body_mono [partial_function_mono]:
  assumes "\<And>s out. mono_option (\<lambda>f. skip f s out)"
  shows "mono_option (\<lambda>f. SkipField_copy_body (skip f) ops wops tag s out)"
  unfolding SkipField_copy_body_def
  using assms by (cases "GetTagWireType tag"; cases "IncrementRecursionDepth s")
    (auto intro!: partial_function_mono bind_mono simp: option.const_mono)

partial_function (option) SkipMessage_copy ::
    "'s zc_input_ops \<Rightarrow> 'o zc_output_ops \<Rightarrow> 's coded_input \<Rightarrow> 'o coded_output \<Rightarrow>
     (bool \<times> 's coded_input \<times> 'o coded_output) option" where
  "SkipMessage_copy ops wops s out =
     do {
       (tag, s) \<leftarrow> ReadTag ops s;
       if tag = 0 then Some (True, s, out)
       else if GetTagWireType tag = WIRETYPE_END_GROUP then do {
         out \<leftarrow> WriteVarint32 wops tag out;
         Some (True, s, out)
       }
       else do {
         (ok, s, out) \<leftarrow> SkipField_copy_body (SkipMessage_copy ops wops) ops wops tag s out;
         if \<not> ok then Some (False, s, out) else SkipMessage_copy ops wops s out
       }
     }"

definition SkipField_copy ::
    "'s zc_input_ops \<Rightarrow> 'o zc_output_ops \<Rightarrow> uint32 \<Rightarrow> 's coded_input \<Rightarrow> 'o coded_output \<Rightarrow>
     (bool \<times> 's coded_input \<times> 'o coded_output) option" where
  "SkipField_copy ops wops = SkipField_copy_body (SkipMessage_copy ops wops) ops wops"

section \<open>Keeping the fields\<close>

text \<open>The last argument is the pointer \<open>unknown_fields\<close>, \<open>None\<close> for null.\<close>

definition SkipField_body ::
    "('s coded_input \<Rightarrow> unknown_field_set option \<Rightarrow> (bool \<times> 's coded_input \<times> unknown_field_set option) option) \<Rightarrow>
     's zc_input_ops \<Rightarrow> uint32 \<Rightarrow> 's coded_input \<Rightarrow> unknown_field_set option \<Rightarrow>
     (bool \<times> 's coded_input \<times> unknown_field_set option) option" where
  "SkipField_body SkipMessage ops tag s unknown_fields =
     (let number = GetTagFieldNumber tag in
      case GetTagWireType tag of
        WIRETYPE_VARINT \<Rightarrow> do {
          (r, s) \<leftarrow> ReadVarint64 ops s;
          case r of
            None \<Rightarrow> Some (False, s, unknown_fields)
          | Some value \<Rightarrow> Some (True, s, map_option (AddVarint number value) unknown_fields)
        }
      | WIRETYPE_FIXED64 \<Rightarrow> do {
          (r, s) \<leftarrow> ReadLittleEndian64 ops s;
          case r of
            None \<Rightarrow> Some (False, s, unknown_fields)
          | Some value \<Rightarrow> Some (True, s, map_option (AddFixed64 number value) unknown_fields)
        }
      | WIRETYPE_LENGTH_DELIMITED \<Rightarrow> do {
          (r, s) \<leftarrow> ReadVarint32 ops s;
          case r of
            None \<Rightarrow> Some (False, s, unknown_fields)
          | Some n \<Rightarrow>
              (case unknown_fields of
                 None \<Rightarrow> do { (ok, s) \<leftarrow> Skip ops (sint n) s; Some (ok, s, None) }
               | Some us \<Rightarrow> do {
                   (ok, str, s) \<leftarrow> ReadString ops (sint n) [] s;
                   Some (ok, s, Some (AddLengthDelimited number str us))
                 })
        }
      | WIRETYPE_START_GROUP \<Rightarrow>
          (let (ok, s) = IncrementRecursionDepth s in
           if \<not> ok then Some (False, s, unknown_fields)
           else do {
             (ok, s, g) \<leftarrow> SkipMessage s (map_option (\<lambda>_. UnknownFieldSet) unknown_fields);
             let unknown_fields =
               (case unknown_fields of
                  None \<Rightarrow> None
                | Some us \<Rightarrow> map_option (\<lambda>g. AddGroup number g us) g);
             if \<not> ok then Some (False, s, unknown_fields)
             else (let s = DecrementRecursionDepth s in
                   Some (LastTagWas (end_group_of tag) s, s, unknown_fields))
           })
      | WIRETYPE_END_GROUP \<Rightarrow> Some (False, s, unknown_fields)
      | WIRETYPE_FIXED32 \<Rightarrow> do {
          (r, s) \<leftarrow> ReadLittleEndian32 ops s;
          case r of
            None \<Rightarrow> Some (False, s, unknown_fields)
          | Some value \<Rightarrow> Some (True, s, map_option (AddFixed32 number value) unknown_fields)
        }
      | WIRETYPE_unnamed _ \<Rightarrow> Some (False, s, unknown_fields))"

lemma SkipField_body_mono [partial_function_mono]:
  assumes "\<And>s u. mono_option (\<lambda>f. skip f s u)"
  shows "mono_option (\<lambda>f. SkipField_body (skip f) ops tag s u)"
  unfolding SkipField_body_def
  using assms by (cases "GetTagWireType tag"; cases "IncrementRecursionDepth s")
    (auto intro!: partial_function_mono bind_mono simp: option.const_mono)

partial_function (option) SkipMessage ::
    "'s zc_input_ops \<Rightarrow> 's coded_input \<Rightarrow> unknown_field_set option \<Rightarrow>
     (bool \<times> 's coded_input \<times> unknown_field_set option) option" where
  "SkipMessage ops s unknown_fields =
     do {
       (tag, s) \<leftarrow> ReadTag ops s;
       if tag = 0 then Some (True, s, unknown_fields)
       else if GetTagWireType tag = WIRETYPE_END_GROUP then Some (True, s, unknown_fields)
       else do {
         (ok, s, unknown_fields) \<leftarrow> SkipField_body (SkipMessage ops) ops tag s unknown_fields;
         if \<not> ok then Some (False, s, unknown_fields) else SkipMessage ops s unknown_fields
       }
     }"

definition SkipField ::
    "'s zc_input_ops \<Rightarrow> uint32 \<Rightarrow> 's coded_input \<Rightarrow> unknown_field_set option \<Rightarrow>
     (bool \<times> 's coded_input \<times> unknown_field_set option) option" where
  "SkipField ops = SkipField_body (SkipMessage ops) ops"

definition ReadPackedEnumPreserveUnknowns ::
    "int32 \<Rightarrow> (int32 \<Rightarrow> bool) option \<Rightarrow> 's zc_input_ops \<Rightarrow> 's coded_input \<Rightarrow> unknown_field_set \<Rightarrow>
     field_value repeated_field \<Rightarrow>
     (bool \<times> 's coded_input \<times> field_value repeated_field \<times> unknown_field_set) option" where
  \<comment> \<open>\<open>AddVarint\<close> takes a \<open>uint64\<close>, so the \<open>int\<close> is sign-extended.\<close>
  "ReadPackedEnumPreserveUnknowns field_number is_valid ops s unknown_fields values =
     ReadPackedEnum is_valid
       (\<lambda>u value. Some (AddVarint field_number (scast (enum_value value)) u)) ops s values unknown_fields"

section \<open>Skippers\<close>

text \<open>The virtual functions of \<open>FieldSkipper\<close> over the state \<open>'u\<close> behind \<open>unknown_fields_\<close>; enum
  values are \<open>int\<close>s.\<close>

record ('s, 'u) field_skipper =
  fs_SkipField :: "'s coded_input \<Rightarrow> uint32 \<Rightarrow> 'u \<Rightarrow> (bool \<times> 's coded_input \<times> 'u) option"
  fs_SkipMessage :: "'s coded_input \<Rightarrow> 'u \<Rightarrow> (bool \<times> 's coded_input \<times> 'u) option"
  fs_SkipUnknownEnum :: "int32 \<Rightarrow> int32 \<Rightarrow> 'u \<Rightarrow> 'u option"

definition FieldSkipper :: "'s zc_input_ops \<Rightarrow> ('s, unit) field_skipper" where
  "FieldSkipper ops =
     \<lparr>fs_SkipField = \<lambda>s tag u. do { (ok, s) \<leftarrow> SkipField_lite ops tag s; Some (ok, s, u) },
      fs_SkipMessage = \<lambda>s u. do { (ok, s) \<leftarrow> SkipMessage_lite ops s; Some (ok, s, u) },
      fs_SkipUnknownEnum = \<lambda>field_number value u. Some u\<rparr>"

definition CodedOutputStreamFieldSkipper ::
    "'s zc_input_ops \<Rightarrow> 'o zc_output_ops \<Rightarrow> ('s, 'o coded_output) field_skipper" where
  "CodedOutputStreamFieldSkipper ops wops =
     \<lparr>fs_SkipField = \<lambda>s tag out. SkipField_copy ops wops tag s out,
      fs_SkipMessage = SkipMessage_copy ops wops,
      fs_SkipUnknownEnum = \<lambda>field_number value out. do {
        out \<leftarrow> WriteVarint32 wops field_number out;
        WriteVarint64 wops (scast value) out
      }\<rparr>"

definition UnknownFieldSetFieldSkipper :: "'s zc_input_ops \<Rightarrow> ('s, unknown_field_set option) field_skipper" where
  \<comment> \<open>\<open>unknown_fields_->AddVarint\<close> goes through the pointer.\<close>
  "UnknownFieldSetFieldSkipper ops =
     \<lparr>fs_SkipField = \<lambda>s tag u. SkipField ops tag s u,
      fs_SkipMessage = SkipMessage ops,
      fs_SkipUnknownEnum = \<lambda>field_number value u. do {
        us \<leftarrow> u;
        Some (Some (AddVarint field_number (scast value) us))
      }\<rparr>"

section \<open>Parsing an unknown field us\<close>

definition MergeFromCodedStream ::
    "'s zc_input_ops \<Rightarrow> 's coded_input \<Rightarrow> unknown_field_set \<Rightarrow>
     (bool \<times> 's coded_input \<times> unknown_field_set) option" where
  "MergeFromCodedStream ops s us =
     do {
       (ok, s, other) \<leftarrow> SkipMessage ops s (Some UnknownFieldSet);
       other \<leftarrow> other;
       if ok \<and> ConsumedEntireMessage s then Some (True, s, fst (ufs_MergeFromAndDestroy other us))
       else Some (False, s, us)
     }"

definition ParseFromCodedStream ::
    "'s zc_input_ops \<Rightarrow> 's coded_input \<Rightarrow> unknown_field_set \<Rightarrow>
     (bool \<times> 's coded_input \<times> unknown_field_set) option" where
  "ParseFromCodedStream ops s us = do { us \<leftarrow> ufs_Clear us; MergeFromCodedStream ops s us }"

definition ParseFromZeroCopyStream ::
    "'s zc_input_ops \<Rightarrow> 's \<Rightarrow> unknown_field_set \<Rightarrow> (bool \<times> 's option \<times> unknown_field_set) option" where
  \<comment> \<open>The destructor of \<open>coded_input\<close> runs after the result is known; the second component is the
    stream \<open>*input\<close> afterwards.\<close>
  "ParseFromZeroCopyStream ops input us =
     do {
       s \<leftarrow> CodedInputStream ops input;
       (ok, s, us) \<leftarrow> ParseFromCodedStream ops s us;
       let result = ok \<and> ConsumedEntireMessage s;
       s \<leftarrow> CodedInputStream_destroy ops s;
       Some (result, cis_input s, us)
     }"

definition ParseFromArray :: "bytes \<Rightarrow> unknown_field_set \<Rightarrow> (bool \<times> unknown_field_set) option" where
  "ParseFromArray data us =
     do {
       (ok, _, us) \<leftarrow> ParseFromZeroCopyStream array_input_ops (ArrayInputStream data (-1)) us;
       Some (ok, us)
     }"

end
