(* ===== verification/Wire_Format.thy ===== *)
theory Wire_Format
  imports Wire_Fields Unknown_Fields
begin

text \<open>
  \<open>internal::WireFormat\<close> (\<open>wire_format.cc\<close>): writing and measuring the fields of an
  \<open>UnknownFieldSet\<close>, in the usual format and as items of a \<open>MessageSet\<close>. The \<open>for\<close> loops over
  \<open>field(i)\<close> are recursion over the fields; a \<open>ToArray\<close> function returns the bytes it stores from
  \<open>target\<close> on. \<open>size_t\<close> sums are natural numbers.
\<close>

section \<open>Unknown fields\<close>

fun SerializeUnknownFields ::
      "'o zc_output_ops \<Rightarrow> unknown_field_set \<Rightarrow> 'o coded_output \<Rightarrow> 'o coded_output option"
  and SerializeUnknownFields_loop ::
      "'o zc_output_ops \<Rightarrow> unknown_field list \<Rightarrow> 'o coded_output \<Rightarrow> 'o coded_output option"
  and SerializeUnknownField ::
      "'o zc_output_ops \<Rightarrow> unknown_field \<Rightarrow> 'o coded_output \<Rightarrow> 'o coded_output option" where
  "SerializeUnknownFields ops None s = Some s"
| "SerializeUnknownFields ops (Some fs) s = SerializeUnknownFields_loop ops fs s"
| "SerializeUnknownFields_loop ops [] s = Some s"
| "SerializeUnknownFields_loop ops (f # fs) s = do {
     s \<leftarrow> SerializeUnknownField ops f s;
     SerializeUnknownFields_loop ops fs s
   }"
| "SerializeUnknownField ops (Unknown_Varint number value) s = do {
     s \<leftarrow> WriteVarint32 ops (MakeTag number WIRETYPE_VARINT) s;
     WriteVarint64 ops value s
   }"
| "SerializeUnknownField ops (Unknown_Fixed32 number value) s = do {
     s \<leftarrow> WriteVarint32 ops (MakeTag number WIRETYPE_FIXED32) s;
     WriteLittleEndian32 ops value s
   }"
| "SerializeUnknownField ops (Unknown_Fixed64 number value) s = do {
     s \<leftarrow> WriteVarint32 ops (MakeTag number WIRETYPE_FIXED64) s;
     WriteLittleEndian64 ops value s
   }"
| "SerializeUnknownField ops (Unknown_LengthDelimited number value) s = do {
     s \<leftarrow> WriteVarint32 ops (MakeTag number WIRETYPE_LENGTH_DELIMITED) s;
     s \<leftarrow> WriteVarint32 ops (of_nat (length value)) s;
     WriteRawMaybeAliased ops value s
   }"
| "SerializeUnknownField ops (Unknown_Group number g) s = do {
     s \<leftarrow> WriteVarint32 ops (MakeTag number WIRETYPE_START_GROUP) s;
     s \<leftarrow> SerializeUnknownFields ops g s;
     WriteVarint32 ops (MakeTag number WIRETYPE_END_GROUP) s
   }"

fun SerializeUnknownFieldsToArray :: "unknown_field_set \<Rightarrow> bytes"
  and SerializeUnknownFieldToArray :: "unknown_field \<Rightarrow> bytes" where
  "SerializeUnknownFieldsToArray None = []"
| "SerializeUnknownFieldsToArray (Some fs) = concat (map SerializeUnknownFieldToArray fs)"
| "SerializeUnknownFieldToArray (Unknown_Varint number value) = WriteFieldToArray number (Int64 value)"
| "SerializeUnknownFieldToArray (Unknown_Fixed32 number value) = WriteFieldToArray number (Fixed32 value)"
| "SerializeUnknownFieldToArray (Unknown_Fixed64 number value) = WriteFieldToArray number (Fixed64 value)"
| "SerializeUnknownFieldToArray (Unknown_LengthDelimited number value) = WriteStringToArray_field number value"
| "SerializeUnknownFieldToArray (Unknown_Group number g) =
     WriteTagToArray_field number WIRETYPE_START_GROUP @ SerializeUnknownFieldsToArray g @
     WriteTagToArray_field number WIRETYPE_END_GROUP"

fun ComputeUnknownFieldsSize :: "unknown_field_set \<Rightarrow> nat"
  and ComputeUnknownFieldSize :: "unknown_field \<Rightarrow> nat" where
  "ComputeUnknownFieldsSize None = 0"
| "ComputeUnknownFieldsSize (Some fs) = sum_list (map ComputeUnknownFieldSize fs)"
| "ComputeUnknownFieldSize (Unknown_Varint number value) =
     VarintSize32 (MakeTag number WIRETYPE_VARINT) + VarintSize64 value"
| "ComputeUnknownFieldSize (Unknown_Fixed32 number value) =
     VarintSize32 (MakeTag number WIRETYPE_FIXED32) + 4"
| "ComputeUnknownFieldSize (Unknown_Fixed64 number value) =
     VarintSize32 (MakeTag number WIRETYPE_FIXED64) + 8"
| "ComputeUnknownFieldSize (Unknown_LengthDelimited number value) =
     VarintSize32 (MakeTag number WIRETYPE_LENGTH_DELIMITED) + VarintSize32 (of_nat (length value)) +
     length value"
| "ComputeUnknownFieldSize (Unknown_Group number g) =
     VarintSize32 (MakeTag number WIRETYPE_START_GROUP) + ComputeUnknownFieldsSize g +
     VarintSize32 (MakeTag number WIRETYPE_END_GROUP)"

section \<open>Message sets\<close>

definition kMessageSetItemNumber :: int32 where "kMessageSetItemNumber = 1"
definition kMessageSetTypeIdNumber :: int32 where "kMessageSetTypeIdNumber = 2"
definition kMessageSetMessageNumber :: int32 where "kMessageSetMessageNumber = 3"

definition kMessageSetItemStartTag :: uint32 where
  "kMessageSetItemStartTag = MakeTag kMessageSetItemNumber WIRETYPE_START_GROUP"

definition kMessageSetItemEndTag :: uint32 where
  "kMessageSetItemEndTag = MakeTag kMessageSetItemNumber WIRETYPE_END_GROUP"

definition kMessageSetTypeIdTag :: uint32 where
  "kMessageSetTypeIdTag = MakeTag kMessageSetTypeIdNumber WIRETYPE_VARINT"

definition kMessageSetMessageTag :: uint32 where
  "kMessageSetMessageTag = MakeTag kMessageSetMessageNumber WIRETYPE_LENGTH_DELIMITED"

definition kMessageSetItemTagsSize :: nat where
  "kMessageSetItemTagsSize =
     StaticVarintSize32 kMessageSetItemStartTag + StaticVarintSize32 kMessageSetItemEndTag +
     StaticVarintSize32 kMessageSetTypeIdTag + StaticVarintSize32 kMessageSetMessageTag"

definition SerializeLengthDelimitedNoTag ::
    "'o zc_output_ops \<Rightarrow> bytes \<Rightarrow> 'o coded_output \<Rightarrow> 'o coded_output option" where
  "SerializeLengthDelimitedNoTag ops data s =
     do {
       s \<leftarrow> WriteVarint32 ops (of_nat (length data)) s;
       WriteRawMaybeAliased ops data s
     }"

definition SerializeLengthDelimitedNoTagToArray :: "bytes \<Rightarrow> bytes" where
  "SerializeLengthDelimitedNoTagToArray data =
     WriteVarint32ToArray (of_nat (length data)) @ WriteStringToArray data"

fun SerializeUnknownMessageSetItems_loop ::
    "'o zc_output_ops \<Rightarrow> unknown_field list \<Rightarrow> 'o coded_output \<Rightarrow> 'o coded_output option" where
  "SerializeUnknownMessageSetItems_loop ops [] s = Some s"
| "SerializeUnknownMessageSetItems_loop ops (field # fs) s = do {
     s \<leftarrow> (case field of
            Unknown_LengthDelimited number data \<Rightarrow> do {
              s \<leftarrow> WriteVarint32 ops kMessageSetItemStartTag s;
              s \<leftarrow> WriteVarint32 ops kMessageSetTypeIdTag s;
              s \<leftarrow> WriteVarint32 ops number s;
              s \<leftarrow> WriteVarint32 ops kMessageSetMessageTag s;
              s \<leftarrow> SerializeLengthDelimitedNoTag ops data s;
              WriteVarint32 ops kMessageSetItemEndTag s
            }
          | _ \<Rightarrow> Some s);
     SerializeUnknownMessageSetItems_loop ops fs s
   }"

definition SerializeUnknownMessageSetItems ::
    "'o zc_output_ops \<Rightarrow> unknown_field_set \<Rightarrow> 'o coded_output \<Rightarrow> 'o coded_output option" where
  "SerializeUnknownMessageSetItems ops unknown_fields s =
     SerializeUnknownMessageSetItems_loop ops (ufs_fields unknown_fields) s"

fun SerializeUnknownMessageSetItemToArray :: "unknown_field \<Rightarrow> bytes" where
  "SerializeUnknownMessageSetItemToArray (Unknown_LengthDelimited number data) =
     WriteTagToArray kMessageSetItemStartTag @
     WriteTagToArray kMessageSetTypeIdTag @ WriteVarint32ToArray number @
     WriteTagToArray kMessageSetMessageTag @ SerializeLengthDelimitedNoTagToArray data @
     WriteTagToArray kMessageSetItemEndTag"
| "SerializeUnknownMessageSetItemToArray _ = []"

definition SerializeUnknownMessageSetItemsToArray :: "unknown_field_set \<Rightarrow> bytes" where
  "SerializeUnknownMessageSetItemsToArray unknown_fields =
     concat (map SerializeUnknownMessageSetItemToArray (ufs_fields unknown_fields))"

fun ComputeUnknownMessageSetItemSize :: "unknown_field \<Rightarrow> nat" where
  "ComputeUnknownMessageSetItemSize (Unknown_LengthDelimited number data) =
     kMessageSetItemTagsSize + VarintSize32 number + VarintSize32 (of_nat (length data)) + length data"
| "ComputeUnknownMessageSetItemSize _ = 0"

definition ComputeUnknownMessageSetItemsSize :: "unknown_field_set \<Rightarrow> nat" where
  "ComputeUnknownMessageSetItemsSize unknown_fields =
     sum_list (map ComputeUnknownMessageSetItemSize (ufs_fields unknown_fields))"

section \<open>The stream writers, the array writers and the sizes agree\<close>

lemma SerializeUnknownFieldsToArray_of [simp]:
  "SerializeUnknownFieldsToArray (ufs_of fs) = concat (map SerializeUnknownFieldToArray fs)"
  by (simp add: ufs_of_def)

lemma length_WriteVarint32ToArray: "length (WriteVarint32ToArray v) = VarintSize32 v"
  by (simp add: VarintSize32_eq WriteVarint32ToArray_eq)

lemma length_WriteTagToArray: "length (WriteTagToArray v) = VarintSize32 v"
  by (simp add: WriteTagToArray_def length_WriteVarint32ToArray)

lemma length_WriteVarint64ToArray: "length (WriteVarint64ToArray v) = VarintSize64 v"
  by (simp add: WriteVarint64ToArray_def WriteVarint64ToArrayInline_eq VarintSize64_eq)

lemma length_WriteStringWithSizeToArray:
  "length (WriteStringWithSizeToArray bs) = VarintSize32 (of_nat (length bs)) + length bs"
  by (simp add: WriteStringWithSizeToArray_def length_WriteVarint32ToArray WriteStringToArray_def WriteRawToArray_def)

lemmas array_lengths = length_WriteTagToArray length_WriteVarint32ToArray length_WriteVarint64ToArray
  length_WriteStringWithSizeToArray

lemma ComputeUnknownFieldsSize_eq: "ComputeUnknownFieldsSize u = length (SerializeUnknownFieldsToArray u)"
  and ComputeUnknownFieldSize_eq: "ComputeUnknownFieldSize f = length (SerializeUnknownFieldToArray f)"
proof (induction u and f rule: ComputeUnknownFieldsSize_ComputeUnknownFieldSize.induct)
  case (2 fs)
  then show ?case
    by (simp add: length_concat o_def cong: map_cong)
qed (simp_all add: taggedToArray_def WriteTagToArray_field_def WriteStringToArray_field_def array_lengths)

lemma ComputeUnknownMessageSetItemsSize_eq:
  "ComputeUnknownMessageSetItemsSize u = length (SerializeUnknownMessageSetItemsToArray u)"
proof -
  have "ComputeUnknownMessageSetItemSize f = length (SerializeUnknownMessageSetItemToArray f)" for f
    by (cases f) (simp_all add: array_lengths kMessageSetItemTagsSize_def SerializeLengthDelimitedNoTagToArray_def
        VarintSize_StaticSize VarintSize32_eq WriteStringToArray_def WriteRawToArray_def)
  then have "ComputeUnknownMessageSetItemSize = (\<lambda>f. length (SerializeUnknownMessageSetItemToArray f))" by blast
  then show ?thesis
    by (simp add: ComputeUnknownMessageSetItemsSize_def SerializeUnknownMessageSetItemsToArray_def length_concat o_def)
qed

context zero_copy_output
begin

lemma WriteVarint32_tag_emits:
  "oinv s \<Longrightarrow> emits (WriteTagToArray_field n w) s (WriteVarint32 ops (MakeTag n w) s)"
  by (simp add: WriteTagToArray_field_def WriteTagToArray_def coded_write_emits)

abbreviation can_alias :: "'s coded_output \<Rightarrow> bool" where
  "can_alias s \<equiv> cos_aliasing_enabled s \<longrightarrow> out_allows_aliasing ops"

lemma SerializeUnknownFields_loop_emits:
  assumes "\<And>f s. f \<in> set fs \<Longrightarrow> oinv s \<Longrightarrow> can_alias s \<Longrightarrow>
      emits (SerializeUnknownFieldToArray f) s (SerializeUnknownField ops f s)"
    and "oinv s" "can_alias s"
  shows "emits (concat (map SerializeUnknownFieldToArray fs)) s (SerializeUnknownFields_loop ops fs s)"
  using assms
proof (induction fs arbitrary: s)
  case (Cons f fs)
  then show ?case
    by (auto intro!: emits_bind)
qed (simp add: emits_return)

lemma SerializeUnknownFields_emits:
    "oinv s \<Longrightarrow> can_alias s \<Longrightarrow> emits (SerializeUnknownFieldsToArray u) s (SerializeUnknownFields ops u s)"
  and SerializeUnknownField_emits:
    "oinv s \<Longrightarrow> can_alias s \<Longrightarrow> emits (SerializeUnknownFieldToArray f) s (SerializeUnknownField ops f s)"
proof (induction u and f arbitrary: s and s
    rule: SerializeUnknownFieldsToArray_SerializeUnknownFieldToArray.induct)
  case (2 fs)
  then show ?case
    by (simp add: SerializeUnknownFields_loop_emits)
qed (auto simp: taggedToArray_def WriteStringToArray_field_def WriteStringWithSizeToArray_def WriteStringToArray_def
      WriteRawToArray_def emits_return intro!: emits_bind WriteVarint32_tag_emits coded_write_emits
      WriteRawMaybeAliased_emits)

lemma SerializeUnknownMessageSetItems_emits:
  assumes "oinv s" "can_alias s"
  shows "emits (SerializeUnknownMessageSetItemsToArray u) s (SerializeUnknownMessageSetItems ops u s)"
proof -
  have item: "emits (SerializeUnknownMessageSetItemToArray f) s
      (case f of
            Unknown_LengthDelimited number data \<Rightarrow> do {
              s \<leftarrow> WriteVarint32 ops kMessageSetItemStartTag s;
              s \<leftarrow> WriteVarint32 ops kMessageSetTypeIdTag s;
              s \<leftarrow> WriteVarint32 ops number s;
              s \<leftarrow> WriteVarint32 ops kMessageSetMessageTag s;
              s \<leftarrow> SerializeLengthDelimitedNoTag ops data s;
              WriteVarint32 ops kMessageSetItemEndTag s
            }
          | _ \<Rightarrow> Some s)" if "oinv s" "can_alias s" for f s
    using that
    by (cases f) (auto simp: WriteTagToArray_def SerializeLengthDelimitedNoTagToArray_def
        SerializeLengthDelimitedNoTag_def WriteStringToArray_def WriteRawToArray_def
        intro!: emits_bind emits_return coded_write_emits WriteRawMaybeAliased_emits)
  have "emits (concat (map SerializeUnknownMessageSetItemToArray fs)) s
      (SerializeUnknownMessageSetItems_loop ops fs s)" if "oinv s" "can_alias s" for fs s
    using that
  proof (induction fs arbitrary: s)
    case (Cons f fs)
    then show ?case
      unfolding SerializeUnknownMessageSetItems_loop.simps list.map concat.simps
      by (intro emits_bind item) auto
  qed (simp add: emits_return)
  with assms show ?thesis
    by (simp add: SerializeUnknownMessageSetItems_def SerializeUnknownMessageSetItemsToArray_def)
qed

end

end
