(* ===== verification/Wire_Field_Lemmas.thy ===== *)
theory Wire_Field_Lemmas
  imports Wire_Fields
begin

text \<open>
  The lemmas on single fields: the writers append the bytes of their \<open>ToArray\<close> forms, the size
  functions give the lengths of those, and the readers of single, repeated and packed fields, on
  any stream that keeps the input contract, take the written bytes back to the values.
\<close>

unbundle bit_operations_syntax

section \<open>Writers and sizes\<close>

lemma WriteField_eq:
  "WriteField ops n v s = tagged ops n (WireTypeForFieldType (type_of v)) v s"
  "WriteFieldToArray n v = taggedToArray n (WireTypeForFieldType (type_of v)) v"
  by (cases v; simp)+

lemma WireTypeForFieldType_named [simp]: "WireTypeForFieldType t \<notin> range WIRETYPE_unnamed"
  by (cases t) auto

lemma StaticVarintSize32_drop_3:
  "drop_bit 3 v = drop_bit 3 w \<Longrightarrow> StaticVarintSize32 v = StaticVarintSize32 w"
proof -
  assume "drop_bit 3 v = drop_bit 3 w"
  then have "unat (drop_bit 3 v) = unat (drop_bit 3 w)" by simp
  then have "unat v div 8 = unat w div 8" by (simp add: unat_drop_bit)
  moreover have "unat u < 8 * k \<longleftrightarrow> unat u div 8 < k" for u :: uint32 and k by auto
  from this [of _ 16] this [of _ 2048] this [of _ 262144] this [of _ 33554432]
  have "u < 128 \<longleftrightarrow> unat u div 8 < 16" "u < 16384 \<longleftrightarrow> unat u div 8 < 2048"
    "u < 2097152 \<longleftrightarrow> unat u div 8 < 262144" "u < 268435456 \<longleftrightarrow> unat u div 8 < 33554432" for u :: uint32
    by (simp_all add: word_less_nat_alt)
  ultimately show ?thesis
    by (simp add: StaticVarintSize32_def)
qed

lemma VarintSize32_tag:
  assumes "w \<notin> range WIRETYPE_unnamed"
  shows "VarintSize32 (push_bit kTagTypeBits n) = length (WriteTagToArray_field n w)"
proof -
  have "drop_bit 3 (wire_type_value w) = 0"
    using wire_type_value_less [OF assms] by (simp add: drop_bit_eq_div word_less_nat_alt div_word_less)
  then have "drop_bit 3 (push_bit 3 n) = drop_bit 3 (push_bit 3 n OR wire_type_value w)" by simp
  from StaticVarintSize32_drop_3 [OF this] show ?thesis
    by (simp add: VarintSize32_eq WriteTagToArray_field_def WriteTagToArray_def MakeTag_def kTagTypeBits_def
        WriteVarint32ToArray_eq VarintSize_StaticSize)
qed

lemma TagSize_eq:
  "TagSize n t = (if t = TYPE_GROUP then length (WriteTagToArray_field n WIRETYPE_START_GROUP) +
       length (WriteTagToArray_field n WIRETYPE_END_GROUP)
     else length (WriteTagToArray_field n (WireTypeForFieldType t)))"
proof -
  have "WIRETYPE_START_GROUP \<notin> range WIRETYPE_unnamed" "WIRETYPE_END_GROUP \<notin> range WIRETYPE_unnamed" by auto
  from VarintSize32_tag [OF this(1), of n] VarintSize32_tag [OF this(2), of n]
    VarintSize32_tag [OF WireTypeForFieldType_named, of n t]
  show ?thesis by (simp add: TagSize_def Let_def)
qed

lemma FieldSize_eq: "FieldSize v = length (WriteNoTagToArray v)"
  by (cases v) (simp_all add: VarintSize32SignExtended_eq VarintSize64_eq VarintSize32_eq WriteVarint32ToArray_eq
      WriteVarint64ToArray_def WriteVarint64ToArrayInline_eq kFixed32Size_def kFixed64Size_def
      kSFixed32Size_def kSFixed64Size_def kFloatSize_def kDoubleSize_def kBoolSize_def varint_enc_small)

lemma StringSize_eq: "StringSize bs = length (WriteStringWithSizeToArray bs)"
  by (simp add: StringSize_def LengthDelimitedSize_def WriteStringWithSizeToArray_def VarintSize32_eq
      WriteVarint32ToArray_eq WriteStringToArray_def WriteRawToArray_def)

context zero_copy_output
begin

lemma WriteTag_field_emits: "oinv s \<Longrightarrow> emits (WriteTagToArray_field n w) s (WriteTag_field ops n w s)"
  by (simp add: WriteTag_field_def WriteTagToArray_field_def coded_write_emits)

lemma WriteNoTag_emits: "oinv s \<Longrightarrow> emits (WriteNoTagToArray v) s (WriteNoTag ops v s)"
  by (cases v) (simp_all add: coded_write_emits)

lemma WriteField_emits: "oinv s \<Longrightarrow> emits (WriteFieldToArray n v) s (WriteField ops n v s)"
  unfolding WriteField_eq tagged_def taggedToArray_def
  by (intro emits_bind WriteTag_field_emits WriteNoTag_emits)

lemma WriteString_field_emits:
  assumes "oinv s" "int (length bs) \<le> INT_MAX"
  shows "emits (WriteStringToArray_field n bs) s (WriteString_field ops n bs s)"
  unfolding WriteStringToArray_field_def WriteString_field_def WriteStringWithSizeToArray_def WriteStringToArray_def
    WriteRawToArray_def
  using assms by (auto intro!: emits_bind WriteTag_field_emits coded_write_emits)

lemma WriteStringMaybeAliased_field_emits:
  assumes "oinv s" "int (length bs) \<le> INT_MAX" "cos_aliasing_enabled s \<longrightarrow> out_allows_aliasing ops"
  shows "emits (WriteStringToArray_field n bs) s (WriteStringMaybeAliased_field ops n bs s)"
  unfolding WriteStringToArray_field_def WriteStringMaybeAliased_field_def WriteStringWithSizeToArray_def
    WriteStringToArray_def WriteRawToArray_def
  using assms by (auto intro!: emits_bind WriteTag_field_emits coded_write_emits WriteRawMaybeAliased_emits)

end

section \<open>Reading a field back\<close>

lemma low_half: "ucast (scast v :: uint64) = v" "ucast (ucast v :: uint64) = v" for v :: uint32
  by (rule bit_word_eqI; auto simp: bit_simps)+

lemma Decode_Encode [simp]: "DecodeFloat (EncodeFloat x) = x" "DecodeDouble (EncodeDouble y) = y"
  by (simp_all add: EncodeFloat_def DecodeFloat_def EncodeDouble_def DecodeDouble_def)

text \<open>The bytes of the elements of a repeated field that is not packed, the first tag left out.\<close>

definition tagged_elements :: "uint32 \<Rightarrow> field_value list \<Rightarrow> bytes" where
  "tagged_elements tag vs = concat (map (\<lambda>v. WriteTagToArray tag @ WriteNoTagToArray v) vs)"

definition starts_with :: "bytes \<Rightarrow> bytes \<Rightarrow> bool" where
  "starts_with r p \<longleftrightarrow> take (length p) r = p"

lemma starts_with_append: "starts_with (p @ r) p"
  by (simp add: starts_with_def)

lemma tagged_elements_simps [simp]:
  "tagged_elements tag [] = []"
  "tagged_elements tag (v # vs) = WriteTagToArray tag @ WriteNoTagToArray v @ tagged_elements tag vs"
  by (simp_all add: tagged_elements_def)

lemma sizeof_value_eq: "sizeof_value (type_of v) \<noteq> 0 \<Longrightarrow> length (WriteNoTagToArray v) = sizeof_value (type_of v)"
  by (cases v) simp_all

lemma ExpectTagFromArray_total:
  assumes "0 \<le> p" "nat p + length (WriteTagToArray t) \<le> length mem"
  shows "\<exists>r. ExpectTagFromArray mem p t = Some r"
proof -
  have b: "byte_at mem (p + int i) = Some (mem ! (nat p + i))" if "i < length (WriteTagToArray t)" for i
    using that assms by (simp add: byte_at_def nat_add_distrib)
  show ?thesis
  proof (cases "t < 2 ^ 7")
    case True
    with b [of 0] show ?thesis
      by (simp add: ExpectTagFromArray_def WriteTagToArray_1)
  next
    case False
    show ?thesis
    proof (cases "t < 2 ^ 14")
      case True
      with False b [of 0] b [of 1] show ?thesis
        by (simp add: ExpectTagFromArray_def WriteTagToArray_2)
    qed (use False in \<open>simp add: ExpectTagFromArray_def\<close>)
  qed
qed

lemma ReadPrimitiveFromArray_Write:
  assumes "sizeof_value (type_of v) \<noteq> 0" "0 \<le> p" "drop (nat p) mem = WriteNoTagToArray v @ r"
  shows "ReadPrimitiveFromArray (type_of v) mem p = Some (v, p + int (sizeof_value (type_of v)))"
proof -
  note rd = ReadLittleEndian32_Write [OF assms(2)] ReadLittleEndian64_Write [OF assms(2)]
  from assms(1,3) show ?thesis
    by (cases v) (simp_all add: rd)
qed

lemma ReadRepeatedFixed_loop_ok:
  assumes "sizeof_value type \<noteq> 0" "per = length (WriteTagToArray tag) + sizeof_value type" "\<not> starts_with r (WriteTagToArray tag)"
  shows "0 \<le> p \<Longrightarrow> take (n * per) (drop (nat p) mem) = take (n * per) (tagged_elements tag vs @ r) \<Longrightarrow>
     nat p + n * per \<le> length mem \<Longrightarrow> \<forall>v \<in> set vs. type_of v = type \<Longrightarrow> rf_inv vals \<Longrightarrow>
     rf_size vals + int n \<le> rf_Capacity vals \<Longrightarrow>
     \<exists>k vals'. k \<le> length vs \<and> k \<le> n \<and>
       ReadRepeatedFixed_loop type tag mem n m p vals = Some (m + int k, vals') \<and>
       rf_inv vals' \<and> rf_list vals' = rf_list vals @ take k vs"
proof (induction n arbitrary: m p vals vs)
  case 0
  then show ?case by auto
next
  case (Suc n)
  let ?X = "drop (nat p) mem"
  have per: "length (WriteTagToArray tag) \<le> Suc n * per" "per \<le> Suc n * per"
    using assms(2) by simp_all
  have len: "nat p + length (WriteTagToArray tag) \<le> length mem"
    using Suc.prems(3) per(1) by linarith
  obtain e where e: "ExpectTagFromArray mem p tag = Some e"
    using ExpectTagFromArray_total [OF Suc.prems(1) len] by blast
  show ?case
  proof (cases e)
    case None
    with e Suc.prems(5) show ?thesis
      by (intro exI [of _ 0]) simp
  next
    case (Some q)
    with e ExpectTagFromArray_sound obtain X' where X: "?X = WriteTagToArray tag @ X'"
        "q = p + int (length (WriteTagToArray tag))"
      by blast
    have "starts_with (tagged_elements tag vs @ r) (WriteTagToArray tag)"
    proof -
      have short: "take (length (WriteTagToArray tag)) (take (Suc n * per) xs) = take (length (WriteTagToArray tag)) xs"
        for xs :: bytes
        by (simp only: take_take min_absorb1 [OF per(1)])
      show ?thesis
        using arg_cong [OF Suc.prems(2), of "take (length (WriteTagToArray tag))"] X(1)
        unfolding short starts_with_def by simp
    qed
    with assms(3) obtain v vs' where vs: "vs = v # vs'"
      by (cases vs) auto
    have tv: "type_of v = type" "length (WriteNoTagToArray v) = sizeof_value type"
      using Suc.prems(4) vs assms(1) by (auto simp: sizeof_value_eq)
    define M where "M = Suc n * per - length (WriteTagToArray tag)"
    have M: "M = sizeof_value type + n * per"
      using assms(2) by (simp add: M_def)
    have "take M X' = take M (WriteNoTagToArray v @ tagged_elements tag vs' @ r)"
      using Suc.prems(2) per(1) unfolding vs X(1) by (simp add: M_def)
    then have "take (sizeof_value type + n * per) X' =
        take (sizeof_value type + n * per) (WriteNoTagToArray v @ tagged_elements tag vs' @ r)"
      by (simp only: M)
    also have "\<dots> = WriteNoTagToArray v @ take (n * per) (tagged_elements tag vs' @ r)"
      by (simp only: take_append tv(2)) (simp add: tv(2))
    finally have take: "take (sizeof_value type + n * per) X' =
        WriteNoTagToArray v @ take (n * per) (tagged_elements tag vs' @ r)" .
    define Y where "Y = drop (sizeof_value type) X'"
    have "take (sizeof_value type) X' = WriteNoTagToArray v"
      using arg_cong [OF take, of "take (sizeof_value type)"] tv(2) by (simp add: min_def)
    then have X': "X' = WriteNoTagToArray v @ Y"
      unfolding Y_def by (metis append_take_drop_id)
    have Y: "take (n * per) Y = take (n * per) (tagged_elements tag vs' @ r)"
      using take tv(2) unfolding X' by simp
    have q: "0 \<le> q" "drop (nat q) mem = X'"
    proof -
      have "drop (length (WriteTagToArray tag)) ?X = X'" unfolding X(1) by simp
      then show "0 \<le> q" "drop (nat q) mem = X'"
        using Suc.prems(1) X(2) by (simp_all add: nat_add_distrib add.commute)
    qed
    have rd: "ReadPrimitiveFromArray type mem q = Some (v, q + int (sizeof_value type))"
      using ReadPrimitiveFromArray_Write [of v q mem Y] tv assms(1) q X' by simp
    define q' where "q' = q + int (sizeof_value type)"
    have q': "0 \<le> q'" "drop (nat q') mem = Y" "nat q' = nat p + per"
    proof -
      have "drop (sizeof_value type) (drop (nat q) mem) = Y" unfolding q(2) X' by (simp add: tv(2))
      then show "0 \<le> q'" "drop (nat q') mem = Y" "nat q' = nat p + per"
        using q(1) X(2) Suc.prems(1) assms(2) by (simp_all add: q'_def nat_add_distrib add.commute)
    qed
    obtain vals1 where add: "rf_AddAlreadyReserved v vals = Some vals1" "rf_inv vals1" "rf_list vals1 = rf_list vals @ [v]"
        "rf_size vals1 = rf_size vals + 1" "rf_Capacity vals1 = rf_Capacity vals"
      using rf_AddAlreadyReserved_ok [OF Suc.prems(5), of v] Suc.prems(6) by (auto simp: rf_size_def rf_Capacity_def)
    obtain k vals' where "k \<le> length vs'" "k \<le> n"
        "ReadRepeatedFixed_loop type tag mem n (m + 1) q' vals1 = Some (m + 1 + int k, vals')"
        "rf_inv vals'" "rf_list vals' = rf_list vals1 @ take k vs'"
      using Suc.IH [OF q'(1) _ _ _ add(2), of vs' "m + 1"] Y q'(2,3) Suc.prems(3,4,6) vs add(4,5) by auto
    then show ?thesis
      using e Some rd add vs by (intro exI [of _ "Suc k"]) (auto simp: q'_def)
  qed
qed

context zero_copy_input
begin

abbreviation reads_to ::
    "('v option \<times> 's coded_input) option \<Rightarrow> 'v \<Rightarrow> nat \<Rightarrow> 's coded_input \<Rightarrow> bool" where
  "reads_to r v n s \<equiv> \<exists>t. r = Some (Some v, t) \<and> cinv' t \<and> cstep n s t"

lemma ReadVarint32_Write64:
  assumes "cinv' s" "cview s = WriteVarint64ToArray v @ rest'"
  shows "reads_to (ReadVarint32 ops s) (ucast v) (length (WriteVarint64ToArray v)) s"
proof -
  have enc: "WriteVarint64ToArray v = varint_enc (unat v)"
    by (simp add: WriteVarint64ToArray_def WriteVarint64ToArrayInline_eq)
  have "varint_split 10 (cview s) = Some (varint_enc (unat v), rest')"
    unfolding assms(2) enc by (rule varint_split_enc [OF length_varint_enc_64])
  from ReadVarint32_ok(1) [OF assms(1) this] show ?thesis
    by (auto simp: enc)
qed

lemma ReadVarint64_Write64:
  assumes "cinv' s" "cview s = WriteVarint64ToArray v @ rest'"
  shows "reads_to (ReadVarint64 ops s) v (length (WriteVarint64ToArray v)) s"
proof -
  have enc: "WriteVarint64ToArray v = varint_enc (unat v)"
    by (simp add: WriteVarint64ToArray_def WriteVarint64ToArrayInline_eq)
  have "varint_split 10 (cview s) = Some (varint_enc (unat v), rest')"
    unfolding assms(2) enc by (rule varint_split_enc [OF length_varint_enc_64])
  from ReadVarint64_ok(1) [OF assms(1) this] show ?thesis
    by (auto simp: enc)
qed

lemma WriteVarint32_as_64:
  "WriteVarint32ToArray v = WriteVarint64ToArray (ucast v)"
  "WriteVarint32SignExtendedToArray v = WriteVarint64ToArray (scast v)"
  by (simp_all add: WriteVarint64ToArray_def WriteVarint64ToArrayInline_eq WriteVarint32ToArray_eq
      WriteVarint32SignExtendedToArray_eq unat_ucast_mod mod_less unat_less_2_32 [THEN less_trans])

lemma ReadVarint32_Write:
  assumes "cinv' s"
  shows "cview s = WriteVarint32ToArray v @ rest' \<Longrightarrow> reads_to (ReadVarint32 ops s) v (length (WriteVarint32ToArray v)) s"
    and "cview s = WriteVarint32SignExtendedToArray v @ rest' \<Longrightarrow>
      reads_to (ReadVarint32 ops s) v (length (WriteVarint32SignExtendedToArray v)) s"
    and "cview s = WriteVarint32ToArray v @ rest' \<Longrightarrow>
      reads_to (ReadVarint64 ops s) (ucast v) (length (WriteVarint32ToArray v)) s"
  using ReadVarint32_Write64 [OF assms, of "ucast v" rest'] ReadVarint32_Write64 [OF assms, of "scast v" rest']
    ReadVarint64_Write64 [OF assms, of "ucast v" rest']
  by (simp_all add: WriteVarint32_as_64 low_half)

lemma ReadLittleEndian_Write:
  assumes "cinv' s"
  shows "cview s = WriteLittleEndian32ToArray v @ rest' \<Longrightarrow>
      reads_to (ReadLittleEndian32 ops s) v (length (WriteLittleEndian32ToArray v)) s"
    and "cview s = WriteLittleEndian64ToArray w @ rest' \<Longrightarrow>
      reads_to (ReadLittleEndian64 ops s) w (length (WriteLittleEndian64ToArray w)) s"
  using ReadLittleEndian32_ok [OF assms] ReadLittleEndian64_ok [OF assms] by simp_all

lemma read_as_reads_to: "reads_to r v n s \<Longrightarrow> f v = w \<Longrightarrow> reads_to (read_as f r) w n s"
  by (auto simp: read_as_def)

lemma ReadPrimitive_Write:
  assumes "cinv' s" "cview s = WriteNoTagToArray v @ rest'"
  shows "reads_to (ReadPrimitive (type_of v) ops s) v (length (WriteNoTagToArray v)) s"
proof -
  note rd = ReadVarint32_Write [OF assms(1)] ReadVarint64_Write64 [OF assms(1)] ReadLittleEndian_Write [OF assms(1)]
  show ?thesis
  proof (cases v)
    case (Bool b)
    with rd(3) [of "if b then 1 else 0" rest'] assms(2) show ?thesis
      by (auto simp: read_as_def)
  qed (insert assms(2), (simp del: length_WriteLittleEndian, rule read_as_reads_to, rule rd, assumption, simp)+)
qed

text \<open>Reading within a pushed limit and popping it gives a step of the outer stream.\<close>

lemma PopLimit_after:
  assumes s: "cinv' s" "PushLimit n s = (old, s1)" and t: "cinv' t" "cstep m s1 t" "m \<le> length (cunread s)"
  shows "cinv' (PopLimit old t)" "cstep m s (PopLimit old t)"
proof -
  note push = PushLimit_ok [OF s]
  have lim: "cis_current_limit s1 \<le> old" "cis_total_bytes_limit s1 = cis_total_bytes_limit s"
    "cis_recursion_budget s1 = cis_recursion_budget s" "cis_recursion_limit s1 = cis_recursion_limit s"
    "cis_input s1 = cis_input s"
    using s(2) by (auto simp: PushLimit_def Let_def)
  have pos: "CurrentPosition t = CurrentPosition s + int m" "cunread t = drop m (cunread s)"
    using t(2) push(3,4) by (auto simp: coded_step_def)
  have le: "CurrentPosition t \<le> old"
    using coded_invD(8) [OF t(1)] t(2) lim(1) by (auto simp: coded_step_def closest_limit_def)
  have old: "old \<le> INT_MAX" using push(2) coded_invD(13) [OF s(1)] by simp
  have flat: "IsFlat t \<longrightarrow> old \<le> cis_total_bytes_read t"
  proof
    assume "IsFlat t"
    then have i: "cis_input t = None" "cis_input s = None"
      using t(2) lim(5) by (simp_all add: IsFlat_def coded_step_def)
    have "cis_total_bytes_read u = CurrentPosition u + int (length (cunread u))"
      if "cinv' u" "cis_input u = None" for u
      using length_pending [OF that(1)] coded_invD(3,4) [OF that(1)] that(2)
      by (simp add: unread_def beyond_def CurrentPosition_def)
    from this [OF s(1) i(2)] this [OF t(1) i(1)]
    have "cis_total_bytes_read t = cis_total_bytes_read s"
      using pos t(3) by simp
    with coded_inv_input_inv [OF s(1)] i(2) push(2) show "old \<le> cis_total_bytes_read t"
      by (simp add: input_inv_def)
  qed
  note pop = PopLimit_ok [OF t(1) le old flat]
  show "cinv' (PopLimit old t)" by (rule pop)
  have "cis_current_limit (PopLimit old t) = old" "cis_total_bytes_limit (PopLimit old t) = cis_total_bytes_limit t"
    "cis_recursion_budget (PopLimit old t) = cis_recursion_budget t"
    "cis_recursion_limit (PopLimit old t) = cis_recursion_limit t" "cis_input (PopLimit old t) = cis_input t"
    by (simp_all add: PopLimit_def RecomputeBufferLimits_def Let_def)
  with pop(2,3) pos t(2) lim push(2) show "cstep m s (PopLimit old t)"
    by (simp add: coded_step_def)
qed

lemma WriteNoTagToArray_neq_Nil [simp]: "WriteNoTagToArray v \<noteq> []"
  by (cases v) (simp_all add: WriteVarint32SignExtendedToArray_eq WriteVarint32ToArray_eq WriteVarint64ToArray_def
      WriteVarint64ToArrayInline_eq WriteLittleEndian32ToArray_def WriteLittleEndian64ToArray_def Let_def)

lemma rf_Add_room:
  "rf_inv vs \<Longrightarrow> int (length (rf_list vs)) \<le> 2 ^ 30 - 1 \<Longrightarrow>
   \<exists>vs'. rf_Add e0 v vs = Some vs' \<and> rf_inv vs' \<and> rf_list vs' = rf_list vs @ [v]"
  using rf_Add_ok [of vs e0 v] rf_size_list [of vs] by (auto simp: rf_size_def)

lemma ReadPackedPrimitive_loop_ok:
  "cinv' s \<Longrightarrow> cis_current_limit s = CurrentPosition s + int (length (cview s)) \<Longrightarrow>
   cis_current_limit s \<noteq> INT_MAX \<Longrightarrow> cview s = concat (map WriteNoTagToArray vs) \<Longrightarrow>
   \<forall>v \<in> set vs. type_of v = type \<Longrightarrow> rf_inv vals \<Longrightarrow> int (length (rf_list vals) + length vs) \<le> 2 ^ 30 \<Longrightarrow>
   \<exists>t vals'. ReadPackedPrimitive_loop e0 type ops s vals = Some (True, t, vals') \<and>
     cinv' t \<and> cstep (length (cview s)) s t \<and> rf_inv vals' \<and> rf_list vals' = rf_list vals @ vs"
proof (induction vs arbitrary: s vals)
  case Nil
  then show ?case
    by (subst ReadPackedPrimitive_loop.simps) (simp add: BytesUntilLimit_def)
next
  case (Cons v vs)
  have v: "cview s = WriteNoTagToArray v @ concat (map WriteNoTagToArray vs)" "type_of v = type"
    using Cons.prems by simp_all
  then have "0 < length (cview s)" by simp
  then have more: "BytesUntilLimit s > 0"
    using Cons.prems(2,3) by (simp add: BytesUntilLimit_def)
  obtain t where t: "ReadPrimitive type ops s = Some (Some v, t)" "cinv' t" "cstep (length (WriteNoTagToArray v)) s t"
    using ReadPrimitive_Write [OF Cons.prems(1) v(1)] v(2) by blast
  have view_t: "cview t = concat (map WriteNoTagToArray vs)"
    using coded_step_view [OF t(3) Cons.prems(1)] v(1) by simp
  obtain vals1 where w: "rf_Add e0 v vals = Some vals1" "rf_inv vals1" "rf_list vals1 = rf_list vals @ [v]"
    using rf_Add_room [OF Cons.prems(6), of e0 v] Cons.prems(7) by auto
  have "cis_current_limit t = CurrentPosition t + int (length (cview t))" "cis_current_limit t \<noteq> INT_MAX"
    using t(3) Cons.prems(2,3) v(1) view_t by (simp_all add: coded_step_def)
  then obtain u vals' where "ReadPackedPrimitive_loop e0 type ops t vals1 = Some (True, u, vals')" "cinv' u"
      "cstep (length (cview t)) t u" "rf_inv vals'" "rf_list vals' = rf_list vals1 @ vs"
    using Cons.IH [OF t(2) _ _ view_t _ w(2)] Cons.prems(5,7) w(3) by auto
  moreover have "length (cview s) = length (WriteNoTagToArray v) + length (cview t)"
    using v(1) view_t by simp
  ultimately show ?case
    using more t w coded_step_trans [OF t(3)] by (subst ReadPackedPrimitive_loop.simps) auto
qed

lemma ReadVarintSizeAsInt_Write:
  assumes "cinv' s" "cview s = WriteVarint32ToArray (of_nat n) @ r" "int n \<le> INT_MAX"
  shows "\<exists>t. ReadVarintSizeAsInt ops s = Some (True, int n, t) \<and> cinv' t \<and>
    cstep (length (WriteVarint32ToArray (of_nat n))) s t \<and> same_end s t"
proof -
  have n: "unat (of_nat n :: uint32) = n" "n < 2 ^ 32"
    using assms(3) by (simp_all add: INT_MAX_def unat_of_nat take_bit_nat_eq_self)
  have enc: "WriteVarint32ToArray (of_nat n) = varint_enc n"
    by (simp add: WriteVarint32ToArray_eq n)
  have "length (varint_enc n) \<le> 10"
    using length_varint_enc_32 [of "of_nat n"] n(1) by simp
  then have "varint_split 10 (cview s) = Some (varint_enc n, r)"
    unfolding assms(2) enc by (rule varint_split_enc)
  moreover have "unat (of_nat (leb (varint_enc n)) :: uint64) = n"
    using n(2) by (simp add: unat_of_nat take_bit_nat_eq_self)
  moreover from this have "uint (of_nat (leb (varint_enc n)) :: uint64) = int n"
    by (simp add: uint_nat)
  ultimately show ?thesis
    using ReadVarintSizeAsInt_ok(1) [OF assms(1), of "varint_enc n" r] assms(3) by (simp add: enc INT_MAX_def)
qed

lemma PushLimit_exact:
  assumes "cinv' s" "PushLimit (int n) s = (old, t)" "n \<le> length (cview s)"
  shows "cis_current_limit t = CurrentPosition s + int n"
proof -
  have "int (length (cview s)) \<le> closest_limit s - CurrentPosition s"
    using coded_invD(8) [OF assms(1)] by (simp add: view_def)
  then have "CurrentPosition s + int n \<le> cis_current_limit s" "CurrentPosition s + int n \<le> INT_MAX"
    using assms(3) coded_invD(9) [OF assms(1)] by (auto simp: closest_limit_def)
  then show ?thesis
    using assms(2) by (auto simp: PushLimit_def Let_def)
qed

lemma ReadPackedPrimitive_generic_ok:
  assumes "cinv' s" "cview s = WriteStringWithSizeToArray body @ r" "body = concat (map WriteNoTagToArray vs)"
    and "CurrentPosition s + int (length (WriteStringWithSizeToArray body)) < INT_MAX"
    and "\<forall>v \<in> set vs. type_of v = type" "rf_inv vals" "int (length (rf_list vals) + length vs) \<le> 2 ^ 30"
  shows "\<exists>t vals'. ReadPackedPrimitive_generic e0 type ops s vals = Some (True, t, vals') \<and>
    cinv' t \<and> cstep (length (WriteStringWithSizeToArray body)) s t \<and>
    rf_inv vals' \<and> rf_list vals' = rf_list vals @ vs"
proof -
  let ?n = "length body"
  have size: "WriteStringWithSizeToArray body = WriteVarint32ToArray (of_nat ?n) @ body"
    by (simp add: WriteStringWithSizeToArray_def WriteStringToArray_def WriteRawToArray_def)
  have "int ?n \<le> INT_MAX"
    using assms(4) coded_invD(7) [OF assms(1)] size by simp
  then obtain t where t: "ReadVarintSizeAsInt ops s = Some (True, int ?n, t)" "cinv' t"
      "cstep (length (WriteVarint32ToArray (of_nat ?n))) s t"
    using ReadVarintSizeAsInt_Write [OF assms(1)] assms(2) size by (metis append_assoc)
  have view_t: "cview t = body @ r"
    using coded_step_view [OF t(3) assms(1)] assms(2) size by simp
  obtain old u where u: "PushLimit (int ?n) t = (old, u)" by fastforce
  note push = PushLimit_ok [OF t(2) u]
  have lim: "cis_current_limit u = CurrentPosition u + int (length (cview u))" "cview u = body"
    using PushLimit_exact [OF t(2) u] push(4,5) view_t by simp_all
  moreover have "cis_current_limit u \<noteq> INT_MAX"
    using lim push(4) t(3) assms(4) size by (simp add: coded_step_def)
  ultimately obtain w vals' where w: "ReadPackedPrimitive_loop e0 type ops u vals = Some (True, w, vals')" "cinv' w"
      "cstep (length (cview u)) u w" "rf_inv vals'" "rf_list vals' = rf_list vals @ vs"
    using ReadPackedPrimitive_loop_ok [OF push(1), of vs type vals e0] assms(3,5,6,7) by auto
  have "?n \<le> length (cunread t)"
    using view_t by (metis append_eq_conv_conj length_append le_add1 length_take min.bounded_iff nat_le_linear view_def)
  with PopLimit_after [OF t(2) u w(2), of ?n] w(3) lim(2)
  have pop: "cinv' (PopLimit old w)" "cstep ?n t (PopLimit old w)" by simp_all
  then show ?thesis
    using t u w coded_step_trans [OF t(3) pop(2)] size
    by (auto simp: ReadPackedPrimitive_generic_def)
qed

lemma length_fixed_body:
  "\<forall>v \<in> set vs. type_of v = type \<Longrightarrow> sizeof_value type \<noteq> 0 \<Longrightarrow>
   length (concat (map WriteNoTagToArray vs)) = length vs * sizeof_value type"
  by (induction vs) (auto simp: sizeof_value_eq)

lemma ReadPackedFixed_loop_ok:
  assumes add: "\<And>v vs. rf_inv vs \<Longrightarrow> P vs \<Longrightarrow> int (length (rf_list vs)) < N \<Longrightarrow>
      \<exists>vs'. add v vs = Some vs' \<and> rf_inv vs' \<and> P vs' \<and> rf_list vs' = rf_list vs @ [v]"
  shows "cinv' s \<Longrightarrow> cview s = concat (map WriteNoTagToArray vs) @ r \<Longrightarrow>
     \<forall>v \<in> set vs. type_of v = type \<Longrightarrow> rf_inv vals \<Longrightarrow> P vals \<Longrightarrow> int (length (rf_list vals) + length vs) \<le> N \<Longrightarrow>
     \<exists>t vals'. ReadPackedFixed_loop add (ReadPrimitive type ops) (length vs) s vals = Some (True, t, vals') \<and>
       cinv' t \<and> cstep (length (concat (map WriteNoTagToArray vs))) s t \<and> rf_inv vals' \<and> rf_list vals' = rf_list vals @ vs"
proof (induction vs arbitrary: s vals)
  case (Cons v vs)
  have v: "cview s = WriteNoTagToArray v @ concat (map WriteNoTagToArray vs) @ r" "type_of v = type"
    using Cons.prems by simp_all
  obtain t where t: "ReadPrimitive type ops s = Some (Some v, t)" "cinv' t" "cstep (length (WriteNoTagToArray v)) s t"
    using ReadPrimitive_Write [OF Cons.prems(1) v(1)] v(2) by blast
  have view_t: "cview t = concat (map WriteNoTagToArray vs) @ r"
    using coded_step_view [OF t(3) Cons.prems(1)] v(1) by simp
  obtain vals1 where w: "add v vals = Some vals1" "rf_inv vals1" "P vals1" "rf_list vals1 = rf_list vals @ [v]"
    using add [OF Cons.prems(4,5), of v] Cons.prems(6) by auto
  obtain u vals' where "ReadPackedFixed_loop add (ReadPrimitive type ops) (length vs) t vals1 = Some (True, u, vals')"
      "cinv' u" "cstep (length (concat (map WriteNoTagToArray vs))) t u" "rf_inv vals'" "rf_list vals' = rf_list vals1 @ vs"
    using Cons.IH [OF t(2) view_t _ w(2,3)] Cons.prems(3,6) w(4) by auto
  then show ?case
    using t w coded_step_trans [OF t(3)] by auto
qed simp

lemma ReadPackedFixedSizePrimitive_ok:
  assumes "cinv' s" "cview s = WriteStringWithSizeToArray body @ r" "body = concat (map WriteNoTagToArray vs)"
    and "int (length body) \<le> INT_MAX" "sizeof_value type \<noteq> 0"
    and "\<forall>v \<in> set vs. type_of v = type" "rf_inv vals" "int (length (rf_list vals) + length vs) \<le> 2 ^ 30"
    and "rf_total_size vals \<le> 2 ^ 30 - 1"
  shows "\<exists>t vals'. ReadPackedFixedSizePrimitive e0 type ops s vals = Some (True, t, vals') \<and>
    cinv' t \<and> cstep (length (WriteStringWithSizeToArray body)) s t \<and>
    rf_inv vals' \<and> rf_list vals' = rf_list vals @ vs"
proof -
  let ?n = "length body"
  have size: "WriteStringWithSizeToArray body = WriteVarint32ToArray (of_nat ?n) @ body"
    by (simp add: WriteStringWithSizeToArray_def WriteStringToArray_def WriteRawToArray_def)
  obtain t where t: "ReadVarintSizeAsInt ops s = Some (True, int ?n, t)" "cinv' t"
      "cstep (length (WriteVarint32ToArray (of_nat ?n))) s t"
    using ReadVarintSizeAsInt_Write [OF assms(1) _ assms(4)] assms(2) size by (metis append_assoc)
  have view_t: "cview t = concat (map WriteNoTagToArray vs) @ r"
    using coded_step_view [OF t(3) assms(1)] assms(2,3) size by simp
  have n: "?n = length vs * sizeof_value type"
    using length_fixed_body [OF assms(6,5)] assms(3) by simp
  then have entries: "int ?n div int (sizeof_value type) = int (length vs)"
    using assms(5) by simp
  have add: "\<exists>vs'. rf_Add e0 v xs = Some vs' \<and> rf_inv vs' \<and> True \<and> rf_list vs' = rf_list xs @ [v]"
    if "rf_inv xs" "int (length (rf_list xs)) < 2 ^ 30" for v xs
    using rf_Add_room [OF that(1), of e0 v] that(2) by auto
  obtain vals1 where res: "rf_Reserve e0 (rf_size vals + int (length vs)) vals = Some vals1" "rf_inv vals1"
      "rf_list vals1 = rf_list vals" "rf_size vals + int (length vs) \<le> rf_total_size vals1"
    using rf_Reserve_ok [OF assms(7,9), of "rf_size vals + int (length vs)" e0] assms(8) rf_size_list [OF assms(7)]
    by auto
  have res_add: "\<exists>vs'. rf_AddAlreadyReserved v xs = Some vs' \<and> rf_inv vs' \<and>
      rf_total_size vs' = rf_total_size vals1 \<and> rf_list vs' = rf_list xs @ [v]"
    if "rf_inv xs" "rf_total_size xs = rf_total_size vals1" "int (length (rf_list xs)) < rf_total_size vals1" for v xs
    using rf_AddAlreadyReserved_ok [OF that(1), of v] that rf_size_list [OF that(1)] by (auto simp: rf_size_def)
  have slow: "\<exists>u vals'. ReadPackedFixed_loop (rf_Add e0) (ReadPrimitive type ops) (length vs) t vals = Some (True, u, vals') \<and>
      cinv' u \<and> cstep (length (concat (map WriteNoTagToArray vs))) t u \<and> rf_inv vals' \<and> rf_list vals' = rf_list vals @ vs"
    by (rule ReadPackedFixed_loop_ok [where P = "\<lambda>_. True", OF add])
      (use t view_t assms in simp_all)
  have "\<exists>u vals'. ReadPackedFixed_loop rf_AddAlreadyReserved (ReadPrimitive type ops) (length vs) t vals1 = Some (True, u, vals') \<and>
      cinv' u \<and> cstep (length (concat (map WriteNoTagToArray vs))) t u \<and> rf_inv vals' \<and> rf_list vals' = rf_list vals1 @ vs"
    by (rule ReadPackedFixed_loop_ok [where P = "\<lambda>xs. rf_total_size xs = rf_total_size vals1" and
          N = "rf_total_size vals1", OF res_add])
      (use t view_t assms res rf_size_list [OF assms(7)] in simp_all)
  with slow obtain u vals' u2 vals2
    where "ReadPackedFixed_loop (rf_Add e0) (ReadPrimitive type ops) (length vs) t vals = Some (True, u, vals')"
      "cinv' u" "cstep (length body) t u" "rf_inv vals'" "rf_list vals' = rf_list vals @ vs"
      "ReadPackedFixed_loop rf_AddAlreadyReserved (ReadPrimitive type ops) (length vs) t vals1 = Some (True, u2, vals2)"
      "cinv' u2" "cstep (length body) t u2" "rf_inv vals2" "rf_list vals2 = rf_list vals @ vs"
    using res(3) assms(3) by auto
  moreover have "int (length vs) * int (sizeof_value type) = int ?n"
    using n by simp
  ultimately show ?thesis
    using t(1) entries res(1) size coded_step_trans [OF t(3)]
    by (simp add: ReadPackedFixedSizePrimitive_def Let_def)
qed

lemma ReadPackedPrimitive_ok:
  assumes "cinv' s" "cview s = WriteStringWithSizeToArray (concat (map WriteNoTagToArray vs)) @ r"
    and "CurrentPosition s + int (length (WriteStringWithSizeToArray (concat (map WriteNoTagToArray vs)))) < INT_MAX"
    and "\<forall>v \<in> set vs. type_of v = type" "rf_inv vals" "int (length (rf_list vals) + length vs) \<le> 2 ^ 30"
    and "rf_total_size vals \<le> 2 ^ 30 - 1"
  shows "\<exists>t vals'. ReadPackedPrimitive e0 type ops s vals = Some (True, t, vals') \<and>
    cinv' t \<and> cstep (length (WriteStringWithSizeToArray (concat (map WriteNoTagToArray vs)))) s t \<and>
    rf_inv vals' \<and> rf_list vals' = rf_list vals @ vs"
proof -
  have "int (length (concat (map WriteNoTagToArray vs))) \<le> INT_MAX"
    using assms(3) coded_invD(7) [OF assms(1)]
    by (simp add: WriteStringWithSizeToArray_def WriteStringToArray_def WriteRawToArray_def)
  then show ?thesis
    using ReadPackedPrimitive_generic_ok [OF assms(1,2) refl assms(3-6), of e0]
      ReadPackedFixedSizePrimitive_ok [OF assms(1,2) refl _ _ assms(4-7), of e0]
    by (simp add: ReadPackedPrimitive_def)
qed

lemma ReadRepeatedPrimitive_loop_ok:
  assumes "\<not> starts_with r (WriteTagToArray tag)"
  shows "cinv' s \<Longrightarrow> cview s = tagged_elements tag vs @ r \<Longrightarrow> \<forall>v \<in> set vs. type_of v = type \<Longrightarrow> rf_inv vals \<Longrightarrow>
     rf_size vals + int n \<le> rf_Capacity vals \<Longrightarrow>
     \<exists>k t vals'. k \<le> length vs \<and> ReadRepeatedPrimitive_loop type ops tag n s vals = Some (True, t, vals') \<and>
       cinv' t \<and> cstep (length (tagged_elements tag (take k vs))) s t \<and>
       rf_inv vals' \<and> rf_list vals' = rf_list vals @ take k vs"
proof (induction n arbitrary: s vals vs)
  case 0
  then show ?case by (intro exI [of _ 0]) simp
next
  case (Suc n)
  obtain b t where t: "ExpectTag tag s = Some (b, t)" "cinv' t"
      "if b then cview s = WriteTagToArray tag @ cview t \<and> cstep (length (WriteTagToArray tag)) s t else t = s"
    using ExpectTag_ok [OF Suc.prems(1)] by blast
  show ?case
  proof (cases b)
    case False
    with t Suc.prems show ?thesis by (intro exI [of _ 0]) simp
  next
    case True
    with t have "starts_with (tagged_elements tag vs @ r) (WriteTagToArray tag)"
      using Suc.prems(2) starts_with_append by simp
    with assms obtain v vs' where vs: "vs = v # vs'"
      by (cases vs) auto
    have view_t: "cview t = WriteNoTagToArray v @ tagged_elements tag vs' @ r" "type_of v = type"
      using True t(3) Suc.prems(2,3) vs by simp_all
    obtain u where u: "ReadPrimitive type ops t = Some (Some v, u)" "cinv' u" "cstep (length (WriteNoTagToArray v)) t u"
      using ReadPrimitive_Write [OF t(2) view_t(1)] view_t(2) by blast
    have view_u: "cview u = tagged_elements tag vs' @ r"
      using coded_step_view [OF u(3) t(2)] view_t(1) by simp
    obtain vals1 where add: "rf_AddAlreadyReserved v vals = Some vals1" "rf_inv vals1" "rf_list vals1 = rf_list vals @ [v]"
        "rf_size vals1 = rf_size vals + 1" "rf_Capacity vals1 = rf_Capacity vals"
      using rf_AddAlreadyReserved_ok [OF Suc.prems(4), of v] Suc.prems(5) by (auto simp: rf_size_def rf_Capacity_def)
    obtain k w vals' where "k \<le> length vs'" "ReadRepeatedPrimitive_loop type ops tag n u vals1 = Some (True, w, vals')"
        "cinv' w" "cstep (length (tagged_elements tag (take k vs'))) u w" "rf_inv vals'"
        "rf_list vals' = rf_list vals1 @ take k vs'"
      using Suc.IH [OF u(2) view_u _ add(2)] Suc.prems(3,5) vs add(4,5) by auto
    then show ?thesis
      using True t u add vs coded_step_trans [OF coded_step_trans] 
      by (intro exI [of _ "Suc k"]) (auto simp: add.assoc [symmetric])
  qed
qed

lemma ReadRepeatedPrimitive_ok:
  assumes "cinv' s" "cview s = WriteNoTagToArray v @ tagged_elements tag vs @ r"
    and "\<not> starts_with r (WriteTagToArray tag)" "\<forall>w \<in> set (v # vs). type_of w = type"
    and "rf_inv vals" "int (length (rf_list vals)) \<le> 2 ^ 30 - 1"
  shows "\<exists>k t vals'. k \<le> length vs \<and>
    ReadRepeatedPrimitive e0 type ops (int (length (WriteTagToArray tag))) tag s vals = Some (True, t, vals') \<and>
    cinv' t \<and> cview t = tagged_elements tag (drop k vs) @ r \<and>
    rf_inv vals' \<and> rf_list vals' = rf_list vals @ v # take k vs"
proof -
  obtain t where t: "ReadPrimitive type ops s = Some (Some v, t)" "cinv' t" "cstep (length (WriteNoTagToArray v)) s t"
    using ReadPrimitive_Write [OF assms(1,2)] assms(4) by auto
  have view_t: "cview t = tagged_elements tag vs @ r"
    using coded_step_view [OF t(3) assms(1)] assms(2) by simp
  obtain vals1 where add: "rf_Add e0 v vals = Some vals1" "rf_inv vals1" "rf_list vals1 = rf_list vals @ [v]"
    using rf_Add_room [OF assms(5,6), of e0 v] by blast
  have cap: "rf_size vals1 \<le> rf_Capacity vals1"
    using add(2) by (simp add: rf_inv_def rf_size_def rf_Capacity_def)
  have split: "tagged_elements tag vs = tagged_elements tag (take k vs) @ tagged_elements tag (drop k vs)" for k
    by (simp add: tagged_elements_def flip: concat_append map_append)
  have view_after: "cview u = tagged_elements tag (drop k vs) @ r"
    if "cstep (length (tagged_elements tag (take k vs))) t u" for k u
    using coded_step_view [OF that t(2)] view_t split [of k] by simp
  show ?thesis
  proof (cases "sizeof_value type = 0")
    case True
    obtain k u vals' where u: "k \<le> length vs"
        "ReadRepeatedPrimitive_loop type ops tag (nat (rf_Capacity vals1 - rf_size vals1)) t vals1 = Some (True, u, vals')"
        "cinv' u" "cstep (length (tagged_elements tag (take k vs))) t u" "rf_inv vals'" "rf_list vals' = rf_list vals1 @ take k vs"
      using ReadRepeatedPrimitive_loop_ok [OF assms(3) t(2) view_t, of type vals1
          "nat (rf_Capacity vals1 - rf_size vals1)"] assms(4) add(2) cap by auto
    with True t add view_after [OF u(4)] show ?thesis
      by (intro exI [of _ k]) (simp add: ReadRepeatedPrimitive_def ReadRepeatedPrimitive_generic_def)
  next
    case False
    define per where "per = length (WriteTagToArray tag) + sizeof_value type"
    define n where "n = nat (min (rf_Capacity vals1 - rf_size vals1) (BufferSize t sdiv int per))"
    note I = coded_invD [OF t(2)]
    have perpos: "0 < per" using False by (simp add: per_def)
    show ?thesis
    proof (cases "BufferSize t > 0")
      case no: False
      with False t add view_t show ?thesis
        by (intro exI [of _ 0]) (simp add: ReadRepeatedPrimitive_def ReadRepeatedFixedSizePrimitive_def)
    next
      case yes: True
      obtain tl1 where buf: "cview t = buffered t @ tl1"
        using view_buffered [OF t(2), of rest] by blast
      obtain tl2 where mem: "drop (nat (cis_buffer t)) (cis_chunk t) = buffered t @ tl2"
        using drop_buffer_buffered [OF t(2)] by blast
      have "BufferSize t sdiv int per = BufferSize t div int per"
        using yes perpos by (simp add: signed_divide_int_def)
      then have "int n \<le> BufferSize t div int per"
        using yes perpos cap by (simp add: n_def pos_imp_zdiv_nonneg_iff)
      moreover have "BufferSize t div int per * int per \<le> BufferSize t"
        using div_mult_mod_eq [of "BufferSize t" "int per"] pos_mod_sign [of "int per" "BufferSize t"] perpos by linarith
      ultimately have "int n * int per \<le> BufferSize t"
        by (meson mult_right_mono of_nat_0_le_iff order_trans)
      then have np: "n * per \<le> length (buffered t)"
        by (simp add: length_buffered [OF t(2)] nat_le_iff flip: of_nat_mult)
      have "take (n * per) (drop (nat (cis_buffer t)) (cis_chunk t)) = take (n * per) (tagged_elements tag vs @ r)"
        using np by (simp add: mem flip: view_t) (simp add: buf)
      moreover have "nat (cis_buffer t) + n * per \<le> length (cis_chunk t)"
        using np length_buffered [OF t(2)] I(1-5) by (simp add: BufferSize_def nat_le_iff)
      moreover have "rf_size vals1 + int n \<le> rf_Capacity vals1"
        using cap by (auto simp: n_def)
      ultimately obtain k vals' where k: "k \<le> length vs" "k \<le> n"
          "ReadRepeatedFixed_loop type tag (cis_chunk t) n 0 (cis_buffer t) vals1 = Some (int k, vals')"
          "rf_inv vals'" "rf_list vals' = rf_list vals1 @ take k vs"
        using ReadRepeatedFixed_loop_ok [OF False per_def assms(3) I(1), of n "cis_chunk t" vs vals1 0]
          assms(4) add(2) by auto
      have len: "length (tagged_elements tag (take k vs)) = k * per"
      proof -
        have "length (tagged_elements tag ws) = length ws * per" if "\<forall>w \<in> set ws. type_of w = type" for ws
          using that False by (induction ws) (auto simp: sizeof_value_eq per_def)
        from this [of "take k vs"] show ?thesis
          using assms(4) k(1) in_set_takeD [of _ k vs] by (auto simp: min_absorb2)
      qed
      have "k * per \<le> length (cview t)"
        using split [of k] len view_t by simp
      then obtain u where u: "Skip ops (int k * int per) t = Some (True, u)" "cinv' u" "cstep (k * per) t u"
        using Skip_ok [OF t(2), of "int (k * per)"] by (auto simp: nat_mult_distrib)
      define skip where "skip = (if int k * int per > 0 then map_option snd (Skip ops (int k * int per) t) else Some t)"
      have skip: "\<exists>u. skip = Some u \<and> cinv' u \<and> cstep (k * per) t u"
        using u t(2) perpos by (cases "k = 0") (auto simp: skip_def)
      then obtain u where u: "skip = Some u" "cinv' u" "cstep (length (tagged_elements tag (take k vs))) t u"
        using len by auto
      have "ReadRepeatedPrimitive e0 type ops (int (length (WriteTagToArray tag))) tag s vals = Some (True, u, vals')"
        using False t(1) add(1) yes k(3) u(1)
        by (simp add: ReadRepeatedPrimitive_def ReadRepeatedFixedSizePrimitive_def Let_def n_def per_def skip_def cong: if_cong split: if_splits)
      with k u view_after [OF u(3)] add(3) show ?thesis
        by (intro exI [of _ k]) simp
    qed
  qed
qed

end

end
