(* ===== verification/Wire_Parse.thy ===== *)
theory Wire_Parse
  imports Wire_Skip Wire_Format Wire_Field_Lemmas
begin

text \<open>
  The grammar of the wire format as a function on byte lists, \<open>wire_parse\<close>, and the proof that the
  skippers compute it on every stream that keeps the input contract: they accept the same inputs,
  consume the same bytes, keep or copy the same fields and end with the same tag. Serialising a set
  of unknown fields is a right inverse of the parse.
\<close>

section \<open>The reference parser\<close>

fun le_value :: "bytes \<Rightarrow> nat" where
  "le_value [] = 0"
| "le_value (b # bs) = unat b + 256 * le_value bs"

datatype wire_end =
    End_Clean \<comment> \<open>the input ended where a tag could begin\<close>
  | End_Group uint32 \<comment> \<open>an end-group tag\<close>
  | End_Zero \<comment> \<open>a tag of value 0, or bytes that are no tag\<close>

definition wire_scalar :: "uint32 \<Rightarrow> bytes \<Rightarrow> (unknown_field \<times> bytes) option" where
  \<comment> \<open>The field with this tag, unless it is a group, at the front of the bytes.\<close>
  "wire_scalar tag bs =
     (let number = GetTagFieldNumber tag in
      case GetTagWireType tag of
        WIRETYPE_VARINT \<Rightarrow> do {
          (ds, r) \<leftarrow> varint_split 10 bs;
          Some (Unknown_Varint number (of_nat (leb ds)), r)
        }
      | WIRETYPE_FIXED64 \<Rightarrow>
          (if 8 \<le> length bs then Some (Unknown_Fixed64 number (of_nat (le_value (take 8 bs))), drop 8 bs) else None)
      | WIRETYPE_LENGTH_DELIMITED \<Rightarrow> do {
          (ds, r) \<leftarrow> varint_split 10 bs;
          let n = sint (of_nat (leb ds) :: uint32);
          if 0 \<le> n \<and> nat n \<le> length r then Some (Unknown_LengthDelimited number (take (nat n) r), drop (nat n) r)
          else None
        }
      | WIRETYPE_FIXED32 \<Rightarrow>
          (if 4 \<le> length bs then Some (Unknown_Fixed32 number (of_nat (le_value (take 4 bs))), drop 4 bs) else None)
      | _ \<Rightarrow> None)"

function wire_parse :: "nat \<Rightarrow> bytes \<Rightarrow> (unknown_field list \<times> wire_end \<times> bytes) option" where
  \<comment> \<open>The fields up to the end of the message, the kind of end, and the rest; groups nest to the
    depth given.\<close>
  "wire_parse depth bs =
     (if bs = [] then Some ([], End_Clean, [])
      else
        (case varint_split 10 bs of
           None \<Rightarrow> Some ([], End_Zero, [])
         | Some (ds, r) \<Rightarrow>
             (let tag = of_nat (leb ds) :: uint32 in
              if tag = 0 then Some ([], End_Zero, r)
              else if GetTagWireType tag = WIRETYPE_END_GROUP then Some ([], End_Group tag, r)
              else do {
                (f, r) \<leftarrow>
                  (if GetTagWireType tag = WIRETYPE_START_GROUP then
                     if depth = 0 then None
                     else do {
                       (fs, e, r) \<leftarrow> wire_parse (depth - 1) r;
                       if e = End_Group (end_group_of tag)
                       then Some (Unknown_Group (GetTagFieldNumber tag) (ufs_of fs), r) else None
                     }
                   else wire_scalar tag r);
                if length r < length bs then do {
                  (fs, e, r) \<leftarrow> wire_parse depth r;
                  Some (f # fs, e, r)
                }
                else None
              })))"
  by pat_completeness auto
termination
  by (relation "measure (\<lambda>(depth, bs). length bs)") (auto dest: varint_split_SomeD)

declare wire_parse.simps [simp del]

lemma wire_scalar_shorter: "wire_scalar tag bs = Some (f, r) \<Longrightarrow> length r \<le> length bs"
  by (auto simp: wire_scalar_def Let_def bind_eq_Some dest: varint_split_SomeD split: wire_type.splits if_splits)

definition wire_field :: "nat \<Rightarrow> uint32 \<Rightarrow> bytes \<Rightarrow> (unknown_field \<times> bytes) option" where
  \<comment> \<open>One field with this tag.\<close>
  "wire_field depth tag r =
     (if GetTagWireType tag = WIRETYPE_START_GROUP then
        if depth = 0 then None
        else do {
          (fs, e, r) \<leftarrow> wire_parse (depth - 1) r;
          if e = End_Group (end_group_of tag)
          then Some (Unknown_Group (GetTagFieldNumber tag) (ufs_of fs), r) else None
        }
      else wire_scalar tag r)"

lemma wire_parse_cases:
  "wire_parse d [] = Some ([], End_Clean, [])"
  "bs \<noteq> [] \<Longrightarrow> varint_split 10 bs = None \<Longrightarrow> wire_parse d bs = Some ([], End_Zero, [])"
  "varint_split 10 bs = Some (ds, r) \<Longrightarrow> tag = of_nat (leb ds) \<Longrightarrow> tag = 0 \<Longrightarrow> wire_parse d bs = Some ([], End_Zero, r)"
  "varint_split 10 bs = Some (ds, r) \<Longrightarrow> tag = of_nat (leb ds) \<Longrightarrow> tag \<noteq> 0 \<Longrightarrow>
     GetTagWireType tag = WIRETYPE_END_GROUP \<Longrightarrow> wire_parse d bs = Some ([], End_Group tag, r)"
  "varint_split 10 bs = Some (ds, r) \<Longrightarrow> tag = of_nat (leb ds) \<Longrightarrow> tag \<noteq> 0 \<Longrightarrow>
     GetTagWireType tag \<noteq> WIRETYPE_END_GROUP \<Longrightarrow>
     wire_parse d bs = do {
       (f, r) \<leftarrow> wire_field d tag r;
       if length r < length bs then do { (fs, e, r) \<leftarrow> wire_parse d r; Some (f # fs, e, r) } else None
     }"
proof -
  have ne: "varint_split 10 bs = Some (ds, r) \<Longrightarrow> bs \<noteq> []"
    by (auto dest: varint_split_SomeD)
  show "wire_parse d [] = Some ([], End_Clean, [])"
    by (subst wire_parse.simps) simp
  show "bs \<noteq> [] \<Longrightarrow> varint_split 10 bs = None \<Longrightarrow> wire_parse d bs = Some ([], End_Zero, [])"
    by (subst wire_parse.simps) simp
  show "varint_split 10 bs = Some (ds, r) \<Longrightarrow> tag = of_nat (leb ds) \<Longrightarrow> tag = 0 \<Longrightarrow>
      wire_parse d bs = Some ([], End_Zero, r)"
    using ne by (subst wire_parse.simps) simp
  show "varint_split 10 bs = Some (ds, r) \<Longrightarrow> tag = of_nat (leb ds) \<Longrightarrow> tag \<noteq> 0 \<Longrightarrow>
      GetTagWireType tag = WIRETYPE_END_GROUP \<Longrightarrow> wire_parse d bs = Some ([], End_Group tag, r)"
    using ne by (subst wire_parse.simps) simp
  assume "varint_split 10 bs = Some (ds, r)" "tag = of_nat (leb ds)" "tag \<noteq> 0"
    "GetTagWireType tag \<noteq> WIRETYPE_END_GROUP"
  then show "wire_parse d bs = do {
       (f, r) \<leftarrow> wire_field d tag r;
       if length r < length bs then do { (fs, e, r) \<leftarrow> wire_parse d r; Some (f # fs, e, r) } else None
     }"
    using ne by (subst wire_parse.simps) (simp add: wire_field_def Let_def)
qed

lemma wire_cases:
  obtains "bs = []"
    | "bs \<noteq> []" "varint_split 10 bs = None"
    | ds r where "varint_split 10 bs = Some (ds, r)" "(of_nat (leb ds) :: uint32) = 0"
    | ds r tag where "varint_split 10 bs = Some (ds, r)" "tag = of_nat (leb ds)" "tag \<noteq> (0 :: uint32)"
        "GetTagWireType tag = WIRETYPE_END_GROUP"
    | ds r tag where "varint_split 10 bs = Some (ds, r)" "tag = of_nat (leb ds)" "tag \<noteq> (0 :: uint32)"
        "GetTagWireType tag \<noteq> WIRETYPE_END_GROUP" "length r < length bs"
proof (cases "varint_split 10 bs")
  case None
  then show ?thesis using that(1,2) by blast
next
  case (Some p)
  then obtain ds r where split: "varint_split 10 bs = Some (ds, r)" by (cases p) auto
  then have "length r < length bs"
    using varint_split_SomeD [OF split] by auto
  with split show ?thesis using that(3-5) by blast
qed

lemma wire_parse_shorter: "wire_parse d bs = Some (fs, e, r) \<Longrightarrow> length r \<le> length bs"
proof (induction "length bs" arbitrary: d bs fs e r rule: less_induct)
  case less
  show ?case
  proof (cases rule: wire_cases [of bs])
    case (5 ds r1 tag)
    from less.prems obtain f r2 fs' where "length r2 < length bs" "wire_parse d r2 = Some (fs', e, r)"
      by (auto simp: wire_parse_cases(5) [OF 5(1-4)] bind_eq_Some split: if_splits)
    then show ?thesis
      using less.hyps [of r2 d fs' e r] by simp
  qed (use less.prems in \<open>auto simp: wire_parse_cases dest: varint_split_SomeD\<close>)
qed

lemma wire_field_shorter: "wire_field d tag bs = Some (f, r) \<Longrightarrow> length r \<le> length bs"
  by (auto simp: wire_field_def bind_eq_Some dest: wire_scalar_shorter wire_parse_shorter split: if_splits)

lemma wire_parse_field:
  assumes "varint_split 10 bs = Some (ds, r)" "tag = of_nat (leb ds)" "tag \<noteq> 0"
    "GetTagWireType tag \<noteq> WIRETYPE_END_GROUP"
  shows "wire_parse d bs = do {
       (f, r) \<leftarrow> wire_field d tag r;
       (fs, e, r) \<leftarrow> wire_parse d r;
       Some (f # fs, e, r)
     }"
proof -
  have "length r < length bs"
    using varint_split_SomeD [OF assms(1)] by auto
  then have "length r' < length bs" if "wire_field d tag r = Some (f, r')" for f r'
    using wire_field_shorter [OF that] by simp
  then show ?thesis
    unfolding wire_parse_cases(5) [OF assms] by (cases "wire_field d tag r") auto
qed

section \<open>Parsing what was serialised\<close>

fun uf_encodable :: "nat \<Rightarrow> unknown_field \<Rightarrow> bool" where
  \<comment> \<open>A field number that fits a tag, a length that fits an \<open>int\<close>, and groups nested to the depth
    given.\<close>
  "uf_encodable d (Unknown_Group n g) \<longleftrightarrow>
     0 < n \<and> n < 2 ^ 29 \<and> 0 < d \<and> g \<noteq> Some [] \<and> (\<forall>f \<in> set (case g of None \<Rightarrow> [] | Some fs \<Rightarrow> fs). uf_encodable (d - 1) f)"
| "uf_encodable d (Unknown_LengthDelimited n v) \<longleftrightarrow> 0 < n \<and> n < 2 ^ 29 \<and> int (length v) \<le> INT_MAX"
| "uf_encodable d (Unknown_Varint n v) \<longleftrightarrow> 0 < n \<and> n < 2 ^ 29"
| "uf_encodable d (Unknown_Fixed32 n v) \<longleftrightarrow> 0 < n \<and> n < 2 ^ 29"
| "uf_encodable d (Unknown_Fixed64 n v) \<longleftrightarrow> 0 < n \<and> n < 2 ^ 29"

lemma unat_byte: "unat (ucast w :: uint8) = unat w mod 256" for w :: uint32
  by (simp add: unat_ucast_mod)

lemma le_value_32: "le_value (WriteLittleEndian32ToArray v) = unat v"
proof -
  define a where "a = unat v div 256"
  define b where "b = a div 256"
  define c where "c = b div 256"
  have "c < 256"
    using unat_less_2_32 [of v] by (simp add: a_def b_def c_def div_mult2_eq [symmetric] less_mult_imp_div_less)
  moreover have "unat v = unat v mod 256 + 256 * a" "a = a mod 256 + 256 * b" "b = b mod 256 + 256 * c"
    by (simp_all add: a_def b_def c_def)
  moreover have "unat v div 65536 = b" "unat v div 16777216 = c"
    by (simp_all add: a_def b_def c_def div_mult2_eq [symmetric])
  ultimately show ?thesis
    by (simp add: WriteLittleEndian32ToArray_def unat_byte unat_drop_bit a_def [symmetric])
qed

lemma le_value_append: "le_value (as @ bs) = le_value as + 256 ^ length as * le_value bs"
  by (induction as) (simp_all add: algebra_simps)

lemma le_value_64: "le_value (WriteLittleEndian64ToArray v) = unat v"
proof -
  have "unat v < 18446744073709551616" by (rule unat_less_2_64)
  moreover have "unat (ucast v :: uint32) = unat v mod 4294967296"
    "unat (ucast (drop_bit 32 v) :: uint32) = unat v div 4294967296 mod 4294967296"
    by (simp_all add: unat_ucast_mod unat_drop_bit)
  moreover have "length (WriteLittleEndian32ToArray (ucast v)) = 4"
    by (simp add: WriteLittleEndian32ToArray_def)
  ultimately show ?thesis
    by (simp add: WriteLittleEndian64_split le_value_append le_value_32)
qed

lemma varint_split_Write:
  "varint_split 10 (WriteVarint32ToArray v @ r) = Some (WriteVarint32ToArray v, r)"
  "varint_split 10 (WriteVarint64ToArray w @ r) = Some (WriteVarint64ToArray w, r)"
  "leb (WriteVarint32ToArray v) = unat v" "leb (WriteVarint64ToArray w) = unat w"
  using varint_split_mono [OF varint_split_enc [OF length_varint_enc_32 [of v]], of 10 r]
    varint_split_enc [OF length_varint_enc_64 [of w]]
  by (simp_all add: WriteVarint32ToArray_eq WriteVarint64ToArray_def WriteVarint64ToArrayInline_eq)

lemma MakeTag_neq_0: "w \<notin> range WIRETYPE_unnamed \<Longrightarrow> 0 < n \<Longrightarrow> n < 2 ^ 29 \<Longrightarrow> MakeTag n w \<noteq> 0"
  using GetTagFieldNumber_MakeTag [of w n] by (auto simp: GetTagFieldNumber_def)

lemma wire_parse_tag:
  assumes "w \<notin> range WIRETYPE_unnamed" "0 < n" "n < 2 ^ 29"
  shows "w = WIRETYPE_END_GROUP \<Longrightarrow>
      wire_parse d (WriteTagToArray_field n w @ r) = Some ([], End_Group (MakeTag n w), r)"
    and "w \<noteq> WIRETYPE_END_GROUP \<Longrightarrow> wire_parse d (WriteTagToArray_field n w @ r) = do {
       (f, r) \<leftarrow> wire_field d (MakeTag n w) r;
       (fs, e, r) \<leftarrow> wire_parse d r;
       Some (f # fs, e, r)
     }"
proof -
  have split: "varint_split 10 (WriteTagToArray_field n w @ r) = Some (WriteTagToArray_field n w, r)"
    "(of_nat (leb (WriteTagToArray_field n w)) :: uint32) = MakeTag n w"
    by (simp_all add: WriteTagToArray_field_def WriteTagToArray_def varint_split_Write)
  note tag = split(1) split(2) [symmetric] MakeTag_neq_0 [OF assms] GetTagWireType_MakeTag [OF assms(1), of n]
  show "w = WIRETYPE_END_GROUP \<Longrightarrow>
      wire_parse d (WriteTagToArray_field n w @ r) = Some ([], End_Group (MakeTag n w), r)"
    using wire_parse_cases(4) [OF tag(1-3)] tag(4) by simp
  show "w \<noteq> WIRETYPE_END_GROUP \<Longrightarrow> wire_parse d (WriteTagToArray_field n w @ r) = do {
       (f, r) \<leftarrow> wire_field d (MakeTag n w) r;
       (fs, e, r) \<leftarrow> wire_parse d r;
       Some (f # fs, e, r)
     }"
    using wire_parse_field [OF tag(1-3)] tag(4) by simp
qed

lemma wire_scalar_Write:
  assumes "0 < n" "n < 2 ^ 29"
  shows "wire_field d (MakeTag n WIRETYPE_VARINT) (WriteVarint64ToArray v @ r) = Some (Unknown_Varint n v, r)"
    "wire_field d (MakeTag n WIRETYPE_FIXED32) (WriteLittleEndian32ToArray w @ r) = Some (Unknown_Fixed32 n w, r)"
    "wire_field d (MakeTag n WIRETYPE_FIXED64) (WriteLittleEndian64ToArray v @ r) = Some (Unknown_Fixed64 n v, r)"
    "int (length bs) \<le> INT_MAX \<Longrightarrow>
       wire_field d (MakeTag n WIRETYPE_LENGTH_DELIMITED) (WriteStringWithSizeToArray bs @ r) =
         Some (Unknown_LengthDelimited n bs, r)"
proof -
  have tag: "GetTagWireType (MakeTag n w) = w" "GetTagFieldNumber (MakeTag n w) = n"
    if "w \<notin> range WIRETYPE_unnamed" for w
    using GetTagWireType_MakeTag [OF that] GetTagFieldNumber_MakeTag [OF that assms(2)] by simp_all
  have lens: "length (WriteLittleEndian32ToArray w) = 4" "length (WriteLittleEndian64ToArray v) = 8"
    by (simp_all add: WriteLittleEndian32ToArray_def WriteLittleEndian64_split)
  show "wire_field d (MakeTag n WIRETYPE_VARINT) (WriteVarint64ToArray v @ r) = Some (Unknown_Varint n v, r)"
    by (simp add: wire_field_def wire_scalar_def tag image_iff varint_split_Write)
  show "wire_field d (MakeTag n WIRETYPE_FIXED32) (WriteLittleEndian32ToArray w @ r) = Some (Unknown_Fixed32 n w, r)"
    by (simp add: wire_field_def wire_scalar_def tag image_iff lens le_value_32)
  show "wire_field d (MakeTag n WIRETYPE_FIXED64) (WriteLittleEndian64ToArray v @ r) = Some (Unknown_Fixed64 n v, r)"
    by (simp add: wire_field_def wire_scalar_def tag image_iff lens le_value_64)
  assume len: "int (length bs) \<le> INT_MAX"
  then have "sint (of_nat (length bs) :: uint32) = int (length bs)"
    by (simp add: INT_MAX_def signed_of_nat signed_take_bit_int_eq_self)
  with len show "wire_field d (MakeTag n WIRETYPE_LENGTH_DELIMITED) (WriteStringWithSizeToArray bs @ r) =
         Some (Unknown_LengthDelimited n bs, r)"
    by (simp add: wire_field_def wire_scalar_def tag image_iff varint_split_Write WriteStringWithSizeToArray_def
        WriteStringToArray_def WriteRawToArray_def Let_def)
qed

lemma wire_parse_serialize:
  assumes "list_all (uf_encodable d) fs" "wire_parse d t = Some (gs, e, r)"
  shows "wire_parse d (concat (map SerializeUnknownFieldToArray fs) @ t) = Some (fs @ gs, e, r)"
  using assms
proof (induction "sum_list (map size fs) + length fs" arbitrary: d fs t gs e r rule: less_induct)
  case less
  show ?case
  proof (cases fs)
    case Nil
    with less.prems show ?thesis by simp
  next
    case (Cons f fs')
    have enc: "uf_encodable d f" and "list_all (uf_encodable d) fs'"
      using less.prems(1) Cons by simp_all
    then have rest: "wire_parse d (concat (map SerializeUnknownFieldToArray fs') @ t) = Some (fs' @ gs, e, r)"
      using less.hyps [of fs' d t gs e r] less.prems(2) Cons by simp
    have n: "0 < uf_number f" "uf_number f < 2 ^ 29"
      using enc by (cases f; simp)+
    have named: "w \<notin> range WIRETYPE_unnamed"
      if "w \<in> {WIRETYPE_VARINT, WIRETYPE_FIXED64, WIRETYPE_FIXED32, WIRETYPE_LENGTH_DELIMITED,
        WIRETYPE_START_GROUP, WIRETYPE_END_GROUP}" for w
      using that by auto
    show ?thesis
    proof (cases f)
      case (Unknown_Group n g)
      define hs where "hs = (case g of None \<Rightarrow> [] | Some hs \<Rightarrow> hs)"
      have g: "g = ufs_of hs" "0 < d" "list_all (uf_encodable (d - 1)) hs"
        using enc Unknown_Group by (auto simp: hs_def ufs_of_def list_all_iff split: option.splits)
      have "sum_list (map size hs) + length hs < sum_list (map size fs) + length fs"
        using Unknown_Group Cons by (cases g) (simp_all add: hs_def size_list_conv_sum_list)
      then have "wire_parse (d - 1) (concat (map SerializeUnknownFieldToArray hs) @
          WriteTagToArray_field n WIRETYPE_END_GROUP @ r') = Some (hs, End_Group (MakeTag n WIRETYPE_END_GROUP), r')" for r'
        using less.hyps [OF _ g(3) wire_parse_tag(1) [OF named n [unfolded Unknown_Group unknown_field.sel] refl, of _ r']]
        by simp
      then show ?thesis
        using rest n g wire_parse_tag(2) [OF named n, of WIRETYPE_START_GROUP d]
          GetTagFieldNumber_MakeTag [OF named n(2)] GetTagWireType_MakeTag [OF named]
        by (simp add: Cons Unknown_Group wire_field_def end_group_of_def)
    qed (use rest n enc wire_parse_tag(2) [OF named n] in
        \<open>simp_all add: Cons taggedToArray_def WriteStringToArray_field_def wire_scalar_Write\<close>)
  qed
qed

end
