(* ===== verification/Skip_Contract.thy ===== *)
theory Skip_Contract
  imports Wire_Parse
begin

text \<open>
  The contract of a \<open>FieldSkipper\<close>, and what it guarantees. The locale \<open>field_skipping\<close> asks of a
  pair of functions that \<open>skip_message\<close> is the loop over \<open>skip_field\<close> that all skippers share, that
  scalar fields are taken as \<open>wire_scalar\<close> says, and that a group is the message inside it with the
  end tag checked. From this it follows, on every stream that keeps the input contract, that
  \<open>skip_message\<close> computes \<open>wire_parse\<close>.
\<close>

section \<open>Reads do not touch the end-of-message flag\<close>

definition same_flag :: "'s coded_input \<Rightarrow> 's coded_input \<Rightarrow> bool" where
  "same_flag s t \<longleftrightarrow> cis_legitimate_message_end t = cis_legitimate_message_end s"

lemma same_flag_simps [simp]:
  "same_flag s s" "same_flag s (Advance n t) = same_flag s t" "same_flag (Advance n s) t = same_flag s t"
  by (simp_all add: same_flag_def Advance_def)

lemma same_flag_trans: "same_flag s t \<Longrightarrow> same_flag t u \<Longrightarrow> same_flag s u"
  by (simp add: same_flag_def)

lemma same_end_flag: "same_end s t \<Longrightarrow> same_flag s t"
  by (simp add: same_end_def same_flag_def)

lemma Refresh_flag: "Refresh ops s = Some (b, t) \<Longrightarrow> same_flag s t"
  by (auto simp: Refresh_def bind_eq_Some Let_def same_flag_def Refresh_accept_def cis_null_buffer_def
      Refresh_warn_def cis_log_add_def PrintTotalBytesLimitError_def split: if_splits option.splits)

lemma InternalReadRawInline_flag:
  assumes "InternalReadRawInline ops n s = Some (ok, bs, t)"
  shows "same_flag s t"
proof -
  have "case r of (ok, bs, t) \<Rightarrow> same_flag s t" if "InternalReadRawInline ops n s = Some r" for r
  proof (rule InternalReadRawInline.raw_induct [OF _ that, where P = "\<lambda>_ _ s r. case r of (ok, bs, t) \<Rightarrow> same_flag s t"])
    fix rec :: "'a zc_input_ops \<Rightarrow> int \<Rightarrow> 'a coded_input \<Rightarrow> (bool \<times> bytes \<times> 'a coded_input) option"
      and ops sz s r
    assume "\<And>ops sz s r. rec ops sz s = Some r \<Longrightarrow> case r of (ok, bs, t) \<Rightarrow> same_flag s t"
    then have IH: "same_flag s t" if "rec ops sz s = Some (ok, bs, t)" for ops sz s ok bs t
      using that by fastforce
    assume "(let current_buffer_size = BufferSize s in
      if current_buffer_size < sz then do {
        c \<leftarrow> mem_read (cis_chunk s) (cis_buffer s) current_buffer_size;
        (ok, s) \<leftarrow> Refresh ops (Advance current_buffer_size s);
        if \<not> ok then Some (False, c, s)
        else do {
          (ok, cs, s) \<leftarrow> rec ops (sz - current_buffer_size) s;
          Some (ok, c @ cs, s)
        }
      }
      else do {
        c \<leftarrow> mem_read (cis_chunk s) (cis_buffer s) sz;
        Some (True, c, Advance sz s)
      }) = Some r"
    then show "case r of (ok, bs, t) \<Rightarrow> same_flag s t"
      by (auto simp: bind_eq_Some Let_def split: if_splits
          dest!: Refresh_flag IH intro: same_flag_trans)
  qed
  from this [OF assms] show ?thesis by simp
qed

lemma ReadString_flag:
  assumes "zero_copy_input ops ok_state rest last_chunk empties" "coded_inv ok_state last_chunk s" "0 \<le> n"
    "ReadString ops n str s = Some (ok, bs, t)"
  shows "same_flag s t"
proof (cases "BufferSize s \<ge> n")
  case True
  with assms(3,4) show ?thesis
    by (auto simp: ReadString_def InternalReadStringInline_def bind_eq_Some)
next
  case False
  with assms(3,4) zero_copy_input.ReadStringFallback_loop_eq [OF assms(1,2,3)]
  have "\<exists>cs. InternalReadRawInline ops n s = Some (ok, cs, t)"
    by (auto simp: ReadString_def InternalReadStringInline_def ReadStringFallback_def)
  then show ?thesis
    using InternalReadRawInline_flag by blast
qed

lemma Skip_flag: "Skip ops n s = Some (ok, t) \<Longrightarrow> same_flag s t"
  by (auto simp: Skip_def bind_eq_Some Let_def cis_null_buffer_def same_flag_def Advance_def split: if_splits)

lemma ReadLittleEndian_flag:
  "ReadLittleEndian32 ops s = Some (r, t) \<Longrightarrow> same_flag s t"
  "ReadLittleEndian64 ops s = Some (q, t) \<Longrightarrow> same_flag s t"
  by (auto simp: ReadLittleEndian32_def ReadLittleEndian32Fallback_def ReadLittleEndian64_def
      ReadLittleEndian64Fallback_def ReadRaw_def bind_eq_Some dest: InternalReadRawInline_flag split: if_splits)

section \<open>Scalar fields\<close>

definition msg_end :: "('s coded_input \<Rightarrow> bytes) \<Rightarrow> 's coded_input \<Rightarrow> bool" where
  \<comment> \<open>A message may end where the bytes in view do.\<close>
  "msg_end vw s \<longleftrightarrow> CurrentPosition s + int (length (vw s)) < cis_total_bytes_limit s \<or>
     cis_current_limit s = cis_total_bytes_limit s"

context zero_copy_input
begin

definition consumed :: "'s coded_input \<Rightarrow> 's coded_input \<Rightarrow> bytes \<Rightarrow> bool" where
  \<comment> \<open>From \<open>s\<close> to \<open>t\<close> the stream went forward to where \<open>r\<close> is in view.\<close>
  "consumed s t r \<longleftrightarrow> cinv' t \<and> cview t = r \<and> length r \<le> length (cview s) \<and>
     cstep (length (cview s) - length r) s t \<and> same_flag s t"

lemma consumed_refl: "cinv' s \<Longrightarrow> consumed s s (cview s)"
  by (simp add: consumed_def)

lemma consumed_trans:
  assumes "consumed s t q" "consumed t u r"
  shows "consumed s u r"
proof -
  have "length (cview s) - length r = (length (cview s) - length q) + (length q - length r)"
    using assms by (auto simp: consumed_def)
  moreover have "cstep ((length (cview s) - length q) + (length q - length r)) s u"
    using assms by (intro coded_step_trans [of rest last_chunk _ s t]) (simp_all add: consumed_def)
  moreover have "same_flag s u"
    using assms same_flag_trans by (auto simp: consumed_def)
  ultimately show ?thesis
    using assms unfolding consumed_def by (metis le_trans)
qed

lemma consumed_step:
  assumes "cinv' s" "cinv' t" "cstep n s t" "n \<le> length (cview s)" "same_flag s t"
  shows "consumed s t (drop n (cview s))"
  using assms coded_step_view [OF assms(3,1)] by (simp add: consumed_def)

lemma consumed_msg_end: "consumed s t r \<Longrightarrow> msg_end cview t = msg_end cview s"
  by (auto simp: consumed_def msg_end_def coded_step_def of_nat_diff)

lemma consumed_budget:
  assumes "consumed (s\<lparr>cis_recursion_budget := b\<rparr>) t r"
  shows "consumed s (t\<lparr>cis_recursion_budget := cis_recursion_budget s\<rparr>) r"
  using assms by (simp add: consumed_def coded_step_def same_flag_def)

lemma scan_varint:
  assumes "cinv' s"
  shows "varint_split 10 (cview s) = Some (ds, r) \<Longrightarrow> \<exists>t. ReadVarint64 ops s = Some (Some (of_nat (leb ds)), t) \<and> consumed s t r"
    and "varint_split 10 (cview s) = Some (ds, r) \<Longrightarrow> \<exists>t. ReadVarint32 ops s = Some (Some (of_nat (leb ds)), t) \<and> consumed s t r"
    and "varint_split 10 (cview s) = None \<Longrightarrow> \<exists>t. ReadVarint64 ops s = Some (None, t) \<and> cinv' t"
    and "varint_split 10 (cview s) = None \<Longrightarrow> \<exists>t. ReadVarint32 ops s = Some (None, t) \<and> cinv' t"
proof -
  show "varint_split 10 (cview s) = None \<Longrightarrow> \<exists>t. ReadVarint64 ops s = Some (None, t) \<and> cinv' t"
    using ReadVarint64_ok(2) [OF assms] by blast
  show "varint_split 10 (cview s) = None \<Longrightarrow> \<exists>t. ReadVarint32 ops s = Some (None, t) \<and> cinv' t"
    using ReadVarint32_ok(2) [OF assms] by blast
  assume split: "varint_split 10 (cview s) = Some (ds, r)"
  then have v: "cview s = ds @ r" using varint_split_SomeD by blast
  then have "consumed s t r" if "cinv' t" "cstep (length ds) s t" "same_end s t" for t
    using consumed_step [OF assms that(1,2)] that(3) by (simp add: same_end_flag)
  then show "\<exists>t. ReadVarint64 ops s = Some (Some (of_nat (leb ds)), t) \<and> consumed s t r"
    "\<exists>t. ReadVarint32 ops s = Some (Some (of_nat (leb ds)), t) \<and> consumed s t r"
    using ReadVarint64_ok(1) [OF assms split] ReadVarint32_ok(1) [OF assms split] by blast+
qed

lemma scan_fixed:
  assumes "cinv' s"
  shows "4 \<le> length (cview s) \<Longrightarrow> \<exists>t. ReadLittleEndian32 ops s = Some (Some (of_nat (le_value (take 4 (cview s)))), t) \<and>
      consumed s t (drop 4 (cview s))"
    and "8 \<le> length (cview s) \<Longrightarrow> \<exists>t. ReadLittleEndian64 ops s = Some (Some (of_nat (le_value (take 8 (cview s)))), t) \<and>
      consumed s t (drop 8 (cview s))"
    and "\<not> 4 \<le> length (cview s) \<Longrightarrow> \<exists>t. ReadLittleEndian32 ops s = Some (None, t) \<and> cinv' t"
    and "\<not> 8 \<le> length (cview s) \<Longrightarrow> \<exists>t. ReadLittleEndian64 ops s = Some (None, t) \<and> cinv' t"
proof -
  show "\<not> 4 \<le> length (cview s) \<Longrightarrow> \<exists>t. ReadLittleEndian32 ops s = Some (None, t) \<and> cinv' t"
    "\<not> 8 \<le> length (cview s) \<Longrightarrow> \<exists>t. ReadLittleEndian64 ops s = Some (None, t) \<and> cinv' t"
    using ReadLittleEndian32_short [OF assms] ReadLittleEndian64_short [OF assms] by (meson not_le)+
  show "\<exists>t. ReadLittleEndian32 ops s = Some (Some (of_nat (le_value (take 4 (cview s)))), t) \<and>
      consumed s t (drop 4 (cview s))" if len: "4 \<le> length (cview s)"
  proof -
    obtain v where v: "take 4 (cview s) = WriteLittleEndian32ToArray v"
      using WriteLittleEndian32_surj [of "take 4 (cview s)"] len by auto
    then have "cview s = WriteLittleEndian32ToArray v @ drop 4 (cview s)"
      by (metis append_take_drop_id)
    from ReadLittleEndian32_ok [OF assms this] obtain t
      where "ReadLittleEndian32 ops s = Some (Some v, t)" "cinv' t" "cstep 4 s t" by blast
    then show ?thesis
      using consumed_step [OF assms, of t 4] len ReadLittleEndian_flag(1) [of ops s] by (simp add: v le_value_32)
  qed
  show "\<exists>t. ReadLittleEndian64 ops s = Some (Some (of_nat (le_value (take 8 (cview s)))), t) \<and>
      consumed s t (drop 8 (cview s))" if len: "8 \<le> length (cview s)"
  proof -
    obtain v where v: "take 8 (cview s) = WriteLittleEndian64ToArray v"
      using WriteLittleEndian64_surj [of "take 8 (cview s)"] len by auto
    then have "cview s = WriteLittleEndian64ToArray v @ drop 8 (cview s)"
      by (metis append_take_drop_id)
    from ReadLittleEndian64_ok [OF assms this] obtain t
      where "ReadLittleEndian64 ops s = Some (Some v, t)" "cinv' t" "cstep 8 s t" by blast
    then show ?thesis
      using consumed_step [OF assms, of t 8] len ReadLittleEndian_flag(2) [of ops s] by (simp add: v le_value_64)
  qed
qed

lemma scan_bytes:
  assumes "cinv' s"
  shows "0 \<le> n \<Longrightarrow> nat n \<le> length (cview s) \<Longrightarrow>
      \<exists>t. ReadString ops n str s = Some (True, take (nat n) (cview s), t) \<and> consumed s t (drop (nat n) (cview s))"
    and "0 \<le> n \<Longrightarrow> nat n \<le> length (cview s) \<Longrightarrow> \<exists>t. Skip ops n s = Some (True, t) \<and> consumed s t (drop (nat n) (cview s))"
    and "\<not> (0 \<le> n \<and> nat n \<le> length (cview s)) \<Longrightarrow> \<exists>bs t. ReadString ops n str s = Some (False, bs, t) \<and> cinv' t"
    and "\<not> (0 \<le> n \<and> nat n \<le> length (cview s)) \<Longrightarrow> \<exists>t. Skip ops n s = Some (False, t) \<and> cinv' t"
proof -
  show "\<exists>t. ReadString ops n str s = Some (True, take (nat n) (cview s), t) \<and> consumed s t (drop (nat n) (cview s))"
    if n: "0 \<le> n" "nat n \<le> length (cview s)"
    using ReadString_ok [OF assms n(1), of str] n(2) consumed_step [OF assms]
      ReadString_flag [OF zero_copy_input_axioms assms n(1)] by (fastforce simp: min_def)
  show "\<exists>t. Skip ops n s = Some (True, t) \<and> consumed s t (drop (nat n) (cview s))"
    if n: "0 \<le> n" "nat n \<le> length (cview s)"
    using Skip_ok [OF assms n(1)] n(2) consumed_step [OF assms] Skip_flag by fastforce
  show "\<not> (0 \<le> n \<and> nat n \<le> length (cview s)) \<Longrightarrow> \<exists>bs t. ReadString ops n str s = Some (False, bs, t) \<and> cinv' t"
    using ReadString_ok [OF assms, of n str] ReadString_negative [of n str s] assms by fastforce
  show "\<not> (0 \<le> n \<and> nat n \<le> length (cview s)) \<Longrightarrow> \<exists>t. Skip ops n s = Some (False, t) \<and> cinv' t"
    using Skip_ok [OF assms, of n] Skip_negative [of n s] assms by fastforce
qed

end

section \<open>The contract\<close>

lemma GetTagWireType_end_group [simp]: "GetTagWireType (end_group_of tag) = WIRETYPE_END_GROUP"
  unfolding end_group_of_def by (rule GetTagWireType_MakeTag) auto

lemma end_group_of_neq_0: "end_group_of tag \<noteq> 0"
proof
  assume "end_group_of tag = 0"
  then have "GetTagWireType 0 = WIRETYPE_END_GROUP"
    using GetTagWireType_end_group [of tag] by simp
  then show False
    by (simp add: GetTagWireType_def WireType_cast_def)
qed

locale field_skipping = zero_copy_input ops inv rest last_chunk empties
  for ops :: "'s zc_input_ops" and inv rest last_chunk empties +
  fixes skip_field :: "uint32 \<Rightarrow> 's coded_input \<Rightarrow> 'u \<Rightarrow> (bool \<times> 's coded_input \<times> 'u) option"
    and skip_message :: "'s coded_input \<Rightarrow> 'u \<Rightarrow> (bool \<times> 's coded_input \<times> 'u) option"
    and end_action :: "uint32 \<Rightarrow> 'u \<Rightarrow> 'u option"
    and sink :: "'u \<Rightarrow> bool"
    and got :: "unknown_field list \<Rightarrow> wire_end \<Rightarrow> 'u \<Rightarrow> 'u \<Rightarrow> bool"
  assumes message_eq: "skip_message s u =
      do {
        (tag, s) \<leftarrow> ReadTag ops s;
        if tag = 0 then Some (True, s, u)
        else if GetTagWireType tag = WIRETYPE_END_GROUP then do { u \<leftarrow> end_action tag u; Some (True, s, u) }
        else do {
          (ok, s, u) \<leftarrow> skip_field tag s u;
          if \<not> ok then Some (False, s, u) else skip_message s u
        }
      }"
    and end_action_ok: "sink u \<Longrightarrow> \<exists>v. end_action tag u = Some v \<and> sink v \<and> got [] (End_Group tag) u v"
    and got_Nil: "sink u \<Longrightarrow> e = End_Clean \<or> e = End_Zero \<Longrightarrow> got [] e u u"
    and got_Cons: "got [f] End_Clean u v \<Longrightarrow> got fs e v w \<Longrightarrow> got (f # fs) e u w"
    and scalar_ok: "cinv' s \<Longrightarrow> sink u \<Longrightarrow> GetTagWireType tag \<noteq> WIRETYPE_START_GROUP \<Longrightarrow>
      wire_scalar tag (cview s) = Some (f, r) \<Longrightarrow>
      \<exists>t v. skip_field tag s u = Some (True, t, v) \<and> consumed s t r \<and> sink v \<and> got [f] End_Clean u v"
    and scalar_bad: "cinv' s \<Longrightarrow> sink u \<Longrightarrow> GetTagWireType tag \<noteq> WIRETYPE_START_GROUP \<Longrightarrow>
      wire_scalar tag (cview s) = None \<Longrightarrow>
      \<exists>t v. skip_field tag s u = Some (False, t, v) \<and> cinv' t \<and> sink v"
    and group_too_deep: "cinv' s \<Longrightarrow> sink u \<Longrightarrow> GetTagWireType tag = WIRETYPE_START_GROUP \<Longrightarrow>
      cis_recursion_budget s \<le> 0 \<Longrightarrow>
      \<exists>t v. skip_field tag s u = Some (False, t, v) \<and> cinv' t \<and> sink v"
    and group_ok: "sink u \<Longrightarrow> GetTagWireType tag = WIRETYPE_START_GROUP \<Longrightarrow> 0 < cis_recursion_budget s \<Longrightarrow>
      \<exists>v. sink v \<and>
        (\<forall>ok t w.
           skip_message (s\<lparr>cis_recursion_budget := cis_recursion_budget s - 1\<rparr>) v = Some (ok, t, w) \<longrightarrow> sink w \<longrightarrow>
           (\<exists>x. sink x \<and>
              skip_field tag s u =
                Some (if ok then (let t = DecrementRecursionDepth t in (LastTagWas (end_group_of tag) t, t, x))
                      else (False, t, x)) \<and>
              (\<forall>fs. ok \<longrightarrow> got fs (End_Group (end_group_of tag)) v w \<longrightarrow>
                 got [Unknown_Group (GetTagFieldNumber tag) (ufs_of fs)] End_Clean u x)))"
begin

definition ended :: "'s coded_input \<Rightarrow> 's coded_input \<Rightarrow> wire_end \<Rightarrow> bytes \<Rightarrow> bool" where
  \<comment> \<open>How a message that started in \<open>s\<close> ends.\<close>
  "ended s t e r \<longleftrightarrow> cinv' t \<and> (\<exists>m. cstep m s t) \<and>
     cis_last_tag t = (case e of End_Group tag \<Rightarrow> tag | _ \<Rightarrow> 0) \<and>
     (case e of
        End_Group _ \<Rightarrow> consumed s t r
      | End_Zero \<Rightarrow> same_flag s t
      | End_Clean \<Rightarrow> cview t = [] \<and> cunread t = drop (length (cview s)) (cunread s) \<and>
          (msg_end cview s \<longrightarrow> ConsumedEntireMessage t) \<and>
          (\<not> msg_end cview s \<longrightarrow> \<not> ConsumedEntireMessage s \<longrightarrow> \<not> ConsumedEntireMessage t))"

lemma consumed_ended:
  assumes "consumed s t q" "ended t u e r"
  shows "ended s u e r"
proof -
  have len: "length q + (length (cview s) - length q) = length (cview s)" and q: "cview t = q"
    and st: "cstep (length (cview s) - length q) s t" and fl: "same_flag s t"
    using assms(1) by (auto simp: consumed_def)
  have un: "drop (length q) (cunread t) = drop (length (cview s)) (cunread s)"
    using st by (simp add: coded_step_def len)
  obtain m where "cstep m t u" using assms(2) by (auto simp: ended_def)
  with st have "\<exists>m. cstep m s u" using coded_step_trans by blast
  then show ?thesis
    using assms(2) consumed_msg_end [OF assms(1)] un q fl consumed_trans [OF assms(1)] same_flag_trans [OF fl]
    by (auto simp: ended_def same_flag_def ConsumedEntireMessage_def split: wire_end.splits)
qed

lemma nothing_in_view:
  assumes "cinv' s" "cinv' t" "cview s = []" "cstep m s t"
  shows "cview t = []" "cunread t = cunread s"
proof -
  show "cview t = []"
    using coded_step_view [OF assms(4,1)] assms(3) by simp
  show "cunread t = cunread s"
  proof (cases "cunread s = []")
    case True
    with assms(4) show ?thesis by (simp add: coded_step_def)
  next
    case False
    then have "closest_limit s \<le> CurrentPosition s"
      using assms(3) by (simp add: view_def)
    moreover have "CurrentPosition t \<le> closest_limit t" "closest_limit t = closest_limit s"
      "CurrentPosition t = CurrentPosition s + int m"
      using coded_invD(8) [OF assms(2)] assms(4) by (simp_all add: coded_step_def closest_limit_def)
    ultimately have "m = 0" by simp
    with assms(4) show ?thesis by (simp add: coded_step_def)
  qed
qed

lemma ended_without_tag:
  assumes "cinv' s" "sink u" "cview s = [] \<or> varint_split 10 (cview s) = None \<or>
      varint_split 10 (cview s) = Some (ds, r) \<and> (of_nat (leb ds) :: uint32) = 0"
  shows "\<exists>t. skip_message s u = Some (True, t, u) \<and> ended s t (if cview s = [] then End_Clean else End_Zero) r'"
proof (cases "cview s = []")
  case True
  obtain t m where t: "ReadTag ops s = Some (0, t)" "cinv' t" "cstep m s t" "cis_last_tag t = 0"
      "tag_end s \<longrightarrow> cis_legitimate_message_end t"
      "\<not> tag_end s \<longrightarrow> \<not> cis_legitimate_message_end s \<longrightarrow> \<not> cis_legitimate_message_end t"
    using ReadTag_ok(3) [OF assms(1) True] by blast
  then have "skip_message s u = Some (True, t, u)"
    by (subst message_eq) simp
  moreover have "ended s t End_Clean r'"
    using t nothing_in_view [OF assms(1) t(2) True t(3)] True
    by (auto simp: ended_def msg_end_def ConsumedEntireMessage_def)
  ultimately show ?thesis using True by auto
next
  case False
  then obtain t m where t: "ReadTag ops s = Some (0, t)" "cinv' t" "cstep m s t" "cis_last_tag t = 0"
      "cis_legitimate_message_end t = cis_legitimate_message_end s"
    using ReadTag_ok(1,2) [OF assms(1)] assms(3) by metis
  then have "skip_message s u = Some (True, t, u)"
    by (subst message_eq) simp
  moreover have "ended s t End_Zero r'"
    using t by (auto simp: ended_def same_flag_def)
  ultimately show ?thesis using False by auto
qed

lemma message_ok:
  "cinv' s \<Longrightarrow> sink u \<Longrightarrow> 0 \<le> cis_recursion_budget s \<Longrightarrow> cis_recursion_budget s \<le> cis_recursion_limit s \<Longrightarrow>
   (case wire_parse (nat (cis_recursion_budget s)) (cview s) of
      None \<Rightarrow> \<exists>t v. skip_message s u = Some (False, t, v) \<and> cinv' t \<and> sink v
    | Some (fs, e, r) \<Rightarrow> \<exists>t v. skip_message s u = Some (True, t, v) \<and> sink v \<and> got fs e u v \<and> ended s t e r)"
proof (induction "length (cview s)" arbitrary: s u rule: less_induct)
  case less
  note s = less.prems(1) and u = less.prems(2) and budget = less.prems(3,4)
  let ?d = "nat (cis_recursion_budget s)"
  show ?case
  proof (cases rule: wire_cases [of "cview s"])
    case 1
    have "got [] End_Clean u u" using got_Nil [OF u] by simp
    with 1 ended_without_tag [OF s u, of _ _ "[]"] u show ?thesis
      by (fastforce simp: wire_parse_cases(1))
  next
    case 2
    have "got [] End_Zero u u" using got_Nil [OF u] by simp
    with 2 ended_without_tag [OF s u, of _ _ "[]"] u show ?thesis
      by (fastforce simp: wire_parse_cases(2))
  next
    case (3 ds r)
    then have "cview s \<noteq> []" by (auto dest: varint_split_SomeD)
    moreover have "got [] End_Zero u u" using got_Nil [OF u] by simp
    ultimately show ?thesis
      using 3 ended_without_tag [OF s u, of ds r r] u by (fastforce simp: wire_parse_cases(3) [OF 3(1) refl 3(2)])
  next
    case (4 ds r tag)
    obtain t where t: "ReadTag ops s = Some (tag, t)" "cinv' t" "cstep (length ds) s t" "cis_last_tag t = tag"
        "cis_legitimate_message_end t = cis_legitimate_message_end s"
      using ReadTag_ok(1) [OF s 4(1)] 4(2) by auto
    obtain v where v: "end_action tag u = Some v" "sink v" "got [] (End_Group tag) u v"
      using end_action_ok [OF u] by blast
    have "consumed s t r"
      using consumed_step [OF s t(2,3)] t(5) varint_split_SomeD [OF 4(1)] by (simp add: same_flag_def)
    then have "ended s t (End_Group tag) r"
      using t by (auto simp: ended_def)
    moreover have "skip_message s u = Some (True, t, v)"
      using t v 4 by (subst message_eq) auto
    ultimately show ?thesis
      using v(2,3) unfolding wire_parse_cases(4) [OF 4(1-4)] by auto
  next
    case (5 ds r tag)
    obtain t where t: "ReadTag ops s = Some (tag, t)" "cinv' t" "cstep (length ds) s t" "cis_last_tag t = tag"
        "cis_legitimate_message_end t = cis_legitimate_message_end s"
      using ReadTag_ok(1) [OF s 5(1)] 5(2) by auto
    have st: "consumed s t r"
      using consumed_step [OF s t(2,3)] t(5) varint_split_SomeD [OF 5(1)] by (simp add: same_flag_def)
    then have vt: "cview t = r" and bt: "cis_recursion_budget t = cis_recursion_budget s"
        "cis_recursion_limit t = cis_recursion_limit s"
      by (auto simp: consumed_def coded_step_def)
    have eq: "skip_message s u = do {
          (ok, s, u) \<leftarrow> skip_field tag t u;
          if \<not> ok then Some (False, s, u) else skip_message s u
        }"
      using t(1) 5(3,4) by (subst message_eq) simp
    have field: "case wire_field ?d tag r of
        None \<Rightarrow> \<exists>t' v. skip_field tag t u = Some (False, t', v) \<and> cinv' t' \<and> sink v
      | Some (f, r') \<Rightarrow> \<exists>t' v. skip_field tag t u = Some (True, t', v) \<and> consumed t t' r' \<and> sink v \<and> got [f] End_Clean u v"
    proof (cases "GetTagWireType tag = WIRETYPE_START_GROUP")
      case False
      with scalar_ok [OF t(2) u False] scalar_bad [OF t(2) u False] show ?thesis
        by (auto simp: wire_field_def vt split: option.splits)
    next
      case True
      show ?thesis
      proof (cases "cis_recursion_budget s \<le> 0")
        case deep: True
        with group_too_deep [OF t(2) u True] budget bt show ?thesis
          by (simp add: wire_field_def True)
      next
        case False
        let ?t = "t\<lparr>cis_recursion_budget := cis_recursion_budget t - 1\<rparr>"
        have pos: "0 < cis_recursion_budget t" "nat (cis_recursion_budget ?t) = ?d - 1"
          using False bt by (simp_all add: nat_diff_distrib)
        obtain v where v: "sink v" and grp: "\<And>ok t' w. skip_message ?t v = Some (ok, t', w) \<Longrightarrow> sink w \<Longrightarrow>
           (\<exists>x. sink x \<and>
              skip_field tag t u =
                Some (if ok then (let t' = DecrementRecursionDepth t' in (LastTagWas (end_group_of tag) t', t', x))
                      else (False, t', x)) \<and>
              (\<forall>fs. ok \<longrightarrow> got fs (End_Group (end_group_of tag)) v w \<longrightarrow>
                 got [Unknown_Group (GetTagFieldNumber tag) (ufs_of fs)] End_Clean u x))"
          using group_ok [OF u True pos(1)] by blast
        have "length (cview ?t) < length (cview s)"
          using 5(5) vt by simp
        from less.hyps [OF this _ v] t(2) budget False bt pos(2)
        have IH: "case wire_parse (?d - 1) r of
            None \<Rightarrow> \<exists>t' w. skip_message ?t v = Some (False, t', w) \<and> cinv' t' \<and> sink w
          | Some (fs, e, r') \<Rightarrow> \<exists>t' w. skip_message ?t v = Some (True, t', w) \<and> sink w \<and> got fs e v w \<and> ended ?t t' e r'"
          by (simp add: vt)
        show ?thesis
        proof (cases "wire_parse (?d - 1) r")
          case None
          with IH grp False show ?thesis by (fastforce simp: wire_field_def True)
        next
          case (Some p)
          then obtain fs e r' where p: "wire_parse (?d - 1) r = Some (fs, e, r')" by (cases p) auto
          with IH obtain t' w where m: "skip_message ?t v = Some (True, t', w)" "sink w" "got fs e v w" "ended ?t t' e r'"
            by auto
          from grp [OF m(1,2)] obtain x where x: "sink x"
              "skip_field tag t u = Some (let t' = DecrementRecursionDepth t' in (LastTagWas (end_group_of tag) t', t', x))"
              "got fs (End_Group (end_group_of tag)) v w \<longrightarrow>
                 got [Unknown_Group (GetTagFieldNumber tag) (ufs_of fs)] End_Clean u x"
            by auto
          obtain k where "cstep k ?t t'" "cinv' t'" using m(4) by (auto simp: ended_def)
          then have dec: "DecrementRecursionDepth t' = t'\<lparr>cis_recursion_budget := cis_recursion_budget t\<rparr>"
            using budget bt by (simp add: DecrementRecursionDepth_def coded_step_def)
          have last: "LastTagWas (end_group_of tag) (DecrementRecursionDepth t') \<longleftrightarrow> e = End_Group (end_group_of tag)"
            using m(4) end_group_of_neq_0 [of tag] by (cases e) (auto simp: dec LastTagWas_def ended_def)
          show ?thesis
          proof (cases "e = End_Group (end_group_of tag)")
            case e: True
            then have "consumed t (DecrementRecursionDepth t') r'"
              using m(4) consumed_budget [of "cis_recursion_budget t - 1" t t' r'] dec by (simp add: ended_def)
            with e m x last False show ?thesis by (simp add: wire_field_def True p del: One_nat_def)
          next
            case False
            with x last dec \<open>cinv' t'\<close> \<open>\<not> cis_recursion_budget s \<le> 0\<close> show ?thesis
              by (simp add: wire_field_def True p del: One_nat_def)
          qed
        qed
      qed
    qed
    show ?thesis
    proof (cases "wire_field ?d tag r")
      case None
      with field eq show ?thesis by (auto simp: wire_parse_field [OF 5(1-4)])
    next
      case (Some q)
      then obtain f r' where q: "wire_field ?d tag r = Some (f, r')" by (cases q) auto
      with field obtain t' v where f: "skip_field tag t u = Some (True, t', v)" "consumed t t' r'" "sink v" "got [f] End_Clean u v"
        by auto
      have st': "consumed s t' r'" using consumed_trans [OF st f(2)] .
      then have t': "cinv' t'" "cview t' = r'" "cis_recursion_budget t' = cis_recursion_budget s"
          "cis_recursion_limit t' = cis_recursion_limit s"
        by (auto simp: consumed_def coded_step_def)
      have "length (cview t') < length (cview s)"
        using wire_field_shorter [OF q] 5(5) t'(2) by simp
      from less.hyps [OF this t'(1) f(3)] budget t'
      have "case wire_parse ?d r' of
          None \<Rightarrow> \<exists>t2 w. skip_message t' v = Some (False, t2, w) \<and> cinv' t2 \<and> sink w
        | Some (fs, e, r2) \<Rightarrow> \<exists>t2 w. skip_message t' v = Some (True, t2, w) \<and> sink w \<and> got fs e v w \<and> ended t' t2 e r2"
        by simp
      then show ?thesis
        using eq f q got_Cons [OF f(4)] consumed_ended [OF st']
        by (fastforce simp: wire_parse_field [OF 5(1-4)] split: option.splits)
    qed
  qed
qed

end

end
