(* ===== verification/Skippers.thy ===== *)
theory Skippers
  imports Skip_Contract
begin

text \<open>
  The three skippers keep the contract \<open>field_skipping\<close> on every input stream that keeps its own;
  the one that copies needs an output stream that does so too. Their results on whole messages, and
  the correctness of the parsers of \<open>UnknownFieldSet\<close>, are instances of what the contract
  guarantees.
\<close>

lemma bind_None_iff: "(m \<bind> f) = None \<longleftrightarrow> m = None \<or> (\<exists>x. m = Some x \<and> f x = None)"
  for m :: "'a option" and f :: "'a \<Rightarrow> 'b option"
  by (cases m) auto

lemma wire_scalar_length_delimited:
  assumes "GetTagWireType tag = WIRETYPE_LENGTH_DELIMITED"
  shows "wire_scalar tag bs = Some (f, r) \<Longrightarrow> \<exists>ds q. varint_split 10 bs = Some (ds, q) \<and>
      (let n = sint (of_nat (leb ds) :: uint32) in
       0 \<le> n \<and> nat n \<le> length q \<and> f = Unknown_LengthDelimited (GetTagFieldNumber tag) (take (nat n) q) \<and>
       r = drop (nat n) q)"
    and "wire_scalar tag bs = None \<Longrightarrow> varint_split 10 bs = None \<or> (\<exists>ds q. varint_split 10 bs = Some (ds, q) \<and>
      \<not> (let n = sint (of_nat (leb ds) :: uint32) in 0 \<le> n \<and> nat n \<le> length q))"
  using assms by (auto simp: wire_scalar_def Let_def bind_eq_Some bind_None_iff split: if_splits)

section \<open>Dropping the fields\<close>

context zero_copy_input
begin

abbreviation "drop_field \<equiv> \<lambda>tag s u. fs_SkipField (FieldSkipper ops) s tag u"
abbreviation "drop_message \<equiv> fs_SkipMessage (FieldSkipper ops)"

lemma drop_message_eq:
  "drop_message s u =
      do {
        (tag, s) \<leftarrow> ReadTag ops s;
        if tag = 0 then Some (True, s, u)
        else if GetTagWireType tag = WIRETYPE_END_GROUP then do { u \<leftarrow> Some u; Some (True, s, u) }
        else do {
          (ok, s, u) \<leftarrow> drop_field tag s u;
          if \<not> ok then Some (False, s, u) else drop_message s u
        }
      }"
  unfolding FieldSkipper_def field_skipper.simps SkipField_lite_def
  by (subst SkipMessage_lite.simps) (auto split: bind_splits)

lemma drop_scalar_ok:
  assumes "cinv' s" "GetTagWireType tag \<noteq> WIRETYPE_START_GROUP" "wire_scalar tag (cview s) = Some (f, r)"
  shows "\<exists>t. drop_field tag s u = Some (True, t, u) \<and> consumed s t r"
proof -
  have "\<exists>t. SkipField_lite ops tag s = Some (True, t) \<and> consumed s t r"
    using assms(2,3)
  proof (cases "GetTagWireType tag")
    case WIRETYPE_LENGTH_DELIMITED
    then obtain ds q where q: "varint_split 10 (cview s) = Some (ds, q)" "0 \<le> sint (of_nat (leb ds) :: uint32)"
        "nat (sint (of_nat (leb ds) :: uint32)) \<le> length q" "r = drop (nat (sint (of_nat (leb ds) :: uint32))) q"
      using wire_scalar_length_delimited(1) [OF _ assms(3)] by (auto simp: Let_def)
    obtain t where t: "ReadVarint32 ops s = Some (Some (of_nat (leb ds)), t)" "consumed s t q"
      using scan_varint(2) [OF assms(1) q(1)] by blast
    then have "cinv' t" "cview t = q" by (auto simp: consumed_def)
    then obtain v where "Skip ops (sint (of_nat (leb ds) :: uint32)) t = Some (True, v)" "consumed t v r"
      using scan_bytes(2) [of t] q by auto
    with t WIRETYPE_LENGTH_DELIMITED show ?thesis
      using consumed_trans by (auto simp: SkipField_lite_def SkipField_lite_body_def)
  qed (auto simp: wire_scalar_def SkipField_lite_def SkipField_lite_body_def bind_eq_Some split: if_splits
      dest!: scan_varint(1) [OF assms(1)] scan_fixed(1,2) [OF assms(1)])
  then show ?thesis
    by (auto simp: FieldSkipper_def)
qed

lemma drop_scalar_bad:
  assumes "cinv' s" "GetTagWireType tag \<noteq> WIRETYPE_START_GROUP" "wire_scalar tag (cview s) = None"
  shows "\<exists>t. drop_field tag s u = Some (False, t, u) \<and> cinv' t"
proof -
  have "\<exists>t. SkipField_lite ops tag s = Some (False, t) \<and> cinv' t"
    using assms(2,3)
  proof (cases "GetTagWireType tag")
    case WIRETYPE_LENGTH_DELIMITED
    from wire_scalar_length_delimited(2) [OF this assms(3)] show ?thesis
    proof (elim disjE exE conjE)
      assume "varint_split 10 (cview s) = None"
      with WIRETYPE_LENGTH_DELIMITED scan_varint(4) [OF assms(1)] show ?thesis
        by (auto simp: SkipField_lite_def SkipField_lite_body_def)
    next
      fix ds q
      assume q: "varint_split 10 (cview s) = Some (ds, q)"
        "\<not> (let n = sint (of_nat (leb ds) :: uint32) in 0 \<le> n \<and> nat n \<le> length q)"
      obtain t where t: "ReadVarint32 ops s = Some (Some (of_nat (leb ds)), t)" "cinv' t" "cview t = q"
        using scan_varint(2) [OF assms(1) q(1)] by (auto simp: consumed_def)
      with q(2) obtain v where "Skip ops (sint (of_nat (leb ds) :: uint32)) t = Some (False, v)" "cinv' v"
        using scan_bytes(4) [OF t(2)] by (auto simp: Let_def)
      with t WIRETYPE_LENGTH_DELIMITED show ?thesis
        by (auto simp: SkipField_lite_def SkipField_lite_body_def)
    qed
  qed (auto simp: wire_scalar_def SkipField_lite_def SkipField_lite_body_def assms(1) bind_None_iff split: if_splits
      dest!: scan_varint(3) [OF assms(1)] scan_fixed(3,4) [OF assms(1)])
  then show ?thesis
    by (auto simp: FieldSkipper_def)
qed

lemma drop_group:
  assumes "GetTagWireType tag = WIRETYPE_START_GROUP"
  shows "cis_recursion_budget s \<le> 0 \<Longrightarrow>
      drop_field tag s u = Some (False, s\<lparr>cis_recursion_budget := cis_recursion_budget s - 1\<rparr>, u)"
    and "0 < cis_recursion_budget s \<Longrightarrow> drop_field tag s u = do {
      (ok, t, u) \<leftarrow> drop_message (s\<lparr>cis_recursion_budget := cis_recursion_budget s - 1\<rparr>) u;
      Some (if ok then (let t = DecrementRecursionDepth t in (LastTagWas (end_group_of tag) t, t, u)) else (False, t, u))
    }"
  using assms by (auto simp: FieldSkipper_def SkipField_lite_def SkipField_lite_body_def IncrementRecursionDepth_def
      Let_def split: bind_splits)

end

sublocale zero_copy_input \<subseteq> dropping: field_skipping ops inv rest last_chunk empties
  drop_field drop_message "\<lambda>_ u. Some u" "\<lambda>_. True" "\<lambda>_ _ _ _. True"
proof unfold_locales
  fix s u
  show "drop_message s u =
      do {
        (tag, s) \<leftarrow> ReadTag ops s;
        if tag = 0 then Some (True, s, u)
        else if GetTagWireType tag = WIRETYPE_END_GROUP then do { u \<leftarrow> Some u; Some (True, s, u) }
        else do {
          (ok, s, u) \<leftarrow> drop_field tag s u;
          if \<not> ok then Some (False, s, u) else drop_message s u
        }
      }" by (rule drop_message_eq)
qed (use drop_scalar_ok drop_scalar_bad drop_group in \<open>fastforce\<close>)+


section \<open>Keeping the fields\<close>

definition kept :: "unknown_field list \<Rightarrow> wire_end \<Rightarrow> unknown_field_set option \<Rightarrow> unknown_field_set option \<Rightarrow> bool" where
  \<comment> \<open>The fields were added, in this order, to the set behind the pointer.\<close>
  "kept fs e u v \<longleftrightarrow> v = map_option (fold ufs_push fs) u"

lemma fold_ufs_push: "fold ufs_push fs (ufs_of gs) = ufs_of (gs @ fs)"
  by (induction fs arbitrary: gs) simp_all

lemma fold_ufs_push_empty [simp]: "fold ufs_push fs UnknownFieldSet = ufs_of fs"
  using fold_ufs_push [of fs "[]"] by (simp add: UnknownFieldSet_def ufs_of_def)

lemma kept_None: "kept fs e u v \<Longrightarrow> v = None \<longleftrightarrow> u = None"
  by (simp add: kept_def)

lemma kept_Nil: "kept [] e u u"
  by (cases u) (simp_all add: kept_def)

lemma kept_Cons: "kept [f] e' u v \<Longrightarrow> kept fs e v w \<Longrightarrow> kept (f # fs) e u w"
  by (cases u) (simp_all add: kept_def)

lemma kept_simps:
  "kept [Unknown_Varint n v] e u (map_option (AddVarint n v) u)"
  "kept [Unknown_Fixed32 n w] e u (map_option (AddFixed32 n w) u)"
  "kept [Unknown_Fixed64 n v] e u (map_option (AddFixed64 n v) u)"
  "kept [Unknown_LengthDelimited n bs] e (Some us) (Some (AddLengthDelimited n bs us))"
  "kept fs e None None"
proof -
  have "AddVarint n v = ufs_push (Unknown_Varint n v)" "AddFixed32 n w = ufs_push (Unknown_Fixed32 n w)"
    "AddFixed64 n v = ufs_push (Unknown_Fixed64 n v)" "AddLengthDelimited n bs = ufs_push (Unknown_LengthDelimited n bs)"
    by (simp_all add: fun_eq_iff AddVarint_def AddFixed32_def AddFixed64_def AddLengthDelimited_def)
  then show "kept [Unknown_Varint n v] e u (map_option (AddVarint n v) u)"
    "kept [Unknown_Fixed32 n w] e u (map_option (AddFixed32 n w) u)"
    "kept [Unknown_Fixed64 n v] e u (map_option (AddFixed64 n v) u)"
    "kept [Unknown_LengthDelimited n bs] e (Some us) (Some (AddLengthDelimited n bs us))"
    "kept fs e None None"
    by (simp_all add: kept_def)
qed

context zero_copy_input
begin

abbreviation "keep_field \<equiv> \<lambda>tag s u. fs_SkipField (UnknownFieldSetFieldSkipper ops) s tag u"
abbreviation "keep_message \<equiv> fs_SkipMessage (UnknownFieldSetFieldSkipper ops)"

lemma keep_simps: "keep_field tag s u = SkipField_body (SkipMessage ops) ops tag s u" "keep_message = SkipMessage ops"
  by (simp_all add: UnknownFieldSetFieldSkipper_def SkipField_def)

lemma keep_message_eq:
  "keep_message s u =
      do {
        (tag, s) \<leftarrow> ReadTag ops s;
        if tag = 0 then Some (True, s, u)
        else if GetTagWireType tag = WIRETYPE_END_GROUP then do { u \<leftarrow> Some u; Some (True, s, u) }
        else do {
          (ok, s, u) \<leftarrow> keep_field tag s u;
          if \<not> ok then Some (False, s, u) else keep_message s u
        }
      }"
  unfolding keep_simps by (subst SkipMessage.simps) (auto split: bind_splits)

lemma keep_scalar_ok:
  assumes "cinv' s" "GetTagWireType tag \<noteq> WIRETYPE_START_GROUP" "wire_scalar tag (cview s) = Some (f, r)"
  shows "\<exists>t v. keep_field tag s u = Some (True, t, v) \<and> consumed s t r \<and> kept [f] End_Clean u v"
  unfolding keep_simps
proof (cases "GetTagWireType tag")
  case WIRETYPE_LENGTH_DELIMITED
  define n where "n ds = sint (of_nat (leb ds) :: uint32)" for ds
  obtain ds q where q: "varint_split 10 (cview s) = Some (ds, q)" "0 \<le> n ds" "nat (n ds) \<le> length q"
      "f = Unknown_LengthDelimited (GetTagFieldNumber tag) (take (nat (n ds)) q)" "r = drop (nat (n ds)) q"
    using wire_scalar_length_delimited(1) [OF WIRETYPE_LENGTH_DELIMITED assms(3)] by (auto simp: Let_def n_def)
  obtain t where t: "ReadVarint32 ops s = Some (Some (of_nat (leb ds)), t)" "consumed s t q" "cinv' t" "cview t = q"
    using scan_varint(2) [OF assms(1) q(1)] by (auto simp: consumed_def)
  obtain v w where "Skip ops (n ds) t = Some (True, v)" "consumed t v r"
      "ReadString ops (n ds) [] t = Some (True, take (nat (n ds)) q, w)" "consumed t w r"
    using scan_bytes(1) [OF t(3), of "n ds" "[]"] scan_bytes(2) [OF t(3), of "n ds"] q t(4) by auto
  then show "\<exists>t v. SkipField_body (SkipMessage ops) ops tag s u = Some (True, t, v) \<and> consumed s t r \<and>
      kept [f] End_Clean u v"
    using t(1) WIRETYPE_LENGTH_DELIMITED consumed_trans [OF t(2)]
    by (cases u) (auto simp: SkipField_body_def n_def q(4) kept_simps)
qed (use assms in \<open>auto simp: wire_scalar_def SkipField_body_def bind_eq_Some kept_simps split: if_splits
      dest!: scan_varint(1) [OF assms(1)] scan_fixed(1,2) [OF assms(1)]\<close>)

lemma keep_scalar_bad:
  assumes "cinv' s" "GetTagWireType tag \<noteq> WIRETYPE_START_GROUP" "wire_scalar tag (cview s) = None"
  shows "\<exists>t v. keep_field tag s u = Some (False, t, v) \<and> cinv' t \<and> (v = None \<longleftrightarrow> u = None)"
  unfolding keep_simps
proof (cases "GetTagWireType tag")
  case WIRETYPE_LENGTH_DELIMITED
  from wire_scalar_length_delimited(2) [OF this assms(3)]
  show "\<exists>t v. SkipField_body (SkipMessage ops) ops tag s u = Some (False, t, v) \<and> cinv' t \<and> (v = None \<longleftrightarrow> u = None)"
  proof (elim disjE exE conjE)
    assume "varint_split 10 (cview s) = None"
    with WIRETYPE_LENGTH_DELIMITED scan_varint(4) [OF assms(1)] show ?thesis
      by (auto simp: SkipField_body_def)
  next
    fix ds q
    let ?n = "sint (of_nat (leb ds) :: uint32)"
    assume q: "varint_split 10 (cview s) = Some (ds, q)"
      "\<not> (let n = sint (of_nat (leb ds) :: uint32) in 0 \<le> n \<and> nat n \<le> length q)"
    obtain t where t: "ReadVarint32 ops s = Some (Some (of_nat (leb ds)), t)" "cinv' t" "cview t = q"
      using scan_varint(2) [OF assms(1) q(1)] by (auto simp: consumed_def)
    with q(2) obtain v bs w where "Skip ops ?n t = Some (False, v)" "cinv' v"
        "ReadString ops ?n [] t = Some (False, bs, w)" "cinv' w"
      using scan_bytes(3) [OF t(2), of ?n "[]"] scan_bytes(4) [OF t(2), of ?n] by (auto simp: Let_def)
    with t WIRETYPE_LENGTH_DELIMITED show ?thesis
      by (cases u) (auto simp: SkipField_body_def)
  qed
qed (use assms in \<open>auto simp: wire_scalar_def SkipField_body_def bind_None_iff split: if_splits
      dest!: scan_varint(3) [OF assms(1)] scan_fixed(3,4) [OF assms(1)]\<close>)

lemma keep_group:
  assumes "GetTagWireType tag = WIRETYPE_START_GROUP"
  shows "cis_recursion_budget s \<le> 0 \<Longrightarrow>
      keep_field tag s u = Some (False, s\<lparr>cis_recursion_budget := cis_recursion_budget s - 1\<rparr>, u)"
    and "0 < cis_recursion_budget s \<Longrightarrow> keep_field tag s u = do {
      (ok, t, g) \<leftarrow> keep_message (s\<lparr>cis_recursion_budget := cis_recursion_budget s - 1\<rparr>) (map_option (\<lambda>_. UnknownFieldSet) u);
      let x = (case u of None \<Rightarrow> None | Some us \<Rightarrow> map_option (\<lambda>g. AddGroup (GetTagFieldNumber tag) g us) g);
      Some (if ok then (let t = DecrementRecursionDepth t in (LastTagWas (end_group_of tag) t, t, x)) else (False, t, x))
    }"
  unfolding keep_simps using assms
  by (auto simp: SkipField_body_def IncrementRecursionDepth_def Let_def split: bind_splits)

lemma kept_group:
  "kept fs e (map_option (\<lambda>_. UnknownFieldSet) u) g \<Longrightarrow>
   kept [Unknown_Group n (ufs_of fs)] End_Clean u (case u of None \<Rightarrow> None | Some us \<Rightarrow> map_option (\<lambda>g. AddGroup n g us) g)"
  by (cases u) (simp_all add: kept_def AddGroup_def)

lemma keep_group_ok:
  assumes "GetTagWireType tag = WIRETYPE_START_GROUP" "0 < cis_recursion_budget s"
  shows "\<exists>v. (v = None \<longleftrightarrow> u = None) \<and> (\<forall>ok t w.
           keep_message (s\<lparr>cis_recursion_budget := cis_recursion_budget s - 1\<rparr>) v = Some (ok, t, w) \<longrightarrow>
           (w = None \<longleftrightarrow> u = None) \<longrightarrow>
           (\<exists>x. (x = None \<longleftrightarrow> u = None) \<and> keep_field tag s u =
                Some (if ok then (let t = DecrementRecursionDepth t in (LastTagWas (end_group_of tag) t, t, x))
                      else (False, t, x)) \<and>
              (\<forall>fs. ok \<longrightarrow> kept fs (End_Group (end_group_of tag)) v w \<longrightarrow>
                 kept [Unknown_Group (GetTagFieldNumber tag) (ufs_of fs)] End_Clean u x)))"
  using keep_group(2) [OF assms, of u] kept_group [of _ "End_Group (end_group_of tag)" u _ "GetTagFieldNumber tag"]
  by (intro exI [of _ "map_option (\<lambda>_. UnknownFieldSet) u"]) (auto simp: Let_def split: option.splits)

end

sublocale zero_copy_input \<subseteq> keeping: field_skipping ops inv rest last_chunk empties
  keep_field keep_message "\<lambda>_ u. Some u" "\<lambda>u. u \<noteq> None" kept
proof (unfold_locales, goal_cases)
  case (1 s u)
  show ?case by (rule keep_message_eq)
next
  case 2
  then show ?case by (simp add: kept_Nil)
next
  case 3
  then show ?case by (simp add: kept_Nil)
next
  case 4
  then show ?case by (rule kept_Cons)
next
  case (5 s u tag f r)
  then show ?case using keep_scalar_ok [of s tag f r u] kept_None by blast
next
  case (6 s u tag)
  then show ?case using keep_scalar_bad [of s tag u] by blast
next
  case (7 s u tag)
  then show ?case using keep_group(1) [of tag s u] by auto
next
  case (8 u tag s)
  with keep_group_ok [OF 8(2,3), of u] show ?case by (simp only: simp_thms)
qed

sublocale zero_copy_input \<subseteq> ignoring: field_skipping ops inv rest last_chunk empties
  keep_field keep_message "\<lambda>_ u. Some u" "\<lambda>u. u = None" kept
proof (unfold_locales, goal_cases)
  case (1 s u)
  show ?case by (rule keep_message_eq)
next
  case 2
  then show ?case by (simp add: kept_Nil)
next
  case 3
  then show ?case by (simp add: kept_Nil)
next
  case 4
  then show ?case by (rule kept_Cons)
next
  case (5 s u tag f r)
  then show ?case using keep_scalar_ok [of s tag f r u] kept_None by blast
next
  case (6 s u tag)
  then show ?case using keep_scalar_bad [of s tag u] by blast
next
  case (7 s u tag)
  then show ?case using keep_group(1) [of tag s u] by auto
next
  case (8 u tag s)
  with keep_group_ok [OF 8(2,3), of u] show ?case by (simp only: simp_thms)
qed

section \<open>Copying the fields\<close>

locale zero_copy_pair = zero_copy_input ops inv rest last_chunk empties +
  out: zero_copy_output wops oinv0 content window room
  for ops :: "'s zc_input_ops" and inv rest last_chunk empties
    and wops :: "'o zc_output_ops" and oinv0 content window room
begin

abbreviation "copy_field \<equiv> \<lambda>tag s u. fs_SkipField (CodedOutputStreamFieldSkipper ops wops) s tag u"
abbreviation "copy_message \<equiv> fs_SkipMessage (CodedOutputStreamFieldSkipper ops wops)"

fun end_bytes :: "wire_end \<Rightarrow> bytes" where
  "end_bytes (End_Group tag) = WriteVarint32ToArray tag"
| "end_bytes _ = []"

definition copied :: "unknown_field list \<Rightarrow> wire_end \<Rightarrow> 'o coded_output \<Rightarrow> 'o coded_output \<Rightarrow> bool" where
  \<comment> \<open>The fields and the end tag were written.\<close>
  "copied fs e u v \<longleftrightarrow> out.emits (concat (map SerializeUnknownFieldToArray fs) @ end_bytes e) u (Some v)"

lemma copy_simps: "copy_field tag s u = SkipField_copy_body (SkipMessage_copy ops wops) ops wops tag s u"
  "copy_message = SkipMessage_copy ops wops"
  by (simp_all add: CodedOutputStreamFieldSkipper_def SkipField_copy_def)

lemma copy_message_eq:
  "copy_message s u =
      do {
        (tag, s) \<leftarrow> ReadTag ops s;
        if tag = 0 then Some (True, s, u)
        else if GetTagWireType tag = WIRETYPE_END_GROUP then do { u \<leftarrow> WriteVarint32 wops tag u; Some (True, s, u) }
        else do {
          (ok, s, u) \<leftarrow> copy_field tag s u;
          if \<not> ok then Some (False, s, u) else copy_message s u
        }
      }"
  unfolding copy_simps by (subst SkipMessage_copy.simps) (auto split: bind_splits)

lemma emits_trans:
  assumes "out.emits as u (Some v)" "out.emits bs v (Some w)"
  shows "out.emits (as @ bs) u (Some w)"
proof -
  from assms(1) have v: "cos_aliasing_enabled v = cos_aliasing_enabled u"
    "\<not> cos_had_error v \<longrightarrow> \<not> cos_had_error u \<and> out.oappended as u v"
    "\<not> cos_aliasing_enabled u \<longrightarrow> \<not> cos_had_error v \<longrightarrow> out.oavail u \<le> out.oavail v + length as"
    "\<not> cos_aliasing_enabled u \<longrightarrow> \<not> cos_had_error u \<and> length as \<le> out.oavail u \<longrightarrow> \<not> cos_had_error v"
    by (auto elim!: out.emitsE)
  from assms(2) have w: "out.oinv w" "cos_aliasing_enabled w = cos_aliasing_enabled v"
    "\<not> cos_had_error w \<longrightarrow> \<not> cos_had_error v \<and> out.oappended bs v w"
    "\<not> cos_aliasing_enabled v \<longrightarrow> \<not> cos_had_error w \<longrightarrow> out.oavail v \<le> out.oavail w + length bs"
    "\<not> cos_aliasing_enabled v \<longrightarrow> \<not> cos_had_error v \<and> length bs \<le> out.oavail v \<longrightarrow> \<not> cos_had_error w"
    by (auto elim!: out.emitsE)
  have "\<not> cos_had_error w \<longrightarrow> \<not> cos_had_error u \<and> out.oappended (as @ bs) u w"
    using v(2) w(3) appended_trans by blast
  moreover have "\<not> cos_aliasing_enabled u \<longrightarrow> \<not> cos_had_error w \<longrightarrow> out.oavail u \<le> out.oavail w + length (as @ bs)"
    using v(1,3) w(3,4) by auto
  moreover have "\<not> cos_aliasing_enabled u \<longrightarrow> \<not> cos_had_error u \<and> length (as @ bs) \<le> out.oavail u \<longrightarrow> \<not> cos_had_error w"
    using v(1,3,4) w(5) by auto
  ultimately show ?thesis
    using v(1) w(1,2) unfolding out.emits_def by simp
qed

lemma emits_inv: "out.emits bs u r \<Longrightarrow> \<exists>v. r = Some v \<and> out.oinv v \<and> out.emits bs u (Some v)"
  by (auto simp: out.emits_def)

lemma copied_Nil: "out.oinv u \<Longrightarrow> e = End_Clean \<or> e = End_Zero \<Longrightarrow> copied [] e u u"
  by (auto simp: copied_def out.emits_return)

lemma copied_Cons: "copied [f] End_Clean u v \<Longrightarrow> copied fs e v w \<Longrightarrow> copied (f # fs) e u w"
  using emits_trans [of "SerializeUnknownFieldToArray f" u v _ w] by (simp add: copied_def)

lemma copy_end: "out.oinv u \<Longrightarrow> \<exists>v. WriteVarint32 wops tag u = Some v \<and> out.oinv v \<and> copied [] (End_Group tag) u v"
  using emits_inv [OF out.coded_write_emits(1), of u tag] by (auto simp: copied_def)

lemma copied_scalar:
  assumes "out.oinv u" "\<And>v. out.oinv v \<Longrightarrow> out.emits cs v (g v)" "GetTagWireType tag = w"
    "SerializeUnknownFieldToArray f = WriteTagToArray_field (GetTagFieldNumber tag) w @ cs"
  shows "\<exists>v. (do { v \<leftarrow> WriteVarint32 wops tag u; g v }) = Some v \<and> out.oinv v \<and> copied [f] End_Clean u v"
proof -
  have "WriteTagToArray_field (GetTagFieldNumber tag) w = WriteVarint32ToArray tag"
    using GetTagWireType_eq_iff [OF assms(3)] by (simp add: WriteTagToArray_field_def WriteTagToArray_def)
  moreover have "out.emits (WriteVarint32ToArray tag @ cs) u (do { v \<leftarrow> WriteVarint32 wops tag u; g v })"
    using assms(1,2) by (intro out.emits_bind out.coded_write_emits)
  ultimately show ?thesis
    using emits_inv assms(4) by (fastforce simp: copied_def)
qed

lemma copied_scalars:
  assumes "out.oinv u"
  shows "GetTagWireType tag = WIRETYPE_VARINT \<Longrightarrow>
      \<exists>v. (do { v \<leftarrow> WriteVarint32 wops tag u; WriteVarint64 wops x v }) = Some v \<and> out.oinv v \<and>
        copied [Unknown_Varint (GetTagFieldNumber tag) x] End_Clean u v"
    and "GetTagWireType tag = WIRETYPE_FIXED32 \<Longrightarrow>
      \<exists>v. (do { v \<leftarrow> WriteVarint32 wops tag u; WriteLittleEndian32 wops y v }) = Some v \<and> out.oinv v \<and>
        copied [Unknown_Fixed32 (GetTagFieldNumber tag) y] End_Clean u v"
    and "GetTagWireType tag = WIRETYPE_FIXED64 \<Longrightarrow>
      \<exists>v. (do { v \<leftarrow> WriteVarint32 wops tag u; WriteLittleEndian64 wops x v }) = Some v \<and> out.oinv v \<and>
        copied [Unknown_Fixed64 (GetTagFieldNumber tag) x] End_Clean u v"
    and "GetTagWireType tag = WIRETYPE_LENGTH_DELIMITED \<Longrightarrow> n = of_nat (length bs) \<Longrightarrow>
      \<exists>v. (do { v \<leftarrow> WriteVarint32 wops tag u; do { v \<leftarrow> WriteVarint32 wops n v; WriteString wops bs v } }) = Some v \<and>
        out.oinv v \<and> copied [Unknown_LengthDelimited (GetTagFieldNumber tag) bs] End_Clean u v"
proof -
  show "GetTagWireType tag = WIRETYPE_VARINT \<Longrightarrow>
      \<exists>v. (do { v \<leftarrow> WriteVarint32 wops tag u; WriteVarint64 wops x v }) = Some v \<and> out.oinv v \<and>
        copied [Unknown_Varint (GetTagFieldNumber tag) x] End_Clean u v"
    by (rule copied_scalar [OF assms, of "WriteVarint64ToArray x"]) (auto simp: taggedToArray_def out.coded_write_emits)
  show "GetTagWireType tag = WIRETYPE_FIXED32 \<Longrightarrow>
      \<exists>v. (do { v \<leftarrow> WriteVarint32 wops tag u; WriteLittleEndian32 wops y v }) = Some v \<and> out.oinv v \<and>
        copied [Unknown_Fixed32 (GetTagFieldNumber tag) y] End_Clean u v"
    by (rule copied_scalar [OF assms, of "WriteLittleEndian32ToArray y"]) (auto simp: taggedToArray_def out.coded_write_emits)
  show "GetTagWireType tag = WIRETYPE_FIXED64 \<Longrightarrow>
      \<exists>v. (do { v \<leftarrow> WriteVarint32 wops tag u; WriteLittleEndian64 wops x v }) = Some v \<and> out.oinv v \<and>
        copied [Unknown_Fixed64 (GetTagFieldNumber tag) x] End_Clean u v"
    by (rule copied_scalar [OF assms, of "WriteLittleEndian64ToArray x"]) (auto simp: taggedToArray_def out.coded_write_emits)
  show "GetTagWireType tag = WIRETYPE_LENGTH_DELIMITED \<Longrightarrow> n = of_nat (length bs) \<Longrightarrow>
      \<exists>v. (do { v \<leftarrow> WriteVarint32 wops tag u; do { v \<leftarrow> WriteVarint32 wops n v; WriteString wops bs v } }) = Some v \<and>
        out.oinv v \<and> copied [Unknown_LengthDelimited (GetTagFieldNumber tag) bs] End_Clean u v"
    by (rule copied_scalar [OF assms, of "WriteVarint32ToArray n @ bs"])
      (auto simp: WriteStringToArray_field_def WriteStringWithSizeToArray_def WriteStringToArray_def WriteRawToArray_def
        out.coded_write_emits intro!: out.emits_bind)
qed

lemma copy_scalar_ok:
  assumes "cinv' s" "out.oinv u" "GetTagWireType tag \<noteq> WIRETYPE_START_GROUP" "wire_scalar tag (cview s) = Some (f, r)"
  shows "\<exists>t v. copy_field tag s u = Some (True, t, v) \<and> consumed s t r \<and> out.oinv v \<and> copied [f] End_Clean u v"
  unfolding copy_simps
proof (cases "GetTagWireType tag")
  case WIRETYPE_VARINT
  then obtain ds where "varint_split 10 (cview s) = Some (ds, r)"
      "f = Unknown_Varint (GetTagFieldNumber tag) (of_nat (leb ds))"
    using assms(4) by (auto simp: wire_scalar_def bind_eq_Some)
  with WIRETYPE_VARINT scan_varint(1) [OF assms(1)] copied_scalars(1) [OF assms(2)]
  show "\<exists>t v. SkipField_copy_body (SkipMessage_copy ops wops) ops wops tag s u = Some (True, t, v) \<and>
      consumed s t r \<and> out.oinv v \<and> copied [f] End_Clean u v"
    by (fastforce simp: SkipField_copy_body_def bind_eq_Some)
next
  case WIRETYPE_FIXED64
  with assms(4) scan_fixed(2) [OF assms(1)] copied_scalars(3) [OF assms(2)]
  show "\<exists>t v. SkipField_copy_body (SkipMessage_copy ops wops) ops wops tag s u = Some (True, t, v) \<and>
      consumed s t r \<and> out.oinv v \<and> copied [f] End_Clean u v"
    by (fastforce simp: SkipField_copy_body_def bind_eq_Some wire_scalar_def split: if_splits)
next
  case WIRETYPE_FIXED32
  with assms(4) scan_fixed(1) [OF assms(1)] copied_scalars(2) [OF assms(2)]
  show "\<exists>t v. SkipField_copy_body (SkipMessage_copy ops wops) ops wops tag s u = Some (True, t, v) \<and>
      consumed s t r \<and> out.oinv v \<and> copied [f] End_Clean u v"
    by (fastforce simp: SkipField_copy_body_def bind_eq_Some wire_scalar_def split: if_splits)
next
  case WIRETYPE_LENGTH_DELIMITED
  define n where "n ds = sint (of_nat (leb ds) :: uint32)" for ds
  obtain ds q where q: "varint_split 10 (cview s) = Some (ds, q)" "0 \<le> n ds" "nat (n ds) \<le> length q"
      "f = Unknown_LengthDelimited (GetTagFieldNumber tag) (take (nat (n ds)) q)" "r = drop (nat (n ds)) q"
    using wire_scalar_length_delimited(1) [OF WIRETYPE_LENGTH_DELIMITED assms(4)] by (auto simp: Let_def n_def)
  obtain t where t: "ReadVarint32 ops s = Some (Some (of_nat (leb ds)), t)" "consumed s t q" "cinv' t" "cview t = q"
    using scan_varint(2) [OF assms(1) q(1)] by (auto simp: consumed_def)
  obtain w where w: "ReadString ops (n ds) [] t = Some (True, take (nat (n ds)) q, w)" "consumed t w r"
    using scan_bytes(1) [OF t(3), of "n ds" "[]"] q t(4) by auto
  have "of_nat (leb ds) = (of_nat (length (take (nat (n ds)) q)) :: uint32)"
    using q(2,3) by (simp add: n_def min_absorb2 of_nat_nat)
  from copied_scalars(4) [OF assms(2) WIRETYPE_LENGTH_DELIMITED this] obtain v1 v2 v
    where "WriteVarint32 wops tag u = Some v1" "WriteVarint32 wops (of_nat (leb ds)) v1 = Some v2"
      "WriteString wops (take (nat (n ds)) q) v2 = Some v" "out.oinv v" "copied [f] End_Clean u v"
    by (auto simp: bind_eq_Some q(4))
  with t w WIRETYPE_LENGTH_DELIMITED consumed_trans [OF t(2)]
  show "\<exists>t v. SkipField_copy_body (SkipMessage_copy ops wops) ops wops tag s u = Some (True, t, v) \<and>
      consumed s t r \<and> out.oinv v \<and> copied [f] End_Clean u v"
    by (auto simp: SkipField_copy_body_def n_def)
qed (use assms in \<open>simp_all add: wire_scalar_def\<close>)

lemma copy_scalar_bad:
  assumes "cinv' s" "out.oinv u" "GetTagWireType tag \<noteq> WIRETYPE_START_GROUP" "wire_scalar tag (cview s) = None"
  shows "\<exists>t v. copy_field tag s u = Some (False, t, v) \<and> cinv' t \<and> out.oinv v"
  unfolding copy_simps
proof (cases "GetTagWireType tag")
  case WIRETYPE_LENGTH_DELIMITED
  from wire_scalar_length_delimited(2) [OF this assms(4)]
  show "\<exists>t v. SkipField_copy_body (SkipMessage_copy ops wops) ops wops tag s u = Some (False, t, v) \<and> cinv' t \<and> out.oinv v"
  proof (elim disjE exE conjE)
    assume "varint_split 10 (cview s) = None"
    with WIRETYPE_LENGTH_DELIMITED scan_varint(4) [OF assms(1)] assms(2) show ?thesis
      by (auto simp: SkipField_copy_body_def)
  next
    fix ds q
    let ?n = "sint (of_nat (leb ds) :: uint32)"
    assume q: "varint_split 10 (cview s) = Some (ds, q)"
      "\<not> (let n = sint (of_nat (leb ds) :: uint32) in 0 \<le> n \<and> nat n \<le> length q)"
    obtain t where t: "ReadVarint32 ops s = Some (Some (of_nat (leb ds)), t)" "cinv' t" "cview t = q"
      using scan_varint(2) [OF assms(1) q(1)] by (auto simp: consumed_def)
    with q(2) obtain bs w where w: "ReadString ops ?n [] t = Some (False, bs, w)" "cinv' w"
      using scan_bytes(3) [OF t(2), of ?n "[]"] by (auto simp: Let_def)
    obtain v1 v2 where "WriteVarint32 wops tag u = Some v1" "WriteVarint32 wops (of_nat (leb ds)) v1 = Some v2" "out.oinv v2"
      using copy_end [OF assms(2), of tag] copy_end by blast
    with t w WIRETYPE_LENGTH_DELIMITED show ?thesis
      by (auto simp: SkipField_copy_body_def)
  qed
qed (use assms in \<open>auto simp: wire_scalar_def SkipField_copy_body_def bind_None_iff split: if_splits
      dest!: scan_varint(3) [OF assms(1)] scan_fixed(3,4) [OF assms(1)]\<close>)

lemma copy_group_ok:
  assumes "out.oinv u" "GetTagWireType tag = WIRETYPE_START_GROUP"
  shows "cis_recursion_budget s \<le> 0 \<Longrightarrow>
      \<exists>v. copy_field tag s u = Some (False, s\<lparr>cis_recursion_budget := cis_recursion_budget s - 1\<rparr>, v) \<and> out.oinv v"
    and "0 < cis_recursion_budget s \<Longrightarrow> \<exists>v. out.oinv v \<and>
        (\<forall>ok t w.
           copy_message (s\<lparr>cis_recursion_budget := cis_recursion_budget s - 1\<rparr>) v = Some (ok, t, w) \<longrightarrow> out.oinv w \<longrightarrow>
           (\<exists>x. out.oinv x \<and>
              copy_field tag s u =
                Some (if ok then (let t = DecrementRecursionDepth t in (LastTagWas (end_group_of tag) t, t, x))
                      else (False, t, x)) \<and>
              (\<forall>fs. ok \<longrightarrow> copied fs (End_Group (end_group_of tag)) v w \<longrightarrow>
                 copied [Unknown_Group (GetTagFieldNumber tag) (ufs_of fs)] End_Clean u x)))"
proof -
  obtain v where v: "WriteVarint32 wops tag u = Some v" "out.oinv v" "copied [] (End_Group tag) u v"
    using copy_end [OF assms(1)] by blast
  have tags: "WriteTagToArray_field (GetTagFieldNumber tag) WIRETYPE_START_GROUP = WriteVarint32ToArray tag"
      "WriteTagToArray_field (GetTagFieldNumber tag) WIRETYPE_END_GROUP = WriteVarint32ToArray (end_group_of tag)"
    using GetTagWireType_eq_iff [OF assms(2)]
    by (simp_all add: WriteTagToArray_field_def WriteTagToArray_def end_group_of_def)
  have "copied [Unknown_Group (GetTagFieldNumber tag) (ufs_of fs)] End_Clean u w"
    if "copied fs (End_Group (end_group_of tag)) v w" for fs w
    using emits_trans [of "WriteVarint32ToArray tag" u v _ w] v(3) that by (simp add: copied_def tags)
  with v assms(2) show "0 < cis_recursion_budget s \<Longrightarrow> \<exists>v. out.oinv v \<and>
        (\<forall>ok t w.
           copy_message (s\<lparr>cis_recursion_budget := cis_recursion_budget s - 1\<rparr>) v = Some (ok, t, w) \<longrightarrow> out.oinv w \<longrightarrow>
           (\<exists>x. out.oinv x \<and>
              copy_field tag s u =
                Some (if ok then (let t = DecrementRecursionDepth t in (LastTagWas (end_group_of tag) t, t, x))
                      else (False, t, x)) \<and>
              (\<forall>fs. ok \<longrightarrow> copied fs (End_Group (end_group_of tag)) v w \<longrightarrow>
                 copied [Unknown_Group (GetTagFieldNumber tag) (ufs_of fs)] End_Clean u x)))"
    unfolding copy_simps
    by (intro exI [of _ v]) (auto simp: SkipField_copy_body_def IncrementRecursionDepth_def Let_def)
  from v assms(2) show "cis_recursion_budget s \<le> 0 \<Longrightarrow>
      \<exists>v. copy_field tag s u = Some (False, s\<lparr>cis_recursion_budget := cis_recursion_budget s - 1\<rparr>, v) \<and> out.oinv v"
    unfolding copy_simps by (auto simp: SkipField_copy_body_def IncrementRecursionDepth_def Let_def)
qed

end

sublocale zero_copy_pair \<subseteq> copying: field_skipping ops inv rest last_chunk empties
  copy_field copy_message "WriteVarint32 wops" out.oinv copied
proof (unfold_locales, goal_cases)
  case (1 s u)
  show ?case by (rule copy_message_eq)
next
  case 2
  then show ?case by (rule copy_end)
next
  case 3
  then show ?case by (rule copied_Nil)
next
  case 4
  then show ?case by (rule copied_Cons)
next
  case 5
  then show ?case by (rule copy_scalar_ok)
next
  case 6
  then show ?case by (rule copy_scalar_bad)
next
  case (7 s u tag)
  then show ?case using copy_group_ok(1) [of u tag s] by auto
next
  case 8
  then show ?case by (rule copy_group_ok(2))
qed

interpretation array_pair: zero_copy_pair array_input_ops array_input_inv array_input_rest array_input_last "\<lambda>_. 0"
  array_output_ops array_output_inv array_output_content array_output_window array_output_room
  by unfold_locales

section \<open>Parsing an unknown field set\<close>

context zero_copy_pair
begin

lemmas copy_message_ok = copying.message_ok

lemma copied_ended: "copying.ended s t e r \<Longrightarrow> coded_inv inv last_chunk t"
  by (simp add: copying.ended_def)

end

context zero_copy_input
begin

lemmas drop_message_ok = dropping.message_ok [OF _ TrueI]
lemmas keep_message_ok = keeping.message_ok

lemma MergeFromCodedStream_ok:
  assumes "cinv' s" "0 \<le> cis_recursion_budget s" "cis_recursion_budget s \<le> cis_recursion_limit s"
    "\<not> ConsumedEntireMessage s"
  shows "case wire_parse (nat (cis_recursion_budget s)) (cview s) of
      Some (fs, End_Clean, r) \<Rightarrow> \<exists>t m.
        MergeFromCodedStream ops s (ufs_of gs) =
          Some (msg_end cview s, t, if msg_end cview s then ufs_of (gs @ fs) else ufs_of gs) \<and>
        ConsumedEntireMessage t = msg_end cview s \<and>
        cinv' t \<and> cstep m s t \<and> cunread t = drop (length (cview s)) (cunread s)
    | _ \<Rightarrow> \<exists>t. MergeFromCodedStream ops s (ufs_of gs) = Some (False, t, ufs_of gs) \<and> cinv' t"
proof -
  have "SkipMessage ops s (Some UnknownFieldSet) = keep_message s (Some UnknownFieldSet)"
    by (simp add: keep_simps)
  moreover note keeping.message_ok [OF assms(1) _ assms(2,3), of "Some UnknownFieldSet"]
  ultimately show ?thesis
    using assms(4)
    by (auto simp: MergeFromCodedStream_def kept_def keeping.ended_def ufs_MergeFromAndDestroy_of
        ConsumedEntireMessage_def same_flag_def consumed_def split: option.splits wire_end.splits)
qed

lemma CodedInputStream_state:
  assumes "inv i"
  shows "\<exists>s. CodedInputStream ops i = Some s \<and> cinv' s \<and> cunread s = rest i \<and>
    cview s = take (nat kDefaultTotalBytesLimit) (rest i) \<and> CurrentPosition s = 0 \<and>
    cis_recursion_budget s = default_recursion_limit \<and> cis_recursion_limit s = default_recursion_limit \<and>
    cis_total_bytes_limit s = kDefaultTotalBytesLimit \<and> cis_current_limit s = INT_MAX \<and>
    \<not> ConsumedEntireMessage s \<and> cis_input s \<noteq> None"
proof -
  let ?s = "CodedInputStream_init [] (Some i) 0 INT_MAX"
  obtain s where s: "CodedInputStream ops i = Some s" "cinv' s" "cunread s = rest i"
      "cview s = take (nat kDefaultTotalBytesLimit) (rest i)" "CurrentPosition s = 0"
    using CodedInputStream_ok [OF assms] by blast
  have f: "BufferSize ?s = 0" "CurrentPosition ?s = 0" "pending ?s = []" "closest_limit ?s = kDefaultTotalBytesLimit"
    by (simp_all add: CodedInputStream_init_def BufferSize_def CurrentPosition_def pending_def
        closest_limit_def INT_MAX_def kDefaultTotalBytesLimit_def)
  have inv: "cinv' ?s"
    using assms f by (simp add: coded_inv_def input_inv_def)
      (simp add: CodedInputStream_init_def INT_MAX_def kDefaultTotalBytesLimit_def)
  obtain b t where t: "Refresh ops ?s = Some (b, t)" "cstep 0 ?s t"
      "cis_legitimate_message_end t = cis_legitimate_message_end ?s"
    using Refresh_step [OF inv f(1)] by blast
  with s(1) have "t = s" by (simp add: CodedInputStream_def)
  with s t(2,3) show ?thesis
    by (simp add: coded_step_def ConsumedEntireMessage_def) (simp add: CodedInputStream_init_def)
qed

lemma ParseFromZeroCopyStream_ok:
  assumes "inv i" "int (length (rest i)) < kDefaultTotalBytesLimit" "ufs_wf us"
  shows "case wire_parse 100 (rest i) of
      Some (fs, End_Clean, r) \<Rightarrow> \<exists>j. ParseFromZeroCopyStream ops i us = Some (True, Some j, ufs_of fs) \<and> inv j \<and> rest j = []
    | _ \<Rightarrow> \<exists>x. ParseFromZeroCopyStream ops i us = Some (False, x, UnknownFieldSet)"
proof -
  obtain s where s: "CodedInputStream ops i = Some s" "cinv' s" "cunread s = rest i"
    "cview s = rest i" "CurrentPosition s = 0"
    "cis_recursion_budget s = default_recursion_limit" "cis_recursion_limit s = default_recursion_limit"
    "cis_total_bytes_limit s = kDefaultTotalBytesLimit" "cis_current_limit s = INT_MAX"
    "\<not> ConsumedEntireMessage s" "cis_input s \<noteq> None"
    using CodedInputStream_state [OF assms(1)] assms(2) by (auto simp: nat_le_iff)
  have lim: "default_recursion_limit = 100" by (simp add: default_recursion_limit_def)
  have clean: "msg_end cview s"
    using s assms(2) by (simp add: msg_end_def)
  have clear: "ufs_Clear us = Some (ufs_of [])"
    using ufs_Clear_of [of "ufs_fields us"] ufs_of_fields [OF assms(3)] by simp
  have destroy: "\<exists>j u. CodedInputStream_destroy ops t = Some u \<and> cis_input u = Some j \<and> inv j \<and> rest j = cunread t"
    if "cinv' t" "cis_input t \<noteq> None" for t
    using CodedInputStream_destroy_ok [OF that(1)] that(2) by blast
  note merge = MergeFromCodedStream_ok [OF s(2) _ _ s(10), of "[]", unfolded s(4,6,7) lim nat_numeral]
  show ?thesis
  proof (cases "\<exists>fs r. wire_parse 100 (rest i) = Some (fs, End_Clean, r)")
    case True
    then obtain fs r where p: "wire_parse 100 (rest i) = Some (fs, End_Clean, r)" by blast
    with merge obtain t m where t: "MergeFromCodedStream ops s (ufs_of []) = Some (True, t, ufs_of fs)"
        "ConsumedEntireMessage t" "cinv' t" "cstep m s t" "cunread t = []"
      using clean s(3,4) by auto
    from t(4) s(11) have "cis_input t \<noteq> None" by (auto simp: coded_step_def)
    from destroy [OF t(3) this] show ?thesis
      using t p s(1) clear by (auto simp: ParseFromZeroCopyStream_def ParseFromCodedStream_def)
  next
    case False
    then obtain t where t: "MergeFromCodedStream ops s (ufs_of []) = Some (False, t, ufs_of [])" "cinv' t"
      using merge by (auto split: option.splits prod.splits wire_end.splits)
    have "\<exists>u. CodedInputStream_destroy ops t = Some u"
      using destroy [OF t(2)] by (cases "cis_input t") (auto simp: CodedInputStream_destroy_def)
    with t(1) s(1) clear have "\<exists>x. ParseFromZeroCopyStream ops i us = Some (False, x, UnknownFieldSet)"
      by (auto simp: ParseFromZeroCopyStream_def ParseFromCodedStream_def ufs_of_def UnknownFieldSet_def)
    with False show ?thesis
      by (auto split: option.splits prod.splits wire_end.splits)
  qed
qed

end

end
