(* ===== verification/Example_Streams.thy ===== *)
theory Example_Streams
  imports Coded_Input_Read Coded_Output
begin

text \<open>
  The concrete streams on which the witnesses of the properties run: an \<open>ArrayInputStream\<close> over given
  bytes, the flat-array \<open>CodedInputStream\<close>, and a \<open>CodedOutputStream\<close> on an empty array.
\<close>

lemma array_input_start:
  assumes "int (length bs) \<le> INT_MAX"
  shows "array_input_inv (ArrayInputStream bs k)" "array_input_rest (ArrayInputStream bs k) = bs"
  using assms by (auto simp: ArrayInputStream_def array_input_inv_def array_input_rest_def Let_def)

lemma flat_stream:
  assumes "int (length bs) \<le> kDefaultTotalBytesLimit"
  shows "coded_inv array_input_inv array_input_last (CodedInputStream_flat bs)"
    "view array_input_rest array_input_last (CodedInputStream_flat bs) = bs"
    "cis_recursion_budget (CodedInputStream_flat bs) = 100" "cis_recursion_limit (CodedInputStream_flat bs) = 100"
    "CurrentPosition (CodedInputStream_flat bs) = 0"
  using array_in.CodedInputStream_flat_ok [OF assms]
  by (simp_all add: CodedInputStream_flat_def CodedInputStream_init_def default_recursion_limit_def)

lemma fresh_output:
  assumes "int n \<le> INT_MAX"
  obtains out where "CodedOutputStream array_output_ops (ArrayOutputStream (replicate n 0) (- 1)) = Some out"
    "cos_inv array_output_inv array_output_content array_output_window out" "written array_output_content out = []"
    "\<not> HadError out" "n \<le> available array_output_room out" "\<not> cos_aliasing_enabled out"
proof -
  let ?a = "ArrayOutputStream (replicate n 0) (- 1)"
  have a: "array_output_inv ?a" "array_output_content ?a = []" "array_output_room ?a = n"
    using assms by (auto simp: ArrayOutputStream_def array_output_inv_def array_output_content_def
        array_output_room_def Let_def)
  obtain out where out: "CodedOutputStream array_output_ops ?a = Some out" "array_out.oinv out"
      "array_out.owritten out = array_output_content ?a" "\<not> cos_had_error out" "array_output_room ?a \<le> array_out.oavail out"
    using array_out.CodedOutputStream_ok [OF a(1)] by blast
  moreover have "\<not> cos_aliasing_enabled out"
    using out(1) cos_Refresh_aliasing by (fastforce simp: CodedOutputStream_def CodedOutputStream_eager_def bind_eq_Some)
  ultimately show ?thesis
    using that a(2,3) by (simp add: HadError_def)
qed

end
