(* ===== verification/Wire_Properties.thy ===== *)
theory Wire_Properties
  imports Skippers Example_Streams
begin



section \<open>Unknown field sets\<close>

text \<open>C1. Serialising a set of unknown fields and parsing the bytes gives the set back, for every set
  whose field numbers fit a tag, whose strings fit an \<open>int\<close> and whose groups nest at most 100 deep,
  whatever the target held before.\<close>

theorem unknown_fields_roundtrip:
  assumes "list_all (uf_encodable 100) fs"
    and "int (length (SerializeUnknownFieldsToArray (ufs_of fs))) < kDefaultTotalBytesLimit" and "ufs_wf us"
  shows "ParseFromArray (SerializeUnknownFieldsToArray (ufs_of fs)) us = Some (True, ufs_of fs)"
proof -
  let ?bs = "SerializeUnknownFieldsToArray (ufs_of fs)"
  have "wire_parse 100 ?bs = Some (fs, End_Clean, [])"
    using wire_parse_serialize [OF assms(1) wire_parse_cases(1)] by simp
  moreover note array_input_start [of ?bs "- 1"]
  ultimately show ?thesis
    using array_in.ParseFromZeroCopyStream_ok [of "ArrayInputStream ?bs (- 1)" us] assms(2,3)
    by (auto simp: ParseFromArray_def kDefaultTotalBytesLimit_def INT_MAX_def)
qed

theorem unknown_fields_roundtrip_witness:
  "ParseFromArray (SerializeUnknownFieldsToArray (ufs_of
       [Unknown_Varint 1 300, Unknown_Group 2 (Some [Unknown_Fixed32 3 7]), Unknown_LengthDelimited 4 [1, 2]])) None =
     Some (True, ufs_of [Unknown_Varint 1 300, Unknown_Group 2 (Some [Unknown_Fixed32 3 7]), Unknown_LengthDelimited 4 [1, 2]])"
proof (rule unknown_fields_roundtrip)
  show "int (length (SerializeUnknownFieldsToArray (ufs_of
       [Unknown_Varint 1 300, Unknown_Group 2 (Some [Unknown_Fixed32 3 7]), Unknown_LengthDelimited 4 [1, 2]]))) <
     kDefaultTotalBytesLimit"
    by code_simp
qed (simp_all add: INT_MAX_def word_less_nat_alt)

text \<open>C2. \<open>ParseFromArray\<close> accepts exactly the byte strings of the wire format grammar that end
  cleanly, with the fields the grammar gives, and leaves an empty set when it fails; it always
  returns.\<close>

theorem parse_from_array_is_grammar:
  assumes "int (length data) < kDefaultTotalBytesLimit" and "ufs_wf us"
  shows "ParseFromArray data us =
    Some (case wire_parse 100 data of Some (fs, End_Clean, _) \<Rightarrow> (True, ufs_of fs) | _ \<Rightarrow> (False, UnknownFieldSet))"
proof -
  note array_input_start [of data "- 1"]
  then show ?thesis
    using array_in.ParseFromZeroCopyStream_ok [of "ArrayInputStream data (- 1)" us] assms
    by (auto simp: ParseFromArray_def kDefaultTotalBytesLimit_def INT_MAX_def split: option.splits wire_end.splits)
qed

theorem parse_from_array_is_grammar_witness:
  "ParseFromArray [8, 150] (Some [Unknown_Varint 1 2]) = Some (False, None)"
proof -
  have "wire_parse 100 [8, 150] = None"
    by code_simp
  then show ?thesis
    using parse_from_array_is_grammar [of "[8, 150]" "Some [Unknown_Varint 1 2]"]
    by (simp add: kDefaultTotalBytesLimit_def UnknownFieldSet_def)
qed

text \<open>C3. What a parse of a stream returns does not depend on the stream class or on the way it cuts
  the input into buffers: two streams with the same bytes left, each keeping the input contract, give
  the same result.\<close>

theorem parse_independent_of_chunks:
  assumes "zero_copy_input ops ok rest last_chunk empties" "zero_copy_input ops' ok' rest' last_chunk' empties'"
    and "ok i" "ok' i'" "rest i = rest' i'" "int (length (rest i)) < kDefaultTotalBytesLimit" "ufs_wf us"
  shows "\<exists>r. map_option (\<lambda>(ok, _, set). (ok, set)) (ParseFromZeroCopyStream ops i us) = Some r \<and>
    map_option (\<lambda>(ok, _, set). (ok, set)) (ParseFromZeroCopyStream ops' i' us) = Some r"
  using zero_copy_input.ParseFromZeroCopyStream_ok [OF assms(1,3,6,7)]
    zero_copy_input.ParseFromZeroCopyStream_ok [OF assms(2,4) _ assms(7)] assms(5,6)
  by (auto simp: ex_bool_eq split: option.splits wire_end.splits)

theorem parse_independent_of_chunks_witness:
  "\<exists>r. map_option (\<lambda>(ok, _, set). (ok, set))
      (ParseFromZeroCopyStream array_input_ops (ArrayInputStream [8, 1, 16, 2] 1) None) = Some r \<and>
    map_option (\<lambda>(ok, _, set). (ok, set))
      (ParseFromZeroCopyStream array_input_ops (ArrayInputStream [8, 1, 16, 2] 3) None) = Some r"
  using array_input_start [of "[8, 1, 16, 2]"]
  by (intro parse_independent_of_chunks [OF array_in.zero_copy_input_axioms array_in.zero_copy_input_axioms])
    (simp_all add: INT_MAX_def kDefaultTotalBytesLimit_def)



section \<open>Skippers\<close>

text \<open>C9. On every stream that keeps the input contract the skipper that drops the fields and the one
  that keeps them accept the same inputs, the inputs of the grammar, and both always return; the one
  that keeps them adds the fields of the grammar, in order, to what the set held.\<close>

theorem skippers_agree_with_grammar:
  assumes "zero_copy_input ops ok rest last_chunk empties" "coded_inv ok last_chunk s"
    and "0 \<le> cis_recursion_budget s" "cis_recursion_budget s \<le> cis_recursion_limit s"
  shows "\<exists>t t' v. SkipMessage_lite ops s =
      Some (wire_parse (nat (cis_recursion_budget s)) (view rest last_chunk s) \<noteq> None, t) \<and>
    SkipMessage ops s (Some (ufs_of gs)) =
      Some (wire_parse (nat (cis_recursion_budget s)) (view rest last_chunk s) \<noteq> None, t', Some v) \<and>
    (\<forall>fs e r. wire_parse (nat (cis_recursion_budget s)) (view rest last_chunk s) = Some (fs, e, r) \<longrightarrow>
       v = ufs_of (gs @ fs))"
proof -
  let ?p = "wire_parse (nat (cis_recursion_budget s)) (view rest last_chunk s)"
  have "\<exists>t. SkipMessage_lite ops s = Some (?p \<noteq> None, t)"
    using zero_copy_input.drop_message_ok [OF assms] by (cases ?p) (auto simp: FieldSkipper_def bind_eq_Some)
  moreover have "\<exists>t v. SkipMessage ops s (Some (ufs_of gs)) = Some (?p \<noteq> None, t, Some v) \<and>
      (\<forall>fs e r. ?p = Some (fs, e, r) \<longrightarrow> v = ufs_of (gs @ fs))"
    using zero_copy_input.keep_message_ok [OF assms(1,2) _ assms(3,4), of "Some (ufs_of gs)"]
    by (cases ?p) (auto simp: UnknownFieldSetFieldSkipper_def kept_def fold_ufs_push)
  ultimately show ?thesis by blast
qed

theorem skippers_agree_with_grammar_witness:
  "\<exists>t t' v. SkipMessage_lite array_input_ops (CodedInputStream_flat [8, 1]) = Some (True, t) \<and>
    SkipMessage array_input_ops (CodedInputStream_flat [8, 1]) (Some None) = Some (True, t', Some v) \<and>
    v = ufs_of [Unknown_Varint 1 1]"
proof -
  have p: "wire_parse 100 [8, 1] = Some ([Unknown_Varint 1 1], End_Clean, [])"
    by code_simp
  have "int (length [8 :: uint8, 1]) \<le> kDefaultTotalBytesLimit"
    by (simp add: kDefaultTotalBytesLimit_def)
  note f = flat_stream [OF this]
  from skippers_agree_with_grammar [OF array_in.zero_copy_input_axioms f(1), of "[]"]
  show ?thesis
    by (auto simp: f p ufs_of_def)
qed

text \<open>C15. Copying the fields of a message to an output stream writes the canonical serialisation of
  the fields read, for every input and output stream that keeps its contract: either the error flag is
  set or exactly these bytes follow what was written before.\<close>

theorem copying_writes_canonical_bytes:
  assumes "zero_copy_input ops ok rest last_chunk empties" "zero_copy_output wops ok' content window room"
    and "coded_inv ok last_chunk s" "0 \<le> cis_recursion_budget s" "cis_recursion_budget s \<le> cis_recursion_limit s"
    and "cos_inv ok' content window out"
    and "wire_parse (nat (cis_recursion_budget s)) (view rest last_chunk s) = Some (fs, End_Clean, r)"
  shows "\<exists>t out'. SkipMessage_copy ops wops s out = Some (True, t, out') \<and>
    (\<not> HadError out' \<longrightarrow> written content out' =
       written content out @ SerializeUnknownFieldsToArray (ufs_of fs)) \<and>
    (\<not> cos_aliasing_enabled out \<and> \<not> HadError out \<and>
       length (SerializeUnknownFieldsToArray (ufs_of fs)) \<le> available room out \<longrightarrow> \<not> HadError out')"
proof -
  note pair = zero_copy_pair.intro [OF assms(1,2)]
  show ?thesis
    using zero_copy_pair.copy_message_ok [OF pair assms(3,6,4,5)] assms(7)
    by (auto simp: CodedOutputStreamFieldSkipper_def zero_copy_pair.copied_def [OF pair]
        zero_copy_pair.end_bytes.simps [OF pair] zero_copy_output.emits_def [OF assms(2)] HadError_def appended_def)
qed

theorem copying_writes_canonical_bytes_witness:
  "\<exists>out t out'. CodedOutputStream array_output_ops (ArrayOutputStream (replicate 10 0) (- 1)) = Some out \<and>
    SkipMessage_copy array_input_ops array_output_ops (CodedInputStream_flat [136, 0, 129, 0]) out = Some (True, t, out') \<and>
    written array_output_content out' = [8, 1]"
proof -
  have p: "wire_parse 100 [136, 0, 129, 0] = Some ([Unknown_Varint 1 1], End_Clean, [])"
    by code_simp
  have ser: "SerializeUnknownFieldsToArray (ufs_of [Unknown_Varint 1 1]) = [8, 1]"
    by code_simp
  have "int (length [136 :: uint8, 0, 129, 0]) \<le> kDefaultTotalBytesLimit"
    by (simp add: kDefaultTotalBytesLimit_def)
  note f = flat_stream [OF this]
  obtain out where out: "CodedOutputStream array_output_ops (ArrayOutputStream (replicate 10 0) (- 1)) = Some out"
    "cos_inv array_output_inv array_output_content array_output_window out" "written array_output_content out = []"
    "\<not> HadError out" "10 \<le> available array_output_room out" "\<not> cos_aliasing_enabled out"
    by (rule fresh_output [of 10]) (simp_all add: INT_MAX_def)
  from copying_writes_canonical_bytes [OF array_in.zero_copy_input_axioms array_out.zero_copy_output_axioms f(1) _ _ out(2),
      unfolded f nat_numeral, OF _ _ p]
  show ?thesis
    using out by (auto simp: ser simp del: SerializeUnknownFieldsToArray_of)
qed

section \<open>Sizes and serialisation\<close>


text \<open>C12. \<open>SerializeUnknownFields\<close> and \<open>SerializeUnknownMessageSetItems\<close> write, through any output
  stream that keeps its contract, the bytes of their array versions, or set the error flag; without
  aliasing they do the latter only when the stream has too little room.\<close>

theorem stream_and_array_serialisers_agree:
  assumes "zero_copy_output ops ok content window room" "cos_inv ok content window s"
    and "cos_aliasing_enabled s \<longrightarrow> out_allows_aliasing ops"
  shows "\<exists>t t'. SerializeUnknownFields ops u s = Some t \<and> SerializeUnknownMessageSetItems ops u s = Some t' \<and>
    (\<not> HadError t \<longrightarrow> written content t = written content s @ SerializeUnknownFieldsToArray u) \<and>
    (\<not> HadError t' \<longrightarrow> written content t' = written content s @ SerializeUnknownMessageSetItemsToArray u) \<and>
    (\<not> cos_aliasing_enabled s \<and> \<not> HadError s \<longrightarrow>
       (ComputeUnknownFieldsSize u \<le> available room s \<longrightarrow> \<not> HadError t) \<and>
       (ComputeUnknownMessageSetItemsSize u \<le> available room s \<longrightarrow> \<not> HadError t'))"
  using zero_copy_output.SerializeUnknownFields_emits [OF assms, of u]
    zero_copy_output.SerializeUnknownMessageSetItems_emits [OF assms, of u]
  by (auto simp: zero_copy_output.emits_def [OF assms(1)] HadError_def appended_def
      ComputeUnknownFieldsSize_eq ComputeUnknownMessageSetItemsSize_eq)

theorem stream_and_array_serialisers_agree_witness:
  "\<exists>s t. CodedOutputStream array_output_ops (ArrayOutputStream (replicate 5 0) (- 1)) = Some s \<and>
    SerializeUnknownFields array_output_ops (ufs_of [Unknown_LengthDelimited 2 [7, 8, 9]]) s = Some t \<and>
    written array_output_content t = [18, 3, 7, 8, 9]"
proof -
  have ser: "SerializeUnknownFieldsToArray (ufs_of [Unknown_LengthDelimited 2 [7, 8, 9]]) = [18, 3, 7, 8, 9]"
    by code_simp
  obtain s where s: "CodedOutputStream array_output_ops (ArrayOutputStream (replicate 5 0) (- 1)) = Some s"
    "cos_inv array_output_inv array_output_content array_output_window s" "written array_output_content s = []"
    "\<not> HadError s" "5 \<le> available array_output_room s" "\<not> cos_aliasing_enabled s"
    by (rule fresh_output [of 5]) (simp_all add: INT_MAX_def)
  from stream_and_array_serialisers_agree [OF array_out.zero_copy_output_axioms s(2),
      of "ufs_of [Unknown_LengthDelimited 2 [7, 8, 9]]"]
  show ?thesis
    using s by (auto simp: ser ComputeUnknownFieldsSize_eq simp del: SerializeUnknownFieldsToArray_of)
qed

end
