(* ===== verification/Field_Properties.thy ===== *)
theory Field_Properties
  imports Wire_Field_Lemmas Unknown_Fields Wire_Skip Example_Streams
begin

text \<open>
  The properties of tags, of single, packed and repeated fields and of the containers they are read
  into.
\<close>

section \<open>Tags and values\<close>

text \<open>A tag is taken apart into the field number and the wire type it was made of, for all numbers
  a tag can hold; every 32-bit value is the tag of its parts.\<close>

theorem tag_parts:
  "(n < 2 ^ 29 \<and> w \<notin> range WIRETYPE_unnamed \<longrightarrow>
     GetTagFieldNumber (MakeTag n w) = n \<and> GetTagWireType (MakeTag n w) = w) \<and>
   MakeTag (GetTagFieldNumber tag) (GetTagWireType tag) = tag"
  by (simp_all add: GetTagWireType_MakeTag GetTagFieldNumber_MakeTag MakeTag_parts)

theorem tag_parts_witness:
  "GetTagFieldNumber (MakeTag 536870911 WIRETYPE_FIXED32) = 536870911 \<and>
   GetTagWireType (MakeTag 536870911 WIRETYPE_FIXED32) = WIRETYPE_FIXED32"
proof -
  have "(536870911 :: int32) < 2 ^ 29 \<and> WIRETYPE_FIXED32 \<notin> range WIRETYPE_unnamed"
    by (auto simp: word_less_nat_alt)
  then show ?thesis
    using tag_parts [of 536870911 WIRETYPE_FIXED32] by blast
qed

text \<open>The zigzag transforms are bijections between signed and unsigned numbers; the encoding of a
  number that is not negative is twice the number, that of a negative \<open>n\<close> is \<open>- 2 n - 1\<close>.\<close>

theorem zigzag_bijection:
  "ZigZagDecode32 (ZigZagEncode32 n) = n \<and> ZigZagEncode32 (ZigZagDecode32 n) = n \<and>
   ZigZagDecode64 (ZigZagEncode64 m) = m \<and> ZigZagEncode64 (ZigZagDecode64 m) = m \<and>
   uint (ZigZagEncode32 n) = (if 0 \<le> sint n then 2 * sint n else - 2 * sint n - 1) \<and>
   uint (ZigZagEncode64 m) = (if 0 \<le> sint m then 2 * sint m else - 2 * sint m - 1)"
  by (simp_all add: ZigZagEncode32_value ZigZagEncode64_value)

text \<open>C13. A field value of any type written by its \<open>WriteXxxNoTag\<close> function is read back by the
  matching \<open>ReadPrimitive\<close>, on every stream that keeps the input contract, wherever its buffers end;
  exactly the bytes of the value are consumed.\<close>

theorem field_value_roundtrip:
  assumes "zero_copy_input ops ok rest last_chunk empties" "coded_inv ok last_chunk s"
    and "view rest last_chunk s = WriteNoTagToArray v @ r"
  shows "\<exists>t. ReadPrimitive (type_of v) ops s = Some (Some v, t) \<and> view rest last_chunk t = r \<and>
    CurrentPosition t = CurrentPosition s + int (FieldSize v) \<and> coded_inv ok last_chunk t"
  using zero_copy_input.ReadPrimitive_Write [OF assms] coded_step_view [OF _ assms(2)] assms(3)
  by (fastforce simp: FieldSize_eq coded_step_def)

theorem field_value_roundtrip_witness:
  "\<exists>t. ReadPrimitive TYPE_SINT32 array_input_ops (CodedInputStream_flat [3, 9]) = Some (Some (SInt32 (- 2)), t) \<and>
    view array_input_rest array_input_last t = [9] \<and> CurrentPosition t = 1"
proof -
  have w: "WriteNoTagToArray (SInt32 (- 2)) = [3]" "FieldSize (SInt32 (- 2)) = 1"
    by code_simp+
  have "int (length [3 :: uint8, 9]) \<le> kDefaultTotalBytesLimit"
    by (simp add: kDefaultTotalBytesLimit_def)
  note f = flat_stream [OF this]
  from field_value_roundtrip [OF array_in.zero_copy_input_axioms f(1), of "SInt32 (- 2)" "[9]", unfolded w f]
  show ?thesis
    by (auto simp del: ReadPrimitive.simps)
qed

section \<open>Packed and repeated fields\<close>

lemma new_field:
  "rf_Capacity (RepeatedField a) = 0" "rf_size (RepeatedField a) = 0" "rf_current_size (RepeatedField a) = 0"
  by (simp_all add: RepeatedField_def rf_Capacity_def rf_size_def)

text \<open>C14. A packed field reads back as the list of its values, appended to the field, whatever the
  element type and the chunks of the stream; the limits are as before.\<close>

theorem packed_field_roundtrip:
  assumes "zero_copy_input ops ok rest last_chunk empties" "coded_inv ok last_chunk s"
    and "view rest last_chunk s = WriteStringWithSizeToArray (concat (map WriteNoTagToArray vs)) @ r"
    and "CurrentPosition s + int (length (WriteStringWithSizeToArray (concat (map WriteNoTagToArray vs)))) < INT_MAX"
    and "\<forall>v \<in> set vs. type_of v = type" "rf_inv vals" "int (length (rf_list vals) + length vs) \<le> 2 ^ 30"
    and "rf_Capacity vals \<le> 2 ^ 30 - 1"
  shows "\<exists>t vals'. ReadPackedPrimitive e0 type ops s vals = Some (True, t, vals') \<and>
    rf_inv vals' \<and> rf_list vals' = rf_list vals @ vs \<and> view rest last_chunk t = r \<and>
    cis_current_limit t = cis_current_limit s"
  using zero_copy_input.ReadPackedPrimitive_ok [OF assms(1-7), of e0] assms(8) coded_step_view [OF _ assms(2)] assms(3)
  by (fastforce simp: rf_Capacity_def coded_step_def)

theorem packed_field_roundtrip_witness:
  "\<exists>t vals'. ReadPackedPrimitive (UInt32 0) TYPE_UINT32 array_input_ops (CodedInputStream_flat [3, 1, 172, 2, 5]) (RepeatedField None) =
      Some (True, t, vals') \<and> rf_list vals' = [UInt32 1, UInt32 300] \<and> view array_input_rest array_input_last t = [5]"
proof -
  have w: "WriteStringWithSizeToArray (concat (map WriteNoTagToArray [UInt32 1, UInt32 300])) = [3, 1, 172, 2]"
    by code_simp
  have "int (length [3 :: uint8, 1, 172, 2, 5]) \<le> kDefaultTotalBytesLimit"
    by (simp add: kDefaultTotalBytesLimit_def)
  note f = flat_stream [OF this]
  from packed_field_roundtrip [OF array_in.zero_copy_input_axioms f(1), of "[UInt32 1, UInt32 300]" "[5]"
      TYPE_UINT32 "RepeatedField None" "UInt32 0", unfolded w f]
  show ?thesis
    by (auto simp: RepeatedField_ok INT_MAX_def new_field)
qed

text \<open>Reading a repeated field that is not packed takes a prefix of its elements, in order, and
  stops in front of the next tag or of other data, never inside an element; calling it again goes on
  from there.\<close>

theorem repeated_field_reads_prefix:
  assumes "zero_copy_input ops ok rest last_chunk empties" "coded_inv ok last_chunk s"
    and "view rest last_chunk s = WriteNoTagToArray v @ tagged_elements tag vs @ r"
    and "\<not> starts_with r (WriteTagToArray tag)" "\<forall>w \<in> set (v # vs). type_of w = type"
    and "rf_inv vals" "int (length (rf_list vals)) \<le> 2 ^ 30 - 1"
  shows "\<exists>k t vals'. k \<le> length vs \<and>
    ReadRepeatedPrimitive e0 type ops (int (length (WriteTagToArray tag))) tag s vals = Some (True, t, vals') \<and>
    view rest last_chunk t = tagged_elements tag (drop k vs) @ r \<and>
    rf_inv vals' \<and> rf_list vals' = rf_list vals @ v # take k vs"
  using zero_copy_input.ReadRepeatedPrimitive_ok [OF assms] by blast

theorem repeated_field_reads_prefix_witness:
  "\<exists>k t vals'. k \<le> 2 \<and>
    ReadRepeatedPrimitive (UInt32 0) TYPE_UINT32 array_input_ops 1 8 (CodedInputStream_flat [5, 8, 6, 8, 7, 16]) (RepeatedField None) =
      Some (True, t, vals') \<and>
    rf_list vals' = UInt32 5 # take k [UInt32 6, UInt32 7]"
proof -
  have w: "WriteNoTagToArray (UInt32 5) = [5]" "tagged_elements 8 [UInt32 6, UInt32 7] = [8, 6, 8, 7]"
      "WriteTagToArray 8 = [8]"
    by code_simp+
  have "int (length [5 :: uint8, 8, 6, 8, 7, 16]) \<le> kDefaultTotalBytesLimit"
    by (simp add: kDefaultTotalBytesLimit_def)
  note f = flat_stream [OF this]
  from repeated_field_reads_prefix [OF array_in.zero_copy_input_axioms f(1), of "UInt32 5" 8 "[UInt32 6, UInt32 7]" "[16]"
      TYPE_UINT32 "RepeatedField None" "UInt32 0", unfolded w f]
  obtain k t vals' where "k \<le> length [UInt32 6, UInt32 7]"
    "ReadRepeatedPrimitive (UInt32 0) TYPE_UINT32 array_input_ops 1 8 (CodedInputStream_flat [5, 8, 6, 8, 7, 16])
       (RepeatedField None) = Some (True, t, vals')"
    "rf_list vals' = UInt32 5 # take k [UInt32 6, UInt32 7]"
    by (auto simp: RepeatedField_ok starts_with_def simp del: take_Cons_numeral)
  then show ?thesis
    by (intro exI [of _ k] exI [of _ t] exI [of _ vals']) simp
qed

section \<open>The container of repeated fields\<close>



text \<open>\<open>ExtractSubrange\<close> hands out the elements of the range and closes the gap, \<open>erase\<close> closes it;
  both keep the order of the other elements.\<close>

theorem repeated_field_subranges:
  assumes "rf_inv s" "a \<le> b" "b \<le> length (rf_list s)"
  shows "(\<exists>t. rf_ExtractSubrange (int a) (int (b - a)) want s =
       Some (if want then take (b - a) (drop a (rf_list s)) else [], t) \<and> rf_inv t \<and>
       rf_list t = take a (rf_list s) @ drop b (rf_list s)) \<and>
    (\<exists>t. rf_erase (int a) (int b) s = Some (int a, t) \<and> rf_inv t \<and>
       rf_list t = take a (rf_list s) @ drop b (rf_list s))"
  using rf_ExtractSubrange_ok [of s a "b - a" want] rf_erase_ok [of s a b] assms by auto

theorem repeated_field_subranges_witness:
  "\<exists>s t. rf_add_all (0 :: nat) [1, 2, 3, 4] (RepeatedField None) = Some s \<and>
     rf_erase 1 3 s = Some (1, t) \<and> rf_list t = [1, 4]"
proof -
  obtain s where s: "rf_add_all (0 :: nat) [1, 2, 3, 4] (RepeatedField None) = Some s" "rf_inv s" "rf_list s = [1, 2, 3, 4]"
    using rf_add_all_ok [of "RepeatedField None" "[1, 2, 3, 4]" "0 :: nat"]
    by (auto simp: new_field RepeatedField_ok simp del: rf_add_all.simps)
  with repeated_field_subranges [of s 1 3] show ?thesis by auto
qed

text \<open>\<open>MergeFrom\<close> appends the other field's elements, \<open>CopyFrom\<close> replaces by them, and \<open>Swap\<close>
  exchanges the elements of two fields, on the same arena or not; each field keeps its arena.\<close>

theorem repeated_field_merge_and_swap:
  assumes "rf_inv s" "rf_inv other" "rf_Capacity s \<le> 2 ^ 30 - 1" "rf_Capacity other \<le> 2 ^ 30 - 1"
  shows "(\<exists>t. rf_MergeFrom e0 other s = Some t \<and> rf_inv t \<and> rf_list t = rf_list s @ rf_list other \<and>
       rf_GetArena t = rf_GetArena s) \<and>
    (\<exists>t. rf_CopyFrom e0 other s = Some t \<and> rf_inv t \<and> rf_list t = rf_list other \<and>
       rf_GetArena t = rf_GetArena s) \<and>
    (\<exists>s' other'. rf_Swap e0 s other = Some (s', other') \<and> rf_inv s' \<and> rf_inv other' \<and>
       rf_list s' = rf_list other \<and> rf_list other' = rf_list s \<and>
       rf_GetArena s' = rf_GetArena s \<and> rf_GetArena other' = rf_GetArena other)"
  using rf_UnsafeMergeFrom_ok [OF assms(1,2), of e0] rf_CopyFrom_ok [OF assms(1,2), of e0]
    rf_Swap_ok [OF assms(1,2), of e0] assms(3,4)
  by (auto simp: rf_Capacity_def rf_MergeFrom_def)

theorem repeated_field_merge_and_swap_witness:
  "\<exists>s t u. rf_add_all (0 :: nat) [1, 2] (RepeatedField (Some 5)) = Some s \<and>
     rf_Swap 0 s (RepeatedField None) = Some (t, u) \<and> rf_list u = [1, 2] \<and> rf_GetArena u = None"
proof -
  obtain s where s: "rf_add_all (0 :: nat) [1, 2] (RepeatedField (Some 5)) = Some s" "rf_inv s" "rf_list s = [1, 2]"
    using rf_add_all_ok [of "RepeatedField (Some 5)" "[1, 2]" "0 :: nat"]
    by (auto simp: new_field RepeatedField_ok simp del: rf_add_all.simps)
  moreover have "rf_Capacity s \<le> 2 ^ 30 - 1"
    using s(1) by (auto simp: RepeatedField_def rf_Add_def rf_Reserve_def rf_Set_def bind_eq_Some Let_def
        rf_GetArena_def INT_MAX_def kMinRepeatedFieldAllocationSize_def rf_Capacity_def split: if_splits)
  moreover have "rf_GetArena (RepeatedField None :: nat repeated_field) = None"
    by (simp add: RepeatedField_def rf_GetArena_def)
  ultimately show ?thesis
    using repeated_field_merge_and_swap [of s "RepeatedField None" 0]
    by (auto simp: new_field RepeatedField_ok simp del: rf_add_all.simps)
qed

section \<open>Editing unknown field sets\<close>

text \<open>On the fields of a set, \<open>MergeFrom\<close> and \<open>MergeFromAndDestroy\<close> append the other set's fields
  and the latter empties that set, \<open>AddField\<close> appends a deep copy, \<open>DeleteSubrange\<close> and
  \<open>DeleteByNumber\<close> remove exactly the fields asked for; a set that becomes empty gives up its vector,
  so the invariant is kept.\<close>

theorem unknown_fields_edited:
  assumes "list_all uf_wf fs" "list_all uf_wf gs"
  shows "ufs_MergeFrom (ufs_of fs) (ufs_of gs) = ufs_of (gs @ fs) \<and>
    ufs_MergeFromAndDestroy (ufs_of fs) (ufs_of gs) = (ufs_of (gs @ fs), UnknownFieldSet) \<and>
    (uf_wf f \<longrightarrow> AddField f (ufs_of gs) = ufs_of (gs @ [f])) \<and>
    (fs \<noteq> [] \<and> a + n \<le> length fs \<longrightarrow>
       DeleteSubrange (int a) (int n) (ufs_of fs) = Some (ufs_of (take a fs @ drop (a + n) fs)) \<and>
       ufs_wf (ufs_of (take a fs @ drop (a + n) fs))) \<and>
    DeleteByNumber number (ufs_of fs) = ufs_of (filter (\<lambda>f. uf_number f \<noteq> number) fs)"
  using assms
  by (simp add: ufs_MergeFrom_of ufs_MergeFromAndDestroy_of ufs_wf_of AddField_def DeepCopy_id DeleteSubrange_of
      DeleteByNumber_of list_all_iff)
    (auto simp: ufs_of_def UnknownFieldSet_def dest: in_set_takeD in_set_dropD)

theorem unknown_fields_edited_witness:
  "ufs_MergeFrom (ufs_of [Unknown_Group 1 None]) (ufs_of [Unknown_Varint 2 3]) =
     ufs_of [Unknown_Varint 2 3, Unknown_Group 1 None] \<and>
   DeleteSubrange 0 1 (ufs_of [Unknown_Group 1 None]) = Some None"
  using unknown_fields_edited [of "[Unknown_Group 1 None]" "[Unknown_Varint 2 3]" _ 0 1] by (simp add: ufs_of_def)

end
