(* ===== verification/Stream_Properties.thy ===== *)
theory Stream_Properties
  imports Skippers Zero_Copy_Impl Example_Streams
begin

text \<open>
  The properties of the streams: what \<open>CodedInputStream\<close> and \<open>CodedOutputStream\<close> promise on every
  underlying stream that keeps its contract, and that the streams of the repository keep it.
\<close>

lemma ucast_of_nat_64 [simp]: "(ucast (of_nat n :: uint64) :: uint32) = of_nat n"
  by (rule bit_word_eqI) (auto simp: bit_simps)

section \<open>Reading bytes\<close>

text \<open>\<open>ReadRaw\<close> and \<open>ReadString\<close> deliver exactly the next bytes in front of the closest limit,
  whatever the chunks of the underlying stream, and say truly whether they got all they were asked
  for; a negative size for \<open>ReadString\<close> is refused without touching anything.\<close>

theorem raw_reads_exact:
  assumes "zero_copy_input ops ok rest last_chunk empties" "coded_inv ok last_chunk s"
  shows "if 0 \<le> n then
      (\<exists>t t'. ReadRaw ops n s = Some (nat n \<le> length (view rest last_chunk s), take (nat n) (view rest last_chunk s), t) \<and>
        ReadString ops n str s = Some (nat n \<le> length (view rest last_chunk s), take (nat n) (view rest last_chunk s), t') \<and>
        view rest last_chunk t = drop (nat n) (view rest last_chunk s) \<and>
        view rest last_chunk t' = drop (nat n) (view rest last_chunk s) \<and>
        CurrentPosition t = CurrentPosition s + int (min (nat n) (length (view rest last_chunk s))))
    else ReadString ops n str s = Some (False, str, s)"
proof (cases "0 \<le> n")
  case True
  have drop: "drop (min (nat n) (length xs)) xs = drop (nat n) xs" for xs :: bytes
    by (simp add: min_def)
  show ?thesis
    using zero_copy_input.ReadRaw_ok [OF assms True] zero_copy_input.ReadString_ok [OF assms True, of str] True
      coded_step_view [OF _ assms(2)]
    by (fastforce simp: drop coded_step_def)
next
  case False
  then show ?thesis
    using zero_copy_input.ReadString_negative [OF assms(1)] by simp
qed

theorem raw_reads_exact_witness:
  "\<exists>t. ReadRaw array_input_ops 2 (CodedInputStream_flat [1, 2, 3]) = Some (True, [1, 2], t) \<and>
    view array_input_rest array_input_last t = [3] \<and>
    ReadString array_input_ops (- 1) [7] (CodedInputStream_flat [1, 2, 3]) = Some (False, [7], CodedInputStream_flat [1, 2, 3])"
proof -
  have "int (length [1 :: uint8, 2, 3]) \<le> kDefaultTotalBytesLimit"
    by (simp add: kDefaultTotalBytesLimit_def)
  note f = flat_stream [OF this]
  from raw_reads_exact [OF array_in.zero_copy_input_axioms f(1), of 2 "[7]"]
    raw_reads_exact [OF array_in.zero_copy_input_axioms f(1), of "- 1" "[7]"]
  show ?thesis by (auto simp: f)
qed

text \<open>\<open>Skip\<close> moves over as many bytes as asked for and no further than the limit: it succeeds
  exactly when they are there, and a negative count fails without an effect.\<close>

theorem skip_exact:
  assumes "zero_copy_input ops ok rest last_chunk empties" "coded_inv ok last_chunk s"
  shows "\<exists>t. Skip ops n s = Some (0 \<le> n \<and> nat n \<le> length (view rest last_chunk s), t) \<and> coded_inv ok last_chunk t \<and>
    view rest last_chunk t = (if 0 \<le> n then drop (nat n) (view rest last_chunk s) else view rest last_chunk s) \<and>
    (0 \<le> n \<and> nat n \<le> length (view rest last_chunk s) \<longrightarrow> CurrentPosition t = CurrentPosition s + n) \<and>
    (n < 0 \<longrightarrow> t = s)"
proof (cases "0 \<le> n")
  case True
  then obtain t m where t: "Skip ops n s = Some (nat n \<le> length (view rest last_chunk s), t)" "coded_inv ok last_chunk t"
    "coded_step rest last_chunk m s t"
    "if nat n \<le> length (view rest last_chunk s) then m = nat n else length (view rest last_chunk s) \<le> m"
    using zero_copy_input.Skip_ok [OF assms True] by blast
  moreover from coded_step_view [OF t(3) assms(2)] t(4)
  have "view rest last_chunk t = drop (nat n) (view rest last_chunk s)"
    by (simp split: if_splits)
  ultimately show ?thesis
    using True by (auto simp: coded_step_def)
next
  case False
  then show ?thesis
    using zero_copy_input.Skip_negative [OF assms(1)] assms(2) by simp
qed

theorem skip_exact_witness:
  "\<exists>t. Skip array_input_ops 2 (CodedInputStream_flat [1, 2, 3]) = Some (True, t) \<and>
    view array_input_rest array_input_last t = [3]"
proof -
  have "int (length [1 :: uint8, 2, 3]) \<le> kDefaultTotalBytesLimit"
    by (simp add: kDefaultTotalBytesLimit_def)
  note f = flat_stream [OF this]
  from skip_exact [OF array_in.zero_copy_input_axioms f(1), of 2]
  show ?thesis by (auto simp: f)
qed

section \<open>Limits\<close>

text \<open>C16. \<open>PushLimit\<close> cuts what can be read to the given number of bytes, never widening an outer
  limit; after any reads inside, \<open>PopLimit\<close> of the old limit makes the rest readable again as if the
  limit had never been set, and the invariant of the stream is kept.\<close>

theorem limits_nest:
  assumes "zero_copy_input ops ok rest last_chunk empties" "coded_inv ok last_chunk s" "PushLimit n s = (old, s1)"
    and "coded_inv ok last_chunk t" "coded_step rest last_chunk m s1 t" "m \<le> length (unread rest last_chunk s)"
  shows "view rest last_chunk s1 = (if 0 \<le> n then take (nat n) (view rest last_chunk s) else view rest last_chunk s) \<and>
    view rest last_chunk t = drop m (view rest last_chunk s1) \<and>
    coded_inv ok last_chunk (PopLimit old t) \<and>
    view rest last_chunk (PopLimit old t) = drop m (view rest last_chunk s) \<and>
    cis_current_limit (PopLimit old t) = cis_current_limit s"
  using PushLimit_ok [OF assms(2,3)] zero_copy_input.PopLimit_after [OF assms]
    coded_step_view [OF assms(5)] coded_step_view [OF _ assms(2)]
  by (auto simp: coded_step_def)

theorem limits_nest_witness:
  "\<exists>s1 t. PushLimit 2 (CodedInputStream_flat [1, 2, 3, 4]) = (4, s1) \<and>
    ReadRaw array_input_ops 3 s1 = Some (False, [1, 2], t) \<and>
    view array_input_rest array_input_last (PopLimit 4 t) = [3, 4]"
proof -
  let ?s = "CodedInputStream_flat [1, 2, 3, 4] :: array_input coded_input"
  have "int (length [1 :: uint8, 2, 3, 4]) \<le> kDefaultTotalBytesLimit"
    by (simp add: kDefaultTotalBytesLimit_def)
  note f = flat_stream [OF this]
  obtain old s1 where p: "PushLimit 2 ?s = (old, s1)" by fastforce
  note push = PushLimit_ok [OF f(1) p]
  have old: "old = 4" using push(2) by (simp add: CodedInputStream_flat_def CodedInputStream_init_def)
  have v: "view array_input_rest array_input_last s1 = [1, 2]"
    using push(5) by (simp add: f)
  obtain t where t: "ReadRaw array_input_ops 3 s1 = Some (False, [1, 2], t)" "array_in.cinv' t"
      "coded_step array_input_rest array_input_last 2 s1 t"
    using array_in.ReadRaw_ok [OF push(1), of 3] by (auto simp: v numeral_2_eq_2)
  have "unread array_input_rest array_input_last ?s = [1, 2, 3, 4]"
    using array_in.CodedInputStream_flat_ok(3) [of "[1, 2, 3, 4]"] by (simp add: kDefaultTotalBytesLimit_def)
  with limits_nest [OF array_in.zero_copy_input_axioms f(1) p t(2,3)] p t(1) show ?thesis
    by (auto simp: old f)
qed

section \<open>Varints and tags on a stream\<close>

text \<open>C18. On a stream, through the fast paths, the unrolled loops and the slow path across buffer
  ends, \<open>ReadVarint64\<close> and \<open>ReadVarint32\<close> read what the array reader reads from the bytes in view; both
  fail when the bytes in view hold no varint.\<close>

theorem stream_varints_agree:
  assumes "zero_copy_input ops ok rest last_chunk empties" "coded_inv ok last_chunk s"
  shows "case varint_split 10 (view rest last_chunk s) of
      Some (ds, r) \<Rightarrow> \<exists>v t t'. ReadVarint64FromArray (view rest last_chunk s) 0 = Some (Some v, int (length ds)) \<and>
        ReadVarint64 ops s = Some (Some v, t) \<and> view rest last_chunk t = r \<and>
        ReadVarint32 ops s = Some (Some (ucast v), t') \<and> view rest last_chunk t' = r
    | None \<Rightarrow> \<exists>t t'. ReadVarint64 ops s = Some (None, t) \<and> ReadVarint32 ops s = Some (None, t')"
proof (cases "varint_split 10 (view rest last_chunk s)")
  case None
  then show ?thesis
    using zero_copy_input.ReadVarint64_ok(2) [OF assms] zero_copy_input.ReadVarint32_ok(2) [OF assms] by fastforce
next
  case (Some p)
  obtain ds r where p: "p = (ds, r)" by (cases p)
  note split = Some [unfolded p]
  have v: "view rest last_chunk s = ds @ r" using varint_split_SomeD [OF split] by simp
  have "view rest last_chunk t = r" if "coded_step rest last_chunk (length ds) s t" for t
    using coded_step_view [OF that assms(2)] by (simp add: v)
  moreover have "ReadVarint64FromArray (view rest last_chunk s) 0 = Some (Some (of_nat (leb ds)), int (length ds))"
    using ReadVarint64FromArray_eq [of 0 "view rest last_chunk s" ds r] split by simp
  ultimately show ?thesis
    using zero_copy_input.ReadVarint64_ok(1) [OF assms split] zero_copy_input.ReadVarint32_ok(1) [OF assms split]
    by (auto simp: split)
qed

theorem stream_varints_agree_witness:
  "\<exists>t t'. ReadVarint64 array_input_ops (CodedInputStream_flat [172, 2, 9]) = Some (Some 300, t) \<and>
    ReadVarint32 array_input_ops (CodedInputStream_flat [172, 2, 9]) = Some (Some 300, t')"
proof -
  have w: "WriteVarint64ToArray 300 = [172, 2]" by code_simp
  have "int (length [172 :: uint8, 2, 9]) \<le> kDefaultTotalBytesLimit"
    by (simp add: kDefaultTotalBytesLimit_def)
  note f = flat_stream [OF this]
  have "varint_split 10 [172, 2, 9] = Some ([172, 2], [9])"
    using varint_split_Write(2) [of 300 "[9]"] by (simp add: w)
  moreover have "ReadVarint64FromArray [172, 2, 9] 0 = Some (Some 300, 2)"
    by code_simp
  ultimately show ?thesis
    using stream_varints_agree [OF array_in.zero_copy_input_axioms f(1)] by (auto simp: f)
qed

text \<open>A tag in front is read whole by \<open>ReadTag\<close> and by \<open>ReadTagWithCutoff\<close>, is remembered for
  \<open>LastTagWas\<close>, and the cutoff flag tells whether it is at most the cutoff; what follows the tag stays
  unread.\<close>

theorem tags_read_back:
  assumes "zero_copy_input ops ok rest last_chunk empties" "coded_inv ok last_chunk s"
    and "view rest last_chunk s = WriteTagToArray tag @ r" "tag \<noteq> 0"
  shows "\<exists>t t'. ReadTag ops s = Some (tag, t) \<and> view rest last_chunk t = r \<and> LastTagWas tag t \<and>
    ReadTagWithCutoff ops cutoff s = Some (tag, tag \<le> cutoff, t') \<and> view rest last_chunk t' = r \<and> LastTagWas tag t'"
proof -
  let ?e = "WriteTagToArray tag"
  have split: "varint_split 10 (view rest last_chunk s) = Some (?e, r)" "(of_nat (leb ?e) :: uint32) = tag"
    by (simp_all add: assms(3) WriteTagToArray_def varint_split_Write)
  have "view rest last_chunk t = r" if "coded_step rest last_chunk (length ?e) s t" for t
    using coded_step_view [OF that assms(2)] by (simp add: assms(3))
  then show ?thesis
    using zero_copy_input.ReadTag_ok(1) [OF assms(1,2) split(1)] split(2) assms(4)
      zero_copy_input.ReadTagWithCutoff_ok [OF assms(1,2) split(1), of cutoff]
    by (auto simp: LastTagWas_def)
qed

theorem tags_read_back_witness:
  "\<exists>t t'. ReadTag array_input_ops (CodedInputStream_flat [130, 125, 9]) = Some (16002, t) \<and>
    ReadTagWithCutoff array_input_ops 16001 (CodedInputStream_flat [130, 125, 9]) = Some (16002, False, t')"
proof -
  have w: "WriteTagToArray 16002 = [130, 125]" by code_simp
  have "int (length [130 :: uint8, 125, 9]) \<le> kDefaultTotalBytesLimit"
    by (simp add: kDefaultTotalBytesLimit_def)
  note f = flat_stream [OF this]
  from tags_read_back [OF array_in.zero_copy_input_axioms f(1), of 16002 "[9]" 16001]
  show ?thesis by (auto simp: f w)
qed

text \<open>C35. \<open>ReadTag\<close> at the end of the view returns 0 and marks a legitimate end of the message,
  unless it is the total bytes limit that stops it; a malformed or cut tag returns 0 and is no
  legitimate end.\<close>

theorem message_end_flag:
  assumes "zero_copy_input ops ok rest last_chunk empties" "coded_inv ok last_chunk s" "\<not> ConsumedEntireMessage s"
    and "varint_split 10 (view rest last_chunk s) = None"
  shows "\<exists>t. ReadTag ops s = Some (0, t) \<and> coded_inv ok last_chunk t \<and> LastTagWas 0 t \<and>
    (ConsumedEntireMessage t \<longleftrightarrow> view rest last_chunk s = [] \<and>
       (CurrentPosition s < cis_total_bytes_limit s \<or> cis_current_limit s = cis_total_bytes_limit s))"
proof (cases "view rest last_chunk s = []")
  case True
  then show ?thesis
    using zero_copy_input.ReadTag_ok(3) [OF assms(1,2)] assms(3) by (auto simp: LastTagWas_def ConsumedEntireMessage_def)
next
  case False
  then show ?thesis
    using zero_copy_input.ReadTag_ok(2) [OF assms(1,2) _ assms(4)] assms(3)
    by (auto simp: LastTagWas_def ConsumedEntireMessage_def)
qed

theorem message_end_flag_witness:
  "(\<exists>t. ReadTag array_input_ops (CodedInputStream_flat []) = Some (0, t) \<and> ConsumedEntireMessage t) \<and>
   (\<exists>t. ReadTag array_input_ops (CodedInputStream_flat [136]) = Some (0, t) \<and> \<not> ConsumedEntireMessage t)"
proof -
  have small: "int (length []) \<le> kDefaultTotalBytesLimit" "int (length [136 :: uint8]) \<le> kDefaultTotalBytesLimit"
    by (simp_all add: kDefaultTotalBytesLimit_def)
  note e = flat_stream [OF small(1)] and f = flat_stream [OF small(2)]
  have flags: "\<not> ConsumedEntireMessage (CodedInputStream_flat bs)" "cis_total_bytes_limit (CodedInputStream_flat bs) = kDefaultTotalBytesLimit" for bs
    by (simp_all add: ConsumedEntireMessage_def CodedInputStream_flat_def CodedInputStream_init_def)
  have splits: "varint_split 10 [] = None" "varint_split 10 [136] = None"
    by code_simp+
  from message_end_flag [OF array_in.zero_copy_input_axioms e(1) flags(1)]
    message_end_flag [OF array_in.zero_copy_input_axioms f(1) flags(1)]
  show ?thesis
    by (auto simp: e f flags splits kDefaultTotalBytesLimit_def)
qed

text \<open>\<open>ExpectTag\<close> never misleads: when it says yes the canonical encoding of the tag was in front
  and exactly that is consumed, when it says no nothing has changed; and \<open>ExpectAtEnd\<close> says yes only
  when nothing is left in view.\<close>

theorem expectations_sound:
  assumes "zero_copy_input ops ok rest last_chunk empties" "coded_inv ok last_chunk s"
  shows "\<exists>b t e u. ExpectTag tag s = Some (b, t) \<and> ExpectAtEnd s = (e, u) \<and>
    coded_inv ok last_chunk t \<and> coded_inv ok last_chunk u \<and>
    (if b then view rest last_chunk s = WriteTagToArray tag @ view rest last_chunk t \<and>
        CurrentPosition t = CurrentPosition s + int (length (WriteTagToArray tag)) else t = s) \<and>
    (if e then view rest last_chunk s = [] \<and> ConsumedEntireMessage u \<and> LastTagWas 0 u else u = s)"
proof -
  obtain e u where eu: "ExpectAtEnd s = (e, u)" by fastforce
  show ?thesis
    using zero_copy_input.ExpectTag_ok [OF assms, of tag] zero_copy_input.ExpectAtEnd_ok [OF assms eu] eu
    by (fastforce simp: coded_step_def ConsumedEntireMessage_def LastTagWas_def)
qed

theorem expectations_sound_witness:
  "\<exists>b t. ExpectTag 8 (CodedInputStream_flat [8, 1] :: array_input coded_input) = Some (b, t) \<and>
    (b \<longrightarrow> view array_input_rest array_input_last t = [1])"
proof -
  have "int (length [8 :: uint8, 1]) \<le> kDefaultTotalBytesLimit"
    by (simp add: kDefaultTotalBytesLimit_def)
  note f = flat_stream [OF this]
  have "WriteTagToArray 8 = [8]" by code_simp
  with expectations_sound [OF array_in.zero_copy_input_axioms f(1), of 8] show ?thesis
    by (fastforce simp: f split: if_splits)
qed

section \<open>A session on an input stream\<close>

lemma drop_part: "drop (min n (length xs)) (xs @ ys) = drop n xs @ ys"
  by (cases "n \<le> length xs") (simp_all add: min_def)

text \<open>C17. A \<open>CodedInputStream\<close> put on a stream, one read of any size and the destructor: the read
  succeeds exactly when the bytes are there and the total bytes limit of 64 MB allows it, no byte
  beyond the limit is ever delivered, and the destructor leaves the underlying stream right behind
  the bytes that were read, whatever its buffers.\<close>

theorem coded_input_session:
  assumes "zero_copy_input ops ok rest last_chunk empties" "ok i" "0 \<le> n"
  shows "\<exists>s t u j. CodedInputStream ops i = Some s \<and>
    ReadRaw ops n s = Some (nat n \<le> length (rest i) \<and> n \<le> kDefaultTotalBytesLimit,
       take (nat n) (take (nat kDefaultTotalBytesLimit) (rest i)), t) \<and>
    CodedInputStream_destroy ops t = Some u \<and> cis_input u = Some j \<and> ok j \<and>
    rest j = drop (nat n) (take (nat kDefaultTotalBytesLimit) (rest i)) @ drop (nat kDefaultTotalBytesLimit) (rest i)"
proof -
  let ?v = "take (nat kDefaultTotalBytesLimit) (rest i)"
  obtain s where s: "CodedInputStream ops i = Some s" "coded_inv ok last_chunk s" "unread rest last_chunk s = rest i"
    "view rest last_chunk s = ?v"
    and input: "cis_input s \<noteq> None"
    using zero_copy_input.CodedInputStream_state [OF assms(1,2)] by auto
  obtain t where t: "ReadRaw ops n s = Some (nat n \<le> length ?v, take (nat n) ?v, t)" "coded_inv ok last_chunk t"
    "coded_step rest last_chunk (min (nat n) (length ?v)) s t"
    using zero_copy_input.ReadRaw_ok [OF assms(1) s(2) assms(3)] by (auto simp: s(4))
  from t(3) input obtain i' where "cis_input t = Some i'" by (auto simp: coded_step_def)
  from zero_copy_input.CodedInputStream_destroy_ok [OF assms(1) t(2) this] obtain u j where
    u: "CodedInputStream_destroy ops t = Some u" "cis_input u = Some j" "ok j" "rest j = unread rest last_chunk t"
    by blast
  have "unread rest last_chunk t = drop (nat n) ?v @ drop (nat kDefaultTotalBytesLimit) (rest i)"
    using t(3) s(3) drop_part [of "nat n" ?v "drop (nat kDefaultTotalBytesLimit) (rest i)"]
    by (simp add: coded_step_def)
  moreover have "nat n \<le> length ?v \<longleftrightarrow> nat n \<le> length (rest i) \<and> n \<le> kDefaultTotalBytesLimit"
    by (auto simp: kDefaultTotalBytesLimit_def)
  ultimately show ?thesis
    using s(1) t(1) u by auto
qed

theorem coded_input_session_witness:
  "\<exists>s t u j. CodedInputStream array_input_ops (ArrayInputStream [1, 2, 3, 4, 5] 2) = Some s \<and>
    ReadRaw array_input_ops 3 s = Some (True, [1, 2, 3], t) \<and>
    CodedInputStream_destroy array_input_ops t = Some u \<and> cis_input u = Some j \<and> array_input_rest j = [4, 5]"
  using coded_input_session [OF array_in.zero_copy_input_axioms, of "ArrayInputStream [1, 2, 3, 4, 5] 2" 3]
    array_input_start [of "[1, 2, 3, 4, 5]" 2]
  by (auto simp: INT_MAX_def kDefaultTotalBytesLimit_def)

section \<open>Writing\<close>

text \<open>C36. Every writer of \<open>CodedOutputStream\<close>, with its fast path into the buffer and its slow path
  through a scratch array, does what \<open>WriteRaw\<close> does with the bytes of the array version.\<close>

theorem coded_writes_are_array_writes:
  "WriteLittleEndian32 ops v s = WriteRaw ops (WriteLittleEndian32ToArray v) s \<and>
   WriteLittleEndian64 ops w s = WriteRaw ops (WriteLittleEndian64ToArray w) s \<and>
   WriteVarint32 ops v s = WriteRaw ops (WriteVarint32ToArray v) s \<and>
   WriteVarint64 ops w s = WriteRaw ops (WriteVarint64ToArray w) s \<and>
   WriteVarint32SignExtended ops v s = WriteRaw ops (WriteVarint32SignExtendedToArray v) s \<and>
   WriteTag ops v s = WriteRaw ops (WriteTagToArray v) s \<and>
   WriteString ops bs s = WriteRaw ops (WriteStringToArray bs) s"
  by (simp add: coded_write_eqs)

lemma write_session:
  assumes "zero_copy_output ops ok content window room" "ok out"
  shows "\<exists>s t u. CodedOutputStream ops out = Some s \<and> WriteRaw ops bs s = Some t \<and> Trim ops t = Some u \<and>
    ok (cos_output u) \<and> (\<exists>k. content (cos_output u) = content out @ take k bs) \<and>
    (\<not> HadError t \<longrightarrow> content (cos_output u) = content out @ bs \<and> ByteCount t = int (length bs)) \<and>
    (length bs \<le> room out \<longrightarrow> \<not> HadError t)"
proof -
  obtain s where s: "CodedOutputStream ops out = Some s" "cos_inv ok content window s" "written content s = content out"
    "ByteCount s = 0" "\<not> cos_had_error s" "room out \<le> available room s"
    using zero_copy_output.CodedOutputStream_ok [OF assms] by blast
  obtain t where t: "WriteRaw ops bs s = Some t" "cos_inv ok content window t"
    "appended content bs s t \<and> available room s \<le> available room t + length bs \<or>
     cos_had_error t \<and> available room s < length bs \<and> (\<exists>k. written content t = written content s @ take k bs)"
    using zero_copy_output.WriteRaw_ok [OF assms(1) s(2)] by blast
  obtain u where u: "Trim ops t = Some u" "cos_inv ok content window u" "content (cos_output u) = written content t"
    using zero_copy_output.Trim_ok [OF assms(1) t(2)] by blast
  have "\<exists>k. written content t = content out @ take k bs"
    using t(3) s(3) by (auto simp: appended_def intro: exI [of _ "length bs"])
  with s t u show ?thesis
    by (auto simp: appended_def HadError_def cos_inv_def [of _ _ _ u])
qed

text \<open>C32. A \<open>CodedOutputStream\<close> put on a stream, one write and the final \<open>Trim\<close>: the stream then holds
  what it held before and a prefix of the bytes, all of them unless the error flag is set, which
  happens only when the stream has too little room; the scratch space in the last buffer is given
  back.\<close>

theorem coded_output_session:
  assumes "zero_copy_output ops ok content window room" "ok out"
  shows "\<exists>s t u. CodedOutputStream ops out = Some s \<and> WriteRaw ops bs s = Some t \<and> Trim ops t = Some u \<and>
    ok (cos_output u) \<and> (\<exists>k. content (cos_output u) = content out @ take k bs) \<and>
    (\<not> HadError t \<longrightarrow> content (cos_output u) = content out @ bs \<and> ByteCount t = int (length bs)) \<and>
    (length bs \<le> room out \<longrightarrow> \<not> HadError t)"
  using write_session [OF assms] .

theorem coded_output_session_witness:
  "\<exists>s t u. CodedOutputStream array_output_ops (ArrayOutputStream (replicate 4 0) 3) = Some s \<and>
    WriteRaw array_output_ops [1, 2, 3, 4] s = Some t \<and> Trim array_output_ops t = Some u \<and>
    array_output_content (cos_output u) = [1, 2, 3, 4]"
proof -
  let ?a = "ArrayOutputStream (replicate 4 0) 3"
  have a: "array_output_inv ?a" "array_output_content ?a = []" "array_output_room ?a = 4"
    by (simp_all add: ArrayOutputStream_def array_output_inv_def array_output_content_def array_output_room_def
        INT_MAX_def Let_def)
  from coded_output_session [OF array_out.zero_copy_output_axioms a(1), of "[1, 2, 3, 4]"]
  show ?thesis by (auto simp: a)
qed

text \<open>C37. Through \<open>StringOutputStream\<close> and \<open>LazyStringOutputStream\<close> the string grows by exactly the
  bytes written, whatever capacities the standard library picks, up to 2^30 bytes in all.\<close>

theorem strings_receive_writes:
  assumes "string_policy grow" "length (str_data str) \<le> str_capacity str" "int (str_capacity str) \<le> INT_MAX"
    and "length (str_data str) + length bs \<le> 2 ^ 30"
  shows "(\<exists>s t u v. CodedOutputStream (string_output_ops grow) \<lparr>so_target = Some str\<rparr> = Some s \<and>
      WriteRaw (string_output_ops grow) bs s = Some t \<and> \<not> HadError t \<and> Trim (string_output_ops grow) t = Some u \<and>
      so_target (cos_output u) = Some v \<and> str_data v = str_data str @ bs) \<and>
    (str_data str = [] \<longrightarrow>
     (\<exists>s t u. CodedOutputStream (lazy_string_output_ops grow str) LazyStringOutputStream = Some s \<and>
      WriteRaw (lazy_string_output_ops grow str) bs s = Some t \<and> \<not> HadError t \<and>
      Trim (lazy_string_output_ops grow str) t = Some u \<and> lazy_string_content (cos_output u) = bs))"
proof -
  have ok: "string_output_inv \<lparr>so_target = Some str\<rparr>" "string_output_content \<lparr>so_target = Some str\<rparr> = str_data str"
    "length bs \<le> string_output_room \<lparr>so_target = Some str\<rparr>"
    using assms by (auto simp: string_output_inv_def string_output_content_def string_output_room_def INT_MAX_def)
  from write_session [OF string_output_contract [OF assms(1)] ok(1), of bs] ok(2,3) obtain s t u where
    "CodedOutputStream (string_output_ops grow) \<lparr>so_target = Some str\<rparr> = Some s"
    "WriteRaw (string_output_ops grow) bs s = Some t" "\<not> HadError t" "Trim (string_output_ops grow) t = Some u"
    "string_output_inv (cos_output u)" "string_output_content (cos_output u) = str_data str @ bs"
    by auto
  moreover have "\<exists>s t u. CodedOutputStream (lazy_string_output_ops grow str) LazyStringOutputStream = Some s \<and>
      WriteRaw (lazy_string_output_ops grow str) bs s = Some t \<and> \<not> HadError t \<and>
      Trim (lazy_string_output_ops grow str) t = Some u \<and> lazy_string_content (cos_output u) = bs"
    if "str_data str = []"
  proof -
    have "lazy_string_inv LazyStringOutputStream" "lazy_string_content LazyStringOutputStream = []"
      "length bs \<le> lazy_string_room LazyStringOutputStream"
      using assms(4) by (auto simp: LazyStringOutputStream_def lazy_string_inv_def lazy_string_content_def
          lazy_string_room_def string_output_content_def string_output_room_def INT_MAX_def)
    with write_session [OF lazy_string_contract [OF assms(1) that assms(3)], of LazyStringOutputStream bs]
    show ?thesis by auto
  qed
  ultimately show ?thesis
    by (auto simp: string_output_inv_def string_output_content_def)
qed

theorem strings_receive_writes_witness:
  "\<exists>s t u v. CodedOutputStream (string_output_ops exact_capacity) \<lparr>so_target = Some \<lparr>str_data = [7], str_capacity = 15\<rparr>\<rparr> = Some s \<and>
    WriteRaw (string_output_ops exact_capacity) [1, 2] s = Some t \<and> Trim (string_output_ops exact_capacity) t = Some u \<and>
    so_target (cos_output u) = Some v \<and> str_data v = [7, 1, 2]"
  using strings_receive_writes [of exact_capacity "\<lparr>str_data = [7], str_capacity = 15\<rparr>" "[1, 2]"]
  by (auto simp: string_policy_def exact_capacity_def INT_MAX_def)

section \<open>Streams made of streams\<close>

lemma parse_result:
  assumes "zero_copy_input ops ok rest last_chunk empties" "ok i" "int (length (rest i)) < kDefaultTotalBytesLimit" "ufs_wf us"
  shows "map_option (\<lambda>(ok, _, set). (ok, set)) (ParseFromZeroCopyStream ops i us) =
    Some (case wire_parse 100 (rest i) of Some (fs, End_Clean, _) \<Rightarrow> (True, ufs_of fs) | _ \<Rightarrow> (False, UnknownFieldSet))"
  using zero_copy_input.ParseFromZeroCopyStream_ok [OF assms] by (auto split: option.splits prod.splits wire_end.splits)

text \<open>C31. Parsing through a limiting stream parses the first bytes of its input, parsing through a
  concatenating stream the joined bytes of its streams.\<close>

theorem parse_through_combinators:
  assumes "zero_copy_input ops ok rest last_chunk empties" "ok i" "0 \<le> n"
    and "list_all ok is" "\<forall>j \<in> set is. in_bytecount ops j = 0"
    and "int (length (rest i)) < kDefaultTotalBytesLimit" "int (length (concat (map rest is))) < kDefaultTotalBytesLimit"
    and "ufs_wf us"
  shows "map_option (\<lambda>(ok, _, set). (ok, set)) (ParseFromZeroCopyStream (limiting_ops ops) (LimitingInputStream ops i n) us) =
      Some (case wire_parse 100 (take (nat n) (rest i)) of Some (fs, End_Clean, _) \<Rightarrow> (True, ufs_of fs) | _ \<Rightarrow> (False, UnknownFieldSet)) \<and>
    map_option (\<lambda>(ok, _, set). (ok, set)) (ParseFromZeroCopyStream (concatenating_ops ops) (ConcatenatingInputStream is) us) =
      Some (case wire_parse 100 (concat (map rest is)) of Some (fs, End_Clean, _) \<Rightarrow> (True, ufs_of fs) | _ \<Rightarrow> (False, UnknownFieldSet))"
proof -
  have l: "limiting_inv ok last_chunk (LimitingInputStream ops i n)"
    "limiting_rest rest (LimitingInputStream ops i n) = take (nat n) (rest i)"
    using assms(2,3) by (simp_all add: LimitingInputStream_def limiting_inv_def limiting_rest_def)
  have c: "concatenating_inv ops ok (ConcatenatingInputStream is)"
    "concatenating_rest rest (ConcatenatingInputStream is) = concat (map rest is)"
    using assms(4,5) by (auto simp: ConcatenatingInputStream_def concatenating_inv_def concatenating_rest_def
        list_all_iff dest: list.set_sel(2))
  show ?thesis
    using parse_result [OF zero_copy_input.limiting_contract [OF assms(1)] l(1) _ assms(8)]
      parse_result [OF zero_copy_input.concatenating_contract [OF assms(1)] c(1) _ assms(8)] assms(6,7)
    by (simp add: l(2) c(2))
qed

theorem parse_through_combinators_witness:
  "map_option (\<lambda>(ok, _, set). (ok, set)) (ParseFromZeroCopyStream (concatenating_ops array_input_ops)
     (ConcatenatingInputStream [ArrayInputStream [8] 1, ArrayInputStream [1, 16] 1, ArrayInputStream [2] 5]) None) =
   Some (True, ufs_of [Unknown_Varint 1 1, Unknown_Varint 2 2])"
proof -
  let ?is = "[ArrayInputStream [8] 1, ArrayInputStream [1, 16] 1, ArrayInputStream [2] 5]"
  have p: "wire_parse 100 [8, 1, 16, 2] = Some ([Unknown_Varint 1 1, Unknown_Varint 2 2], End_Clean, [])"
    by code_simp
  have "in_bytecount array_input_ops (ArrayInputStream bs k) = 0" for bs k
    by (simp add: ArrayInputStream_def array_input_ops_def ArrayInput_ByteCount_def Let_def)
  with parse_through_combinators [OF array_in.zero_copy_input_axioms, of "ArrayInputStream [] 1" 0 ?is None]
  show ?thesis
    by (simp add: array_input_start INT_MAX_def kDefaultTotalBytesLimit_def p)
qed

end
