(* ===== verification/Wire_Messages.thy ===== *)
theory Wire_Messages
  imports Skippers
begin

text \<open>
  Groups and embedded messages. The functions of \<open>wire_format_lite_inl.h\<close> work on any message class;
  what they rely on are the locales \<open>message_writing\<close> and \<open>message_reading\<close>: the cached size is the
  size of the encoding, the two serialisers write that encoding, and merging from a stream that holds
  it consumes it. Their clients are proved once from these contracts; a message type without fields of
  its own, whose content is an \<open>UnknownFieldSet\<close>, is a provider of both.
\<close>

section \<open>Writing messages\<close>

locale message_writing = zero_copy_output wops oinv0 content window room
  for wops :: "'o zc_output_ops" and oinv0 content window room +
  fixes mops :: "('s, 'o, 'm) message_ops"
    and valid :: "'m \<Rightarrow> bool"
    and enc :: "'m \<Rightarrow> bytes"
  assumes cached_size: "valid m \<Longrightarrow> msg_GetCachedSize mops m = int (length (enc m))"
    and byte_size: "valid m \<Longrightarrow> msg_ByteSizeLong mops m = length (enc m)"
    and size_int: "valid m \<Longrightarrow> int (length (enc m)) \<le> INT_MAX"
    and to_array: "valid m \<Longrightarrow> msg_SerializeToArray mops det m = enc m"
    and serialize: "valid m \<Longrightarrow> oinv s \<Longrightarrow> can_alias s \<Longrightarrow>
      emits (enc m) s (msg_SerializeWithCachedSizes mops m s)"
begin

abbreviation size_prefix :: "'m \<Rightarrow> bytes" where
  "size_prefix m \<equiv> WriteVarint32ToArray (of_nat (length (enc m)))"

lemma message_bytes:
  "valid m \<Longrightarrow> InternalWriteMessageToArray mops n m det =
     WriteTagToArray_field n WIRETYPE_LENGTH_DELIMITED @ WriteStringWithSizeToArray (enc m)"
  "valid m \<Longrightarrow> InternalWriteGroupToArray mops n m det =
     WriteTagToArray_field n WIRETYPE_START_GROUP @ enc m @ WriteTagToArray_field n WIRETYPE_END_GROUP"
  by (simp_all add: InternalWriteMessageToArray_def InternalWriteGroupToArray_def cached_size to_array
      WriteStringWithSizeToArray_def WriteStringToArray_def WriteRawToArray_def)

lemma message_sizes:
  assumes "valid m"
  shows "TagSize n TYPE_MESSAGE + MessageSize mops m = length (InternalWriteMessageToArray mops n m det)"
    and "TagSize n TYPE_GROUP + GroupSize mops m = length (InternalWriteGroupToArray mops n m det)"
  by (simp_all add: message_bytes assms MessageSize_def GroupSize_def byte_size TagSize_eq StringSize_eq [symmetric]
      StringSize_def)

lemma WriteMessage_emits:
  assumes "valid m" "oinv s" "can_alias s"
  shows "emits (InternalWriteMessageToArray mops n m det) s (WriteMessage mops wops n m s)"
  using assms unfolding message_bytes(1) [OF assms(1)] WriteMessage_def WriteStringWithSizeToArray_def
    WriteStringToArray_def WriteRawToArray_def cached_size [OF assms(1)] Let_def of_int_of_nat_eq
  by (intro emits_bind) (auto intro: WriteTag_field_emits coded_write_emits serialize)

lemma WriteGroup_emits:
  assumes "valid m" "oinv s" "can_alias s"
  shows "emits (InternalWriteGroupToArray mops n m det) s (WriteGroup mops wops n m s)"
  using assms unfolding message_bytes(2) [OF assms(1)] WriteGroup_def
  by (intro emits_bind) (auto intro: WriteTag_field_emits serialize)

text \<open>Serialising straight into the buffer.\<close>

lemma cos_Advance_0 [simp]: "cos_Advance 0 s = s"
  by (cases s) (simp add: cos_Advance_def option.map_ident)

lemma serialize_maybe_emits:
  assumes "valid m" "oinv s" "can_alias s"
  shows "emits (enc m) s (serialize_maybe_to_array mops wops dflt m (int (length (enc m))) s)"
proof (cases "cos_buffer_size s < int (length (enc m)) \<or> cos_buffer s = None")
  case True
  moreover have "enc m = []" if "\<not> cos_buffer_size s < int (length (enc m))" "cos_buffer s = None"
    using that assms(2) by (auto simp: cos_inv_def)
  ultimately have "serialize_maybe_to_array mops wops dflt m (int (length (enc m))) s = msg_SerializeWithCachedSizes mops m s"
    by (auto simp: serialize_maybe_to_array_def GetDirectBufferForNBytesAndAdvance_def)
  with serialize [OF assms] show ?thesis by simp
next
  case False
  then obtain p where p: "cos_buffer s = Some p" "int (length (enc m)) \<le> cos_buffer_size s" by auto
  have "serialize_maybe_to_array mops wops dflt m (int (length (enc m))) s = fast_store wops (enc m) s"
    using p to_array [OF assms(1)]
    by (cases "enc m = []")
      (simp_all add: serialize_maybe_to_array_def GetDirectBufferForNBytesAndAdvance_def fast_store_def cos_store_def cos_Advance_def)
  then show ?thesis
    using WriteRaw_fast [OF p(2)] WriteRaw_emits [OF assms(2)] by simp
qed

lemma MaybeToArray_emits:
  assumes "valid m" "oinv s" "can_alias s"
  shows "emits (InternalWriteMessageToArray mops n m det) s (WriteMessageMaybeToArray mops wops dflt n m s)"
    and "emits (InternalWriteGroupToArray mops n m det) s (WriteGroupMaybeToArray mops wops dflt n m s)"
  using assms unfolding message_bytes [OF assms(1)] WriteMessageMaybeToArray_def WriteGroupMaybeToArray_def
    WriteStringWithSizeToArray_def WriteStringToArray_def WriteRawToArray_def cached_size [OF assms(1)] Let_def of_int_of_nat_eq
  by (intro emits_bind; auto intro: WriteTag_field_emits coded_write_emits serialize_maybe_emits)+

end

section \<open>Reading messages\<close>

locale message_reading = zero_copy_input ops inv rest last_chunk empties
  for ops :: "'s zc_input_ops" and inv rest last_chunk empties +
  fixes mops :: "('s, 'o, 'm) message_ops"
    and valid :: "'m \<Rightarrow> bool"
    and enc :: "'m \<Rightarrow> bytes"
    and merged :: "'m \<Rightarrow> 'm \<Rightarrow> 'm"
    and fits :: "nat \<Rightarrow> 'm \<Rightarrow> bool"
  assumes enc_int: "valid m \<Longrightarrow> int (length (enc m)) \<le> INT_MAX"
    and merge_message: "valid m \<Longrightarrow> valid x \<Longrightarrow> cinv' s \<Longrightarrow> cview s = enc m \<Longrightarrow> msg_end cview s \<Longrightarrow>
      0 \<le> cis_recursion_budget s \<Longrightarrow> cis_recursion_budget s \<le> cis_recursion_limit s \<Longrightarrow>
      fits (nat (cis_recursion_budget s)) m \<Longrightarrow>
      \<exists>t k. msg_MergePartialFromCodedStream mops s x = Some (True, t, merged m x) \<and> cinv' t \<and> cview t = [] \<and>
        cstep k s t \<and> ConsumedEntireMessage t"
    and merge_group: "valid m \<Longrightarrow> valid x \<Longrightarrow> cinv' s \<Longrightarrow>
      cview s = enc m @ WriteTagToArray_field n WIRETYPE_END_GROUP @ r \<Longrightarrow> 0 < n \<Longrightarrow> n < 2 ^ 29 \<Longrightarrow>
      0 \<le> cis_recursion_budget s \<Longrightarrow> cis_recursion_budget s \<le> cis_recursion_limit s \<Longrightarrow>
      fits (nat (cis_recursion_budget s)) m \<Longrightarrow>
      \<exists>t. msg_MergePartialFromCodedStream mops s x = Some (True, t, merged m x) \<and> consumed s t r \<and>
        LastTagWas (MakeTag n WIRETYPE_END_GROUP) t"

lemma PopLimit_budget:
  "PopLimit l (s\<lparr>cis_recursion_budget := b\<rparr>) = (PopLimit l s)\<lparr>cis_recursion_budget := b\<rparr>"
  by (simp add: PopLimit_def RecomputeBufferLimits_def Let_def)

context message_reading
begin

lemma ReadMessage_ok:
  assumes m: "valid m" "valid x" "fits (nat (cis_recursion_budget s - 1)) m"
    and s: "cinv' s" "cview s = WriteStringWithSizeToArray (enc m) @ r"
    and budget: "0 < cis_recursion_budget s" "cis_recursion_budget s \<le> cis_recursion_limit s"
  shows "\<exists>t. ReadMessage mops ops s x = Some (True, t, merged m x) \<and> cinv' t \<and>
    cstep (length (WriteStringWithSizeToArray (enc m))) s t"
proof -
  let ?n = "length (enc m)"
  have body: "WriteStringWithSizeToArray (enc m) = WriteVarint32ToArray (of_nat ?n) @ enc m"
    by (simp add: WriteStringWithSizeToArray_def WriteStringToArray_def WriteRawToArray_def)
  obtain t1 where t1: "ReadVarintSizeAsInt ops s = Some (True, int ?n, t1)" "cinv' t1"
      "cstep (length (WriteVarint32ToArray (of_nat ?n))) s t1"
    using ReadVarintSizeAsInt_Write [OF s(1) _ enc_int [OF m(1)]] s(2) by (auto simp: body)
  have v1: "cview t1 = enc m @ r"
    using coded_step_view [OF t1(3) s(1)] s(2) by (simp add: body)
  obtain old t2 where p: "PushLimit (int ?n) t1 = (old, t2)" by fastforce
  note push = PushLimit_ok [OF t1(2) p]
  let ?t3 = "t2\<lparr>cis_recursion_budget := cis_recursion_budget t2 - 1\<rparr>"
  have v2: "cview t2 = enc m" using push(5) v1 by simp
  have lim: "cis_current_limit t2 = CurrentPosition t2 + int ?n"
    using PushLimit_exact [OF t1(2) p] v1 push(4) by simp
  have "int (length (cview t2)) \<le> closest_limit t2 - CurrentPosition t2"
    using coded_invD(8) [OF push(1)] by (simp add: view_def)
  then have ends: "msg_end cview ?t3"
    using lim v2 by (auto simp: msg_end_def closest_limit_def)
  have b2: "cis_recursion_budget t2 = cis_recursion_budget s" "cis_recursion_limit t2 = cis_recursion_limit s"
    using p t1(3) by (auto simp: PushLimit_def Let_def coded_step_def)
  obtain t k where t: "msg_MergePartialFromCodedStream mops ?t3 x = Some (True, t, merged m x)" "cinv' t" "cview t = []"
      "cstep k ?t3 t" "ConsumedEntireMessage t"
    using merge_message [OF m(1,2), of ?t3] ends m(3) budget push(1) v2 b2 by auto
  let ?t' = "t\<lparr>cis_recursion_budget := cis_recursion_budget t + 1\<rparr>"
  have t': "cinv' ?t'" "cstep k t2 ?t'" "cview ?t' = []"
    using t(2-4) by (auto simp: coded_step_def)
  have "k \<le> ?n"
    using coded_invD(8) [OF t'(1)] t'(2) lim by (simp add: coded_step_def closest_limit_def)
  moreover have "?n \<le> k"
    using coded_step_view [OF t'(2) push(1)] t'(3) v2 by simp
  ultimately have k: "k = ?n" by simp
  have "length (cview t1) \<le> length (cunread t1)"
    by (simp add: view_def)
  then have "?n \<le> length (cunread t1)"
    by (simp add: v1)
  note pop = PopLimit_after [OF t1(2) p t'(1,2) this [folded k]]
  have "ReadMessage mops ops s x = Some (True, PopLimit old ?t', merged m x)"
    using t1(1) p t(1,5) b2 budget
    by (simp add: ReadMessage_def IncrementRecursionDepthAndPushLimit_def DecrementRecursionDepthAndPopLimit_def
        PopLimit_budget Let_def) (simp add: PopLimit_def RecomputeBufferLimits_def Let_def)
  with pop coded_step_trans [OF t1(3) pop(2)] show ?thesis
    by (simp add: body k)
qed

lemma ReadGroup_ok:
  assumes m: "valid m" "valid x" "fits (nat (cis_recursion_budget s - 1)) m" "0 < n" "n < 2 ^ 29"
    and s: "cinv' s" "cview s = enc m @ WriteTagToArray_field n WIRETYPE_END_GROUP @ r"
    and budget: "0 < cis_recursion_budget s" "cis_recursion_budget s \<le> cis_recursion_limit s"
  shows "\<exists>t. ReadGroup mops n s x = Some (True, t, merged m x) \<and> consumed s t r"
proof -
  let ?s = "s\<lparr>cis_recursion_budget := cis_recursion_budget s - 1\<rparr>"
  obtain t where t: "msg_MergePartialFromCodedStream mops ?s x = Some (True, t, merged m x)" "consumed ?s t r"
      "LastTagWas (MakeTag n WIRETYPE_END_GROUP) t"
    using merge_group [OF m(1,2) _ _ m(4,5), of ?s r] m(3) s budget by auto
  then have "cis_recursion_budget t = cis_recursion_budget s - 1" "cis_recursion_limit t = cis_recursion_limit s"
    by (auto simp: consumed_def coded_step_def)
  with t(1,3) budget consumed_budget [OF t(2)] show ?thesis
    by (simp add: ReadGroup_def IncrementRecursionDepth_def DecrementRecursionDepth_def LastTagWas_end_group_def
        LastTagWas_def Let_def)
qed

end

section \<open>A message of unknown fields\<close>

text \<open>
  The message class without fields of its own: merging keeps every field as an unknown one, the
  serialisers write them back. It is the provider on which both contracts are interpreted.
\<close>

definition unknown_message ::
    "'s zc_input_ops \<Rightarrow> 'o zc_output_ops \<Rightarrow> ('s, 'o, unknown_field_set) message_ops" where
  "unknown_message ops wops = \<lparr>
     msg_MergePartialFromCodedStream = (\<lambda>s u. do {
       (ok, s, v) \<leftarrow> SkipMessage ops s (Some u);
       Some (ok, s, the v)
     }),
     msg_ByteSizeLong = ComputeUnknownFieldsSize,
     msg_GetCachedSize = (\<lambda>u. int (ComputeUnknownFieldsSize u)),
     msg_SerializeWithCachedSizes = SerializeUnknownFields wops,
     msg_SerializeToArray = (\<lambda>_. SerializeUnknownFieldsToArray)\<rparr>"

definition unknown_valid :: "unknown_field_set \<Rightarrow> bool" where
  "unknown_valid u \<longleftrightarrow> ufs_wf u \<and> int (length (SerializeUnknownFieldsToArray u)) \<le> INT_MAX"

definition unknown_merged :: "unknown_field_set \<Rightarrow> unknown_field_set \<Rightarrow> unknown_field_set" where
  "unknown_merged m x = ufs_of (ufs_fields x @ ufs_fields m)"

definition unknown_fits :: "nat \<Rightarrow> unknown_field_set \<Rightarrow> bool" where
  "unknown_fits d u \<longleftrightarrow> list_all (uf_encodable d) (ufs_fields u)"

lemma serialize_fields: "ufs_wf u \<Longrightarrow> SerializeUnknownFieldsToArray u = concat (map SerializeUnknownFieldToArray (ufs_fields u))"
  by (metis SerializeUnknownFieldsToArray_of ufs_of_fields)

context zero_copy_input
begin

lemma unknown_merge:
  assumes "unknown_valid x" "cinv' s" "0 \<le> cis_recursion_budget s" "cis_recursion_budget s \<le> cis_recursion_limit s"
    and "wire_parse (nat (cis_recursion_budget s)) (cview s) = Some (ufs_fields m, e, r)"
  shows "\<exists>t. msg_MergePartialFromCodedStream (unknown_message ops wops) s x = Some (True, t, unknown_merged m x) \<and>
    keeping.ended s t e r"
proof -
  have "ufs_of (ufs_fields x) = x"
    using assms(1) by (simp add: unknown_valid_def)
  then show ?thesis
    using keep_message_ok [OF assms(2) _ assms(3,4), of "Some x"] assms(5) fold_ufs_push [of "ufs_fields m" "ufs_fields x"]
    by (auto simp: unknown_message_def kept_def keep_simps unknown_merged_def)
qed

end

sublocale zero_copy_pair \<subseteq> unknown_reading: message_reading ops inv rest last_chunk empties
  "unknown_message ops wops" unknown_valid SerializeUnknownFieldsToArray unknown_merged unknown_fits
proof (unfold_locales, goal_cases)
  case (1 m)
  then show ?case by (simp add: unknown_valid_def)
next
  case (2 m x s)
  have "wire_parse (nat (cis_recursion_budget s)) (cview s) = Some (ufs_fields m, End_Clean, [])"
    using wire_parse_serialize [of "nat (cis_recursion_budget s)" "ufs_fields m" "[]"] 2
    by (simp add: unknown_fits_def serialize_fields unknown_valid_def wire_parse_cases(1) del: SerializeUnknownFieldsToArray_of)
  from unknown_merge [OF 2(2,3,6,7) this, of wops] 2(5) show ?case
    by (fastforce simp: keeping.ended_def)
next
  case (3 m x s n r)
  have "WIRETYPE_END_GROUP \<notin> range WIRETYPE_unnamed" by auto
  from wire_parse_tag(1) [OF this 3(5,6), of "nat (cis_recursion_budget s)" r]
  have "wire_parse (nat (cis_recursion_budget s)) (cview s) = Some (ufs_fields m, End_Group (MakeTag n WIRETYPE_END_GROUP), r)"
    using wire_parse_serialize [of "nat (cis_recursion_budget s)" "ufs_fields m" "WriteTagToArray_field n WIRETYPE_END_GROUP @ r"] 3
    by (auto simp: unknown_fits_def serialize_fields unknown_valid_def)
  from unknown_merge [OF 3(2,3,7,8) this, of wops] show ?case
    by (fastforce simp: keeping.ended_def LastTagWas_def)
qed

sublocale zero_copy_pair \<subseteq> unknown_writing: message_writing wops oinv0 content window room
  "unknown_message ops wops" unknown_valid SerializeUnknownFieldsToArray
  by unfold_locales
    (simp_all add: unknown_message_def unknown_valid_def ComputeUnknownFieldsSize_eq out.SerializeUnknownFields_emits)

interpretation array_messages: message_reading array_input_ops array_input_inv array_input_rest array_input_last "\<lambda>_. 0"
  "unknown_message array_input_ops array_output_ops" unknown_valid SerializeUnknownFieldsToArray unknown_merged unknown_fits
  by (rule array_pair.unknown_reading.message_reading_axioms)

end
