(* ===== verification/Message_Properties.thy ===== *)
theory Message_Properties
  imports Wire_Messages Example_Streams
begin

text \<open>
  The properties of groups and embedded messages, over any message class that keeps the contracts of
  theory \<open>Wire_Messages\<close>.
\<close>

text \<open>C4. An embedded message or a group written by the array writers and entered behind its start tag
  is read back by \<open>ReadMessage\<close> and \<open>ReadGroup\<close>: the fields are merged into the target, exactly its
  bytes are consumed, and the limits and the recursion budget are as before.\<close>

theorem message_roundtrip:
  assumes "message_reading ops ok rest last_chunk empties mops valid enc merged fits"
    and "message_writing wops ok' content window room mops valid enc"
    and "valid m" "valid x" "fits (nat (cis_recursion_budget s - 1)) m" "0 < n" "n < 2 ^ 29"
    and "coded_inv ok last_chunk s" "0 < cis_recursion_budget s" "cis_recursion_budget s \<le> cis_recursion_limit s"
  shows "(WriteTagToArray_field n WIRETYPE_LENGTH_DELIMITED @ view rest last_chunk s =
        InternalWriteMessageToArray mops n m det @ r \<longrightarrow>
      (\<exists>t. ReadMessage mops ops s x = Some (True, t, merged m x) \<and> view rest last_chunk t = r \<and>
         cis_current_limit t = cis_current_limit s \<and> cis_recursion_budget t = cis_recursion_budget s)) \<and>
    (WriteTagToArray_field n WIRETYPE_START_GROUP @ view rest last_chunk s =
        InternalWriteGroupToArray mops n m det @ r \<longrightarrow>
      (\<exists>t. ReadGroup mops n s x = Some (True, t, merged m x) \<and> view rest last_chunk t = r \<and>
         cis_current_limit t = cis_current_limit s \<and> cis_recursion_budget t = cis_recursion_budget s))"
proof -
  note R = message_reading.axioms(1) [OF assms(1)]
  note bytes = message_writing.message_bytes [OF assms(2,3), of n det]
  show ?thesis
    using message_reading.ReadMessage_ok [OF assms(1,3,4,5,8) _ assms(9,10), of r]
      message_reading.ReadGroup_ok [OF assms(1,3,4,5,6,7,8) _ assms(9,10), of r] coded_step_view [OF _ assms(8)]
    by (fastforce simp: bytes zero_copy_input.consumed_def [OF R] coded_step_def)
qed

theorem message_roundtrip_witness:
  "\<exists>t. ReadMessage (unknown_message array_input_ops array_output_ops) array_input_ops (CodedInputStream_flat [2, 8, 5, 7]) None =
    Some (True, t, ufs_of [Unknown_Varint 1 5]) \<and> view array_input_rest array_input_last t = [7]"
proof -
  let ?m = "ufs_of [Unknown_Varint 1 5]"
  have w: "SerializeUnknownFieldsToArray ?m = [8, 5]" "WriteTagToArray_field 1 WIRETYPE_LENGTH_DELIMITED = [10]"
      "InternalWriteMessageToArray (unknown_message array_input_ops array_output_ops) 1 ?m False = [10, 2, 8, 5]"
    by (code_simp, code_simp)
      (simp add: InternalWriteMessageToArray_def unknown_message_def, code_simp)
  have valid: "unknown_valid ?m" "unknown_valid None" "unknown_fits 99 ?m" "unknown_merged ?m None = ?m"
    using w(1) by (simp_all add: unknown_valid_def unknown_fits_def unknown_merged_def ufs_wf_of INT_MAX_def
        word_less_nat_alt ufs_fields_def [of None] del: SerializeUnknownFieldsToArray_of)
  have "int (length [2 :: uint8, 8, 5, 7]) \<le> kDefaultTotalBytesLimit"
    by (simp add: kDefaultTotalBytesLimit_def)
  note f = flat_stream [OF this]
  from message_roundtrip [OF array_pair.unknown_reading.message_reading_axioms
      array_pair.unknown_writing.message_writing_axioms valid(1,2) _ _ _ f(1), of 1 False "[7]"]
  show ?thesis
    by (auto simp: f w valid word_less_nat_alt)
qed

text \<open>C33. \<open>WriteMessage\<close> and \<open>WriteGroup\<close>, and their variants that serialise straight into the output
  buffer when the message fits, write the bytes of the array writers or set the error flag; the sizes
  announced in advance are exact.\<close>

theorem message_writers_agree:
  assumes "message_writing wops ok content window room mops valid enc" "valid m" "cos_inv ok content window s"
    and "cos_aliasing_enabled s \<longrightarrow> out_allows_aliasing wops"
  shows "(\<forall>w \<in> {WriteMessage mops wops n m s, WriteMessageMaybeToArray mops wops dflt n m s}. \<exists>t. w = Some t \<and>
      (\<not> HadError t \<longrightarrow> written content t = written content s @ InternalWriteMessageToArray mops n m det)) \<and>
    (\<forall>w \<in> {WriteGroup mops wops n m s, WriteGroupMaybeToArray mops wops dflt n m s}. \<exists>t. w = Some t \<and>
      (\<not> HadError t \<longrightarrow> written content t = written content s @ InternalWriteGroupToArray mops n m det)) \<and>
    TagSize n TYPE_MESSAGE + MessageSize mops m = length (InternalWriteMessageToArray mops n m det) \<and>
    TagSize n TYPE_GROUP + GroupSize mops m = length (InternalWriteGroupToArray mops n m det)"
proof -
  have W: "zero_copy_output.emits ok content window room bs s w \<Longrightarrow>
      \<exists>t. w = Some t \<and> (\<not> HadError t \<longrightarrow> written content t = written content s @ bs)" for bs w
    using zero_copy_output.emits_def [OF message_writing.axioms(1) [OF assms(1)]] by (auto simp: HadError_def appended_def)
  show ?thesis
    using message_writing.WriteMessage_emits [OF assms, of n det, THEN W] message_writing.WriteGroup_emits [OF assms, of n det, THEN W]
      message_writing.MaybeToArray_emits [OF assms, of n det dflt, THEN W] message_writing.message_sizes [OF assms(1,2), of n det]
    unfolding ball_simps by blast
qed

theorem message_writers_agree_witness:
  "\<exists>s t. CodedOutputStream array_output_ops (ArrayOutputStream (replicate 9 0) (- 1)) = Some s \<and>
    WriteMessageMaybeToArray (unknown_message array_input_ops array_output_ops) array_output_ops False 1
      (ufs_of [Unknown_Varint 1 5]) s = Some t \<and>
    (\<not> HadError t \<longrightarrow> written array_output_content t = [10, 2, 8, 5])"
proof -
  let ?m = "ufs_of [Unknown_Varint 1 5]"
  have w: "SerializeUnknownFieldsToArray ?m = [8, 5]"
      "InternalWriteMessageToArray (unknown_message array_input_ops array_output_ops) 1 ?m False = [10, 2, 8, 5]"
    by code_simp (simp add: InternalWriteMessageToArray_def unknown_message_def, code_simp)
  have valid: "unknown_valid ?m"
    using w(1) by (simp add: unknown_valid_def ufs_wf_of INT_MAX_def del: SerializeUnknownFieldsToArray_of)
  obtain s where s: "CodedOutputStream array_output_ops (ArrayOutputStream (replicate 9 0) (- 1)) = Some s"
    "cos_inv array_output_inv array_output_content array_output_window s" "written array_output_content s = []"
    "\<not> HadError s" "9 \<le> available array_output_room s" "\<not> cos_aliasing_enabled s"
    by (rule fresh_output [of 9]) (simp_all add: INT_MAX_def)
  from message_writers_agree [OF array_pair.unknown_writing.message_writing_axioms valid s(2), of 1 False False] s
  show ?thesis by (auto simp: w)
qed

text \<open>C34. The recursion limit holds for groups and embedded messages: with no budget left neither
  calls the message's parser; the target is unchanged and the result is failure.\<close>

theorem recursion_limit_enforced:
  assumes "zero_copy_input ops ok rest last_chunk empties" "coded_inv ok last_chunk s" "cis_recursion_budget s \<le> 0"
  shows "\<exists>t u v. ReadGroup mops n s x = Some (False, t, x) \<and> ReadMessage mops ops s x = Some (False, u, x) \<and>
    ReadGroupNoVirtual mops n s x = Some (False, v, x) \<and> ReadMessageNoVirtual mops ops s x = Some (False, u, x)"
proof -
  obtain b k u m where u: "ReadVarintSizeAsInt ops s = Some (b, k, u)" "coded_step rest last_chunk m s u"
  proof (cases "\<exists>ds r. varint_split 10 (view rest last_chunk s) = Some (ds, r) \<and> unat (of_nat (leb ds) :: uint64) \<le> 2147483647")
    case True
    then show ?thesis
      using zero_copy_input.ReadVarintSizeAsInt_ok(1) [OF assms(1,2)] that by blast
  next
    case False
    then show ?thesis
      using zero_copy_input.ReadVarintSizeAsInt_ok(2) [OF assms(1,2)] that by (metis not_None_eq surj_pair)
  qed
  have "cis_recursion_budget (snd (PushLimit k u)) = cis_recursion_budget u"
    by (simp add: PushLimit_def Let_def)
  then have "\<exists>t. ReadMessage mops ops s x = Some (False, t, x)"
    using u assms(3)
    by (cases "PushLimit k u") (auto simp: ReadMessage_def IncrementRecursionDepthAndPushLimit_def coded_step_def)
  moreover have "\<exists>t. ReadGroup mops n s x = Some (False, t, x)" "\<exists>t. ReadGroupNoVirtual mops n s x = Some (False, t, x)"
    using assms(3) by (simp_all add: ReadGroup_def ReadGroupNoVirtual_def IncrementRecursionDepth_def Let_def)
  ultimately show ?thesis by (auto simp: ReadMessageNoVirtual_def)
qed

lemma SetRecursionLimit_inv: "coded_inv valid last_chunk (SetRecursionLimit n s) = coded_inv valid last_chunk s"
  by (simp add: SetRecursionLimit_def coded_inv_def input_inv_def pending_def closest_limit_def BufferSize_def
      CurrentPosition_def cong: option.case_cong)

theorem recursion_limit_enforced_witness:
  "\<exists>u. ReadMessage (unknown_message array_input_ops array_output_ops) array_input_ops
     (SetRecursionLimit 0 (CodedInputStream_flat [2, 8, 5])) None = Some (False, u, None)"
proof -
  have "int (length [2 :: uint8, 8, 5]) \<le> kDefaultTotalBytesLimit"
    by (simp add: kDefaultTotalBytesLimit_def)
  note f = flat_stream [OF this]
  have "array_in.cinv' (SetRecursionLimit 0 (CodedInputStream_flat [2, 8, 5]))"
    "cis_recursion_budget (SetRecursionLimit 0 (CodedInputStream_flat [2, 8, 5] :: array_input coded_input)) \<le> 0"
    by (simp_all add: SetRecursionLimit_inv f) (simp add: SetRecursionLimit_def f)
  from recursion_limit_enforced [OF array_in.zero_copy_input_axioms this,
      of "unknown_message array_input_ops array_output_ops" 1 None] show ?thesis by blast
qed

end
