(* ===== verification/Utf8_Valid.thy ===== *)
theory Utf8_Valid
  imports Wire_Prelude
begin

text \<open>
  The UTF-8 check of \<open>stubs/structurally_valid.cc\<close>: the state tables, the scanners that run them and
  the functions built on the scanners, and \<open>VerifyUtf8String\<close> of \<open>wire_format_lite.cc\<close>.

  A string is the list of its bytes; a pointer into it is an offset. The scanners look at the address
  of the string (eight bytes are read at once where the pointer is aligned) and at the byte order of
  the machine (the eight bytes are read as two 32-bit words), so both are arguments: \<open>addr\<close> and \<open>be\<close>
  (big-endian). Nothing is assumed about them. A read outside of the string or a table is \<open>None\<close>.
\<close>

section \<open>Exit codes and tables\<close>

definition kExitIllegalStructure :: int where "kExitIllegalStructure = 240"
definition kExitOK :: int where "kExitOK = 241"
definition kExitReject :: int where "kExitReject = 242"
definition kExitDoAgain :: int where "kExitDoAgain = 253"

record RemapEntry =
  delete_bytes :: uint8
  add_bytes :: uint8
  bytes_offset :: "16 word"

record UTF8StateMachineObj =
  state0 :: uint32
  state0_size :: uint32
  total_size :: uint32
  max_expand :: int
  entry_shift :: nat
  bytes_per_entry :: int
  losub :: uint32
  hiadd :: uint32
  state_table :: bytes
  remap_base :: "RemapEntry list"
  remap_string :: bytes
  fast_state :: bytes

fun runs :: "(nat \<times> uint8) list \<Rightarrow> bytes" where
  \<comment> \<open>An initialiser given by its runs of equal entries.\<close>
  "runs [] = []"
| "runs ((n, v) # rs) = replicate n v @ runs rs"

abbreviation XX :: uint8 where "XX \<equiv> 240"
abbreviation RJ :: uint8 where "RJ \<equiv> 242"

definition utf8acceptnonsurrogates_runs :: "(nat \<times> uint8) list" where
  "utf8acceptnonsurrogates_runs =
     \<comment> \<open>state[0] byte 1\<close>
     [(0x80, 0), (0x42, XX), (0x1E, 1), (1, 2), (0xC, 3), (1, 7), (2, 3), (1, 4), (3, 5), (1, 6), (0xB, XX),
     \<comment> \<open>state[1] byte 2 of 2\<close>
      (0x80, XX), (0x40, 0), (0x40, XX),
     \<comment> \<open>state[2] byte 2 of 3, after 0xE0\<close>
      (0xA0, XX), (0x20, 1), (0x40, XX),
     \<comment> \<open>state[3] byte 2 of 3\<close>
      (0x80, XX), (0x40, 1), (0x40, XX),
     \<comment> \<open>state[4] byte 2 of 4, after 0xF0\<close>
      (0x90, XX), (0x30, 3), (0x40, XX),
     \<comment> \<open>state[5] byte 2 of 4\<close>
      (0x80, XX), (0x40, 3), (0x40, XX),
     \<comment> \<open>state[6] byte 2 of 4, after 0xF4\<close>
      (0x80, XX), (0x10, 3), (0x70, XX),
     \<comment> \<open>state[7] byte 2 of 3, after 0xED\<close>
      (0x80, XX), (0x20, 1), (0x20, 8), (0x40, XX),
     \<comment> \<open>state[8] byte 3 of 3, surrogates\<close>
      (0x80, XX), (0x40, RJ), (0x40, XX)]"

definition utf8acceptnonsurrogates :: bytes where
  "utf8acceptnonsurrogates = runs utf8acceptnonsurrogates_runs"

definition utf8acceptnonsurrogates_fast :: bytes where
  "utf8acceptnonsurrogates_fast = runs [(0x80, 0), (0x80, 1)]"

definition utf8acceptnonsurrogates_obj :: UTF8StateMachineObj where
  "utf8acceptnonsurrogates_obj = \<lparr>state0 = 0, state0_size = 256, total_size = 2304, max_expand = 0,
     entry_shift = 8, bytes_per_entry = 1, losub = 0x20202020, hiadd = 0x00000000,
     state_table = utf8acceptnonsurrogates,
     remap_base = [\<lparr>delete_bytes = 0, add_bytes = 0, bytes_offset = 0\<rparr>], remap_string = [0],
     fast_state = utf8acceptnonsurrogates_fast\<rparr>"

section \<open>The scanners\<close>

definition InStateZero :: "UTF8StateMachineObj \<Rightarrow> int \<Rightarrow> bool" where
  \<comment> \<open>\<open>Tbl\<close> is an offset into \<open>state_table\<close>; the difference is cast to \<open>uint32\<close>.\<close>
  "InStateZero st Tbl \<longleftrightarrow> (word_of_int (Tbl - uint (state0 st)) :: uint32) < state0_size st"

function scan_until_aligned :: "(uint8 \<Rightarrow> bool) \<Rightarrow> nat \<Rightarrow> bytes \<Rightarrow> nat \<Rightarrow> nat" where
  \<comment> \<open>\<open>while ((((uintptr_t)src & 0x07) != 0) && (src < srclimit) && ...) src++\<close>\<close>
  "scan_until_aligned good addr str src =
     (if (addr + src) mod 8 \<noteq> 0 \<and> src < length str \<and> good (str ! src)
      then scan_until_aligned good addr str (src + 1) else src)"
  by pat_completeness auto
termination by (relation "measure (\<lambda>(_, _, str, src). length str - src)") auto

definition load32 :: "bool \<Rightarrow> bytes \<Rightarrow> nat \<Rightarrow> uint32" where
  \<comment> \<open>\<open>*reinterpret_cast<const uint32*>(src)\<close>\<close>
  "load32 be str src =
     (let bs = map (\<lambda>i. ucast (str ! (src + i))) [0..<4];
          bs = (if be then rev bs else bs) in
      bs ! 0 OR push_bit 8 (bs ! 1) OR push_bit 16 (bs ! 2) OR push_bit 24 (bs ! 3))"

definition fast_or :: "UTF8StateMachineObj \<Rightarrow> bytes \<Rightarrow> nat \<Rightarrow> uint8 option" where
  \<comment> \<open>\<open>(Tbl2[src[0]] | Tbl2[src[1]]) | (Tbl2[src[2]] | Tbl2[src[3]])\<close>\<close>
  "fast_or st str src =
     (let Tbl2 = \<lambda>i. do { c \<leftarrow> byte_at str (int (src + i)); byte_at (fast_state st) (uint c) } in
      do { t0 \<leftarrow> Tbl2 0; t1 \<leftarrow> Tbl2 1; t2 \<leftarrow> Tbl2 2; t3 \<leftarrow> Tbl2 3; Some ((t0 OR t1) OR (t2 OR t3)) })"

function scan_groups_of_8 :: "UTF8StateMachineObj \<Rightarrow> bool \<Rightarrow> bytes \<Rightarrow> nat \<Rightarrow> nat option" where
  \<comment> \<open>The loop \<open>while (src < srclimit8)\<close>, with \<open>srclimit8 = srclimit - 7\<close>.\<close>
  "scan_groups_of_8 st be str src =
     (if src + 7 < length str then
        (let s0123 = load32 be str src; s4567 = load32 be str (src + 4);
             temp = (s0123 - losub st) OR (s0123 + hiadd st) OR (s4567 - losub st) OR (s4567 + hiadd st) in
         if temp AND 0x80808080 \<noteq> 0 then
           (case fast_or st str src of
              None \<Rightarrow> None
            | Some e0123 \<Rightarrow>
                if e0123 \<noteq> 0 then Some src
                else (case fast_or st str (src + 4) of
                        None \<Rightarrow> None
                      | Some e0123 \<Rightarrow> if e0123 \<noteq> 0 then Some (src + 4) else scan_groups_of_8 st be str (src + 8)))
         else scan_groups_of_8 st be str (src + 8))
      else Some src)"
  by pat_completeness auto
termination by (relation "measure (\<lambda>(_, _, str, src). length str - src)") auto

fun scan_bytes :: "UTF8StateMachineObj \<Rightarrow> bytes \<Rightarrow> nat \<Rightarrow> int \<Rightarrow> int \<Rightarrow> (nat \<times> int \<times> int) option" where
  \<comment> \<open>The byte-at-a-time loop over the rest of the string; the result is \<open>src\<close>, \<open>Tbl\<close> and \<open>e\<close>.\<close>
  "scan_bytes st [] src Tbl e = Some (src, Tbl, e)"
| "scan_bytes st (c # cs) src Tbl e = do {
     e \<leftarrow> byte_at (state_table st) (Tbl + uint c);
     let e = uint e; let src = src + 1;
     if e \<ge> kExitIllegalStructure then Some (src, Tbl, e)
     else scan_bytes st cs src (uint (state0 st) + e * 2 ^ entry_shift st) e
   }"

fun back_up :: "bytes \<Rightarrow> nat \<Rightarrow> nat option" where
  \<comment> \<open>\<open>do { src--; } while ((src > isrc) && ((src[0] & 0xc0) == 0x80))\<close>\<close>
  "back_up str 0 = None"
| "back_up str (Suc src) = do {
     c \<leftarrow> byte_at str (int src);
     if src > 0 \<and> c AND 0xC0 = 0x80 then back_up str src else Some src
   }"

definition scan_exit :: "UTF8StateMachineObj \<Rightarrow> bytes \<Rightarrow> nat \<times> int \<times> int \<Rightarrow> (int \<times> nat) option" where
  \<comment> \<open>The exit possibilities after the byte loop: the exit code and the final \<open>src\<close>.\<close>
  "scan_exit st str = (\<lambda>(src, Tbl, e).
     if e \<ge> kExitIllegalStructure then
       (let src = src - 1 in
        if \<not> InStateZero st Tbl then map_option (Pair e) (back_up str src) else Some (e, src))
     else if \<not> InStateZero st Tbl then map_option (Pair kExitIllegalStructure) (back_up str src)
     else Some (kExitOK, src))"

partial_function (option) generic_scan_from ::
    "UTF8StateMachineObj \<Rightarrow> nat \<Rightarrow> bool \<Rightarrow> bytes \<Rightarrow> nat \<Rightarrow> (int \<times> nat) option" where
  \<comment> \<open>From the label \<open>DoAgain\<close> on.\<close>
  "generic_scan_from st addr be str src = do {
     let src = scan_until_aligned (\<lambda>c. byte_at (fast_state st) (uint c) = Some 0) addr str src;
     src \<leftarrow> (if (addr + src) mod 8 = 0 then scan_groups_of_8 st be str src else Some src);
     r \<leftarrow> scan_bytes st (drop src str) src (uint (state0 st)) 0;
     (e, src) \<leftarrow> scan_exit st str r;
     if e = kExitDoAgain then generic_scan_from st addr be str src else Some (e, src)
   }"

definition UTF8GenericScan :: "UTF8StateMachineObj \<Rightarrow> nat \<Rightarrow> bool \<Rightarrow> bytes \<Rightarrow> (int \<times> int) option" where
  \<comment> \<open>The exit code and \<open>bytes_consumed\<close>.\<close>
  "UTF8GenericScan st addr be str =
     (if length str = 0 then Some (kExitOK, 0)
      else map_option (\<lambda>(e, src). (e, int src)) (generic_scan_from st addr be str 0))"

function scan_ascii_groups :: "bool \<Rightarrow> bytes \<Rightarrow> nat \<Rightarrow> nat" where
  \<comment> \<open>\<open>while ((src < srclimit8) && (((src32[0] | src32[1]) & 0x80808080) == 0)) src += 8\<close>\<close>
  "scan_ascii_groups be str src =
     (if src + 7 < length str \<and> (load32 be str src OR load32 be str (src + 4)) AND 0x80808080 = 0
      then scan_ascii_groups be str (src + 8) else src)"
  by pat_completeness auto
termination by (relation "measure (\<lambda>(_, str, src). length str - src)") auto

function scan_ascii :: "bytes \<Rightarrow> nat \<Rightarrow> nat" where
  \<comment> \<open>\<open>while ((src < srclimit) && (src[0] < 0x80)) src++\<close>\<close>
  "scan_ascii str src = (if src < length str \<and> str ! src < 0x80 then scan_ascii str (src + 1) else src)"
  by pat_completeness auto
termination by (relation "measure (\<lambda>(str, src). length str - src)") auto

declare scan_until_aligned.simps [simp del] scan_groups_of_8.simps [simp del] scan_ascii_groups.simps [simp del]
  scan_ascii.simps [simp del]

partial_function (option) fast_ascii_from ::
    "UTF8StateMachineObj \<Rightarrow> nat \<Rightarrow> bool \<Rightarrow> bytes \<Rightarrow> nat \<Rightarrow> (int \<times> int) option" where
  \<comment> \<open>The loop \<open>do ... while (exit_reason == kExitDoAgain)\<close>.\<close>
  "fast_ascii_from st addr be str src = do {
     let src = scan_until_aligned (\<lambda>c. c < 0x80) addr str src;
     let src = (if (addr + src) mod 8 = 0 then scan_ascii_groups be str src else src);
     let src = scan_ascii str src;
     (exit_reason, rest_consumed) \<leftarrow> UTF8GenericScan st (addr + src) be (drop src str);
     let src = src + nat rest_consumed;
     if exit_reason = kExitDoAgain then fast_ascii_from st addr be str src else Some (exit_reason, int src)
   }"

definition UTF8GenericScanFastAscii :: "UTF8StateMachineObj \<Rightarrow> nat \<Rightarrow> bool \<Rightarrow> bytes \<Rightarrow> (int \<times> int) option" where
  "UTF8GenericScanFastAscii st addr be str =
     (if length str = 0 then Some (kExitOK, 0) else fast_ascii_from st addr be str 0)"

section \<open>The interface\<close>

definition IsStructurallyValidUTF8 :: "bool \<Rightarrow> nat \<Rightarrow> bool \<Rightarrow> bytes \<Rightarrow> bool option" where
  \<comment> \<open>The first argument is \<open>module_initialized_\<close>.\<close>
  "IsStructurallyValidUTF8 module_initialized addr be buf =
     (if \<not> module_initialized then Some True
      else map_option (\<lambda>(_, bytes_consumed). bytes_consumed = int (length buf))
             (UTF8GenericScanFastAscii utf8acceptnonsurrogates_obj addr be buf))"

definition UTF8SpnStructurallyValid :: "bool \<Rightarrow> nat \<Rightarrow> bool \<Rightarrow> bytes \<Rightarrow> int option" where
  "UTF8SpnStructurallyValid module_initialized addr be str =
     (if \<not> module_initialized then Some (int (length str))
      else map_option snd (UTF8GenericScanFastAscii utf8acceptnonsurrogates_obj addr be str))"

partial_function (option) coerce_loop :: "bool \<Rightarrow> nat \<Rightarrow> bool \<Rightarrow> uint8 \<Rightarrow> bytes \<Rightarrow> nat \<Rightarrow> bytes \<Rightarrow> bytes option" where
  \<comment> \<open>The loop \<open>while (src < srclimit)\<close>; the last argument is what has been stored at \<open>idst\<close>.\<close>
  "coerce_loop mi addr be replace_char str src dst =
     (if src < length str then do {
        let dst = dst @ [replace_char]; let src = src + 1;
        n \<leftarrow> UTF8SpnStructurallyValid mi (addr + src) be (drop src str);
        let dst = dst @ take (nat n) (drop src str); let src = src + nat n;
        coerce_loop mi addr be replace_char str src dst
      }
      else Some dst)"

definition UTF8CoerceToStructurallyValid :: "bool \<Rightarrow> nat \<Rightarrow> bool \<Rightarrow> uint8 \<Rightarrow> bytes \<Rightarrow> bytes option" where
  \<comment> \<open>The string at the address returned: \<open>isrc\<close> itself or \<open>idst\<close>.\<close>
  "UTF8CoerceToStructurallyValid mi addr be replace_char src_str = do {
     n \<leftarrow> UTF8SpnStructurallyValid mi addr be src_str;
     if n = int (length src_str) then Some src_str
     else coerce_loop mi addr be replace_char src_str (nat n) (take (nat n) src_str)
   }"

datatype utf8_operation = PARSE | SERIALIZE

definition VerifyUtf8String ::
    "bool \<Rightarrow> nat \<Rightarrow> bool \<Rightarrow> bytes \<Rightarrow> utf8_operation \<Rightarrow> string option \<Rightarrow> (bool \<times> string option) option" where
  \<comment> \<open>The result and the message logged.\<close>
  "VerifyUtf8String mi addr be data op field_name = do {
     ok \<leftarrow> IsStructurallyValidUTF8 mi addr be data;
     if \<not> ok then
       (let operation_str = (case op of PARSE \<Rightarrow> ''parsing'' | SERIALIZE \<Rightarrow> ''serializing'');
            quoted_field_name = (case field_name of None \<Rightarrow> '''' | Some f \<Rightarrow> '' '' @ [CHR 0x27] @ f @ [CHR 0x27]) in
        Some (False, Some (''String field'' @ quoted_field_name @ '' contains invalid UTF-8 data when '' @
          operation_str @ '' a protocol buffer. Use the '' @ [CHR 0x27] @ ''bytes'' @ [CHR 0x27] @
          '' type if you intend to send raw bytes. '')))
     else Some (True, None)
   }"

end
