(* ===== verification/Utf8_Lemmas.thy ===== *)
theory Utf8_Lemmas
  imports Utf8_Valid
begin

text \<open>
  What the UTF-8 check computes. The specification is the encoding: \<open>utf8_encode\<close> gives the bytes of
  a Unicode scalar value, and a string is valid if it is a sequence of encodings. The table is read
  as the transition function \<open>utf8_next\<close>; \<open>utf8_char\<close> runs it over one character, \<open>utf8_span\<close> over as
  many as there are. The scanners compute \<open>utf8_span\<close> whatever the address and the byte order.
\<close>

section \<open>The encoding\<close>

definition scalar_value :: "nat \<Rightarrow> bool" where
  "scalar_value c \<longleftrightarrow> c < 0xD800 \<or> 0xE000 \<le> c \<and> c < 0x110000"

definition utf8_encode :: "nat \<Rightarrow> bytes" where
  "utf8_encode c =
     (if c < 0x80 then [of_nat c]
      else if c < 0x800 then [of_nat (0xC0 + c div 64), of_nat (0x80 + c mod 64)]
      else if c < 0x10000 then
        [of_nat (0xE0 + c div 4096), of_nat (0x80 + c div 64 mod 64), of_nat (0x80 + c mod 64)]
      else [of_nat (0xF0 + c div 262144), of_nat (0x80 + c div 4096 mod 64),
            of_nat (0x80 + c div 64 mod 64), of_nat (0x80 + c mod 64)])"

definition utf8_valid :: "bytes \<Rightarrow> bool" where
  "utf8_valid bs \<longleftrightarrow> (\<exists>cs. list_all scalar_value cs \<and> bs = concat (map utf8_encode cs))"

section \<open>The table as a transition function\<close>

fun runs_at :: "nat \<Rightarrow> (nat \<times> uint8) list \<Rightarrow> nat \<Rightarrow> uint8 option" where
  \<comment> \<open>The entry at index \<open>k\<close>; the runs start at index \<open>b\<close>.\<close>
  "runs_at b [] k = None"
| "runs_at b ((n, v) # rs) k = (if k < b + n then Some v else runs_at (b + n) rs k)"

lemma runs_at_nth: "b \<le> k \<Longrightarrow> runs_at b rs k = (if k - b < length (runs rs) then Some (runs rs ! (k - b)) else None)"
  by (induction b rs k rule: runs_at.induct) (auto simp: nth_append)

lemma byte_at_runs: "byte_at (runs rs) (int k) = runs_at 0 rs k"
  by (simp add: byte_at_def runs_at_nth)

definition utf8_next :: "nat \<Rightarrow> uint8 \<Rightarrow> uint8" where
  "utf8_next s c =
     (let u = unat c in
      if s = 0 then
        (if u < 0x80 then 0 else if u < 0xC2 then XX else if u < 0xE0 then 1 else if u < 0xE1 then 2
         else if u < 0xED then 3 else if u < 0xEE then 7 else if u < 0xF0 then 3 else if u < 0xF1 then 4
         else if u < 0xF4 then 5 else if u < 0xF5 then 6 else XX)
      else if u < 0x80 \<or> 0xC0 \<le> u then XX
      else if s = 1 then 0
      else if s = 2 then (if 0xA0 \<le> u then 1 else XX)
      else if s = 3 then 1
      else if s = 4 then (if 0x90 \<le> u then 3 else XX)
      else if s = 5 then 3
      else if s = 6 then (if u < 0x90 then 3 else XX)
      else if s = 7 then (if u < 0xA0 then 1 else 8)
      else RJ)"

lemma less_9: "s < (9 :: nat) \<Longrightarrow> s \<in> {0, 1, 2, 3, 4, 5, 6, 7, 8}"
  by auto

lemma utf8_table:
  assumes "s < 9"
  shows "byte_at (state_table utf8acceptnonsurrogates_obj) (256 * int s + uint c) = Some (utf8_next s c)"
proof -
  note simps = utf8acceptnonsurrogates_runs_def utf8_next_def Let_def if_distrib [of Some]
  have "runs_at 0 utf8acceptnonsurrogates_runs (256 * s + unat c) = Some (utf8_next s c)"
    using less_9 [OF assms] unat_less_256 [of c] by (elim insertE emptyE; simp add: simps)
  moreover have "256 * int s + uint c = int (256 * s + unat c)"
    by simp
  ultimately show ?thesis
    by (simp only: utf8acceptnonsurrogates_obj_def UTF8StateMachineObj.simps utf8acceptnonsurrogates_def byte_at_runs)
qed

lemma utf8_fast: "byte_at (fast_state utf8acceptnonsurrogates_obj) (uint c) = Some (if unat c < 0x80 then 0 else 1)" for c :: uint8
proof -
  have "byte_at (runs [(0x80, 0), (0x80, 1)]) (int (unat c)) = Some (if unat c < 0x80 then 0 else 1)"
    using unat_less_256 [of c] unfolding byte_at_runs by auto
  then show ?thesis
    by (simp add: utf8acceptnonsurrogates_obj_def utf8acceptnonsurrogates_fast_def)
qed

definition cont :: "uint8 \<Rightarrow> bool" where
  "cont b \<longleftrightarrow> 0x80 \<le> unat b \<and> unat b < 0xC0"

lemma cont_iff: "b AND 0xC0 = 0x80 \<longleftrightarrow> cont b"
proof -
  have "list_all (\<lambda>n. ((of_nat n :: uint8) AND 0xC0 = 0x80) = (128 \<le> n \<and> n < 192)) [0..<256]"
    by code_simp
  then have "((of_nat (unat b) :: uint8) AND 0xC0 = 0x80) = (128 \<le> unat b \<and> unat b < 192)"
    using unat_less_256 [of b] by (simp only: list_all_iff set_upt atLeastLessThan_iff zero_le simp_thms)
  then show ?thesis
    by (simp add: cont_def)
qed

lemma utf8_next_less: "s < 9 \<Longrightarrow> unat (utf8_next s c) < 240 \<Longrightarrow> unat (utf8_next s c) < 9"
  by (auto simp: utf8_next_def Let_def split: if_splits)

lemma utf8_next_cont:
  "0 < s \<Longrightarrow> unat (utf8_next s c) < 240 \<Longrightarrow> cont c"
  "utf8_next 0 c \<noteq> 0 \<Longrightarrow> unat (utf8_next 0 c) < 240 \<Longrightarrow> \<not> cont c"
  by (auto simp: utf8_next_def cont_def Let_def split: if_splits)

lemma utf8_next_exit: "240 \<le> unat (utf8_next s c) \<Longrightarrow> utf8_next s c = XX \<or> utf8_next s c = RJ"
  by (auto simp: utf8_next_def Let_def split: if_splits)

lemma InStateZero_iff: "s < 9 \<Longrightarrow> InStateZero utf8acceptnonsurrogates_obj (256 * int s) \<longleftrightarrow> s = 0"
  using less_9 [of s] by (auto simp: InStateZero_def utf8acceptnonsurrogates_obj_def)

section \<open>Running the table over one character\<close>

fun utf8_char :: "nat \<Rightarrow> bytes \<Rightarrow> nat option" where
  \<comment> \<open>The number of bytes to get from state \<open>s\<close> back to state 0.\<close>
  "utf8_char s [] = None"
| "utf8_char s (c # cs) =
     (let e = unat (utf8_next s c) in
      if 240 \<le> e then None else if e = 0 then Some 1 else map_option Suc (utf8_char e cs))"

lemma utf8_char_le: "utf8_char s bs = Some n \<Longrightarrow> 0 < n \<and> n \<le> length bs"
  by (induction s bs arbitrary: n rule: utf8_char.induct) (auto simp: Let_def split: if_splits)

lemma utf8_char_append: "utf8_char s bs = Some n \<Longrightarrow> utf8_char s (bs @ r) = Some n"
  by (induction s bs arbitrary: n rule: utf8_char.induct) (auto simp: Let_def split: if_splits)

lemma utf8_char_take: "utf8_char s bs = Some n \<Longrightarrow> utf8_char s (take n bs) = Some n"
  by (induction s bs arbitrary: n rule: utf8_char.induct) (auto simp: Let_def split: if_splits)

function utf8_span :: "bytes \<Rightarrow> nat" where
  "utf8_span bs = (case utf8_char 0 bs of None \<Rightarrow> 0 | Some n \<Rightarrow> n + utf8_span (drop n bs))"
  by pat_completeness auto
termination
  by (relation "measure length") (auto dest: utf8_char_le)

declare utf8_span.simps [simp del]

lemma utf8_span_le: "utf8_span bs \<le> length bs"
proof (induction bs rule: utf8_span.induct)
  case (1 bs)
  then show ?case
    by (subst utf8_span.simps) (fastforce dest: utf8_char_le split: option.splits)
qed

section \<open>The byte loop computes the span\<close>

abbreviation "utf8_obj \<equiv> utf8acceptnonsurrogates_obj"

lemma uint_unat_le: "240 \<le> uint x \<longleftrightarrow> 240 \<le> unat x" for x :: uint8
proof -
  have "int (unat x) = uint x" by simp
  then show ?thesis by linarith
qed

lemma byte_at_mid: "byte_at (xs @ d # ys) (int (length xs)) = Some d"
  by (simp add: byte_at_def)

lemma scan_bytes_step:
  assumes "s < 9"
  shows "scan_bytes utf8_obj (c # cs) src (256 * int s) e =
    (if 240 \<le> unat (utf8_next s c) then Some (src + 1, 256 * int s, uint (utf8_next s c))
     else scan_bytes utf8_obj cs (src + 1) (256 * uint (utf8_next s c)) (uint (utf8_next s c)))"
proof -
  have "uint (state0 utf8_obj) + x * 2 ^ entry_shift utf8_obj = 256 * x" for x
    by (simp add: utf8acceptnonsurrogates_obj_def)
  then show ?thesis
    unfolding scan_bytes.simps utf8_table [OF assms] bind.bind_lunit Let_def kExitIllegalStructure_def uint_unat_le by simp
qed

declare scan_bytes.simps(2) [simp del]

lemma back_up_char:
  assumes "\<not> cont l" "list_all cont ds"
  shows "back_up (pre @ (l # ds) @ post) (length pre + Suc (length ds)) = Some (length pre)"
  using assms(2)
proof (induction ds arbitrary: post rule: rev_induct)
  case Nil
  then show ?case
    using assms(1) by (simp add: byte_at_def nth_append cont_iff)
next
  case (snoc d ds)
  then have "back_up (pre @ (l # ds) @ d # post) (length pre + Suc (length ds)) = Some (length pre)"
    by simp
  moreover have "byte_at (pre @ (l # ds @ [d]) @ post) (int (length pre + Suc (length ds))) = Some d"
    using byte_at_mid [of "pre @ l # ds" d post] by simp
  ultimately show ?case
    using snoc.prems by (simp add: cont_iff)
qed

lemma scan_exit_pending:
  assumes "0 < s" "s < 9" "\<not> cont l" "list_all cont ds"
  shows "240 \<le> e \<Longrightarrow> scan_exit utf8_obj (pre @ (l # ds) @ post) (length pre + Suc (length ds) + 1, 256 * int s, e) =
      Some (e, length pre)"
    and "e < 240 \<Longrightarrow> scan_exit utf8_obj (pre @ (l # ds) @ post) (length pre + Suc (length ds), 256 * int s, e) =
      Some (kExitIllegalStructure, length pre)"
  using InStateZero_iff [OF assms(2)] assms(1) back_up_char [OF assms(3,4), of pre post]
  by (simp_all add: scan_exit_def kExitIllegalStructure_def Let_def)

lemma scan_char:
  assumes "0 < s" "s < 9" "\<not> cont l" "list_all cont ds" "e < 240"
  shows "case utf8_char s bs of
      None \<Rightarrow> \<exists>r e'. scan_bytes utf8_obj bs (length pre + Suc (length ds)) (256 * int s) e = Some r \<and>
        scan_exit utf8_obj (pre @ (l # ds) @ bs) r = Some (e', length pre) \<and> (e' = kExitIllegalStructure \<or> e' = kExitReject)
    | Some n \<Rightarrow> scan_bytes utf8_obj bs (length pre + Suc (length ds)) (256 * int s) e =
        scan_bytes utf8_obj (drop n bs) (length pre + Suc (length ds) + n) 0 0"
  using assms
proof (induction bs arbitrary: s ds e)
  case Nil
  then show ?case
    using scan_exit_pending(2) [of s l ds e pre "[]"] by simp
next
  case (Cons c cs)
  let ?e = "unat (utf8_next s c)" and ?u = "uint (utf8_next s c)"
  note step = scan_bytes_step [OF Cons.prems(2), of c cs _ e]
  consider (bad) "240 \<le> ?e" | (home) "?e = 0" | (more) "0 < ?e" "?e < 240" by linarith
  then show ?case
  proof cases
    case bad
    then have "?u = kExitIllegalStructure \<or> ?u = kExitReject"
      using utf8_next_exit [OF bad] by (auto simp: kExitIllegalStructure_def kExitReject_def)
    with bad scan_exit_pending(1) [OF Cons.prems(1-4), of ?u pre "c # cs"] show ?thesis
      by (auto simp: step uint_unat_le)
  next
    case home
    then have "utf8_next s c = 0"
      by (simp only: unsigned_eq_0_iff)
    then show ?thesis by (simp add: step)
  next
    case more
    have "list_all cont (ds @ [c])" "?e < 9" "?u < 240"
      using Cons.prems(1,2,4) more utf8_next_cont(1) utf8_next_less uint_unat_le [of "utf8_next s c"] by auto
    from Cons.IH [OF more(1) this(2) Cons.prems(3) this(1,3)] more show ?thesis
      by (auto simp: step split: option.splits)
  qed
qed

lemma scan_string:
  assumes "e < 240"
  shows "\<exists>r e'. scan_bytes utf8_obj bs (length pre) 0 e = Some r \<and>
    scan_exit utf8_obj (pre @ bs) r = Some (e', length pre + utf8_span bs) \<and>
    (if utf8_span bs = length bs then e' = kExitOK else e' = kExitIllegalStructure \<or> e' = kExitReject)"
  using assms
proof (induction "length bs" arbitrary: pre bs e rule: less_induct)
  case less
  have zero: "InStateZero utf8_obj 0"
    using InStateZero_iff [of 0] by simp
  show ?case
  proof (cases bs)
    case Nil
    then show ?thesis
      using zero less.prems by (simp add: utf8_span.simps [of "[]"] scan_exit_def kExitIllegalStructure_def)
  next
    case (Cons c cs)
    let ?e = "unat (utf8_next 0 c)" and ?u = "uint (utf8_next 0 c)"
    note step = scan_bytes_step [of 0 c cs "length pre" e, simplified]
    consider (bad) "240 \<le> ?e" | (one) "?e = 0" | (more) "0 < ?e" "?e < 240" by linarith
    then show ?thesis
    proof cases
      case bad
      then have "?u = kExitIllegalStructure \<or> ?u = kExitReject"
        using utf8_next_exit [OF bad] by (auto simp: kExitIllegalStructure_def kExitReject_def)
      with bad zero Cons show ?thesis
        by (simp add: step utf8_span.simps [of "c # cs"] scan_exit_def kExitIllegalStructure_def uint_unat_le)
    next
      case one
      then have "utf8_next 0 c = 0"
        by (simp only: unsigned_eq_0_iff)
      moreover from one have "utf8_span bs = 1 + utf8_span cs"
        by (simp add: Cons utf8_span.simps [of "c # cs"])
      ultimately show ?thesis
        using less.hyps [of cs 0 "pre @ [c]"] by (simp add: Cons step)
    next
      case more
      have "utf8_next 0 c \<noteq> 0"
        using more(1) by (metis unsigned_eq_0_iff less_irrefl)
      then have "\<not> cont c"
        using more(2) by (rule utf8_next_cont(2))
      then have e: "?e < 9" "\<not> cont c" "?u < 240"
        using more utf8_next_less [of 0 c] uint_unat_le [of "utf8_next 0 c"] by auto
      note char = scan_char [OF more(1) e(1,2) _ e(3), of "[]" cs pre]
      show ?thesis
      proof (cases "utf8_char ?e cs")
        case None
        then have "utf8_span bs = 0"
          using more by (simp add: Cons utf8_span.simps [of "c # cs"])
        with char None more show ?thesis
          by (auto simp: Cons step)
      next
        case (Some n)
        then have n: "utf8_span bs = Suc n + utf8_span (drop n cs)" "n \<le> length cs"
          using more utf8_char_le [OF Some] by (simp_all add: Cons utf8_span.simps [of "c # cs"])
        from n less.hyps [of "drop n cs" 0 "pre @ c # take n cs"] obtain r e' where r:
            "scan_bytes utf8_obj (drop n cs) (Suc (length pre + n)) 0 0 = Some r"
            "scan_exit utf8_obj (pre @ c # cs) r = Some (e', length pre + utf8_span bs)"
            "if utf8_span bs = length bs then e' = kExitOK else e' = kExitIllegalStructure \<or> e' = kExitReject"
          by (fastforce simp: Cons add.assoc)
        moreover have "scan_bytes utf8_obj bs (length pre) 0 e = scan_bytes utf8_obj (drop n cs) (Suc (length pre + n)) 0 0"
          using char Some more by (simp add: Cons step)
        ultimately show ?thesis
          by (simp add: Cons)
      qed
    qed
  qed
qed

section \<open>The fast loops skip ASCII only\<close>

definition ascii_between :: "bytes \<Rightarrow> nat \<Rightarrow> nat \<Rightarrow> bool" where
  "ascii_between str p q \<longleftrightarrow> p \<le> q \<and> q \<le> length str \<and> (\<forall>i. p \<le> i \<and> i < q \<longrightarrow> unat (str ! i) < 128)"

lemma ascii_between_refl: "p \<le> length str \<Longrightarrow> ascii_between str p p"
  by (simp add: ascii_between_def)

lemma ascii_between_trans: "ascii_between str p q \<Longrightarrow> ascii_between str q r \<Longrightarrow> ascii_between str p r"
  by (auto simp: ascii_between_def) (meson not_le)

lemma ascii_between_step:
  "p + n \<le> length str \<Longrightarrow> \<forall>i < n. unat (str ! (p + i)) < 128 \<Longrightarrow> ascii_between str p (p + n)"
  by (auto simp: ascii_between_def dest: le_Suc_ex)

lemma utf8_span_ascii:
  assumes "ascii_between str p q"
  shows "utf8_span (drop p str) = q - p + utf8_span (drop q str)"
  using assms
proof (induction "q - p" arbitrary: p)
  case (Suc k)
  then have p: "p < q" "q \<le> length str" "unat (str ! p) < 128" and next_ok: "ascii_between str (Suc p) q"
    by (auto simp: ascii_between_def)
  then have d: "drop p str = str ! p # drop (Suc p) str"
    by (simp add: Cons_nth_drop_Suc)
  have "utf8_char 0 (drop p str) = Some 1"
    using p(3) by (simp add: d utf8_next_def Let_def)
  then have "utf8_span (drop p str) = Suc (utf8_span (drop (Suc p) str))"
    by (subst utf8_span.simps) (simp add: drop_drop)
  moreover have "utf8_span (drop (Suc p) str) = q - Suc p + utf8_span (drop q str)"
    using Suc.hyps(1) [OF _ next_ok] Suc.hyps(2) by simp
  ultimately show ?case using p(1) by simp
qed (simp add: ascii_between_def)

lemma byte_less_128_unat: "b < 0x80 \<longleftrightarrow> unat b < 128" for b :: uint8
  by (simp add: word_less_nat_alt)

lemma scan_until_aligned_ok:
  assumes "src \<le> length str" "\<And>c. good c \<Longrightarrow> unat c < 128"
  shows "ascii_between str src (scan_until_aligned good addr str src)"
  using assms
proof (induction good addr str src rule: scan_until_aligned.induct)
  case (1 good addr str src)
  show ?case
  proof (cases "(addr + src) mod 8 \<noteq> 0 \<and> src < length str \<and> good (str ! src)")
    case True
    then have "ascii_between str (src + 1) (scan_until_aligned good addr str (src + 1))"
      using 1 by simp
    moreover have "ascii_between str src (src + 1)"
      using True 1(3) by (intro ascii_between_step) auto
    ultimately show ?thesis
      using True ascii_between_trans by (subst scan_until_aligned.simps) auto
  next
    case False
    then show ?thesis
      using 1(2) by (subst scan_until_aligned.simps) (auto intro: ascii_between_refl)
  qed
qed

lemma scan_ascii_ok: "src \<le> length str \<Longrightarrow> ascii_between str src (scan_ascii str src)"
proof (induction str src rule: scan_ascii.induct)
  case (1 str src)
  show ?case
  proof (cases "src < length str \<and> str ! src < 0x80")
    case True
    then have "ascii_between str (src + 1) (scan_ascii str (src + 1))" "ascii_between str src (src + 1)"
      using 1 by (simp, intro ascii_between_step) (auto simp: byte_less_128_unat)
    with True show ?thesis
      using ascii_between_trans by (subst scan_ascii.simps) auto
  next
    case False
    then show ?thesis
      using 1(2) by (subst scan_ascii.simps) (auto intro: ascii_between_refl)
  qed
qed

text \<open>Four bytes at once: the mask selects the top bit of each.\<close>

lemma mask_bits: "bit (0x80808080 :: uint32) n \<longleftrightarrow> n \<in> {7, 15, 23, 31}"
proof (cases "n < 32")
  case True
  have "list_all (\<lambda>n. bit (0x80808080 :: uint32) n = (n = 7 \<or> n = 15 \<or> n = 23 \<or> n = 31)) [0..<32]"
    by code_simp
  with True show ?thesis
    by (simp only: list_all_iff set_upt atLeastLessThan_iff zero_le simp_thms insert_iff empty_iff)
next
  case False
  then show ?thesis
    using bit_imp_le_length [of "0x80808080 :: uint32" n] by auto
qed

lemma and_mask_zero: "x AND 0x80808080 = 0 \<longleftrightarrow> \<not> bit x 7 \<and> \<not> bit x 15 \<and> \<not> bit x 23 \<and> \<not> bit x 31" for x :: uint32
proof -
  have "x AND m = 0 \<longleftrightarrow> (\<forall>n. \<not> (bit x n \<and> bit m n))" for m
    using bit_imp_le_length [of x] by (fastforce simp: bit_eq_iff bit_and_iff)
  from this [of "0x80808080"] show ?thesis
    unfolding mask_bits by auto
qed

lemma bit_7_iff: "bit b 7 \<longleftrightarrow> \<not> unat b < 128" for b :: uint8
  using and_128_iff [of b] and_exp_eq_0_iff_not_bit [of b 7] by simp

lemma load32_ascii:
  "load32 be str p AND 0x80808080 = 0 \<longleftrightarrow> (\<forall>i < 4. unat (str ! (p + i)) < 128)"
proof -
  have bits: "bit (b0 OR push_bit 8 b1 OR push_bit 16 b2 OR push_bit 24 b3) 7 = bit a0 7"
    "bit (b0 OR push_bit 8 b1 OR push_bit 16 b2 OR push_bit 24 b3) 15 = bit a1 7"
    "bit (b0 OR push_bit 8 b1 OR push_bit 16 b2 OR push_bit 24 b3) 23 = bit a2 7"
    "bit (b0 OR push_bit 8 b1 OR push_bit 16 b2 OR push_bit 24 b3) 31 = bit a3 7"
    if "b0 = ucast a0" "b1 = ucast a1" "b2 = ucast a2" "b3 = ucast a3" for b0 b1 b2 b3 :: uint32 and a0 a1 a2 a3 :: uint8
    unfolding that using bit_imp_le_length [of a0] bit_imp_le_length [of a1] bit_imp_le_length [of a2] bit_imp_le_length [of a3]
    by (fastforce simp: bit_simps)+
  have four: "(\<forall>i < 4. P i) \<longleftrightarrow> P 0 \<and> P 1 \<and> P 2 \<and> P (3 :: nat)" for P
    by (auto simp: less_Suc_eq eval_nat_numeral)
  have "[0..<4] = [0, 1, 2, 3 :: nat]" by (simp add: upt_rec)
  then show ?thesis
    unfolding load32_def Let_def and_mask_zero four by (auto simp: bits bit_7_iff)
qed

lemma or_and_zero: "(x OR y) AND m = 0 \<longleftrightarrow> x AND m = 0 \<and> y AND m = 0" for x y m :: uint32
  by (auto simp: bit_eq_iff bit_simps)

lemma eight_ascii:
  assumes "p + 7 < length str" "load32 be str p AND 0x80808080 = 0" "load32 be str (p + 4) AND 0x80808080 = 0"
  shows "ascii_between str p (p + 8)"
proof (rule ascii_between_trans [of _ _ "p + 4"])
  show "ascii_between str p (p + 4)"
    using assms by (intro ascii_between_step) (simp_all add: load32_ascii)
  have "ascii_between str (p + 4) (p + 4 + 4)"
    using assms by (intro ascii_between_step) (simp_all add: load32_ascii)
  then show "ascii_between str (p + 4) (p + 8)" by (simp add: add.commute)
qed

lemma scan_ascii_groups_ok: "src \<le> length str \<Longrightarrow> ascii_between str src (scan_ascii_groups be str src)"
proof (induction be str src rule: scan_ascii_groups.induct)
  case (1 be str src)
  show ?case
  proof (cases "src + 7 < length str \<and> (load32 be str src OR load32 be str (src + 4)) AND 0x80808080 = 0")
    case True
    then have "ascii_between str src (src + 8)" "ascii_between str (src + 8) (scan_ascii_groups be str (src + 8))"
      using 1 eight_ascii [of src str be] by (simp_all only: or_and_zero) simp_all
    then show ?thesis
      unfolding scan_ascii_groups.simps [of be str src] using True ascii_between_trans by (simp only: simp_thms if_True)
  next
    case False
    then show ?thesis
      using 1(2) by (subst scan_ascii_groups.simps) (auto intro: ascii_between_refl)
  qed
qed

lemma fast_or_ok:
  assumes "p + 3 < length str"
  shows "\<exists>t. fast_or utf8_obj str p = Some t \<and> (t = 0 \<longrightarrow> ascii_between str p (p + 4))"
proof -
  have four: "(\<forall>i < 4. P i) \<longleftrightarrow> P 0 \<and> P 1 \<and> P 2 \<and> P (3 :: nat)" for P
    by (auto simp: less_Suc_eq eval_nat_numeral)
  have at: "byte_at str (int (p + 0)) = Some (str ! (p + 0))" "byte_at str (int (p + 1)) = Some (str ! (p + 1))"
    "byte_at str (int (p + 2)) = Some (str ! (p + 2))" "byte_at str (int (p + 3)) = Some (str ! (p + 3))"
    using assms by (simp_all add: byte_at_def nat_add_distrib)
  have zero: "(if unat c < 0x80 then 0 else 1 :: uint8) = 0 \<longleftrightarrow> unat c < 128" for c :: uint8
    by simp
  have or_zero: "x OR y = 0 \<longleftrightarrow> x = 0 \<and> y = 0" for x y :: uint8
    by (auto simp: bit_eq_iff bit_simps)
  let ?t = "\<lambda>i. if unat (str ! (p + i)) < 0x80 then 0 else 1 :: uint8"
  have "fast_or utf8_obj str p = Some ((?t 0 OR ?t 1) OR (?t 2 OR ?t 3))"
    unfolding fast_or_def Let_def by (simp only: at utf8_fast bind.bind_lunit)
  moreover have "(?t 0 OR ?t 1) OR (?t 2 OR ?t 3) = 0 \<longrightarrow> ascii_between str p (p + 4)"
    unfolding or_zero zero using assms ascii_between_step [of p 4 str] by (auto simp: four)
  ultimately show ?thesis by blast
qed

lemma scan_groups_of_8_ok:
  "src \<le> length str \<Longrightarrow> \<exists>q. scan_groups_of_8 utf8_obj be str src = Some q \<and> ascii_between str src q"
proof (induction "length str - src" arbitrary: src rule: less_induct)
  case less
  show ?case
  proof (cases "src + 7 < length str")
    case False
    then show ?thesis
      using less.prems by (subst scan_groups_of_8.simps) (auto intro: ascii_between_refl)
  next
    case True
    let ?s0 = "load32 be str src" and ?s4 = "load32 be str (src + 4)"
    let ?temp = "(?s0 - losub utf8_obj) OR (?s0 + hiadd utf8_obj) OR (?s4 - losub utf8_obj) OR (?s4 + hiadd utf8_obj)"
    obtain t0 where t0: "fast_or utf8_obj str src = Some t0" "t0 = 0 \<longrightarrow> ascii_between str src (src + 4)"
      using fast_or_ok [of src str] True by auto
    obtain t4 where t4: "fast_or utf8_obj str (src + 4) = Some t4" "t4 = 0 \<longrightarrow> ascii_between str (src + 4) (src + 8)"
      using fast_or_ok [of "src + 4" str] True by (auto simp: add.commute)
    have "length str - (src + 8) < length str - src" "src + 8 \<le> length str"
      using True by arith+
    from less.hyps [OF this] obtain q where
      q: "scan_groups_of_8 utf8_obj be str (src + 8) = Some q" "ascii_between str (src + 8) q" by blast
    have quick: "?temp AND 0x80808080 = 0 \<Longrightarrow> ascii_between str src (src + 8)"
      using eight_ascii [OF True, of be] by (simp only: or_and_zero utf8acceptnonsurrogates_obj_def UTF8StateMachineObj.simps add_0_right)
    have step: "scan_groups_of_8 utf8_obj be str src =
        (if ?temp AND 0x80808080 \<noteq> 0 then
           if t0 \<noteq> 0 then Some src else if t4 \<noteq> 0 then Some (src + 4) else Some q
         else Some q)"
      by (subst scan_groups_of_8.simps) (simp only: True t0(1) t4(1) q(1) Let_def if_True option.case)
    show ?thesis
      unfolding step using less.prems quick t0(2) t4(2) q(2)
      by (auto intro: ascii_between_refl ascii_between_trans)
  qed
qed

section \<open>The scanners compute the span\<close>

definition utf8_exit :: "bytes \<Rightarrow> int \<Rightarrow> bool" where
  "utf8_exit bs e \<longleftrightarrow> (if utf8_span bs = length bs then e = kExitOK else e = kExitIllegalStructure \<or> e = kExitReject)"

lemma utf8_exit_again: "utf8_exit bs e \<Longrightarrow> e \<noteq> kExitDoAgain"
  by (auto simp: utf8_exit_def kExitDoAgain_def kExitOK_def kExitIllegalStructure_def kExitReject_def split: if_splits)

lemma UTF8GenericScan_ok:
  "\<exists>e. UTF8GenericScan utf8_obj addr be str = Some (e, int (utf8_span str)) \<and> utf8_exit str e"
proof (cases "str = []")
  case True
  then show ?thesis
    by (simp add: UTF8GenericScan_def utf8_exit_def utf8_span.simps [of "[]"])
next
  case False
  define a where "a = scan_until_aligned (\<lambda>c. byte_at (fast_state utf8_obj) (uint c) = Some 0) addr str 0"
  have "ascii_between str 0 a"
    unfolding a_def by (rule scan_until_aligned_ok) (simp_all add: utf8_fast split: if_splits)
  moreover from this have "a \<le> length str" by (simp add: ascii_between_def)
  then obtain q where q: "(if (addr + a) mod 8 = 0 then scan_groups_of_8 utf8_obj be str a else Some a) = Some q"
      "ascii_between str a q"
    using scan_groups_of_8_ok [of a str be] ascii_between_refl [of a str] by (cases "(addr + a) mod 8 = 0") auto
  ultimately have asc: "ascii_between str 0 q"
    using ascii_between_trans by blast
  then have span: "utf8_span str = q + utf8_span (drop q str)" and qle: "q \<le> length str"
    using utf8_span_ascii [OF asc] by (simp_all add: ascii_between_def)
  obtain r e where r: "scan_bytes utf8_obj (drop q str) q 0 0 = Some r" "scan_exit utf8_obj str r = Some (e, utf8_span str)"
      "if utf8_span (drop q str) = length (drop q str) then e = kExitOK else e = kExitIllegalStructure \<or> e = kExitReject"
    using scan_string [of 0 "drop q str" "take q str"] span qle by auto
  then have e: "utf8_exit str e"
    using span qle by (auto simp: utf8_exit_def split: if_splits)
  have "uint (state0 utf8_obj) = 0" by (simp add: utf8acceptnonsurrogates_obj_def)
  then have "generic_scan_from utf8_obj addr be str 0 = Some (e, utf8_span str)"
    using q(1) r(1,2) utf8_exit_again [OF e] by (subst generic_scan_from.simps) (simp add: Let_def flip: a_def)
  with False e show ?thesis
    by (simp add: UTF8GenericScan_def)
qed

lemma UTF8GenericScanFastAscii_ok:
  "\<exists>e. UTF8GenericScanFastAscii utf8_obj addr be str = Some (e, int (utf8_span str)) \<and> utf8_exit str e"
proof (cases "str = []")
  case True
  then show ?thesis
    by (simp add: UTF8GenericScanFastAscii_def utf8_exit_def utf8_span.simps [of "[]"])
next
  case False
  define a where "a = scan_until_aligned (\<lambda>c. c < 0x80) addr str 0"
  define b where "b = (if (addr + a) mod 8 = 0 then scan_ascii_groups be str a else a)"
  define q where "q = scan_ascii str b"
  have "ascii_between str 0 a"
    unfolding a_def by (rule scan_until_aligned_ok) (simp_all add: byte_less_128_unat)
  moreover from this have "ascii_between str a b"
    using scan_ascii_groups_ok [of a str be] ascii_between_refl [of a str] by (simp add: b_def ascii_between_def [of str 0 a])
  ultimately have b: "ascii_between str 0 b" by (rule ascii_between_trans)
  then have "ascii_between str b q"
    using scan_ascii_ok [of b str] by (simp add: q_def ascii_between_def [of str 0 b])
  with b have q: "ascii_between str 0 q" by (rule ascii_between_trans)
  then have span: "utf8_span str = q + utf8_span (drop q str)" and qle: "q \<le> length str"
    using utf8_span_ascii [OF q] by (simp_all add: ascii_between_def)
  obtain e where e: "UTF8GenericScan utf8_obj (addr + q) be (drop q str) = Some (e, int (utf8_span (drop q str)))"
      "utf8_exit (drop q str) e"
    using UTF8GenericScan_ok by blast
  have "fast_ascii_from utf8_obj addr be str 0 = Some (e, int (utf8_span str))"
    using e utf8_exit_again [OF e(2)] span
    by (subst fast_ascii_from.simps) (simp add: Let_def flip: a_def b_def q_def)
  moreover have "utf8_exit str e"
    using e(2) span qle by (auto simp: utf8_exit_def split: if_splits)
  ultimately show ?thesis
    using False by (simp add: UTF8GenericScanFastAscii_def)
qed

lemma UTF8SpnStructurallyValid_ok [simp]:
  "UTF8SpnStructurallyValid True addr be str = Some (int (utf8_span str))"
  using UTF8GenericScanFastAscii_ok [of addr be str] by (auto simp: UTF8SpnStructurallyValid_def)

lemma IsStructurallyValidUTF8_ok [simp]:
  "IsStructurallyValidUTF8 True addr be str = Some (utf8_span str = length str)"
  using UTF8GenericScanFastAscii_ok [of addr be str] by (auto simp: IsStructurallyValidUTF8_def)

end
