(* ===== verification/Utf8_Encoding.thy ===== *)
theory Utf8_Encoding
  imports Utf8_Lemmas
begin

text \<open>
  The characters the table accepts are the encodings of the scalar values: \<open>utf8_char_encode\<close> reads
  an encoding back, \<open>utf8_char_decode\<close> finds the value behind an accepted character. So the span
  the scanners compute is the longest valid prefix, and \<open>coerce_loop\<close> repairs a string byte by byte.
\<close>

section \<open>The bytes of an encoding\<close>

lemma of_nat_byte [simp]: "k < 256 \<Longrightarrow> unat (of_nat k :: uint8) = k"
  by (simp add: unat_of_nat take_bit_nat_eq_self)

lemma unat_numeral_plus [simp]: "numeral k + x < 256 \<Longrightarrow> unat (numeral k + of_nat x :: uint8) = numeral k + x"
  using of_nat_byte [of "numeral k + x"] by simp

lemma split_64:
  fixes c :: nat
  obtains x y where "c = 64 * x + y" "y < 64" "c div 64 = x" "c mod 64 = y"
  by (metis mod_less_divisor mult_div_mod_eq zero_less_numeral)

lemma div_4096: "c div 4096 = c div 64 div 64" and div_262144: "c div 262144 = c div 64 div 64 div 64" for c :: nat
  by (simp_all flip: div_mult2_eq)

lemma utf8_encode_nested:
  "x < 0x80 \<Longrightarrow> utf8_encode x = [of_nat x]"
  "2 \<le> x \<Longrightarrow> x < 32 \<Longrightarrow> y < 64 \<Longrightarrow> utf8_encode (64 * x + y) = [of_nat (0xC0 + x), of_nat (0x80 + y)]"
  "0x800 \<le> 64 * (64 * x + y) + z \<Longrightarrow> x < 16 \<Longrightarrow> y < 64 \<Longrightarrow> z < 64 \<Longrightarrow>
     utf8_encode (64 * (64 * x + y) + z) = [of_nat (0xE0 + x), of_nat (0x80 + y), of_nat (0x80 + z)]"
  "0x10000 \<le> 64 * (64 * (64 * w + x) + y) + z \<Longrightarrow> x < 64 \<Longrightarrow> y < 64 \<Longrightarrow> z < 64 \<Longrightarrow>
     utf8_encode (64 * (64 * (64 * w + x) + y) + z) =
       [of_nat (0xF0 + w), of_nat (0x80 + x), of_nat (0x80 + y), of_nat (0x80 + z)]"
proof -
  have split: "(64 * m + k) div 64 = m" "(64 * m + k) mod 64 = k" if "k < 64" for m k :: nat
    using that by simp_all
  show "utf8_encode x = [of_nat x]" if "x < 0x80"
    using that by (simp add: utf8_encode_def)
  show "utf8_encode (64 * x + y) = [of_nat (0xC0 + x), of_nat (0x80 + y)]" if c: "2 \<le> x" "x < 32" "y < 64"
  proof -
    have "\<not> 64 * x + y < 0x80" "64 * x + y < 0x800" using c by linarith+
    then show ?thesis
      by (simp only: utf8_encode_def split [OF c(3)] if_True if_False)
  qed
  show "utf8_encode (64 * (64 * x + y) + z) = [of_nat (0xE0 + x), of_nat (0x80 + y), of_nat (0x80 + z)]"
    if c: "0x800 \<le> 64 * (64 * x + y) + z" "x < 16" "y < 64" "z < 64"
  proof -
    let ?c = "64 * (64 * x + y) + z"
    have "\<not> ?c < 0x80" "\<not> ?c < 0x800" "?c < 0x10000" using c by simp_all
    then show ?thesis
      by (simp only: utf8_encode_def div_4096 split [OF c(4)] split [OF c(3)] if_True if_False)
  qed
  show "utf8_encode (64 * (64 * (64 * w + x) + y) + z) =
       [of_nat (0xF0 + w), of_nat (0x80 + x), of_nat (0x80 + y), of_nat (0x80 + z)]"
    if c: "0x10000 \<le> 64 * (64 * (64 * w + x) + y) + z" "x < 64" "y < 64" "z < 64"
  proof -
    let ?c = "64 * (64 * (64 * w + x) + y) + z"
    have "\<not> ?c < 0x80" "\<not> ?c < 0x800" "\<not> ?c < 0x10000" using c by linarith+
    then show ?thesis
      by (simp only: utf8_encode_def div_262144 div_4096 split [OF c(4)] split [OF c(3)] split [OF c(2)] if_False)
  qed
qed

lemma utf8_char_encode:
  assumes "scalar_value c"
  shows "utf8_char 0 (utf8_encode c @ r) = Some (length (utf8_encode c))"
proof -
  obtain p z where p: "c = 64 * p + z" "z < 64" by (rule split_64)
  obtain q y where q: "p = 64 * q + y" "y < 64" by (rule split_64)
  obtain w x where w: "q = 64 * w + x" "x < 64" by (rule split_64)
  consider (one) "c < 0x80" | (two) "0x80 \<le> c" "c < 0x800" | (three) "0x800 \<le> c" "c < 0x10000" | (four) "0x10000 \<le> c"
    by linarith
  then show ?thesis
  proof cases
    case one
    then show ?thesis by (simp add: utf8_encode_def utf8_next_def Let_def)
  next
    case two
    with p have "2 \<le> p" "p < 32" by linarith+
    with p show ?thesis by (simp add: utf8_encode_nested utf8_next_def Let_def)
  next
    case three
    with p q assms have "q < 16" "q = 0 \<longrightarrow> 32 \<le> y" "q = 13 \<longrightarrow> y < 32"
      by (auto simp: scalar_value_def)
    moreover have "utf8_encode c = [of_nat (0xE0 + q), of_nat (0x80 + y), of_nat (0x80 + z)]"
      using three calculation(1) p(2) q(2) unfolding p(1) q(1) by (intro utf8_encode_nested)
    ultimately show ?thesis
      using p(2) q(2) by (auto simp: utf8_next_def Let_def)
  next
    case four
    with p q w assms have "w < 5" "w = 0 \<longrightarrow> 16 \<le> x" "w = 4 \<longrightarrow> x < 16"
      by (auto simp: scalar_value_def)
    moreover have "utf8_encode c = [of_nat (0xF0 + w), of_nat (0x80 + x), of_nat (0x80 + y), of_nat (0x80 + z)]"
      using four p(2) q(2) w(2) unfolding p(1) q(1) w(1) by (intro utf8_encode_nested)
    ultimately show ?thesis
      using p(2) q(2) w(2) by (auto simp: utf8_next_def Let_def)
  qed
qed

section \<open>The value of an accepted character\<close>

lemma byte_value: "\<exists>k < 256. b = of_nat k \<and> unat b = k" for b :: uint8
  by (intro exI [of _ "unat b"]) (simp add: unat_less_256)

lemma cont_value: "cont b \<Longrightarrow> \<exists>y < 64. b = of_nat (0x80 + y) \<and> unat b = 0x80 + y"
  using byte_value [of b] by (intro exI [of _ "unat b - 0x80"]) (auto simp: cont_def)

lemma utf8_char_step:
  assumes "utf8_char s bs = Some n"
  obtains c cs where "bs = c # cs" "utf8_next s c = 0" "n = 1"
    | c cs m where "bs = c # cs" "utf8_next s c \<noteq> 0" "unat (utf8_next s c) < 240"
        "utf8_char (unat (utf8_next s c)) cs = Some m" "n = Suc m"
  using assms by (cases bs) (auto simp: Let_def unat_eq_zero split: if_splits)

lemma utf8_char_surrogate [simp]: "utf8_char 8 bs = None"
  by (cases bs) (auto simp: utf8_next_def Let_def)

lemma utf8_char_tail1:
  assumes "utf8_char 1 bs = Some n"
  shows "n = 1 \<and> (\<exists>z < 64. take 1 bs = [of_nat (0x80 + z)])"
  using assms
proof (cases rule: utf8_char_step)
  case (1 c cs)
  then have "cont c" using utf8_next_cont(1) [of 1 c] by simp
  with 1 cont_value [of c] show ?thesis by auto
next
  case (2 c cs m)
  then show ?thesis by (auto simp: utf8_next_def Let_def split: if_splits)
qed

lemma utf8_char_tail2:
  assumes "utf8_char s bs = Some n" "s \<in> {2, 3, 7}"
  shows "n = 2 \<and> (\<exists>y z. y < 64 \<and> z < 64 \<and> (s = 2 \<longrightarrow> 32 \<le> y) \<and> (s = 7 \<longrightarrow> y < 32) \<and>
           take 2 bs = [of_nat (0x80 + y), of_nat (0x80 + z)])"
  using assms(1)
proof (cases rule: utf8_char_step)
  case (1 c cs)
  with assms(2) show ?thesis by (auto simp: utf8_next_def Let_def split: if_splits)
next
  case (2 c cs m)
  then have "cont c" using utf8_next_cont(1) [of s c] assms(2) by auto
  then obtain y where y: "y < 64" "c = of_nat (0x80 + y)" "unat c = 0x80 + y" using cont_value by blast
  have "utf8_next s c = 1 \<and> (s = 2 \<longrightarrow> 32 \<le> y) \<and> (s = 7 \<longrightarrow> y < 32)"
    using 2 assms(2) y(1,3) by (auto simp: utf8_next_def Let_def split: if_splits)
  with 2 y show ?thesis using utf8_char_tail1 [of cs m] by auto
qed

lemma utf8_char_tail3:
  assumes "utf8_char s bs = Some n" "s \<in> {4, 5, 6}"
  shows "n = 3 \<and> (\<exists>x y z. x < 64 \<and> y < 64 \<and> z < 64 \<and> (s = 4 \<longrightarrow> 16 \<le> x) \<and> (s = 6 \<longrightarrow> x < 16) \<and>
           take 3 bs = [of_nat (0x80 + x), of_nat (0x80 + y), of_nat (0x80 + z)])"
  using assms(1)
proof (cases rule: utf8_char_step)
  case (1 c cs)
  with assms(2) show ?thesis by (auto simp: utf8_next_def Let_def split: if_splits)
next
  case (2 c cs m)
  then have "cont c" using utf8_next_cont(1) [of s c] assms(2) by auto
  then obtain x where x: "x < 64" "c = of_nat (0x80 + x)" "unat c = 0x80 + x" using cont_value by blast
  have "utf8_next s c = 3 \<and> (s = 4 \<longrightarrow> 16 \<le> x) \<and> (s = 6 \<longrightarrow> x < 16)"
    using 2 assms(2) x(1,3) by (auto simp: utf8_next_def Let_def split: if_splits)
  moreover from this 2 obtain y z where "m = 2" "y < 64" "z < 64" "take 2 cs = [of_nat (0x80 + y), of_nat (0x80 + z)]"
    using utf8_char_tail2 [of 3 cs m] by auto
  ultimately show ?thesis using 2 x by (auto simp: numeral_3_eq_3 numeral_2_eq_2)
qed

lemma utf8_lead:
  assumes "utf8_next 0 c \<noteq> 0" "unat (utf8_next 0 c) < 240"
  obtains (two) "utf8_next 0 c = 1" "0xC2 \<le> unat c" "unat c < 0xE0"
    | (three) s where "unat (utf8_next 0 c) = s" "s \<in> {2, 3, 7}" "0xE0 \<le> unat c" "unat c < 0xF0"
        "unat c = 0xE0 \<longrightarrow> s = 2" "unat c = 0xED \<longrightarrow> s = 7"
    | (four) s where "unat (utf8_next 0 c) = s" "s \<in> {4, 5, 6}" "0xF0 \<le> unat c" "unat c < 0xF5"
        "unat c = 0xF0 \<longrightarrow> s = 4" "unat c = 0xF4 \<longrightarrow> s = 6"
proof -
  note simps = utf8_next_def Let_def
  consider "unat c < 0xC2" | "0xC2 \<le> unat c" "unat c < 0xE0" | "unat c = 0xE0" | "0xE1 \<le> unat c" "unat c < 0xED"
    | "unat c = 0xED" | "0xEE \<le> unat c" "unat c < 0xF0" | "unat c = 0xF0" | "0xF1 \<le> unat c" "unat c < 0xF4"
    | "unat c = 0xF4" | "0xF5 \<le> unat c"
    by linarith
  then show thesis
  proof cases
    case 1 then show ?thesis using assms by (simp add: simps split: if_splits)
  next
    case 2 then show ?thesis using two by (simp add: simps)
  next
    case 3 then show ?thesis using three [of 2] by (simp add: simps)
  next
    case 4 then show ?thesis using three [of 3] by (simp add: simps)
  next
    case 5 then show ?thesis using three [of 7] by (simp add: simps)
  next
    case 6 then show ?thesis using three [of 3] by (simp add: simps)
  next
    case 7 then show ?thesis using four [of 4] by (simp add: simps)
  next
    case 8 then show ?thesis using four [of 5] by (simp add: simps)
  next
    case 9 then show ?thesis using four [of 6] by (simp add: simps)
  next
    case 10 then show ?thesis using assms by (simp add: simps)
  qed
qed

lemma scalar_value_nested:
  fixes w x y z :: nat
  assumes "x < 64" "y < 64" "z < 64"
  shows "x < 16 \<Longrightarrow> x = 0 \<longrightarrow> 32 \<le> y \<Longrightarrow> x = 13 \<longrightarrow> y < 32 \<Longrightarrow>
      0x800 \<le> 64 * (64 * x + y) + z \<and> scalar_value (64 * (64 * x + y) + z)"
    and "w < 5 \<Longrightarrow> w = 0 \<longrightarrow> 16 \<le> x \<Longrightarrow> w = 4 \<longrightarrow> x < 16 \<Longrightarrow>
      0x10000 \<le> 64 * (64 * (64 * w + x) + y) + z \<and> scalar_value (64 * (64 * (64 * w + x) + y) + z)"
proof -
  assume x: "x < 16" "x = 0 \<longrightarrow> 32 \<le> y" "x = 13 \<longrightarrow> y < 32"
  consider "x = 0" "32 \<le> y" | "1 \<le> x" "x \<le> 12" | "x = 13" "y < 32" | "14 \<le> x"
    using x by linarith
  then show "0x800 \<le> 64 * (64 * x + y) + z \<and> scalar_value (64 * (64 * x + y) + z)"
    using assms x(1) by cases (simp_all add: scalar_value_def)
next
  assume w: "w < 5" "w = 0 \<longrightarrow> 16 \<le> x" "w = 4 \<longrightarrow> x < 16"
  consider "w = 0" "16 \<le> x" | "1 \<le> w" "w \<le> 3" | "w = 4" "x < 16"
    using w by linarith
  then show "0x10000 \<le> 64 * (64 * (64 * w + x) + y) + z \<and> scalar_value (64 * (64 * (64 * w + x) + y) + z)"
    using assms by cases (simp_all add: scalar_value_def)
qed

lemma utf8_char_decode:
  assumes "utf8_char 0 bs = Some n"
  shows "\<exists>c. scalar_value c \<and> take n bs = utf8_encode c"
  using assms
proof (cases rule: utf8_char_step)
  case (1 c cs)
  then have "unat c < 0x80" by (auto simp: utf8_next_def Let_def split: if_splits)
  with 1 show ?thesis by (intro exI [of _ "unat c"]) (simp add: scalar_value_def utf8_encode_def)
next
  case (2 c cs m)
  obtain k where k: "k < 256" "c = of_nat k" "unat c = k" using byte_value [of c] by blast
  from 2(2,3) show ?thesis
  proof (cases rule: utf8_lead)
    case two
    define x where "x = k - 0xC0"
    obtain z where z: "m = 1" "z < 64" "take 1 cs = [of_nat (0x80 + z)]"
      using utf8_char_tail1 [of cs m] 2 two by auto
    have x: "k = 0xC0 + x" "2 \<le> x" "x < 32" using two k(3) by (simp_all add: x_def)
    have "utf8_encode (64 * x + z) = c # take m cs"
      using x z k utf8_encode_nested(2) [of x z] by simp
    then show ?thesis
      using 2 x z by (intro exI [of _ "64 * x + z"]) (simp add: scalar_value_def)
  next
    case (three s)
    define x where "x = k - 0xE0"
    obtain y z where z: "m = 2" "y < 64" "z < 64" "s = 2 \<longrightarrow> 32 \<le> y" "s = 7 \<longrightarrow> y < 32"
        "take 2 cs = [of_nat (0x80 + y), of_nat (0x80 + z)]"
      using utf8_char_tail2 [of s cs m] 2 three(1,2) by auto
    have x: "k = 0xE0 + x" "x < 16" "x = 0 \<longrightarrow> 32 \<le> y" "x = 13 \<longrightarrow> y < 32"
      using three z k(3) by (auto simp: x_def)
    let ?c = "64 * (64 * x + y) + z"
    have "0x800 \<le> ?c" "scalar_value ?c" using x z scalar_value_nested(1) [of x y z] by simp_all
    moreover from this have "utf8_encode ?c = c # take m cs"
      using x z k utf8_encode_nested(3) [of x y z] by simp
    ultimately show ?thesis using 2 by (intro exI [of _ ?c]) simp
  next
    case (four s)
    define w where "w = k - 0xF0"
    obtain x y z where z: "m = 3" "x < 64" "y < 64" "z < 64" "s = 4 \<longrightarrow> 16 \<le> x" "s = 6 \<longrightarrow> x < 16"
        "take 3 cs = [of_nat (0x80 + x), of_nat (0x80 + y), of_nat (0x80 + z)]"
      using utf8_char_tail3 [of s cs m] 2 four(1,2) by auto
    have w: "k = 0xF0 + w" "w < 5" "w = 0 \<longrightarrow> 16 \<le> x" "w = 4 \<longrightarrow> x < 16"
      using four z k(3) by (auto simp: w_def)
    let ?c = "64 * (64 * (64 * w + x) + y) + z"
    have "0x10000 \<le> ?c" "scalar_value ?c" using w z scalar_value_nested(2) [of x y z w] by simp_all
    moreover from this have "utf8_encode ?c = c # take m cs"
      using w z k utf8_encode_nested(4) [of w x y z] by simp
    ultimately show ?thesis using 2 by (intro exI [of _ ?c]) simp
  qed
qed

section \<open>The span is the longest valid prefix\<close>

lemma utf8_valid_Nil [simp]: "utf8_valid []"
  by (simp add: utf8_valid_def exI [of _ "[]"])

lemma utf8_valid_append: "utf8_valid a \<Longrightarrow> utf8_valid b \<Longrightarrow> utf8_valid (a @ b)"
  unfolding utf8_valid_def by (metis concat_append list_all_append map_append)

lemma utf8_valid_encode: "scalar_value c \<Longrightarrow> utf8_valid (utf8_encode c)"
  unfolding utf8_valid_def by (rule exI [of _ "[c]"]) simp

lemma utf8_valid_ascii: "unat c < 0x80 \<Longrightarrow> utf8_valid [c]"
  using utf8_valid_encode [of "unat c"] by (simp add: scalar_value_def utf8_encode_def)

lemma utf8_valid_span: "utf8_valid (take (utf8_span bs) bs)"
proof (induction bs rule: utf8_span.induct)
  case (1 bs)
  show ?case
  proof (cases "utf8_char 0 bs")
    case None
    then show ?thesis by (simp add: utf8_span.simps [of bs])
  next
    case (Some n)
    then have "utf8_valid (take n bs)"
      using utf8_char_decode utf8_valid_encode by metis
    then show ?thesis
      using 1 [OF Some] Some by (simp add: utf8_span.simps [of bs] take_add utf8_valid_append)
  qed
qed

lemma utf8_span_encode: "scalar_value c \<Longrightarrow> utf8_span (utf8_encode c @ r) = length (utf8_encode c) + utf8_span r"
  by (simp add: utf8_span.simps [of "utf8_encode c @ r"] utf8_char_encode)

lemma utf8_span_valid:
  assumes "utf8_valid bs"
  shows "utf8_span (bs @ r) = length bs + utf8_span r"
proof -
  obtain cs where "list_all scalar_value cs" "bs = concat (map utf8_encode cs)"
    using assms by (auto simp: utf8_valid_def)
  then show ?thesis
    by (induction cs arbitrary: bs) (simp_all add: utf8_span_encode)
qed

lemma utf8_valid_iff_span: "utf8_valid bs \<longleftrightarrow> utf8_span bs = length bs"
  using utf8_span_valid [of bs "[]"] utf8_valid_span [of bs] by (auto simp: utf8_span.simps [of "[]"])

lemma utf8_span_longest:
  assumes "n \<le> length bs" "utf8_valid (take n bs)"
  shows "n \<le> utf8_span bs"
  using utf8_span_valid [OF assms(2), of "drop n bs"] assms(1) by simp

section \<open>Coercion\<close>

definition coerced :: "uint8 \<Rightarrow> bytes \<Rightarrow> bytes \<Rightarrow> bool" where
  "coerced r s t \<longleftrightarrow> list_all2 (\<lambda>a b. b = a \<or> b = r) s t \<and> (unat r < 0x80 \<longrightarrow> utf8_valid t)"

lemma coerced_same: "utf8_valid s \<Longrightarrow> coerced r s s"
  by (simp add: coerced_def list_all2_refl)

lemma coerced_append: "coerced r a b \<Longrightarrow> coerced r s t \<Longrightarrow> coerced r (a @ s) (b @ t)"
  by (simp add: coerced_def list_all2_appendI utf8_valid_append)

lemma coerced_byte: "coerced r [a] [r]"
  by (simp add: coerced_def utf8_valid_ascii)

lemma coerce_loop_ok:
  assumes "src \<le> length str" "coerced r (take src str) dst"
  shows "\<exists>t. coerce_loop True addr be r str src dst = Some t \<and> coerced r str t"
  using assms
proof (induction "length str - src" arbitrary: src dst rule: less_induct)
  case less
  show ?case
  proof (cases "src < length str")
    case False
    then show ?thesis
      using less.prems by (subst coerce_loop.simps) simp
  next
    case True
    define n where "n = utf8_span (drop (Suc src) str)"
    have n: "src + Suc n \<le> length str"
      using True utf8_span_le [of "drop (Suc src) str"] by (simp add: n_def)
    have "take (src + Suc n) str = take src str @ [str ! src] @ take n (drop (Suc src) str)"
      using True by (simp add: take_add take_Suc_conv_app_nth flip: add_Suc)
    then have "coerced r (take (src + Suc n) str) (dst @ [r] @ take n (drop (Suc src) str))"
      using less.prems(2) utf8_valid_span [of "drop (Suc src) str"]
      by (simp add: n_def coerced_append coerced_byte coerced_same del: append_Cons)
    then show ?thesis
      using less.hyps [of "src + Suc n" "dst @ [r] @ take n (drop (Suc src) str)"] n True
      by (subst coerce_loop.simps) (simp add: Let_def flip: n_def)
  qed
qed

lemma UTF8CoerceToStructurallyValid_ok:
  "\<exists>t. UTF8CoerceToStructurallyValid True addr be r s = Some t \<and> coerced r s t \<and> (utf8_valid s \<longrightarrow> t = s)"
proof (cases "utf8_valid s")
  case True
  then show ?thesis
    by (simp add: UTF8CoerceToStructurallyValid_def utf8_valid_iff_span coerced_same)
next
  case False
  then show ?thesis
    using coerce_loop_ok [OF utf8_span_le coerced_same, OF utf8_valid_span]
    by (simp add: UTF8CoerceToStructurallyValid_def utf8_valid_iff_span)
qed

end
