(* ===== verification/Utf8_Properties.thy ===== *)
theory Utf8_Properties
  imports Utf8_Encoding
begin

text \<open>
  What the users of the UTF-8 check rely on: it accepts the sequences of encoded scalar values and
  nothing else, the span is the longest valid prefix wherever the string lies in memory, and a
  coerced string is valid and keeps every byte it can.
\<close>

text \<open>C20. The check accepts exactly the sequences of encodings of scalar values (no overlong forms, no
  surrogates, nothing above 0x10FFFF), at every address and in both byte orders, in spite of the
  table-driven scan and its four-bytes-at-a-time shortcuts; the test of a string field returns the
  same answer and logs if and only if it is negative.
\<close>
theorem utf8_check_accepts_encodings:
  "IsStructurallyValidUTF8 True addr be bs = Some (\<exists>cs. list_all scalar_value cs \<and> bs = concat (map utf8_encode cs)) \<and>
   (\<exists>log. VerifyUtf8String True addr be bs op f = Some (utf8_valid bs, log) \<and> (log = None \<longleftrightarrow> utf8_valid bs))"
proof -
  have "IsStructurallyValidUTF8 True addr be bs = Some (utf8_valid bs)"
    by (simp add: utf8_valid_iff_span)
  then show ?thesis
    by (simp add: VerifyUtf8String_def Let_def del: IsStructurallyValidUTF8_ok) (simp add: utf8_valid_def)
qed

text \<open>The span is the length of the longest valid prefix: that prefix is valid, and no longer one is.
\<close>
theorem utf8_span_is_longest:
  "\<exists>n. UTF8SpnStructurallyValid True addr be bs = Some (int n) \<and> n \<le> length bs \<and> utf8_valid (take n bs) \<and>
     (\<forall>k \<le> length bs. utf8_valid (take k bs) \<longrightarrow> k \<le> n)"
  using utf8_span_le [of bs] utf8_valid_span [of bs] utf8_span_longest [of _ bs]
  by (intro exI [of _ "utf8_span bs"]) simp

lemma utf8_span_is_longest_witness: "UTF8SpnStructurallyValid True 5 True [0x41, 0xC3, 0xA9] = Some 3"
proof -
  have "list_all scalar_value [0x41, 0xE9]"
    by (simp add: scalar_value_def)
  moreover have "(take 3 [0x41, 0xC3, 0xA9] :: bytes) = concat (map utf8_encode [0x41, 0xE9])"
    by (simp add: utf8_encode_def)
  ultimately have "utf8_valid (take 3 [0x41, 0xC3, 0xA9])"
    unfolding utf8_valid_def by blast
  with utf8_span_is_longest [of 5 True "[0x41, 0xC3, 0xA9]"] show ?thesis
    by (auto simp del: UTF8SpnStructurallyValid_ok dest!: spec [of _ 3])
qed

text \<open>C38. Coercion returns a string of the same length in which every byte is kept or replaced; with an
  ASCII replacement the result is valid, and a valid string is returned as it is.
\<close>
theorem utf8_coerce_repairs:
  "\<exists>t. UTF8CoerceToStructurallyValid True addr be r s = Some t \<and> length t = length s \<and>
     list_all2 (\<lambda>a b. b = a \<or> b = r) s t \<and> (unat r < 0x80 \<longrightarrow> utf8_valid t \<and> (t = s \<longleftrightarrow> utf8_valid s))"
  using UTF8CoerceToStructurallyValid_ok [of addr be r s]
  by (auto simp: coerced_def list_all2_lengthD [symmetric])

lemma utf8_coerce_repairs_witness: "\<exists>t. UTF8CoerceToStructurallyValid True 0 True 0x20 [0xC3, 0x41] = Some t \<and> utf8_valid t"
  using utf8_coerce_repairs [of 0 True "0x20" "[0xC3, 0x41]"] by auto

end
