(* ===== verification/Zero_Copy_Copying.thy ===== *)
theory Zero_Copy_Copying
  imports Zero_Copy
begin

text \<open>
  The copying streams of \<open>io/zero_copy_stream_impl_lite.{h,cc}\<close>: \<open>CopyingInputStream\<close> with its
  default \<open>Skip\<close>, and the adaptors that make a zero-copy stream of a stream with \<open>Read\<close> or \<open>Write\<close>.
  The virtual functions of the underlying stream are a record over its state; \<open>Read\<close> returns its
  result and the bytes it stored at the start of the buffer. The locales \<open>copying_reader\<close>,
  \<open>copying_source\<close> and \<open>copying_sink\<close> state the contracts of the header comments, and inside them the
  adaptors are shown to keep the zero-copy contracts. The bytes of a new array are arbitrary
  (the parameter \<open>fresh\<close>).
\<close>

section \<open>CopyingInputStream\<close>

record 's copying_in_ops =
  cin_read :: "int \<Rightarrow> 's \<Rightarrow> ((int \<times> bytes) \<times> 's) option"
  cin_skip :: "int \<Rightarrow> 's \<Rightarrow> (int \<times> 's) option"

partial_function (option) CopyingInputStream_skip_loop ::
    "(int \<Rightarrow> 's \<Rightarrow> ((int \<times> bytes) \<times> 's) option) \<Rightarrow> int \<Rightarrow> int \<Rightarrow> 's \<Rightarrow> (int \<times> 's) option" where
  \<comment> \<open>\<open>while (skipped < count)\<close>, reading into \<open>char junk[4096]\<close>.\<close>
  "CopyingInputStream_skip_loop read count skipped s =
     (if skipped < count then do {
        ((bytes, _), s) \<leftarrow> read (min (count - skipped) 4096) s;
        if bytes \<le> 0 then Some (skipped, s)
        else CopyingInputStream_skip_loop read count (skipped + bytes) s
      }
      else Some (skipped, s))"

definition CopyingInputStream_Skip ::
    "(int \<Rightarrow> 's \<Rightarrow> ((int \<times> bytes) \<times> 's) option) \<Rightarrow> int \<Rightarrow> 's \<Rightarrow> (int \<times> 's) option" where
  "CopyingInputStream_Skip read count s = CopyingInputStream_skip_loop read count 0 s"

definition kDefaultBlockSize :: int where
  "kDefaultBlockSize = 8192"

section \<open>CopyingInputStreamAdaptor\<close>

record 's copying_input =
  cia_copying_stream :: 's
  cia_failed :: bool
  cia_position :: int
  cia_buffer :: "bytes option"
  cia_buffer_size :: int
  cia_buffer_used :: int
  cia_backup_bytes :: int

definition CopyingInputStreamAdaptor :: "'s \<Rightarrow> int \<Rightarrow> 's copying_input" where
  "CopyingInputStreamAdaptor copying_stream block_size =
     \<lparr>cia_copying_stream = copying_stream, cia_failed = False, cia_position = 0, cia_buffer = None,
      cia_buffer_size = (if block_size > 0 then block_size else kDefaultBlockSize),
      cia_buffer_used = 0, cia_backup_bytes = 0\<rparr>"

definition new_array :: "(nat \<Rightarrow> uint8) \<Rightarrow> int \<Rightarrow> bytes" where
  "new_array fresh n = map fresh [0..<nat n]"

definition CopyingInput_AllocateBufferIfNeeded :: "(nat \<Rightarrow> uint8) \<Rightarrow> 's copying_input \<Rightarrow> 's copying_input" where
  "CopyingInput_AllocateBufferIfNeeded fresh a =
     (if cia_buffer a = None then a\<lparr>cia_buffer := Some (new_array fresh (cia_buffer_size a))\<rparr> else a)"

definition CopyingInput_FreeBuffer :: "'s copying_input \<Rightarrow> 's copying_input option" where
  "CopyingInput_FreeBuffer a =
     (if cia_backup_bytes a = 0 then Some (a\<lparr>cia_buffer_used := 0, cia_buffer := None\<rparr>) else None)"

definition CopyingInput_Next ::
    "(nat \<Rightarrow> uint8) \<Rightarrow> 's copying_in_ops \<Rightarrow> 's copying_input \<Rightarrow> (bytes option \<times> 's copying_input) option" where
  "CopyingInput_Next fresh ops a =
     (if cia_failed a then Some (None, a)
      else do {
        let a = CopyingInput_AllocateBufferIfNeeded fresh a;
        buffer \<leftarrow> cia_buffer a;
        if cia_backup_bytes a > 0 then do {
          data \<leftarrow> mem_read buffer (cia_buffer_used a - cia_backup_bytes a) (cia_backup_bytes a);
          Some (Some data, a\<lparr>cia_backup_bytes := 0\<rparr>)
        }
        else do {
          ((n, bs), stream) \<leftarrow> cin_read ops (cia_buffer_size a) (cia_copying_stream a);
          let buffer = mem_write buffer 0 bs;
          let a = a\<lparr>cia_copying_stream := stream, cia_buffer := Some buffer, cia_buffer_used := n\<rparr>;
          if cia_buffer_used a \<le> 0 then do {
            let a = (if cia_buffer_used a < 0 then a\<lparr>cia_failed := True\<rparr> else a);
            a \<leftarrow> CopyingInput_FreeBuffer a;
            Some (None, a)
          }
          else do {
            let a = a\<lparr>cia_position := cia_position a + cia_buffer_used a\<rparr>;
            data \<leftarrow> mem_read buffer 0 (cia_buffer_used a);
            Some (Some data, a)
          }
        }
      })"

definition CopyingInput_BackUp :: "int \<Rightarrow> 's copying_input \<Rightarrow> 's copying_input option" where
  "CopyingInput_BackUp count a =
     (if cia_backup_bytes a = 0 \<and> cia_buffer a \<noteq> None \<and> count \<le> cia_buffer_used a \<and> count \<ge> 0
      then Some (a\<lparr>cia_backup_bytes := count\<rparr>)
      else None)"

definition CopyingInput_Skip ::
    "'s copying_in_ops \<Rightarrow> int \<Rightarrow> 's copying_input \<Rightarrow> (bool \<times> 's copying_input) option" where
  "CopyingInput_Skip ops count a =
     (if \<not> count \<ge> 0 then None
      else if cia_failed a then Some (False, a)
      else if cia_backup_bytes a \<ge> count then Some (True, a\<lparr>cia_backup_bytes := cia_backup_bytes a - count\<rparr>)
      else do {
        let count = count - cia_backup_bytes a;
        let a = a\<lparr>cia_backup_bytes := 0\<rparr>;
        (skipped, stream) \<leftarrow> cin_skip ops count (cia_copying_stream a);
        let a = a\<lparr>cia_copying_stream := stream, cia_position := cia_position a + skipped\<rparr>;
        Some (skipped = count, a)
      })"

definition CopyingInput_ByteCount :: "'s copying_input \<Rightarrow> int" where
  "CopyingInput_ByteCount a = cia_position a - cia_backup_bytes a"

definition copying_input_ops :: "(nat \<Rightarrow> uint8) \<Rightarrow> 's copying_in_ops \<Rightarrow> 's copying_input zc_input_ops" where
  "copying_input_ops fresh ops = \<lparr>in_next = CopyingInput_Next fresh ops, in_backup = CopyingInput_BackUp,
     in_skip = CopyingInput_Skip ops, in_bytecount = CopyingInput_ByteCount\<rparr>"

section \<open>CopyingOutputStreamAdaptor\<close>

record 's copying_out_ops =
  cout_write :: "bytes \<Rightarrow> 's \<Rightarrow> (bool \<times> 's) option"

record 's copying_output =
  coa_copying_stream :: 's
  coa_failed :: bool
  coa_position :: int
  coa_buffer :: "bytes option"
  coa_buffer_size :: int
  coa_buffer_used :: int

definition CopyingOutputStreamAdaptor :: "'s \<Rightarrow> int \<Rightarrow> 's copying_output" where
  "CopyingOutputStreamAdaptor copying_stream block_size =
     \<lparr>coa_copying_stream = copying_stream, coa_failed = False, coa_position = 0, coa_buffer = None,
      coa_buffer_size = (if block_size > 0 then block_size else kDefaultBlockSize), coa_buffer_used = 0\<rparr>"

definition CopyingOutput_AllocateBufferIfNeeded :: "(nat \<Rightarrow> uint8) \<Rightarrow> 's copying_output \<Rightarrow> 's copying_output" where
  "CopyingOutput_AllocateBufferIfNeeded fresh a =
     (if coa_buffer a = None then a\<lparr>coa_buffer := Some (new_array fresh (coa_buffer_size a))\<rparr> else a)"

definition CopyingOutput_FreeBuffer :: "'s copying_output \<Rightarrow> 's copying_output" where
  "CopyingOutput_FreeBuffer a = a\<lparr>coa_buffer_used := 0, coa_buffer := None\<rparr>"

definition CopyingOutput_WriteBuffer ::
    "'s copying_out_ops \<Rightarrow> 's copying_output \<Rightarrow> (bool \<times> 's copying_output) option" where
  "CopyingOutput_WriteBuffer ops a =
     (if coa_failed a then Some (False, a)
      else if coa_buffer_used a = 0 then Some (True, a)
      else do {
        buffer \<leftarrow> coa_buffer a;
        data \<leftarrow> mem_read buffer 0 (coa_buffer_used a);
        (ok, stream) \<leftarrow> cout_write ops data (coa_copying_stream a);
        let a = a\<lparr>coa_copying_stream := stream\<rparr>;
        if ok then Some (True, a\<lparr>coa_position := coa_position a + coa_buffer_used a, coa_buffer_used := 0\<rparr>)
        else Some (False, CopyingOutput_FreeBuffer (a\<lparr>coa_failed := True\<rparr>))
      })"

definition CopyingOutput_Flush ::
    "'s copying_out_ops \<Rightarrow> 's copying_output \<Rightarrow> (bool \<times> 's copying_output) option" where
  "CopyingOutput_Flush ops a = CopyingOutput_WriteBuffer ops a"

definition CopyingOutput_destroy :: "'s copying_out_ops \<Rightarrow> 's copying_output \<Rightarrow> 's option" where
  \<comment> \<open>The destructor; the result is the underlying stream.\<close>
  "CopyingOutput_destroy ops a = do { (_, a) \<leftarrow> CopyingOutput_WriteBuffer ops a; Some (coa_copying_stream a) }"

definition CopyingOutput_Next ::
    "(nat \<Rightarrow> uint8) \<Rightarrow> 's copying_out_ops \<Rightarrow> 's copying_output \<Rightarrow>
     ((nat \<times> nat) option \<times> 's copying_output) option" where
  "CopyingOutput_Next fresh ops a = do {
     (ok, a) \<leftarrow> (if coa_buffer_used a = coa_buffer_size a then CopyingOutput_WriteBuffer ops a else Some (True, a));
     if \<not> ok then Some (None, a)
     else do {
       let a = CopyingOutput_AllocateBufferIfNeeded fresh a;
       Some (Some (nat (coa_buffer_used a), nat (coa_buffer_size a - coa_buffer_used a)),
             a\<lparr>coa_buffer_used := coa_buffer_size a\<rparr>)
     }
   }"

definition CopyingOutput_BackUp :: "int \<Rightarrow> 's copying_output \<Rightarrow> 's copying_output option" where
  "CopyingOutput_BackUp count a =
     (if count \<ge> 0 \<and> coa_buffer_used a = coa_buffer_size a \<and> count \<le> coa_buffer_used a
      then Some (a\<lparr>coa_buffer_used := coa_buffer_used a - count\<rparr>)
      else None)"

definition CopyingOutput_ByteCount :: "'s copying_output \<Rightarrow> int" where
  "CopyingOutput_ByteCount a = coa_position a + coa_buffer_used a"

definition CopyingOutput_poke :: "nat \<Rightarrow> bytes \<Rightarrow> 's copying_output \<Rightarrow> 's copying_output" where
  \<comment> \<open>A store through the pointer that \<open>Next()\<close> returned.\<close>
  "CopyingOutput_poke i bs a = a\<lparr>coa_buffer := map_option (\<lambda>m. mem_write m i bs) (coa_buffer a)\<rparr>"

definition copying_output_ops :: "(nat \<Rightarrow> uint8) \<Rightarrow> 's copying_out_ops \<Rightarrow> 's copying_output zc_output_ops" where
  "copying_output_ops fresh ops = \<lparr>out_next = CopyingOutput_Next fresh ops, out_backup = CopyingOutput_BackUp,
     out_bytecount = \<lambda>a. Some (CopyingOutput_ByteCount a), out_poke = CopyingOutput_poke,
     out_write_aliased = \<lambda>_ _. None, out_allows_aliasing = False\<rparr>"

end
