(* ===== verification/Copying_Contract.thy ===== *)
theory Copying_Contract
  imports Zero_Copy_Copying
begin

text \<open>
  The contracts of the copying streams, and the adaptors' proofs that on top of them they keep the
  contracts of the zero-copy streams. A reader delivers the bytes of its source in order, at least
  one at a time until there are none; a sink that does not fail appends what it is given.
\<close>

section \<open>The contract of a reader\<close>

locale copying_reader =
  fixes read :: "int \<Rightarrow> 's \<Rightarrow> ((int \<times> bytes) \<times> 's) option"
    and inv :: "'s \<Rightarrow> bool"
    and rest :: "'s \<Rightarrow> bytes"
  assumes read_ok: "inv s \<Longrightarrow> 0 < n \<Longrightarrow> \<exists>k bs s'. read n s = Some ((k, bs), s') \<and> inv s' \<and>
      k \<le> n \<and> length bs = nat k \<and> rest s = bs @ rest s' \<and> (k \<le> 0 \<longrightarrow> rest s = [])"
begin

lemma skip_loop_ok:
  assumes "inv s" "skipped \<le> count"
  shows "\<exists>k s'. CopyingInputStream_skip_loop read count skipped s = Some (k, s') \<and> inv s' \<and>
      k = skipped + min (count - skipped) (int (length (rest s))) \<and> rest s' = drop (nat (count - skipped)) (rest s)"
  using assms
proof (induction "nat (count - skipped)" arbitrary: skipped s rule: less_induct)
  case less
  show ?case
  proof (cases "skipped < count")
    case False
    with less.prems show ?thesis
      by (subst CopyingInputStream_skip_loop.simps) simp
  next
    case True
    then obtain k bs t where t: "read (min (count - skipped) 4096) s = Some ((k, bs), t)" "inv t"
        "k \<le> min (count - skipped) 4096" "length bs = nat k" "rest s = bs @ rest t" "k \<le> 0 \<longrightarrow> rest s = []"
      using read_ok [OF less.prems(1), of "min (count - skipped) 4096"] by auto
    show ?thesis
    proof (cases "k \<le> 0")
      case True
      with t \<open>skipped < count\<close> show ?thesis
        by (subst CopyingInputStream_skip_loop.simps) simp
    next
      case False
      have "CopyingInputStream_skip_loop read count skipped s = CopyingInputStream_skip_loop read count (skipped + k) t"
        using True t(1) False by (subst CopyingInputStream_skip_loop.simps) simp
      moreover obtain k' s' where "CopyingInputStream_skip_loop read count (skipped + k) t = Some (k', s')" "inv s'"
          "k' = skipped + k + min (count - (skipped + k)) (int (length (rest t)))"
          "rest s' = drop (nat (count - (skipped + k))) (rest t)"
        using less.hyps [of "skipped + k" t] t(2,3) False True by auto
      moreover have "nat (count - skipped) = length bs + nat (count - (skipped + k))"
        using t(3,4) False by simp linarith
      ultimately show ?thesis
        using t(3,4,5) False by simp
    qed
  qed
qed

lemma Skip_ok:
  "inv s \<Longrightarrow> 0 \<le> n \<Longrightarrow> \<exists>k s'. CopyingInputStream_Skip read n s = Some (k, s') \<and> inv s' \<and>
      k = min n (int (length (rest s))) \<and> rest s' = drop (nat n) (rest s)"
  using skip_loop_ok [of s 0 n] by (simp add: CopyingInputStream_Skip_def)

end

section \<open>The adaptor keeps the contract of an input stream\<close>

definition cia_bytes :: "'s copying_input \<Rightarrow> bytes" where
  \<comment> \<open>The valid bytes of the buffer.\<close>
  "cia_bytes a = (case cia_buffer a of None \<Rightarrow> [] | Some b \<Rightarrow> take (nat (cia_buffer_used a)) b)"

definition cia_inv :: "('s \<Rightarrow> bool) \<Rightarrow> ('s \<Rightarrow> bytes) \<Rightarrow> 's copying_input \<Rightarrow> bool" where
  "cia_inv valid rest a \<longleftrightarrow> valid (cia_copying_stream a) \<and> 0 < cia_buffer_size a \<and> 0 \<le> cia_backup_bytes a \<and>
     cia_backup_bytes a \<le> cia_buffer_used a \<and> cia_buffer_used a \<le> cia_buffer_size a \<and>
     (case cia_buffer a of None \<Rightarrow> cia_buffer_used a = 0 | Some b \<Rightarrow> int (length b) = cia_buffer_size a) \<and>
     (cia_failed a \<longrightarrow> rest (cia_copying_stream a) = [] \<and> cia_buffer a = None)"

definition cia_rest :: "('s \<Rightarrow> bytes) \<Rightarrow> 's copying_input \<Rightarrow> bytes" where
  "cia_rest rest a = suffix_of (nat (cia_backup_bytes a)) (cia_bytes a) @ rest (cia_copying_stream a)"

definition cia_last :: "'s copying_input \<Rightarrow> bytes" where
  "cia_last a = (if cia_backup_bytes a = 0 then cia_bytes a else [])"

locale copying_source = copying_reader "cin_read ops" inv rest
  for ops :: "'s copying_in_ops" and inv :: "'s \<Rightarrow> bool" and rest :: "'s \<Rightarrow> bytes" +
  assumes cskip_ok: "inv s \<Longrightarrow> 0 \<le> n \<Longrightarrow> \<exists>k s'. cin_skip ops n s = Some (k, s') \<and> inv s' \<and>
      k = min n (int (length (rest s))) \<and> rest s' = drop (nat n) (rest s)"
begin

lemma copying_input_ops_sel [simp]:
  "in_next (copying_input_ops fresh ops) = CopyingInput_Next fresh ops"
  "in_backup (copying_input_ops fresh ops) = CopyingInput_BackUp"
  "in_skip (copying_input_ops fresh ops) = CopyingInput_Skip ops"
  "in_bytecount (copying_input_ops fresh ops) = CopyingInput_ByteCount"
  by (simp_all add: copying_input_ops_def)

abbreviation "ainv \<equiv> cia_inv inv rest"
abbreviation "arest \<equiv> cia_rest rest"
abbreviation "aops fresh \<equiv> copying_input_ops fresh ops"

lemma copying_failed: "ainv a \<Longrightarrow> cia_failed a \<Longrightarrow> arest a = [] \<and> cia_backup_bytes a = 0"
  by (auto simp: cia_inv_def cia_rest_def)

lemma copying_next_left_over:
  assumes "ainv a" "0 < cia_backup_bytes a"
  shows "\<exists>c a'. CopyingInput_Next fresh ops a = Some (Some c, a') \<and> ainv a' \<and> arest a = c @ arest a' \<and>
     (\<exists>p. cia_last a' = p @ c) \<and> CopyingInput_ByteCount a' = CopyingInput_ByteCount a + int (length c) \<and> c \<noteq> []"
proof -
  obtain b where b: "cia_buffer a = Some b" "int (length b) = cia_buffer_size a"
    using assms by (cases "cia_buffer a") (auto simp: cia_inv_def)
  define u k where "u = nat (cia_buffer_used a)" and "k = nat (cia_backup_bytes a)"
  have uk: "cia_buffer_used a = int u" "cia_backup_bytes a = int k" "0 < k" "k \<le> u" "u \<le> length b"
    using assms b by (auto simp: u_def k_def cia_inv_def)
  let ?c = "take k (drop (u - k) b)"
  have c: "suffix_of k (take u b) = ?c" "take u b = take (u - k) b @ ?c"
    using uk by (simp_all add: suffix_of_def drop_take flip: take_add)
  have "mem_read b (int u - int k) (int k) = Some ?c"
    using uk by (simp add: mem_read_def nat_diff_distrib)
  then have "CopyingInput_Next fresh ops a = Some (Some ?c, a\<lparr>cia_backup_bytes := 0\<rparr>)"
    using assms uk b by (auto simp: CopyingInput_Next_def CopyingInput_AllocateBufferIfNeeded_def cia_inv_def)
  moreover have "ainv (a\<lparr>cia_backup_bytes := 0\<rparr>)"
    using assms by (auto simp: cia_inv_def split: option.splits)
  moreover have "arest a = ?c @ arest (a\<lparr>cia_backup_bytes := 0\<rparr>)"
    using b c(1) uk by (simp add: cia_rest_def cia_bytes_def)
  moreover have "\<exists>p. cia_last (a\<lparr>cia_backup_bytes := 0\<rparr>) = p @ ?c"
    using b c(2) uk by (auto simp: cia_last_def cia_bytes_def)
  ultimately show ?thesis
    using uk by (auto simp: CopyingInput_ByteCount_def)
qed

lemma copying_next_read:
  assumes "ainv a" "cia_backup_bytes a = 0" "\<not> cia_failed a"
  shows "\<exists>r a'. CopyingInput_Next fresh ops a = Some (r, a') \<and> ainv a' \<and>
     (case r of
        None \<Rightarrow> arest a = [] \<and> arest a' = [] \<and> CopyingInput_ByteCount a' = CopyingInput_ByteCount a
      | Some c \<Rightarrow> arest a = c @ arest a' \<and> (\<exists>p. cia_last a' = p @ c) \<and>
          CopyingInput_ByteCount a' = CopyingInput_ByteCount a + int (length c) \<and> c \<noteq> [])"
proof -
  define b where "b = (case cia_buffer a of None \<Rightarrow> new_array fresh (cia_buffer_size a) | Some b \<Rightarrow> b)"
  have inv: "inv (cia_copying_stream a)" "0 < cia_buffer_size a" and len: "int (length b) = cia_buffer_size a"
    using assms by (auto simp: cia_inv_def b_def new_array_def split: option.splits)
  have alloc: "CopyingInput_AllocateBufferIfNeeded fresh a = a\<lparr>cia_buffer := Some b\<rparr>"
    by (cases a) (auto simp: CopyingInput_AllocateBufferIfNeeded_def b_def split: option.splits)
  obtain k bs t where t: "cin_read ops (cia_buffer_size a) (cia_copying_stream a) = Some ((k, bs), t)" "inv t"
      "k \<le> cia_buffer_size a" "length bs = nat k" "rest (cia_copying_stream a) = bs @ rest t"
      "k \<le> 0 \<longrightarrow> rest (cia_copying_stream a) = []"
    using read_ok [OF inv] by auto
  have r: "arest a = rest (cia_copying_stream a)"
    using assms(2) by (simp add: cia_rest_def)
  show ?thesis
  proof (cases "k \<le> 0")
    case True
    let ?a = "a\<lparr>cia_copying_stream := t, cia_buffer_used := 0, cia_buffer := None, cia_failed := k < 0\<rparr>"
    have "CopyingInput_Next fresh ops a = Some (None, ?a)"
      using t True assms by (simp add: CopyingInput_Next_def alloc CopyingInput_FreeBuffer_def) (cases a, simp add: Let_def)
    moreover have "ainv ?a" "arest ?a = []" "CopyingInput_ByteCount ?a = CopyingInput_ByteCount a"
      using t True assms by (simp_all add: cia_inv_def cia_rest_def CopyingInput_ByteCount_def)
    ultimately show ?thesis
      using t r True by auto
  next
    case False
    then obtain n where n: "k = int n" "0 < n" "length bs = n" "n \<le> length b"
      using t(3,4) len that [of "nat k"] by auto
    let ?m = "mem_write b 0 bs"
    have m: "take n ?m = bs" "length ?m = length b"
      using n by (simp_all add: mem_write_def)
    let ?a = "a\<lparr>cia_copying_stream := t, cia_buffer_used := k, cia_buffer := Some ?m,
      cia_position := cia_position a + k\<rparr>"
    have "mem_read ?m 0 k = Some bs"
      using n m by (simp add: mem_read_def)
    then have "CopyingInput_Next fresh ops a = Some (Some bs, ?a)"
      using t n assms by (simp add: CopyingInput_Next_def alloc)
    moreover have "ainv ?a" "arest ?a = rest t" "cia_last ?a = bs"
      "CopyingInput_ByteCount ?a = CopyingInput_ByteCount a + int (length bs)"
      using t n m len assms by (simp_all add: cia_inv_def cia_rest_def cia_last_def cia_bytes_def CopyingInput_ByteCount_def)
    ultimately show ?thesis
      using t r n by auto
  qed
qed

lemma copying_next_ok:
  assumes "ainv a"
  shows "\<exists>r a'. in_next (aops fresh) a = Some (r, a') \<and> ainv a' \<and>
     (case r of
        None \<Rightarrow> arest a = [] \<and> arest a' = [] \<and> in_bytecount (aops fresh) a' = in_bytecount (aops fresh) a
      | Some c \<Rightarrow> arest a = c @ arest a' \<and> (\<exists>p. cia_last a' = p @ c) \<and>
          in_bytecount (aops fresh) a' = in_bytecount (aops fresh) a + int (length c) \<and> c \<noteq> [])"
proof -
  consider "cia_failed a" | "\<not> cia_failed a" "cia_backup_bytes a = 0" | "0 < cia_backup_bytes a"
    using assms by (fastforce simp: cia_inv_def)
  then show ?thesis
  proof cases
    case 1
    with assms show ?thesis
      using copying_failed [OF assms] by (simp add: CopyingInput_Next_def)
  next
    case 2
    then show ?thesis
      unfolding copying_input_ops_sel by (intro copying_next_read assms)
  next
    case 3
    with copying_next_left_over [OF assms, of fresh] show ?thesis
      by fastforce
  qed
qed

lemma copying_contract: "zero_copy_input (aops fresh) ainv arest cia_last (\<lambda>_. 0)"
proof (unfold_locales, goal_cases)
  case (1 a)
  from copying_next_ok [OF this, of fresh] show ?case
    by (fastforce split: option.splits)
next
  case (2 a n)
  then have b: "cia_backup_bytes a = 0" "cia_last a = cia_bytes a"
    by (auto simp: cia_last_def cia_inv_def split: if_splits)
  with 2 obtain m where m: "cia_buffer a = Some m" "int n \<le> cia_buffer_used a"
    by (cases "cia_buffer a") (auto simp: cia_bytes_def cia_inv_def)
  with 2 b show ?case
    by (auto simp: CopyingInput_BackUp_def cia_inv_def cia_rest_def cia_bytes_def CopyingInput_ByteCount_def)
next
  case (3 a n)
  let ?k = "nat (cia_backup_bytes a)"
  have pre: "inv (cia_copying_stream a)" "0 \<le> cia_backup_bytes a" "?k \<le> length (cia_bytes a)"
    using 3 by (auto simp: cia_inv_def cia_bytes_def split: option.splits)
  consider (failed) "cia_failed a" | (chop) "\<not> cia_failed a" "int n \<le> cia_backup_bytes a"
    | (skip) "\<not> cia_failed a" "cia_backup_bytes a < int n"
    by linarith
  then show ?case
  proof cases
    case failed
    with 3 show ?thesis
      using copying_failed [OF 3] by (intro exI [of _ False]) (simp add: CopyingInput_Skip_def)
  next
    case chop
    have "suffix_of (?k - n) (cia_bytes a) = drop n (suffix_of ?k (cia_bytes a))"
      using chop pre by (simp add: suffix_of_def) (simp add: nat_le_iff add.commute)
    moreover let ?a = "a\<lparr>cia_backup_bytes := cia_backup_bytes a - int n\<rparr>"
    have "CopyingInput_Skip ops (int n) a = Some (True, ?a)"
      using chop by (simp add: CopyingInput_Skip_def)
    moreover have "ainv ?a" "cia_bytes ?a = cia_bytes a"
      using 3 chop by (auto simp: cia_inv_def cia_bytes_def split: option.splits)
    ultimately show ?thesis
      using chop pre by (intro exI [of _ True] exI [of _ ?a])
        (auto simp: cia_rest_def CopyingInput_ByteCount_def nat_diff_distrib nat_le_iff)
  next
    case skip
    then obtain j t where t: "cin_skip ops (int n - cia_backup_bytes a) (cia_copying_stream a) = Some (j, t)" "inv t"
        "j = min (int n - cia_backup_bytes a) (int (length (rest (cia_copying_stream a))))"
        "rest t = drop (n - ?k) (rest (cia_copying_stream a))"
      using cskip_ok [OF pre(1), of "int n - cia_backup_bytes a"] pre(2) by (auto simp: nat_diff_distrib)
    let ?a = "a\<lparr>cia_backup_bytes := 0, cia_copying_stream := t, cia_position := cia_position a + j\<rparr>"
    let ?b = "j = int n - cia_backup_bytes a"
    have "CopyingInput_Skip ops (int n) a = Some (?b, ?a)"
      using skip t(1) by (simp add: CopyingInput_Skip_def)
    moreover have "ainv ?a"
      using 3 t(2) skip by (auto simp: cia_inv_def split: option.splits)
    moreover have k: "length (suffix_of ?k (cia_bytes a)) = ?k" "?k < n"
      using pre skip by simp_all
    moreover have "arest ?a = drop n (arest a)" "length (arest a) = ?k + length (rest (cia_copying_stream a))"
      using t(4) k by (simp_all add: cia_rest_def)
    moreover have "CopyingInput_ByteCount ?a = CopyingInput_ByteCount a + int (min n (length (arest a)))"
      "?b \<longleftrightarrow> n \<le> length (arest a)"
      using t(3) k pre by (auto simp: CopyingInput_ByteCount_def cia_rest_def min_def)
    ultimately show ?thesis
      by (intro exI [of _ ?b] exI [of _ ?a]) auto
  qed
qed

end

section \<open>The contract of a sink that does not fail\<close>

definition coa_bytes :: "'s copying_output \<Rightarrow> bytes" where
  \<comment> \<open>The used bytes of the buffer.\<close>
  "coa_bytes a = (case coa_buffer a of None \<Rightarrow> [] | Some b \<Rightarrow> take (nat (coa_buffer_used a)) b)"

definition coa_inv :: "('s \<Rightarrow> bool) \<Rightarrow> ('s \<Rightarrow> bytes) \<Rightarrow> 's copying_output \<Rightarrow> bool" where
  "coa_inv valid written a \<longleftrightarrow> valid (coa_copying_stream a) \<and> \<not> coa_failed a \<and>
     coa_position a = int (length (written (coa_copying_stream a))) \<and>
     0 < coa_buffer_size a \<and> coa_buffer_size a \<le> INT_MAX \<and>
     0 \<le> coa_buffer_used a \<and> coa_buffer_used a \<le> coa_buffer_size a \<and>
     (case coa_buffer a of None \<Rightarrow> coa_buffer_used a = 0 | Some b \<Rightarrow> int (length b) = coa_buffer_size a)"

definition coa_content :: "('s \<Rightarrow> bytes) \<Rightarrow> 's copying_output \<Rightarrow> bytes" where
  "coa_content written a = written (coa_copying_stream a) @ coa_bytes a"

definition coa_window :: "'s copying_output \<Rightarrow> nat \<Rightarrow> nat \<Rightarrow> bool" where
  "coa_window a i n \<longleftrightarrow> int (i + n) = coa_buffer_size a \<and> coa_buffer_used a = coa_buffer_size a"

lemma length_coa_bytes: "coa_inv valid written a \<Longrightarrow> length (coa_bytes a) = nat (coa_buffer_used a)"
  by (auto simp: coa_inv_def coa_bytes_def split: option.splits)

locale copying_sink =
  fixes ops :: "'s copying_out_ops" and inv :: "'s \<Rightarrow> bool" and written :: "'s \<Rightarrow> bytes"
  assumes write_ok: "inv s \<Longrightarrow> \<exists>s'. cout_write ops bs s = Some (True, s') \<and> inv s' \<and> written s' = written s @ bs"
begin

abbreviation "oinv \<equiv> coa_inv inv written"
abbreviation "ocontent \<equiv> coa_content written"

lemma WriteBuffer_ok:
  assumes "oinv a"
  shows "\<exists>a'. CopyingOutput_WriteBuffer ops a = Some (True, a') \<and> oinv a' \<and> ocontent a' = ocontent a \<and>
    coa_buffer_used a' = 0 \<and> coa_buffer_size a' = coa_buffer_size a \<and> written (coa_copying_stream a') = ocontent a"
proof (cases "coa_buffer_used a = 0")
  case True
  with assms show ?thesis
    by (auto simp: CopyingOutput_WriteBuffer_def coa_inv_def coa_content_def coa_bytes_def split: option.splits)
next
  case False
  with assms obtain b where b: "coa_buffer a = Some b" "int (length b) = coa_buffer_size a"
    by (cases "coa_buffer a") (auto simp: coa_inv_def)
  with assms have "mem_read b 0 (coa_buffer_used a) = Some (coa_bytes a)"
    by (simp add: mem_read_def coa_bytes_def coa_inv_def nat_le_iff)
  moreover obtain t where "cout_write ops (coa_bytes a) (coa_copying_stream a) = Some (True, t)" "inv t"
      "written t = written (coa_copying_stream a) @ coa_bytes a"
    using write_ok [of "coa_copying_stream a" "coa_bytes a"] assms by (auto simp: coa_inv_def)
  ultimately show ?thesis
    using assms b False length_coa_bytes [OF assms]
    by (auto simp: CopyingOutput_WriteBuffer_def coa_inv_def coa_content_def) (simp add: coa_bytes_def)
qed

lemma copying_destroy_ok:
  assumes "oinv a"
  shows "\<exists>s. CopyingOutput_destroy ops a = Some s \<and> inv s \<and> written s = ocontent a"
  using WriteBuffer_ok [OF assms] by (auto simp: CopyingOutput_destroy_def coa_inv_def)

lemma copying_onext_room:
  assumes "oinv a" "coa_buffer_used a < coa_buffer_size a"
    and a'_def: "a' = CopyingOutput_AllocateBufferIfNeeded fresh a\<lparr>coa_buffer_used := coa_buffer_size a\<rparr>"
  shows "oinv a'" "take (length (ocontent a)) (ocontent a') = ocontent a"
    "length (ocontent a') = length (ocontent a) + nat (coa_buffer_size a - coa_buffer_used a)"
    "coa_window a' (nat (coa_buffer_used a)) (nat (coa_buffer_size a - coa_buffer_used a))"
proof -
  obtain b where b: "coa_buffer a' = Some b" "int (length b) = coa_buffer_size a" "coa_bytes a = take (nat (coa_buffer_used a)) b"
    using assms(1)
    by (auto simp: a'_def CopyingOutput_AllocateBufferIfNeeded_def coa_bytes_def coa_inv_def new_array_def split: option.splits)
  have same: "coa_copying_stream a' = coa_copying_stream a" "coa_failed a' = coa_failed a" "coa_position a' = coa_position a"
      "coa_buffer_size a' = coa_buffer_size a" "coa_buffer_used a' = coa_buffer_size a"
    by (simp_all add: a'_def CopyingOutput_AllocateBufferIfNeeded_def)
  have u: "0 \<le> coa_buffer_used a" "nat (coa_buffer_used a) \<le> length b"
    using assms b(2) by (auto simp: coa_inv_def)
  show "oinv a'"
    using assms(1) b same by (simp add: coa_inv_def)
  show "coa_window a' (nat (coa_buffer_used a)) (nat (coa_buffer_size a - coa_buffer_used a))"
    using u assms(2) same by (simp add: coa_window_def)
  have bytes: "coa_bytes a' = b"
    using b same by (simp add: coa_bytes_def)
  show "take (length (ocontent a)) (ocontent a') = ocontent a"
    using u by (simp add: coa_content_def same bytes b(3) min_def)
  show "length (ocontent a') = length (ocontent a) + nat (coa_buffer_size a - coa_buffer_used a)"
    using u b(2) by (simp add: coa_content_def same bytes b(3) nat_diff_distrib)
qed

lemma copying_onext_ok:
  assumes "oinv a"
  shows "\<exists>i n a'. CopyingOutput_Next fresh ops a = Some (Some (i, n), a') \<and> oinv a' \<and> 0 < n \<and> coa_window a' i n \<and>
     length (ocontent a') = length (ocontent a) + n \<and> take (length (ocontent a)) (ocontent a') = ocontent a"
proof -
  obtain a1 where a1: "oinv a1" "ocontent a1 = ocontent a" "coa_buffer_used a1 < coa_buffer_size a1"
    and step: "(if coa_buffer_used a = coa_buffer_size a then CopyingOutput_WriteBuffer ops a else Some (True, a)) = Some (True, a1)"
  proof (cases "coa_buffer_used a = coa_buffer_size a")
    case True
    from WriteBuffer_ok [OF assms] obtain a1 where "CopyingOutput_WriteBuffer ops a = Some (True, a1)" "oinv a1"
        "ocontent a1 = ocontent a" "coa_buffer_used a1 = 0"
      by blast
    with True show ?thesis
      by (intro that [of a1]) (auto simp: coa_inv_def)
  next
    case False
    with assms show ?thesis
      by (intro that [of a]) (auto simp: coa_inv_def)
  qed
  let ?a = "CopyingOutput_AllocateBufferIfNeeded fresh a1\<lparr>coa_buffer_used := coa_buffer_size a1\<rparr>"
  have size: "coa_buffer_used (CopyingOutput_AllocateBufferIfNeeded fresh a1) = coa_buffer_used a1"
      "coa_buffer_size (CopyingOutput_AllocateBufferIfNeeded fresh a1) = coa_buffer_size a1"
    by (simp_all add: CopyingOutput_AllocateBufferIfNeeded_def)
  have "CopyingOutput_Next fresh ops a =
      Some (Some (nat (coa_buffer_used a1), nat (coa_buffer_size a1 - coa_buffer_used a1)), ?a)"
    unfolding CopyingOutput_Next_def step by (simp add: size)
  then show ?thesis
    using copying_onext_room [OF a1(1,3) refl, of fresh] a1(2,3) by auto
qed

lemma mem_write_append: "mem_write (xs @ ys) (length xs + i) bs = xs @ mem_write ys i bs"
  by (simp add: mem_write_def add.assoc)

lemma copying_output_contract:
  "zero_copy_output (copying_output_ops fresh ops) oinv ocontent coa_window (\<lambda>_. room)"
proof (unfold_locales, goal_cases)
  case (1 a)
  from copying_onext_ok [OF this, of fresh] show ?case
    by (fastforce simp: copying_output_ops_def)
next
  case (2 a i n)
  then show ?case
    using length_coa_bytes [of inv written a] by (auto simp: coa_window_def coa_inv_def coa_content_def)
next
  case (3 a i n j bs)
  then obtain b where b: "coa_buffer a = Some b" "int (length b) = coa_buffer_size a" "length b = i + n" "coa_bytes a = b"
    by (cases "coa_buffer a") (auto simp: coa_window_def coa_inv_def coa_bytes_def)
  with 3 show ?case
    by (auto simp: copying_output_ops_def CopyingOutput_poke_def coa_window_def coa_inv_def coa_content_def coa_bytes_def
        mem_write_append add.assoc)
next
  case (4 a i n k)
  then show ?case
    using length_coa_bytes [of inv written a]
    by (auto simp: copying_output_ops_def CopyingOutput_BackUp_def coa_window_def coa_inv_def coa_content_def coa_bytes_def
        nat_diff_distrib split: option.splits)
next
  case (5 a)
  then show ?case
    using length_coa_bytes [of inv written a]
    by (auto simp: copying_output_ops_def CopyingOutput_ByteCount_def coa_inv_def coa_content_def)
next
  case (6 a bs)
  then show ?case by (simp add: copying_output_ops_def)
qed

lemma relative_sink:
  \<comment> \<open>A sink is a sink of what follows the bytes it held before.\<close>
  "copying_sink ops (\<lambda>s. inv s \<and> (\<exists>w. written s = before @ w)) (\<lambda>s. drop (length before) (written s))"
  by unfold_locales (use write_ok in \<open>fastforce\<close>)

end

end
