(* ===== verification/Zero_Copy_File.thy ===== *)
theory Zero_Copy_File
  imports Copying_Contract
begin

text \<open>
  The streams of \<open>io/zero_copy_stream_impl.cc\<close> on top of the copying adaptors: file descriptors and
  C++ streams. The system calls are a parameter, a record of functions over the state of the
  operating system; \<open>errno\<close> is read from that state after the call. The part of a C++ stream that the
  code uses (\<open>read\<close>, \<open>gcount\<close>, \<open>write\<close> and the state bits) is written out for a stream over a buffer
  in memory.
\<close>

section \<open>System calls\<close>

record 'k file_sys =
  sys_read :: "int \<Rightarrow> int \<Rightarrow> 'k \<Rightarrow> (int \<times> bytes) \<times> 'k" \<comment> \<open>result and the bytes stored\<close>
  sys_write :: "int \<Rightarrow> bytes \<Rightarrow> 'k \<Rightarrow> int \<times> 'k"
  sys_lseek :: "int \<Rightarrow> int \<Rightarrow> 'k \<Rightarrow> int \<times> 'k" \<comment> \<open>from the current position\<close>
  sys_close :: "int \<Rightarrow> 'k \<Rightarrow> int \<times> 'k"
  sys_errno :: "'k \<Rightarrow> int"
  sys_EINTR :: int

partial_function (option) close_no_eintr :: "'k file_sys \<Rightarrow> int \<Rightarrow> 'k \<Rightarrow> (int \<times> 'k) option" where
  "close_no_eintr sys fd k =
     (let (result, k) = sys_close sys fd k in
      if result < 0 \<and> sys_errno sys k = sys_EINTR sys then close_no_eintr sys fd k
      else Some (result, k))"

partial_function (option) read_no_eintr :: "'k file_sys \<Rightarrow> int \<Rightarrow> int \<Rightarrow> 'k \<Rightarrow> ((int \<times> bytes) \<times> 'k) option" where
  \<comment> \<open>\<open>do { result = read(file_, buffer, size); } while (result < 0 && errno == EINTR)\<close>\<close>
  "read_no_eintr sys fd n k =
     (let ((result, bs), k) = sys_read sys fd n k in
      if result < 0 \<and> sys_errno sys k = sys_EINTR sys then read_no_eintr sys fd n k
      else Some ((result, bs), k))"

partial_function (option) write_no_eintr :: "'k file_sys \<Rightarrow> int \<Rightarrow> bytes \<Rightarrow> 'k \<Rightarrow> (int \<times> 'k) option" where
  "write_no_eintr sys fd data k =
     (let (bytes, k) = sys_write sys fd data k in
      if bytes < 0 \<and> sys_errno sys k = sys_EINTR sys then write_no_eintr sys fd data k
      else Some (bytes, k))"

section \<open>FileInputStream\<close>

record 'k copying_file_input =
  cfi_os :: 'k
  cfi_file :: int
  cfi_close_on_delete :: bool
  cfi_is_closed :: bool
  cfi_errno :: int
  cfi_previous_seek_failed :: bool

definition CopyingFileInputStream :: "'k \<Rightarrow> int \<Rightarrow> 'k copying_file_input" where
  "CopyingFileInputStream os file_descriptor =
     \<lparr>cfi_os = os, cfi_file = file_descriptor, cfi_close_on_delete = False, cfi_is_closed = False,
      cfi_errno = 0, cfi_previous_seek_failed = False\<rparr>"

definition CopyingFileInput_Close :: "'k file_sys \<Rightarrow> 'k copying_file_input \<Rightarrow> (bool \<times> 'k copying_file_input) option" where
  "CopyingFileInput_Close sys f =
     (if cfi_is_closed f then None
      else do {
        let f = f\<lparr>cfi_is_closed := True\<rparr>;
        (result, k) \<leftarrow> close_no_eintr sys (cfi_file f) (cfi_os f);
        let f = f\<lparr>cfi_os := k\<rparr>;
        if result \<noteq> 0 then Some (False, f\<lparr>cfi_errno := sys_errno sys k\<rparr>) else Some (True, f)
      })"

definition CopyingFileInput_destroy :: "'k file_sys \<Rightarrow> 'k copying_file_input \<Rightarrow> (bool \<times> 'k) option" where
  \<comment> \<open>The destructor: whether it logs a failed close, and the state it leaves.\<close>
  "CopyingFileInput_destroy sys f =
     (if cfi_close_on_delete f then map_option (\<lambda>(ok, f). (\<not> ok, cfi_os f)) (CopyingFileInput_Close sys f)
      else Some (False, cfi_os f))"

definition CopyingFileInput_Read ::
    "'k file_sys \<Rightarrow> int \<Rightarrow> 'k copying_file_input \<Rightarrow> ((int \<times> bytes) \<times> 'k copying_file_input) option" where
  "CopyingFileInput_Read sys n f =
     (if cfi_is_closed f then None
      else do {
        ((result, bs), k) \<leftarrow> read_no_eintr sys (cfi_file f) n (cfi_os f);
        let f = f\<lparr>cfi_os := k\<rparr>;
        let f = (if result < 0 then f\<lparr>cfi_errno := sys_errno sys k\<rparr> else f);
        Some ((result, bs), f)
      })"

definition CopyingFileInput_Skip ::
    "'k file_sys \<Rightarrow> int \<Rightarrow> 'k copying_file_input \<Rightarrow> (int \<times> 'k copying_file_input) option" where
  "CopyingFileInput_Skip sys count f =
     (if cfi_is_closed f then None
      else
        let (sought, f) =
          (if cfi_previous_seek_failed f then (False, f)
           else let (pos, k) = sys_lseek sys (cfi_file f) count (cfi_os f) in (pos \<noteq> - 1, f\<lparr>cfi_os := k\<rparr>)) in
        if sought then Some (count, f)
        else CopyingInputStream_Skip (CopyingFileInput_Read sys) count (f\<lparr>cfi_previous_seek_failed := True\<rparr>))"

definition copying_file_in_ops :: "'k file_sys \<Rightarrow> 'k copying_file_input copying_in_ops" where
  "copying_file_in_ops sys = \<lparr>cin_read = CopyingFileInput_Read sys, cin_skip = CopyingFileInput_Skip sys\<rparr>"

definition FileInputStream :: "'k \<Rightarrow> int \<Rightarrow> int \<Rightarrow> 'k copying_file_input copying_input" where
  \<comment> \<open>The members \<open>copying_input_\<close> and \<open>impl_\<close>; the former is the state behind the latter.\<close>
  "FileInputStream os file_descriptor block_size =
     CopyingInputStreamAdaptor (CopyingFileInputStream os file_descriptor) block_size"

definition FileInput_SetCloseOnDelete :: "bool \<Rightarrow> 'k copying_file_input copying_input \<Rightarrow> 'k copying_file_input copying_input" where
  "FileInput_SetCloseOnDelete v a =
     a\<lparr>cia_copying_stream := cia_copying_stream a\<lparr>cfi_close_on_delete := v\<rparr>\<rparr>"

definition FileInput_GetErrno :: "'k copying_file_input copying_input \<Rightarrow> int" where
  "FileInput_GetErrno a = cfi_errno (cia_copying_stream a)"

definition FileInput_Close ::
    "'k file_sys \<Rightarrow> 'k copying_file_input copying_input \<Rightarrow> (bool \<times> 'k copying_file_input copying_input) option" where
  "FileInput_Close sys a =
     map_option (\<lambda>(ok, f). (ok, a\<lparr>cia_copying_stream := f\<rparr>)) (CopyingFileInput_Close sys (cia_copying_stream a))"

definition file_input_ops ::
    "(nat \<Rightarrow> uint8) \<Rightarrow> 'k file_sys \<Rightarrow> 'k copying_file_input copying_input zc_input_ops" where
  \<comment> \<open>\<open>Next\<close>, \<open>BackUp\<close>, \<open>Skip\<close> and \<open>ByteCount\<close> are those of \<open>impl_\<close>.\<close>
  "file_input_ops fresh sys = copying_input_ops fresh (copying_file_in_ops sys)"

section \<open>FileOutputStream\<close>

record 'k copying_file_output =
  cfo_os :: 'k
  cfo_file :: int
  cfo_close_on_delete :: bool
  cfo_is_closed :: bool
  cfo_errno :: int

definition CopyingFileOutputStream :: "'k \<Rightarrow> int \<Rightarrow> 'k copying_file_output" where
  "CopyingFileOutputStream os file_descriptor =
     \<lparr>cfo_os = os, cfo_file = file_descriptor, cfo_close_on_delete = False, cfo_is_closed = False, cfo_errno = 0\<rparr>"

definition CopyingFileOutput_Close :: "'k file_sys \<Rightarrow> 'k copying_file_output \<Rightarrow> (bool \<times> 'k copying_file_output) option" where
  "CopyingFileOutput_Close sys f =
     (if cfo_is_closed f then None
      else do {
        let f = f\<lparr>cfo_is_closed := True\<rparr>;
        (result, k) \<leftarrow> close_no_eintr sys (cfo_file f) (cfo_os f);
        let f = f\<lparr>cfo_os := k\<rparr>;
        if result \<noteq> 0 then Some (False, f\<lparr>cfo_errno := sys_errno sys k\<rparr>) else Some (True, f)
      })"

definition CopyingFileOutput_destroy :: "'k file_sys \<Rightarrow> 'k copying_file_output \<Rightarrow> (bool \<times> 'k) option" where
  "CopyingFileOutput_destroy sys f =
     (if cfo_close_on_delete f then map_option (\<lambda>(ok, f). (\<not> ok, cfo_os f)) (CopyingFileOutput_Close sys f)
      else Some (False, cfo_os f))"

partial_function (option) CopyingFileOutput_write_loop ::
    "'k file_sys \<Rightarrow> bytes \<Rightarrow> int \<Rightarrow> 'k copying_file_output \<Rightarrow> (bool \<times> 'k copying_file_output) option" where
  \<comment> \<open>\<open>while (total_written < size)\<close>; \<open>size\<close> is the length of the buffer.\<close>
  "CopyingFileOutput_write_loop sys buffer total_written f =
     (if total_written < int (length buffer) then do {
        (bytes, k) \<leftarrow> write_no_eintr sys (cfo_file f) (drop (nat total_written) buffer) (cfo_os f);
        let f = f\<lparr>cfo_os := k\<rparr>;
        if bytes \<le> 0 then Some (False, if bytes < 0 then f\<lparr>cfo_errno := sys_errno sys k\<rparr> else f)
        else CopyingFileOutput_write_loop sys buffer (total_written + bytes) f
      }
      else Some (True, f))"

definition CopyingFileOutput_Write ::
    "'k file_sys \<Rightarrow> bytes \<Rightarrow> 'k copying_file_output \<Rightarrow> (bool \<times> 'k copying_file_output) option" where
  "CopyingFileOutput_Write sys buffer f =
     (if cfo_is_closed f then None else CopyingFileOutput_write_loop sys buffer 0 f)"

definition copying_file_out_ops :: "'k file_sys \<Rightarrow> 'k copying_file_output copying_out_ops" where
  "copying_file_out_ops sys = \<lparr>cout_write = CopyingFileOutput_Write sys\<rparr>"

definition FileOutputStream :: "'k \<Rightarrow> int \<Rightarrow> int \<Rightarrow> 'k copying_file_output copying_output" where
  "FileOutputStream os file_descriptor block_size =
     CopyingOutputStreamAdaptor (CopyingFileOutputStream os file_descriptor) block_size"

definition FileOutput_SetCloseOnDelete :: "bool \<Rightarrow> 'k copying_file_output copying_output \<Rightarrow> 'k copying_file_output copying_output" where
  "FileOutput_SetCloseOnDelete v a =
     a\<lparr>coa_copying_stream := coa_copying_stream a\<lparr>cfo_close_on_delete := v\<rparr>\<rparr>"

definition FileOutput_GetErrno :: "'k copying_file_output copying_output \<Rightarrow> int" where
  "FileOutput_GetErrno a = cfo_errno (coa_copying_stream a)"

definition FileOutput_Flush ::
    "'k file_sys \<Rightarrow> 'k copying_file_output copying_output \<Rightarrow> (bool \<times> 'k copying_file_output copying_output) option" where
  "FileOutput_Flush sys a = CopyingOutput_Flush (copying_file_out_ops sys) a"

definition FileOutput_Close ::
    "'k file_sys \<Rightarrow> 'k copying_file_output copying_output \<Rightarrow> (bool \<times> 'k copying_file_output copying_output) option" where
  "FileOutput_Close sys a = do {
     (flush_succeeded, a) \<leftarrow> CopyingOutput_Flush (copying_file_out_ops sys) a;
     (closed, f) \<leftarrow> CopyingFileOutput_Close sys (coa_copying_stream a);
     Some (closed \<and> flush_succeeded, a\<lparr>coa_copying_stream := f\<rparr>)
   }"

definition FileOutput_destroy :: "'k file_sys \<Rightarrow> 'k copying_file_output copying_output \<Rightarrow> (bool \<times> 'k) option" where
  \<comment> \<open>The body of the destructor, then \<open>impl_\<close> is destroyed, then \<open>copying_output_\<close>.\<close>
  "FileOutput_destroy sys a = do {
     (_, a) \<leftarrow> CopyingOutput_Flush (copying_file_out_ops sys) a;
     f \<leftarrow> CopyingOutput_destroy (copying_file_out_ops sys) a;
     CopyingFileOutput_destroy sys f
   }"

definition file_output_ops ::
    "(nat \<Rightarrow> uint8) \<Rightarrow> 'k file_sys \<Rightarrow> 'k copying_file_output copying_output zc_output_ops" where
  "file_output_ops fresh sys = copying_output_ops fresh (copying_file_out_ops sys)"

section \<open>IstreamInputStream and OstreamOutputStream\<close>

record std_istream =
  is_rest :: bytes
  is_eofbit :: bool
  is_failbit :: bool
  is_badbit :: bool

definition is_good :: "std_istream \<Rightarrow> bool" where
  "is_good s \<longleftrightarrow> \<not> is_eofbit s \<and> \<not> is_failbit s \<and> \<not> is_badbit s"

definition is_fail :: "std_istream \<Rightarrow> bool" where
  "is_fail s \<longleftrightarrow> is_failbit s \<or> is_badbit s"

definition istream_read :: "int \<Rightarrow> std_istream \<Rightarrow> bytes \<times> std_istream" where
  \<comment> \<open>\<open>istream::read\<close>; \<open>gcount()\<close> is the number of bytes stored.\<close>
  "istream_read n s =
     (if \<not> is_good s then ([], s\<lparr>is_failbit := True\<rparr>)
      else
        let bs = take (nat n) (is_rest s); s = s\<lparr>is_rest := drop (nat n) (is_rest s)\<rparr> in
        if int (length bs) < n then (bs, s\<lparr>is_eofbit := True, is_failbit := True\<rparr>) else (bs, s))"

definition CopyingIstreamInput_Read :: "int \<Rightarrow> std_istream \<Rightarrow> ((int \<times> bytes) \<times> std_istream) option" where
  "CopyingIstreamInput_Read n s =
     (let (bs, s) = istream_read n s; result = int (length bs) in
      if result = 0 \<and> is_fail s \<and> \<not> is_eofbit s then Some ((- 1, bs), s)
      else Some ((result, bs), s))"

definition copying_istream_ops :: "std_istream copying_in_ops" where
  "copying_istream_ops = \<lparr>cin_read = CopyingIstreamInput_Read,
     cin_skip = CopyingInputStream_Skip CopyingIstreamInput_Read\<rparr>"

definition IstreamInputStream :: "std_istream \<Rightarrow> int \<Rightarrow> std_istream copying_input" where
  "IstreamInputStream input block_size = CopyingInputStreamAdaptor input block_size"

definition istream_input_ops :: "(nat \<Rightarrow> uint8) \<Rightarrow> std_istream copying_input zc_input_ops" where
  "istream_input_ops fresh = copying_input_ops fresh copying_istream_ops"

record std_ostream =
  os_written :: bytes
  os_good :: bool

definition ostream_write :: "bytes \<Rightarrow> std_ostream \<Rightarrow> std_ostream" where
  \<comment> \<open>\<open>ostream::write\<close>\<close>
  "ostream_write bs s = (if os_good s then s\<lparr>os_written := os_written s @ bs\<rparr> else s)"

definition CopyingOstreamOutput_Write :: "bytes \<Rightarrow> std_ostream \<Rightarrow> (bool \<times> std_ostream) option" where
  "CopyingOstreamOutput_Write buffer s = (let s = ostream_write buffer s in Some (os_good s, s))"

definition copying_ostream_ops :: "std_ostream copying_out_ops" where
  "copying_ostream_ops = \<lparr>cout_write = CopyingOstreamOutput_Write\<rparr>"

definition OstreamOutputStream :: "std_ostream \<Rightarrow> int \<Rightarrow> std_ostream copying_output" where
  "OstreamOutputStream output block_size = CopyingOutputStreamAdaptor output block_size"

definition OstreamOutput_destroy :: "std_ostream copying_output \<Rightarrow> std_ostream option" where
  "OstreamOutput_destroy a = do {
     (_, a) \<leftarrow> CopyingOutput_Flush copying_ostream_ops a;
     CopyingOutput_destroy copying_ostream_ops a
   }"

definition ostream_output_ops :: "(nat \<Rightarrow> uint8) \<Rightarrow> std_ostream copying_output zc_output_ops" where
  "ostream_output_ops fresh = copying_output_ops fresh copying_ostream_ops"

end
