(* ===== verification/File_Contract.thy ===== *)
theory File_Contract
  imports Zero_Copy_File
begin

text \<open>
  The C++ streams and the file descriptors behind the copying adaptors. The C++ streams keep the
  contracts of theory \<open>Copying_Contract\<close> as they are. For a descriptor the documented behaviour of the
  system calls is the hypothesis \<open>reads_descriptor\<close> or \<open>accepts_descriptor\<close>: reads and writes may be
  short or interrupted, but not interrupted for ever.
\<close>

section \<open>C++ streams\<close>

definition istream_ok :: "std_istream \<Rightarrow> bool" where
  "istream_ok s \<longleftrightarrow> \<not> is_badbit s \<and> (is_failbit s \<longrightarrow> is_eofbit s) \<and> (is_eofbit s \<longrightarrow> is_rest s = [])"

lemma CopyingIstreamInput_Read_ok:
  assumes "istream_ok s" "0 < n"
  shows "\<exists>k bs s'. CopyingIstreamInput_Read n s = Some ((k, bs), s') \<and> istream_ok s' \<and>
      k \<le> n \<and> length bs = nat k \<and> is_rest s = bs @ is_rest s' \<and> (k \<le> 0 \<longrightarrow> is_rest s = [])"
proof (cases "is_eofbit s")
  case True
  with assms show ?thesis
    by (simp add: CopyingIstreamInput_Read_def istream_read_def istream_ok_def is_good_def is_fail_def)
next
  case False
  with assms have good: "is_good s" "\<not> is_fail s" by (auto simp: istream_ok_def is_good_def is_fail_def)
  show ?thesis
  proof (cases "int (length (is_rest s)) < n")
    case True
    with assms good show ?thesis
      by (auto simp: CopyingIstreamInput_Read_def istream_read_def istream_ok_def is_fail_def Let_def min_def)
  next
    case long: False
    then have "nat n \<le> length (is_rest s)" "0 < nat n"
      using assms(2) by auto
    with assms good False show ?thesis
      by (auto simp: CopyingIstreamInput_Read_def istream_read_def istream_ok_def is_fail_def Let_def min_def)
  qed
qed

interpretation istream_reader: copying_reader CopyingIstreamInput_Read istream_ok is_rest
  by unfold_locales (rule CopyingIstreamInput_Read_ok)

interpretation istream_source: copying_source copying_istream_ops istream_ok is_rest
  by unfold_locales (use CopyingIstreamInput_Read_ok istream_reader.Skip_ok in \<open>simp_all add: copying_istream_ops_def\<close>)

interpretation ostream_sink: copying_sink copying_ostream_ops os_good os_written
  by unfold_locales (simp add: copying_ostream_ops_def CopyingOstreamOutput_Write_def ostream_write_def Let_def)

section \<open>Reading a descriptor\<close>

definition reads_descriptor ::
    "'k file_sys \<Rightarrow> int \<Rightarrow> ('k \<Rightarrow> bool) \<Rightarrow> ('k \<Rightarrow> bytes) \<Rightarrow> ('k \<Rightarrow> nat) \<Rightarrow> bool" where
  \<comment> \<open>\<open>contents k\<close> is what the descriptor still delivers up to its end or an error, \<open>tries k\<close> bounds
      the interruptions to come. A seek is refused or stays within the contents.\<close>
  "reads_descriptor sys fd ok contents tries \<longleftrightarrow>
     (\<forall>k n. ok k \<and> 0 < n \<longrightarrow>
        (case sys_read sys fd n k of ((r, bs), k') \<Rightarrow> ok k' \<and> r \<le> n \<and> length bs = nat r \<and>
          (if r < 0 \<and> sys_errno sys k' = sys_EINTR sys then contents k' = contents k \<and> tries k' < tries k
           else contents k = bs @ contents k' \<and> (r \<le> 0 \<longrightarrow> contents k = [])))) \<and>
     (\<forall>k n. ok k \<and> 0 \<le> n \<longrightarrow>
        (case sys_lseek sys fd n k of (pos, k') \<Rightarrow> ok k' \<and>
          (if pos = - 1 then contents k' = contents k
           else nat n \<le> length (contents k) \<and> contents k' = drop (nat n) (contents k))))"

lemma reads_descriptorD:
  assumes "reads_descriptor sys fd ok contents tries" "ok k"
  shows "0 < n \<Longrightarrow> sys_read sys fd n k = ((r, bs), k') \<Longrightarrow> ok k' \<and> r \<le> n \<and> length bs = nat r \<and>
      (if r < 0 \<and> sys_errno sys k' = sys_EINTR sys then contents k' = contents k \<and> tries k' < tries k
       else contents k = bs @ contents k' \<and> (r \<le> 0 \<longrightarrow> contents k = []))"
    and "0 \<le> n \<Longrightarrow> sys_lseek sys fd n k = (pos, k') \<Longrightarrow> ok k' \<and>
      (if pos = - 1 then contents k' = contents k
       else nat n \<le> length (contents k) \<and> contents k' = drop (nat n) (contents k))"
proof -
  note law = assms(1) [unfolded reads_descriptor_def]
  note read = law [THEN conjunct1, THEN spec, THEN spec, THEN mp, OF conjI, OF assms(2), of n]
  note seek = law [THEN conjunct2, THEN spec, THEN spec, THEN mp, OF conjI, OF assms(2), of n]
  show "ok k' \<and> r \<le> n \<and> length bs = nat r \<and>
      (if r < 0 \<and> sys_errno sys k' = sys_EINTR sys then contents k' = contents k \<and> tries k' < tries k
       else contents k = bs @ contents k' \<and> (r \<le> 0 \<longrightarrow> contents k = []))"
    if "0 < n" "sys_read sys fd n k = ((r, bs), k')"
    using read [OF that(1)] unfolding that(2) prod.case .
  show "ok k' \<and>
      (if pos = - 1 then contents k' = contents k
       else nat n \<le> length (contents k) \<and> contents k' = drop (nat n) (contents k))"
    if "0 \<le> n" "sys_lseek sys fd n k = (pos, k')"
    using seek [OF that(1)] unfolding that(2) prod.case .
qed

definition file_in_ok :: "int \<Rightarrow> ('k \<Rightarrow> bool) \<Rightarrow> 'k copying_file_input \<Rightarrow> bool" where
  "file_in_ok fd ok f \<longleftrightarrow> cfi_file f = fd \<and> \<not> cfi_is_closed f \<and> ok (cfi_os f)"

lemma read_no_eintr_ok:
  assumes "reads_descriptor sys fd ok contents tries" "ok k" "0 < n"
  shows "\<exists>r bs k'. read_no_eintr sys fd n k = Some ((r, bs), k') \<and> ok k' \<and> r \<le> n \<and> length bs = nat r \<and>
    contents k = bs @ contents k' \<and> (r \<le> 0 \<longrightarrow> contents k = [])"
  using assms(2)
proof (induction "tries k" arbitrary: k rule: less_induct)
  case less
  obtain r bs k' where r: "sys_read sys fd n k = ((r, bs), k')"
    by (metis surj_pair)
  note law = reads_descriptorD(1) [OF assms(1) less.prems assms(3) this]
  show ?case
  proof (cases "r < 0 \<and> sys_errno sys k' = sys_EINTR sys")
    case True
    then show ?thesis
      using less.hyps [of k'] law r by (subst read_no_eintr.simps) simp
  next
    case False
    then have "read_no_eintr sys fd n k = Some ((r, bs), k')"
      using r by (subst read_no_eintr.simps) auto
    with False law show ?thesis by auto
  qed
qed

lemma CopyingFileInput_Read_ok:
  assumes "reads_descriptor sys fd ok contents tries" "file_in_ok fd ok f" "0 < n"
  shows "\<exists>k bs f'. CopyingFileInput_Read sys n f = Some ((k, bs), f') \<and> file_in_ok fd ok f' \<and>
      k \<le> n \<and> length bs = nat k \<and> contents (cfi_os f) = bs @ contents (cfi_os f') \<and> (k \<le> 0 \<longrightarrow> contents (cfi_os f) = [])"
  using read_no_eintr_ok [OF assms(1) _ assms(3), of "cfi_os f"] assms(2)
  by (auto simp: CopyingFileInput_Read_def file_in_ok_def Let_def)

lemma file_reader: "reads_descriptor sys fd ok contents tries \<Longrightarrow>
    copying_reader (CopyingFileInput_Read sys) (file_in_ok fd ok) (\<lambda>f. contents (cfi_os f))"
  by unfold_locales (rule CopyingFileInput_Read_ok)

lemma CopyingFileInput_Skip_ok:
  assumes "reads_descriptor sys fd ok contents tries" "file_in_ok fd ok f" "0 \<le> n"
  shows "\<exists>k f'. CopyingFileInput_Skip sys n f = Some (k, f') \<and> file_in_ok fd ok f' \<and>
      k = min n (int (length (contents (cfi_os f)))) \<and> contents (cfi_os f') = drop (nat n) (contents (cfi_os f))"
proof (cases "cfi_previous_seek_failed f")
  case True
  then have same: "f\<lparr>cfi_previous_seek_failed := True\<rparr> = f" by (cases f) simp
  have "CopyingFileInput_Skip sys n f = CopyingInputStream_Skip (CopyingFileInput_Read sys) n (f\<lparr>cfi_previous_seek_failed := True\<rparr>)"
    using True assms(2) by (simp add: CopyingFileInput_Skip_def file_in_ok_def)
  with copying_reader.Skip_ok [OF file_reader [OF assms(1)] assms(2,3)] show ?thesis by (simp only: same)
next
  case False
  obtain pos k where s: "sys_lseek sys fd n (cfi_os f) = (pos, k)"
    by (metis surj_pair)
  have law: "ok k" "if pos = - 1 then contents k = contents (cfi_os f)
      else nat n \<le> length (contents (cfi_os f)) \<and> contents k = drop (nat n) (contents (cfi_os f))"
    using reads_descriptorD(2) [OF assms(1) _ assms(3) s] assms(2) by (simp_all add: file_in_ok_def)
  let ?f = "f\<lparr>cfi_os := k, cfi_previous_seek_failed := True\<rparr>"
  have "file_in_ok fd ok ?f"
    using assms(2) law(1) by (simp add: file_in_ok_def)
  note Skip = copying_reader.Skip_ok [OF file_reader [OF assms(1)] this assms(3)]
  show ?thesis
  proof (cases "pos = - 1")
    case True
    then have "CopyingFileInput_Skip sys n f = CopyingInputStream_Skip (CopyingFileInput_Read sys) n ?f"
      using False s assms(2) by (simp add: CopyingFileInput_Skip_def file_in_ok_def)
    with Skip law(2) True show ?thesis by simp
  next
    case seek: False
    then have "CopyingFileInput_Skip sys n f = Some (n, f\<lparr>cfi_os := k\<rparr>)"
      using False s assms(2) by (simp add: CopyingFileInput_Skip_def file_in_ok_def)
    with law seek assms(2,3) show ?thesis by (auto simp: file_in_ok_def)
  qed
qed

lemma file_source:
  assumes "reads_descriptor sys fd ok contents tries"
  shows "copying_source (copying_file_in_ops sys) (file_in_ok fd ok) (\<lambda>f. contents (cfi_os f))"
  by unfold_locales
    (use CopyingFileInput_Read_ok [OF assms] CopyingFileInput_Skip_ok [OF assms] in \<open>simp_all add: copying_file_in_ops_def\<close>)

section \<open>Writing to a descriptor\<close>

definition accepts_descriptor ::
    "'k file_sys \<Rightarrow> int \<Rightarrow> ('k \<Rightarrow> bool) \<Rightarrow> ('k \<Rightarrow> bytes) \<Rightarrow> ('k \<Rightarrow> nat) \<Rightarrow> bool" where
  \<comment> \<open>A write stores at least one byte unless it is interrupted.\<close>
  "accepts_descriptor sys fd ok stored tries \<longleftrightarrow>
     (\<forall>k bs. ok k \<and> bs \<noteq> [] \<longrightarrow>
        (case sys_write sys fd bs k of (r, k') \<Rightarrow> ok k' \<and>
          (if r < 0 \<and> sys_errno sys k' = sys_EINTR sys then stored k' = stored k \<and> tries k' < tries k
           else 0 < r \<and> r \<le> int (length bs) \<and> stored k' = stored k @ take (nat r) bs)))"

definition file_out_ok :: "int \<Rightarrow> ('k \<Rightarrow> bool) \<Rightarrow> ('k \<Rightarrow> bytes) \<Rightarrow> bytes \<Rightarrow> 'k copying_file_output \<Rightarrow> bool" where
  \<comment> \<open>\<open>before\<close> is what the file held when the stream was made.\<close>
  "file_out_ok fd ok stored before f \<longleftrightarrow> cfo_file f = fd \<and> \<not> cfo_is_closed f \<and> \<not> cfo_close_on_delete f \<and> ok (cfo_os f) \<and>
     (\<exists>w. stored (cfo_os f) = before @ w)"

lemma write_no_eintr_ok:
  assumes "accepts_descriptor sys fd ok stored tries" "ok k" "bs \<noteq> []"
  shows "\<exists>r k'. write_no_eintr sys fd bs k = Some (r, k') \<and> ok k' \<and> 0 < r \<and> r \<le> int (length bs) \<and>
    stored k' = stored k @ take (nat r) bs"
  using assms(2)
proof (induction "tries k" arbitrary: k rule: less_induct)
  case less
  obtain r k' where r: "sys_write sys fd bs k = (r, k')"
    by (metis surj_pair)
  note law = assms(1) [unfolded accepts_descriptor_def, THEN spec, THEN spec, THEN mp, OF conjI, OF less.prems assms(3),
      unfolded this prod.case]
  have law: "ok k'"
      "if r < 0 \<and> sys_errno sys k' = sys_EINTR sys then stored k' = stored k \<and> tries k' < tries k
       else 0 < r \<and> r \<le> int (length bs) \<and> stored k' = stored k @ take (nat r) bs"
    using law by blast+
  show ?case
  proof (cases "r < 0 \<and> sys_errno sys k' = sys_EINTR sys")
    case True
    then show ?thesis
      using less.hyps [of k'] law r by (subst write_no_eintr.simps) simp
  next
    case False
    then show ?thesis
      using law r by (subst write_no_eintr.simps) auto
  qed
qed

lemma write_loop_ok:
  assumes "accepts_descriptor sys fd ok stored tries" "file_out_ok fd ok stored before f" "0 \<le> sent" "sent \<le> int (length buffer)"
  shows "\<exists>f'. CopyingFileOutput_write_loop sys buffer sent f = Some (True, f') \<and> file_out_ok fd ok stored before f' \<and>
    stored (cfo_os f') = stored (cfo_os f) @ drop (nat sent) buffer"
  using assms(2-)
proof (induction "nat (int (length buffer) - sent)" arbitrary: sent f rule: less_induct)
  case less
  show ?case
  proof (cases "sent < int (length buffer)")
    case False
    with less.prems show ?thesis
      by (subst CopyingFileOutput_write_loop.simps) simp
  next
    case True
    then have ne: "drop (nat sent) buffer \<noteq> []"
      using less.prems(2) by auto
    have pre: "ok (cfo_os f)" "cfo_file f = fd" using less.prems(1) by (auto simp: file_out_ok_def)
    obtain r k where r: "write_no_eintr sys fd (drop (nat sent) buffer) (cfo_os f) = Some (r, k)" "ok k" "0 < r"
        "r \<le> int (length (drop (nat sent) buffer))" "stored k = stored (cfo_os f) @ take (nat r) (drop (nat sent) buffer)"
      using write_no_eintr_ok [OF assms(1) pre(1) ne] by blast
    have "file_out_ok fd ok stored before (f\<lparr>cfo_os := k\<rparr>)"
      using less.prems(1) r(2,5) by (auto simp: file_out_ok_def)
    moreover have "sent + r \<le> int (length buffer)"
      using r(4) less.prems(2,3) by simp
    moreover have "nat (sent + r) = nat sent + nat r"
      using r(3) less.prems(2) by simp
    ultimately show ?thesis
      using less.hyps [of "sent + r" "f\<lparr>cfo_os := k\<rparr>"] r less.prems(2) True pre
      by (subst CopyingFileOutput_write_loop.simps) (auto simp: take_add add.commute simp flip: drop_drop)
  qed
qed

lemma file_sink:
  assumes "accepts_descriptor sys fd ok stored tries"
  shows "copying_sink (copying_file_out_ops sys) (file_out_ok fd ok stored before)
    (\<lambda>f. drop (length before) (stored (cfo_os f)))"
proof (unfold_locales, goal_cases)
  case (1 f bs)
  then have "\<not> cfo_is_closed f" "length before \<le> length (stored (cfo_os f))" by (auto simp: file_out_ok_def)
  with write_loop_ok [OF assms 1, of 0 bs] show ?case
    by (auto simp: copying_file_out_ops_def CopyingFileOutput_Write_def)
qed

end
