(* ===== verification/File_Properties.thy ===== *)
theory File_Properties
  imports File_Contract Stream_Properties
begin

text \<open>
  Messages through file descriptors and C++ streams: what is parsed is what the descriptor delivers,
  what is written reaches it in full, and a failed write is final.
\<close>

section \<open>New streams\<close>


lemma new_copying_output:
  assumes "valid s" "sunk s = []" "b \<le> INT_MAX"
  shows "coa_inv valid sunk (CopyingOutputStreamAdaptor s b)" "coa_content sunk (CopyingOutputStreamAdaptor s b) = []"
  using assms by (simp_all add: CopyingOutputStreamAdaptor_def coa_inv_def coa_content_def coa_bytes_def kDefaultBlockSize_def INT_MAX_def)


lemma copying_write:
  assumes "copying_sink ops valid sunk" "valid s" "sunk s = []" "b \<le> INT_MAX"
  obtains c t u where
    "CodedOutputStream (copying_output_ops fresh ops) (CopyingOutputStreamAdaptor s b) = Some c"
    "WriteRaw (copying_output_ops fresh ops) bs c = Some t" "\<not> HadError t"
    "Trim (copying_output_ops fresh ops) t = Some u" "coa_inv valid sunk (cos_output u)" "coa_content sunk (cos_output u) = bs"
proof -
  note new = new_copying_output [of valid s sunk b, OF assms(2-4)]
  from write_session [OF copying_sink.copying_output_contract [OF assms(1), of fresh "length bs"] new(1), of bs] new(2)
  show ?thesis by (auto intro: that)
qed

lemma copying_flush_destroy:
  assumes "copying_sink ops valid sunk" "coa_inv valid sunk a"
  obtains a' s where "CopyingOutput_Flush ops a = Some (True, a')" "CopyingOutput_destroy ops a' = Some s"
    "valid s" "sunk s = coa_content sunk a"
proof -
  from copying_sink.WriteBuffer_ok [OF assms] obtain a' where a': "CopyingOutput_Flush ops a = Some (True, a')"
      "coa_inv valid sunk a'" "coa_content sunk a' = coa_content sunk a"
    by (auto simp: CopyingOutput_Flush_def)
  from copying_sink.copying_destroy_ok [OF assms(1) a'(2)] a' show ?thesis
    by (auto intro: that)
qed

section \<open>A pipe\<close>

definition pipe_sys :: "(bytes \<times> nat) file_sys" where
  \<comment> \<open>A pipe that moves two bytes at a time and interrupts a number of calls; it refuses to seek.\<close>
  "pipe_sys = \<lparr>
     sys_read = \<lambda>_ n (c, i). if 0 < i then ((- 1, []), (c, i - 1))
       else (let bs = take (nat (min n 2)) c in ((int (length bs), bs), (drop (nat (min n 2)) c, i))),
     sys_write = \<lambda>_ bs (c, i). if 0 < i then (- 1, (c, i - 1))
       else (let ws = take 2 bs in (int (length ws), (c @ ws, i))),
     sys_lseek = \<lambda>_ _ k. (- 1, k), sys_close = \<lambda>_ k. (0, k), sys_errno = \<lambda>_. 4, sys_EINTR = 4\<rparr>"


lemma pipe_accepts: "accepts_descriptor pipe_sys fd (\<lambda>_. True) fst snd"
  by (auto simp: accepts_descriptor_def pipe_sys_def Let_def min_def)



text \<open>C27. What is written through a \<open>CodedOutputStream\<close> on a \<open>FileOutputStream\<close> or \<open>OstreamOutputStream\<close>
  is in the file, behind what it held before, once the streams are destroyed; short and interrupted
  writes lose and repeat nothing.\<close>

theorem file_streams_write:
  assumes "accepts_descriptor sys fd ok stored tries" "ok k" "os_good os" "block_size \<le> INT_MAX"
  shows "(\<exists>c t u k'. CodedOutputStream (file_output_ops fresh sys) (FileOutputStream k fd block_size) = Some c \<and>
      WriteRaw (file_output_ops fresh sys) bs c = Some t \<and> \<not> HadError t \<and> Trim (file_output_ops fresh sys) t = Some u \<and>
      FileOutput_destroy sys (cos_output u) = Some (False, k') \<and> stored k' = stored k @ bs) \<and>
    (\<exists>c t u os'. CodedOutputStream (ostream_output_ops fresh) (OstreamOutputStream os block_size) = Some c \<and>
      WriteRaw (ostream_output_ops fresh) bs c = Some t \<and> \<not> HadError t \<and> Trim (ostream_output_ops fresh) t = Some u \<and>
      OstreamOutput_destroy (cos_output u) = Some os' \<and> os_written os' = os_written os @ bs)"
proof
  let ?f = "CopyingFileOutputStream k fd" and ?ok = "file_out_ok fd ok stored (stored k)"
  note fsink = file_sink [OF assms(1), of "stored k"]
  have f: "?ok ?f" "drop (length (stored k)) (stored (cfo_os ?f)) = []"
    using assms(2) by (simp_all add: file_out_ok_def CopyingFileOutputStream_def)
  obtain c t u where w: "CodedOutputStream (file_output_ops fresh sys) (FileOutputStream k fd block_size) = Some c"
    "WriteRaw (file_output_ops fresh sys) bs c = Some t" "\<not> HadError t" "Trim (file_output_ops fresh sys) t = Some u"
    "coa_inv ?ok (\<lambda>f. drop (length (stored k)) (stored (cfo_os f))) (cos_output u)"
    "coa_content (\<lambda>f. drop (length (stored k)) (stored (cfo_os f))) (cos_output u) = bs"
    using copying_write [OF fsink f assms(4), of fresh bs] unfolding file_output_ops_def FileOutputStream_def by blast
  obtain a' g where "CopyingOutput_Flush (copying_file_out_ops sys) (cos_output u) = Some (True, a')"
      "CopyingOutput_destroy (copying_file_out_ops sys) a' = Some g" "?ok g" "drop (length (stored k)) (stored (cfo_os g)) = bs"
    using copying_flush_destroy [OF fsink w(5)] w(6) by auto
  moreover from this have "stored (cfo_os g) = stored k @ bs" "\<not> cfo_close_on_delete g"
    by (auto simp: file_out_ok_def)
  ultimately have "FileOutput_destroy sys (cos_output u) = Some (False, cfo_os g)"
    by (simp add: FileOutput_destroy_def CopyingFileOutput_destroy_def)
  with w \<open>stored (cfo_os g) = stored k @ bs\<close>
  show "\<exists>c t u k'. CodedOutputStream (file_output_ops fresh sys) (FileOutputStream k fd block_size) = Some c \<and>
      WriteRaw (file_output_ops fresh sys) bs c = Some t \<and> \<not> HadError t \<and> Trim (file_output_ops fresh sys) t = Some u \<and>
      FileOutput_destroy sys (cos_output u) = Some (False, k') \<and> stored k' = stored k @ bs"
    by blast
next
  note sink = ostream_sink.relative_sink [of "os_written os"]
  obtain c t u where w: "CodedOutputStream (ostream_output_ops fresh) (OstreamOutputStream os block_size) = Some c"
    "WriteRaw (ostream_output_ops fresh) bs c = Some t" "\<not> HadError t" "Trim (ostream_output_ops fresh) t = Some u"
    "coa_inv (\<lambda>s. os_good s \<and> (\<exists>w. os_written s = os_written os @ w)) (\<lambda>s. drop (length (os_written os)) (os_written s)) (cos_output u)"
    "coa_content (\<lambda>s. drop (length (os_written os)) (os_written s)) (cos_output u) = bs"
    using copying_write [OF sink _ _ assms(4), of os fresh bs] assms(3) unfolding ostream_output_ops_def OstreamOutputStream_def
    by auto
  obtain a' g where g: "CopyingOutput_Flush copying_ostream_ops (cos_output u) = Some (True, a')"
      "CopyingOutput_destroy copying_ostream_ops a' = Some g" "\<exists>w. os_written g = os_written os @ w"
      "drop (length (os_written os)) (os_written g) = bs"
    using copying_flush_destroy [OF sink w(5)] w(6) by metis
  then have "os_written g = os_written os @ bs" by auto
  with w g show "\<exists>c t u os'. CodedOutputStream (ostream_output_ops fresh) (OstreamOutputStream os block_size) = Some c \<and>
      WriteRaw (ostream_output_ops fresh) bs c = Some t \<and> \<not> HadError t \<and> Trim (ostream_output_ops fresh) t = Some u \<and>
      OstreamOutput_destroy (cos_output u) = Some os' \<and> os_written os' = os_written os @ bs"
    by (auto simp: OstreamOutput_destroy_def)
qed

theorem file_streams_write_witness:
  "\<exists>c t u k'. CodedOutputStream (file_output_ops (\<lambda>_. 7) pipe_sys) (FileOutputStream ([9], 2) 0 4) = Some c \<and>
     WriteRaw (file_output_ops (\<lambda>_. 7) pipe_sys) [1, 2, 3, 4, 5] c = Some t \<and> Trim (file_output_ops (\<lambda>_. 7) pipe_sys) t = Some u \<and>
     FileOutput_destroy pipe_sys (cos_output u) = Some (False, k') \<and> fst k' = [9, 1, 2, 3, 4, 5]"
  using file_streams_write [OF pipe_accepts, where k = "([9], 2)" and os = "\<lparr>os_written = [], os_good = True\<rparr>"
      and block_size = 4 and fresh = "\<lambda>_. 7" and fd = 0 and bs = "[1, 2, 3, 4, 5]"]
  by (auto simp: INT_MAX_def)

section \<open>A failed write\<close>

datatype output_call = Call_Next | Call_BackUp int | Call_Store nat bytes | Call_Flush

fun output_calls ::
    "(nat \<Rightarrow> uint8) \<Rightarrow> 's copying_out_ops \<Rightarrow> output_call list \<Rightarrow> 's copying_output \<Rightarrow> 's copying_output option" where
  "output_calls fresh ops [] a = Some a"
| "output_calls fresh ops (Call_Next # cs) a = do { (_, a) \<leftarrow> CopyingOutput_Next fresh ops a; output_calls fresh ops cs a }"
| "output_calls fresh ops (Call_BackUp n # cs) a = do { a \<leftarrow> CopyingOutput_BackUp n a; output_calls fresh ops cs a }"
| "output_calls fresh ops (Call_Store i bs # cs) a = output_calls fresh ops cs (CopyingOutput_poke i bs a)"
| "output_calls fresh ops (Call_Flush # cs) a = do { (_, a) \<leftarrow> CopyingOutput_Flush ops a; output_calls fresh ops cs a }"

lemma output_calls_failed:
  "output_calls fresh ops cs a = Some b \<Longrightarrow> coa_failed a \<Longrightarrow>
   coa_failed b \<and> coa_copying_stream b = coa_copying_stream a \<and> coa_position b = coa_position a"
proof (induction fresh ops cs a rule: output_calls.induct)
  case (2 fresh ops cs a)
  then show ?case
    by (auto simp: CopyingOutput_Next_def CopyingOutput_WriteBuffer_def CopyingOutput_AllocateBufferIfNeeded_def
        split: if_splits Option.bind_splits)
next
  case (3 fresh ops n cs a)
  then show ?case
    by (auto simp: CopyingOutput_BackUp_def split: if_splits)
qed (auto simp: CopyingOutput_poke_def CopyingOutput_Flush_def CopyingOutput_WriteBuffer_def)

text \<open>C39. After a failed write nothing reaches the underlying stream any more, whatever is called, no
  flush succeeds, and the position stays at the bytes that were accepted.\<close>

theorem failed_write_is_final:
  assumes "CopyingOutput_WriteBuffer ops a = Some (False, a')" "output_calls fresh ops cs a' = Some b"
  shows "coa_copying_stream b = coa_copying_stream a' \<and> coa_position b = coa_position a \<and>
    CopyingOutput_Flush ops b = Some (False, b) \<and> CopyingOutput_destroy ops b = Some (coa_copying_stream a')"
proof -
  have "coa_failed a'" "coa_position a' = coa_position a"
    using assms(1) by (auto simp: CopyingOutput_WriteBuffer_def CopyingOutput_FreeBuffer_def Let_def
        split: if_splits Option.bind_splits)
  with output_calls_failed [OF assms(2)] show ?thesis
    by (simp add: CopyingOutput_Flush_def CopyingOutput_destroy_def CopyingOutput_WriteBuffer_def)
qed

definition full_disk :: "bytes copying_out_ops" where
  \<comment> \<open>Accepts four bytes in all.\<close>
  "full_disk = \<lparr>cout_write = \<lambda>bs w. if length (w @ bs) \<le> 4 then Some (True, w @ bs) else Some (False, w)\<rparr>"

theorem failed_write_is_final_witness:
  "\<exists>a b. CopyingOutput_WriteBuffer full_disk \<lparr>coa_copying_stream = [1, 2], coa_failed = False, coa_position = 2,
       coa_buffer = Some [3, 4, 5], coa_buffer_size = 3, coa_buffer_used = 3\<rparr> = Some (False, a) \<and>
     output_calls (\<lambda>_. 7) full_disk [Call_Next, Call_Store 0 [6], Call_BackUp 2, Call_Flush, Call_Next] a = Some b \<and>
     coa_copying_stream b = [1, 2]"
proof -
  let ?a = "\<lparr>coa_copying_stream = [1, 2], coa_failed = False, coa_position = 2,
       coa_buffer = Some [3, 4, 5], coa_buffer_size = 3, coa_buffer_used = 3\<rparr> :: bytes copying_output"
  let ?f = "\<lparr>coa_copying_stream = [1, 2], coa_failed = True, coa_position = 2,
       coa_buffer = None, coa_buffer_size = 3, coa_buffer_used = 0\<rparr> :: bytes copying_output"
  have f: "CopyingOutput_WriteBuffer full_disk ?a = Some (False, ?f)" by code_simp
  have "\<exists>b. output_calls (\<lambda>_. 7) full_disk [Call_Next, Call_Store 0 [6], Call_BackUp 2, Call_Flush, Call_Next] ?f = Some b"
    by (intro exI) code_simp
  then obtain b where b: "output_calls (\<lambda>_. 7) full_disk [Call_Next, Call_Store 0 [6], Call_BackUp 2, Call_Flush, Call_Next] ?f = Some b"
    by blast
  with f failed_write_is_final [OF f b] show ?thesis by auto
qed

end
