(* ===== verification/Repeated_Ptr_Field.thy ===== *)
theory Repeated_Ptr_Field
  imports Repeated_Field
begin

text \<open>
  \<open>RepeatedPtrFieldBase\<close> and \<open>RepeatedPtrField<Element>\<close> of \<open>repeated_field.h\<close> and \<open>repeated_field.cc\<close>:
  the array of pointers in which the generated classes keep repeated strings and messages. The
  objects live in a store, a map from addresses to objects; an object is on the heap or on an arena,
  and an arena can be told to own a heap object. Deleting an object that is not on the heap, or not
  any more, is undefined (\<open>None\<close>), and so is reading a slot of the array that was never set. The
  \<open>TypeHandler\<close> is a record of what the code asks of the element type. Cleared objects stay in the
  array, behind the current ones, and are used again.
\<close>

section \<open>The store\<close>

record 'm obj =
  obj_value :: 'm
  obj_arena :: "nat option"
  obj_owner :: "nat option" \<comment> \<open>the arena that has been told to own this heap object\<close>

record 'm store =
  st_objects :: "nat \<Rightarrow> 'm obj option"
  st_next :: nat

record 'm type_handler =
  th_new :: 'm \<comment> \<open>the value of a new object\<close>
  th_clear :: "'m \<Rightarrow> 'm"
  th_merge :: "'m \<Rightarrow> 'm \<Rightarrow> 'm" \<comment> \<open>\<open>Merge(from, to)\<close>\<close>
  th_reports_arena :: bool \<comment> \<open>\<open>GetArena\<close> of a string is always null\<close>

definition th_New :: "'m type_handler \<Rightarrow> nat option \<Rightarrow> 'm store \<Rightarrow> nat \<times> 'm store" where
  \<comment> \<open>\<open>NewFromPrototype\<close>\<close>
  "th_New th arena st =
     (let p = st_next st in
      (p, st\<lparr>st_objects := (st_objects st)(p \<mapsto> \<lparr>obj_value = th_new th, obj_arena = arena, obj_owner = None\<rparr>),
            st_next := p + 1\<rparr>))"

definition th_Delete :: "nat \<Rightarrow> nat option \<Rightarrow> 'm store \<Rightarrow> 'm store option" where
  "th_Delete p arena st =
     (if arena = None then do {
        x \<leftarrow> st_objects st p;
        if obj_arena x = None \<and> obj_owner x = None then Some (st\<lparr>st_objects := (st_objects st)(p := None)\<rparr>) else None
      }
      else Some st)"

definition th_Clear :: "'m type_handler \<Rightarrow> nat \<Rightarrow> 'm store \<Rightarrow> 'm store option" where
  "th_Clear th p st = do {
     x \<leftarrow> st_objects st p;
     Some (st\<lparr>st_objects := (st_objects st)(p \<mapsto> x\<lparr>obj_value := th_clear th (obj_value x)\<rparr>)\<rparr>)
   }"

definition th_Merge :: "'m type_handler \<Rightarrow> nat \<Rightarrow> nat \<Rightarrow> 'm store \<Rightarrow> 'm store option" where
  "th_Merge th from to st = do {
     x \<leftarrow> st_objects st from;
     y \<leftarrow> st_objects st to;
     Some (st\<lparr>st_objects := (st_objects st)(to \<mapsto> y\<lparr>obj_value := th_merge th (obj_value x) (obj_value y)\<rparr>)\<rparr>)
   }"

definition th_GetArena :: "'m type_handler \<Rightarrow> nat \<Rightarrow> 'm store \<Rightarrow> nat option option" where
  "th_GetArena th p st = do { x \<leftarrow> st_objects st p; Some (if th_reports_arena th then obj_arena x else None) }"

definition arena_Own :: "nat \<Rightarrow> nat \<Rightarrow> 'm store \<Rightarrow> 'm store option" where
  "arena_Own a p st = do {
     x \<leftarrow> st_objects st p;
     if obj_arena x = None \<and> obj_owner x = None
     then Some (st\<lparr>st_objects := (st_objects st)(p \<mapsto> x\<lparr>obj_owner := Some a\<rparr>)\<rparr>) else None
   }"

section \<open>State\<close>

record rpf_rep =
  allocated_size :: int
  elements :: "nat option list" \<comment> \<open>a slot that was never set is \<open>None\<close>\<close>

record repeated_ptr_field =
  rpf_arena :: "nat option"
  rpf_current_size :: int
  rpf_total_size :: int
  rpf_rep :: "rpf_rep option"

definition RepeatedPtrField :: "nat option \<Rightarrow> repeated_ptr_field" where
  "RepeatedPtrField arena = \<lparr>rpf_arena = arena, rpf_current_size = 0, rpf_total_size = 0, rpf_rep = None\<rparr>"

definition rpf_at :: "int \<Rightarrow> rpf_rep \<Rightarrow> nat option" where
  \<comment> \<open>\<open>elements[i]\<close>\<close>
  "rpf_at i rep = (if 0 \<le> i \<and> nat i < length (elements rep) then elements rep ! nat i else None)"

definition rpf_put :: "int \<Rightarrow> nat option \<Rightarrow> rpf_rep \<Rightarrow> rpf_rep option" where
  \<comment> \<open>\<open>elements[i] = v\<close>\<close>
  "rpf_put i v rep =
     (if 0 \<le> i \<and> nat i < length (elements rep) then Some (rep\<lparr>elements := (elements rep)[nat i := v]\<rparr>) else None)"

definition rpf_empty :: "repeated_ptr_field \<Rightarrow> bool" where
  "rpf_empty f \<longleftrightarrow> rpf_current_size f = 0"

definition rpf_size :: "repeated_ptr_field \<Rightarrow> int" where
  "rpf_size f = rpf_current_size f"

definition rpf_Capacity :: "repeated_ptr_field \<Rightarrow> int" where
  "rpf_Capacity f = rpf_total_size f"

definition rpf_ClearedCount :: "repeated_ptr_field \<Rightarrow> int" where
  "rpf_ClearedCount f = (case rpf_rep f of None \<Rightarrow> 0 | Some rep \<Rightarrow> allocated_size rep - rpf_current_size f)"

definition rpf_Mutable :: "int \<Rightarrow> repeated_ptr_field \<Rightarrow> nat option" where
  "rpf_Mutable index f = do { rep \<leftarrow> rpf_rep f; rpf_at index rep }"

definition rpf_Get :: "int \<Rightarrow> 'm store \<Rightarrow> repeated_ptr_field \<Rightarrow> 'm option" where
  "rpf_Get index st f = do { rep \<leftarrow> rpf_rep f; p \<leftarrow> rpf_at index rep; x \<leftarrow> st_objects st p; Some (obj_value x) }"

definition rpf_Delete :: "int \<Rightarrow> 'm store \<Rightarrow> repeated_ptr_field \<Rightarrow> 'm store option" where
  "rpf_Delete index st f = do { rep \<leftarrow> rpf_rep f; p \<leftarrow> rpf_at index rep; th_Delete p (rpf_arena f) st }"

section \<open>Growing\<close>

definition rpf_InternalExtend :: "int \<Rightarrow> repeated_ptr_field \<Rightarrow> repeated_ptr_field option" where
  \<comment> \<open>The pointer returned is \<open>elements + current_size_\<close>. An \<open>int\<close> fits into \<open>size_t\<close>, so the check of the
      size passes; an overflow of the \<open>int\<close> sums is undefined.\<close>
  "rpf_InternalExtend extend_amount f =
     (let new_size = rpf_current_size f + extend_amount in
      if new_size > INT_MAX then None
      else if rpf_total_size f \<ge> new_size then Some f
      else if rpf_total_size f * 2 > INT_MAX then None
      else
        let new_size = max kMinRepeatedFieldAllocationSize (max (rpf_total_size f * 2) new_size);
            fresh = replicate (nat new_size) None;
            rep = (case rpf_rep f of
                     None \<Rightarrow> \<lparr>allocated_size = 0, elements = fresh\<rparr>
                   | Some old \<Rightarrow>
                       if allocated_size old > 0
                       then \<lparr>allocated_size = allocated_size old,
                             elements = take (nat (allocated_size old)) (elements old) @ drop (nat (allocated_size old)) fresh\<rparr>
                       else \<lparr>allocated_size = 0, elements = fresh\<rparr>)
        in Some (f\<lparr>rpf_total_size := new_size, rpf_rep := Some rep\<rparr>))"

definition rpf_Reserve :: "int \<Rightarrow> repeated_ptr_field \<Rightarrow> repeated_ptr_field option" where
  "rpf_Reserve new_size f =
     (if new_size > rpf_current_size f then rpf_InternalExtend (new_size - rpf_current_size f) f else Some f)"

definition rpf_has_cleared :: "repeated_ptr_field \<Rightarrow> bool" where
  \<comment> \<open>\<open>rep_ != NULL && current_size_ < rep_->allocated_size\<close>\<close>
  "rpf_has_cleared f \<longleftrightarrow> (case rpf_rep f of None \<Rightarrow> False | Some rep \<Rightarrow> rpf_current_size f < allocated_size rep)"

definition rpf_is_full :: "repeated_ptr_field \<Rightarrow> bool" where
  \<comment> \<open>\<open>!rep_ || rep_->allocated_size == total_size_\<close>\<close>
  "rpf_is_full f \<longleftrightarrow> (case rpf_rep f of None \<Rightarrow> True | Some rep \<Rightarrow> allocated_size rep = rpf_total_size f)"

definition rpf_AddFromCleared :: "repeated_ptr_field \<Rightarrow> (nat option \<times> repeated_ptr_field) option" where
  "rpf_AddFromCleared f =
     (if rpf_has_cleared f then do {
        p \<leftarrow> rpf_Mutable (rpf_current_size f) f;
        Some (Some p, f\<lparr>rpf_current_size := rpf_current_size f + 1\<rparr>)
      }
      else Some (None, f))"

definition rpf_Add :: "'m type_handler \<Rightarrow> 'm store \<Rightarrow> repeated_ptr_field \<Rightarrow> (nat \<times> 'm store \<times> repeated_ptr_field) option" where
  "rpf_Add th st f =
     (if rpf_has_cleared f then do {
        p \<leftarrow> rpf_Mutable (rpf_current_size f) f;
        Some (p, st, f\<lparr>rpf_current_size := rpf_current_size f + 1\<rparr>)
      }
      else do {
        f \<leftarrow> (if rpf_is_full f then rpf_Reserve (rpf_total_size f + 1) f else Some f);
        rep \<leftarrow> rpf_rep f;
        let rep = rep\<lparr>allocated_size := allocated_size rep + 1\<rparr>;
        let (result, st) = th_New th (rpf_arena f) st;
        rep \<leftarrow> rpf_put (rpf_current_size f) (Some result) rep;
        Some (result, st, f\<lparr>rpf_rep := Some rep, rpf_current_size := rpf_current_size f + 1\<rparr>)
      })"

section \<open>Clearing and merging\<close>

definition rpf_RemoveLast :: "'m type_handler \<Rightarrow> 'm store \<Rightarrow> repeated_ptr_field \<Rightarrow> ('m store \<times> repeated_ptr_field) option" where
  "rpf_RemoveLast th st f = do {
     let f = f\<lparr>rpf_current_size := rpf_current_size f - 1\<rparr>;
     p \<leftarrow> rpf_Mutable (rpf_current_size f) f;
     st \<leftarrow> th_Clear th p st;
     Some (st, f)
   }"

fun rpf_clear_loop :: "'m type_handler \<Rightarrow> nat option list \<Rightarrow> 'm store \<Rightarrow> 'm store option" where
  "rpf_clear_loop th [] st = Some st"
| "rpf_clear_loop th (e # es) st = do { p \<leftarrow> e; st \<leftarrow> th_Clear th p st; rpf_clear_loop th es st }"

definition rpf_Clear :: "'m type_handler \<Rightarrow> 'm store \<Rightarrow> repeated_ptr_field \<Rightarrow> ('m store \<times> repeated_ptr_field) option" where
  "rpf_Clear th st f =
     (let n = rpf_current_size f in
      if n > 0 then do {
        rep \<leftarrow> rpf_rep f;
        if nat n \<le> length (elements rep) then do {
          st \<leftarrow> rpf_clear_loop th (take (nat n) (elements rep)) st;
          Some (st, f\<lparr>rpf_current_size := 0\<rparr>)
        }
        else None
      }
      else Some (st, f))"

fun rpf_merge_existing :: "'m type_handler \<Rightarrow> nat option list \<Rightarrow> nat option list \<Rightarrow> 'm store \<Rightarrow> 'm store option" where
  \<comment> \<open>The first loop of \<open>MergeFromInnerLoop\<close>: our elements are there already.\<close>
  "rpf_merge_existing th (our # ours) (other # others) st = do {
     other_elem \<leftarrow> other;
     new_elem \<leftarrow> our;
     st \<leftarrow> th_Merge th other_elem new_elem st;
     rpf_merge_existing th ours others st
   }"
| "rpf_merge_existing th _ _ st = Some st"

fun rpf_merge_new :: "'m type_handler \<Rightarrow> nat option \<Rightarrow> nat option list \<Rightarrow> 'm store \<Rightarrow> (nat option list \<times> 'm store) option" where
  \<comment> \<open>The second loop; the result is what is stored in \<open>our_elems\<close>.\<close>
  "rpf_merge_new th arena [] st = Some ([], st)"
| "rpf_merge_new th arena (other # others) st = do {
     other_elem \<leftarrow> other;
     let (new_elem, st) = th_New th arena st;
     st \<leftarrow> th_Merge th other_elem new_elem st;
     (ours, st) \<leftarrow> rpf_merge_new th arena others st;
     Some (Some new_elem # ours, st)
   }"

definition rpf_MergeFromInnerLoop ::
    "'m type_handler \<Rightarrow> nat option \<Rightarrow> nat option list \<Rightarrow> nat option list \<Rightarrow> nat \<Rightarrow> 'm store \<Rightarrow>
     (nat option list \<times> 'm store) option" where
  \<comment> \<open>\<open>our_elems\<close> is the array from the pointer on, \<open>other_elems\<close> the \<open>length\<close> elements to merge.\<close>
  "rpf_MergeFromInnerLoop th arena our_elems other_elems already_allocated st =
     (if length other_elems \<le> length our_elems then do {
        st \<leftarrow> rpf_merge_existing th (take already_allocated our_elems) other_elems st;
        (new, st) \<leftarrow> rpf_merge_new th arena (drop already_allocated other_elems) st;
        let kept = min already_allocated (length our_elems);
        Some (take kept our_elems @ new @ drop (kept + length new) our_elems, st)
      }
      else None)"

definition rpf_MergeFrom ::
    "'m type_handler \<Rightarrow> repeated_ptr_field \<Rightarrow> 'm store \<Rightarrow> repeated_ptr_field \<Rightarrow> ('m store \<times> repeated_ptr_field) option" where
  \<comment> \<open>With \<open>MergeFromInternal\<close>; \<open>other\<close> is another field.\<close>
  "rpf_MergeFrom th other st f =
     (if rpf_current_size other = 0 then Some (st, f)
      else do {
        other_rep \<leftarrow> rpf_rep other;
        let other_size = rpf_current_size other;
        f \<leftarrow> rpf_InternalExtend other_size f;
        rep \<leftarrow> rpf_rep f;
        let allocated_elems = allocated_size rep - rpf_current_size f;
        let at = nat (rpf_current_size f);
        (ours, st) \<leftarrow> rpf_MergeFromInnerLoop th (rpf_arena f) (drop at (elements rep))
          (take (nat other_size) (elements other_rep)) (nat allocated_elems) st;
        let rep = rep\<lparr>elements := take at (elements rep) @ ours\<rparr>;
        let f = f\<lparr>rpf_current_size := rpf_current_size f + other_size\<rparr>;
        let rep = (if allocated_size rep < rpf_current_size f then rep\<lparr>allocated_size := rpf_current_size f\<rparr> else rep);
        Some (st, f\<lparr>rpf_rep := Some rep\<rparr>)
      })"

definition rpf_CopyFrom ::
    "'m type_handler \<Rightarrow> repeated_ptr_field \<Rightarrow> 'm store \<Rightarrow> repeated_ptr_field \<Rightarrow> ('m store \<times> repeated_ptr_field) option" where
  "rpf_CopyFrom th other st f = do { (st, f) \<leftarrow> rpf_Clear th st f; rpf_MergeFrom th other st f }"

definition RepeatedPtrField_copy ::
    "'m type_handler \<Rightarrow> repeated_ptr_field \<Rightarrow> 'm store \<Rightarrow> ('m store \<times> repeated_ptr_field) option" where
  \<comment> \<open>The copy constructor.\<close>
  "RepeatedPtrField_copy th other st = rpf_CopyFrom th other st (RepeatedPtrField None)"

fun rpf_delete_loop :: "nat option list \<Rightarrow> 'm store \<Rightarrow> 'm store option" where
  "rpf_delete_loop [] st = Some st"
| "rpf_delete_loop (e # es) st = do { p \<leftarrow> e; st \<leftarrow> th_Delete p None st; rpf_delete_loop es st }"

definition rpf_Destroy :: "'m store \<Rightarrow> repeated_ptr_field \<Rightarrow> ('m store \<times> repeated_ptr_field) option" where
  "rpf_Destroy st f = do {
     st \<leftarrow> (case rpf_rep f of
            Some rep \<Rightarrow>
              if rpf_arena f = None then
                if 0 \<le> allocated_size rep \<and> nat (allocated_size rep) \<le> length (elements rep)
                then rpf_delete_loop (take (nat (allocated_size rep)) (elements rep)) st else None
              else Some st
          | None \<Rightarrow> Some st);
     Some (st, f\<lparr>rpf_rep := None\<rparr>)
   }"

section \<open>Swapping\<close>

definition rpf_InternalSwap :: "repeated_ptr_field \<Rightarrow> repeated_ptr_field \<Rightarrow> repeated_ptr_field \<times> repeated_ptr_field" where
  \<comment> \<open>This field and the other one afterwards.\<close>
  "rpf_InternalSwap f g =
     (f\<lparr>rpf_rep := rpf_rep g, rpf_current_size := rpf_current_size g, rpf_total_size := rpf_total_size g\<rparr>,
      g\<lparr>rpf_rep := rpf_rep f, rpf_current_size := rpf_current_size f, rpf_total_size := rpf_total_size f\<rparr>)"

definition rpf_SwapFallback ::
    "'m type_handler \<Rightarrow> 'm store \<Rightarrow> repeated_ptr_field \<Rightarrow> repeated_ptr_field \<Rightarrow>
     ('m store \<times> repeated_ptr_field \<times> repeated_ptr_field) option" where
  "rpf_SwapFallback th st f other = do {
     let temp = RepeatedPtrField (rpf_arena other);
     (st, temp) \<leftarrow> rpf_MergeFrom th f st temp;
     (st, f) \<leftarrow> rpf_Clear th st f;
     (st, f) \<leftarrow> rpf_MergeFrom th other st f;
     (st, other) \<leftarrow> rpf_Clear th st other;
     let (other, temp) = rpf_InternalSwap other temp;
     (st, temp) \<leftarrow> rpf_Destroy st temp;
     Some (st, f, other)
   }"

definition rpf_Swap ::
    "'m type_handler \<Rightarrow> 'm store \<Rightarrow> repeated_ptr_field \<Rightarrow> repeated_ptr_field \<Rightarrow>
     ('m store \<times> repeated_ptr_field \<times> repeated_ptr_field) option" where
  "rpf_Swap th st f other =
     (if rpf_arena other = rpf_arena f then (let (f, other) = rpf_InternalSwap f other in Some (st, f, other))
      else rpf_SwapFallback th st f other)"

definition rpf_SwapElements :: "int \<Rightarrow> int \<Rightarrow> repeated_ptr_field \<Rightarrow> repeated_ptr_field option" where
  "rpf_SwapElements index1 index2 f = do {
     rep \<leftarrow> rpf_rep f;
     let x = rpf_at index1 rep;
     let y = rpf_at index2 rep;
     rep \<leftarrow> rpf_put index1 y rep;
     rep \<leftarrow> rpf_put index2 x rep;
     Some (f\<lparr>rpf_rep := Some rep\<rparr>)
   }"

section \<open>Ownership\<close>

definition rpf_UnsafeArenaAddAllocated :: "nat \<Rightarrow> 'm store \<Rightarrow> repeated_ptr_field \<Rightarrow> ('m store \<times> repeated_ptr_field) option" where
  "rpf_UnsafeArenaAddAllocated value st f = do {
     (st, f) \<leftarrow>
       (case rpf_rep f of
          None \<Rightarrow> do {
            f \<leftarrow> rpf_Reserve (rpf_total_size f + 1) f;
            rep \<leftarrow> rpf_rep f;
            Some (st, f\<lparr>rpf_rep := Some (rep\<lparr>allocated_size := allocated_size rep + 1\<rparr>)\<rparr>)
          }
        | Some rep \<Rightarrow>
            if rpf_current_size f = rpf_total_size f then do {
              f \<leftarrow> rpf_Reserve (rpf_total_size f + 1) f;
              rep \<leftarrow> rpf_rep f;
              Some (st, f\<lparr>rpf_rep := Some (rep\<lparr>allocated_size := allocated_size rep + 1\<rparr>)\<rparr>)
            }
            else if allocated_size rep = rpf_total_size f then do {
              p \<leftarrow> rpf_at (rpf_current_size f) rep;
              st \<leftarrow> th_Delete p (rpf_arena f) st;
              Some (st, f)
            }
            else if rpf_current_size f < allocated_size rep then do {
              rep \<leftarrow> rpf_put (allocated_size rep) (rpf_at (rpf_current_size f) rep) rep;
              Some (st, f\<lparr>rpf_rep := Some (rep\<lparr>allocated_size := allocated_size rep + 1\<rparr>)\<rparr>)
            }
            else Some (st, f\<lparr>rpf_rep := Some (rep\<lparr>allocated_size := allocated_size rep + 1\<rparr>)\<rparr>));
     rep \<leftarrow> rpf_rep f;
     rep \<leftarrow> rpf_put (rpf_current_size f) (Some value) rep;
     Some (st, f\<lparr>rpf_rep := Some rep, rpf_current_size := rpf_current_size f + 1\<rparr>)
   }"

definition rpf_AddAllocatedSlowWithCopy ::
    "'m type_handler \<Rightarrow> nat \<Rightarrow> nat option \<Rightarrow> nat option \<Rightarrow> 'm store \<Rightarrow> repeated_ptr_field \<Rightarrow>
     ('m store \<times> repeated_ptr_field) option" where
  "rpf_AddAllocatedSlowWithCopy th value value_arena my_arena st f = do {
     (value, st) \<leftarrow>
       (if my_arena \<noteq> None \<and> value_arena = None then do {
          st \<leftarrow> arena_Own (the my_arena) value st;
          Some (value, st)
        }
        else if my_arena \<noteq> value_arena then do {
          let (new_value, st) = th_New th my_arena st;
          st \<leftarrow> th_Merge th value new_value st;
          st \<leftarrow> th_Delete value value_arena st;
          Some (new_value, st)
        }
        else Some (value, st));
     rpf_UnsafeArenaAddAllocated value st f
   }"

definition rpf_add_allocated_fast :: "nat \<Rightarrow> rpf_rep \<Rightarrow> repeated_ptr_field \<Rightarrow> repeated_ptr_field option" where
  \<comment> \<open>The fast path that both versions of \<open>AddAllocatedInternal\<close> share.\<close>
  "rpf_add_allocated_fast value rep f = do {
     rep \<leftarrow> (if rpf_current_size f < allocated_size rep
            then rpf_put (allocated_size rep) (rpf_at (rpf_current_size f) rep) rep else Some rep);
     rep \<leftarrow> rpf_put (rpf_current_size f) (Some value) rep;
     Some (f\<lparr>rpf_rep := Some (rep\<lparr>allocated_size := allocated_size rep + 1\<rparr>), rpf_current_size := rpf_current_size f + 1\<rparr>)
   }"

definition rpf_AddAllocatedInternal_merge ::
    "'m type_handler \<Rightarrow> nat \<Rightarrow> 'm store \<Rightarrow> repeated_ptr_field \<Rightarrow> ('m store \<times> repeated_ptr_field) option" where
  \<comment> \<open>For types that implement merging.\<close>
  "rpf_AddAllocatedInternal_merge th value st f = do {
     element_arena \<leftarrow> th_GetArena th value st;
     let arena = rpf_arena f;
     (case rpf_rep f of
        Some rep \<Rightarrow>
          if arena = element_arena \<and> allocated_size rep < rpf_total_size f
          then map_option (\<lambda>f. (st, f)) (rpf_add_allocated_fast value rep f)
          else rpf_AddAllocatedSlowWithCopy th value element_arena arena st f
      | None \<Rightarrow> rpf_AddAllocatedSlowWithCopy th value element_arena arena st f)
   }"

definition rpf_AddAllocatedInternal_nomerge ::
    "nat \<Rightarrow> 'm store \<Rightarrow> repeated_ptr_field \<Rightarrow> ('m store \<times> repeated_ptr_field) option" where
  "rpf_AddAllocatedInternal_nomerge value st f =
     (case rpf_rep f of
        Some rep \<Rightarrow>
          if allocated_size rep < rpf_total_size f
          then map_option (\<lambda>f. (st, f)) (rpf_add_allocated_fast value rep f)
          else rpf_UnsafeArenaAddAllocated value st f
      | None \<Rightarrow> rpf_UnsafeArenaAddAllocated value st f)"

definition rpf_UnsafeArenaReleaseLast :: "repeated_ptr_field \<Rightarrow> (nat \<times> repeated_ptr_field) option" where
  "rpf_UnsafeArenaReleaseLast f = do {
     let f = f\<lparr>rpf_current_size := rpf_current_size f - 1\<rparr>;
     rep \<leftarrow> rpf_rep f;
     result \<leftarrow> rpf_at (rpf_current_size f) rep;
     let rep = rep\<lparr>allocated_size := allocated_size rep - 1\<rparr>;
     rep \<leftarrow> (if rpf_current_size f < allocated_size rep
            then rpf_put (rpf_current_size f) (rpf_at (allocated_size rep) rep) rep else Some rep);
     Some (result, f\<lparr>rpf_rep := Some rep\<rparr>)
   }"

definition rpf_ReleaseLast_merge ::
    "'m type_handler \<Rightarrow> 'm store \<Rightarrow> repeated_ptr_field \<Rightarrow> (nat \<times> 'm store \<times> repeated_ptr_field) option" where
  "rpf_ReleaseLast_merge th st f = do {
     (result, f) \<leftarrow> rpf_UnsafeArenaReleaseLast f;
     if rpf_arena f = None then Some (result, st, f)
     else do {
       let (new_result, st) = th_New th None st;
       st \<leftarrow> th_Merge th result new_result st;
       Some (new_result, st, f)
     }
   }"

definition rpf_AddCleared :: "nat \<Rightarrow> repeated_ptr_field \<Rightarrow> repeated_ptr_field option" where
  "rpf_AddCleared value f = do {
     f \<leftarrow> (if rpf_is_full f then rpf_Reserve (rpf_total_size f + 1) f else Some f);
     rep \<leftarrow> rpf_rep f;
     rep \<leftarrow> rpf_put (allocated_size rep) (Some value) rep;
     Some (f\<lparr>rpf_rep := Some (rep\<lparr>allocated_size := allocated_size rep + 1\<rparr>)\<rparr>)
   }"

definition rpf_ReleaseCleared :: "repeated_ptr_field \<Rightarrow> (nat \<times> repeated_ptr_field) option" where
  "rpf_ReleaseCleared f = do {
     rep \<leftarrow> rpf_rep f;
     let rep = rep\<lparr>allocated_size := allocated_size rep - 1\<rparr>;
     p \<leftarrow> rpf_at (allocated_size rep) rep;
     Some (p, f\<lparr>rpf_rep := Some rep\<rparr>)
   }"

section \<open>Subranges\<close>

fun rpf_close_gap_loop :: "int list \<Rightarrow> int \<Rightarrow> rpf_rep \<Rightarrow> rpf_rep option" where
  \<comment> \<open>\<open>elements[i - num] = elements[i]\<close> for the indices \<open>i\<close> given.\<close>
  "rpf_close_gap_loop [] num rep = Some rep"
| "rpf_close_gap_loop (i # is) num rep = do {
     rep \<leftarrow> rpf_put (i - num) (rpf_at i rep) rep;
     rpf_close_gap_loop is num rep
   }"

definition rpf_CloseGap :: "int \<Rightarrow> int \<Rightarrow> repeated_ptr_field \<Rightarrow> repeated_ptr_field option" where
  "rpf_CloseGap start num f =
     (case rpf_rep f of
        None \<Rightarrow> Some f
      | Some rep \<Rightarrow> do {
          rep \<leftarrow> rpf_close_gap_loop [start + num..allocated_size rep - 1] num rep;
          Some (f\<lparr>rpf_current_size := rpf_current_size f - num,
                  rpf_rep := Some (rep\<lparr>allocated_size := allocated_size rep - num\<rparr>)\<rparr>)
        })"

fun rpf_mutable_all :: "int list \<Rightarrow> repeated_ptr_field \<Rightarrow> nat list option" where
  \<comment> \<open>\<open>elements[i] = Mutable(i + start)\<close> for the indices given.\<close>
  "rpf_mutable_all [] f = Some []"
| "rpf_mutable_all (i # is) f = do { p \<leftarrow> rpf_Mutable i f; ps \<leftarrow> rpf_mutable_all is f; Some (p # ps) }"

fun rpf_copy_all :: "'m type_handler \<Rightarrow> int list \<Rightarrow> 'm store \<Rightarrow> repeated_ptr_field \<Rightarrow> (nat list \<times> 'm store) option" where
  \<comment> \<open>The loop that makes a copy of each element on the heap.\<close>
  "rpf_copy_all th [] st f = Some ([], st)"
| "rpf_copy_all th (i # is) st f = do {
     p \<leftarrow> rpf_Mutable i f;
     let (new_value, st) = th_New th None st;
     st \<leftarrow> th_Merge th p new_value st;
     (ps, st) \<leftarrow> rpf_copy_all th is st f;
     Some (new_value # ps, st)
   }"

definition rpf_UnsafeArenaExtractSubrange ::
    "int \<Rightarrow> int \<Rightarrow> bool \<Rightarrow> repeated_ptr_field \<Rightarrow> (nat list \<times> repeated_ptr_field) option" where
  \<comment> \<open>\<open>wanted\<close> is \<open>elements != NULL\<close>; the list is what is stored there.\<close>
  "rpf_UnsafeArenaExtractSubrange start num wanted f =
     (if num > 0 then do {
        ps \<leftarrow> (if wanted then rpf_mutable_all [start..start + num - 1] f else Some []);
        f \<leftarrow> rpf_CloseGap start num f;
        Some (ps, f)
      }
      else Some ([], f))"

definition rpf_ExtractSubrange_merge ::
    "'m type_handler \<Rightarrow> int \<Rightarrow> int \<Rightarrow> bool \<Rightarrow> 'm store \<Rightarrow> repeated_ptr_field \<Rightarrow>
     (nat list \<times> 'm store \<times> repeated_ptr_field) option" where
  "rpf_ExtractSubrange_merge th start num wanted st f =
     (if num > 0 then do {
        (ps, st) \<leftarrow>
          (if wanted then
             if rpf_arena f \<noteq> None then rpf_copy_all th [start..start + num - 1] st f
             else map_option (\<lambda>ps. (ps, st)) (rpf_mutable_all [start..start + num - 1] f)
           else Some ([], st));
        f \<leftarrow> rpf_CloseGap start num f;
        Some (ps, st, f)
      }
      else Some ([], st, f))"

fun rpf_delete_range :: "int list \<Rightarrow> 'm store \<Rightarrow> repeated_ptr_field \<Rightarrow> 'm store option" where
  "rpf_delete_range [] st f = Some st"
| "rpf_delete_range (i # is) st f = do { st \<leftarrow> rpf_Delete i st f; rpf_delete_range is st f }"

definition rpf_DeleteSubrange ::
    "'m type_handler \<Rightarrow> int \<Rightarrow> int \<Rightarrow> 'm store \<Rightarrow> repeated_ptr_field \<Rightarrow> ('m store \<times> repeated_ptr_field) option" where
  "rpf_DeleteSubrange th start num st f = do {
     st \<leftarrow> rpf_delete_range [start..start + num - 1] st f;
     (_, st, f) \<leftarrow> rpf_ExtractSubrange_merge th start num False st f;
     Some (st, f)
   }"

definition rpf_erase ::
    "'m type_handler \<Rightarrow> int \<Rightarrow> int \<Rightarrow> 'm store \<Rightarrow> repeated_ptr_field \<Rightarrow> (int \<times> 'm store \<times> repeated_ptr_field) option" where
  \<comment> \<open>Iterators are positions.\<close>
  "rpf_erase th first_pos last_pos st f = do {
     (st, f) \<leftarrow> rpf_DeleteSubrange th first_pos (last_pos - first_pos) st f;
     Some (first_pos, st, f)
   }"

section \<open>Construction from a range, and memory accounting\<close>

definition store_put :: "nat \<Rightarrow> 'm \<Rightarrow> 'm store \<Rightarrow> 'm store option" where
  \<comment> \<open>\<open>*p = v\<close>\<close>
  "store_put p v st = do {
     x \<leftarrow> st_objects st p;
     Some (st\<lparr>st_objects := (st_objects st)(p \<mapsto> x\<lparr>obj_value := v\<rparr>)\<rparr>)
   }"

fun rpf_add_all :: "'m type_handler \<Rightarrow> 'm list \<Rightarrow> 'm store \<Rightarrow> repeated_ptr_field \<Rightarrow> ('m store \<times> repeated_ptr_field) option" where
  "rpf_add_all th [] st f = Some (st, f)"
| "rpf_add_all th (v # vs) st f = do {
     (p, st, f) \<leftarrow> rpf_Add th st f;
     st \<leftarrow> store_put p v st;
     rpf_add_all th vs st f
   }"

definition RepeatedPtrField_range ::
    "'m type_handler \<Rightarrow> bool \<Rightarrow> 'm list \<Rightarrow> 'm store \<Rightarrow> ('m store \<times> repeated_ptr_field) option" where
  \<comment> \<open>The iterator constructor; the flag says whether the iterators are forward iterators, for which
      \<open>CalculateReserve\<close> is their distance, and -1 otherwise.\<close>
  "RepeatedPtrField_range th forward vs st = do {
     let f = RepeatedPtrField None;
     let reserve = (if forward then int (length vs) else -1);
     f \<leftarrow> (if reserve \<noteq> -1 then rpf_Reserve reserve f else Some f);
     rpf_add_all th vs st f
   }"

fun rpf_space_loop :: "('m \<Rightarrow> int) \<Rightarrow> nat option list \<Rightarrow> 'm store \<Rightarrow> int \<Rightarrow> int option" where
  "rpf_space_loop space [] st allocated_bytes = Some allocated_bytes"
| "rpf_space_loop space (e # es) st allocated_bytes = do {
     p \<leftarrow> e;
     x \<leftarrow> st_objects st p;
     rpf_space_loop space es st (allocated_bytes + space (obj_value x))
   }"

definition rpf_SpaceUsedExcludingSelf :: "int \<Rightarrow> int \<Rightarrow> ('m \<Rightarrow> int) \<Rightarrow> 'm store \<Rightarrow> repeated_ptr_field \<Rightarrow> int option" where
  \<comment> \<open>Given \<open>sizeof(void*)\<close>, \<open>kRepHeaderSize\<close> and the handler's \<open>SpaceUsed\<close>.\<close>
  "rpf_SpaceUsedExcludingSelf sizeof_pointer kRepHeaderSize space st f =
     (let allocated_bytes = rpf_total_size f * sizeof_pointer in
      case rpf_rep f of
        None \<Rightarrow> Some allocated_bytes
      | Some rep \<Rightarrow> do {
          allocated_bytes \<leftarrow> rpf_space_loop space (take (nat (allocated_size rep)) (elements rep)) st allocated_bytes;
          Some (allocated_bytes + kRepHeaderSize)
        })"

end
