(* ===== verification/Repeated_Ptr_Lemmas.thy ===== *)
theory Repeated_Ptr_Lemmas
  imports Repeated_Ptr_Field
begin

text \<open>
  What the operations of \<open>RepeatedPtrField\<close> do. \<open>rpf_is f live spare\<close> says which pointers the field
  holds: the current ones and, behind them, the cleared ones. \<open>rpf_wf\<close> adds that the field owns the
  objects behind them, each once, and that the cleared ones have the value of a new object. The locale
  \<open>element_type\<close> states what the code expects of the element type.
\<close>

section \<open>Shape and ownership\<close>

definition rpf_is :: "repeated_ptr_field \<Rightarrow> nat list \<Rightarrow> nat list \<Rightarrow> bool" where
  "rpf_is f live spare \<longleftrightarrow> rpf_current_size f = int (length live) \<and>
     (case rpf_rep f of
        None \<Rightarrow> live = [] \<and> spare = [] \<and> rpf_total_size f = 0
      | Some rep \<Rightarrow> (\<exists>tail. elements rep = map Some (live @ spare) @ tail) \<and>
          allocated_size rep = int (length (live @ spare)) \<and> rpf_total_size f = int (length (elements rep)) \<and>
          elements rep \<noteq> [] \<and> rpf_total_size f \<le> INT_MAX)"

definition place :: "'m store \<Rightarrow> nat \<Rightarrow> (nat option \<times> nat option) option" where
  \<comment> \<open>Where an object is and which arena has been told to own it.\<close>
  "place st p = map_option (\<lambda>x. (obj_arena x, obj_owner x)) (st_objects st p)"

fun owned_place :: "nat option \<Rightarrow> (nat option \<times> nat option) option \<Rightarrow> bool" where
  "owned_place arena None = False"
| "owned_place None (Some (x, y)) \<longleftrightarrow> x = None \<and> y = None"
| "owned_place (Some a) (Some (x, y)) \<longleftrightarrow> x = Some a \<or> y = Some a"

definition owns :: "nat option \<Rightarrow> 'm store \<Rightarrow> nat list \<Rightarrow> bool" where
  "owns arena st ps \<longleftrightarrow> distinct ps \<and> (\<forall>p \<in> set ps. owned_place arena (place st p))"

definition st_ok :: "'m store \<Rightarrow> bool" where
  "st_ok st \<longleftrightarrow> (\<forall>p \<ge> st_next st. st_objects st p = None)"

definition val :: "'m store \<Rightarrow> nat \<Rightarrow> 'm" where
  "val st p = obj_value (the (st_objects st p))"

definition rpf_wf :: "'m type_handler \<Rightarrow> 'm store \<Rightarrow> repeated_ptr_field \<Rightarrow> nat list \<Rightarrow> nat list \<Rightarrow> bool" where
  "rpf_wf th st f live spare \<longleftrightarrow> st_ok st \<and> rpf_is f live spare \<and> owns (rpf_arena f) st (live @ spare) \<and>
     (\<forall>p \<in> set spare. val st p = th_new th)"

locale element_type =
  fixes th :: "'m type_handler"
  assumes clear_value: "th_clear th v = th_new th"
    and merge_value: "th_merge th v (th_new th) = v"

definition string_type_handler :: "bytes type_handler" where
  \<comment> \<open>\<open>StringTypeHandlerBase\<close>\<close>
  "string_type_handler = \<lparr>th_new = [], th_clear = \<lambda>_. [], th_merge = \<lambda>from to. from, th_reports_arena = False\<rparr>"

interpretation string_elements: element_type string_type_handler
  by unfold_locales (simp_all add: string_type_handler_def)

section \<open>Shape\<close>

lemma rpf_is_new [simp]: "rpf_is (RepeatedPtrField arena) [] []"
  by (simp add: rpf_is_def RepeatedPtrField_def)

lemma rpf_isI:
  assumes "rpf_rep f = Some rep" "elements rep = map Some (live @ spare) @ tail" "allocated_size rep = int (length (live @ spare))"
    "rpf_current_size f = int (length live)" "rpf_total_size f = int (length (elements rep))" "elements rep \<noteq> []"
    "rpf_total_size f \<le> INT_MAX"
  shows "rpf_is f live spare"
  using assms by (auto simp: rpf_is_def)

lemma rpf_isE:
  assumes "rpf_is f live spare"
  obtains (null) "rpf_rep f = None" "live = []" "spare = []" "rpf_total_size f = 0" "rpf_current_size f = 0"
    | (rep) rep tail where "rpf_rep f = Some rep" "elements rep = map Some (live @ spare) @ tail"
        "allocated_size rep = int (length (live @ spare))" "rpf_current_size f = int (length live)"
        "rpf_total_size f = int (length live + length spare + length tail)" "0 < rpf_total_size f" "rpf_total_size f \<le> INT_MAX"
proof (cases "rpf_rep f")
  case None
  with assms null show ?thesis by (auto simp: rpf_is_def)
next
  case (Some r)
  with assms obtain tail where r: "elements r = map Some (live @ spare) @ tail" "allocated_size r = int (length (live @ spare))"
      "rpf_current_size f = int (length live)" "rpf_total_size f = int (length (elements r))" "elements r \<noteq> []"
      "rpf_total_size f \<le> INT_MAX"
    by (auto simp: rpf_is_def)
  from r(4,5) have pos: "0 < rpf_total_size f" by simp
  have "rpf_total_size f = int (length live + length spare + length tail)"
    using r(1,4) by simp
  with r pos show ?thesis
    by (intro rep [OF Some, of tail])
qed

lemma rpf_at_append:
  "elements rep = map Some (xs @ p # ys) @ tail \<Longrightarrow> rpf_at (int (length xs)) rep = Some p"
  by (simp add: rpf_at_def nth_append)

lemma rpf_put_append:
  "elements rep = xs @ y # ys \<Longrightarrow> rpf_put (int (length xs)) v rep = Some (rep\<lparr>elements := xs @ v # ys\<rparr>)"
  by (simp add: rpf_put_def)

lemma rpf_InternalExtend_ok:
  assumes "rpf_is f live spare" "0 < k" "int (length live) + k \<le> 2 ^ 30"
  shows "\<exists>f'. rpf_InternalExtend k f = Some f' \<and> rpf_is f' live spare \<and> rpf_arena f' = rpf_arena f \<and>
    rpf_total_size f' \<ge> int (length live) + k \<and> rpf_rep f' \<noteq> None \<and> rpf_total_size f' \<ge> rpf_total_size f"
  using assms(1)
proof (cases rule: rpf_isE)
  case null
  define n where "n = nat (max 4 k)"
  have n: "int n = max 4 k" by (simp add: n_def)
  let ?f = "f\<lparr>rpf_total_size := int n, rpf_rep := Some \<lparr>allocated_size = 0, elements = replicate n None\<rparr>\<rparr>"
  have "rpf_InternalExtend k f = Some ?f"
    using null assms(2,3) n by (simp add: rpf_InternalExtend_def Let_def INT_MAX_def kMinRepeatedFieldAllocationSize_def flip: n_def)
  moreover have "rpf_is ?f live spare"
    using null assms(3) n by (intro rpf_isI) (auto simp: INT_MAX_def)
  ultimately show ?thesis
    using null assms(2) n by auto
next
  case (rep rep tail)
  show ?thesis
  proof (cases "rpf_total_size f \<ge> int (length live) + k")
    case True
    with rep assms show ?thesis
      by (auto simp: rpf_InternalExtend_def INT_MAX_def)
  next
    case False
    define n where "n = nat (max kMinRepeatedFieldAllocationSize (max (rpf_total_size f * 2) (int (length live) + k)))"
    have n: "int n = max kMinRepeatedFieldAllocationSize (max (rpf_total_size f * 2) (int (length live) + k))"
      "length live + length spare < n" "int n \<le> INT_MAX"
      using False assms(2,3) rep by (auto simp: n_def INT_MAX_def kMinRepeatedFieldAllocationSize_def max_def)
    let ?r = "\<lparr>allocated_size = int (length (live @ spare)),
       elements = map Some (live @ spare) @ drop (length (live @ spare)) (replicate n None)\<rparr>"
    have "rpf_InternalExtend k f = Some (f\<lparr>rpf_total_size := int n, rpf_rep := Some ?r\<rparr>)"
    proof -
      have conds: "\<not> int (length live) + k > INT_MAX" "\<not> rpf_total_size f \<ge> int (length live) + k" "\<not> rpf_total_size f * 2 > INT_MAX"
        using False assms(3) by (simp_all add: INT_MAX_def)
      have "take (nat (allocated_size rep)) (elements rep) = map Some (live @ spare)"
        using rep by simp
      then have "(if allocated_size rep > 0
          then \<lparr>allocated_size = allocated_size rep,
                elements = take (nat (allocated_size rep)) (elements rep) @ drop (nat (allocated_size rep)) (replicate n None)\<rparr>
          else \<lparr>allocated_size = 0, elements = replicate n None\<rparr>) = ?r"
        using rep(3) by auto
      then show ?thesis
        unfolding rpf_InternalExtend_def Let_def rep(1,4) option.case n(1) [symmetric] nat_int by (simp only: conds if_False)
    qed
    moreover have "rpf_is (f\<lparr>rpf_total_size := int n, rpf_rep := Some ?r\<rparr>) live spare"
      using n(2,3) rep(4) by (intro rpf_isI [of _ ?r _ _ "drop (length (live @ spare)) (replicate n None)"]) simp_all
    ultimately show ?thesis
      using n(1) by auto
  qed
qed

lemma rpf_Reserve_ok:
  assumes "rpf_is f live spare" "k \<le> 2 ^ 30"
  shows "\<exists>f'. rpf_Reserve k f = Some f' \<and> rpf_is f' live spare \<and> rpf_arena f' = rpf_arena f \<and>
    (int (length live) < k \<longrightarrow> rpf_total_size f' \<ge> k \<and> rpf_rep f' \<noteq> None)"
proof (cases "int (length live) < k")
  case True
  with rpf_InternalExtend_ok [OF assms(1), of "k - int (length live)"] assms show ?thesis
    by (auto simp: rpf_Reserve_def rpf_is_def)
next
  case False
  with assms show ?thesis by (auto simp: rpf_Reserve_def rpf_is_def)
qed

lemma rpf_grow:
  \<comment> \<open>Room for one more pointer, as \<open>Add\<close> and \<open>AddCleared\<close> make it.\<close>
  assumes "rpf_is f live spare" "length live + length spare < 2 ^ 30"
  shows "\<exists>f' rep y tail. (if rpf_is_full f then rpf_Reserve (rpf_total_size f + 1) f else Some f) = Some f' \<and>
    rpf_is f' live spare \<and> rpf_arena f' = rpf_arena f \<and> rpf_rep f' = Some rep \<and> elements rep = map Some (live @ spare) @ y # tail"
proof -
  obtain f' where f': "(if rpf_is_full f then rpf_Reserve (rpf_total_size f + 1) f else Some f) = Some f'"
      "rpf_is f' live spare" "rpf_arena f' = rpf_arena f" "rpf_rep f' \<noteq> None" "rpf_total_size f' > int (length live + length spare)"
  proof (cases "rpf_is_full f")
    case True
    have "rpf_total_size f = int (length live + length spare)"
      using assms(1) True by (cases rule: rpf_isE) (auto simp: rpf_is_full_def)
    with True rpf_Reserve_ok [OF assms(1), of "rpf_total_size f + 1"] assms(2) show ?thesis
      by (auto intro: that)
  next
    case False
    have "rpf_rep f \<noteq> None" "rpf_total_size f > int (length live + length spare)"
      using assms(1) False by (cases rule: rpf_isE; auto simp: rpf_is_full_def)+
    with False assms(1) show ?thesis by (auto intro: that)
  qed
  from f'(2) show ?thesis
  proof (cases rule: rpf_isE)
    case (rep rep tail)
    with f'(5) obtain y tail2 where "tail = y # tail2" by (cases tail) auto
    with rep f' show ?thesis by auto
  qed (use f' in auto)
qed

lemma rpf_Mutable_nth:
  assumes "rpf_is f live spare" "i < length (live @ spare)"
  shows "rpf_Mutable (int i) f = Some ((live @ spare) ! i)"
  using assms by (cases rule: rpf_isE) (auto simp: rpf_Mutable_def rpf_at_def nth_append)

lemma rpf_has_cleared_iff: "rpf_is f live spare \<Longrightarrow> rpf_has_cleared f \<longleftrightarrow> spare \<noteq> []"
  by (erule rpf_isE) (auto simp: rpf_has_cleared_def)

lemma rpf_is_size: "rpf_is f live spare \<Longrightarrow> rpf_current_size f = int (length live)"
  by (simp add: rpf_is_def)

lemma rpf_is_resize:
  \<comment> \<open>Changing only \<open>current_size_\<close> moves the border between current and cleared elements.\<close>
  "rpf_is f live spare \<Longrightarrow> live @ spare = live' @ spare' \<Longrightarrow> rpf_is (f\<lparr>rpf_current_size := int (length live')\<rparr>) live' spare'"
  by (auto simp: rpf_is_def split: option.splits simp flip: map_append of_nat_add length_append)

section \<open>The store\<close>

definition agree :: "nat set \<Rightarrow> 'm store \<Rightarrow> 'm store \<Rightarrow> bool" where
  "agree A st st' \<longleftrightarrow> (\<forall>p \<in> A. st_objects st' p = st_objects st p)"

lemma agree_refl [simp]: "agree A st st"
  by (simp add: agree_def)

lemma agree_trans: "agree A st t \<Longrightarrow> agree B t u \<Longrightarrow> C \<subseteq> A \<Longrightarrow> C \<subseteq> B \<Longrightarrow> agree C st u"
  by (auto simp: agree_def subset_iff)

lemma agree_mono: "agree A st t \<Longrightarrow> B \<subseteq> A \<Longrightarrow> agree B st t"
  by (auto simp: agree_def)

lemma agree_val: "agree A st t \<Longrightarrow> p \<in> A \<Longrightarrow> val t p = val st p"
  by (simp add: agree_def val_def)

lemma agree_map_val: "agree A st t \<Longrightarrow> set ps \<subseteq> A \<Longrightarrow> map (val t) ps = map (val st) ps"
  by (auto simp: agree_val)

lemma place_dom: "p \<in> dom (st_objects st) \<longleftrightarrow> place st p \<noteq> None"
  by (auto simp: place_def)

lemma owned_by_none: "owned_place None (place st p) \<longleftrightarrow> (\<exists>x. st_objects st p = Some x \<and> obj_arena x = None \<and> obj_owner x = None)"
  by (cases "st_objects st p") (auto simp: place_def)

lemma owned_place_Some: "owned_place a x \<Longrightarrow> x \<noteq> None"
  by (cases x) auto

lemma owns_agree: "owns a st ps \<Longrightarrow> agree (set ps) st t \<Longrightarrow> owns a t ps"
  by (simp add: owns_def agree_def place_def)

lemma owns_sub: "owns a st ps \<Longrightarrow> set qs \<subseteq> set ps \<Longrightarrow> distinct qs \<Longrightarrow> owns a st qs"
  by (auto simp: owns_def)

lemma owns_append:
  "owns a st (ps @ qs) \<longleftrightarrow> owns a st ps \<and> owns a st qs \<and> set ps \<inter> set qs = {}"
  by (auto simp: owns_def)

lemma owns_dom: "owns a st ps \<Longrightarrow> set ps \<subseteq> dom (st_objects st)"
  unfolding owns_def using owned_place_Some place_dom by (metis subsetI)

lemma st_ok_dom: "st_ok st \<Longrightarrow> p \<in> dom (st_objects st) \<Longrightarrow> p < st_next st"
  by (auto simp: st_ok_def) (metis linorder_not_less option.distinct(1))

lemma th_New_ok:
  assumes "th_New th a st = (p, t)" "st_ok st"
  shows "p = st_next st" "st_ok t" "owns a t [p]" "val t p = th_new th" "agree (- {p}) st t" "p \<notin> dom (st_objects st)"
    "dom (st_objects t) = insert p (dom (st_objects st))"
proof -
  have p: "p = st_next st" and t: "t = st\<lparr>st_objects := (st_objects st)(p \<mapsto> \<lparr>obj_value = th_new th, obj_arena = a, obj_owner = None\<rparr>),
      st_next := Suc p\<rparr>"
    using assms(1) by (auto simp: th_New_def Let_def)
  show "p = st_next st" by (fact p)
  show "st_ok t" "p \<notin> dom (st_objects st)" "agree (- {p}) st t" "val t p = th_new th"
      "dom (st_objects t) = insert p (dom (st_objects st))"
    using assms(2) by (auto simp: t p st_ok_def agree_def val_def)
  show "owns a t [p]"
    by (cases a) (simp_all add: owns_def place_def t)
qed

definition same_place :: "'m store \<Rightarrow> 'm store \<Rightarrow> bool" where
  \<comment> \<open>Only values have changed.\<close>
  "same_place st t \<longleftrightarrow> st_next t = st_next st \<and> place t = place st"

lemma same_place_refl [simp]: "same_place st st"
  by (simp add: same_place_def)

lemma same_place_trans: "same_place st t \<Longrightarrow> same_place t u \<Longrightarrow> same_place st u"
  by (simp add: same_place_def)

lemma same_place_owns: "same_place st t \<Longrightarrow> owns a st ps \<Longrightarrow> owns a t ps"
  by (simp add: owns_def same_place_def)

lemma same_place_dom: "same_place st t \<Longrightarrow> dom (st_objects t) = dom (st_objects st)"
  by (intro set_eqI) (simp only: place_dom same_place_def)

lemma same_place_ok: "same_place st t \<Longrightarrow> st_ok st \<Longrightarrow> st_ok t"
  using same_place_dom [of st t] unfolding st_ok_def same_place_def by (metis domIff)

lemma th_Merge_ok:
  assumes "q \<in> dom (st_objects st)" "p \<in> dom (st_objects st)"
  obtains t where "th_Merge th q p st = Some t" "same_place st t" "agree (- {p}) st t" "val t p = th_merge th (val st q) (val st p)"
  using assms by (auto simp: th_Merge_def same_place_def agree_def val_def place_def fun_eq_iff)

lemma th_Clear_ok:
  assumes "p \<in> dom (st_objects st)"
  obtains t where "th_Clear th p st = Some t" "same_place st t" "agree (- {p}) st t" "val t p = th_clear th (val st p)"
  using assms by (auto simp: th_Clear_def same_place_def agree_def val_def place_def fun_eq_iff)

section \<open>Adding and removing\<close>

lemma rpf_wfD:
  assumes "rpf_wf th st f live spare"
  shows "st_ok st" "rpf_is f live spare" "owns (rpf_arena f) st (live @ spare)" "set spare \<subseteq> {p. val st p = th_new th}"
    "distinct (live @ spare)" "set (live @ spare) \<subseteq> dom (st_objects st)"
  using assms owns_dom [of "rpf_arena f" st "live @ spare"] by (auto simp: rpf_wf_def owns_def)

lemma rpf_Add_ok:
  assumes "rpf_wf th st f live spare" "length live + length spare < 2 ^ 30"
  shows "\<exists>p st' f'. rpf_Add th st f = Some (p, st', f') \<and> rpf_wf th st' f' (live @ [p]) (tl spare) \<and>
    rpf_arena f' = rpf_arena f \<and> val st' p = th_new th \<and> agree (- {p}) st st' \<and>
    (if spare = [] then p \<notin> dom (st_objects st) else p = hd spare \<and> st' = st) \<and>
    dom (st_objects st') = insert p (dom (st_objects st))"
proof (cases spare)
  case (Cons p ps)
  note W = rpf_wfD [OF assms(1)]
  have "rpf_Mutable (rpf_current_size f) f = Some p"
    using rpf_Mutable_nth [OF W(2), of "length live"] W(2) Cons by (simp add: rpf_is_size)
  moreover have "rpf_has_cleared f"
    using rpf_has_cleared_iff [OF W(2)] Cons by simp
  ultimately have "rpf_Add th st f = Some (p, st, f\<lparr>rpf_current_size := int (length (live @ [p]))\<rparr>)"
    using rpf_is_size [OF W(2)] by (simp add: rpf_Add_def add.commute)
  moreover have "rpf_is (f\<lparr>rpf_current_size := int (length (live @ [p]))\<rparr>) (live @ [p]) ps"
    using W(2) Cons by (intro rpf_is_resize) simp_all
  ultimately show ?thesis
    using W Cons by (auto simp: rpf_wf_def)
next
  case Nil
  note W = rpf_wfD [OF assms(1)]
  obtain f1 rep y tail where f1: "(if rpf_is_full f then rpf_Reserve (rpf_total_size f + 1) f else Some f) = Some f1"
      "rpf_is f1 live spare" "rpf_arena f1 = rpf_arena f" "rpf_rep f1 = Some rep" "elements rep = map Some (live @ spare) @ y # tail"
    using rpf_grow [OF W(2) assms(2)] by blast
  obtain p t where t: "th_New th (rpf_arena f) st = (p, t)" by fastforce
  note T = th_New_ok [OF t W(1)]
  let ?rep = "rep\<lparr>elements := map Some live @ Some p # tail, allocated_size := allocated_size rep + 1\<rparr>"
  let ?f = "f1\<lparr>rpf_rep := Some ?rep, rpf_current_size := int (length live) + 1\<rparr>"
  have size: "rpf_current_size f1 = int (length live)" "allocated_size rep = int (length live)"
      "rpf_total_size f1 = int (length (elements rep))" "rpf_total_size f1 \<le> INT_MAX"
    using f1(2,4) Nil by (auto simp: rpf_is_def)
  have "rpf_put (int (length (map Some live))) (Some p) (rep\<lparr>allocated_size := allocated_size rep + 1\<rparr>) = Some ?rep"
    using f1(5) Nil by (subst rpf_put_append [of _ "map Some live" y tail]) simp_all
  then have "rpf_Add th st f = Some (p, t, ?f)"
    using f1(1,3,4) t size(1) rpf_has_cleared_iff [OF W(2)] Nil by (simp add: rpf_Add_def Let_def)
  moreover have "rpf_is ?f (live @ [p]) []"
    using f1(5) size Nil by (intro rpf_isI [of _ ?rep]) (simp_all add: add.commute)
  moreover have "owns (rpf_arena f) t (live @ [p])"
    using T W(3,6) Nil owns_agree [of _ st live t] agree_mono [OF T(5), of "set live"]
    by (auto simp: owns_append simp del: Compl_iff)
  ultimately show ?thesis
    using T f1(3) Nil by (auto simp: rpf_wf_def)
qed

end
