(* ===== verification/Repeated_Ptr_Ops.thy ===== *)
theory Repeated_Ptr_Ops
  imports Repeated_Ptr_Lemmas
begin

text \<open>
  One lemma per operation of \<open>RepeatedPtrField\<close>: what it does to the two lists of pointers, to the
  values behind them, and to the rest of the store.
\<close>

lemma rpf_Reserve_wf:
  assumes "rpf_wf th st f live spare" "k \<le> 2 ^ 30"
  shows "\<exists>f'. rpf_Reserve k f = Some f' \<and> rpf_wf th st f' live spare \<and> rpf_arena f' = rpf_arena f"
  using rpf_Reserve_ok [OF rpf_wfD(2) [OF assms(1)] assms(2)] assms(1) by (auto simp: rpf_wf_def)

lemma agree_const: "agree A st t \<Longrightarrow> set ps \<subseteq> A \<Longrightarrow> \<forall>p \<in> set ps. val st p = v \<Longrightarrow> \<forall>p \<in> set ps. val t p = v"
  using agree_val [of A st t] by auto

section \<open>Clearing\<close>

context element_type
begin

lemma clear_loop_ok:
  assumes "distinct ps" "set ps \<subseteq> dom (st_objects st)"
  shows "\<exists>t. rpf_clear_loop th (map Some ps) st = Some t \<and> same_place st t \<and> agree (- set ps) st t \<and>
    (\<forall>p \<in> set ps. val t p = th_new th)"
  using assms
proof (induction ps arbitrary: st)
  case (Cons p ps)
  then have "p \<in> dom (st_objects st)" by simp
  then obtain t where t: "th_Clear th p st = Some t" "same_place st t" "agree (- {p}) st t" "val t p = th_clear th (val st p)"
    by (rule th_Clear_ok)
  then obtain u where u: "rpf_clear_loop th (map Some ps) t = Some u" "same_place t u" "agree (- set ps) t u"
      "\<forall>p \<in> set ps. val u p = th_new th"
    using Cons.IH [of t] Cons.prems same_place_dom [OF t(2)] by auto
  have "val u p = th_new th"
    using agree_val [OF u(3), of p] Cons.prems(1) t(4) clear_value by simp
  with u t Cons.prems(1) show ?case
    using same_place_trans [OF t(2) u(2)] agree_trans [OF t(3) u(3), of "- set (p # ps)"] by auto
qed simp

lemma rpf_Clear_ok:
  assumes "rpf_wf th st f live spare"
  shows "\<exists>st' f'. rpf_Clear th st f = Some (st', f') \<and> rpf_wf th st' f' [] (live @ spare) \<and> rpf_arena f' = rpf_arena f \<and>
    same_place st st' \<and> agree (- set live) st st'"
proof (cases "live = []")
  case True
  with assms rpf_is_size [OF rpf_wfD(2) [OF assms]] show ?thesis
    by (intro exI [of _ st] exI [of _ f]) (simp add: rpf_Clear_def)
next
  case False
  note W = rpf_wfD [OF assms]
  from W(2) False obtain rep tail where r: "rpf_rep f = Some rep" "elements rep = map Some (live @ spare) @ tail"
    by (auto elim: rpf_isE)
  obtain t where t: "rpf_clear_loop th (map Some live) st = Some t" "same_place st t" "agree (- set live) st t"
      "\<forall>p \<in> set live. val t p = th_new th"
    using clear_loop_ok [of live st] W(5,6) by auto
  have "rpf_Clear th st f = Some (t, f\<lparr>rpf_current_size := 0\<rparr>)"
    using False r t(1) rpf_is_size [OF W(2)] by (simp add: rpf_Clear_def)
  moreover have "rpf_is (f\<lparr>rpf_current_size := 0\<rparr>) [] (live @ spare)"
    using rpf_is_resize [OF W(2), of "[]" "live @ spare"] by simp
  moreover have "\<forall>p \<in> set spare. val t p = th_new th"
    using W(4,5) by (intro agree_const [OF t(3)]) auto
  ultimately show ?thesis
    using t W same_place_ok [OF t(2)] same_place_owns [OF t(2)] by (auto simp: rpf_wf_def)
qed

lemma rpf_RemoveLast_ok:
  assumes "rpf_wf th st f (live @ [p]) spare"
  shows "\<exists>st' f'. rpf_RemoveLast th st f = Some (st', f') \<and> rpf_wf th st' f' live (p # spare) \<and> rpf_arena f' = rpf_arena f \<and>
    same_place st st' \<and> agree (- {p}) st st'"
proof -
  note W = rpf_wfD [OF assms]
  have "p \<in> dom (st_objects st)" using W(6) by simp
  then obtain t where t: "th_Clear th p st = Some t" "same_place st t" "agree (- {p}) st t" "val t p = th_clear th (val st p)"
    by (rule th_Clear_ok)
  let ?f = "f\<lparr>rpf_current_size := int (length live)\<rparr>"
  have is': "rpf_is ?f live (p # spare)"
    by (rule rpf_is_resize [OF W(2)]) simp
  have "rpf_Mutable (int (length live)) ?f = Some p"
    using rpf_Mutable_nth [OF is', of "length live"] by simp
  then have "rpf_RemoveLast th st f = Some (t, ?f)"
    using t(1) rpf_is_size [OF W(2)] by (simp add: rpf_RemoveLast_def)
  moreover have "\<forall>q \<in> set spare. val t q = th_new th"
    using W(4,5) by (intro agree_const [OF t(3)]) auto
  ultimately show ?thesis
    using t W is' clear_value same_place_ok [OF t(2)] same_place_owns [OF t(2)] by (auto simp: rpf_wf_def)
qed

section \<open>Merging\<close>

lemma merge_existing_ok:
  assumes "distinct ours" "set ours \<inter> set others = {}" "set ours \<union> set others \<subseteq> dom (st_objects st)"
    "\<forall>p \<in> set ours. val st p = th_new th" "length ours \<le> length others"
  shows "\<exists>t. rpf_merge_existing th (map Some ours) (map Some others) st = Some t \<and> same_place st t \<and>
    agree (- set ours) st t \<and> map (val t) ours = map (val st) (take (length ours) others)"
  using assms
proof (induction ours arbitrary: others st)
  case (Cons p ps)
  then obtain q qs where q: "others = q # qs" by (cases others) auto
  with Cons.prems have "q \<in> dom (st_objects st)" "p \<in> dom (st_objects st)" by auto
  then obtain t where t: "th_Merge th q p st = Some t" "same_place st t" "agree (- {p}) st t"
      "val t p = th_merge th (val st q) (val st p)"
    by (rule th_Merge_ok)
  have "\<forall>p \<in> set ps. val t p = th_new th"
    using Cons.prems(1,4) by (intro agree_const [OF t(3)]) auto
  then obtain u where u: "rpf_merge_existing th (map Some ps) (map Some qs) t = Some u" "same_place t u"
      "agree (- set ps) t u" "map (val u) ps = map (val t) (take (length ps) qs)"
    using Cons.IH [of qs t] Cons.prems q same_place_dom [OF t(2)] by auto
  have "val u p = val st q"
    using agree_val [OF u(3), of p] Cons.prems(1,4) t(4) merge_value by simp
  moreover have "map (val t) (take (length ps) qs) = map (val st) (take (length ps) qs)"
    using Cons.prems(2) q by (intro agree_map_val [OF t(3)]) (auto dest: in_set_takeD)
  ultimately show ?case
    using u t q same_place_trans [OF t(2) u(2)] agree_trans [OF t(3) u(3), of "- set (p # ps)"] by auto
qed auto

lemma merge_new_ok:
  assumes "st_ok st" "set others \<subseteq> dom (st_objects st)"
  shows "\<exists>new t. rpf_merge_new th arena (map Some others) st = Some (map Some new, t) \<and> st_ok t \<and> owns arena t new \<and>
    set new \<inter> dom (st_objects st) = {} \<and> agree (dom (st_objects st)) st t \<and> length new = length others \<and>
    map (val t) new = map (val st) others \<and> dom (st_objects t) = set new \<union> dom (st_objects st)"
  using assms
proof (induction others arbitrary: st)
  case (Cons q qs)
  obtain p t0 where p: "th_New th arena st = (p, t0)" by fastforce
  note T = th_New_ok [OF p Cons.prems(1)]
  obtain t where t: "th_Merge th q p t0 = Some t" "same_place t0 t" "agree (- {p}) t0 t"
      "val t p = th_merge th (val t0 q) (val t0 p)"
    by (rule th_Merge_ok [of q t0 p]) (use Cons.prems(2) T(7) in auto)
  have "q \<noteq> p" using Cons.prems(2) T(6) by auto
  then have vp: "val t p = val st q"
    using t(4) T(4) merge_value agree_val [OF T(5), of q] by simp
  note D = same_place_dom [OF t(2)]
  have agree1: "agree (dom (st_objects st)) st t"
    using T(6) by (intro agree_trans [OF T(5) t(3)]) auto
  have sub: "set qs \<subseteq> dom (st_objects t)"
    using Cons.prems(2) D T(7) by auto
  obtain new u where u: "rpf_merge_new th arena (map Some qs) t = Some (map Some new, u)" "st_ok u" "owns arena u new"
      "set new \<inter> dom (st_objects t) = {}" "agree (dom (st_objects t)) t u" "length new = length qs"
      "map (val u) new = map (val t) qs" "dom (st_objects u) = set new \<union> dom (st_objects t)"
    using Cons.IH [OF same_place_ok [OF t(2) T(2)] sub] by blast
  have "owns arena u [p]"
    using owns_agree [OF same_place_owns [OF t(2) T(3)]] agree_mono [OF u(5)] D T(7) by simp
  then have "owns arena u (p # new)"
    using u(3,4) D T(7) by (auto simp: owns_def)
  moreover have "val u p = val st q" "map (val t) qs = map (val st) qs"
    using vp agree_val [OF u(5), of p] D T(7) agree_map_val [OF agree1] Cons.prems(2) by auto
  moreover have "agree (dom (st_objects st)) st u"
    using D T(7) by (intro agree_trans [OF agree1 u(5)]) auto
  ultimately show ?case
    using p t(1) u D T(6,7) by (intro exI [of _ "p # new"] exI [of _ u]) auto
qed (auto simp: owns_def)

lemma merge_existing_take: "rpf_merge_existing h ours others st = rpf_merge_existing h (take (length others) ours) others st"
  by (induction h ours others st rule: rpf_merge_existing.induct) (auto split: Option.bind_splits)

lemma inner_loop_eq:
  assumes "rpf_merge_existing th (map Some (take (length others) spare)) (map Some others) st = Some t"
    "rpf_merge_new th arena (map Some (drop (length spare) others)) t = Some (map Some new, u)"
    "length others \<le> length spare + length tail" "length new = length others - length spare"
  shows "rpf_MergeFromInnerLoop th arena (map Some spare @ tail) (map Some others) (length spare) st =
    Some (map Some spare @ map Some new @ drop (length new) tail, u)"
  using assms merge_existing_take [of th "map Some spare" "map Some others" st]
  by (simp add: rpf_MergeFromInnerLoop_def Let_def take_map drop_map)

lemma rpf_MergeFrom_ok:
  assumes "rpf_wf th st f live spare" "rpf_is g others spare_g" "set others \<subseteq> dom (st_objects st)"
    "set others \<inter> set (live @ spare) = {}" "length live + length others \<le> 2 ^ 30"
  shows "\<exists>st' f' new. rpf_MergeFrom th g st f = Some (st', f') \<and> rpf_arena f' = rpf_arena f \<and>
    rpf_wf th st' f' (live @ take (length others) spare @ new) (drop (length others) spare) \<and>
    length (take (length others) spare @ new) = length others \<and>
    map (val st') (take (length others) spare @ new) = map (val st) others \<and>
    set new \<inter> dom (st_objects st) = {} \<and> dom (st_objects st') = set new \<union> dom (st_objects st) \<and>
    agree (dom (st_objects st) - set spare) st st'"
proof (cases "others = []")
  case True
  with assms show ?thesis
    by (intro exI [of _ st] exI [of _ f] exI [of _ "[]"]) (simp add: rpf_MergeFrom_def rpf_is_size)
next
  case False
  note W = rpf_wfD [OF assms(1)]
  from assms(2) False obtain repg tailg where g: "rpf_rep g = Some repg" "elements repg = map Some (others @ spare_g) @ tailg"
    by (auto elim: rpf_isE)
  define n where "n = length others"
  have "0 < int n" using False by (simp add: n_def)
  then obtain f1 where f1: "rpf_InternalExtend (int n) f = Some f1" "rpf_is f1 live spare" "rpf_arena f1 = rpf_arena f"
      "rpf_total_size f1 \<ge> int (length live) + int n" "rpf_rep f1 \<noteq> None"
    using rpf_InternalExtend_ok [OF W(2), of "int n"] assms(5) by (auto simp: n_def)
  from f1(2,5) obtain rep tail where r: "rpf_rep f1 = Some rep" "elements rep = map Some (live @ spare) @ tail"
      "allocated_size rep = int (length (live @ spare))" "rpf_current_size f1 = int (length live)"
      "rpf_total_size f1 = int (length live + length spare + length tail)" "0 < rpf_total_size f1" "rpf_total_size f1 \<le> INT_MAX"
    by (auto elim: rpf_isE)
  let ?old = "take n spare"
  obtain t where t: "rpf_merge_existing th (map Some ?old) (map Some others) st = Some t" "same_place st t"
      "agree (- set ?old) st t" "map (val t) ?old = map (val st) (take (length ?old) others)"
  proof -
    have "set ?old \<subseteq> set spare" "set (live @ spare) \<subseteq> dom (st_objects st)" "distinct spare"
      using W(5,6) by (auto dest: in_set_takeD)
    then have "\<exists>t. rpf_merge_existing th (map Some ?old) (map Some others) st = Some t \<and> same_place st t \<and>
        agree (- set ?old) st t \<and> map (val t) ?old = map (val st) (take (length ?old) others)"
      using assms(3,4) W(4) by (intro merge_existing_ok) (auto simp: n_def)
    with that show ?thesis by blast
  qed
  obtain new u where u: "rpf_merge_new th (rpf_arena f) (map Some (drop (length spare) others)) t = Some (map Some new, u)" "st_ok u"
      "owns (rpf_arena f) u new" "set new \<inter> dom (st_objects t) = {}" "agree (dom (st_objects t)) t u"
      "length new = length (drop (length spare) others)" "map (val u) new = map (val t) (drop (length spare) others)"
      "dom (st_objects u) = set new \<union> dom (st_objects t)"
  proof -
    have "set (drop (length spare) others) \<subseteq> dom (st_objects t)"
      using assms(3) same_place_dom [OF t(2)] by (auto dest: in_set_dropD)
    from merge_new_ok [OF same_place_ok [OF t(2) W(1)] this, of "rpf_arena f"] that show ?thesis by blast
  qed
  note D = same_place_dom [OF t(2)]
  have n_new: "length new = n - length spare" using u(6) by (simp add: n_def)
  have parts: "take n spare @ new @ drop n spare = spare @ new"
    using n_new by (cases "n \<le> length spare") simp_all
  let ?els = "map Some (live @ spare @ new) @ drop (length new) tail"
  let ?rep = "\<lparr>allocated_size = int (length (live @ spare @ new)), elements = ?els\<rparr>"
  let ?f = "f1\<lparr>rpf_current_size := int (length live) + int n, rpf_rep := Some ?rep\<rparr>"
  have room: "n \<le> length spare + length tail" using f1(4) r(5) by simp
  have "rpf_MergeFromInnerLoop th (rpf_arena f) (map Some spare @ tail) (map Some others) (length spare) st =
      Some (map Some spare @ map Some new @ drop (length new) tail, u)"
    using t(1) u(1) room n_new by (intro inner_loop_eq) (simp_all add: n_def)
  note inner = this
  have "rpf_MergeFrom th g st f = Some (u, ?f)"
  proof -
    have sel: "rpf_current_size g = int n" "take n (elements repg) = map Some others" "n \<noteq> 0"
        "drop (length live) (elements rep) = map Some spare @ tail" "take (length live) (elements rep) = map Some live"
        "allocated_size rep - int (length live) = int (length spare)"
      using rpf_is_size [OF assms(2)] g(2) False r(2,3) by (simp_all add: n_def)
    have rep: "rep = \<lparr>allocated_size = int (length (live @ spare)), elements = map Some (live @ spare) @ tail\<rparr>"
      using r(2,3) by (cases rep) simp
    have "(if int (length (live @ spare)) < int (length live) + int n then int (length live) + int n else int (length (live @ spare))) =
        int (length (live @ spare @ new))"
      using n_new by auto
    then show ?thesis
      using sel(3) inner sel(4-6)
      by (simp add: rpf_MergeFrom_def sel(1,2) g(1) f1(1,3) r(1,4) Let_def rep split: if_splits)
  qed
  moreover have "rpf_is ?f (live @ take n spare @ new) (drop n spare)"
    using r(2,5,6,7) room n_new parts
    by (intro rpf_isI [of _ ?rep _ _ "drop (length new) tail"]) (auto simp flip: map_append)
  moreover have "owns (rpf_arena f) u ((live @ take n spare @ new) @ drop n spare)"
  proof -
    have "owns (rpf_arena f) u (live @ spare)"
      using W(6) D by (intro owns_agree [OF same_place_owns [OF t(2) W(3)]] agree_mono [OF u(5)]) simp
    moreover have "set (live @ spare) \<inter> set new = {}"
      using W(6) D u(4) by auto
    ultimately have "owns (rpf_arena f) u (live @ spare @ new)"
      using u(3) by (auto simp: owns_append)
    then show ?thesis by (simp add: parts)
  qed
  moreover have "map (val u) (take n spare @ new) = map (val st) others"
  proof -
    have "map (val t) (drop (length spare) others) = map (val st) (drop (length spare) others)"
      using assms(4) by (intro agree_map_val [OF t(3)]) (auto dest: in_set_takeD in_set_dropD)
    moreover have "map (val u) ?old = map (val t) ?old"
      using W(6) D by (intro agree_map_val [OF u(5)]) (auto dest: in_set_takeD)
    moreover have "take (length ?old) others @ drop (length spare) others = others"
      by (cases "n \<le> length spare") (simp_all add: n_def)
    ultimately show ?thesis
      using t(4) u(7) by (metis map_append)
  qed
  moreover have "\<forall>p \<in> set (drop n spare). val u p = th_new th"
  proof -
    have "\<forall>p \<in> set (drop n spare). val t p = th_new th"
      using W(4,5) set_take_disj_set_drop_if_distinct [of spare n n]
      by (intro agree_const [OF t(3)]) (auto dest: in_set_dropD)
    then show ?thesis
      using W(6) D by (intro agree_const [OF u(5)]) (auto dest: in_set_dropD)
  qed
  moreover have "agree (dom (st_objects st) - set spare) st u"
    using D by (intro agree_trans [OF t(3) u(5)]) (auto dest: in_set_takeD)
  ultimately show ?thesis
    using u f1(3) D n_new by (intro exI [of _ u] exI [of _ ?f] exI [of _ new]) (auto simp: rpf_wf_def n_def)
qed

lemma rpf_CopyFrom_ok:
  assumes "rpf_wf th st f live spare" "rpf_is g others spare_g" "set others \<subseteq> dom (st_objects st)"
    "set others \<inter> set (live @ spare) = {}" "length others \<le> 2 ^ 30"
  shows "\<exists>st' f' live' spare'. rpf_CopyFrom th g st f = Some (st', f') \<and> rpf_arena f' = rpf_arena f \<and>
    rpf_wf th st' f' live' spare' \<and> length live' = length others \<and> map (val st') live' = map (val st) others \<and>
    set (live' @ spare') \<inter> dom (st_objects st) \<subseteq> set (live @ spare) \<and>
    dom (st_objects st') = set (live' @ spare') \<union> dom (st_objects st) \<and>
    agree (dom (st_objects st) - set (live @ spare)) st st'"
proof -
  obtain t h where t: "rpf_Clear th st f = Some (t, h)" "rpf_wf th t h [] (live @ spare)" "rpf_arena h = rpf_arena f"
      "same_place st t" "agree (- set live) st t"
    using rpf_Clear_ok [OF assms(1)] by blast
  note D = same_place_dom [OF t(4)]
  let ?n = "length others"
  obtain u k new where u: "rpf_MergeFrom th g t h = Some (u, k)" "rpf_arena k = rpf_arena h"
      "rpf_wf th u k ([] @ take ?n (live @ spare) @ new) (drop ?n (live @ spare))"
      "length (take ?n (live @ spare) @ new) = ?n" "map (val u) (take ?n (live @ spare) @ new) = map (val t) others"
      "set new \<inter> dom (st_objects t) = {}" "dom (st_objects u) = set new \<union> dom (st_objects t)"
      "agree (dom (st_objects t) - set (live @ spare)) t u"
    using rpf_MergeFrom_ok [OF t(2) assms(2)] assms(3-5) D by auto
  let ?live = "take ?n (live @ spare) @ new" and ?spare = "drop ?n (live @ spare)"
  have sub: "set (live @ spare) \<subseteq> dom (st_objects st)" by (rule rpf_wfD(6) [OF assms(1)])
  have all: "set (?live @ ?spare) = set (live @ spare) \<union> set new"
    by (metis append_take_drop_id append.assoc set_append sup_assoc sup_commute)
  have "rpf_CopyFrom th g st f = Some (u, k)" "rpf_arena k = rpf_arena f" "rpf_wf th u k ?live ?spare"
    using t(1,3) u(1,2,3) by (simp_all add: rpf_CopyFrom_def)
  moreover have "set (?live @ ?spare) \<inter> dom (st_objects st) \<subseteq> set (live @ spare)"
    using u(6) D unfolding all by blast
  moreover have "dom (st_objects u) = set (?live @ ?spare) \<union> dom (st_objects st)"
    using u(7) D sub unfolding all by blast
  moreover have "map (val u) ?live = map (val st) others"
    using u(5) agree_map_val [OF t(5), of others] assms(4) by auto
  moreover have "agree (dom (st_objects st) - set (live @ spare)) st u"
    using D by (intro agree_trans [OF t(5) u(8)]) auto
  ultimately show ?thesis
    using u(4) by blast
qed

end

section \<open>Destruction\<close>

lemma delete_loop_ok:
  assumes "owns None st ps"
  shows "\<exists>t. rpf_delete_loop (map Some ps) st = Some t \<and> st_objects t = (\<lambda>p. if p \<in> set ps then None else st_objects st p) \<and>
    st_next t = st_next st"
  using assms
proof (induction ps arbitrary: st)
  case (Cons p ps)
  let ?t = "st\<lparr>st_objects := (st_objects st)(p := None)\<rparr>"
  have del: "th_Delete p None st = Some ?t"
    using Cons.prems by (auto simp: owns_def th_Delete_def owned_by_none)
  have "owns None st ps" "agree (set ps) st ?t"
    using Cons.prems by (auto simp: owns_def agree_def)
  then have "owns None ?t ps"
    by (rule owns_agree)
  then have "\<exists>t. rpf_delete_loop (map Some ps) ?t = Some t \<and>
      st_objects t = (\<lambda>q. if q \<in> set ps then None else st_objects ?t q) \<and> st_next t = st_next ?t"
    by (rule Cons.IH)
  then obtain t where "rpf_delete_loop (map Some ps) ?t = Some t \<and>
      st_objects t = (\<lambda>q. if q \<in> set ps then None else st_objects ?t q) \<and> st_next t = st_next ?t"
    by (rule exE)
  then have "rpf_delete_loop (map Some (p # ps)) st = Some t" "st_next t = st_next st"
      "st_objects t = (\<lambda>q. if q \<in> set (p # ps) then None else st_objects st q)"
    using del by (simp_all add: fun_eq_iff)
  then show ?case by blast
qed simp

lemma rpf_Destroy_ok:
  assumes "rpf_wf th st f live spare"
  shows "\<exists>st' f'. rpf_Destroy st f = Some (st', f') \<and>
    st_objects st' = (\<lambda>p. if rpf_arena f = None \<and> p \<in> set (live @ spare) then None else st_objects st p) \<and>
    st_next st' = st_next st"
proof -
  note W = rpf_wfD [OF assms]
  from W(2) show ?thesis
  proof (cases rule: rpf_isE)
    case null
    then show ?thesis by (simp add: rpf_Destroy_def)
  next
    case (rep rep tail)
    then show ?thesis
      using delete_loop_ok [of st "live @ spare"] W(3) by (auto simp: rpf_Destroy_def)
  qed
qed

section \<open>Swapping across arenas\<close>

lemma rpf_wf_agree:
  \<comment> \<open>A field does not notice changes to other objects.\<close>
  assumes "rpf_wf th st f live spare" "agree (set (live @ spare)) st t" "st_ok t"
  shows "rpf_wf th t f live spare" "map (val t) live = map (val st) live"
proof -
  note W = rpf_wfD [OF assms(1)]
  have "\<forall>q \<in> set spare. val t q = th_new th"
    using W(4) by (intro agree_const [OF assms(2)]) auto
  then show "rpf_wf th t f live spare"
    using W(2) assms(3) owns_agree [OF W(3) assms(2)] by (simp add: rpf_wf_def)
  show "map (val t) live = map (val st) live"
    by (rule agree_map_val [OF assms(2)]) simp
qed

lemma rpf_wf_new: "st_ok st \<Longrightarrow> rpf_wf th st (RepeatedPtrField arena) [] []"
  by (simp add: rpf_wf_def owns_def)

lemma rpf_wf_swap:
  assumes "rpf_wf th st f live spare" "rpf_wf th st g live' spare'" "rpf_arena f = rpf_arena g" "rpf_InternalSwap f g = (f', g')"
  shows "rpf_wf th st f' live' spare'" "rpf_wf th st g' live spare" "rpf_arena f' = rpf_arena f" "rpf_arena g' = rpf_arena g"
  using assms by (auto simp: rpf_InternalSwap_def rpf_wf_def rpf_is_def split: option.splits)

lemma Diff_disjointI: "B \<subseteq> D \<Longrightarrow> A \<inter> B = {} \<or> B \<inter> A = {} \<Longrightarrow> B \<subseteq> D - A"
  by blast

lemma outside_disjoint: "L \<inter> D \<subseteq> A \<Longrightarrow> B \<subseteq> D - A \<Longrightarrow> L \<inter> B = {}"
  by blast

context element_type begin

lemma rpf_SwapFallback_ok:
  assumes f: "rpf_wf th st f live spare" and g: "rpf_wf th st g live' spare'"
    and disj: "set (live @ spare) \<inter> set (live' @ spare') = {}" and len: "length live \<le> 2 ^ 30" "length live' \<le> 2 ^ 30"
  shows "\<exists>st' f' g' l s l' s'. rpf_SwapFallback th st f g = Some (st', f', g') \<and> rpf_arena f' = rpf_arena f \<and>
    rpf_arena g' = rpf_arena g \<and> rpf_wf th st' f' l s \<and> rpf_wf th st' g' l' s' \<and> set (l @ s) \<inter> set (l' @ s') = {} \<and>
    map (val st') l = map (val st) live' \<and> map (val st') l' = map (val st) live \<and>
    agree (dom (st_objects st) - set (live @ spare) - set (live' @ spare')) st st'"
proof -
  note F = rpf_wfD [OF f] and G = rpf_wfD [OF g]
  let ?A = "set (live @ spare)" and ?B = "set (live' @ spare')" and ?D = "dom (st_objects st)"
  \<comment> \<open>The elements of \<open>f\<close> are copied into the temporary.\<close>
  have "\<exists>t1 h1 new. rpf_MergeFrom th f st (RepeatedPtrField (rpf_arena g)) = Some (t1, h1) \<and> rpf_arena h1 = rpf_arena g \<and>
      rpf_wf th t1 h1 new [] \<and> map (val t1) new = map (val st) live \<and>
      set new \<inter> ?D = {} \<and> dom (st_objects t1) = set new \<union> ?D \<and> agree ?D st t1"
    using rpf_MergeFrom_ok [OF rpf_wf_new [OF F(1), of th "rpf_arena g"] F(2)] F(6) len(1) by (auto simp: RepeatedPtrField_def)
  then obtain t1 h1 new where 1: "rpf_MergeFrom th f st (RepeatedPtrField (rpf_arena g)) = Some (t1, h1)" "rpf_arena h1 = rpf_arena g"
      "rpf_wf th t1 h1 new []" "map (val t1) new = map (val st) live" "set new \<inter> ?D = {}"
      "dom (st_objects t1) = set new \<union> ?D" "agree ?D st t1"
    by blast
  note ok1 = rpf_wfD(1) [OF 1(3)]
  have f1: "rpf_wf th t1 f live spare" and g1: "rpf_wf th t1 g live' spare'" and v1: "map (val t1) live' = map (val st) live'"
    using rpf_wf_agree [OF f agree_mono [OF 1(7) F(6)] ok1] rpf_wf_agree [OF g agree_mono [OF 1(7) G(6)] ok1] by simp_all
  have new: "set new \<inter> ?A = {}" "set new \<inter> ?B = {}" using 1(5) F(6) G(6) by blast+
  \<comment> \<open>\<open>f\<close> is cleared and gets the elements of \<open>g\<close>.\<close>
  have Bdom: "set live' \<subseteq> dom (st_objects t1)" using G(6) 1(6) by auto
  obtain t3 f3 l s where 3: "rpf_CopyFrom th g t1 f = Some (t3, f3)" "rpf_arena f3 = rpf_arena f" "rpf_wf th t3 f3 l s"
      "map (val t3) l = map (val t1) live'" "set (l @ s) \<inter> dom (st_objects t1) \<subseteq> ?A"
      "agree (dom (st_objects t1) - ?A) t1 t3"
  proof -
    have "set live' \<inter> ?A = {}" using disj by auto
    from rpf_CopyFrom_ok [OF f1 G(2) Bdom this len(2)] that show ?thesis by blast
  qed
  note ok3 = rpf_wfD(1) [OF 3(3)]
  have dom3: "set new \<subseteq> dom (st_objects t1) - ?A" "?B \<subseteq> dom (st_objects t1) - ?A"
    unfolding 1(6) by (rule Diff_disjointI; use new(1) disj G(6) in blast)+
  have ls: "set (l @ s) \<inter> set new = {}" "set (l @ s) \<inter> ?B = {}"
    by (rule outside_disjoint [OF 3(5)]; fact dom3)+
  have h3: "rpf_wf th t3 h1 new []" and w3: "map (val t3) new = map (val st) live"
    using rpf_wf_agree [OF 1(3) _ ok3] agree_mono [OF 3(6) dom3(1)] 1(4) by simp_all
  have g3: "rpf_wf th t3 g live' spare'"
    by (rule rpf_wf_agree [OF g1 agree_mono [OF 3(6) dom3(2)] ok3])
  \<comment> \<open>\<open>g\<close> is cleared.\<close>
  obtain t4 g4 where 4: "rpf_Clear th t3 g = Some (t4, g4)" "rpf_wf th t4 g4 [] (live' @ spare')" "rpf_arena g4 = rpf_arena g"
      "agree (- set live') t3 t4"
    using rpf_Clear_ok [OF g3] by blast
  note ok4 = rpf_wfD(1) [OF 4(2)]
  have f4: "rpf_wf th t4 f3 l s" and v4: "map (val t4) l = map (val st) live'"
    using rpf_wf_agree [OF 3(3) agree_mono [OF 4(4)] ok4] ls(2) 3(4) v1 by auto
  have h4: "rpf_wf th t4 h1 new []" and w4: "map (val t4) new = map (val st) live"
    using rpf_wf_agree [OF h3 agree_mono [OF 4(4)] ok4] new(2) w3 by auto
  \<comment> \<open>\<open>g\<close> takes the temporary's array, and the temporary is destroyed.\<close>
  obtain g5 h5 where swap: "rpf_InternalSwap g4 h1 = (g5, h5)" by fastforce
  have arenas: "rpf_arena g4 = rpf_arena h1" using 1(2) 4(3) by simp
  note 5 = rpf_wf_swap [OF 4(2) h4 arenas swap]
  obtain t5 h6 where 6: "rpf_Destroy t4 h5 = Some (t5, h6)" "st_next t5 = st_next t4"
      "st_objects t5 = (\<lambda>p. if rpf_arena h5 = None \<and> p \<in> ?B then None else st_objects t4 p)"
    using rpf_Destroy_ok [OF 5(2)] by auto
  have ok5: "st_ok t5" using ok4 6(2,3) by (simp add: st_ok_def)
  have agree5: "agree (- ?B) t4 t5" using 6(3) by (simp add: agree_def)
  have fin: "rpf_wf th t5 f3 l s" "map (val t5) l = map (val st) live'" "rpf_wf th t5 g5 new []" "map (val t5) new = map (val st) live"
    using rpf_wf_agree [OF f4 agree_mono [OF agree5] ok5] ls(2) v4
      rpf_wf_agree [OF 5(1) agree_mono [OF agree5] ok5] new(2) w4 by auto
  have "rpf_SwapFallback th st f g = Some (t5, f3, g5)"
    using 1(1) 3(1) 4(1) swap 6(1) by (auto simp: rpf_SwapFallback_def rpf_CopyFrom_def bind_eq_Some_conv)
  moreover have "agree (?D - ?A - ?B) st t5"
  proof -
    have "agree (?D - ?A) st t3" using 1(6) by (intro agree_trans [OF 1(7) 3(6)]) auto
    then have "agree (?D - ?A - ?B) st t4" by (rule agree_trans [OF _ 4(4)]) auto
    then show ?thesis by (rule agree_trans [OF _ agree5]) auto
  qed
  ultimately show ?thesis
    using fin ls(1) 3(2) 4(3) 5(3) by (intro exI [of _ t5] exI [of _ f3] exI [of _ g5] exI [of _ l] exI [of _ s] exI [of _ new] exI [of _ "[]"]) simp
qed

lemma rpf_Swap_ok:
  assumes f: "rpf_wf th st f live spare" and g: "rpf_wf th st g live' spare'"
    and disj: "set (live @ spare) \<inter> set (live' @ spare') = {}" and len: "length live \<le> 2 ^ 30" "length live' \<le> 2 ^ 30"
  shows "\<exists>st' f' g' l s l' s'. rpf_Swap th st f g = Some (st', f', g') \<and> rpf_arena f' = rpf_arena f \<and>
    rpf_arena g' = rpf_arena g \<and> rpf_wf th st' f' l s \<and> rpf_wf th st' g' l' s' \<and> set (l @ s) \<inter> set (l' @ s') = {} \<and>
    map (val st') l = map (val st) live' \<and> map (val st') l' = map (val st) live \<and>
    agree (dom (st_objects st) - set (live @ spare) - set (live' @ spare')) st st'"
proof (cases "rpf_arena g = rpf_arena f")
  case True
  obtain f' g' where swap: "rpf_InternalSwap f g = (f', g')" by fastforce
  note S = rpf_wf_swap [OF f g True [symmetric] swap]
  have "rpf_Swap th st f g = Some (st, f', g')"
    using True swap by (simp add: rpf_Swap_def)
  moreover have "set (live' @ spare') \<inter> set (live @ spare) = {}"
    using disj by (simp only: Int_commute)
  ultimately show ?thesis
    using S agree_refl
    by (intro exI [of _ st] exI [of _ f'] exI [of _ g'] exI [of _ live'] exI [of _ spare'] exI [of _ live] exI [of _ spare] conjI) (assumption | rule refl)+
next
  case False
  with rpf_SwapFallback_ok [OF assms] show ?thesis by (simp add: rpf_Swap_def)
qed

end

end
