(* ===== verification/Repeated_Ptr_Owner.thy ===== *)
theory Repeated_Ptr_Owner
  imports Repeated_Ptr_Ops
begin

text \<open>
  The operations of \<open>RepeatedPtrField\<close> that move pointers or hand them over: swapping elements, adding
  an allocated object, releasing the last element, deleting and extracting a range. \<open>outside\<close> is the
  store without the objects of the field, which is what a field on the heap has to leave alone.
\<close>

section \<open>The store without the field\<close>

definition outside :: "'m store \<Rightarrow> nat list \<Rightarrow> nat \<Rightarrow> 'm obj option" where
  "outside st ps = st_objects st |` (- set ps)"

lemma outside_cong: "set qs = set ps \<Longrightarrow> outside st qs = outside st ps"
  by (simp add: outside_def)

lemma outside_agree: "agree (- set ps) st t \<Longrightarrow> outside t ps = outside st ps"
  by (auto simp: outside_def agree_def restrict_map_def fun_eq_iff)

lemma outside_new:
  \<comment> \<open>New objects become objects of the field.\<close>
  assumes "agree (- set qs) st t" "set ps \<subseteq> set qs" "\<forall>p \<in> set qs - set ps. st_objects st p = None"
  shows "outside t qs = outside st ps"
  using assms by (auto simp: outside_def agree_def restrict_map_def fun_eq_iff)

lemma outside_delete:
  \<comment> \<open>Objects of the field are deleted.\<close>
  assumes "st_objects t = (\<lambda>p. if p \<in> set ds then None else st_objects st p)" "set ps = set qs \<union> set ds"
  shows "outside t qs = outside st ps"
  using assms by (auto simp: outside_def restrict_map_def fun_eq_iff)

lemma outside_dom: "outside st ps q = Some x \<Longrightarrow> q \<notin> set ps \<and> st_objects st q = Some x"
  by (auto simp: outside_def restrict_map_def split: if_splits)

section \<open>Moving pointers\<close>

lemma rpf_is_write:
  \<comment> \<open>A current element is replaced by another pointer.\<close>
  assumes "rpf_is f live spare" "i < length live"
  obtains rep rep' where "rpf_rep f = Some rep" "rpf_put (int i) (Some p) rep = Some rep'"
    "rpf_is (f\<lparr>rpf_rep := Some rep'\<rparr>) (live[i := p]) spare"
proof -
  from assms obtain rep tail where r: "rpf_rep f = Some rep" "elements rep = map Some (live @ spare) @ tail"
      "allocated_size rep = int (length (live @ spare))" "rpf_current_size f = int (length live)"
      "rpf_total_size f = int (length live + length spare + length tail)" "0 < rpf_total_size f" "rpf_total_size f \<le> INT_MAX"
    by (auto elim: rpf_isE)
  let ?r = "rep\<lparr>elements := map Some (live[i := p] @ spare) @ tail\<rparr>"
  have "rpf_put (int i) (Some p) rep = Some ?r"
    using assms(2) r(2) by (simp add: rpf_put_def list_update_append map_update)
  moreover have "rpf_is (f\<lparr>rpf_rep := Some ?r\<rparr>) (live[i := p]) spare"
    using r assms(2) by (intro rpf_isI [of _ ?r]) auto
  ultimately show ?thesis
    using that r(1) by blast
qed

lemma rpf_at_nth:
  assumes "rpf_is f live spare" "rpf_rep f = Some rep" "i < length (live @ spare)"
  shows "rpf_at (int i) rep = Some ((live @ spare) ! i)"
  using rpf_Mutable_nth [OF assms(1,3)] assms(2) by (simp add: rpf_Mutable_def)

lemma rpf_SwapElements_ok:
  assumes "rpf_is f live spare" "i < length live" "j < length live"
  shows "\<exists>f'. rpf_SwapElements (int i) (int j) f = Some f' \<and> rpf_arena f' = rpf_arena f \<and>
    rpf_is f' (live[i := live ! j, j := live ! i]) spare"
proof -
  obtain rep rep1 where r: "rpf_rep f = Some rep" "rpf_put (int i) (Some (live ! j)) rep = Some rep1"
      "rpf_is (f\<lparr>rpf_rep := Some rep1\<rparr>) (live[i := live ! j]) spare"
    by (rule rpf_is_write [OF assms(1,2)])
  obtain rep1' rep2 where s: "rpf_rep (f\<lparr>rpf_rep := Some rep1\<rparr>) = Some rep1'" "rpf_put (int j) (Some (live ! i)) rep1' = Some rep2"
      "rpf_is (f\<lparr>rpf_rep := Some rep1\<rparr>\<lparr>rpf_rep := Some rep2\<rparr>) (live[i := live ! j, j := live ! i]) spare"
    by (rule rpf_is_write [OF r(3), of j]) (use assms(3) in simp)
  have "rpf_at (int i) rep = Some (live ! i)" "rpf_at (int j) rep = Some (live ! j)"
    using rpf_at_nth [OF assms(1) r(1)] assms(2,3) by (simp_all add: nth_append)
  then have "rpf_SwapElements (int i) (int j) f = Some (f\<lparr>rpf_rep := Some rep2\<rparr>)"
    using r(1,2) s(1,2) by (simp add: rpf_SwapElements_def)
  with s(3) show ?thesis by simp
qed

lemma rpf_UnsafeArenaReleaseLast_ok:
  assumes "rpf_is f (live @ [p]) spare"
  shows "\<exists>f'. rpf_UnsafeArenaReleaseLast f = Some (p, f') \<and> rpf_arena f' = rpf_arena f \<and>
    rpf_is f' live (if spare = [] then [] else last spare # butlast spare)"
proof -
  from assms obtain rep tail where r: "rpf_rep f = Some rep" "elements rep = map Some ((live @ [p]) @ spare) @ tail"
      "allocated_size rep = int (length ((live @ [p]) @ spare))" "rpf_current_size f = int (length (live @ [p]))"
      "rpf_total_size f = int (length (live @ [p]) + length spare + length tail)" "rpf_total_size f \<le> INT_MAX"
    by (auto elim: rpf_isE)
  have at: "rpf_at (int (length live)) rep = Some p"
    using r(2) by (simp add: rpf_at_def nth_append)
  show ?thesis
  proof (cases spare rule: rev_cases)
    case Nil
    let ?f = "f\<lparr>rpf_current_size := int (length live), rpf_rep := Some (rep\<lparr>allocated_size := int (length live)\<rparr>)\<rparr>"
    have "rpf_UnsafeArenaReleaseLast f = Some (p, ?f)"
      using r(1,3,4) at Nil by (simp add: rpf_UnsafeArenaReleaseLast_def)
    moreover have "rpf_is ?f live []"
      using r Nil by (intro rpf_isI [of _ "rep\<lparr>allocated_size := int (length live)\<rparr>" _ _ "Some p # tail"]) auto
    ultimately show ?thesis using Nil by auto
  next
    case (snoc qs q)
    let ?a = "rep\<lparr>allocated_size := int (length live + length (qs @ [q]))\<rparr>"
    let ?r = "?a\<lparr>elements := map Some (live @ q # qs) @ Some q # tail\<rparr>"
    let ?f = "f\<lparr>rpf_current_size := int (length live), rpf_rep := Some ?r\<rparr>"
    have "allocated_size rep - 1 = int (length live + length (qs @ [q]))"
      using r(3) snoc by simp
    moreover have "rpf_at (int (length live + length (qs @ [q]))) ?a = Some q"
      using rpf_at_append [of ?a "live @ p # qs" q "[]" tail] r(2) snoc by simp
    moreover have "rpf_put (int (length live)) (Some q) ?a = Some ?r"
      using rpf_put_append [of ?a "map Some live" "Some p" "map Some (qs @ [q]) @ tail" "Some q"] r(2) snoc by simp
    ultimately have "rpf_UnsafeArenaReleaseLast f = Some (p, ?f)"
      using r(1,4) at by (simp add: rpf_UnsafeArenaReleaseLast_def)
    moreover have "rpf_is ?f live (q # qs)"
      using r snoc by (intro rpf_isI [of _ ?r _ _ "Some q # tail"]) auto
    ultimately show ?thesis using snoc by auto
  qed
qed

section \<open>Ranges\<close>

lemma close_gap_loop_ok:
  assumes "elements rep = xs @ gap @ ys @ tail" "gap \<noteq> []"
  shows "\<exists>tail'. rpf_close_gap_loop [int (length xs + length gap)..int (length xs + length gap + length ys) - 1] (int (length gap)) rep =
    Some (rep\<lparr>elements := xs @ ys @ tail'\<rparr>) \<and> length tail' = length gap + length tail"
  using assms
proof (induction ys arbitrary: xs gap rep)
  case Nil
  then have "rep = rep\<lparr>elements := xs @ [] @ gap @ tail\<rparr>" by simp
  with Nil show ?case by (intro exI [of _ "gap @ tail"]) simp
next
  case (Cons y ys)
  obtain g gs where gap: "gap = g # gs" using Cons.prems(2) by (cases gap) auto
  let ?r = "rep\<lparr>elements := (xs @ [y]) @ (gs @ [y]) @ ys @ tail\<rparr>"
  let ?i = "int (length xs + length gap)"
  have "nat ?i = length (xs @ gap)" by simp
  then have "rpf_at ?i rep = y"
    using Cons.prems(1) by (simp only: rpf_at_def) (simp add: nth_append)
  moreover have "rpf_put (?i - int (length gap)) y rep = Some ?r"
    using rpf_put_append [of rep xs g "gs @ y # ys @ tail" y] Cons.prems(1) gap by simp
  moreover have "[?i..int (length xs + length gap + length (y # ys)) - 1] =
      ?i # [int (length (xs @ [y]) + length (gs @ [y]))..int (length (xs @ [y]) + length (gs @ [y]) + length ys) - 1]"
    by (subst upto_rec1) (simp_all add: gap add_ac)
  moreover obtain tail' where "rpf_close_gap_loop [int (length (xs @ [y]) + length (gs @ [y]))..
        int (length (xs @ [y]) + length (gs @ [y]) + length ys) - 1] (int (length (gs @ [y]))) ?r =
      Some (?r\<lparr>elements := (xs @ [y]) @ ys @ tail'\<rparr>)" "length tail' = length (gs @ [y]) + length tail"
    using Cons.IH [of ?r "xs @ [y]" "gs @ [y]"] by auto
  ultimately show ?case
    using gap by (intro exI [of _ tail']) simp
qed

lemma rpf_CloseGap_ok:
  assumes "rpf_is f (xs @ ys @ zs) spare" "ys \<noteq> []"
  shows "\<exists>f'. rpf_CloseGap (int (length xs)) (int (length ys)) f = Some f' \<and> rpf_arena f' = rpf_arena f \<and>
    rpf_is f' (xs @ zs) spare"
proof -
  from assms obtain rep tail where r: "rpf_rep f = Some rep" "elements rep = map Some ((xs @ ys @ zs) @ spare) @ tail"
      "allocated_size rep = int (length ((xs @ ys @ zs) @ spare))" "rpf_current_size f = int (length (xs @ ys @ zs))"
      "rpf_total_size f = int (length (xs @ ys @ zs) + length spare + length tail)" "rpf_total_size f \<le> INT_MAX"
    by (auto elim: rpf_isE)
  have els: "elements rep = map Some xs @ map Some ys @ map Some (zs @ spare) @ tail"
    using r(2) by simp
  have "map Some ys \<noteq> []" using assms(2) by simp
  from close_gap_loop_ok [OF els this] obtain tail' where t: "rpf_close_gap_loop
      [int (length xs) + int (length ys)..allocated_size rep - 1] (int (length ys)) rep =
      Some (rep\<lparr>elements := map Some xs @ map Some (zs @ spare) @ tail'\<rparr>)" "length tail' = length ys + length tail"
    using r(3) by (auto simp: add_ac)
  let ?r = "rep\<lparr>elements := map Some xs @ map Some (zs @ spare) @ tail', allocated_size := int (length ((xs @ zs) @ spare))\<rparr>"
  have "rpf_CloseGap (int (length xs)) (int (length ys)) f =
      Some (f\<lparr>rpf_current_size := int (length (xs @ zs)), rpf_rep := Some ?r\<rparr>)"
    using r(1,3,4) t(1) by (simp add: rpf_CloseGap_def)
  moreover have "rpf_is (f\<lparr>rpf_current_size := int (length (xs @ zs)), rpf_rep := Some ?r\<rparr>) (xs @ zs) spare"
    using r t(2) assms(2) by (intro rpf_isI [of _ ?r _ _ tail']) auto
  ultimately show ?thesis by auto
qed

lemma delete_range_loop:
  fixes st :: "'m store"
  assumes "rpf_is f (xs @ ys @ zs) spare" "rpf_arena f = None"
  shows "rpf_delete_range [int (length xs)..int (length xs + length ys) - 1] st f = rpf_delete_loop (map Some ys) st"
  using assms(1)
proof (induction ys arbitrary: xs st)
  case (Cons y ys)
  have "rpf_Mutable (int (length xs)) f = Some y"
    using rpf_Mutable_nth [OF Cons.prems, of "length xs"] by (simp add: nth_append)
  then have "rpf_Delete (int (length xs)) st f = th_Delete y None st" for st :: "'m store"
    using assms(2) by (auto simp: rpf_Delete_def rpf_Mutable_def bind_eq_Some_conv)
  moreover have "[int (length xs)..int (length xs + length (y # ys)) - 1] =
      int (length xs) # [int (length (xs @ [y]))..int (length (xs @ [y]) + length ys) - 1]"
    by (subst upto_rec1) (simp_all add: add_ac)
  ultimately show ?case
    using Cons.IH [of "xs @ [y]"] Cons.prems by (simp cong: Option.bind_cong)
qed simp

lemma mutable_all_ok:
  assumes "rpf_is f (xs @ ys @ zs) spare"
  shows "rpf_mutable_all [int (length xs)..int (length xs + length ys) - 1] f = Some ys"
  using assms
proof (induction ys arbitrary: xs)
  case (Cons y ys)
  have "rpf_Mutable (int (length xs)) f = Some y"
    using rpf_Mutable_nth [OF Cons.prems, of "length xs"] by (simp add: nth_append)
  moreover have "[int (length xs)..int (length xs + length (y # ys)) - 1] =
      int (length xs) # [int (length (xs @ [y]))..int (length (xs @ [y]) + length ys) - 1]"
    by (subst upto_rec1) (simp_all add: add_ac)
  ultimately show ?case
    using Cons.IH [of "xs @ [y]"] Cons.prems by simp
qed simp

section \<open>Handing pointers over\<close>

lemma rpf_put_allocated:
  "rpf_put i v (rep\<lparr>allocated_size := a\<rparr>) = map_option (\<lambda>r. r\<lparr>allocated_size := a\<rparr>) (rpf_put i v rep)"
  by (simp add: rpf_put_def)

lemma rpf_at_allocated [simp]: "rpf_at i (rep\<lparr>allocated_size := a\<rparr>) = rpf_at i rep"
  by (simp add: rpf_at_def)

lemma rpf_add_allocated_fast_ok:
  assumes "rpf_is f live spare" "rpf_rep f = Some rep" "allocated_size rep < rpf_total_size f"
  shows "\<exists>f'. rpf_add_allocated_fast v rep f = Some f' \<and> rpf_arena f' = rpf_arena f \<and> rpf_is f' (live @ [v]) (rotate1 spare)"
proof -
  from assms obtain tail where r: "elements rep = map Some (live @ spare) @ tail" "allocated_size rep = int (length (live @ spare))"
      "rpf_current_size f = int (length live)" "rpf_total_size f = int (length live + length spare + length tail)"
      "rpf_total_size f \<le> INT_MAX"
    by (auto elim: rpf_isE)
  with assms(3) obtain y rest where tail: "tail = y # rest" by (cases tail) auto
  let ?r = "rep\<lparr>elements := map Some (live @ v # rotate1 spare) @ rest, allocated_size := allocated_size rep + 1\<rparr>"
  let ?f = "f\<lparr>rpf_rep := Some ?r, rpf_current_size := rpf_current_size f + 1\<rparr>"
  have "rpf_add_allocated_fast v rep f = Some ?f"
  proof (cases spare)
    case Nil
    have "rpf_put (int (length (map Some live))) (Some v) rep = Some (rep\<lparr>elements := map Some live @ Some v # rest\<rparr>)"
      using r(1) Nil tail by (intro rpf_put_append) simp
    with r(2,3) Nil show ?thesis by (simp add: rpf_add_allocated_fast_def)
  next
    case (Cons p ps)
    let ?r1 = "rep\<lparr>elements := map Some (live @ p # ps) @ Some p # rest\<rparr>"
    have "rpf_at (int (length live)) rep = Some p"
      using r(1) Cons by (intro rpf_at_append [of _ live p ps tail]) simp
    moreover have "rpf_put (int (length (map Some (live @ spare)))) (Some p) rep = Some ?r1"
      using r(1) Cons tail by (subst rpf_put_append [of rep "map Some (live @ spare)" y rest]) simp_all
    moreover have "rpf_put (int (length (map Some live))) (Some v) ?r1 =
        Some (?r1\<lparr>elements := map Some live @ Some v # map Some ps @ Some p # rest\<rparr>)"
      by (rule rpf_put_append) simp
    ultimately show ?thesis
      using r(2,3) Cons by (simp add: rpf_add_allocated_fast_def)
  qed
  moreover have "rpf_is ?f (live @ [v]) (rotate1 spare)"
    using r tail by (intro rpf_isI [of _ ?r _ _ rest]) (auto simp: length_rotate1)
  ultimately show ?thesis by auto
qed

lemma UnsafeArenaAddAllocated_fast:
  assumes "rpf_is f live spare" "rpf_rep f = Some rep" "allocated_size rep < rpf_total_size f"
  shows "rpf_UnsafeArenaAddAllocated v st f = map_option (\<lambda>f. (st, f)) (rpf_add_allocated_fast v rep f)"
proof -
  have "rpf_current_size f \<le> allocated_size rep"
    using assms(1) by (rule rpf_isE) (use assms(2) in auto)
  with assms(2,3) show ?thesis
    by (auto simp: rpf_UnsafeArenaAddAllocated_def rpf_add_allocated_fast_def rpf_put_def)
qed

lemma UnsafeArenaAddAllocated_replace:
  assumes "rpf_is f live (p # ps)" "rpf_rep f = Some rep" "allocated_size rep = rpf_total_size f" "th_Delete p (rpf_arena f) st = Some t"
  shows "\<exists>f'. rpf_UnsafeArenaAddAllocated v st f = Some (t, f') \<and> rpf_arena f' = rpf_arena f \<and> rpf_is f' (live @ [v]) ps"
proof -
  from assms obtain tail where r: "elements rep = map Some (live @ p # ps) @ tail" "allocated_size rep = int (length (live @ p # ps))"
      "rpf_current_size f = int (length live)" "rpf_total_size f = int (length live + Suc (length ps) + length tail)"
      "rpf_total_size f \<le> INT_MAX"
    by (auto elim: rpf_isE)
  let ?r = "rep\<lparr>elements := map Some live @ Some v # map Some ps @ tail\<rparr>"
  have "rpf_put (int (length (map Some live))) (Some v) rep = Some ?r"
    using r(1) by (intro rpf_put_append) simp
  then have "rpf_UnsafeArenaAddAllocated v st f = Some (t, f\<lparr>rpf_rep := Some ?r, rpf_current_size := int (length live) + 1\<rparr>)"
    using assms(2-4) r rpf_at_append [OF r(1)] by (simp add: rpf_UnsafeArenaAddAllocated_def)
  moreover have "rpf_is (f\<lparr>rpf_rep := Some ?r, rpf_current_size := int (length live) + 1\<rparr>) (live @ [v]) ps"
    using r by (intro rpf_isI [of _ ?r _ _ tail]) auto
  ultimately show ?thesis by auto
qed

lemma UnsafeArenaAddAllocated_grow:
  assumes "rpf_is f live []" "rpf_rep f = None \<or> rpf_current_size f = rpf_total_size f" "length live < 2 ^ 30"
  shows "\<exists>f'. rpf_UnsafeArenaAddAllocated v st f = Some (st, f') \<and> rpf_arena f' = rpf_arena f \<and> rpf_is f' (live @ [v]) []"
proof -
  have full: "rpf_is_full f"
    using assms(1) by (rule rpf_isE) (use assms(2) in \<open>auto simp: rpf_is_full_def\<close>)
  obtain f1 rep y tail where f1: "rpf_Reserve (rpf_total_size f + 1) f = Some f1" "rpf_is f1 live []" "rpf_arena f1 = rpf_arena f"
      "rpf_rep f1 = Some rep" "elements rep = map Some live @ y # tail"
    using rpf_grow [OF assms(1)] assms(3) full by auto
  have size: "rpf_current_size f1 = int (length live)" "allocated_size rep = int (length live)"
      "rpf_total_size f1 = int (length (elements rep))" "rpf_total_size f1 \<le> INT_MAX"
    using f1(2,4) by (auto simp: rpf_is_def)
  let ?r = "rep\<lparr>allocated_size := int (length live) + 1, elements := map Some live @ Some v # tail\<rparr>"
  let ?f = "f1\<lparr>rpf_rep := Some ?r, rpf_current_size := int (length live) + 1\<rparr>"
  have "rpf_put (int (length (map Some live))) (Some v) (rep\<lparr>allocated_size := int (length live) + 1\<rparr>) = Some ?r"
    using f1(5) by (intro rpf_put_append) simp
  then have "rpf_UnsafeArenaAddAllocated v st f = Some (st, ?f)"
    using assms(2) f1(1,4) size by (cases "rpf_rep f") (auto simp: rpf_UnsafeArenaAddAllocated_def)
  moreover have "rpf_is ?f (live @ [v]) []"
    using f1(5) size by (intro rpf_isI [of _ ?r _ _ tail]) auto
  ultimately show ?thesis
    using f1(3) by auto
qed

end
