(* ===== verification/Repeated_Ptr_Heap.thy ===== *)
theory Repeated_Ptr_Heap
  imports Repeated_Ptr_Owner "HOL-Library.Multiset"
begin

text \<open>
  A \<open>RepeatedPtrField\<close> on the heap. \<open>rpf_on_heap th H st f live spare\<close> says that the field is
  well-formed, that it owns the objects it points to, and that \<open>H\<close> is the store without them. Each
  operation keeps \<open>H\<close>, or moves the one object that is handed over; the destructor leaves exactly \<open>H\<close>.
\<close>

definition rpf_on_heap ::
    "'m type_handler \<Rightarrow> (nat \<Rightarrow> 'm obj option) \<Rightarrow> 'm store \<Rightarrow> repeated_ptr_field \<Rightarrow> nat list \<Rightarrow> nat list \<Rightarrow> bool" where
  "rpf_on_heap th H st f live spare \<longleftrightarrow> rpf_wf th st f live spare \<and> rpf_arena f = None \<and> outside st (live @ spare) = H"

lemma on_heapI:
  "rpf_wf th st f live spare \<Longrightarrow> rpf_arena f = None \<Longrightarrow> outside st (live @ spare) = H \<Longrightarrow> rpf_on_heap th H st f live spare"
  by (simp add: rpf_on_heap_def)

lemma on_heapD:
  assumes "rpf_on_heap th H st f live spare"
  shows "rpf_wf th st f live spare" "rpf_arena f = None" "outside st (live @ spare) = H" "rpf_is f live spare"
    "owns None st (live @ spare)" "st_ok st" "distinct (live @ spare)" "set (live @ spare) \<subseteq> dom (st_objects st)"
proof -
  have "rpf_wf th st f live spare" and arena: "rpf_arena f = None" and H: "outside st (live @ spare) = H"
    using assms by (simp_all add: rpf_on_heap_def)
  note W = this(1) rpf_wfD [OF this(1)]
  show "rpf_wf th st f live spare" "rpf_arena f = None" "outside st (live @ spare) = H" "rpf_is f live spare"
      "owns None st (live @ spare)" "st_ok st" "distinct (live @ spare)" "set (live @ spare) \<subseteq> dom (st_objects st)"
    using W arena H by simp_all
qed

lemma on_heap_new: "st_ok st \<Longrightarrow> rpf_on_heap th (st_objects st) st (RepeatedPtrField None) [] []"
  by (intro on_heapI) (auto simp: rpf_wf_def owns_def outside_def RepeatedPtrField_def rpf_is_def)

lemma on_heap_same_objects:
  \<comment> \<open>Pointers have moved, or the array has grown.\<close>
  assumes "rpf_on_heap th H st f live spare" "rpf_is f' live' spare'" "rpf_arena f' = None" "mset live' = mset live"
    "mset spare' = mset spare"
  shows "rpf_on_heap th H st f' live' spare'"
proof -
  note h = on_heapD [OF assms(1)]
  have sets: "set live' = set live" "set spare' = set spare" "distinct (live' @ spare')"
    using h(7) mset_eq_setD [OF assms(4)] mset_eq_setD [OF assms(5)] mset_eq_imp_distinct_iff [OF assms(4)]
      mset_eq_imp_distinct_iff [OF assms(5)] by auto
  have "owns None st (live' @ spare')"
    using h(5) sets by (intro owns_sub [OF h(5)]) auto
  moreover have "outside st (live' @ spare') = H"
    using h(3) sets(1,2) outside_cong [of "live' @ spare'" "live @ spare" st] by auto
  ultimately show ?thesis
    using h(1) assms(2,3) sets by (intro on_heapI) (auto simp: rpf_wf_def)
qed

lemma on_heap_remove:
  \<comment> \<open>Some of the objects have been deleted.\<close>
  assumes "rpf_on_heap th H st f live spare" "rpf_is f' live' spare'" "rpf_arena f' = None"
    "st_objects t = (\<lambda>p. if p \<in> set ds then None else st_objects st p)" "st_next t = st_next st"
    "set (live @ spare) = set (live' @ spare') \<union> set ds" "set ds \<inter> set (live' @ spare') = {}" "distinct (live' @ spare')"
    "set spare' \<subseteq> set spare"
  shows "rpf_on_heap th H t f' live' spare'" "agree (- set ds) st t"
proof -
  note h = on_heapD [OF assms(1)]
  show agree: "agree (- set ds) st t"
    using assms(4) by (simp add: agree_def)
  have "owns None st (live' @ spare')"
    using assms(6,8) by (intro owns_sub [OF h(5)]) auto
  then have "owns None t (live' @ spare')"
    by (rule owns_agree) (use assms(7) in \<open>auto intro: agree_mono [OF agree]\<close>)
  moreover have "st_ok t"
    using h(6) assms(4,5) by (auto simp: st_ok_def)
  moreover have "\<forall>p \<in> set spare'. val t p = th_new th"
  proof
    fix p assume p: "p \<in> set spare'"
    then have "p \<in> - set ds" "val st p = th_new th"
      using assms(7,9) h(1) by (auto simp: rpf_wf_def)
    then show "val t p = th_new th" using agree_val [OF agree, of p] by simp
  qed
  moreover have "outside t (live' @ spare') = H"
    using h(3) outside_delete [OF assms(4,6)] by simp
  ultimately show "rpf_on_heap th H t f' live' spare'"
    using assms(2,3) by (intro on_heapI) (simp_all add: rpf_wf_def)
qed

lemma on_heap_give:
  \<comment> \<open>An object from outside is handed over to the field.\<close>
  assumes "rpf_on_heap th H st f live spare" "rpf_is f' (live @ [v]) spare'" "rpf_arena f' = None" "mset spare' = mset spare"
    "owned_place None (place st v)" "v \<notin> set (live @ spare)"
  shows "rpf_on_heap th (H(v := None)) st f' (live @ [v]) spare'"
proof -
  note h = on_heapD [OF assms(1)]
  have sets: "set spare' = set spare" "distinct spare'"
    using h(7) mset_eq_setD [OF assms(4)] mset_eq_imp_distinct_iff [OF assms(4)] by auto
  have "owns None st (v # live @ spare)"
    using h(5) assms(5,6) by (simp add: owns_def)
  then have "owns None st ((live @ [v]) @ spare')"
    using h(7) assms(6) sets by (elim owns_sub) auto
  moreover have "outside st ((live @ [v]) @ spare') = H(v := None)"
    using h(3) sets(1) by (auto simp: outside_def restrict_map_def fun_eq_iff)
  ultimately show ?thesis
    using h(1) assms(2,3) sets(1) by (intro on_heapI) (auto simp: rpf_wf_def)
qed

lemma on_heap_take:
  \<comment> \<open>The last element is handed over to the caller.\<close>
  assumes "rpf_on_heap th H st f (live @ [p]) spare" "rpf_is f' live spare'" "rpf_arena f' = None" "mset spare' = mset spare"
  shows "rpf_on_heap th (H(p := st_objects st p)) st f' live spare'"
proof -
  note h = on_heapD [OF assms(1)]
  have sets: "set spare' = set spare" "distinct spare'" "p \<notin> set live" "p \<notin> set spare"
    using h(7) mset_eq_setD [OF assms(4)] mset_eq_imp_distinct_iff [OF assms(4)] by auto
  have "owns None st (live @ spare')"
    using h(7) sets by (intro owns_sub [OF h(5)]) auto
  moreover have "outside st (live @ spare') = H(p := st_objects st p)"
    unfolding h(3) [symmetric] using sets by (auto simp: outside_def restrict_map_def fun_eq_iff)
  ultimately show ?thesis
    using h(1) assms(2,3) sets(1) by (intro on_heapI) (auto simp: rpf_wf_def)
qed

section \<open>The operations\<close>

lemma on_heap_Destroy:
  assumes "rpf_on_heap th H st f live spare"
  shows "\<exists>st' f'. rpf_Destroy st f = Some (st', f') \<and> st_objects st' = H"
proof -
  note h = on_heapD [OF assms]
  from rpf_Destroy_ok [OF h(1)] obtain t f' where "rpf_Destroy st f = Some (t, f')"
      "st_objects t = (\<lambda>p. if rpf_arena f = None \<and> p \<in> set (live @ spare) then None else st_objects st p)"
    by blast
  moreover have "(\<lambda>p. if rpf_arena f = None \<and> p \<in> set (live @ spare) then None else st_objects st p) = H"
    using h(2) unfolding h(3) [symmetric] by (auto simp: outside_def restrict_map_def)
  ultimately show ?thesis by auto
qed

lemma on_heap_Reserve:
  assumes "rpf_on_heap th H st f live spare" "k \<le> 2 ^ 30"
  shows "\<exists>f'. rpf_Reserve k f = Some f' \<and> rpf_on_heap th H st f' live spare"
  using rpf_Reserve_ok [OF on_heapD(4) [OF assms(1)] assms(2)] on_heap_same_objects [OF assms(1)] on_heapD(2) [OF assms(1)]
  by auto

lemma on_heap_Add:
  assumes "rpf_on_heap th H st f live spare" "length live + length spare < 2 ^ 30"
  shows "\<exists>p st' f'. rpf_Add th st f = Some (p, st', f') \<and> rpf_on_heap th H st' f' (live @ [p]) (tl spare) \<and>
    val st' p = th_new th \<and> agree (set live) st st'"
proof -
  note h = on_heapD [OF assms(1)]
  from rpf_Add_ok [OF h(1) assms(2)] obtain p t g where g: "rpf_Add th st f = Some (p, t, g)" "rpf_wf th t g (live @ [p]) (tl spare)"
      "rpf_arena g = rpf_arena f" "val t p = th_new th" "agree (- {p}) st t"
      "if spare = [] then p \<notin> dom (st_objects st) else p = hd spare \<and> t = st"
    by blast
  have "outside t ((live @ [p]) @ tl spare) = H \<and> agree (set live) st t"
  proof (cases spare)
    case Nil
    have "outside t ((live @ [p]) @ tl spare) = outside st (live @ spare)"
      by (rule outside_new) (use g(6) Nil in \<open>auto intro: agree_mono [OF g(5)]\<close>)
    with Nil g(6) h(3,8) show ?thesis by (auto intro!: agree_mono [OF g(5)])
  next
    case (Cons q qs)
    with g(6) have "p = q" "t = st" by simp_all
    then show ?thesis using h(3) Cons by (auto simp: outside_def)
  qed
  with g h(2) show ?thesis by (auto simp: rpf_on_heap_def)
qed

lemma on_heap_SwapElements:
  assumes "rpf_on_heap th H st f live spare" "i < length live" "j < length live"
  shows "\<exists>f'. rpf_SwapElements (int i) (int j) f = Some f' \<and> rpf_on_heap th H st f' (live[i := live ! j, j := live ! i]) spare"
  using rpf_SwapElements_ok [OF on_heapD(4) [OF assms(1)] assms(2,3)] on_heap_same_objects [OF assms(1)] on_heapD(2) [OF assms(1)]
    mset_swap [OF assms(3,2)]
  by auto

lemma on_heap_DeleteSubrange:
  assumes "rpf_on_heap th H st f (xs @ ys @ zs) spare"
  shows "\<exists>st' f'. rpf_DeleteSubrange th (int (length xs)) (int (length ys)) st f = Some (st', f') \<and>
    rpf_on_heap th H st' f' (xs @ zs) spare \<and> agree (- set ys) st st'"
proof (cases "ys = []")
  case True
  with assms show ?thesis
    by (auto simp: rpf_DeleteSubrange_def rpf_ExtractSubrange_merge_def)
next
  case False
  note h = on_heapD [OF assms]
  have "owns None st ys"
    using h(5) by (auto simp: owns_append)
  from delete_loop_ok [OF this] obtain t where t: "rpf_delete_loop (map Some ys) st = Some t"
      "st_objects t = (\<lambda>p. if p \<in> set ys then None else st_objects st p)" "st_next t = st_next st"
    by blast
  from rpf_CloseGap_ok [OF h(4) False] obtain g where g: "rpf_CloseGap (int (length xs)) (int (length ys)) f = Some g"
      "rpf_arena g = rpf_arena f" "rpf_is g (xs @ zs) spare"
    by blast
  have "rpf_DeleteSubrange th (int (length xs)) (int (length ys)) st f = Some (t, g)"
    using delete_range_loop [OF h(4,2), of st] t(1) g(1) False
    by (simp add: rpf_DeleteSubrange_def rpf_ExtractSubrange_merge_def)
  moreover have "rpf_on_heap th H t g (xs @ zs) spare" "agree (- set ys) st t"
    using on_heap_remove [OF assms g(3) _ t(2,3)] g(2) h(2,7) by auto
  ultimately show ?thesis by blast
qed

lemma on_heap_UnsafeArenaAddAllocated:
  assumes "rpf_on_heap th H st f live spare" "owned_place None (place st v)" "v \<notin> set (live @ spare)" "length live < 2 ^ 30"
  shows "\<exists>st' f' spare'. rpf_UnsafeArenaAddAllocated v st f = Some (st', f') \<and>
    rpf_on_heap th (H(v := None)) st' f' (live @ [v]) spare' \<and> agree (insert v (set live)) st st' \<and> length spare' \<le> length spare"
proof -
  note h = on_heapD [OF assms(1)]
  have size: "rpf_current_size f = int (length live)" "rpf_rep f = None \<Longrightarrow> spare = []"
      "\<And>rep. rpf_rep f = Some rep \<Longrightarrow> allocated_size rep = int (length live + length spare) \<and> allocated_size rep \<le> rpf_total_size f"
    using h(4) by (auto elim!: rpf_isE)
  consider (grow) "spare = []" "rpf_rep f = None \<or> rpf_current_size f = rpf_total_size f"
    | (fast) rep where "rpf_rep f = Some rep" "allocated_size rep < rpf_total_size f"
    | (replace) rep p ps where "rpf_rep f = Some rep" "allocated_size rep = rpf_total_size f" "spare = p # ps"
  proof (cases "rpf_rep f")
    case (Some rep)
    with size grow fast replace show ?thesis
      by (cases "allocated_size rep < rpf_total_size f"; cases spare) fastforce+
  qed (use size grow in auto)
  then show ?thesis
  proof cases
    case grow
    from UnsafeArenaAddAllocated_grow [of f live v st] h(4) grow assms(4) obtain g where
      "rpf_UnsafeArenaAddAllocated v st f = Some (st, g)" "rpf_arena g = rpf_arena f" "rpf_is g (live @ [v]) []" by auto
    with on_heap_give [OF assms(1) this(3)] assms(2,3) h(2) grow(1) show ?thesis by auto
  next
    case (fast rep)
    from rpf_add_allocated_fast_ok [OF h(4) fast] obtain g where
      "rpf_add_allocated_fast v rep f = Some g" "rpf_arena g = rpf_arena f" "rpf_is g (live @ [v]) (rotate1 spare)" by blast
    moreover have "mset (rotate1 spare) = mset spare" by (cases spare) simp_all
    ultimately show ?thesis
      using on_heap_give [of th H st f live spare g v "rotate1 spare"] assms(1-3) UnsafeArenaAddAllocated_fast [OF h(4) fast, of v st] h(2)
      by (intro exI [of _ st] exI [of _ g] exI [of _ "rotate1 spare"]) auto
  next
    case (replace rep p ps)
    have owned: "owns None st [p]"
      using h(5) replace(3) by (intro owns_sub [OF h(5)]) auto
    from delete_loop_ok [OF this] obtain t where t: "th_Delete p None st = Some t"
        "st_objects t = (\<lambda>q. if q \<in> set [p] then None else st_objects st q)" "st_next t = st_next st"
      by (auto simp: bind_eq_Some_conv)
    from UnsafeArenaAddAllocated_replace [of f live p ps rep st t v] h(2,4) replace t(1) obtain g where g:
      "rpf_UnsafeArenaAddAllocated v st f = Some (t, g)" "rpf_arena g = None" "rpf_is g (live @ [v]) ps" by auto
    have vp: "v \<noteq> p" "p \<notin> set live" using assms(3) h(7) replace(3) by auto
    have "owns None st ((live @ [v]) @ spare)"
      using h(5,7) assms(2,3) by (auto simp: owns_def)
    note own = this
    have agree: "agree (- {p}) st t" using t(2) by (simp add: agree_def)
    have "owns None t ((live @ [v]) @ ps)"
      by (rule owns_agree [OF owns_sub [OF own]])
        (use h(7) replace(3) vp assms(3) in \<open>auto intro!: agree_mono [OF agree]\<close>)
    moreover have "st_ok t" using h(6) t(2,3) by (auto simp: st_ok_def)
    moreover have "\<forall>q \<in> set ps. val t q = th_new th"
    proof
      fix q assume q: "q \<in> set ps"
      then have "q \<in> - {p}" "val st q = th_new th"
        using h(1,7) replace(3) by (auto simp: rpf_wf_def)
      then show "val t q = th_new th" using agree_val [OF agree, of q] by simp
    qed
    moreover have "outside t ((live @ [v]) @ ps) = H(v := None)"
      unfolding h(3) [symmetric] using t(2) replace(3) vp by (auto simp: outside_def restrict_map_def fun_eq_iff)
    ultimately have "rpf_on_heap th (H(v := None)) t g (live @ [v]) ps"
      using g(2,3) by (intro on_heapI) (auto simp: rpf_wf_def)
    moreover have "agree (insert v (set live)) st t"
      using vp by (intro agree_mono [OF agree]) auto
    ultimately show ?thesis using g(1) replace(3) by auto
  qed
qed

lemma on_heap_AddAllocated:
  \<comment> \<open>Both versions do the same on the heap.\<close>
  assumes "rpf_on_heap th H st f live spare" "owned_place None (place st v)" "v \<notin> set (live @ spare)" "length live < 2 ^ 30"
  shows "\<exists>st' f' spare'. rpf_AddAllocatedInternal_merge th v st f = Some (st', f') \<and>
    rpf_AddAllocatedInternal_nomerge v st f = Some (st', f') \<and>
    rpf_on_heap th (H(v := None)) st' f' (live @ [v]) spare' \<and> agree (insert v (set live)) st st' \<and> length spare' \<le> length spare"
proof -
  note h = on_heapD [OF assms(1)]
  have "rpf_AddAllocatedInternal_nomerge v st f = rpf_UnsafeArenaAddAllocated v st f"
    using UnsafeArenaAddAllocated_fast [OF h(4), of _ v st]
    by (auto simp: rpf_AddAllocatedInternal_nomerge_def split: option.splits)
  moreover have "rpf_AddAllocatedInternal_merge th v st f = rpf_AddAllocatedInternal_nomerge v st f"
    using assms(2) h(2) by (auto simp: rpf_AddAllocatedInternal_merge_def rpf_AddAllocatedInternal_nomerge_def th_GetArena_def
        rpf_AddAllocatedSlowWithCopy_def owned_by_none split: option.splits)
  ultimately show ?thesis
    using on_heap_UnsafeArenaAddAllocated [OF assms] by simp
qed

lemma on_heap_ReleaseLast:
  assumes "rpf_on_heap th H st f (live @ [p]) spare"
  shows "\<exists>f' spare'. rpf_ReleaseLast_merge th st f = Some (p, st, f') \<and>
    rpf_on_heap th (H(p := st_objects st p)) st f' live spare' \<and> length spare' = length spare"
proof -
  note h = on_heapD [OF assms]
  let ?spare = "if spare = [] then [] else last spare # butlast spare"
  have same: "mset ?spare = mset spare" "length ?spare = length spare"
    by (cases spare rule: rev_cases; simp)+
  from rpf_UnsafeArenaReleaseLast_ok [OF h(4)] obtain g where "rpf_UnsafeArenaReleaseLast f = Some (p, g)"
      "rpf_arena g = rpf_arena f" "rpf_is g live ?spare" by blast
  with on_heap_take [OF assms this(3)] same h(2) show ?thesis
    by (intro exI [of _ g] exI [of _ ?spare]) (simp add: rpf_ReleaseLast_merge_def)
qed

lemma on_heap_AddCleared:
  assumes "rpf_on_heap th H st f live spare" "owned_place None (place st v)" "v \<notin> set (live @ spare)" "val st v = th_new th"
    "length live + length spare < 2 ^ 30"
  shows "\<exists>f'. rpf_AddCleared v f = Some f' \<and> rpf_on_heap th (H(v := None)) st f' live (spare @ [v])"
proof -
  note h = on_heapD [OF assms(1)]
  obtain g rep y tail where g: "(if rpf_is_full f then rpf_Reserve (rpf_total_size f + 1) f else Some f) = Some g"
      "rpf_is g live spare" "rpf_arena g = rpf_arena f" "rpf_rep g = Some rep" "elements rep = map Some (live @ spare) @ y # tail"
    using rpf_grow [OF h(4) assms(5)] by blast
  have size: "rpf_current_size g = int (length live)" "allocated_size rep = int (length (live @ spare))"
      "rpf_total_size g = int (length (elements rep))" "rpf_total_size g \<le> INT_MAX"
    using g(2,4) by (auto simp: rpf_is_def)
  let ?r = "rep\<lparr>elements := map Some (live @ spare) @ Some v # tail, allocated_size := int (length (live @ spare)) + 1\<rparr>"
  have "rpf_put (int (length (map Some (live @ spare)))) (Some v) rep = Some (rep\<lparr>elements := map Some (live @ spare) @ Some v # tail\<rparr>)"
    using g(5) by (rule rpf_put_append)
  then have "rpf_AddCleared v f = Some (g\<lparr>rpf_rep := Some ?r\<rparr>)"
    using g(1,4) size(2) by (simp add: rpf_AddCleared_def)
  moreover have "rpf_is (g\<lparr>rpf_rep := Some ?r\<rparr>) live (spare @ [v])"
    using g(5) size by (intro rpf_isI [of _ ?r _ _ tail]) auto
  moreover have "owns None st (live @ spare @ [v])"
    using h(5) assms(2,3) by (auto simp: owns_def)
  moreover have "outside st (live @ spare @ [v]) = H(v := None)"
    unfolding h(3) [symmetric] by (auto simp: outside_def restrict_map_def fun_eq_iff)
  ultimately show ?thesis
    using h(1,2) g(3) assms(4) by (auto simp: rpf_on_heap_def rpf_wf_def)
qed

lemma on_heap_ReleaseCleared:
  assumes "rpf_on_heap th H st f live (spare @ [p])"
  shows "\<exists>f'. rpf_ReleaseCleared f = Some (p, f') \<and> rpf_on_heap th (H(p := st_objects st p)) st f' live spare"
proof -
  note h = on_heapD [OF assms]
  from h(4) obtain rep tail where r: "rpf_rep f = Some rep" "elements rep = map Some (live @ spare @ [p]) @ tail"
      "allocated_size rep = int (length (live @ spare @ [p]))" "rpf_current_size f = int (length live)"
      "rpf_total_size f = int (length live + length (spare @ [p]) + length tail)" "rpf_total_size f \<le> INT_MAX"
    by (auto elim: rpf_isE)
  let ?f = "f\<lparr>rpf_rep := Some (rep\<lparr>allocated_size := int (length (live @ spare))\<rparr>)\<rparr>"
  have "rpf_at (int (length (live @ spare))) rep = Some p"
    using r(2) by (intro rpf_at_append [of _ _ p "[]" tail]) simp
  then have "rpf_ReleaseCleared f = Some (p, ?f)"
    using r(1,3) by (simp add: rpf_ReleaseCleared_def)
  moreover have "rpf_is ?f live spare"
    using r by (intro rpf_isI [of _ "rep\<lparr>allocated_size := int (length (live @ spare))\<rparr>" _ _ "Some p # tail"]) auto
  moreover have "owns None st (live @ spare)"
    using h(7) by (intro owns_sub [OF h(5)]) auto
  moreover have "outside st (live @ spare) = H(p := st_objects st p)"
    unfolding h(3) [symmetric] using h(7) by (auto simp: outside_def restrict_map_def fun_eq_iff)
  ultimately show ?thesis
    using h(1,2) by (auto simp: rpf_on_heap_def rpf_wf_def)
qed

lemma on_heap_elsewhere:
  \<comment> \<open>An object that is not one of the field's changes.\<close>
  assumes "rpf_on_heap th H st f live spare" "agree (- {p}) st t" "st_ok t" "p \<notin> set (live @ spare)"
  shows "rpf_on_heap th (H(p := st_objects t p)) t f live spare"
proof -
  note h = on_heapD [OF assms(1)]
  have agree: "agree (set (live @ spare)) st t"
    using assms(4) by (intro agree_mono [OF assms(2)]) auto
  have "\<forall>q \<in> set spare. val t q = th_new th"
    using rpf_wfD(4) [OF h(1)] agree_val [OF agree] by auto
  moreover have "outside t (live @ spare) = H(p := st_objects t p)"
    unfolding h(3) [symmetric] using assms(2,4) by (auto simp: outside_def restrict_map_def agree_def fun_eq_iff)
  ultimately show ?thesis
    using h(2,4) assms(3) owns_agree [OF h(5) agree] by (intro on_heapI) (auto simp: rpf_wf_def)
qed

lemma on_heap_outside_None: "rpf_on_heap th H st f live spare \<Longrightarrow> p \<in> set (live @ spare) \<or> st_objects st p = None \<Longrightarrow> H p = None"
  by (auto simp: rpf_on_heap_def outside_def restrict_map_def)

context element_type begin

lemma on_heap_Clear:
  assumes "rpf_on_heap th H st f live spare"
  shows "\<exists>st' f'. rpf_Clear th st f = Some (st', f') \<and> rpf_on_heap th H st' f' [] (live @ spare)"
proof -
  note h = on_heapD [OF assms]
  from rpf_Clear_ok [OF h(1)] obtain t g where t: "rpf_Clear th st f = Some (t, g)" "rpf_wf th t g [] (live @ spare)"
      "rpf_arena g = rpf_arena f" "agree (- set live) st t" by blast
  have "outside t (live @ spare) = outside st (live @ spare)"
    by (intro outside_agree agree_mono [OF t(4)]) auto
  with t h(2,3) show ?thesis by (auto simp: rpf_on_heap_def)
qed

lemma on_heap_RemoveLast:
  assumes "rpf_on_heap th H st f (live @ [p]) spare"
  shows "\<exists>st' f'. rpf_RemoveLast th st f = Some (st', f') \<and> rpf_on_heap th H st' f' live (p # spare) \<and> agree (set live) st st'"
proof -
  note h = on_heapD [OF assms]
  from rpf_RemoveLast_ok [OF h(1)] obtain t g where t: "rpf_RemoveLast th st f = Some (t, g)" "rpf_wf th t g live (p # spare)"
      "rpf_arena g = rpf_arena f" "agree (- {p}) st t" by blast
  have "outside t (live @ p # spare) = outside st (live @ p # spare)"
    by (intro outside_agree agree_mono [OF t(4)]) auto
  moreover have "agree (set live) st t"
    using h(7) by (intro agree_mono [OF t(4)]) auto
  ultimately show ?thesis
    using t h(2,3) by (auto simp: rpf_on_heap_def)
qed

lemma on_heap_MergeFrom:
  assumes "rpf_on_heap th H st f live spare" "rpf_is g others spare_g" "set others \<subseteq> dom H"
    "length live + length others \<le> 2 ^ 30"
  shows "\<exists>st' f' more spare'. rpf_MergeFrom th g st f = Some (st', f') \<and> rpf_on_heap th H st' f' (live @ more) spare' \<and>
    map (val st') more = map (\<lambda>q. obj_value (the (H q))) others \<and> agree (set live) st st' \<and>
    length more = length others \<and> length spare' = length spare - length others"
proof -
  note h = on_heapD [OF assms(1)]
  have others: "q \<notin> set (live @ spare) \<and> st_objects st q = H q \<and> q \<in> dom (st_objects st)" if "q \<in> set others" for q
    using that assms(3) outside_dom [of st "live @ spare" q] h(3) by fastforce
  then have "set others \<subseteq> dom (st_objects st)" "set others \<inter> set (live @ spare) = {}" by blast+
  from rpf_MergeFrom_ok [OF h(1) assms(2) this assms(4)] obtain t f' new where t: "rpf_MergeFrom th g st f = Some (t, f')"
      "rpf_arena f' = rpf_arena f" "rpf_wf th t f' (live @ take (length others) spare @ new) (drop (length others) spare)"
      "length (take (length others) spare @ new) = length others"
      "map (val t) (take (length others) spare @ new) = map (val st) others" "set new \<inter> dom (st_objects st) = {}"
      "dom (st_objects t) = set new \<union> dom (st_objects st)" "agree (dom (st_objects st) - set spare) st t"
    by blast
  let ?more = "take (length others) spare @ new"
  have all: "set ((live @ ?more) @ drop (length others) spare) = set (live @ spare) \<union> set new"
    by (metis append_take_drop_id append.assoc set_append sup_assoc sup_commute)
  have "agree (- set ((live @ ?more) @ drop (length others) spare)) st t"
    unfolding all agree_def
  proof
    fix q assume "q \<in> - (set (live @ spare) \<union> set new)"
    then show "st_objects t q = st_objects st q"
      using t(7,8) by (cases "q \<in> dom (st_objects st)") (auto simp: agree_def domIff)
  qed
  then have "outside t ((live @ ?more) @ drop (length others) spare) = outside st (live @ spare)"
    by (rule outside_new) (use t(6) in \<open>auto simp only: all domIff\<close>)
  then have "rpf_on_heap th H t f' (live @ ?more) (drop (length others) spare)"
    using t(2,3) h(2,3) by (simp add: rpf_on_heap_def)
  moreover have "map (val st) others = map (\<lambda>q. obj_value (the (H q))) others"
    using others by (simp add: val_def)
  moreover have "agree (set live) st t"
    using h(7,8) by (intro agree_mono [OF t(8)]) auto
  ultimately show ?thesis
    using t(1,4,5) by (intro exI [of _ t] exI [of _ f'] exI [of _ ?more] exI [of _ "drop (length others) spare"]) simp
qed

lemma on_heap_CopyFrom:
  assumes "rpf_on_heap th H st f live spare" "rpf_is g others spare_g" "set others \<subseteq> dom H" "length others \<le> 2 ^ 30"
  shows "\<exists>st' f' more spare'. rpf_CopyFrom th g st f = Some (st', f') \<and> rpf_on_heap th H st' f' more spare' \<and>
    map (val st') more = map (\<lambda>q. obj_value (the (H q))) others \<and>
    length more = length others \<and> length spare' = length live + length spare - length others"
proof -
  from on_heap_Clear [OF assms(1)] obtain t f1 where t: "rpf_Clear th st f = Some (t, f1)" "rpf_on_heap th H t f1 [] (live @ spare)"
    by blast
  have "length ([] :: nat list) + length others \<le> 2 ^ 30" using assms(4) by simp
  from on_heap_MergeFrom [OF t(2) assms(2,3) this] t(1) show ?thesis
    by (fastforce simp: rpf_CopyFrom_def)
qed

end

end
