(* ===== verification/Repeated_Ptr_Properties.thy ===== *)
theory Repeated_Ptr_Properties
  imports Repeated_Ptr_Heap
begin

text \<open>
  Properties of \<open>RepeatedPtrField\<close>: a repeated string on the heap implements a list of strings and
  gives back every object it has allocated, and swapping works across arenas. The calls are those of
  the class; what the caller does itself (assigning to an element, allocating the string it hands over,
  deleting the string it gets back) is written out in \<open>run_call\<close>.
\<close>

section \<open>Calls\<close>

datatype string_call =
    CallAdd bytes
  | CallSet nat bytes
  | CallRemoveLast
  | CallClear
  | CallReserve int
  | CallSwapElements nat nat
  | CallDeleteSubrange nat nat
  | CallMergeFrom repeated_ptr_field
  | CallCopyFrom repeated_ptr_field
  | CallAddAllocated bytes
  | CallReleaseLast

fun run_call :: "string_call \<Rightarrow> bytes store \<Rightarrow> repeated_ptr_field \<Rightarrow> (bytes store \<times> repeated_ptr_field) option" where
  "run_call (CallAdd v) st f = do {
     (p, st, f) \<leftarrow> rpf_Add string_type_handler st f;
     st \<leftarrow> store_put p v st;
     Some (st, f)
   }"
| "run_call (CallSet i v) st f = do { p \<leftarrow> rpf_Mutable (int i) f; st \<leftarrow> store_put p v st; Some (st, f) }"
| "run_call CallRemoveLast st f = rpf_RemoveLast string_type_handler st f"
| "run_call CallClear st f = rpf_Clear string_type_handler st f"
| "run_call (CallReserve n) st f = do { f \<leftarrow> rpf_Reserve n f; Some (st, f) }"
| "run_call (CallSwapElements i j) st f = do { f \<leftarrow> rpf_SwapElements (int i) (int j) f; Some (st, f) }"
| "run_call (CallDeleteSubrange i n) st f = rpf_DeleteSubrange string_type_handler (int i) (int n) st f"
| "run_call (CallMergeFrom g) st f = rpf_MergeFrom string_type_handler g st f"
| "run_call (CallCopyFrom g) st f = rpf_CopyFrom string_type_handler g st f"
| "run_call (CallAddAllocated v) st f = do {
     let (p, st) = th_New string_type_handler None st;
     st \<leftarrow> store_put p v st;
     rpf_AddAllocatedInternal_merge string_type_handler p st f
   }"
| "run_call CallReleaseLast st f = do {
     (p, st, f) \<leftarrow> rpf_ReleaseLast_merge string_type_handler st f;
     st \<leftarrow> th_Delete p None st;
     Some (st, f)
   }"

fun run_calls :: "string_call list \<Rightarrow> bytes store \<Rightarrow> repeated_ptr_field \<Rightarrow> (bytes store \<times> repeated_ptr_field) option" where
  "run_calls [] st f = Some (st, f)"
| "run_calls (c # cs) st f = do { (st, f) \<leftarrow> run_call c st f; run_calls cs st f }"

section \<open>The list\<close>

definition other_field :: "(nat \<Rightarrow> bytes obj option) \<Rightarrow> repeated_ptr_field \<Rightarrow> bytes list \<Rightarrow> bool" where
  \<comment> \<open>Another field, whose elements are in the store \<open>H\<close> and have the values given.\<close>
  "other_field H g vs \<longleftrightarrow> (\<exists>ps spare. rpf_is g ps spare \<and> map (\<lambda>p. map_option obj_value (H p)) ps = map Some vs)"

inductive list_call :: "(nat \<Rightarrow> bytes obj option) \<Rightarrow> string_call \<Rightarrow> bytes list \<Rightarrow> bytes list \<Rightarrow> bool" for H where
  call_add: "list_call H (CallAdd v) xs (xs @ [v])"
| call_set: "i < length xs \<Longrightarrow> list_call H (CallSet i v) xs (xs[i := v])"
| call_remove: "list_call H CallRemoveLast (xs @ [x]) xs"
| call_clear: "list_call H CallClear xs []"
| call_reserve: "n \<le> 2 ^ 30 \<Longrightarrow> list_call H (CallReserve n) xs xs"
| call_swap: "i < length xs \<Longrightarrow> j < length xs \<Longrightarrow> list_call H (CallSwapElements i j) xs (xs[i := xs ! j, j := xs ! i])"
| call_delete: "list_call H (CallDeleteSubrange (length xs) (length ys)) (xs @ ys @ zs) (xs @ zs)"
| call_merge: "other_field H g vs \<Longrightarrow> list_call H (CallMergeFrom g) xs (xs @ vs)"
| call_copy: "other_field H g vs \<Longrightarrow> list_call H (CallCopyFrom g) xs vs"
| call_give: "list_call H (CallAddAllocated v) xs (xs @ [v])"
| call_take: "list_call H CallReleaseLast (xs @ [x]) xs"

inductive list_calls :: "(nat \<Rightarrow> bytes obj option) \<Rightarrow> string_call list \<Rightarrow> bytes list \<Rightarrow> bytes list \<Rightarrow> nat \<Rightarrow> bool" for H where
  \<comment> \<open>The number sums up by how much the calls make the list longer.\<close>
  no_calls: "list_calls H [] xs xs 0"
| more_calls: "list_call H c xs ys \<Longrightarrow> list_calls H cs ys zs n \<Longrightarrow> list_calls H (c # cs) xs zs (length ys - length xs + n)"

section \<open>Every call implements the list\<close>

lemma store_put_ok:
  assumes "p \<in> dom (st_objects st)"
  obtains t where "store_put p v st = Some t" "same_place st t" "agree (- {p}) st t" "val t p = v"
  using assms by (auto simp: store_put_def same_place_def agree_def val_def place_def fun_eq_iff)

lemma on_heap_put:
  assumes "rpf_on_heap th H st f live spare" "p \<in> set live"
  obtains t where "store_put p v st = Some t" "rpf_on_heap th H t f live spare" "agree (- {p}) st t" "val t p = v"
proof -
  note h = on_heapD [OF assms(1)]
  have "p \<in> dom (st_objects st)" using h(8) assms(2) by auto
  then obtain t where t: "store_put p v st = Some t" "same_place st t" "agree (- {p}) st t" "val t p = v"
    by (rule store_put_ok)
  have "outside t (live @ spare) = outside st (live @ spare)"
    using assms(2) by (intro outside_agree agree_mono [OF t(3)]) auto
  moreover have "\<forall>q \<in> set spare. val t q = th_new th"
    using rpf_wfD(4) [OF h(1)] h(7) assms(2) by (intro agree_const [OF t(3)]) auto
  ultimately have "rpf_on_heap th H t f live spare"
    using h(2-4) same_place_ok [OF t(2) h(6)] same_place_owns [OF t(2) h(5)] by (intro on_heapI) (auto simp: rpf_wf_def)
  with t that show ?thesis by blast
qed

definition field_holds :: "(nat \<Rightarrow> bytes obj option) \<Rightarrow> bytes store \<Rightarrow> repeated_ptr_field \<Rightarrow> bytes list \<Rightarrow> nat \<Rightarrow> bool" where
  \<comment> \<open>The field has the values given, and at most \<open>n\<close> objects.\<close>
  "field_holds H st f xs n \<longleftrightarrow> (\<exists>live spare. rpf_on_heap string_type_handler H st f live spare \<and> map (val st) live = xs \<and>
     length live + length spare \<le> n)"

lemma field_holdsI:
  "rpf_on_heap string_type_handler H st f live spare \<Longrightarrow> map (val st) live = xs \<Longrightarrow> length live + length spare \<le> n \<Longrightarrow>
    field_holds H st f xs n"
  by (auto simp: field_holds_def)

lemma field_holds_put:
  assumes "rpf_on_heap string_type_handler H st f live spare" "i < length live" "length live + length spare \<le> n"
  obtains t where "store_put (live ! i) v st = Some t" "field_holds H t f ((map (val st) live)[i := v]) n"
proof -
  obtain t where t: "store_put (live ! i) v st = Some t" "rpf_on_heap string_type_handler H t f live spare"
      "agree (- {live ! i}) st t" "val t (live ! i) = v"
    by (rule on_heap_put [OF assms(1), of "live ! i" v]) (use assms(2) in simp_all)
  have "distinct live" using on_heapD(7) [OF assms(1)] by simp
  then have "val t (live ! j) = (map (val st) live)[i := v] ! j" if "j < length live" for j
    using that assms(2) t(4) agree_val [OF t(3), of "live ! j"] by (auto simp: nth_list_update nth_eq_iff_index_eq)
  then have "map (val t) live = (map (val st) live)[i := v]"
    by (intro nth_equalityI) auto
  with t(1,2) assms(3) show ?thesis by (intro that [of t] field_holdsI) auto
qed

lemma map_append3: "map h ps = xs @ ys @ zs \<Longrightarrow> \<exists>as bs cs. ps = as @ bs @ cs \<and> map h as = xs \<and> map h bs = ys \<and> map h cs = zs"
  by (metis append_eq_map_conv)

lemma other_fieldE:
  assumes "other_field H g vs"
  obtains ps spare where "rpf_is g ps spare" "set ps \<subseteq> dom H" "map (\<lambda>q. obj_value (the (H q))) ps = vs" "length ps = length vs"
proof -
  from assms obtain ps spare where p: "rpf_is g ps spare" "map (\<lambda>p. map_option obj_value (H p)) ps = map Some vs"
    by (auto simp: other_field_def)
  from p(2) have "length ps = length vs" by (rule map_eq_imp_length_eq)
  moreover from this p(2) have "set ps \<subseteq> dom H \<and> map (\<lambda>q. obj_value (the (H q))) ps = vs"
    by (induction ps vs rule: list_induct2) auto
  ultimately show ?thesis using that p(1) by blast
qed

lemma call_add_ok:
  assumes "field_holds H st f xs n" "n < 2 ^ 30"
  shows "\<exists>st' f'. run_call (CallAdd v) st f = Some (st', f') \<and> field_holds H st' f' (xs @ [v]) (Suc n)"
proof -
  from assms(1) obtain live spare where h: "rpf_on_heap string_type_handler H st f live spare" "map (val st) live = xs"
      "length live + length spare \<le> n" by (auto simp: field_holds_def)
  with on_heap_Add [OF h(1)] assms(2) obtain p t g where g: "rpf_Add string_type_handler st f = Some (p, t, g)"
      "rpf_on_heap string_type_handler H t g (live @ [p]) (tl spare)" "agree (set live) st t" by auto
  obtain u where "store_put p v t = Some u" "field_holds H u g ((map (val t) (live @ [p]))[length live := v]) (Suc n)"
    by (rule field_holds_put [OF g(2), of "length live" "Suc n" v]) (use h(3) in auto)
  then show ?thesis
    using g(1) agree_map_val [OF g(3), of live] h(2) by (auto simp: list_update_append)
qed

lemma call_set_ok:
  assumes "field_holds H st f xs n" "i < length xs"
  shows "\<exists>st' f'. run_call (CallSet i v) st f = Some (st', f') \<and> field_holds H st' f' (xs[i := v]) n"
proof -
  from assms(1) obtain live spare where h: "rpf_on_heap string_type_handler H st f live spare" "map (val st) live = xs"
      "length live + length spare \<le> n" by (auto simp: field_holds_def)
  then have i: "i < length live" using assms(2) by auto
  obtain t where "store_put (live ! i) v st = Some t" "field_holds H t f ((map (val st) live)[i := v]) n"
    by (rule field_holds_put [OF h(1) i h(3)])
  then show ?thesis
    using rpf_Mutable_nth [OF on_heapD(4) [OF h(1)], of i] i h(2) by (simp add: nth_append)
qed

lemma call_give_ok:
  assumes "field_holds H st f xs n" "n < 2 ^ 30"
  shows "\<exists>st' f'. run_call (CallAddAllocated v) st f = Some (st', f') \<and> field_holds H st' f' (xs @ [v]) (Suc n)"
proof -
  from assms(1) obtain live spare where h: "rpf_on_heap string_type_handler H st f live spare" "map (val st) live = xs"
      "length live + length spare \<le> n" by (auto simp: field_holds_def)
  note D = on_heapD [OF h(1)]
  obtain p t where p: "th_New string_type_handler None st = (p, t)" by fastforce
  note T = th_New_ok [OF p D(6)]
  obtain u where u: "store_put p v t = Some u" "same_place t u" "agree (- {p}) t u" "val u p = v"
    by (rule store_put_ok [of p t]) (use T(7) in auto)
  have notin: "p \<notin> set (live @ spare)" using T(6) D(8) by auto
  have agree: "agree (- {p}) st u" by (rule agree_trans [OF T(5) u(3)]) auto
  have "H p = None"
    using on_heap_outside_None [OF h(1), of p] T(6) by (simp add: domIff)
  have "rpf_on_heap string_type_handler (H(p := st_objects u p)) u f live spare"
    by (rule on_heap_elsewhere [OF h(1) agree same_place_ok [OF u(2) T(2)] notin])
  moreover have "owned_place None (place u p)"
    using same_place_owns [OF u(2) T(3)] by (simp add: owns_def)
  ultimately obtain w g spare' where w: "rpf_AddAllocatedInternal_merge string_type_handler p u f = Some (w, g)"
      "rpf_on_heap string_type_handler (H(p := st_objects u p, p := None)) w g (live @ [p]) spare'"
      "agree (insert p (set live)) u w" "length spare' \<le> length spare"
    using on_heap_AddAllocated [of string_type_handler "H(p := st_objects u p)" u f live spare p] notin h(3) assms(2) by auto
  have "map (val w) (live @ [p]) = xs @ [v]"
    using agree_map_val [OF w(3), of "live @ [p]"] agree_map_val [OF agree, of live] notin h(2) u(4) by auto
  moreover have "H(p := st_objects u p, p := None) = H"
    using \<open>H p = None\<close> by auto
  ultimately have "field_holds H w g (xs @ [v]) (Suc n)"
    using w(2,4) h(3) by (intro field_holdsI [of _ _ _ "live @ [p]" spare']) simp_all
  then show ?thesis
    using p u(1) w(1) by simp
qed

lemma call_take_ok:
  assumes "field_holds H st f (xs @ [x]) n"
  shows "\<exists>st' f'. run_call CallReleaseLast st f = Some (st', f') \<and> field_holds H st' f' xs n"
proof -
  from assms(1) obtain live p spare where h: "rpf_on_heap string_type_handler H st f (live @ [p]) spare" "map (val st) live = xs"
      "length (live @ [p]) + length spare \<le> n" by (auto simp: field_holds_def map_eq_append_conv)
  note D = on_heapD [OF h(1)]
  from on_heap_ReleaseLast [OF h(1)] obtain g spare' where g: "rpf_ReleaseLast_merge string_type_handler st f = Some (p, st, g)"
      "rpf_on_heap string_type_handler (H(p := st_objects st p)) st g live spare'" "length spare' = length spare" by blast
  have "owns None st [p]" using D(5,7) by (intro owns_sub [OF D(5)]) auto
  from delete_loop_ok [OF this] obtain t where t: "th_Delete p None st = Some t"
      "st_objects t = (\<lambda>q. if q \<in> set [p] then None else st_objects st q)" "st_next t = st_next st"
    by (auto simp: bind_eq_Some_conv)
  have agree: "agree (- {p}) st t" "st_ok t"
    using t D(6) by (auto simp: agree_def st_ok_def)
  have "st_objects st p \<noteq> None" using D(8) by auto
  then have notin: "p \<notin> set (live @ spare')"
    using on_heap_outside_None [OF g(2), of p] by fastforce
  have "H p = None"
    using on_heap_outside_None [OF h(1), of p] by simp
  have "rpf_on_heap string_type_handler (H(p := st_objects st p, p := st_objects t p)) t g live spare'"
    by (rule on_heap_elsewhere [OF g(2) agree notin])
  moreover have "H(p := st_objects st p, p := st_objects t p) = H"
    using \<open>H p = None\<close> t(2) by auto
  ultimately have "field_holds H t g xs n"
    using agree_map_val [OF agree(1), of live] notin h(2,3) g(3) by (intro field_holdsI) auto
  then show ?thesis
    using g(1) t(1) by simp
qed

lemma call_ok:
  assumes "list_call H c xs ys" "field_holds H st f xs n" "n + (length ys - length xs) \<le> 2 ^ 30"
  shows "\<exists>st' f'. run_call c st f = Some (st', f') \<and> field_holds H st' f' ys (n + (length ys - length xs))"
proof -
  from assms(2) obtain live spare where h: "rpf_on_heap string_type_handler H st f live spare" "map (val st) live = xs"
      "length live + length spare \<le> n" by (auto simp: field_holds_def)
  from assms(1) show ?thesis
  proof cases
    case (call_add v)
    then show ?thesis using call_add_ok [OF assms(2)] assms(3) by simp
  next
    case (call_set i v)
    then show ?thesis using call_set_ok [OF assms(2)] by simp
  next
    case (call_remove x)
    with h(1,2) obtain live' p where live: "live = live' @ [p]" "map (val st) live' = ys"
      by (auto simp: map_eq_append_conv)
    from string_elements.on_heap_RemoveLast [OF h(1) [unfolded live(1)]] obtain t g where
      t: "rpf_RemoveLast string_type_handler st f = Some (t, g)" "rpf_on_heap string_type_handler H t g live' (p # spare)"
        "agree (set live') st t" by blast
    then have "field_holds H t g ys n"
      using h(3) live agree_map_val [OF t(3), of live'] by (intro field_holdsI [OF t(2)]) auto
    with call_remove t(1) show ?thesis by simp
  next
    case call_clear
    from string_elements.on_heap_Clear [OF h(1)] h(3) call_clear show ?thesis
      by (fastforce intro: field_holdsI)
  next
    case (call_reserve k)
    with on_heap_Reserve [OF h(1)] h(2,3) show ?thesis by (fastforce intro: field_holdsI)
  next
    case (call_swap i j)
    with h(2) have "i < length live" "j < length live" by auto
    with on_heap_SwapElements [OF h(1) this] call_swap h(2,3) show ?thesis
      by (fastforce intro: field_holdsI simp: map_update)
  next
    case (call_delete as bs cs)
    with h(2) map_append3 [of "val st" live as bs cs] obtain ps qs rs where
      live: "live = ps @ qs @ rs" "map (val st) ps = as" "map (val st) qs = bs" "map (val st) rs = cs" by auto
    from on_heap_DeleteSubrange [OF h(1) [unfolded live(1)]] obtain t g where
      t: "rpf_DeleteSubrange string_type_handler (int (length ps)) (int (length qs)) st f = Some (t, g)"
        "rpf_on_heap string_type_handler H t g (ps @ rs) spare" "agree (- set qs) st t" by blast
    have "map (val t) (ps @ rs) = map (val st) (ps @ rs)"
      using on_heapD(7) [OF h(1)] live(1) by (intro agree_map_val [OF t(3)]) auto
    then have "field_holds H t g (as @ cs) n"
      using h(3) live by (intro field_holdsI [OF t(2)]) auto
    moreover have "length as = length ps" "length bs = length qs" using live by auto
    ultimately show ?thesis using call_delete t(1) by simp
  next
    case (call_merge g vs)
    obtain ps spg where g: "rpf_is g ps spg" "set ps \<subseteq> dom H" "map (\<lambda>q. obj_value (the (H q))) ps = vs" "length ps = length vs"
      using call_merge(3) by (rule other_fieldE)
    have "length live + length ps \<le> 2 ^ 30"
      using assms(3) h(3) call_merge(2) g(4) by simp
    from string_elements.on_heap_MergeFrom [OF h(1) g(1,2) this] obtain t k more spare' where
      t: "rpf_MergeFrom string_type_handler g st f = Some (t, k)" "rpf_on_heap string_type_handler H t k (live @ more) spare'"
        "map (val t) more = vs" "agree (set live) st t" "length more = length ps" "length spare' = length spare - length ps"
      using g(3) by blast
    have "field_holds H t k (xs @ vs) (n + length vs)"
      using agree_map_val [OF t(4), of live] h(2,3) t(3,5,6) g(4) by (intro field_holdsI [OF t(2)]) auto
    with call_merge t(1) show ?thesis by simp
  next
    case (call_copy g)
    obtain ps spg where g: "rpf_is g ps spg" "set ps \<subseteq> dom H" "map (\<lambda>q. obj_value (the (H q))) ps = ys" "length ps = length ys"
      using call_copy(2) by (rule other_fieldE)
    have len: "length xs = length live" using h(2) by auto
    have "length ps \<le> 2 ^ 30"
      using assms(3) h(3) g(4) len by simp
    from string_elements.on_heap_CopyFrom [OF h(1) g(1,2) this] obtain t k more spare' where
      t: "rpf_CopyFrom string_type_handler g st f = Some (t, k)" "rpf_on_heap string_type_handler H t k more spare'"
        "map (val t) more = ys" "length more = length ps" "length spare' = length live + length spare - length ps"
      using g(3) by blast
    have "field_holds H t k ys (n + (length ys - length xs))"
      using h(3) t(3-5) g(4) len by (intro field_holdsI [OF t(2)]) auto
    with call_copy t(1) show ?thesis by simp
  next
    case (call_give v)
    then show ?thesis using call_give_ok [OF assms(2)] assms(3) by simp
  next
    case (call_take x)
    then show ?thesis using call_take_ok [of H st f ys x n] assms(2) by simp
  qed
qed

lemma calls_ok:
  assumes "list_calls H cs xs ys k" "field_holds H st f xs n" "n + k \<le> 2 ^ 30"
  shows "\<exists>st' f'. run_calls cs st f = Some (st', f') \<and> field_holds H st' f' ys (n + k)"
  using assms
proof (induction cs xs ys k arbitrary: st f n rule: list_calls.induct)
  case (no_calls xs)
  then show ?case by simp
next
  case (more_calls c xs ys cs zs k)
  have "n + (length ys - length xs) \<le> 2 ^ 30" using more_calls.prems(2) by simp
  from call_ok [OF more_calls.hyps(1) more_calls.prems(1) this] obtain t g where
    t: "run_call c st f = Some (t, g)" "field_holds H t g ys (n + (length ys - length xs))" by blast
  have "n + (length ys - length xs) + k \<le> 2 ^ 30" using more_calls.prems(2) by simp
  from more_calls.IH [OF t(2) this] t(1) show ?case by (auto simp: add_ac)
qed

text \<open>C28. A repeated string field on the heap is a list of strings. From a new field, every sequence of calls
  \<open>Add\<close> (with an assignment to the new element), \<open>Mutable\<close> (with an assignment), \<open>RemoveLast\<close>, \<open>Clear\<close>,
  \<open>Reserve\<close>, \<open>SwapElements\<close>, \<open>DeleteSubrange\<close>, \<open>MergeFrom\<close> and \<open>CopyFrom\<close> another field, \<open>AddAllocated\<close>
  of a string from the heap and \<open>ReleaseLast\<close> of one that the caller then deletes, that is allowed on the
  list and adds at most $2^{30}$ elements, is free of undefined behaviour and leaves the field with
  exactly the elements of the list, whatever objects were cleared and used again; and the destructor then
  leaves the heap with exactly the objects, and their values, that it had before the field was made: no
  object is leaked, none is deleted twice, and none of somebody else's is touched.
\<close>
theorem ptr_field_refines_list:
  assumes "st_ok st" "list_calls (st_objects st) cs [] xs k" "k \<le> 2 ^ 30"
  shows "\<exists>st' f st'' f'. run_calls cs st (RepeatedPtrField None) = Some (st', f) \<and> rpf_size f = int (length xs) \<and>
    (\<forall>i < length xs. rpf_Get (int i) st' f = Some (xs ! i)) \<and>
    rpf_Destroy st' f = Some (st'', f') \<and> st_objects st'' = st_objects st"
proof -
  have "field_holds (st_objects st) st (RepeatedPtrField None) [] 0"
    by (rule field_holdsI [OF on_heap_new [OF assms(1)]]) simp_all
  from calls_ok [OF assms(2) this] assms(3) obtain st' f live spare where f: "run_calls cs st (RepeatedPtrField None) = Some (st', f)"
      "rpf_on_heap string_type_handler (st_objects st) st' f live spare" "map (val st') live = xs"
    by (auto simp: field_holds_def)
  note h = on_heapD [OF f(2)]
  have "rpf_Get (int i) st' f = Some (xs ! i)" if "i < length xs" for i
  proof -
    have i: "i < length live" using that f(3) by auto
    then have "live ! i \<in> set (live @ spare)" by simp
    then have "live ! i \<in> dom (st_objects st')" using h(8) by blast
    moreover have "rpf_Mutable (int i) f = Some (live ! i)"
      using rpf_Mutable_nth [OF h(4), of i] i by (simp add: nth_append)
    ultimately show ?thesis
      using i unfolding f(3) [symmetric] by (auto simp: rpf_Get_def rpf_Mutable_def val_def bind_eq_Some_conv)
  qed
  moreover have "rpf_size f = int (length xs)"
    using h(4) f(3) by (auto simp: rpf_size_def rpf_is_size)
  ultimately show ?thesis
    using f(1) on_heap_Destroy [OF f(2)] by blast
qed

lemma range_constructor_calls:
  \<comment> \<open>The iterator constructor is a run of \<open>Add\<close>, behind a \<open>Reserve\<close> for forward iterators.\<close>
  "RepeatedPtrField_range string_type_handler forward vs st =
     run_calls ((if forward then [CallReserve (int (length vs))] else []) @ map CallAdd vs) st (RepeatedPtrField None)"
proof -
  have "run_calls (map CallAdd vs) st f = rpf_add_all string_type_handler vs st f" for f
    by (induction vs arbitrary: st f) (auto split: Option.bind_split)
  then show ?thesis
    by (simp add: RepeatedPtrField_range_def)
qed

definition shared_store :: "bytes store" where
  \<comment> \<open>Two strings of somebody else, and one on arena 7.\<close>
  "shared_store = \<lparr>st_objects = [0 \<mapsto> \<lparr>obj_value = [97], obj_arena = None, obj_owner = None\<rparr>,
     1 \<mapsto> \<lparr>obj_value = [98, 98], obj_arena = None, obj_owner = None\<rparr>,
     2 \<mapsto> \<lparr>obj_value = [99], obj_arena = Some 7, obj_owner = None\<rparr>], st_next = 3\<rparr>"

definition heap_field :: repeated_ptr_field where
  "heap_field = \<lparr>rpf_arena = None, rpf_current_size = 2, rpf_total_size = 4,
     rpf_rep = Some \<lparr>allocated_size = 2, elements = [Some 0, Some 1, None, None]\<rparr>\<rparr>"

definition arena_field :: repeated_ptr_field where
  "arena_field = \<lparr>rpf_arena = Some 7, rpf_current_size = 1, rpf_total_size = 4,
     rpf_rep = Some \<lparr>allocated_size = 1, elements = [Some 2, None, None, None]\<rparr>\<rparr>"

lemma shared_store_ok: "st_ok shared_store"
  by (simp add: st_ok_def shared_store_def)

lemma heap_field_is: "rpf_is heap_field [0, 1] []"
  by (simp add: rpf_is_def heap_field_def INT_MAX_def)

lemma arena_field_is: "rpf_is arena_field [2] []"
  by (simp add: rpf_is_def arena_field_def INT_MAX_def)

lemma example_calls:
  "list_calls (st_objects shared_store)
     [CallAdd [1], CallAdd [2], CallMergeFrom heap_field, CallSwapElements 0 3, CallDeleteSubrange 1 2, CallRemoveLast,
      CallAddAllocated [3], CallReleaseLast, CallAdd [4], CallSet 0 [5]] [] [[5], [4]] 6"
proof -
  let ?H = "st_objects shared_store"
  have other: "other_field ?H heap_field [[97], [98, 98]]"
    unfolding other_field_def by (intro exI conjI, rule heap_field_is) (simp add: shared_store_def)
  have calls: "list_call ?H (CallAdd [1]) [] [[1]]" "list_call ?H (CallAdd [2]) [[1]] [[1], [2]]"
    "list_call ?H (CallMergeFrom heap_field) [[1], [2]] [[1], [2], [97], [98, 98]]"
    "list_call ?H (CallSwapElements 0 3) [[1], [2], [97], [98, 98]] [[98, 98], [2], [97], [1]]"
    "list_call ?H (CallDeleteSubrange 1 2) [[98, 98], [2], [97], [1]] [[98, 98], [1]]"
    "list_call ?H CallRemoveLast [[98, 98], [1]] [[98, 98]]" "list_call ?H (CallAddAllocated [3]) [[98, 98]] [[98, 98], [3]]"
    "list_call ?H CallReleaseLast [[98, 98], [3]] [[98, 98]]" "list_call ?H (CallAdd [4]) [[98, 98]] [[98, 98], [4]]"
    "list_call ?H (CallSet 0 [5]) [[98, 98], [4]] [[5], [4]]"
    using call_add [of ?H "[1]" "[]"] call_add [of ?H "[2]" "[[1]]"] call_merge [OF other, of "[[1], [2]]"]
      call_swap [of 0 "[[1], [2], [97], [98, 98]]" 3 ?H] call_delete [of ?H "[[98, 98]]" "[[2], [97]]" "[[1]]"]
      call_remove [of ?H "[[98, 98]]" "[1]"] call_give [of ?H "[3]" "[[98, 98]]"] call_take [of ?H "[[98, 98]]" "[3]"]
      call_add [of ?H "[4]" "[[98, 98]]"] call_set [of 0 "[[98, 98], [4]]" ?H "[5]"]
    by (simp_all add: numeral_2_eq_2)
  show ?thesis
    using more_calls [OF calls(1) more_calls [OF calls(2) more_calls [OF calls(3) more_calls [OF calls(4) more_calls [OF calls(5)
      more_calls [OF calls(6) more_calls [OF calls(7) more_calls [OF calls(8) more_calls [OF calls(9) more_calls [OF calls(10)
        no_calls]]]]]]]]]] by (simp add: eval_nat_numeral)
qed

lemma ptr_field_refines_list_witness:
  "\<exists>st' f st'' f'. run_calls [CallAdd [1], CallAdd [2], CallMergeFrom heap_field, CallSwapElements 0 3, CallDeleteSubrange 1 2,
      CallRemoveLast, CallAddAllocated [3], CallReleaseLast, CallAdd [4], CallSet 0 [5]] shared_store (RepeatedPtrField None) =
      Some (st', f) \<and> rpf_size f = int (length [[5 :: 8 word], [4]]) \<and>
    (\<forall>i < length [[5 :: 8 word], [4]]. rpf_Get (int i) st' f = Some ([[5], [4]] ! i)) \<and>
    rpf_Destroy st' f = Some (st'', f') \<and> st_objects st'' = st_objects shared_store"
  by (rule ptr_field_refines_list [OF shared_store_ok example_calls]) simp

text \<open>C29. Swapping two repeated string fields exchanges their elements, wherever the fields are. With the same
  arena the arrays change hands; across arenas, where an object may not move, the elements are copied
  through a temporary on the other field's arena. Afterwards each field has the other's former values, in
  order, is on its own arena as before, owns every object it points to there, shares none of them with the
  other, and no third object has been touched.
\<close>
theorem ptr_field_swap:
  assumes "rpf_wf string_type_handler st f live spare" "rpf_wf string_type_handler st g live' spare'"
    "set (live @ spare) \<inter> set (live' @ spare') = {}" "length live \<le> 2 ^ 30" "length live' \<le> 2 ^ 30"
  shows "\<exists>st' f' g' l s l' s'. rpf_Swap string_type_handler st f g = Some (st', f', g') \<and> rpf_arena f' = rpf_arena f \<and>
    rpf_arena g' = rpf_arena g \<and> rpf_wf string_type_handler st' f' l s \<and> rpf_wf string_type_handler st' g' l' s' \<and>
    set (l @ s) \<inter> set (l' @ s') = {} \<and> map (val st') l = map (val st) live' \<and> map (val st') l' = map (val st) live \<and>
    agree (dom (st_objects st) - set (live @ spare) - set (live' @ spare')) st st'"
  by (rule string_elements.rpf_Swap_ok [OF assms])

lemma ptr_field_swap_witness:
  "\<exists>st' f' g' l s l' s'. rpf_Swap string_type_handler shared_store heap_field arena_field = Some (st', f', g') \<and>
    rpf_arena f' = None \<and> rpf_arena g' = Some 7 \<and> rpf_wf string_type_handler st' f' l s \<and> rpf_wf string_type_handler st' g' l' s' \<and>
    set (l @ s) \<inter> set (l' @ s') = {} \<and> map (val st') l = [[99]] \<and> map (val st') l' = [[97], [98, 98]]"
proof -
  have arenas: "rpf_arena heap_field = None" "rpf_arena arena_field = Some 7"
    by (simp_all add: heap_field_def arena_field_def)
  have "owns None shared_store [0, 1]" "owns (Some 7) shared_store [2]"
    by (simp_all add: owns_def place_def shared_store_def)
  then have "rpf_wf string_type_handler shared_store heap_field [0, 1] []" "rpf_wf string_type_handler shared_store arena_field [2] []"
    using shared_store_ok heap_field_is arena_field_is arenas by (simp_all add: rpf_wf_def)
  moreover have "map (val shared_store) [0, 1] = [[97], [98, 98]]" "map (val shared_store) [2] = [[99]]"
    by (simp_all add: val_def shared_store_def)
  ultimately show ?thesis
    using ptr_field_swap [of shared_store heap_field "[0, 1]" "[]" arena_field "[2]" "[]"] arenas by fastforce
qed

end
