(* ===== verification/Tokenizer.thy ===== *)
theory Tokenizer
  imports Zero_Copy
begin

text \<open>
  \<open>io/tokenizer.{h,cc}\<close>: the lexer of the text format and of \<open>.proto\<close> files, which reads a zero-copy
  input stream. A token's text and the text of a comment are collected through a pointer to the
  string that is being recorded; here the target of that pointer is \<open>record_target\<close>, and the string
  that the parameter \<open>content\<close> points to is the field \<open>tz_content\<close>. The error collector is the list
  of the calls it got. A character is a byte; the classes below hold no byte from 0x80 on, so the
  sign of \<open>char\<close> does not matter.
\<close>

section \<open>Character classes\<close>

definition Whitespace :: "8 word \<Rightarrow> bool" where
  "Whitespace c \<longleftrightarrow> c = 0x20 \<or> c = 0x0A \<or> c = 0x09 \<or> c = 0x0D \<or> c = 0x0B \<or> c = 0x0C"

definition WhitespaceNoNewline :: "8 word \<Rightarrow> bool" where
  "WhitespaceNoNewline c \<longleftrightarrow> c = 0x20 \<or> c = 0x09 \<or> c = 0x0D \<or> c = 0x0B \<or> c = 0x0C"

definition Unprintable :: "8 word \<Rightarrow> bool" where
  "Unprintable c \<longleftrightarrow> c < 0x20 \<and> c > 0"

definition Digit :: "8 word \<Rightarrow> bool" where
  "Digit c \<longleftrightarrow> 0x30 \<le> c \<and> c \<le> 0x39"

definition OctalDigit :: "8 word \<Rightarrow> bool" where
  "OctalDigit c \<longleftrightarrow> 0x30 \<le> c \<and> c \<le> 0x37"

definition HexDigit :: "8 word \<Rightarrow> bool" where
  "HexDigit c \<longleftrightarrow> (0x30 \<le> c \<and> c \<le> 0x39) \<or> (0x61 \<le> c \<and> c \<le> 0x66) \<or> (0x41 \<le> c \<and> c \<le> 0x46)"

definition Letter :: "8 word \<Rightarrow> bool" where
  "Letter c \<longleftrightarrow> (0x61 \<le> c \<and> c \<le> 0x7A) \<or> (0x41 \<le> c \<and> c \<le> 0x5A) \<or> c = 0x5F"

definition Alphanumeric :: "8 word \<Rightarrow> bool" where
  "Alphanumeric c \<longleftrightarrow> (0x61 \<le> c \<and> c \<le> 0x7A) \<or> (0x41 \<le> c \<and> c \<le> 0x5A) \<or> (0x30 \<le> c \<and> c \<le> 0x39) \<or> c = 0x5F"

definition Escape :: "8 word \<Rightarrow> bool" where
  \<comment> \<open>\<open>a b f n r t v \ ? ' "\<close>\<close>
  "Escape c \<longleftrightarrow> c = 0x61 \<or> c = 0x62 \<or> c = 0x66 \<or> c = 0x6E \<or> c = 0x72 \<or> c = 0x74 \<or> c = 0x76 \<or> c = 0x5C \<or>
     c = 0x3F \<or> c = 0x27 \<or> c = 0x22"

definition DigitValue :: "8 word \<Rightarrow> int" where
  "DigitValue digit =
     (if 0x30 \<le> digit \<and> digit \<le> 0x39 then uint digit - 0x30
      else if 0x61 \<le> digit \<and> digit \<le> 0x7A then uint digit - 0x61 + 10
      else if 0x41 \<le> digit \<and> digit \<le> 0x5A then uint digit - 0x41 + 10
      else - 1)"

definition TranslateEscape :: "8 word \<Rightarrow> 8 word" where
  "TranslateEscape c =
     (if c = 0x61 then 0x07 else if c = 0x62 then 0x08 else if c = 0x66 then 0x0C else if c = 0x6E then 0x0A
      else if c = 0x72 then 0x0D else if c = 0x74 then 0x09 else if c = 0x76 then 0x0B else if c = 0x5C then 0x5C
      else if c = 0x3F then 0x3F else if c = 0x27 then 0x27 else if c = 0x22 then 0x22 else 0x3F)"

section \<open>State\<close>

datatype token_type = TYPE_START | TYPE_END | TYPE_IDENTIFIER | TYPE_INTEGER | TYPE_FLOAT | TYPE_STRING | TYPE_SYMBOL

record token =
  tok_type :: token_type
  tok_text :: bytes
  tok_line :: int
  tok_column :: int
  tok_end_column :: int

datatype comment_style = CPP_COMMENT_STYLE | SH_COMMENT_STYLE

datatype next_comment_status = LINE_COMMENT | BLOCK_COMMENT | SLASH_NOT_COMMENT | NO_COMMENT

datatype record_target = Current_text | Content

record tok_state =
  tz_current :: token
  tz_previous :: token
  tz_errors :: "(int \<times> int \<times> string) list" \<comment> \<open>the calls of \<open>ErrorCollector::AddError\<close>\<close>
  tz_line :: int
  tz_column :: int
  tz_record_target :: "record_target option"
  tz_content :: bytes
  tz_allow_f_after_float :: bool
  tz_comment_style :: comment_style
  tz_require_space_after_number :: bool
  tz_allow_multiline_strings :: bool

record 's tokenizer = tok_state +
  tz_input :: 's
  tz_current_char :: "8 word"
  tz_buffer :: bytes \<comment> \<open>\<open>buffer_\<close> and \<open>buffer_size_\<close>\<close>
  tz_buffer_pos :: int
  tz_read_error :: bool
  tz_record_start :: int

definition tz_AddError_at :: "int \<Rightarrow> int \<Rightarrow> string \<Rightarrow> 'a tok_state_scheme \<Rightarrow> 'a tok_state_scheme" where
  "tz_AddError_at line column msg s = s\<lparr>tz_errors := tz_errors s @ [(line, column, msg)]\<rparr>"

definition tz_AddError :: "string \<Rightarrow> 'a tok_state_scheme \<Rightarrow> 'a tok_state_scheme" where
  "tz_AddError msg s = tz_AddError_at (tz_line s) (tz_column s) msg s"

definition append_to_target :: "bytes \<Rightarrow> 'a tok_state_scheme \<Rightarrow> 'a tok_state_scheme" where
  \<comment> \<open>\<open>record_target_->append(...)\<close>\<close>
  "append_to_target bs s =
     (case tz_record_target s of
        None \<Rightarrow> s
      | Some Current_text \<Rightarrow> s\<lparr>tz_current := (tz_current s)\<lparr>tok_text := tok_text (tz_current s) @ bs\<rparr>\<rparr>
      | Some Content \<Rightarrow> s\<lparr>tz_content := tz_content s @ bs\<rparr>)"

section \<open>Reading characters\<close>

definition kTabWidth :: int where
  "kTabWidth = 8"

definition count_char :: "8 word \<Rightarrow> 'a tok_state_scheme \<Rightarrow> 'a tok_state_scheme" where
  \<comment> \<open>The line and column counters of \<open>NextChar\<close>.\<close>
  "count_char c s =
     (if c = 0x0A then s\<lparr>tz_line := tz_line s + 1, tz_column := 0\<rparr>
      else if c = 0x09 then s\<lparr>tz_column := tz_column s + (kTabWidth - tz_column s mod kTabWidth)\<rparr>
      else s\<lparr>tz_column := tz_column s + 1\<rparr>)"

definition tz_Refresh :: "'s zc_input_ops \<Rightarrow> 's tokenizer \<Rightarrow> 's tokenizer option" where
  "tz_Refresh ops s =
     (if tz_read_error s then Some (s\<lparr>tz_current_char := 0\<rparr>)
      else do {
        let s = (if tz_record_target s \<noteq> None \<and> tz_record_start s < int (length (tz_buffer s))
                 then (append_to_target (drop (nat (tz_record_start s)) (tz_buffer s)) s)\<lparr>tz_record_start := 0\<rparr>
                 else s);
        let s = s\<lparr>tz_buffer := [], tz_buffer_pos := 0\<rparr>;
        (data, input) \<leftarrow> NextNonEmpty ops (tz_input s);
        let s = s\<lparr>tz_input := input\<rparr>;
        Some (case data of
                None \<Rightarrow> s\<lparr>tz_buffer := [], tz_read_error := True, tz_current_char := 0\<rparr>
              | Some buffer \<Rightarrow> s\<lparr>tz_buffer := buffer, tz_current_char := hd buffer\<rparr>)
      })"

definition tz_NextChar :: "'s zc_input_ops \<Rightarrow> 's tokenizer \<Rightarrow> 's tokenizer option" where
  "tz_NextChar ops s =
     (let s = count_char (tz_current_char s) s;
          s = s\<lparr>tz_buffer_pos := tz_buffer_pos s + 1\<rparr> in
      if tz_buffer_pos s < int (length (tz_buffer s))
      then Some (s\<lparr>tz_current_char := tz_buffer s ! nat (tz_buffer_pos s)\<rparr>)
      else tz_Refresh ops s)"

definition tz_RecordTo :: "record_target \<Rightarrow> 's tokenizer \<Rightarrow> 's tokenizer" where
  "tz_RecordTo target s = s\<lparr>tz_record_target := Some target, tz_record_start := tz_buffer_pos s\<rparr>"

definition tz_StopRecording :: "'s tokenizer \<Rightarrow> 's tokenizer" where
  "tz_StopRecording s =
     (let s = (if tz_buffer_pos s \<noteq> tz_record_start s
               then append_to_target (drop (nat (tz_record_start s)) (take (nat (tz_buffer_pos s)) (tz_buffer s))) s
               else s)
      in s\<lparr>tz_record_target := None, tz_record_start := -1\<rparr>)"

definition tz_StartToken :: "'s tokenizer \<Rightarrow> 's tokenizer" where
  "tz_StartToken s =
     tz_RecordTo Current_text
       (s\<lparr>tz_current := (tz_current s)\<lparr>tok_type := TYPE_START, tok_text := [], tok_line := tz_line s, tok_column := tz_column s\<rparr>\<rparr>)"

definition tz_EndToken :: "'s tokenizer \<Rightarrow> 's tokenizer" where
  "tz_EndToken s =
     (let s = tz_StopRecording s in s\<lparr>tz_current := (tz_current s)\<lparr>tok_end_column := tz_column s\<rparr>\<rparr>)"

definition Tokenizer :: "'s zc_input_ops \<Rightarrow> 's \<Rightarrow> 's tokenizer option" where
  \<comment> \<open>\<open>current_\<close> has an empty text from its own constructor; \<open>previous_\<close> is not initialised.\<close>
  "Tokenizer ops input =
     tz_Refresh ops
       \<lparr>tz_current = \<lparr>tok_type = TYPE_START, tok_text = [], tok_line = 0, tok_column = 0, tok_end_column = 0\<rparr>,
        tz_previous = undefined, tz_errors = [], tz_line = 0, tz_column = 0, tz_record_target = None, tz_content = [],
        tz_allow_f_after_float = False, tz_comment_style = CPP_COMMENT_STYLE, tz_require_space_after_number = True,
        tz_allow_multiline_strings = False, tz_input = input, tz_current_char = undefined, tz_buffer = [], tz_buffer_pos = 0,
        tz_read_error = False, tz_record_start = -1\<rparr>"

definition Tokenizer_destroy :: "'s zc_input_ops \<Rightarrow> 's tokenizer \<Rightarrow> 's option" where
  \<comment> \<open>The destructor; the result is the underlying stream.\<close>
  "Tokenizer_destroy ops s =
     (if int (length (tz_buffer s)) > tz_buffer_pos s
      then in_backup ops (int (length (tz_buffer s)) - tz_buffer_pos s) (tz_input s)
      else Some (tz_input s))"

definition set_allow_f_after_float :: "bool \<Rightarrow> 'a tok_state_scheme \<Rightarrow> 'a tok_state_scheme" where
  "set_allow_f_after_float allow s = s\<lparr>tz_allow_f_after_float := allow\<rparr>"

definition set_comment_style :: "comment_style \<Rightarrow> 'a tok_state_scheme \<Rightarrow> 'a tok_state_scheme" where
  "set_comment_style style s = s\<lparr>tz_comment_style := style\<rparr>"

definition set_require_space_after_number :: "bool \<Rightarrow> 'a tok_state_scheme \<Rightarrow> 'a tok_state_scheme" where
  "set_require_space_after_number require s = s\<lparr>tz_require_space_after_number := require\<rparr>"

definition set_allow_multiline_strings :: "bool \<Rightarrow> 'a tok_state_scheme \<Rightarrow> 'a tok_state_scheme" where
  "set_allow_multiline_strings allow s = s\<lparr>tz_allow_multiline_strings := allow\<rparr>"

section \<open>Consuming characters\<close>

definition tz_LookingAt :: "(8 word \<Rightarrow> bool) \<Rightarrow> 's tokenizer \<Rightarrow> bool" where
  "tz_LookingAt InClass s = InClass (tz_current_char s)"

definition tz_TryConsumeOne :: "'s zc_input_ops \<Rightarrow> (8 word \<Rightarrow> bool) \<Rightarrow> 's tokenizer \<Rightarrow> (bool \<times> 's tokenizer) option" where
  "tz_TryConsumeOne ops InClass s =
     (if InClass (tz_current_char s) then do { s \<leftarrow> tz_NextChar ops s; Some (True, s) } else Some (False, s))"

definition tz_TryConsume :: "'s zc_input_ops \<Rightarrow> 8 word \<Rightarrow> 's tokenizer \<Rightarrow> (bool \<times> 's tokenizer) option" where
  "tz_TryConsume ops c s =
     (if tz_current_char s = c then do { s \<leftarrow> tz_NextChar ops s; Some (True, s) } else Some (False, s))"

fun tz_TryConsumeAll :: "'s zc_input_ops \<Rightarrow> (8 word \<Rightarrow> bool) list \<Rightarrow> 's tokenizer \<Rightarrow> (bool \<times> 's tokenizer) option" where
  \<comment> \<open>\<open>TryConsumeOne<...>() && TryConsumeOne<...>() && ...\<close>\<close>
  "tz_TryConsumeAll ops [] s = Some (True, s)"
| "tz_TryConsumeAll ops (InClass # classes) s = do {
     (ok, s) \<leftarrow> tz_TryConsumeOne ops InClass s;
     if ok then tz_TryConsumeAll ops classes s else Some (False, s)
   }"

partial_function (option) tz_ConsumeZeroOrMore ::
    "'s zc_input_ops \<Rightarrow> (8 word \<Rightarrow> bool) \<Rightarrow> 's tokenizer \<Rightarrow> 's tokenizer option" where
  "tz_ConsumeZeroOrMore ops InClass s =
     (if InClass (tz_current_char s) then do { s \<leftarrow> tz_NextChar ops s; tz_ConsumeZeroOrMore ops InClass s } else Some s)"

definition tz_ConsumeOneOrMore ::
    "'s zc_input_ops \<Rightarrow> (8 word \<Rightarrow> bool) \<Rightarrow> string \<Rightarrow> 's tokenizer \<Rightarrow> 's tokenizer option" where
  "tz_ConsumeOneOrMore ops InClass error s =
     (if \<not> InClass (tz_current_char s) then Some (tz_AddError error s)
      else do { s \<leftarrow> tz_NextChar ops s; tz_ConsumeZeroOrMore ops InClass s })"

section \<open>Whole patterns\<close>

definition tz_ConsumeEscape :: "'s zc_input_ops \<Rightarrow> 's tokenizer \<Rightarrow> 's tokenizer option" where
  \<comment> \<open>The escape sequence in \<open>ConsumeString\<close>, behind the backslash.\<close>
  "tz_ConsumeEscape ops s = do {
     (ok, s) \<leftarrow> tz_TryConsumeOne ops Escape s;
     if ok then Some s else do {
       (ok, s) \<leftarrow> tz_TryConsumeOne ops OctalDigit s;
       if ok then Some s else do {
         (ok, s) \<leftarrow> tz_TryConsume ops 0x78 s;
         if ok then do {
           (ok, s) \<leftarrow> tz_TryConsumeOne ops HexDigit s;
           Some (if \<not> ok then tz_AddError ''Expected hex digits for escape sequence.'' s else s)
         }
         else do {
           (ok, s) \<leftarrow> tz_TryConsume ops 0x75 s;
           if ok then do {
             (ok, s) \<leftarrow> tz_TryConsumeAll ops [HexDigit, HexDigit, HexDigit, HexDigit] s;
             Some (if \<not> ok then tz_AddError (''Expected four hex digits for '' @ CHR 0x5C # ''u escape sequence.'') s else s)
           }
           else do {
             (ok, s) \<leftarrow> tz_TryConsume ops 0x55 s;
             if ok then do {
               (ok, s) \<leftarrow> tz_TryConsumeAll ops [\<lambda>c. c = 0x30, \<lambda>c. c = 0x30, \<lambda>c. c = 0x30 \<or> c = 0x31,
                             HexDigit, HexDigit, HexDigit, HexDigit, HexDigit] s;
               Some (if \<not> ok then tz_AddError (''Expected eight hex digits up to 10ffff for '' @ CHR 0x5C # ''U escape sequence'') s else s)
             }
             else Some (tz_AddError ''Invalid escape sequence in string literal.'' s)
           }
         }
       }
     }
   }"

partial_function (option) tz_ConsumeString :: "'s zc_input_ops \<Rightarrow> 8 word \<Rightarrow> 's tokenizer \<Rightarrow> 's tokenizer option" where
  "tz_ConsumeString ops delimiter s =
     (if tz_current_char s = 0 then Some (tz_AddError ''Unexpected end of string.'' s)
      else if tz_current_char s = 0x0A then
        if \<not> tz_allow_multiline_strings s then Some (tz_AddError ''String literals cannot cross line boundaries.'' s)
        else do { s \<leftarrow> tz_NextChar ops s; tz_ConsumeString ops delimiter s }
      else if tz_current_char s = 0x5C then do {
        s \<leftarrow> tz_NextChar ops s;
        s \<leftarrow> tz_ConsumeEscape ops s;
        tz_ConsumeString ops delimiter s
      }
      else if tz_current_char s = delimiter then tz_NextChar ops s
      else do { s \<leftarrow> tz_NextChar ops s; tz_ConsumeString ops delimiter s })"

definition tz_ConsumeExponent :: "'s zc_input_ops \<Rightarrow> bool \<Rightarrow> 's tokenizer \<Rightarrow> (bool \<times> 's tokenizer) option" where
  \<comment> \<open>The exponent and the suffix in \<open>ConsumeNumber\<close>; the flag is \<open>is_float\<close>.\<close>
  "tz_ConsumeExponent ops is_float s = do {
     (e, s) \<leftarrow> tz_TryConsumeOne ops (\<lambda>c. c = 0x65 \<or> c = 0x45) s;
     (is_float, s) \<leftarrow>
       (if e then do {
          (sign, s) \<leftarrow> tz_TryConsumeOne ops (\<lambda>c. c = 0x2D \<or> c = 0x2B) s;
          s \<leftarrow> tz_ConsumeOneOrMore ops Digit (CHR 0x22 # ''e'' @ CHR 0x22 # '' must be followed by exponent.'') s;
          Some (True, s)
        }
        else Some (is_float, s));
     if tz_allow_f_after_float s then do {
       (f, s) \<leftarrow> tz_TryConsumeOne ops (\<lambda>c. c = 0x66 \<or> c = 0x46) s;
       Some (is_float \<or> f, s)
     }
     else Some (is_float, s)
   }"

definition tz_ConsumeDecimal :: "'s zc_input_ops \<Rightarrow> bool \<Rightarrow> 's tokenizer \<Rightarrow> (bool \<times> 's tokenizer) option" where
  \<comment> \<open>A decimal number.\<close>
  "tz_ConsumeDecimal ops started_with_dot s = do {
     s \<leftarrow> tz_ConsumeZeroOrMore ops Digit s;
     if started_with_dot then tz_ConsumeExponent ops True s
     else do {
       (dot, s) \<leftarrow> tz_TryConsume ops 0x2E s;
       if dot then do { s \<leftarrow> tz_ConsumeZeroOrMore ops Digit s; tz_ConsumeExponent ops True s }
       else tz_ConsumeExponent ops False s
     }
   }"

definition tz_CheckNumberEnd :: "8 word \<Rightarrow> bool \<Rightarrow> 'a tok_state_scheme \<Rightarrow> 'a tok_state_scheme" where
  \<comment> \<open>What \<open>ConsumeNumber\<close> says about the character behind the number.\<close>
  "tz_CheckNumberEnd c is_float s =
     (if Letter c \<and> tz_require_space_after_number s then tz_AddError ''Need space between number and identifier.'' s
      else if c = 0x2E then
        if is_float then tz_AddError (''Already saw decimal point or exponent; can'' @ CHR 0x27 # ''t have another one.'') s
        else tz_AddError ''Hex and octal numbers must be integers.'' s
      else s)"

definition tz_ConsumeNumber :: "'s zc_input_ops \<Rightarrow> bool \<Rightarrow> bool \<Rightarrow> 's tokenizer \<Rightarrow> (token_type \<times> 's tokenizer) option" where
  "tz_ConsumeNumber ops started_with_zero started_with_dot s = do {
     (hex, s) \<leftarrow> (if started_with_zero then tz_TryConsumeOne ops (\<lambda>c. c = 0x78 \<or> c = 0x58) s else Some (False, s));
     (is_float, s) \<leftarrow>
       (if hex then do {
          s \<leftarrow> tz_ConsumeOneOrMore ops HexDigit (CHR 0x22 # ''0x'' @ CHR 0x22 # '' must be followed by hex digits.'') s;
          Some (False, s)
        }
        else if started_with_zero \<and> tz_LookingAt Digit s then do {
          s \<leftarrow> tz_ConsumeZeroOrMore ops OctalDigit s;
          if tz_LookingAt Digit s then do {
            s \<leftarrow> tz_ConsumeZeroOrMore ops Digit (tz_AddError ''Numbers starting with leading zero must be in octal.'' s);
            Some (False, s)
          }
          else Some (False, s)
        }
        else tz_ConsumeDecimal ops started_with_dot s);
     Some (if is_float then TYPE_FLOAT else TYPE_INTEGER, tz_CheckNumberEnd (tz_current_char s) is_float s)
   }"

definition tz_ConsumeLineComment :: "'s zc_input_ops \<Rightarrow> bool \<Rightarrow> 's tokenizer \<Rightarrow> 's tokenizer option" where
  \<comment> \<open>The flag says that \<open>content\<close> is not null.\<close>
  "tz_ConsumeLineComment ops content s = do {
     let s = (if content then tz_RecordTo Content s else s);
     s \<leftarrow> tz_ConsumeZeroOrMore ops (\<lambda>c. c \<noteq> 0 \<and> c \<noteq> 0x0A) s;
     (_, s) \<leftarrow> tz_TryConsume ops 0x0A s;
     Some (if content then tz_StopRecording s else s)
   }"

definition tz_comment_end :: "'a tok_state_scheme \<Rightarrow> 'a tok_state_scheme" where
  \<comment> \<open>\<open>content->erase(content->size() - 2)\<close>\<close>
  "tz_comment_end s = s\<lparr>tz_content := take (length (tz_content s) - 2) (tz_content s)\<rparr>"

partial_function (option) tz_block_loop ::
    "'s zc_input_ops \<Rightarrow> bool \<Rightarrow> int \<Rightarrow> int \<Rightarrow> 's tokenizer \<Rightarrow> 's tokenizer option" where
  \<comment> \<open>The loop of \<open>ConsumeBlockComment\<close>.\<close>
  "tz_block_loop ops content start_line start_column s = do {
     s \<leftarrow> tz_ConsumeZeroOrMore ops (\<lambda>c. c \<noteq> 0 \<and> c \<noteq> 0x2A \<and> c \<noteq> 0x2F \<and> c \<noteq> 0x0A) s;
     (newline, s) \<leftarrow> tz_TryConsume ops 0x0A s;
     if newline then do {
       let s = (if content then tz_StopRecording s else s);
       s \<leftarrow> tz_ConsumeZeroOrMore ops WhitespaceNoNewline s;
       (star, s) \<leftarrow> tz_TryConsume ops 0x2A s;
       (slash, s) \<leftarrow> (if star then tz_TryConsume ops 0x2F s else Some (False, s));
       if slash then Some s
       else tz_block_loop ops content start_line start_column (if content then tz_RecordTo Content s else s)
     }
     else do {
       (star, s) \<leftarrow> tz_TryConsume ops 0x2A s;
       (slash, s) \<leftarrow> (if star then tz_TryConsume ops 0x2F s else Some (False, s));
       if slash then Some (if content then tz_comment_end (tz_StopRecording s) else s)
       else do {
         (slash, s) \<leftarrow> tz_TryConsume ops 0x2F s;
         if slash \<and> tz_current_char s = 0x2A then
           tz_block_loop ops content start_line start_column
             (tz_AddError (CHR 0x22 # ''/*'' @ CHR 0x22 # '' inside block comment.  Block comments cannot be nested.'') s)
         else if tz_current_char s = 0 then
           let s = tz_AddError ''End-of-file inside block comment.'' s;
               s = tz_AddError_at start_line start_column ''  Comment started here.'' s
           in Some (if content then tz_StopRecording s else s)
         else tz_block_loop ops content start_line start_column s
       }
     }
   }"

definition tz_ConsumeBlockComment :: "'s zc_input_ops \<Rightarrow> bool \<Rightarrow> 's tokenizer \<Rightarrow> 's tokenizer option" where
  "tz_ConsumeBlockComment ops content s =
     tz_block_loop ops content (tz_line s) (tz_column s - 2) (if content then tz_RecordTo Content s else s)"

definition tz_slash_token :: "'a tok_state_scheme \<Rightarrow> 'a tok_state_scheme" where
  "tz_slash_token s =
     s\<lparr>tz_current := \<lparr>tok_type = TYPE_SYMBOL, tok_text = [0x2F], tok_line = tz_line s, tok_column = tz_column s - 1,
                      tok_end_column = tz_column s\<rparr>\<rparr>"

definition tz_TryConsumeCommentStart ::
    "'s zc_input_ops \<Rightarrow> 's tokenizer \<Rightarrow> (next_comment_status \<times> 's tokenizer) option" where
  "tz_TryConsumeCommentStart ops s = do {
     (slash, s) \<leftarrow> (if tz_comment_style s = CPP_COMMENT_STYLE then tz_TryConsume ops 0x2F s else Some (False, s));
     if slash then do {
       (slash, s) \<leftarrow> tz_TryConsume ops 0x2F s;
       if slash then Some (LINE_COMMENT, s)
       else do {
         (star, s) \<leftarrow> tz_TryConsume ops 0x2A s;
         Some (if star then (BLOCK_COMMENT, s) else (SLASH_NOT_COMMENT, tz_slash_token s))
       }
     }
     else do {
       (hash, s) \<leftarrow> (if tz_comment_style s = SH_COMMENT_STYLE then tz_TryConsume ops 0x23 s else Some (False, s));
       Some (if hash then LINE_COMMENT else NO_COMMENT, s)
     }
   }"

section \<open>Tokens\<close>

fun decimal :: "nat \<Rightarrow> string" where
  \<comment> \<open>\<open>%d\<close> of \<open>StringPrintf\<close>\<close>
  "decimal n = (if n < 10 then [] else decimal (n div 10)) @ [char_of (48 + n mod 10)]"

declare decimal.simps [simp del]

partial_function (option) tz_skip_unprintable :: "'s zc_input_ops \<Rightarrow> 's tokenizer \<Rightarrow> 's tokenizer option" where
  \<comment> \<open>The loop behind \<open>Invalid control characters\<close> in \<open>Next\<close>.\<close>
  "tz_skip_unprintable ops s = do {
     (ok, s) \<leftarrow> tz_TryConsumeOne ops Unprintable s;
     (ok, s) \<leftarrow> (if ok then Some (True, s) else if \<not> tz_read_error s then tz_TryConsume ops 0 s else Some (False, s));
     if ok then tz_skip_unprintable ops s else Some s
   }"

definition tz_set_type :: "token_type \<Rightarrow> 'a tok_state_scheme \<Rightarrow> 'a tok_state_scheme" where
  "tz_set_type ty s = s\<lparr>tz_current := (tz_current s)\<lparr>tok_type := ty\<rparr>\<rparr>"

definition tz_check_dot :: "'a tok_state_scheme \<Rightarrow> 'a tok_state_scheme" where
  \<comment> \<open>The check for \<open>blah.123\<close>.\<close>
  "tz_check_dot s =
     (if tok_type (tz_previous s) = TYPE_IDENTIFIER \<and> tok_line (tz_current s) = tok_line (tz_previous s) \<and>
         tok_column (tz_current s) = tok_end_column (tz_previous s)
      then tz_AddError_at (tz_line s) (tz_column s - 2) ''Need space between identifier and decimal point.'' s else s)"

definition tz_check_ascii :: "8 word \<Rightarrow> 'a tok_state_scheme \<Rightarrow> 'a tok_state_scheme" where
  "tz_check_ascii c s =
     (if c AND 0x80 \<noteq> 0
      then tz_AddError (''Interpreting non ascii codepoint '' @ decimal (unat c) @ ''.'') s else s)"

definition tz_ReadToken :: "'s zc_input_ops \<Rightarrow> 's tokenizer \<Rightarrow> 's tokenizer option" where
  \<comment> \<open>Reading some sort of token, in \<open>Next\<close>, between \<open>StartToken\<close> and \<open>EndToken\<close>.\<close>
  "tz_ReadToken ops s = do {
     (letter, s) \<leftarrow> tz_TryConsumeOne ops Letter s;
     if letter then do { s \<leftarrow> tz_ConsumeZeroOrMore ops Alphanumeric s; Some (tz_set_type TYPE_IDENTIFIER s) }
     else do {
       (zero, s) \<leftarrow> tz_TryConsume ops 0x30 s;
       if zero then do { (ty, s) \<leftarrow> tz_ConsumeNumber ops True False s; Some (tz_set_type ty s) }
       else do {
         (dot, s) \<leftarrow> tz_TryConsume ops 0x2E s;
         if dot then do {
           (digit, s) \<leftarrow> tz_TryConsumeOne ops Digit s;
           if digit then do { (ty, s) \<leftarrow> tz_ConsumeNumber ops False True (tz_check_dot s); Some (tz_set_type ty s) }
           else Some (tz_set_type TYPE_SYMBOL s)
         }
         else do {
           (digit, s) \<leftarrow> tz_TryConsumeOne ops Digit s;
           if digit then do { (ty, s) \<leftarrow> tz_ConsumeNumber ops False False s; Some (tz_set_type ty s) }
           else do {
             (quote, s) \<leftarrow> tz_TryConsume ops 0x22 s;
             if quote then do { s \<leftarrow> tz_ConsumeString ops 0x22 s; Some (tz_set_type TYPE_STRING s) }
             else do {
               (quote, s) \<leftarrow> tz_TryConsume ops 0x27 s;
               if quote then do { s \<leftarrow> tz_ConsumeString ops 0x27 s; Some (tz_set_type TYPE_STRING s) }
               else do {
                 s \<leftarrow> tz_NextChar ops (tz_check_ascii (tz_current_char s) s);
                 Some (tz_set_type TYPE_SYMBOL s)
               }
             }
           }
         }
       }
     }
   }"

definition tz_end_of_input :: "'a tok_state_scheme \<Rightarrow> 'a tok_state_scheme" where
  "tz_end_of_input s =
     s\<lparr>tz_current := \<lparr>tok_type = TYPE_END, tok_text = [], tok_line = tz_line s, tok_column = tz_column s,
                      tok_end_column = tz_column s\<rparr>\<rparr>"

partial_function (option) tz_next_loop :: "'s zc_input_ops \<Rightarrow> 's tokenizer \<Rightarrow> (bool \<times> 's tokenizer) option" where
  "tz_next_loop ops s =
     (if tz_read_error s then Some (False, tz_end_of_input s)
      else do {
        s \<leftarrow> tz_ConsumeZeroOrMore ops Whitespace s;
        (status, s) \<leftarrow> tz_TryConsumeCommentStart ops s;
        case status of
          LINE_COMMENT \<Rightarrow> do { s \<leftarrow> tz_ConsumeLineComment ops False s; tz_next_loop ops s }
        | BLOCK_COMMENT \<Rightarrow> do { s \<leftarrow> tz_ConsumeBlockComment ops False s; tz_next_loop ops s }
        | SLASH_NOT_COMMENT \<Rightarrow> Some (True, s)
        | NO_COMMENT \<Rightarrow>
            if tz_read_error s then Some (False, tz_end_of_input s)
            else if tz_LookingAt Unprintable s \<or> tz_current_char s = 0 then do {
              s \<leftarrow> tz_NextChar ops (tz_AddError ''Invalid control characters encountered in text.'' s);
              s \<leftarrow> tz_skip_unprintable ops s;
              tz_next_loop ops s
            }
            else do {
              s \<leftarrow> tz_ReadToken ops (tz_StartToken s);
              Some (True, tz_EndToken s)
            }
      })"

definition tz_Next :: "'s zc_input_ops \<Rightarrow> 's tokenizer \<Rightarrow> (bool \<times> 's tokenizer) option" where
  "tz_Next ops s = tz_next_loop ops (s\<lparr>tz_previous := tz_current s\<rparr>)"

end
