(* ===== verification/Tokenizer_Ref.thy ===== *)
theory Tokenizer_Ref
  imports Tokenizer
begin

text \<open>
  The reference lexer: the tokenizer on the list of the bytes that are left, as total functions, with no
  stream, no buffer and no pointers. Runs of characters are \<open>takeWhile\<close>.
\<close>

section \<open>The lexer\<close>

record lexer = tok_state +
  lx_text :: bytes

definition peek :: "lexer \<Rightarrow> 8 word" where
  "peek x = (case lx_text x of [] \<Rightarrow> 0 | c # _ \<Rightarrow> c)"

definition count_chars :: "bytes \<Rightarrow> 'a tok_state_scheme \<Rightarrow> 'a tok_state_scheme" where
  "count_chars bs x = fold count_char bs x"

definition lx_chars :: "bytes \<Rightarrow> lexer \<Rightarrow> lexer" where
  \<comment> \<open>The bytes given, which are the next ones, are consumed.\<close>
  "lx_chars bs x = (append_to_target bs (count_chars bs x))\<lparr>lx_text := drop (length bs) (lx_text x)\<rparr>"

definition lx_char :: "lexer \<Rightarrow> lexer" where
  "lx_char x = lx_chars [peek x] x"

lemma text_simps [simp]:
  "lx_text (append_to_target bs x) = lx_text x" "lx_text (count_chars bs x) = lx_text x"
  "lx_text (count_char c x) = lx_text x" "lx_text (tz_AddError m x) = lx_text x" "lx_text (tz_AddError_at l k m x) = lx_text x"
proof -
  show *: "lx_text (count_char c x) = lx_text x" for c x
    by (simp add: count_char_def)
  show "lx_text (count_chars bs x) = lx_text x"
    unfolding count_chars_def by (induction bs arbitrary: x) (simp_all add: *)
qed (simp_all add: append_to_target_def tz_AddError_def tz_AddError_at_def split: option.split record_target.split)

lemma lx_chars_text [simp]: "lx_text (lx_chars bs x) = drop (length bs) (lx_text x)"
  by (simp add: lx_chars_def)

lemma lx_char_text [simp]: "lx_text (lx_char x) = tl (lx_text x)"
  by (simp add: lx_char_def drop_Suc)

lemma append_to_target_Nil [simp]: "append_to_target [] x = x"
  by (simp add: append_to_target_def split: option.split record_target.split)

lemma lx_chars_Nil [simp]: "lx_chars [] x = x"
  by (simp add: lx_chars_def count_chars_def)

section \<open>The reference functions\<close>

definition lx_try :: "(8 word \<Rightarrow> bool) \<Rightarrow> lexer \<Rightarrow> bool \<times> lexer" where
  "lx_try C x = (if C (peek x) then (True, lx_char x) else (False, x))"

fun lx_try_all :: "(8 word \<Rightarrow> bool) list \<Rightarrow> lexer \<Rightarrow> bool \<times> lexer" where
  "lx_try_all [] x = (True, x)"
| "lx_try_all (C # Cs) x = (let (ok, x) = lx_try C x in if ok then lx_try_all Cs x else (False, x))"

definition lx_while :: "(8 word \<Rightarrow> bool) \<Rightarrow> lexer \<Rightarrow> lexer" where
  "lx_while C x = lx_chars (takeWhile C (lx_text x)) x"

definition lx_one_or_more :: "(8 word \<Rightarrow> bool) \<Rightarrow> string \<Rightarrow> lexer \<Rightarrow> lexer" where
  "lx_one_or_more C error x = (if C (peek x) then lx_while C x else tz_AddError error x)"

definition lx_escape :: "lexer \<Rightarrow> lexer" where
  "lx_escape x =
     (if Escape (peek x) \<or> OctalDigit (peek x) then lx_char x
      else if peek x = 0x78 then
        let (ok, x) = lx_try HexDigit (lx_char x)
        in if \<not> ok then tz_AddError ''Expected hex digits for escape sequence.'' x else x
      else if peek x = 0x75 then
        let (ok, x) = lx_try_all [HexDigit, HexDigit, HexDigit, HexDigit] (lx_char x)
        in if \<not> ok then tz_AddError (''Expected four hex digits for '' @ CHR 0x5C # ''u escape sequence.'') x else x
      else if peek x = 0x55 then
        let (ok, x) = lx_try_all [\<lambda>c. c = 0x30, \<lambda>c. c = 0x30, \<lambda>c. c = 0x30 \<or> c = 0x31,
                             HexDigit, HexDigit, HexDigit, HexDigit, HexDigit] (lx_char x)
        in if \<not> ok then tz_AddError (''Expected eight hex digits up to 10ffff for '' @ CHR 0x5C # ''U escape sequence'') x else x
      else tz_AddError ''Invalid escape sequence in string literal.'' x)"

section \<open>Steps\<close>

text \<open>
  \<open>lx_step x y\<close>: from \<open>x\<close> to \<open>y\<close> some bytes were consumed and some errors reported, and nothing else has
  happened.
\<close>

lemma count_char_append:
  "append_to_target bs (count_char c (x :: lexer)) = count_char c (append_to_target bs x)"
  by (cases "tz_record_target x"; cases "the (tz_record_target x)") (simp_all add: append_to_target_def count_char_def)

lemma append_append: "append_to_target bs (append_to_target as (x :: 'a tok_state_scheme)) = append_to_target (as @ bs) x"
  by (cases "tz_record_target x"; cases "the (tz_record_target x)") (simp_all add: append_to_target_def)

lemma append_text: "append_to_target bs (x :: lexer)\<lparr>lx_text := l\<rparr> = append_to_target bs (x\<lparr>lx_text := l\<rparr>)"
  by (cases "tz_record_target x"; cases "the (tz_record_target x)") (simp_all add: append_to_target_def)

lemma count_char_text: "count_char c (x :: lexer)\<lparr>lx_text := l\<rparr> = count_char c (x\<lparr>lx_text := l\<rparr>)"
  by (simp add: count_char_def)

lemma append_errors: "append_to_target bs (x\<lparr>tz_errors := e\<rparr>) = append_to_target bs (x :: lexer)\<lparr>tz_errors := e\<rparr>"
  by (cases "tz_record_target x"; cases "the (tz_record_target x)") (simp_all add: append_to_target_def)

lemma count_char_errors: "count_char c (x\<lparr>tz_errors := e\<rparr>) = count_char c (x :: lexer)\<lparr>tz_errors := e\<rparr>"
  by (simp add: count_char_def)

lemma count_chars_Cons: "count_chars (c # cs) x = count_chars cs (count_char c x)"
  by (simp add: count_chars_def)

lemma count_chars_append: "count_chars (as @ bs) x = count_chars bs (count_chars as x)"
  by (simp add: count_chars_def)

lemma count_chars_target: "append_to_target bs (count_chars cs (x :: lexer)) = count_chars cs (append_to_target bs x)"
  by (induction cs arbitrary: x) (simp_all add: count_chars_Cons count_char_append count_chars_def)

lemma count_chars_text: "count_chars cs (x :: lexer)\<lparr>lx_text := l\<rparr> = count_chars cs (x\<lparr>lx_text := l\<rparr>)"
  by (induction cs arbitrary: x) (simp_all add: count_chars_Cons count_char_text count_chars_def)

lemma count_chars_errors: "count_chars cs (x\<lparr>tz_errors := e\<rparr>) = count_chars cs (x :: lexer)\<lparr>tz_errors := e\<rparr>"
  by (induction cs arbitrary: x) (simp_all add: count_chars_Cons count_char_errors count_chars_def)

lemma lx_chars_chars: "lx_chars bs (lx_chars as x) = lx_chars (as @ bs) x"
  by (simp add: lx_chars_def count_chars_append count_chars_text count_chars_target [symmetric] append_append append_text
      add.commute)

lemma lx_chars_errors: "lx_chars bs (x\<lparr>tz_errors := e\<rparr>) = lx_chars bs x\<lparr>tz_errors := e\<rparr>"
  by (simp add: lx_chars_def count_chars_errors append_errors)

lemma lx_chars_errors_same [simp]: "tz_errors (lx_chars bs x) = tz_errors x"
proof -
  have "tz_errors (count_chars bs x) = tz_errors x"
    by (induction bs arbitrary: x) (simp_all add: count_chars_def count_char_def)
  then show ?thesis
    by (simp add: lx_chars_def append_to_target_def split: option.split record_target.split)
qed

definition lx_step :: "lexer \<Rightarrow> lexer \<Rightarrow> bool" where
  "lx_step x y \<longleftrightarrow> (\<exists>bs es. lx_text x = bs @ lx_text y \<and> y = (lx_chars bs x)\<lparr>tz_errors := tz_errors x @ es\<rparr>)"

lemma lx_step_refl [simp, intro!]: "lx_step x x"
  unfolding lx_step_def by (intro exI [of _ "[]"]) simp

lemma lx_step_trans [trans]:
  assumes "lx_step x y" "lx_step y z"
  shows "lx_step x z"
proof -
  from assms obtain as es bs fs where 1: "lx_text x = as @ lx_text y" "y = (lx_chars as x)\<lparr>tz_errors := tz_errors x @ es\<rparr>"
      and 2: "lx_text y = bs @ lx_text z" "z = (lx_chars bs y)\<lparr>tz_errors := tz_errors y @ fs\<rparr>"
    unfolding lx_step_def by blast
  have "z = (lx_chars (as @ bs) x)\<lparr>tz_errors := tz_errors x @ es @ fs\<rparr>"
    by (simp add: 2(2)) (simp add: 1(2) lx_chars_errors lx_chars_chars)
  with 1(1) 2(1) show ?thesis
    unfolding lx_step_def by (intro exI [of _ "as @ bs"] exI [of _ "es @ fs"]) simp
qed

lemma lx_step_length: "lx_step x y \<Longrightarrow> length (lx_text y) \<le> length (lx_text x)"
  by (auto simp: lx_step_def)

lemma lx_step_chars: "lx_text x = bs @ l \<Longrightarrow> lx_step x (lx_chars bs x)"
  unfolding lx_step_def by (intro exI [of _ bs] exI [of _ "[]"]) simp

lemma lx_step_char: "lx_text x \<noteq> [] \<Longrightarrow> lx_step x (lx_char x)"
  unfolding lx_char_def by (rule lx_step_chars [of _ _ "tl (lx_text x)"]) (auto simp: peek_def split: list.split)

lemma lx_step_error_at [intro!]: "lx_step x (tz_AddError_at l k m x)"
  unfolding lx_step_def tz_AddError_at_def by (intro exI [of _ "[]"] exI [of _ "[(l, k, m)]"]) simp

lemma lx_step_error [intro!]: "lx_step x (tz_AddError m x)"
  unfolding tz_AddError_def by (rule lx_step_error_at)

lemma lx_step_while: "lx_step x (lx_while C x)"
  unfolding lx_while_def by (rule lx_step_chars [of _ _ "dropWhile C (lx_text x)"]) simp

lemma peek_text: "peek x \<noteq> 0 \<Longrightarrow> lx_text x \<noteq> []"
  by (auto simp: peek_def)

lemma peek_class: "C (peek x) \<Longrightarrow> \<not> C 0 \<Longrightarrow> lx_text x \<noteq> []"
  by (auto simp: peek_def)

named_theorems class_zero \<open>no class has the character 0\<close>

lemma classes_zero [class_zero, simp]:
  "\<not> Whitespace 0" "\<not> WhitespaceNoNewline 0" "\<not> Unprintable 0" "\<not> Digit 0" "\<not> OctalDigit 0" "\<not> HexDigit 0" "\<not> Letter 0"
  "\<not> Alphanumeric 0" "\<not> Escape 0"
  by (simp_all add: Whitespace_def WhitespaceNoNewline_def Unprintable_def Digit_def OctalDigit_def HexDigit_def Letter_def
      Alphanumeric_def Escape_def)

lemma lx_step_try: "\<not> C 0 \<Longrightarrow> lx_step x (snd (lx_try C x))"
  using lx_step_char [of x] peek_class [of C x] by (auto simp: lx_try_def)

lemma lx_step_try_all: "\<forall>C \<in> set Cs. \<not> C 0 \<Longrightarrow> lx_step x (snd (lx_try_all Cs x))"
proof (induction Cs arbitrary: x)
  case (Cons C Cs)
  have "lx_step x (snd (lx_try C x))" by (rule lx_step_try) (use Cons.prems in simp)
  moreover have "lx_step (snd (lx_try C x)) (snd (lx_try_all Cs (snd (lx_try C x))))"
    by (rule Cons.IH) (use Cons.prems in auto)
  ultimately show ?case
    by (auto simp: split_def Let_def intro: lx_step_trans)
qed simp

lemma lx_step_one_or_more: "lx_step x (lx_one_or_more C e x)"
  by (auto simp: lx_one_or_more_def lx_step_while)

lemma lx_step_escape: "lx_step x (lx_escape x)"
proof -
  let ?hex4 = "[HexDigit, HexDigit, HexDigit, HexDigit]"
  let ?hex8 = "[\<lambda>c. c = 0x30, \<lambda>c. c = 0x30, \<lambda>c. c = 0x30 \<or> c = 0x31, HexDigit, HexDigit, HexDigit, HexDigit, HexDigit]"
  have char: "lx_step x (lx_char x)" if "peek x \<noteq> 0" using that by (intro lx_step_char peek_text)
  have 1: "lx_step x (snd (lx_try HexDigit (lx_char x)))" if "peek x \<noteq> 0"
    by (rule lx_step_trans [OF char [OF that] lx_step_try]) simp
  have 4: "lx_step x (snd (lx_try_all ?hex4 (lx_char x)))" if "peek x \<noteq> 0"
    by (rule lx_step_trans [OF char [OF that] lx_step_try_all]) simp
  have 8: "lx_step x (snd (lx_try_all ?hex8 (lx_char x)))" if "peek x \<noteq> 0"
    by (rule lx_step_trans [OF char [OF that] lx_step_try_all]) simp
  have "peek x \<noteq> 0" if "Escape (peek x) \<or> OctalDigit (peek x)" using that classes_zero by metis
  then show ?thesis
    using char 1 4 8
    by (simp add: lx_escape_def split_def Let_def del: lx_try_all.simps) (auto intro: lx_step_trans)
qed

lemma lx_char_shorter: "lx_text x \<noteq> [] \<Longrightarrow> length (lx_text (lx_char x)) < length (lx_text x)"
  by simp

section \<open>Strings, numbers and comments\<close>

function lx_string :: "8 word \<Rightarrow> lexer \<Rightarrow> lexer" where
  "lx_string delimiter x =
     (if peek x = 0 then tz_AddError ''Unexpected end of string.'' x
      else if peek x = 0x0A then
        if \<not> tz_allow_multiline_strings x then tz_AddError ''String literals cannot cross line boundaries.'' x
        else lx_string delimiter (lx_char x)
      else if peek x = 0x5C then lx_string delimiter (lx_escape (lx_char x))
      else if peek x = delimiter then lx_char x
      else lx_string delimiter (lx_char x))"
  by auto

termination
proof (relation "measure (\<lambda>(d, x). length (lx_text x))", simp, goal_cases)
  case (2 delimiter x)
  then show ?case
    using lx_step_length [OF lx_step_escape [of "lx_char x"]] lx_char_shorter [OF peek_text [of x]] by simp
qed (use lx_char_shorter peek_text in auto)

declare lx_string.simps [simp del]

definition lx_exponent :: "bool \<Rightarrow> lexer \<Rightarrow> bool \<times> lexer" where
  "lx_exponent is_float x =
     (let (e, x) = lx_try (\<lambda>c. c = 0x65 \<or> c = 0x45) x;
          (is_float, x) =
            (if e then (True, lx_one_or_more Digit (CHR 0x22 # ''e'' @ CHR 0x22 # '' must be followed by exponent.'')
                               (snd (lx_try (\<lambda>c. c = 0x2D \<or> c = 0x2B) x)))
             else (is_float, x))
      in if tz_allow_f_after_float x
         then let (f, x) = lx_try (\<lambda>c. c = 0x66 \<or> c = 0x46) x in (is_float \<or> f, x)
         else (is_float, x))"

definition lx_decimal :: "bool \<Rightarrow> lexer \<Rightarrow> bool \<times> lexer" where
  "lx_decimal started_with_dot x =
     (let x = lx_while Digit x in
      if started_with_dot then lx_exponent True x
      else if peek x = 0x2E then lx_exponent True (lx_while Digit (lx_char x))
      else lx_exponent False x)"

definition lx_number :: "bool \<Rightarrow> bool \<Rightarrow> lexer \<Rightarrow> token_type \<times> lexer" where
  "lx_number started_with_zero started_with_dot x =
     (let (is_float, x) =
        (if started_with_zero \<and> (peek x = 0x78 \<or> peek x = 0x58)
         then (False, lx_one_or_more HexDigit (CHR 0x22 # ''0x'' @ CHR 0x22 # '' must be followed by hex digits.'') (lx_char x))
         else if started_with_zero \<and> Digit (peek x) then
           let x = lx_while OctalDigit x
           in (False, if Digit (peek x)
                      then lx_while Digit (tz_AddError ''Numbers starting with leading zero must be in octal.'' x) else x)
         else lx_decimal started_with_dot x)
      in (if is_float then TYPE_FLOAT else TYPE_INTEGER, tz_CheckNumberEnd (peek x) is_float x))"

definition lx_record :: "bool \<Rightarrow> record_target option \<Rightarrow> lexer \<Rightarrow> lexer" where
  "lx_record content target x = (if content then x\<lparr>tz_record_target := target\<rparr> else x)"

lemma lx_record_text [simp]: "lx_text (lx_record content target x) = lx_text x"
  by (simp add: lx_record_def)

lemma peek_lx_record [simp]: "peek (lx_record content target x) = peek x"
  by (simp add: peek_def)

definition lx_line_comment :: "bool \<Rightarrow> lexer \<Rightarrow> lexer" where
  "lx_line_comment content x =
     lx_record content None
       (snd (lx_try (\<lambda>c. c = 0x0A) (lx_while (\<lambda>c. c \<noteq> 0 \<and> c \<noteq> 0x0A) (lx_record content (Some Content) x))))"

definition lx_star_slash :: "lexer \<Rightarrow> bool \<times> lexer" where
  \<comment> \<open>\<open>TryConsume('*') && TryConsume('/')\<close>\<close>
  "lx_star_slash x = lx_try_all [\<lambda>c. c = 0x2A, \<lambda>c. c = 0x2F] x"

function lx_block_loop :: "bool \<Rightarrow> int \<Rightarrow> int \<Rightarrow> lexer \<Rightarrow> lexer" where
  "lx_block_loop content start_line start_column x =
     (let x = lx_while (\<lambda>c. c \<noteq> 0 \<and> c \<noteq> 0x2A \<and> c \<noteq> 0x2F \<and> c \<noteq> 0x0A) x in
      if peek x = 0x0A then
        let (slash, x) = lx_star_slash (lx_while WhitespaceNoNewline (lx_record content None (lx_char x)))
        in if slash then x else lx_block_loop content start_line start_column (lx_record content (Some Content) x)
      else
        let (slash, y) = lx_star_slash x in
        if slash then (if content then tz_comment_end (lx_record content None y) else y)
        else
          let (slash, z) = lx_try (\<lambda>c. c = 0x2F) y in
          if slash \<and> peek z = 0x2A then
            lx_block_loop content start_line start_column
              (tz_AddError (CHR 0x22 # ''/*'' @ CHR 0x22 # '' inside block comment.  Block comments cannot be nested.'') z)
          else if peek z = 0 then
            lx_record content None (tz_AddError_at start_line start_column ''  Comment started here.''
              (tz_AddError ''End-of-file inside block comment.'' z))
          else lx_block_loop content start_line start_column z)"
  by pat_completeness auto

lemma takeWhile_peek: "peek (lx_while C x) = 0 \<or> \<not> C (peek (lx_while C x))"
proof (cases "dropWhile C (lx_text x)")
  case Nil
  then show ?thesis by (simp add: peek_def lx_while_def dropWhile_eq_drop)
next
  case (Cons c cs)
  then have "\<not> C c" using hd_dropWhile [of C "lx_text x"] by simp
  then show ?thesis using Cons by (simp add: peek_def lx_while_def dropWhile_eq_drop)
qed

lemma lx_star_slash_step: "lx_step x (snd (lx_star_slash x))"
  unfolding lx_star_slash_def by (rule lx_step_try_all) auto

lemma lx_star_slash_same: "lx_star_slash x = (False, y) \<Longrightarrow> peek x \<noteq> 0x2A \<Longrightarrow> y = x"
  by (simp add: lx_star_slash_def lx_try_def)

lemma lx_star_slash_shorter: "lx_star_slash x = (ok, y) \<Longrightarrow> peek x = 0x2A \<Longrightarrow> length (lx_text y) < length (lx_text x)"
  using peek_text [of x] by (auto simp: lx_star_slash_def lx_try_def Let_def split: if_splits)

lemma lx_try_shorter: "lx_try C x = (True, y) \<Longrightarrow> \<not> C 0 \<Longrightarrow> length (lx_text y) < length (lx_text x)"
  using peek_class [of C x] by (auto simp: lx_try_def split: if_splits)

lemma lx_while_length: "length (lx_text (lx_while C x)) \<le> length (lx_text x)"
  by (rule lx_step_length [OF lx_step_while])

lemma lx_star_slash_length: "lx_star_slash x = (ok, y) \<Longrightarrow> length (lx_text y) \<le> length (lx_text x)"
  using lx_step_length [OF lx_star_slash_step [of x]] by simp

lemma lx_line_start_shorter:
  \<comment> \<open>The start of a line of a block comment.\<close>
  assumes "lx_star_slash (lx_while C (lx_record content target (lx_char w))) = (ok, y)" "lx_text w \<noteq> []"
  shows "length (lx_text y) < length (lx_text w)"
  using lx_star_slash_length [OF assms(1)] lx_while_length [of C "lx_record content target (lx_char w)"] lx_char_shorter [OF assms(2)]
  by simp

lemma lx_block_step_shorter:
  assumes "lx_star_slash w = (ok, y)" "lx_try (\<lambda>c. c = 0x2F) y = (slash, z)" "slash \<or> peek z \<noteq> 0"
    "peek w = 0 \<or> peek w = 0x2A \<or> peek w = 0x2F"
  shows "length (lx_text z) < length (lx_text w)"
proof (cases slash)
  case True
  then show ?thesis
    using lx_try_shorter [of "\<lambda>c. c = 0x2F" y z] assms(2) lx_star_slash_length [OF assms(1)] by simp
next
  case False
  then have z: "z = y" "peek y \<noteq> 0x2F" "peek y \<noteq> 0"
    using assms(2,3) by (auto simp: lx_try_def split: if_splits)
  show ?thesis
  proof (cases "peek w = 0x2A")
    case True
    then show ?thesis using lx_star_slash_shorter [OF assms(1)] z(1) by simp
  next
    case False
    then have "y = w" using assms(1) by (auto simp: lx_star_slash_def lx_try_def)
    with z False assms(4) show ?thesis by simp
  qed
qed

termination lx_block_loop
proof (relation "measure (\<lambda>(_, _, _, x). length (lx_text x))", goal_cases)
  case 1
  then show ?case by simp
next
  case (2 content l k x w p slash y)
  have "length (lx_text y) < length (lx_text w)"
    by (rule lx_line_start_shorter [of WhitespaceNoNewline content None w slash]) (use 2 peek_text in auto)
  with 2(1) show ?case
    using lx_while_length [of _ x] by (simp add: less_le_trans)
next
  case (3 content l k x w p slash y q slash' z)
  have "length (lx_text z) < length (lx_text w)"
    by (rule lx_block_step_shorter [of w slash y slash'])
      (use 3 takeWhile_peek [of "\<lambda>c. c \<noteq> 0 \<and> c \<noteq> 0x2A \<and> c \<noteq> 0x2F \<and> c \<noteq> 0x0A" x] in auto)
  with 3(1) show ?case
    using lx_while_length [of _ x] by (simp add: less_le_trans)
next
  case (4 content l k x w p slash y q slash' z)
  have "length (lx_text z) < length (lx_text w)"
    by (rule lx_block_step_shorter [of w slash y slash'])
      (use 4 takeWhile_peek [of "\<lambda>c. c \<noteq> 0 \<and> c \<noteq> 0x2A \<and> c \<noteq> 0x2F \<and> c \<noteq> 0x0A" x] in auto)
  with 4(1) show ?case
    using lx_while_length [of _ x] by (simp add: less_le_trans)
qed

declare lx_block_loop.simps [simp del]

lemma lx_text_comment_end [simp]: "lx_text (tz_comment_end x) = lx_text x"
  by (simp add: tz_comment_end_def)

lemma lx_block_loop_length: "length (lx_text (lx_block_loop content l k x)) \<le> length (lx_text x)"
proof (induction content l k x rule: lx_block_loop.induct)
  case (1 content l k x)
  define w where "w = lx_while (\<lambda>c. c \<noteq> 0 \<and> c \<noteq> 0x2A \<and> c \<noteq> 0x2F \<and> c \<noteq> 0x0A) x"
  have w: "length (lx_text w) \<le> length (lx_text x)" unfolding w_def by (rule lx_while_length)
  note IH = 1 [OF w_def]
  show ?case
  proof (cases "peek w = 0x0A")
    case True
    obtain ok y where y: "lx_star_slash (lx_while WhitespaceNoNewline (lx_record content None (lx_char w))) = (ok, y)" by fastforce
    have "length (lx_text y) \<le> length (lx_text w)"
      using lx_line_start_shorter [OF y] True peek_text [of w] by simp
    with IH(1) [OF True y [symmetric] refl] True y w show ?thesis
      by (subst lx_block_loop.simps) (auto simp: Let_def simp flip: w_def)
  next
    case False
    obtain ok y where y: "lx_star_slash w = (ok, y)" by fastforce
    obtain slash z where z: "lx_try (\<lambda>c. c = 0x2F) y = (slash, z)" by fastforce
    have "length (lx_text y) \<le> length (lx_text w)" "length (lx_text z) \<le> length (lx_text y)"
      using lx_star_slash_length [OF y] lx_step_length [OF lx_step_try [of "\<lambda>c. c = 0x2F" y]] z by simp_all
    with IH(2) [OF False y [symmetric] refl _ z [symmetric] refl] IH(3) [OF False y [symmetric] refl _ z [symmetric] refl] False y z w
    show ?thesis
      by (subst lx_block_loop.simps) (auto simp: Let_def simp del: append.simps simp flip: w_def)
  qed
qed

definition lx_block_comment :: "bool \<Rightarrow> lexer \<Rightarrow> lexer" where
  "lx_block_comment content x =
     lx_block_loop content (tz_line x) (tz_column x - 2) (lx_record content (Some Content) x)"

definition lx_comment_start :: "lexer \<Rightarrow> next_comment_status \<times> lexer" where
  "lx_comment_start x =
     (if tz_comment_style x = CPP_COMMENT_STYLE \<and> peek x = 0x2F then
        let x = lx_char x in
        if peek x = 0x2F then (LINE_COMMENT, lx_char x)
        else if peek x = 0x2A then (BLOCK_COMMENT, lx_char x)
        else (SLASH_NOT_COMMENT, tz_slash_token x)
      else if tz_comment_style x = SH_COMMENT_STYLE \<and> peek x = 0x23 then (LINE_COMMENT, lx_char x)
      else (NO_COMMENT, x))"

section \<open>Tokens\<close>

definition lx_start_token :: "lexer \<Rightarrow> lexer" where
  "lx_start_token x =
     x\<lparr>tz_current := (tz_current x)\<lparr>tok_type := TYPE_START, tok_text := [], tok_line := tz_line x, tok_column := tz_column x\<rparr>,
       tz_record_target := Some Current_text\<rparr>"

definition lx_end_token :: "lexer \<Rightarrow> lexer" where
  "lx_end_token x = x\<lparr>tz_record_target := None, tz_current := (tz_current x)\<lparr>tok_end_column := tz_column x\<rparr>\<rparr>"

definition lx_read_token :: "lexer \<Rightarrow> token_type \<times> lexer" where
  \<comment> \<open>The token's type, and the lexer behind its last character.\<close>
  "lx_read_token x =
     (if Letter (peek x) then (TYPE_IDENTIFIER, lx_while Alphanumeric (lx_char x))
      else if peek x = 0x30 then lx_number True False (lx_char x)
      else if peek x = 0x2E then
        let x = lx_char x
        in if Digit (peek x) then lx_number False True (tz_check_dot (lx_char x)) else (TYPE_SYMBOL, x)
      else if Digit (peek x) then lx_number False False (lx_char x)
      else if peek x = 0x22 \<or> peek x = 0x27 then (TYPE_STRING, lx_string (peek x) (lx_char x))
      else (TYPE_SYMBOL, lx_char (tz_check_ascii (peek x) x)))"

definition lx_token :: "lexer \<Rightarrow> lexer" where
  "lx_token x = (let (ty, y) = lx_read_token (lx_start_token x) in lx_end_token (tz_set_type ty y))"

definition lx_control :: "lexer \<Rightarrow> lexer" where
  \<comment> \<open>Control characters: one is reported, more of them are skipped.\<close>
  "lx_control x =
     lx_while (\<lambda>c. c < 0x20) (lx_char (tz_AddError ''Invalid control characters encountered in text.'' x))"

function lx_next_loop :: "lexer \<Rightarrow> bool \<times> lexer" where
  "lx_next_loop x =
     (if lx_text x = [] then (False, tz_end_of_input x)
      else
        let (status, x) = lx_comment_start (lx_while Whitespace x) in
        case status of
          LINE_COMMENT \<Rightarrow> lx_next_loop (lx_line_comment False x)
        | BLOCK_COMMENT \<Rightarrow> lx_next_loop (lx_block_comment False x)
        | SLASH_NOT_COMMENT \<Rightarrow> (True, x)
        | NO_COMMENT \<Rightarrow>
            if lx_text x = [] then (False, tz_end_of_input x)
            else if peek x < 0x20 then lx_next_loop (lx_control x)
            else (True, lx_token x))"
  by auto

lemma lx_comment_start_shorter:
  "lx_comment_start x = (status, y) \<Longrightarrow> status = LINE_COMMENT \<or> status = BLOCK_COMMENT \<Longrightarrow> length (lx_text y) < length (lx_text x)"
  using peek_text [of x] by (auto simp: lx_comment_start_def Let_def split: if_splits)

lemma lx_comment_start_none: "lx_comment_start x = (NO_COMMENT, y) \<Longrightarrow> y = x"
  by (auto simp: lx_comment_start_def Let_def split: if_splits)

lemma lx_line_comment_length: "length (lx_text (lx_line_comment content x)) \<le> length (lx_text x)"
proof -
  have "lx_step y (snd (lx_try (\<lambda>c. c = 0x0A) y))" for y
    by (rule lx_step_try) simp
  from lx_step_length [OF lx_step_trans [OF lx_step_while this], of _ "lx_record content (Some Content) x"]
  show ?thesis by (simp add: lx_line_comment_def)
qed

lemma lx_block_comment_length: "length (lx_text (lx_block_comment content x)) \<le> length (lx_text x)"
  unfolding lx_block_comment_def using lx_block_loop_length by (metis lx_record_text)

lemma lx_control_shorter: "lx_text x \<noteq> [] \<Longrightarrow> length (lx_text (lx_control x)) < length (lx_text x)"
  unfolding lx_control_def by (rule le_less_trans [OF lx_while_length]) simp

lemma lx_loop_shorter:
  assumes "lx_comment_start (lx_while Whitespace x) = (status, y)"
  shows "status = LINE_COMMENT \<Longrightarrow> length (lx_text (lx_line_comment False y)) < length (lx_text x)"
    "status = BLOCK_COMMENT \<Longrightarrow> length (lx_text (lx_block_comment False y)) < length (lx_text x)"
    "status = NO_COMMENT \<Longrightarrow> lx_text y \<noteq> [] \<Longrightarrow> length (lx_text (lx_control y)) < length (lx_text x)"
proof -
  note le = lx_while_length [of Whitespace x]
  show "length (lx_text (lx_line_comment False y)) < length (lx_text x)" if "status = LINE_COMMENT"
    using lx_comment_start_shorter [OF assms] lx_line_comment_length [of False y] le that by simp
  show "length (lx_text (lx_block_comment False y)) < length (lx_text x)" if "status = BLOCK_COMMENT"
    using lx_comment_start_shorter [OF assms] lx_block_comment_length [of False y] le that by simp
  show "length (lx_text (lx_control y)) < length (lx_text x)" if "status = NO_COMMENT" "lx_text y \<noteq> []"
  proof -
    have "y = lx_while Whitespace x" using assms that(1) by (intro lx_comment_start_none) simp
    then show ?thesis using lx_control_shorter [OF that(2)] le by simp
  qed
qed

termination lx_next_loop
proof (relation "measure (\<lambda>x. length (lx_text x))", goal_cases)
  case (2 x p status y)
  then show ?case using lx_loop_shorter(1) [of x status y] by simp
next
  case (3 x p status y)
  then show ?case using lx_loop_shorter(2) [of x status y] by simp
next
  case (4 x p status y)
  then show ?case using lx_loop_shorter(3) [of x status y] by simp
qed simp

declare lx_next_loop.simps [simp del]

definition lx_Next :: "lexer \<Rightarrow> bool \<times> lexer" where
  "lx_Next x = lx_next_loop (x\<lparr>tz_previous := tz_current x\<rparr>)"

section \<open>What is being recorded\<close>

lemma count_chars_same_target [simp]: "tz_record_target (count_chars bs x) = tz_record_target x"
proof -
  have "tz_record_target (count_char c y) = tz_record_target y" for c and y :: "'a tok_state_scheme"
    by (simp add: count_char_def)
  then show ?thesis
    unfolding count_chars_def by (induction bs arbitrary: x) simp_all
qed

lemma append_same_target [simp]: "tz_record_target (append_to_target bs x) = tz_record_target x"
  by (simp add: append_to_target_def split: option.split record_target.split)

lemma lx_targets [simp]:
  "tz_record_target (lx_chars bs x) = tz_record_target x" "tz_record_target (lx_char x) = tz_record_target x"
  "tz_record_target (lx_while C x) = tz_record_target x" "tz_record_target (snd (lx_try C x)) = tz_record_target x"
  "tz_record_target (tz_AddError m x) = tz_record_target x" "tz_record_target (tz_AddError_at l k m x) = tz_record_target x"
  "tz_record_target (snd (lx_star_slash x)) = tz_record_target x" "tz_record_target (lx_end_token x) = None"
  "tz_record_target (tz_end_of_input x) = tz_record_target x" "tz_record_target (lx_record True t x) = t"
  "tz_record_target (tz_slash_token x) = tz_record_target x" "tz_record_target (tz_comment_end x) = tz_record_target x"
  by (simp_all add: lx_chars_def lx_char_def lx_while_def lx_try_def tz_AddError_def tz_AddError_at_def lx_star_slash_def split_def
      Let_def lx_end_token_def tz_end_of_input_def lx_record_def tz_slash_token_def tz_comment_end_def)

lemma lx_star_slash_target: "lx_star_slash x = (ok, y) \<Longrightarrow> tz_record_target y = tz_record_target x"
  using lx_targets(7) [of x] by simp

lemma lx_try_target: "lx_try C x = (ok, y) \<Longrightarrow> tz_record_target y = tz_record_target x"
  using lx_targets(4) [of C x] by simp

lemma lx_record_target: "tz_record_target x = (if content then a else b) \<Longrightarrow> tz_record_target (lx_record content c x) = (if content then c else b)"
  by (simp add: lx_record_def)

lemma lx_block_loop_target:
  "tz_record_target x = (if content then Some Content else None) \<Longrightarrow> tz_record_target (lx_block_loop content l k x) = None"
proof (induction content l k x rule: lx_block_loop.induct)
  case (1 content l k x)
  define N where "N = (\<lambda>c :: 8 word. c \<noteq> 0 \<and> c \<noteq> 0x2A \<and> c \<noteq> 0x2F \<and> c \<noteq> 0x0A)"
  define w where "w = lx_while N x"
  note IH = 1(1-3) [OF w_def [unfolded N_def]]
  obtain ok1 y1 where y1: "lx_star_slash (lx_while WhitespaceNoNewline (lx_record content None (lx_char w))) = (ok1, y1)" by fastforce
  obtain ok2 y2 where y2: "lx_star_slash w = (ok2, y2)" by fastforce
  obtain sl z where z: "lx_try (\<lambda>c. c = 0x2F) y2 = (sl, z)" by fastforce
  have w: "tz_record_target w = (if content then Some Content else None)" using 1(4) by (simp add: w_def)
  have t: "tz_record_target y1 = None" "tz_record_target y2 = (if content then Some Content else None)"
      "tz_record_target z = (if content then Some Content else None)"
    using lx_star_slash_target [OF y1] lx_star_slash_target [OF y2] lx_try_target [OF z] w by (simp_all add: lx_record_def)
  have stop: "tz_record_target (lx_record content None u) = None" if "tz_record_target u = (if content then Some Content else None)" for u
    using that by (simp add: lx_record_def)
  have "tz_record_target (lx_record content (Some Content) y1) = (if content then Some Content else None)"
    using t(1) by (simp add: lx_record_def)
  with IH(1) [OF _ y1 [symmetric] refl] have A: "peek w = 0x0A \<Longrightarrow> \<not> ok1 \<Longrightarrow>
      tz_record_target (lx_block_loop content l k (lx_record content (Some Content) y1)) = None" by simp
  show ?case
    using A IH(2) [OF _ y2 [symmetric] refl _ z [symmetric] refl] IH(3) [OF _ y2 [symmetric] refl _ z [symmetric] refl] t stop
    by (subst lx_block_loop.simps) (auto simp: Let_def y1 y2 z simp del: append.simps simp flip: N_def w_def split: if_splits)
qed

lemma lx_next_targets:
  "tz_record_target x = None \<Longrightarrow> tz_record_target (lx_line_comment content x) = None"
  "tz_record_target x = None \<Longrightarrow> tz_record_target (lx_block_comment content x) = None"
  "tz_record_target x = None \<Longrightarrow> lx_comment_start x = (status, y) \<Longrightarrow> tz_record_target y = None"
  "tz_record_target (lx_control x) = tz_record_target x" "tz_record_target (lx_token x) = None"
proof -
  assume none: "tz_record_target x = None"
  show "tz_record_target (lx_line_comment content x) = None"
    using none by (simp add: lx_line_comment_def lx_record_def)
  show "tz_record_target (lx_block_comment content x) = None"
    unfolding lx_block_comment_def by (rule lx_block_loop_target) (use none in \<open>simp add: lx_record_def\<close>)
  show "tz_record_target y = None" if "lx_comment_start x = (status, y)"
    using that none by (auto simp: lx_comment_start_def Let_def split: if_splits)
qed (simp_all add: lx_control_def lx_token_def split_def Let_def)

lemma lx_next_loop_target: "tz_record_target x = None \<Longrightarrow> tz_record_target (snd (lx_next_loop x)) = None"
proof (induction x rule: lx_next_loop.induct)
  case (1 x)
  obtain status y where y: "lx_comment_start (lx_while Whitespace x) = (status, y)" by fastforce
  have "tz_record_target y = None"
    by (rule lx_next_targets(3) [OF _ y]) (use 1(4) in simp)
  then show ?case
    using 1(1-3) [OF _ y [symmetric] refl] lx_next_targets 1(4)
    by (subst lx_next_loop.simps) (cases status; auto simp: y split: if_splits)
qed

lemma lx_Next_target: "tz_record_target x = None \<Longrightarrow> tz_record_target (snd (lx_Next x)) = None"
  unfolding lx_Next_def by (rule lx_next_loop_target) simp

end
