(* ===== verification/Tokenizer_Spec.thy ===== *)
theory Tokenizer_Spec
  imports Tokenizer_Ref
begin

text \<open>
  The tokenizer implements the reference lexer, on every stream that keeps its contract. \<open>lexer_of\<close> maps
  a tokenizer to a lexer; what is being recorded counts as recorded.
\<close>

section \<open>The lexer of a tokenizer\<close>

definition tz_pending :: "'s tokenizer \<Rightarrow> bytes" where
  \<comment> \<open>While recording: the bytes of the current buffer that are still to be appended to the target.\<close>
  "tz_pending s = drop (nat (tz_record_start s)) (take (nat (tz_buffer_pos s)) (tz_buffer s))"

definition lexer_with :: "'a tok_state_scheme \<Rightarrow> bytes \<Rightarrow> bytes \<Rightarrow> lexer" where
  "lexer_with s pending left =
     append_to_target pending
       \<lparr>tz_current = tz_current s, tz_previous = tz_previous s, tz_errors = tz_errors s, tz_line = tz_line s,
        tz_column = tz_column s, tz_record_target = tz_record_target s, tz_content = tz_content s,
        tz_allow_f_after_float = tz_allow_f_after_float s, tz_comment_style = tz_comment_style s,
        tz_require_space_after_number = tz_require_space_after_number s,
        tz_allow_multiline_strings = tz_allow_multiline_strings s, lx_text = left\<rparr>"

definition lexer_of :: "('s \<Rightarrow> bytes) \<Rightarrow> 's tokenizer \<Rightarrow> lexer" where
  "lexer_of rest s =
     lexer_with s (tz_pending s) (drop (nat (tz_buffer_pos s)) (tz_buffer s) @ rest (tz_input s))"

lemmas target_splits = option.split record_target.split

lemma lexer_with_text [simp]: "lx_text (lexer_with s p left) = left"
  by (simp add: lexer_with_def)

lemma append_to_target_none: "tz_record_target x = None \<Longrightarrow> append_to_target bs x = x"
  by (simp add: append_to_target_def)

lemma lexer_with_none: "tz_record_target s = None \<Longrightarrow> lexer_with s p left = lexer_with s q left"
  by (simp add: lexer_with_def append_to_target_def)

lemma lexer_with_append: "lexer_with (append_to_target bs s) p left = lexer_with s (bs @ p) left"
  by (auto simp: lexer_with_def append_to_target_def split: target_splits)

lemma count_char_target [simp]: "tz_record_target (count_char c s) = tz_record_target s"
  by (simp add: count_char_def)

lemma lexer_with_count: "lexer_with (count_char c s) p cs = (count_char c (lexer_with s p (c # cs)))\<lparr>lx_text := cs\<rparr>"
  unfolding lexer_with_def count_char_append [symmetric] append_text count_char_text
  by (rule arg_cong [of _ _ "append_to_target p"]) (simp add: count_char_def)

lemma lexer_with_snoc: "lexer_with s (p @ q) l = append_to_target q (lexer_with s p l)"
  by (simp add: lexer_with_def append_append)

lemma lexer_with_char: "lexer_with (count_char c s) (p @ [c]) cs = lx_char (lexer_with s p (c # cs))"
proof -
  have "peek (lexer_with s p (c # cs)) = c" by (simp add: peek_def)
  then show ?thesis
    by (simp add: lexer_with_snoc lexer_with_count lx_char_def lx_chars_def count_chars_def append_text)
qed

lemma count_char_simps [simp]:
  "tz_input (count_char c s) = tz_input s" "tz_buffer (count_char c s) = tz_buffer s"
  "tz_buffer_pos (count_char c s) = tz_buffer_pos s" "tz_read_error (count_char c s) = tz_read_error s"
  "tz_record_start (count_char c s) = tz_record_start s" "tz_current_char (count_char c s) = tz_current_char s"
  by (simp_all add: count_char_def)

lemma lexer_with_same:
  \<comment> \<open>Fields of the tokenizer that are no part of the lexer.\<close>
  "lexer_with (s\<lparr>tz_input := i\<rparr>) p l = lexer_with s p l" "lexer_with (s\<lparr>tz_current_char := c\<rparr>) p l = lexer_with s p l"
  "lexer_with (s\<lparr>tz_buffer := b\<rparr>) p l = lexer_with s p l" "lexer_with (s\<lparr>tz_buffer_pos := n\<rparr>) p l = lexer_with s p l"
  "lexer_with (s\<lparr>tz_read_error := e\<rparr>) p l = lexer_with s p l" "lexer_with (s\<lparr>tz_record_start := n\<rparr>) p l = lexer_with s p l"
  by (simp_all add: lexer_with_def)

definition tz_inv :: "('s \<Rightarrow> bool) \<Rightarrow> ('s \<Rightarrow> bytes) \<Rightarrow> ('s \<Rightarrow> bytes) \<Rightarrow> 's tokenizer \<Rightarrow> bool" where
  "tz_inv ok rest last_chunk s \<longleftrightarrow> ok (tz_input s) \<and>
     (if tz_read_error s
      then rest (tz_input s) = [] \<and> tz_buffer s = [] \<and> tz_buffer_pos s = 0 \<and> tz_current_char s = 0
      else 0 \<le> tz_buffer_pos s \<and> nat (tz_buffer_pos s) < length (tz_buffer s) \<and>
           tz_current_char s = tz_buffer s ! nat (tz_buffer_pos s) \<and> (\<exists>p. last_chunk (tz_input s) = p @ tz_buffer s)) \<and>
     (tz_record_target s \<noteq> None \<longrightarrow> 0 \<le> tz_record_start s \<and> tz_record_start s \<le> tz_buffer_pos s)"

context zero_copy_input begin

definition tz_rel :: "'s tokenizer \<Rightarrow> lexer \<Rightarrow> bool" where
  "tz_rel s x \<longleftrightarrow> tz_inv inv rest last_chunk s \<and> lexer_of rest s = x"

lemma tz_rel_text: "tz_rel s x \<Longrightarrow> lx_text x = drop (nat (tz_buffer_pos s)) (tz_buffer s) @ rest (tz_input s)"
  by (auto simp: tz_rel_def lexer_of_def)

lemma tz_rel_char: "tz_rel s x \<Longrightarrow> tz_current_char s = peek x"
  using tz_rel_text [of s x] by (auto simp: tz_rel_def tz_inv_def peek_def split: if_splits simp flip: Cons_nth_drop_Suc)

lemma tz_rel_eof: "tz_rel s x \<Longrightarrow> tz_read_error s \<longleftrightarrow> lx_text x = []"
  using tz_rel_text [of s x] by (auto simp: tz_rel_def tz_inv_def split: if_splits)

lemma Refresh_ok:
  \<comment> \<open>The buffer has been used up; the rest of it is recorded.\<close>
  assumes "inv (tz_input s)" "\<not> tz_read_error s"
    "tz_record_target s \<noteq> None \<Longrightarrow> 0 \<le> tz_record_start s \<and> tz_record_start s < int (length (tz_buffer s))"
  shows "\<exists>t. tz_Refresh ops s = Some t \<and>
    tz_rel t (lexer_with s (drop (nat (tz_record_start s)) (tz_buffer s)) (rest (tz_input s)))"
proof -
  obtain r i where r: "NextNonEmpty ops (tz_input s) = Some (r, i)" "inv i"
      "case r of None \<Rightarrow> rest (tz_input s) = [] \<and> rest i = []
       | Some c \<Rightarrow> c \<noteq> [] \<and> rest (tz_input s) = c @ rest i \<and> (\<exists>p. last_chunk i = p @ c)"
    using NextNonEmpty_ok [OF assms(1)] by blast
  let ?more = "drop (nat (tz_record_start s)) (tz_buffer s)"
  define s1 where "s1 = (if tz_record_target s \<noteq> None \<and> tz_record_start s < int (length (tz_buffer s))
       then (append_to_target ?more s)\<lparr>tz_record_start := 0\<rparr> else s)\<lparr>tz_buffer := [], tz_buffer_pos := 0\<rparr>"
  have s1: "tz_buffer s1 = []" "tz_buffer_pos s1 = 0" "tz_record_target s1 = tz_record_target s"
      "tz_record_target s \<noteq> None \<Longrightarrow> tz_record_start s1 = 0" "\<not> tz_read_error s1" "tz_input s1 = tz_input s"
    using assms(2,3) by (auto simp: s1_def append_to_target_def split: target_splits)
  have lex: "lexer_with s1 [] l = lexer_with s ?more l" for l
  proof (cases "tz_record_target s")
    case None
    then show ?thesis using lexer_with_none [of s "[]" l ?more] by (simp add: s1_def lexer_with_same)
  next
    case (Some a)
    then show ?thesis using assms(3) by (simp add: s1_def lexer_with_same lexer_with_append)
  qed
  define t where "t = (case r of None \<Rightarrow> s1\<lparr>tz_input := i, tz_buffer := [], tz_read_error := True, tz_current_char := 0\<rparr>
       | Some b \<Rightarrow> s1\<lparr>tz_input := i, tz_buffer := b, tz_current_char := hd b\<rparr>)"
  have "s1\<lparr>tz_buffer := []\<rparr> = s1" using s1(1) by simp
  then have "tz_Refresh ops s = Some t"
    using r(1) assms(2) s1(6) unfolding tz_Refresh_def s1_def [symmetric] Let_def t_def
    by (auto simp: s1_def [symmetric] split: option.split)
  moreover have "tz_rel t (lexer_with s ?more (rest (tz_input s)))"
  proof (cases r)
    case None
    then have "lexer_of rest t = lexer_with s1 [] []"
      using r(3) s1 by (simp add: lexer_of_def t_def lexer_with_same tz_pending_def)
    moreover have "tz_inv inv rest last_chunk t"
      using None r(2,3) s1 by (auto simp: tz_inv_def t_def)
    ultimately show ?thesis using None r(3) lex by (simp add: tz_rel_def)
  next
    case (Some b)
    then have "lexer_of rest t = lexer_with s1 [] (b @ rest i)"
      using s1 by (simp add: lexer_of_def t_def lexer_with_same tz_pending_def)
    moreover have "tz_inv inv rest last_chunk t"
      using Some r(2,3) s1 by (cases b) (auto simp: tz_inv_def t_def)
    ultimately show ?thesis using Some r(3) lex by (simp add: tz_rel_def)
  qed
  ultimately show ?thesis by blast
qed

lemma NextChar_ok:
  assumes "tz_rel s x" "lx_text x \<noteq> []"
  shows "\<exists>t. tz_NextChar ops s = Some t \<and> tz_rel t (lx_char x)"
proof -
  let ?pos = "nat (tz_buffer_pos s)" and ?b = "tz_buffer s" and ?c = "tz_current_char s"
  have err: "\<not> tz_read_error s" using tz_rel_eof [OF assms(1)] assms(2) by simp
  have I: "inv (tz_input s)" "0 \<le> tz_buffer_pos s" "?pos < length ?b" "?c = ?b ! ?pos" "\<exists>p. last_chunk (tz_input s) = p @ ?b"
      "tz_record_target s \<noteq> None \<Longrightarrow> 0 \<le> tz_record_start s \<and> tz_record_start s \<le> tz_buffer_pos s"
    using assms(1) err by (auto simp: tz_rel_def tz_inv_def)
  let ?u = "(count_char ?c s)\<lparr>tz_buffer_pos := tz_buffer_pos s + 1\<rparr>"
  let ?left = "drop (Suc ?pos) ?b @ rest (tz_input s)"
  have "x = lexer_with s (tz_pending s) (?c # ?left)"
    using assms(1) I(3,4) Cons_nth_drop_Suc [of ?pos ?b] by (auto simp: tz_rel_def lexer_of_def simp flip: append_Cons)
  then have x: "lx_char x = lexer_with ?u (tz_pending s @ [?c]) ?left"
    by (simp add: lexer_with_char lexer_with_same)
  have same: "tz_input ?u = tz_input s" "tz_buffer ?u = ?b" "tz_record_target ?u = tz_record_target s"
      "tz_record_start ?u = tz_record_start s" "tz_read_error ?u = tz_read_error s"
    by (simp_all add: count_char_def)
  have pend: "lexer_with ?u (tz_pending s @ [?c]) l = lexer_with ?u (drop (nat (tz_record_start s)) (take (Suc ?pos) ?b)) l" for l
  proof (cases "tz_record_target s")
    case None
    then show ?thesis by (intro lexer_with_none) (simp add: same)
  next
    case (Some a)
    then have "nat (tz_record_start s) \<le> ?pos" using I(6) by (intro nat_mono) simp
    then show ?thesis using I(3,4) by (simp add: tz_pending_def take_Suc_conv_app_nth)
  qed
  show ?thesis
  proof (cases "tz_buffer_pos s + 1 < int (length ?b)")
    case True
    let ?t = "?u\<lparr>tz_current_char := ?b ! nat (tz_buffer_pos s + 1)\<rparr>"
    have "tz_NextChar ops s = Some ?t"
      using True by (simp add: tz_NextChar_def count_char_def)
    moreover have "tz_inv inv rest last_chunk ?t"
      using I True err by (auto simp: tz_inv_def count_char_def)
    moreover have "lexer_of rest ?t = lx_char x"
      using I(2) unfolding x pend by (simp add: lexer_of_def lexer_with_same tz_pending_def same nat_add_distrib)
    ultimately show ?thesis by (auto simp: tz_rel_def)
  next
    case False
    then have used: "Suc ?pos = length ?b" using I(2,3) by linarith
    have "tz_NextChar ops s = tz_Refresh ops ?u"
      using False by (simp add: tz_NextChar_def count_char_def)
    moreover have "\<exists>t. tz_Refresh ops ?u = Some t \<and>
        tz_rel t (lexer_with ?u (drop (nat (tz_record_start s)) ?b) (rest (tz_input s)))"
    proof -
      have "0 \<le> tz_record_start s \<and> tz_record_start s < int (length ?b)" if "tz_record_target s \<noteq> None"
        using I(2,3) I(6) [OF that] by linarith
      then show ?thesis
        using Refresh_ok [of ?u] I(1) err unfolding same by blast
    qed
    ultimately show ?thesis
      unfolding x pend by (simp add: used)
  qed
qed

text \<open>Simulation: \<open>reaches\<close> is for operations with no result, \<open>outcome\<close> for those with one.\<close>

definition reaches :: "'s tokenizer option \<Rightarrow> lexer \<Rightarrow> bool" where
  "reaches m y \<longleftrightarrow> (\<exists>t. m = Some t \<and> tz_rel t y)"

definition outcome :: "('b \<times> 's tokenizer) option \<Rightarrow> 'b \<times> lexer \<Rightarrow> bool" where
  "outcome m r \<longleftrightarrow> (\<exists>t. m = Some (fst r, t) \<and> tz_rel t (snd r))"

lemma reaches_Some [simp]: "reaches (Some s) y \<longleftrightarrow> tz_rel s y"
  by (simp add: reaches_def)

lemma outcome_Some [simp]: "outcome (Some (b, s)) r \<longleftrightarrow> b = fst r \<and> tz_rel s (snd r)"
  by (auto simp: outcome_def)

lemma reaches_bind: "reaches m y \<Longrightarrow> (\<And>t. tz_rel t y \<Longrightarrow> reaches (k t) z) \<Longrightarrow> reaches (m \<bind> k) z"
  by (auto simp: reaches_def)

lemma reaches_bind_outcome: "reaches m y \<Longrightarrow> (\<And>t. tz_rel t y \<Longrightarrow> outcome (k t) r) \<Longrightarrow> outcome (m \<bind> k) r"
  by (auto simp: reaches_def)

lemma outcome_bind: "outcome m q \<Longrightarrow> (\<And>t. tz_rel t (snd q) \<Longrightarrow> outcome (k (fst q) t) r) \<Longrightarrow> outcome (m \<bind> (\<lambda>(b, t). k b t)) r"
  by (auto simp: outcome_def)

lemma outcome_bind_reaches: "outcome m q \<Longrightarrow> (\<And>t. tz_rel t (snd q) \<Longrightarrow> reaches (k (fst q) t) y) \<Longrightarrow> reaches (m \<bind> (\<lambda>(b, t). k b t)) y"
  by (auto simp: outcome_def)

lemma lexer_with_fields:
  "tz_line (lexer_with s p l) = tz_line s" "tz_column (lexer_with s p l) = tz_column s"
  "tz_record_target (lexer_with s p l) = tz_record_target s"
  "tz_allow_f_after_float (lexer_with s p l) = tz_allow_f_after_float s" "tz_comment_style (lexer_with s p l) = tz_comment_style s"
  "tz_require_space_after_number (lexer_with s p l) = tz_require_space_after_number s"
  "tz_allow_multiline_strings (lexer_with s p l) = tz_allow_multiline_strings s"
  "tz_previous (lexer_with s p l) = tz_previous s" "tz_errors (lexer_with s p l) = tz_errors s"
  "tok_type (tz_current (lexer_with s p l)) = tok_type (tz_current s)"
  "tok_line (tz_current (lexer_with s p l)) = tok_line (tz_current s)"
  "tok_column (tz_current (lexer_with s p l)) = tok_column (tz_current s)"
  by (simp_all add: lexer_with_def append_to_target_def split: target_splits)

lemma tz_rel_same:
  assumes "tz_rel s x"
  shows "tz_line s = tz_line x" "tz_column s = tz_column x" "tz_record_target s = tz_record_target x"
    "tz_allow_f_after_float s = tz_allow_f_after_float x" "tz_comment_style s = tz_comment_style x"
    "tz_require_space_after_number s = tz_require_space_after_number x"
    "tz_allow_multiline_strings s = tz_allow_multiline_strings x" "tz_previous s = tz_previous x" "tz_errors s = tz_errors x"
    "tok_type (tz_current s) = tok_type (tz_current x)" "tok_line (tz_current s) = tok_line (tz_current x)"
    "tok_column (tz_current s) = tok_column (tz_current x)"
  using assms by (auto simp: tz_rel_def lexer_of_def lexer_with_fields)

lemma tz_rel_update:
  \<comment> \<open>Changes of the state that tokenizer and lexer share.\<close>
  assumes "tz_rel s x" "\<And>p l. lexer_with s' p l = F (lexer_with s p l)" "tz_input s' = tz_input s" "tz_buffer s' = tz_buffer s"
    "tz_buffer_pos s' = tz_buffer_pos s" "tz_read_error s' = tz_read_error s" "tz_current_char s' = tz_current_char s"
    "tz_record_start s' = tz_record_start s" "tz_record_target s' = tz_record_target s"
  shows "tz_rel s' (F x)"
  using assms unfolding tz_rel_def lexer_of_def tz_pending_def tz_inv_def by (simp only:) blast

lemma AddError_at_ok: "tz_rel s x \<Longrightarrow> tz_rel (tz_AddError_at l k m s) (tz_AddError_at l k m x)"
  by (rule tz_rel_update) (auto simp: tz_AddError_at_def lexer_with_def append_to_target_def split: target_splits)

lemma AddError_ok: "tz_rel s x \<Longrightarrow> tz_rel (tz_AddError m s) (tz_AddError m x)"
  using AddError_at_ok [of s x "tz_line s" "tz_column s" m] by (simp add: tz_AddError_def tz_rel_same)

lemma set_type_ok: "tz_rel s x \<Longrightarrow> tz_rel (tz_set_type ty s) (tz_set_type ty x)"
  by (rule tz_rel_update) (auto simp: tz_set_type_def lexer_with_def append_to_target_def split: target_splits)

lemma check_dot_ok: "tz_rel s x \<Longrightarrow> tz_rel (tz_check_dot s) (tz_check_dot x)"
  using tz_rel_same [of s x] AddError_at_ok [of s x] by (simp add: tz_check_dot_def)

lemma check_ascii_ok: "tz_rel s x \<Longrightarrow> tz_rel (tz_check_ascii c s) (tz_check_ascii c x)"
  using AddError_ok [of s x] by (simp add: tz_check_ascii_def)

lemma CheckNumberEnd_ok: "tz_rel s x \<Longrightarrow> tz_rel (tz_CheckNumberEnd c b s) (tz_CheckNumberEnd c b x)"
  using AddError_ok [of s x] tz_rel_same(6) [of s x] by (auto simp: tz_CheckNumberEnd_def)

lemma RecordTo_ok:
  assumes "tz_rel s x" "tz_record_target x = None"
  shows "tz_rel (tz_RecordTo a s) (x\<lparr>tz_record_target := Some a\<rparr>)"
proof -
  have "tz_record_target s = None" using assms tz_rel_same(3) by simp
  then have "lexer_with (tz_RecordTo a s) [] l = (lexer_with s p l)\<lparr>tz_record_target := Some a\<rparr>" for p l
    by (simp add: lexer_with_def tz_RecordTo_def append_to_target_def split: record_target.split)
  moreover have "tz_pending (tz_RecordTo a s) = []"
    by (simp add: tz_pending_def tz_RecordTo_def)
  ultimately show ?thesis
    using assms(1) by (auto simp: tz_rel_def lexer_of_def tz_inv_def tz_RecordTo_def)
qed

lemma StopRecording_ok:
  assumes "tz_rel s x"
  shows "tz_rel (tz_StopRecording s) (x\<lparr>tz_record_target := None\<rparr>)"
proof -
  have none: "lexer_with (s'\<lparr>tz_record_target := None, tz_record_start := - 1\<rparr>) p l = (lexer_with s' [] l)\<lparr>tz_record_target := None\<rparr>"
    for s' :: "'s tokenizer" and p l
    by (simp add: lexer_with_def append_to_target_none)
  define s1 where "s1 = (if tz_buffer_pos s \<noteq> tz_record_start s then append_to_target (tz_pending s) s else s)"
  have s1: "lexer_with s1 [] l = lexer_with s (tz_pending s) l" for l
    by (simp add: s1_def lexer_with_append tz_pending_def)
  have "tz_StopRecording s = s1\<lparr>tz_record_target := None, tz_record_start := - 1\<rparr>"
    by (simp add: tz_StopRecording_def s1_def tz_pending_def)
  moreover have "tz_input s1 = tz_input s" "tz_buffer s1 = tz_buffer s" "tz_buffer_pos s1 = tz_buffer_pos s"
      "tz_read_error s1 = tz_read_error s" "tz_current_char s1 = tz_current_char s"
    by (simp_all add: s1_def append_to_target_def split: target_splits)
  ultimately show ?thesis
    using assms by (auto simp: tz_rel_def lexer_of_def tz_inv_def none s1)
qed

section \<open>Consuming characters\<close>

lemma NextChar_reaches: "tz_rel s x \<Longrightarrow> lx_text x \<noteq> [] \<Longrightarrow> reaches (tz_NextChar ops s) (lx_char x)"
  unfolding reaches_def by (rule NextChar_ok)

lemma TryConsumeOne_ok: "tz_rel s x \<Longrightarrow> \<not> C 0 \<Longrightarrow> outcome (tz_TryConsumeOne ops C s) (lx_try C x)"
  using peek_class [of C x] tz_rel_char [of s x]
  by (auto simp: tz_TryConsumeOne_def lx_try_def intro!: reaches_bind_outcome [OF NextChar_reaches])

lemma TryConsume_ok: "tz_rel s x \<Longrightarrow> c \<noteq> 0 \<Longrightarrow> outcome (tz_TryConsume ops c s) (lx_try (\<lambda>d. d = c) x)"
  using TryConsumeOne_ok [of s x "\<lambda>d. d = c"] by (simp add: tz_TryConsumeOne_def tz_TryConsume_def)

lemma TryConsumeAll_ok: "tz_rel s x \<Longrightarrow> \<forall>C \<in> set Cs. \<not> C 0 \<Longrightarrow> outcome (tz_TryConsumeAll ops Cs s) (lx_try_all Cs x)"
proof (induction Cs arbitrary: s x)
  case (Cons C Cs)
  have "outcome (tz_TryConsumeOne ops C s) (lx_try C x)"
    by (rule TryConsumeOne_ok [OF Cons.prems(1)]) (use Cons.prems(2) in auto)
  moreover have "lx_try_all (C # Cs) x = (let r = lx_try C x in if fst r then lx_try_all Cs (snd r) else (False, snd r))"
    by (simp add: split_def Let_def)
  ultimately show ?case
    unfolding tz_TryConsumeAll.simps by (simp only: Let_def) (rule outcome_bind, use Cons.IH Cons.prems(2) in auto)
qed simp

lemma ConsumeZeroOrMore_ok: "tz_rel s x \<Longrightarrow> \<not> C 0 \<Longrightarrow> reaches (tz_ConsumeZeroOrMore ops C s) (lx_while C x)"
proof (induction "lx_text x" arbitrary: s x)
  case Nil
  then show ?case
    using tz_rel_char [OF Nil.prems(1)] by (subst tz_ConsumeZeroOrMore.simps) (simp add: peek_def lx_while_def)
next
  case (Cons c cs)
  then have left: "lx_text x = c # cs" and char: "tz_current_char s = c"
    using tz_rel_char [OF Cons.prems(1)] by (simp_all add: peek_def flip: Cons.hyps(2))
  show ?case
  proof (cases "C c")
    case True
    have "lx_while C (lx_char x) = lx_while C x"
      using True by (simp add: lx_while_def left lx_char_def peek_def lx_chars_chars)
    moreover have "reaches (tz_ConsumeZeroOrMore ops C t) (lx_while C (lx_char x))" if "tz_rel t (lx_char x)" for t
      using Cons.hyps(1) [OF _ that] Cons.prems(2) left by simp
    ultimately show ?thesis
      using True char Cons.prems(1) left
      by (subst tz_ConsumeZeroOrMore.simps) (auto intro!: reaches_bind [OF NextChar_reaches])
  next
    case False
    then show ?thesis
      using char Cons.prems(1) left by (subst tz_ConsumeZeroOrMore.simps) (simp add: lx_while_def)
  qed
qed

lemma lx_while_char: "C (peek x) \<Longrightarrow> \<not> C 0 \<Longrightarrow> lx_while C (lx_char x) = lx_while C x"
  by (cases "lx_text x") (auto simp: lx_while_def lx_char_def peek_def lx_chars_chars)

lemma ConsumeOneOrMore_ok: "tz_rel s x \<Longrightarrow> \<not> C 0 \<Longrightarrow> reaches (tz_ConsumeOneOrMore ops C e s) (lx_one_or_more C e x)"
  using ConsumeZeroOrMore_ok [of _ "lx_char x" C] peek_class [of C x] tz_rel_char [of s x] AddError_ok [of s x] lx_while_char [of C x]
  by (auto simp: tz_ConsumeOneOrMore_def lx_one_or_more_def intro!: reaches_bind [OF NextChar_reaches])

end

end
