(* ===== verification/Tokenizer_Refine.thy ===== *)
theory Tokenizer_Refine
  imports Tokenizer_Spec
begin

text \<open>
  Strings, numbers, comments and tokens: the tokenizer's functions return, and do to the lexer what the
  reference functions do.
\<close>

context zero_copy_input begin

lemma try_reaches:
  assumes "tz_rel s x" "\<not> C 0" "\<And>t. C (peek x) \<Longrightarrow> tz_rel t (lx_char x) \<Longrightarrow> reaches (k True t) y"
    "\<And>t. \<not> C (peek x) \<Longrightarrow> tz_rel t x \<Longrightarrow> reaches (k False t) y"
  shows "reaches (tz_TryConsumeOne ops C s \<bind> (\<lambda>(b, t). k b t)) y"
  by (rule outcome_bind_reaches [OF TryConsumeOne_ok [of s x C, OF assms(1,2)]])
    (cases "C (peek x)"; use assms(3,4) in \<open>simp add: lx_try_def\<close>)

lemma try_outcome:
  assumes "tz_rel s x" "\<not> C 0" "\<And>t. C (peek x) \<Longrightarrow> tz_rel t (lx_char x) \<Longrightarrow> outcome (k True t) y"
    "\<And>t. \<not> C (peek x) \<Longrightarrow> tz_rel t x \<Longrightarrow> outcome (k False t) y"
  shows "outcome (tz_TryConsumeOne ops C s \<bind> (\<lambda>(b, t). k b t)) y"
  by (rule outcome_bind [OF TryConsumeOne_ok [of s x C, OF assms(1,2)]])
    (cases "C (peek x)"; use assms(3,4) in \<open>simp add: lx_try_def\<close>)

lemma char_reaches:
  assumes "tz_rel s x" "c \<noteq> 0" "\<And>t. peek x = c \<Longrightarrow> tz_rel t (lx_char x) \<Longrightarrow> reaches (k True t) y"
    "\<And>t. peek x \<noteq> c \<Longrightarrow> tz_rel t x \<Longrightarrow> reaches (k False t) y"
  shows "reaches (tz_TryConsume ops c s \<bind> (\<lambda>(b, t). k b t)) y"
  by (rule outcome_bind_reaches [OF TryConsume_ok [of s x c, OF assms(1,2)]])
    (cases "peek x = c"; use assms(3,4) in \<open>simp add: lx_try_def\<close>)

lemma char_outcome:
  assumes "tz_rel s x" "c \<noteq> 0" "\<And>t. peek x = c \<Longrightarrow> tz_rel t (lx_char x) \<Longrightarrow> outcome (k True t) y"
    "\<And>t. peek x \<noteq> c \<Longrightarrow> tz_rel t x \<Longrightarrow> outcome (k False t) y"
  shows "outcome (tz_TryConsume ops c s \<bind> (\<lambda>(b, t). k b t)) y"
  by (rule outcome_bind [OF TryConsume_ok [of s x c, OF assms(1,2)]])
    (cases "peek x = c"; use assms(3,4) in \<open>simp add: lx_try_def\<close>)

lemma LookingAt_ok: "tz_rel s x \<Longrightarrow> tz_LookingAt C s = C (peek x)"
  by (simp add: tz_LookingAt_def tz_rel_char)

lemma hex_check:
  "tz_rel s x \<Longrightarrow> \<forall>C \<in> set Cs. \<not> C 0 \<Longrightarrow>
    reaches (do { (ok, s) \<leftarrow> tz_TryConsumeAll ops Cs s; Some (if \<not> ok then tz_AddError m s else s) })
      (let (ok, x) = lx_try_all Cs x in if \<not> ok then tz_AddError m x else x)"
  by (rule outcome_bind_reaches [OF TryConsumeAll_ok]) (auto simp: split_def AddError_ok)

lemma ConsumeEscape_ok:
  assumes "tz_rel s x"
  shows "reaches (tz_ConsumeEscape ops s) (lx_escape x)"
  unfolding tz_ConsumeEscape_def
  apply (rule try_reaches [OF assms], simp, simp add: lx_escape_def, simp only: if_False)
  apply (rule try_reaches, assumption, simp, simp add: lx_escape_def, simp only: if_False)
  apply (rule char_reaches, assumption, simp, simp only: if_True)
   apply (rule try_reaches, assumption, simp)
    apply (simp add: lx_escape_def lx_try_def)
   apply (simp add: lx_escape_def lx_try_def AddError_ok)
  apply (simp only: if_False)
  apply (rule char_reaches, assumption, simp, simp only: if_True)
   apply (drule hex_check [of _ "lx_char x" "[HexDigit, HexDigit, HexDigit, HexDigit]"], simp, simp add: lx_escape_def)
  apply (simp only: if_False)
  apply (rule char_reaches, assumption, simp, simp only: if_True)
   apply (drule hex_check [of _ "lx_char x" "[\<lambda>c. c = 0x30, \<lambda>c. c = 0x30, \<lambda>c. c = 0x30 \<or> c = 0x31,
                             HexDigit, HexDigit, HexDigit, HexDigit, HexDigit]"], simp, simp add: lx_escape_def)
  apply (simp add: lx_escape_def AddError_ok)
  done

lemma ConsumeString_ok: "tz_rel s x \<Longrightarrow> d \<noteq> 0 \<Longrightarrow> reaches (tz_ConsumeString ops d s) (lx_string d x)"
proof (induction d x arbitrary: s rule: lx_string.induct)
  case (1 d x)
  note c = tz_rel_char [OF "1.prems"(1)] and multi = tz_rel_same(7) [OF "1.prems"(1)]
  have char: "reaches (tz_NextChar ops s) (lx_char x)" if "peek x \<noteq> 0"
    by (rule NextChar_reaches [OF "1.prems"(1) peek_text [OF that]])
  show ?case
    using "1.prems" "1.IH"
    by (subst tz_ConsumeString.simps, subst lx_string.simps)
      (auto simp: c multi AddError_ok intro!: char reaches_bind [OF char] reaches_bind [OF ConsumeEscape_ok])
qed

section \<open>Numbers\<close>

lemma while_outcome:
  "tz_rel s x \<Longrightarrow> \<not> C 0 \<Longrightarrow> (\<And>t. tz_rel t (lx_while C x) \<Longrightarrow> outcome (k t) y) \<Longrightarrow> outcome (tz_ConsumeZeroOrMore ops C s \<bind> k) y"
  by (rule reaches_bind_outcome [OF ConsumeZeroOrMore_ok])

lemma while_reaches:
  "tz_rel s x \<Longrightarrow> \<not> C 0 \<Longrightarrow> (\<And>t. tz_rel t (lx_while C x) \<Longrightarrow> reaches (k t) y) \<Longrightarrow> reaches (tz_ConsumeZeroOrMore ops C s \<bind> k) y"
  by (rule reaches_bind [OF ConsumeZeroOrMore_ok])

lemma suffix_f_ok:
  assumes "tz_rel s x"
  shows "outcome (if tz_allow_f_after_float s
      then do { (f, s) \<leftarrow> tz_TryConsumeOne ops (\<lambda>c. c = 0x66 \<or> c = 0x46) s; Some (b \<or> f, s) } else Some (b, s))
    (if tz_allow_f_after_float x then let (f, x) = lx_try (\<lambda>c. c = 0x66 \<or> c = 0x46) x in (b \<or> f, x) else (b, x))"
proof -
  have "outcome (do { (f, s) \<leftarrow> tz_TryConsumeOne ops (\<lambda>c. c = 0x66 \<or> c = 0x46) s; Some (b \<or> f, s) })
      (let (f, x) = lx_try (\<lambda>c. c = 0x66 \<or> c = 0x46) x in (b \<or> f, x))"
    by (rule try_outcome [OF assms]) (auto simp: lx_try_def)
  then show ?thesis
    using tz_rel_same(4) [OF assms] assms by simp
qed

lemma exponent_digits_ok:
  assumes "tz_rel s x"
  shows "outcome (do { (sign, s) \<leftarrow> tz_TryConsumeOne ops (\<lambda>c. c = 0x2D \<or> c = 0x2B) s; s \<leftarrow> tz_ConsumeOneOrMore ops Digit m s; Some (True, s) })
    (True, lx_one_or_more Digit m (snd (lx_try (\<lambda>c. c = 0x2D \<or> c = 0x2B) x)))"
proof (rule outcome_bind [OF TryConsumeOne_ok [OF assms]])
  show "outcome (do { s \<leftarrow> tz_ConsumeOneOrMore ops Digit m t; Some (True, s) })
      (True, lx_one_or_more Digit m (snd (lx_try (\<lambda>c. c = 0x2D \<or> c = 0x2B) x)))"
    if "tz_rel t (snd (lx_try (\<lambda>c. c = 0x2D \<or> c = 0x2B) x))" for t
    by (rule reaches_bind_outcome [OF ConsumeOneOrMore_ok [OF that]]) simp_all
qed simp

lemma ConsumeExponent_ok:
  assumes "tz_rel s x"
  shows "outcome (tz_ConsumeExponent ops b s) (lx_exponent b x)"
proof -
  define E where "E = (\<lambda>c :: 8 word. c = 0x65 \<or> c = 0x45)"
  define m where "m = CHR 0x22 # ''e'' @ CHR 0x22 # '' must be followed by exponent.''"
  define y where "y = (if fst (lx_try E x) then (True, lx_one_or_more Digit m
      (snd (lx_try (\<lambda>c. c = 0x2D \<or> c = 0x2B) (snd (lx_try E x))))) else (b, snd (lx_try E x)))"
  have lx: "lx_exponent b x = (if tz_allow_f_after_float (snd y)
      then let (f, x) = lx_try (\<lambda>c. c = 0x66 \<or> c = 0x46) (snd y) in (fst y \<or> f, x) else (fst y, snd y))"
    unfolding lx_exponent_def y_def m_def E_def by (simp add: split_def Let_def)
  have "\<not> E 0" by (simp add: E_def)
  note e = TryConsumeOne_ok [of s x E, OF assms this]
  show ?thesis
    unfolding tz_ConsumeExponent_def lx E_def [symmetric] m_def [symmetric]
  proof (rule outcome_bind [OF e])
    fix t assume t: "tz_rel t (snd (lx_try E x))"
    have "outcome (if fst (lx_try E x) then do { (sign, s) \<leftarrow> tz_TryConsumeOne ops (\<lambda>c. c = 0x2D \<or> c = 0x2B) t;
        s \<leftarrow> tz_ConsumeOneOrMore ops Digit m s; Some (True, s) } else Some (b, t)) y"
      using exponent_digits_ok [OF t, of m] t by (simp add: y_def)
    then show "outcome (do { (is_float, s) \<leftarrow>
        (if fst (lx_try E x) then do { (sign, s) \<leftarrow> tz_TryConsumeOne ops (\<lambda>c. c = 0x2D \<or> c = 0x2B) t;
           s \<leftarrow> tz_ConsumeOneOrMore ops Digit m s; Some (True, s) } else Some (b, t));
        if tz_allow_f_after_float s
        then do { (f, s) \<leftarrow> tz_TryConsumeOne ops (\<lambda>c. c = 0x66 \<or> c = 0x46) s; Some (is_float \<or> f, s) } else Some (is_float, s) })
      (if tz_allow_f_after_float (snd y)
       then let (f, x) = lx_try (\<lambda>c. c = 0x66 \<or> c = 0x46) (snd y) in (fst y \<or> f, x) else (fst y, snd y))"
      by (rule outcome_bind) (rule suffix_f_ok)
  qed
qed

lemma ConsumeDecimal_ok: "tz_rel s x \<Longrightarrow> outcome (tz_ConsumeDecimal ops dot s) (lx_decimal dot x)"
  unfolding tz_ConsumeDecimal_def lx_decimal_def Let_def
  apply (rule while_outcome, assumption, simp)
  apply (cases dot; simp only: if_True if_False)
   apply (erule ConsumeExponent_ok)
  apply (rule char_outcome, assumption, simp)
   apply (simp only: if_True simp_thms)
   apply (rule while_outcome, assumption, simp)
   apply (erule ConsumeExponent_ok)
  apply (simp add: ConsumeExponent_ok)
  done

lemma octal_ok:
  assumes "tz_rel s x"
  shows "outcome (do { s \<leftarrow> tz_ConsumeZeroOrMore ops OctalDigit s;
       if tz_LookingAt Digit s then do { s \<leftarrow> tz_ConsumeZeroOrMore ops Digit (tz_AddError m s); Some (False, s) } else Some (False, s) })
    (let x = lx_while OctalDigit x in (False, if Digit (peek x) then lx_while Digit (tz_AddError m x) else x))"
proof (rule while_outcome [OF assms])
  fix t assume t: "tz_rel t (lx_while OctalDigit x)"
  have "tz_LookingAt Digit t \<longleftrightarrow> Digit (peek (lx_while OctalDigit x))"
    using tz_rel_char [OF t] by (simp add: tz_LookingAt_def)
  moreover have "outcome (do { s \<leftarrow> tz_ConsumeZeroOrMore ops Digit (tz_AddError m t); Some (False, s) })
      (False, lx_while Digit (tz_AddError m (lx_while OctalDigit x)))"
    by (rule while_outcome [OF AddError_ok [OF t]]) simp_all
  ultimately show "outcome (if tz_LookingAt Digit t then do { s \<leftarrow> tz_ConsumeZeroOrMore ops Digit (tz_AddError m t); Some (False, s) }
       else Some (False, t))
      (let x = lx_while OctalDigit x in (False, if Digit (peek x) then lx_while Digit (tz_AddError m x) else x))"
    using t by (simp add: Let_def)
qed simp

lemma hex_ok:
  assumes "tz_rel s x"
  shows "outcome (do { s \<leftarrow> tz_ConsumeOneOrMore ops HexDigit m s; Some (False, s) }) (False, lx_one_or_more HexDigit m x)"
  by (rule reaches_bind_outcome [OF ConsumeOneOrMore_ok [OF assms]]) simp_all

lemma ConsumeNumber_ok:
  assumes "tz_rel s x"
  shows "outcome (tz_ConsumeNumber ops zero dot s) (lx_number zero dot x)"
proof -
  define X where "X = (\<lambda>c :: 8 word. c = 0x78 \<or> c = 0x58)"
  define m1 where "m1 = CHR 0x22 # ''0x'' @ CHR 0x22 # '' must be followed by hex digits.''"
  define m2 where "m2 = ''Numbers starting with leading zero must be in octal.''"
  define y where "y = (if zero \<and> X (peek x) then (False, lx_one_or_more HexDigit m1 (lx_char x))
     else if zero \<and> Digit (peek x)
       then let x = lx_while OctalDigit x in (False, if Digit (peek x) then lx_while Digit (tz_AddError m2 x) else x)
     else lx_decimal dot x)"
  have lx: "lx_number zero dot x = (if fst y then TYPE_FLOAT else TYPE_INTEGER, tz_CheckNumberEnd (peek (snd y)) (fst y) (snd y))"
    unfolding lx_number_def y_def X_def m1_def m2_def by (simp add: split_def Let_def)
  have x0: "\<not> X 0" by (simp add: X_def)
  have "outcome (do {
       (hex, s) \<leftarrow> (if zero then tz_TryConsumeOne ops X s else Some (False, s));
       if hex then do { s \<leftarrow> tz_ConsumeOneOrMore ops HexDigit m1 s; Some (False, s) }
       else if zero \<and> tz_LookingAt Digit s then do {
         s \<leftarrow> tz_ConsumeZeroOrMore ops OctalDigit s;
         if tz_LookingAt Digit s then do { s \<leftarrow> tz_ConsumeZeroOrMore ops Digit (tz_AddError m2 s); Some (False, s) }
         else Some (False, s)
       }
       else tz_ConsumeDecimal ops dot s }) y"
  proof (cases zero)
    case True
    show ?thesis
      using True
      apply (simp only: y_def if_True simp_thms)
      by (rule try_outcome [of s x X, OF assms x0])
        (simp_all add: hex_ok octal_ok ConsumeDecimal_ok LookingAt_ok del: Let_def)
  next
    case False
    then show ?thesis using ConsumeDecimal_ok [OF assms] by (simp add: y_def)
  qed
  from outcome_bind [OF this, of "\<lambda>is_float s. Some (if is_float then TYPE_FLOAT else TYPE_INTEGER,
      tz_CheckNumberEnd (tz_current_char s) is_float s)" "lx_number zero dot x"]
  show ?thesis
    unfolding tz_ConsumeNumber_def X_def [symmetric] m1_def [symmetric] m2_def [symmetric]
    by (simp add: lx split_def CheckNumberEnd_ok tz_rel_char Option.bind_assoc)
qed

section \<open>Comments\<close>

lemma record_ok:
  assumes "tz_rel s x" "tz_record_target x = None"
  shows "tz_rel (if content then tz_RecordTo Content s else s) (lx_record content (Some Content) x)"
  using RecordTo_ok [OF assms, of Content] assms(1) by (simp add: lx_record_def)

lemma stop_ok: "tz_rel s x \<Longrightarrow> tz_rel (if content then tz_StopRecording s else s) (lx_record content None x)"
  using StopRecording_ok [of s x] by (simp add: lx_record_def)

lemma ConsumeLineComment_ok:
  assumes "tz_rel s x" "tz_record_target x = None"
  shows "reaches (tz_ConsumeLineComment ops content s) (lx_line_comment content x)"
  unfolding tz_ConsumeLineComment_def lx_line_comment_def Let_def
proof (rule while_reaches [OF record_ok [OF assms]])
  fix t assume t: "tz_rel t (lx_while (\<lambda>c. c \<noteq> 0 \<and> c \<noteq> 0x0A) (lx_record content (Some Content) x))"
  show "reaches (do { (_, s) \<leftarrow> tz_TryConsume ops 0x0A t; Some (if content then tz_StopRecording s else s) })
      (lx_record content None (snd (lx_try (\<lambda>c. c = 0x0A)
        (lx_while (\<lambda>c. c \<noteq> 0 \<and> c \<noteq> 0x0A) (lx_record content (Some Content) x)))))"
    by (rule outcome_bind_reaches [OF TryConsume_ok [OF t]]) (simp_all add: stop_ok)
qed simp

lemma star_slash_ok:
  assumes "tz_rel s x"
  shows "outcome (do { (star, s) \<leftarrow> tz_TryConsume ops 0x2A s; if star then tz_TryConsume ops 0x2F s else Some (False, s) })
    (lx_star_slash x)"
  using TryConsume_ok [of _ "lx_char x" "0x2F"]
  by (intro char_outcome [OF assms]) (auto simp: lx_star_slash_def lx_try_def split_def Let_def)

lemma comment_end_ok: "tz_rel s x \<Longrightarrow> tz_record_target x = None \<Longrightarrow> tz_rel (tz_comment_end s) (tz_comment_end x)"
proof -
  assume rel: "tz_rel s x" and none: "tz_record_target x = None"
  have "tz_record_target s = None" using tz_rel_same(3) [OF rel] none by simp
  then have "lexer_with (tz_comment_end s) p l = tz_comment_end (lexer_with s p l)" for p l
    by (simp add: lexer_with_def tz_comment_end_def append_to_target_none)
  then show ?thesis by (rule tz_rel_update [OF rel]) (simp_all add: tz_comment_end_def)
qed

lemma star_slash_reaches:
  assumes "tz_rel s x" "\<And>t. tz_rel t (snd (lx_star_slash x)) \<Longrightarrow> reaches (k (fst (lx_star_slash x)) t) y"
  shows "reaches (do { (star, s) \<leftarrow> tz_TryConsume ops 0x2A s;
      (slash, s) \<leftarrow> (if star then tz_TryConsume ops 0x2F s else Some (False, s)); k slash s }) y"
proof -
  have "reaches (do { (star, s) \<leftarrow> tz_TryConsume ops 0x2A s; if star then tz_TryConsume ops 0x2F s else Some (False, s) }
      \<bind> (\<lambda>(b, t). k b t)) y"
    by (rule outcome_bind_reaches [OF star_slash_ok [OF assms(1)]]) (rule assms(2))
  then show ?thesis by (simp add: Option.bind_assoc split_def)
qed

lemma block_loop_ok:
  "tz_rel s x \<Longrightarrow> tz_record_target x = (if content then Some Content else None) \<Longrightarrow>
    reaches (tz_block_loop ops content l k s) (lx_block_loop content l k x)"
proof (induction content l k x arbitrary: s rule: lx_block_loop.induct)
  case (1 content l k x)
  define N where "N = (\<lambda>c :: 8 word. c \<noteq> 0 \<and> c \<noteq> 0x2A \<and> c \<noteq> 0x2F \<and> c \<noteq> 0x0A)"
  define w where "w = lx_while N x"
  define u where "u = lx_while WhitespaceNoNewline (lx_record content None (lx_char w))"
  have target: "tz_record_target w = (if content then Some Content else None)"
    using "1.prems"(2) by (simp add: w_def)
  have u_target: "tz_record_target u = None"
    using target by (simp add: u_def lx_record_def)
  obtain ok1 y1 where y1: "lx_star_slash u = (ok1, y1)" by fastforce
  obtain ok2 y2 where y2: "lx_star_slash w = (ok2, y2)" by fastforce
  obtain sl z where z: "lx_try (\<lambda>c. c = 0x2F) y2 = (sl, z)" by fastforce
  have targets: "tz_record_target y1 = None" "tz_record_target y2 = (if content then Some Content else None)"
      "tz_record_target z = (if content then Some Content else None)"
    using lx_targets(7) [of u] lx_targets(7) [of w] lx_targets(4) [of "\<lambda>c. c = 0x2F" y2] u_target target y1 y2 z
    by simp_all
  note IH = "1.IH" [OF w_def [unfolded N_def]]
  have IH1: "reaches (tz_block_loop ops content l k t) (lx_block_loop content l k (lx_record content (Some Content) y1))"
    if "peek w = 0x0A" "\<not> ok1" "tz_rel t (lx_record content (Some Content) y1)" for t
    using IH(1) [OF that(1) y1 [symmetric, unfolded u_def] refl that(2,3)] targets(1) by (simp add: lx_record_def)
  have IH2: "reaches (tz_block_loop ops content l k t) (lx_block_loop content l k (tz_AddError m z))"
    if "peek w \<noteq> 0x0A" "\<not> ok2" "sl \<and> peek z = 0x2A" "tz_rel t (tz_AddError m z)"
      "m = CHR 0x22 # ''/*'' @ CHR 0x22 # '' inside block comment.  Block comments cannot be nested.''" for t m
    using IH(2) [OF that(1) y2 [symmetric] refl that(2) z [symmetric] refl that(3)] that(4) targets(3) unfolding that(5) by simp
  have IH3: "reaches (tz_block_loop ops content l k t) (lx_block_loop content l k z)"
    if "peek w \<noteq> 0x0A" "\<not> ok2" "\<not> (sl \<and> peek z = 0x2A)" "peek z \<noteq> 0" "tz_rel t z" for t
    using IH(3) [OF that(1) y2 [symmetric] refl that(2) z [symmetric] refl that(3,4,5)] targets(3) by simp
  define nested where "nested = CHR 0x22 # ''/*'' @ CHR 0x22 # '' inside block comment.  Block comments cannot be nested.''"
  define R where "R = lx_block_loop content l k x"
  have R: "R = (if peek w = 0x0A then (if ok1 then y1 else lx_block_loop content l k (lx_record content (Some Content) y1))
     else if ok2 then (if content then tz_comment_end (lx_record content None y2) else y2)
     else if sl \<and> peek z = 0x2A then lx_block_loop content l k (tz_AddError nested z)
     else if peek z = 0 then lx_record content None (tz_AddError_at l k ''  Comment started here.''
            (tz_AddError ''End-of-file inside block comment.'' z))
     else lx_block_loop content l k z)"
    unfolding R_def nested_def
    by (subst lx_block_loop.simps) (simp add: Let_def y2 z y1 [unfolded u_def] flip: N_def w_def)
  show ?case
    unfolding R_def [symmetric]
    apply (subst tz_block_loop.simps)
    unfolding N_def [symmetric] nested_def [symmetric] Let_def
    apply (rule while_reaches [OF "1.prems"(1)], simp add: N_def)
    unfolding w_def [symmetric]
    apply (rule char_reaches, assumption, simp)
     apply (simp only: if_True)
     apply (rule while_reaches [OF stop_ok], assumption, simp)
     apply (fold u_def)
     apply (erule star_slash_reaches)
     apply (cases ok1; simp add: y1 R IH1 record_ok targets(1))
    apply (simp only: if_False)
    apply (erule star_slash_reaches)
    apply (simp only: y2 fst_conv snd_conv)
    apply (cases ok2; simp only: if_True if_False)
    subgoal for t u v
      using StopRecording_ok [of v y2] comment_end_ok [of "tz_StopRecording v" "y2\<lparr>tz_record_target := None\<rparr>"]
      by (simp add: R lx_record_def)
    subgoal for t u v
      apply (erule outcome_bind_reaches [OF TryConsume_ok], simp)
      apply (simp only: z fst_conv snd_conv)
      subgoal for r
        using IH2 [OF _ _ _ AddError_ok [of r z nested] nested_def] IH3 [of r] tz_rel_char [of r z]
          stop_ok [OF AddError_at_ok [OF AddError_ok [of r z]], of content]
        by (auto simp: R)
      done
    done
qed

lemma ConsumeBlockComment_ok:
  assumes "tz_rel s x" "tz_record_target x = None"
  shows "reaches (tz_ConsumeBlockComment ops content s) (lx_block_comment content x)"
  unfolding tz_ConsumeBlockComment_def lx_block_comment_def tz_rel_same(1,2) [OF assms(1)]
  by (rule block_loop_ok [OF record_ok [OF assms]]) (use assms(2) in \<open>simp add: lx_record_def\<close>)

lemma slash_token_ok:
  assumes "tz_rel s x" "tz_record_target x = None"
  shows "tz_rel (tz_slash_token s) (tz_slash_token x)"
proof -
  have "tz_record_target s = None" using tz_rel_same(3) assms by simp
  then have "lexer_with (tz_slash_token s) p l = tz_slash_token (lexer_with s p l)" for p l
    by (simp add: lexer_with_def tz_slash_token_def append_to_target_none)
  then show ?thesis by (rule tz_rel_update [OF assms(1)]) (simp_all add: tz_slash_token_def)
qed

lemma end_of_input_ok:
  assumes "tz_rel s x" "tz_record_target x = None"
  shows "tz_rel (tz_end_of_input s) (tz_end_of_input x)"
proof -
  have "tz_record_target s = None" using tz_rel_same(3) assms by simp
  then have "lexer_with (tz_end_of_input s) p l = tz_end_of_input (lexer_with s p l)" for p l
    by (simp add: lexer_with_def tz_end_of_input_def append_to_target_none)
  then show ?thesis by (rule tz_rel_update [OF assms(1)]) (simp_all add: tz_end_of_input_def)
qed

lemma previous_ok:
  assumes "tz_rel s x" "tz_record_target x = None"
  shows "tz_rel (s\<lparr>tz_previous := tz_current s\<rparr>) (x\<lparr>tz_previous := tz_current x\<rparr>)"
proof -
  have "tz_record_target s = None" using tz_rel_same(3) assms by simp
  then have "lexer_with (s\<lparr>tz_previous := tz_current s\<rparr>) p l = (\<lambda>x. x\<lparr>tz_previous := tz_current x\<rparr>) (lexer_with s p l)" for p l
    by (simp add: lexer_with_def append_to_target_none)
  from tz_rel_update [OF assms(1) this] show ?thesis by simp
qed

lemma comment_start_hash:
  assumes "tz_rel s x"
  shows "outcome (do { (hash, s) \<leftarrow> (if tz_comment_style s = SH_COMMENT_STYLE then tz_TryConsume ops 0x23 s else Some (False, s));
      Some (if hash then LINE_COMMENT else NO_COMMENT, s) })
    (if tz_comment_style x = SH_COMMENT_STYLE \<and> peek x = 0x23 then (LINE_COMMENT, lx_char x) else (NO_COMMENT, x))"
proof (cases "tz_comment_style x = SH_COMMENT_STYLE")
  case True
  then show ?thesis
    using tz_rel_same(5) [OF assms] by (simp add: char_outcome [OF assms])
next
  case False
  then show ?thesis using tz_rel_same(5) [OF assms] assms by simp
qed

lemma TryConsumeCommentStart_ok:
  assumes "tz_rel s x" "tz_record_target x = None"
  shows "outcome (tz_TryConsumeCommentStart ops s) (lx_comment_start x)"
proof (cases "tz_comment_style x = CPP_COMMENT_STYLE")
  case True
  then have s: "tz_comment_style s = CPP_COMMENT_STYLE" using tz_rel_same(5) [OF assms(1)] by simp
  show ?thesis
    unfolding tz_TryConsumeCommentStart_def
    apply (simp only: s if_True simp_thms)
    apply (rule char_outcome [OF assms(1)], simp)
     apply (simp only: if_True)
     apply (rule char_outcome, assumption, simp)
      apply (simp add: lx_comment_start_def True Let_def)
     apply (simp only: if_False)
     apply (rule char_outcome, assumption, simp)
      apply (simp add: lx_comment_start_def True Let_def)
     apply (simp add: lx_comment_start_def True Let_def slash_token_ok assms(2))
    apply (simp add: lx_comment_start_def True tz_rel_same(5))
    done
next
  case False
  then have "tz_comment_style s \<noteq> CPP_COMMENT_STYLE" using tz_rel_same(5) [OF assms(1)] by simp
  then show ?thesis
    using comment_start_hash [OF assms(1)] False by (simp add: tz_TryConsumeCommentStart_def lx_comment_start_def)
qed

section \<open>Tokens\<close>

lemma Unprintable_or_zero: "Unprintable c \<or> c = 0 \<longleftrightarrow> c < 0x20"
  by (auto simp: Unprintable_def word_less_nat_alt unat_gt_0)

lemma skip_unprintable_ok: "tz_rel s x \<Longrightarrow> reaches (tz_skip_unprintable ops s) (lx_while (\<lambda>c. c < 0x20) x)"
proof (induction "lx_text x" arbitrary: s x)
  case Nil
  then have "peek x = 0" "tz_read_error s" using tz_rel_eof [of s x] by (simp_all add: peek_def)
  then show ?case
    using Nil tz_rel_char [of s x]
    by (subst tz_skip_unprintable.simps) (simp add: tz_TryConsumeOne_def lx_while_def)
next
  case (Cons c cs)
  have left: "lx_text x = c # cs" "peek x = c" "\<not> tz_read_error s" "tz_current_char s = c"
    using Cons tz_rel_eof [of s x] tz_rel_char [of s x] by (auto simp: peek_def simp flip: Cons.hyps(2))
  have next': "reaches (tz_skip_unprintable ops t) (lx_while (\<lambda>c. c < 0x20) (lx_char x))" if "tz_rel t (lx_char x)" for t
    using Cons.hyps(1) [OF _ that] left(1) by simp
  show ?case
  proof (cases "c < 0x20")
    case True
    then have "lx_while (\<lambda>c. c < 0x20) (lx_char x) = lx_while (\<lambda>c. c < 0x20) x"
      using left by (simp add: lx_while_def lx_char_def lx_chars_chars)
    then have "reaches (tz_NextChar ops s \<bind> tz_skip_unprintable ops) (lx_while (\<lambda>c. c < 0x20) x)"
      using next' left(1) by (intro reaches_bind [OF NextChar_reaches [OF Cons.prems]]) simp_all
    then show ?thesis
      using True Unprintable_or_zero [of c] left(3,4)
      by (subst tz_skip_unprintable.simps) (auto simp: tz_TryConsumeOne_def tz_TryConsume_def Option.bind_assoc)
  next
    case False
    then have "\<not> Unprintable c" "c \<noteq> 0" using Unprintable_or_zero [of c] by auto
    then show ?thesis
      using False left Cons.prems
      by (subst tz_skip_unprintable.simps) (simp add: tz_TryConsumeOne_def tz_TryConsume_def lx_while_def)
  qed
qed

lemma StartToken_ok:
  assumes "tz_rel s x" "tz_record_target x = None"
  shows "tz_rel (tz_StartToken s) (lx_start_token x)"
proof -
  let ?start = "\<lambda>s :: 'a tok_state_scheme. s\<lparr>tz_current := (tz_current s)\<lparr>tok_type := TYPE_START, tok_text := [],
      tok_line := tz_line s, tok_column := tz_column s\<rparr>\<rparr>"
  have none: "tz_record_target s = None" using tz_rel_same(3) assms by simp
  have "tz_rel (s\<lparr>tz_current := (tz_current s)\<lparr>tok_type := TYPE_START, tok_text := [], tok_line := tz_line s, tok_column := tz_column s\<rparr>\<rparr>)
      (x\<lparr>tz_current := (tz_current x)\<lparr>tok_type := TYPE_START, tok_text := [], tok_line := tz_line x, tok_column := tz_column x\<rparr>\<rparr>)"
    using tz_rel_update [OF assms(1), of "s\<lparr>tz_current := (tz_current s)\<lparr>tok_type := TYPE_START, tok_text := [],
        tok_line := tz_line s, tok_column := tz_column s\<rparr>\<rparr>"
        "\<lambda>x. x\<lparr>tz_current := (tz_current x)\<lparr>tok_type := TYPE_START, tok_text := [], tok_line := tz_line x, tok_column := tz_column x\<rparr>\<rparr>"]
    by (simp add: lexer_with_def append_to_target_none none)
  from RecordTo_ok [OF this, of Current_text] assms(2) show ?thesis
    by (simp add: tz_StartToken_def lx_start_token_def)
qed

lemma EndToken_ok:
  assumes "tz_rel s x"
  shows "tz_rel (tz_EndToken s) (lx_end_token x)"
proof -
  let ?t = "tz_StopRecording s" and ?y = "x\<lparr>tz_record_target := None\<rparr>"
  have t: "tz_rel ?t ?y" by (rule StopRecording_ok [OF assms])
  have none: "tz_record_target ?t = None" using tz_rel_same(3) [OF t] by simp
  have "tz_rel (?t\<lparr>tz_current := (tz_current ?t)\<lparr>tok_end_column := tz_column ?t\<rparr>\<rparr>)
      (?y\<lparr>tz_current := (tz_current ?y)\<lparr>tok_end_column := tz_column ?y\<rparr>\<rparr>)"
    using tz_rel_update [OF t, of "?t\<lparr>tz_current := (tz_current ?t)\<lparr>tok_end_column := tz_column ?t\<rparr>\<rparr>"
        "\<lambda>y. y\<lparr>tz_current := (tz_current y)\<lparr>tok_end_column := tz_column y\<rparr>\<rparr>"]
    by (simp add: lexer_with_def append_to_target_none none)
  then show ?thesis by (simp add: tz_EndToken_def lx_end_token_def Let_def)
qed

lemma number_token_ok:
  "tz_rel s x \<Longrightarrow> lx_number zero dot x = (ty, y) \<Longrightarrow>
    reaches (do { (ty, s) \<leftarrow> tz_ConsumeNumber ops zero dot s; Some (tz_set_type ty s) }) (tz_set_type ty y)"
  by (rule outcome_bind_reaches [OF ConsumeNumber_ok]) (auto simp: set_type_ok)

lemma string_token_ok:
  assumes "tz_rel s x" "d \<noteq> 0" "y = tz_set_type ty (lx_string d x)"
  shows "reaches (do { s \<leftarrow> tz_ConsumeString ops d s; Some (tz_set_type ty s) }) y"
  by (rule reaches_bind [OF ConsumeString_ok [OF assms(1,2)]]) (simp add: assms(3) set_type_ok)

lemma ReadToken_ok:
  assumes "tz_rel s x" "lx_text x \<noteq> []"
  shows "reaches (tz_ReadToken ops s) (tz_set_type (fst (lx_read_token x)) (snd (lx_read_token x)))"
  unfolding tz_ReadToken_def
  apply (rule try_reaches [OF assms(1)], simp)
   apply (simp only: if_True)
   apply (rule while_reaches, assumption, simp)
   apply (simp add: lx_read_token_def lx_while_char set_type_ok)
  apply (simp only: if_False)
  apply (rule char_reaches, assumption, simp)
   apply (simp only: if_True)
   apply (erule number_token_ok, simp add: lx_read_token_def)
  apply (simp only: if_False)
  apply (rule char_reaches, assumption, simp)
   apply (simp only: if_True)
   apply (rule try_reaches, assumption, simp)
    apply (simp only: if_True)
    apply (rule number_token_ok [OF check_dot_ok], assumption, simp add: lx_read_token_def Let_def)
   apply (simp add: lx_read_token_def Let_def set_type_ok)
  apply (simp only: if_False)
  apply (rule try_reaches, assumption, simp)
   apply (simp only: if_True)
   apply (erule number_token_ok, simp add: lx_read_token_def)
  apply (simp only: if_False)
  apply (rule char_reaches, assumption, simp)
   apply (simp only: if_True)
   apply (rule string_token_ok, assumption, simp, simp add: lx_read_token_def)
  apply (simp only: if_False)
  apply (rule char_reaches, assumption, simp)
   apply (simp only: if_True)
   apply (rule string_token_ok, assumption, simp, simp add: lx_read_token_def)
  apply (simp only: if_False)
  subgoal for t1 t2 t3 t4 t5 t6
    using tz_rel_char [of t6 x]
      reaches_bind [OF NextChar_reaches [OF check_ascii_ok [of t6 x "peek x"]], of "\<lambda>s. Some (tz_set_type TYPE_SYMBOL s)"] assms(2)
    by (simp add: lx_read_token_def set_type_ok tz_check_ascii_def)
  done

lemma token_ok:
  assumes "tz_rel s x" "tz_record_target x = None" "lx_text x \<noteq> []"
  shows "reaches (do { s \<leftarrow> tz_ReadToken ops (tz_StartToken s); Some (tz_EndToken s) }) (lx_token x)"
proof -
  have "lx_text (lx_start_token x) \<noteq> []" using assms(3) by (simp add: lx_start_token_def)
  from ReadToken_ok [OF StartToken_ok [OF assms(1,2)] this] show ?thesis
    unfolding lx_token_def split_def Let_def by (rule reaches_bind) (simp only: reaches_Some EndToken_ok)
qed

section \<open>The token loop\<close>

lemma next_loop_ok: "tz_rel s x \<Longrightarrow> tz_record_target x = None \<Longrightarrow> outcome (tz_next_loop ops s) (lx_next_loop x)"
proof (induction x arbitrary: s rule: lx_next_loop.induct)
  case (1 x)
  define w where "w = lx_while Whitespace x"
  obtain status y where y: "lx_comment_start w = (status, y)" by fastforce
  note y' = y [unfolded w_def, symmetric]
  have w_target: "tz_record_target w = None" using "1.prems"(2) by (simp add: w_def)
  then have y_target: "tz_record_target y = None" by (rule lx_next_targets(3) [OF _ y])
  have eof: "tz_read_error s \<longleftrightarrow> lx_text x = []" by (rule tz_rel_eof [OF "1.prems"(1)])
  show ?case
  proof (cases "lx_text x = []")
    case True
    then show ?thesis
      using eof end_of_input_ok [OF "1.prems"] by (subst tz_next_loop.simps, subst lx_next_loop.simps) simp
  next
    case False
    note IH = "1.IH" [OF False y' refl]
    have lx: "lx_next_loop x = (case status of LINE_COMMENT \<Rightarrow> lx_next_loop (lx_line_comment False y)
        | BLOCK_COMMENT \<Rightarrow> lx_next_loop (lx_block_comment False y) | SLASH_NOT_COMMENT \<Rightarrow> (True, y)
        | NO_COMMENT \<Rightarrow> if lx_text y = [] then (False, tz_end_of_input y)
            else if peek y < 0x20 then lx_next_loop (lx_control y) else (True, lx_token y))"
      using False y by (subst lx_next_loop.simps) (simp add: w_def)
    show ?thesis
      unfolding lx
      apply (subst tz_next_loop.simps)
      apply (simp only: eof False if_False)
      apply (rule while_outcome [OF "1.prems"(1)], simp)
      apply (fold w_def)
      apply (erule outcome_bind [OF TryConsumeCommentStart_ok [OF _ w_target]])
      apply (simp only: y fst_conv snd_conv)
      subgoal premises rels for t u
      proof (cases status)
        case LINE_COMMENT
        with rels show ?thesis
          by (simp only: next_comment_status.case)
             (intro reaches_bind_outcome [OF ConsumeLineComment_ok [OF _ y_target]] IH(1) lx_next_targets(1) y_target)
      next
        case BLOCK_COMMENT
        with rels show ?thesis
          by (simp only: next_comment_status.case)
            (intro reaches_bind_outcome [OF ConsumeBlockComment_ok [OF _ y_target]] IH(2) lx_next_targets(2) y_target)
      next
        case SLASH_NOT_COMMENT
        with rels show ?thesis by simp
      next
        case NO_COMMENT
        have rel: "tz_rel u y" by (rule rels)
        have u: "tz_read_error u \<longleftrightarrow> lx_text y = []" "tz_current_char u = peek y"
          using tz_rel_eof [OF rel] tz_rel_char [OF rel] by simp_all
        consider (eof) "lx_text y = []" | (control) "lx_text y \<noteq> []" "peek y < 0x20" | (token) "lx_text y \<noteq> []" "\<not> peek y < 0x20"
          by blast
        then show ?thesis
        proof cases
          case eof
          then show ?thesis using NO_COMMENT u end_of_input_ok [OF rel y_target] by simp
        next
          case control
          have "reaches (do { s \<leftarrow> tz_NextChar ops (tz_AddError m u); tz_skip_unprintable ops s })
              (lx_while (\<lambda>c. c < 0x20) (lx_char (tz_AddError m y)))" for m
            by (rule reaches_bind [OF NextChar_reaches [OF AddError_ok [OF rel]] skip_unprintable_ok]) (use control(1) in simp_all)
          then have r: "reaches (do { s \<leftarrow> tz_NextChar ops (tz_AddError ''Invalid control characters encountered in text.'' u);
              tz_skip_unprintable ops s }) (lx_control y)"
            unfolding lx_control_def .
          have "outcome (do { s \<leftarrow> tz_NextChar ops (tz_AddError ''Invalid control characters encountered in text.'' u);
              tz_skip_unprintable ops s } \<bind> tz_next_loop ops) (lx_next_loop (lx_control y))"
            by (rule reaches_bind_outcome [OF r IH(3)]) (use control NO_COMMENT y_target lx_next_targets(4) in auto)
          moreover have "tz_LookingAt Unprintable u \<or> tz_current_char u = 0"
            using control(2) Unprintable_or_zero u(2) by (simp add: tz_LookingAt_def)
          ultimately show ?thesis
            using control NO_COMMENT u(1) by (simp add: Option.bind_assoc)
        next
          case token
          have "\<not> (tz_LookingAt Unprintable u \<or> tz_current_char u = 0)"
            using token(2) Unprintable_or_zero u(2) by (simp add: tz_LookingAt_def)
          then show ?thesis
            using token NO_COMMENT u(1) token_ok [OF rel y_target token(1)] by (auto simp: reaches_def outcome_def bind_eq_Some)
        qed
      qed
      done
  qed
qed

lemma Next_ok:
  assumes "tz_rel s x" "tz_record_target x = None"
  shows "outcome (tz_Next ops s) (lx_Next x)"
  unfolding tz_Next_def lx_Next_def by (rule next_loop_ok [OF previous_ok [OF assms]]) (use assms(2) in simp)

end

end
