(* ===== verification/Tokenizer_Run.thy ===== *)
theory Tokenizer_Run
  imports Tokenizer_Refine
begin

text \<open>
  A whole run of the tokenizer: it is made, its options are set, \<open>Next\<close> is called until the end of the
  input or some given number of times, and it is destroyed.
\<close>

definition tz_configure :: "bool \<times> comment_style \<times> bool \<times> bool \<Rightarrow> 'a tok_state_scheme \<Rightarrow> 'a tok_state_scheme" where
  \<comment> \<open>The four setters, as the callers use them behind the constructor.\<close>
  "tz_configure options s =
     (case options of (allow_f, style, space, multiline) \<Rightarrow>
        set_allow_multiline_strings multiline (set_require_space_after_number space
          (set_comment_style style (set_allow_f_after_float allow_f s))))"

fun tz_tokens :: "'s zc_input_ops \<Rightarrow> nat \<Rightarrow> 's tokenizer \<Rightarrow> (token list \<times> 's tokenizer) option" where
  \<comment> \<open>At most \<open>n\<close> calls of \<open>Next\<close>, up to the first that returns false, and \<open>current()\<close> behind each.\<close>
  "tz_tokens ops 0 s = Some ([], s)"
| "tz_tokens ops (Suc n) s = do {
     (more, s) \<leftarrow> tz_Next ops s;
     if more then do { (ts, t) \<leftarrow> tz_tokens ops n s; Some (tz_current s # ts, t) }
     else Some ([tz_current s], s)
   }"

fun lx_tokens :: "nat \<Rightarrow> lexer \<Rightarrow> token list \<times> lexer" where
  "lx_tokens 0 x = ([], x)"
| "lx_tokens (Suc n) x =
     (let (more, y) = lx_Next x in
      if more then let (ts, z) = lx_tokens n y in (tz_current y # ts, z) else ([tz_current y], y))"

definition lexer_start :: "bytes \<Rightarrow> lexer" where
  "lexer_start bs =
     \<lparr>tz_current = \<lparr>tok_type = TYPE_START, tok_text = [], tok_line = 0, tok_column = 0, tok_end_column = 0\<rparr>,
      tz_previous = undefined, tz_errors = [], tz_line = 0, tz_column = 0, tz_record_target = None, tz_content = [],
      tz_allow_f_after_float = False, tz_comment_style = CPP_COMMENT_STYLE, tz_require_space_after_number = True,
      tz_allow_multiline_strings = False, lx_text = bs\<rparr>"

lemma configure_target [simp]: "tz_record_target (tz_configure options s) = tz_record_target s"
  by (simp add: tz_configure_def set_allow_f_after_float_def set_comment_style_def set_require_space_after_number_def
      set_allow_multiline_strings_def split: prod.split)

lemma lexer_start_simps [simp]: "tz_record_target (lexer_start bs) = None" "lx_text (lexer_start bs) = bs"
    "tz_errors (lexer_start bs) = []" "tz_line (lexer_start bs) = 0" "tz_column (lexer_start bs) = 0"
  by (simp_all add: lexer_start_def)

context zero_copy_input begin

lemma Tokenizer_ok:
  assumes "inv i"
  shows "\<exists>s. Tokenizer ops i = Some s \<and> tz_rel s (lexer_start (rest i))"
proof -
  obtain s where s: "Tokenizer ops i = tz_Refresh ops s" "tz_input s = i" "\<not> tz_read_error s" "tz_record_target s = None"
      "\<And>p l. lexer_with s p l = lexer_start l"
    by (rule that, rule Tokenizer_def) (simp_all add: lexer_with_def lexer_start_def append_to_target_def)
  show ?thesis using Refresh_ok [of s] assms by (simp add: s)
qed

lemma destroy_ok:
  assumes "tz_rel s x"
  shows "\<exists>i. Tokenizer_destroy ops s = Some i \<and> inv i \<and> rest i = lx_text x"
proof (cases "tz_read_error s")
  case True
  then show ?thesis
    using assms tz_rel_text [OF assms] by (auto simp: tz_rel_def tz_inv_def Tokenizer_destroy_def)
next
  case False
  let ?k = "int (length (tz_buffer s)) - tz_buffer_pos s"
  obtain p where s: "inv (tz_input s)" "0 \<le> tz_buffer_pos s" "nat (tz_buffer_pos s) < length (tz_buffer s)"
      "last_chunk (tz_input s) = p @ tz_buffer s"
    using assms False by (auto simp: tz_rel_def tz_inv_def)
  have k: "0 < ?k" "nat ?k \<le> length (last_chunk (tz_input s))" using s by auto
  have "suffix_of (nat ?k) (p @ tz_buffer s) = drop (nat (tz_buffer_pos s)) (tz_buffer s)"
    using s(2,3) by (simp add: suffix_of_def nat_diff_distrib)
  then show ?thesis
    using backup_ok_int [OF s(1) k] k s(4) tz_rel_text [OF assms] by (auto simp: Tokenizer_destroy_def)
qed

lemma configure_ok:
  assumes "tz_rel s x" "tz_record_target x = None"
  shows "tz_rel (tz_configure options s) (tz_configure options x)"
proof -
  have "tz_record_target s = None" using tz_rel_same(3) assms by simp
  then show ?thesis
    by (intro tz_rel_update [OF assms(1)])
      (simp_all add: tz_configure_def set_allow_f_after_float_def set_comment_style_def set_require_space_after_number_def
        set_allow_multiline_strings_def lexer_with_def append_to_target_none split: prod.split)
qed

lemma tz_rel_current:
  "tz_rel s x \<Longrightarrow> tz_record_target x = None \<Longrightarrow> tz_current s = tz_current x"
  by (auto simp: tz_rel_def lexer_of_def lexer_with_def append_to_target_def split: target_splits)

lemma tokens_ok:
  "tz_rel s x \<Longrightarrow> tz_record_target x = None \<Longrightarrow> outcome (tz_tokens ops n s) (lx_tokens n x)"
proof (induction n arbitrary: s x)
  case (Suc n)
  obtain more y where y: "lx_Next x = (more, y)" by fastforce
  then obtain t where t: "tz_Next ops s = Some (more, t)" "tz_rel t y"
    using Next_ok [OF Suc.prems] by (auto simp: outcome_def)
  have y_none: "tz_record_target y = None" using lx_Next_target [OF Suc.prems(2)] y by simp
  have "outcome (tz_tokens ops n t) (lx_tokens n y)" by (rule Suc.IH [OF t(2) y_none])
  then show ?case
    using t y tz_rel_current [OF t(2) y_none] by (auto simp: outcome_def split: prod.split)
qed (simp add: outcome_def)

lemma run_ok:
  assumes "inv i"
  shows "\<exists>s t j. Tokenizer ops i = Some s \<and>
    tz_tokens ops n (tz_configure options s) = Some (fst (lx_tokens n (tz_configure options (lexer_start (rest i)))), t) \<and>
    tz_errors t = tz_errors (snd (lx_tokens n (tz_configure options (lexer_start (rest i))))) \<and>
    Tokenizer_destroy ops t = Some j \<and> inv j \<and>
    rest j = lx_text (snd (lx_tokens n (tz_configure options (lexer_start (rest i)))))"
proof -
  obtain s where s: "Tokenizer ops i = Some s" "tz_rel s (lexer_start (rest i))"
    using Tokenizer_ok [OF assms] by blast
  have "outcome (tz_tokens ops n (tz_configure options s)) (lx_tokens n (tz_configure options (lexer_start (rest i))))"
    by (rule tokens_ok [OF configure_ok [OF s(2)]]) simp_all
  then obtain t where t: "tz_tokens ops n (tz_configure options s) =
        Some (fst (lx_tokens n (tz_configure options (lexer_start (rest i)))), t)"
      "tz_rel t (snd (lx_tokens n (tz_configure options (lexer_start (rest i)))))"
    by (auto simp: outcome_def)
  from destroy_ok [OF t(2)] tz_rel_same(9) [OF t(2)] s(1) t(1) show ?thesis by blast
qed

end

end
