(* ===== verification/Tokenizer_Text.thy ===== *)
theory Tokenizer_Text
  imports Tokenizer_Run
begin

text \<open>
  Tokens and the text they are read from: the text of a token is a slice of the input, its line and
  columns are those of that slice, and a run of \<open>Next\<close> gets to the end of the input.
\<close>

section \<open>Positions\<close>

definition advance :: "8 word \<Rightarrow> int \<times> int \<Rightarrow> int \<times> int" where
  \<comment> \<open>Line and column behind a character; a tab goes to the next multiple of eight.\<close>
  "advance c p =
     (case p of (line, column) \<Rightarrow>
        if c = 0x0A then (line + 1, 0)
        else if c = 0x09 then (line, (column div 8 + 1) * 8)
        else (line, column + 1))"

definition lx_pos :: "'a tok_state_scheme \<Rightarrow> int \<times> int" where
  "lx_pos x = (tz_line x, tz_column x)"

definition lx_passed :: "bytes \<Rightarrow> lexer \<Rightarrow> lexer \<Rightarrow> bool" where
  \<comment> \<open>From \<open>x\<close> to \<open>y\<close> just these bytes were consumed.\<close>
  "lx_passed bs x y \<longleftrightarrow> lx_text x = bs @ lx_text y \<and> lx_pos y = fold advance bs (lx_pos x)"

definition lx_forth :: "lexer \<Rightarrow> lexer \<Rightarrow> bool" where
  "lx_forth x y \<longleftrightarrow> (\<exists>bs. lx_passed bs x y)"

lemma tab_stop: "column + (8 - column mod 8) = (column div 8 + 1) * (8 :: int)"
  by (simp add: algebra_simps minus_mod_eq_mult_div [symmetric])

lemma count_char_pos [simp]: "lx_pos (count_char c x) = advance c (lx_pos x)"
  using tab_stop [of "tz_column x"] by (simp add: lx_pos_def advance_def count_char_def kTabWidth_def)

lemma count_chars_pos [simp]: "lx_pos (count_chars bs x) = fold advance bs (lx_pos x)"
  by (induction bs arbitrary: x) (simp_all add: count_chars_Cons, simp add: count_chars_def)

lemma lx_pos_simps [simp]:
  "lx_pos (append_to_target bs x) = lx_pos x" "lx_pos (y\<lparr>lx_text := l\<rparr>) = lx_pos y" "lx_pos (x\<lparr>tz_errors := e\<rparr>) = lx_pos x"
  "lx_pos (x\<lparr>tz_record_target := t\<rparr>) = lx_pos x" "lx_pos (x\<lparr>tz_current := c\<rparr>) = lx_pos x"
  "lx_pos (tz_AddError m x) = lx_pos x" "lx_pos (tz_AddError_at j k m x) = lx_pos x" "lx_pos (lx_record content t y) = lx_pos y"
  "lx_pos (tz_set_type ty x) = lx_pos x" "lx_pos (lx_start_token y) = lx_pos y" "lx_pos (lx_end_token y) = lx_pos y"
  "lx_pos (x\<lparr>tz_previous := p\<rparr>) = lx_pos x" "lx_pos (tz_slash_token x) = lx_pos x" "lx_pos (tz_end_of_input x) = lx_pos x"
  "lx_pos (tz_comment_end x) = lx_pos x"
  by (simp_all add: lx_pos_def append_to_target_def tz_AddError_def tz_AddError_at_def lx_record_def tz_set_type_def
      lx_start_token_def lx_end_token_def tz_slash_token_def tz_end_of_input_def tz_comment_end_def split: target_splits)

lemma lx_chars_pos [simp]: "lx_pos (lx_chars bs x) = fold advance bs (lx_pos x)"
  by (simp add: lx_chars_def)

lemma lx_forth_refl: "lx_text y = lx_text x \<Longrightarrow> lx_pos y = lx_pos x \<Longrightarrow> lx_forth x y"
  unfolding lx_forth_def lx_passed_def by (intro exI [of _ "[]"]) simp

lemma lx_forth_trans [trans]: "lx_forth x y \<Longrightarrow> lx_forth y z \<Longrightarrow> lx_forth x z"
  unfolding lx_forth_def lx_passed_def by (metis append.assoc fold_append comp_apply)

lemma lx_step_passed: "lx_step x y \<Longrightarrow> lx_forth x y"
  unfolding lx_step_def lx_forth_def lx_passed_def by (metis lx_chars_pos lx_pos_simps(3))

lemma lx_forth_record: "lx_forth x y \<Longrightarrow> lx_forth x (lx_record content t y)"
  "lx_forth (lx_record content t x) y \<Longrightarrow> lx_forth x y"
  by (simp_all add: lx_forth_def lx_passed_def)

section \<open>Steps of the parts of the lexer\<close>

lemma lx_step_error_after: "lx_step x y \<Longrightarrow> lx_step x (tz_AddError m y)"
  using lx_step_trans lx_step_error by blast

lemma lx_step_char_nonzero: "peek x \<noteq> 0 \<Longrightarrow> lx_step x (lx_char x)"
  by (rule lx_step_char [OF peek_text])

lemma lx_step_string: "lx_step x (lx_string d x)"
proof (induction d x rule: lx_string.induct)
  case (1 d x)
  show ?case
  proof (cases "peek x = 0")
    case True
    then show ?thesis by (subst lx_string.simps) (simp add: lx_step_error del: append.simps)
  next
    case False
    have char: "lx_step x (lx_char x)" by (rule lx_step_char_nonzero [OF False])
    have escape: "lx_step x (lx_escape (lx_char x))" by (rule lx_step_trans [OF char lx_step_escape])
    consider (line) "peek x = 0x0A" | (esc) "peek x = 0x5C" | (other) "peek x \<noteq> 0x0A" "peek x \<noteq> 0x5C" by blast
    then show ?thesis
    proof cases
      case line
      then show ?thesis using lx_step_trans [OF char 1(1)] by (subst lx_string.simps) (simp add: lx_step_error del: append.simps)
    next
      case esc
      then show ?thesis using lx_step_trans [OF escape 1(2)] by (subst lx_string.simps) simp
    next
      case other
      then show ?thesis using False char lx_step_trans [OF char 1(3)] by (subst lx_string.simps) simp
    qed
  qed
qed

lemma lx_step_try_eq: "lx_try C x = (ok, y) \<Longrightarrow> \<not> C 0 \<Longrightarrow> lx_step x y"
  using lx_step_try [of C x] by simp

lemma lx_step_exponent: "lx_step x (snd (lx_exponent b x))"
proof -
  obtain e y where y: "lx_try (\<lambda>c. c = 0x65 \<or> c = 0x45) x = (e, y)" by fastforce
  have xy: "lx_step x y" by (rule lx_step_try_eq [OF y]) simp
  define z where "z = (if e then lx_one_or_more Digit (CHR 0x22 # ''e'' @ CHR 0x22 # '' must be followed by exponent.'')
                         (snd (lx_try (\<lambda>c. c = 0x2D \<or> c = 0x2B) y)) else y)"
  have "lx_step y (snd (lx_try (\<lambda>c. c = 0x2D \<or> c = 0x2B) y))" by (rule lx_step_try) simp
  then have "lx_step y z" unfolding z_def by (auto intro: lx_step_trans lx_step_one_or_more)
  then have xz: "lx_step x z" by (rule lx_step_trans [OF xy])
  have "lx_step z (snd (lx_try (\<lambda>c. c = 0x66 \<or> c = 0x46) z))" by (rule lx_step_try) simp
  then have "lx_step x (snd (lx_try (\<lambda>c. c = 0x66 \<or> c = 0x46) z))" by (rule lx_step_trans [OF xz])
  then show ?thesis
    using xz unfolding z_def by (cases e) (auto simp: lx_exponent_def y Let_def split_def simp del: append.simps)
qed

lemma lx_step_decimal: "lx_step x (snd (lx_decimal d x))"
proof -
  have w: "lx_step x (lx_while Digit x)" by (rule lx_step_while)
  have dot: "lx_step x (lx_while Digit (lx_char (lx_while Digit x)))" if "peek (lx_while Digit x) = 0x2E"
    using lx_step_trans [OF w lx_step_trans [OF lx_step_char_nonzero lx_step_while]] that by simp
  show ?thesis
    using lx_step_trans [OF w lx_step_exponent] lx_step_trans [OF dot lx_step_exponent] by (simp add: lx_decimal_def Let_def)
qed

lemma lx_step_CheckNumberEnd: "lx_step x (tz_CheckNumberEnd c b x)"
  by (auto simp: tz_CheckNumberEnd_def)

lemma lx_step_number: "lx_step x (snd (lx_number zero dot x))"
proof -
  have hex: "lx_step x (lx_one_or_more HexDigit m (lx_char x))" if "peek x = 0x78 \<or> peek x = 0x58" for m
    by (rule lx_step_trans [OF lx_step_char_nonzero lx_step_one_or_more]) (use that in auto)
  have octal: "lx_step x (lx_while OctalDigit x)" by (rule lx_step_while)
  then have octal': "lx_step x (lx_while Digit (tz_AddError m (lx_while OctalDigit x)))" for m
    using lx_step_trans [OF lx_step_error_after lx_step_while] by blast
  note number_end = lx_step_trans [OF _ lx_step_CheckNumberEnd]
  show ?thesis
    unfolding lx_number_def
    using number_end [OF hex] number_end [OF octal] number_end [OF octal'] number_end [OF lx_step_decimal]
    by (simp add: Let_def split_def del: append.simps)
qed

lemma lx_step_check: "lx_step x (tz_check_dot x)" "lx_step x (tz_check_ascii c x)"
  by (auto simp: tz_check_dot_def tz_check_ascii_def)

lemma lx_step_read_token:
  assumes "lx_text x \<noteq> []"
  shows "lx_step x (snd (lx_read_token x))"
proof -
  have char: "lx_step x (lx_char x)" by (rule lx_step_char [OF assms])
  have ascii: "lx_step x (lx_char (tz_check_ascii (peek x) x))"
    using assms by (intro lx_step_trans [OF lx_step_check(2) lx_step_char]) (simp add: tz_check_ascii_def)
  have dot: "lx_step x (tz_check_dot (lx_char (lx_char x)))" if "Digit (peek (lx_char x))"
    using lx_step_trans [OF char lx_step_trans [OF lx_step_char [OF peek_class [of Digit]] lx_step_check(1)]] that by simp
  show ?thesis
    using char ascii lx_step_trans [OF char lx_step_while] lx_step_trans [OF char lx_step_number]
      lx_step_trans [OF dot lx_step_number] lx_step_trans [OF char lx_step_string [of "lx_char x" "peek x"]]
    by (auto simp: lx_read_token_def Let_def)
qed

section \<open>A token is a slice of the text\<close>

lemma lx_step_recording:
  assumes "lx_step x y" "tz_record_target x = Some Current_text"
  shows "\<exists>bs. lx_passed bs x y \<and> tz_current y = (tz_current x)\<lparr>tok_text := tok_text (tz_current x) @ bs\<rparr> \<and>
    tz_record_target y = Some Current_text"
proof -
  obtain bs es where y: "lx_text x = bs @ lx_text y" "y = (lx_chars bs x)\<lparr>tz_errors := tz_errors x @ es\<rparr>"
    using assms(1) unfolding lx_step_def by blast
  have "tz_current (count_chars bs z) = tz_current z" for bs and z :: lexer
    by (induction bs arbitrary: z) (simp_all add: count_chars_def count_char_def)
  then have cur: "tz_current y = (tz_current x)\<lparr>tok_text := tok_text (tz_current x) @ bs\<rparr>" "lx_pos y = fold advance bs (lx_pos x)"
      "tz_record_target y = Some Current_text"
    using assms(2) by (simp_all add: y(2)) (simp add: lx_chars_def append_to_target_def)
  with y(1) show ?thesis unfolding lx_passed_def by blast
qed

lemma lx_while_nonempty: "C (peek x) \<Longrightarrow> lx_text x \<noteq> [] \<Longrightarrow> length (lx_text (lx_while C x)) < length (lx_text x)"
  by (cases "lx_text x") (auto simp: lx_while_def peek_def)

lemma lx_read_token_shorter:
  assumes "lx_text x \<noteq> []"
  shows "length (lx_text (snd (lx_read_token x))) < length (lx_text x)"
proof -
  have char: "length (lx_text (lx_char x)) < length (lx_text x)" using assms by simp
  have "length (lx_text (lx_char (tz_check_ascii (peek x) x))) < length (lx_text x)"
    using assms by (simp add: tz_check_ascii_def)
  moreover have "length (lx_text (tz_check_dot (lx_char (lx_char x)))) < length (lx_text x)"
    using assms by (simp add: tz_check_dot_def)
  ultimately show ?thesis
    using le_less_trans [OF lx_step_length [OF lx_step_while] char] le_less_trans [OF lx_step_length [OF lx_step_number] char]
      le_less_trans [OF lx_step_length [OF lx_step_number], of "tz_check_dot (lx_char (lx_char x))"]
      le_less_trans [OF lx_step_length [OF lx_step_string] char] char
    by (auto simp: lx_read_token_def Let_def)
qed

definition token_slice :: "bytes \<Rightarrow> lexer \<Rightarrow> lexer \<Rightarrow> bool" where
  \<comment> \<open>Between \<open>x\<close> and \<open>y\<close> the given bytes were skipped, and then \<open>y\<close>'s current token was read.\<close>
  "token_slice skipped x y \<longleftrightarrow>
     (let t = tz_current y in
      lx_text x = skipped @ tok_text t @ lx_text y \<and> tok_text t \<noteq> [] \<and>
      (tok_line t, tok_column t) = fold advance skipped (lx_pos x) \<and>
      lx_pos y = fold advance (tok_text t) (tok_line t, tok_column t) \<and> tok_end_column t = tz_column y)"

lemma lx_token_slice:
  assumes "lx_text x \<noteq> []"
  shows "token_slice [] x (lx_token x)"
proof -
  let ?s = "lx_start_token x"
  let ?y = "snd (lx_read_token ?s)"
  have s: "lx_text ?s = lx_text x" "tok_text (tz_current ?s) = []" "tz_record_target ?s = Some Current_text"
      "(tok_line (tz_current ?s), tok_column (tz_current ?s)) = lx_pos x"
    by (simp_all add: lx_start_token_def lx_pos_def)
  obtain bs where bs: "lx_passed bs ?s ?y" "tz_current ?y = (tz_current ?s)\<lparr>tok_text := tok_text (tz_current ?s) @ bs\<rparr>"
    using lx_step_recording [OF lx_step_read_token s(3)] s(1) assms by auto
  have left: "lx_text x = bs @ lx_text ?y" "lx_pos ?y = fold advance bs (lx_pos x)"
    using bs(1) s(1) by (simp_all add: lx_passed_def)
  moreover have "bs \<noteq> []"
    using lx_read_token_shorter [of ?s] left(1) s(1) assms by auto
  ultimately show ?thesis
    using bs(2) s by (simp add: token_slice_def lx_token_def split_def Let_def lx_end_token_def tz_set_type_def lx_pos_def)
qed

lemma token_slice_forth: "lx_forth x y \<Longrightarrow> token_slice bs y z \<Longrightarrow> \<exists>skipped. token_slice skipped x z"
  unfolding lx_forth_def lx_passed_def token_slice_def Let_def by (metis append.assoc fold_append comp_apply)

lemma lx_forth_length: "lx_forth x y \<Longrightarrow> length (lx_text y) \<le> length (lx_text x)"
  by (auto simp: lx_forth_def lx_passed_def)

section \<open>Comments and the token loop\<close>

lemma lx_forth_record_between:
  assumes "lx_forth x y" "lx_forth (lx_record content t y) z"
  shows "lx_forth x z"
  using lx_forth_trans assms lx_forth_record(2) by blast

lemma lx_forth_line_comment: "lx_forth x (lx_line_comment content x)"
proof -
  let ?w = "lx_while (\<lambda>c. c \<noteq> 0 \<and> c \<noteq> 0x0A) (lx_record content (Some Content) x)"
  have "lx_step ?w (snd (lx_try (\<lambda>c. c = 0x0A) ?w))" by (rule lx_step_try) simp
  then have "lx_forth (lx_record content (Some Content) x) (snd (lx_try (\<lambda>c. c = 0x0A) ?w))"
    by (rule lx_step_passed [OF lx_step_trans [OF lx_step_while]])
  then have "lx_forth x (snd (lx_try (\<lambda>c. c = 0x0A) ?w))" by (rule lx_forth_record(2))
  then show ?thesis unfolding lx_line_comment_def by (rule lx_forth_record(1))
qed

lemma lx_forth_error_at: "lx_forth x y \<Longrightarrow> lx_forth x (tz_AddError_at l k m y)"
  using lx_forth_trans lx_step_passed lx_step_error_at by blast

lemma lx_forth_error: "lx_forth x y \<Longrightarrow> lx_forth x (tz_AddError m y)"
  using lx_forth_trans lx_step_passed lx_step_error by blast

lemma lx_forth_block_loop: "lx_forth x (lx_block_loop content l k x)"
proof (induction content l k x rule: lx_block_loop.induct)
  case (1 content l k x)
  define N where "N = (\<lambda>c :: 8 word. c \<noteq> 0 \<and> c \<noteq> 0x2A \<and> c \<noteq> 0x2F \<and> c \<noteq> 0x0A)"
  define w where "w = lx_while N x"
  note IH = 1 [OF w_def [unfolded N_def]]
  have w: "lx_forth x w" unfolding w_def by (rule lx_step_passed [OF lx_step_while])
  obtain ok1 y1 where y1: "lx_star_slash (lx_while WhitespaceNoNewline (lx_record content None (lx_char w))) = (ok1, y1)" by fastforce
  obtain ok2 y2 where y2: "lx_star_slash w = (ok2, y2)" by fastforce
  obtain sl z where z: "lx_try (\<lambda>c. c = 0x2F) y2 = (sl, z)" by fastforce
  have line: "lx_forth x y1" if nl: "peek w = 0x0A"
  proof -
    have "lx_forth w (lx_char w)" by (rule lx_step_passed [OF lx_step_char_nonzero]) (simp add: nl)
    moreover have "lx_forth (lx_record content None (lx_char w)) y1"
      using lx_step_passed [OF lx_step_trans [OF lx_step_while lx_star_slash_step]] y1 by (metis snd_conv)
    ultimately show ?thesis using lx_forth_trans [OF w] lx_forth_record_between by blast
  qed
  have "lx_step w y2" using lx_star_slash_step [of w] y2 by simp
  then have xy: "lx_forth x y2" using lx_forth_trans [OF w] lx_step_passed by blast
  have "lx_forth y2 z" by (rule lx_step_passed [OF lx_step_try_eq [OF z]]) simp
  then have xz: "lx_forth x z" by (rule lx_forth_trans [OF xy])
  have A: "lx_forth x (lx_block_loop content l k (lx_record content (Some Content) y1))" if "peek w = 0x0A" "\<not> ok1"
    using lx_forth_record_between [OF line [OF that(1)] IH(1) [OF that(1) y1 [symmetric] refl that(2)]] .
  have B: "lx_forth x (lx_block_loop content l k (tz_AddError m z))"
    if "peek w \<noteq> 0x0A" "\<not> ok2" "sl \<and> peek z = 0x2A" "m = CHR 0x22 # ''/*'' @ CHR 0x22 # '' inside block comment.  Block comments cannot be nested.''" for m
    using lx_forth_trans [OF lx_forth_error [OF xz] IH(2) [OF that(1) y2 [symmetric] refl that(2) z [symmetric] refl that(3)]]
    unfolding that(4) .
  have C: "lx_forth x (lx_block_loop content l k z)"
    if "peek w \<noteq> 0x0A" "\<not> ok2" "\<not> (sl \<and> peek z = 0x2A)" "peek z \<noteq> 0"
    using lx_forth_trans [OF xz IH(3) [OF that(1) y2 [symmetric] refl that(2) z [symmetric] refl that(3,4)]] .
  have D: "lx_forth x (tz_comment_end (lx_record content None y2))"
    using xy by (simp add: lx_forth_def lx_passed_def)
  have E: "lx_forth x (lx_record content None (tz_AddError_at l k m' (tz_AddError m z)))" for m m'
    by (rule lx_forth_record(1) [OF lx_forth_error_at [OF lx_forth_error [OF xz]]])
  show ?case
    using A B [OF _ _ _ refl] C D E line xy y1
    by (subst lx_block_loop.simps)
      (cases content; simp add: Let_def y2 z N_def [symmetric] w_def [symmetric] del: append.simps)
qed

lemma lx_forth_block_comment: "lx_forth x (lx_block_comment content x)"
  unfolding lx_block_comment_def by (rule lx_forth_record(2) [OF lx_forth_block_loop])

lemma lx_forth_control: "lx_text x \<noteq> [] \<Longrightarrow> lx_forth x (lx_control x)"
  unfolding lx_control_def
  by (intro lx_step_passed lx_step_trans [OF lx_step_trans [OF lx_step_error lx_step_char] lx_step_while]) simp

lemma lx_comment_start_forth:
  assumes "lx_comment_start x = (status, y)" "status \<noteq> SLASH_NOT_COMMENT"
  shows "lx_forth x y"
proof -
  have char: "lx_forth x (lx_char x)" if "peek x \<noteq> 0" using that by (intro lx_step_passed lx_step_char_nonzero)
  have "lx_forth x (lx_char (lx_char x))" if "peek x \<noteq> 0" "peek (lx_char x) \<noteq> 0"
    using that by (intro lx_forth_trans [OF char lx_step_passed [OF lx_step_char_nonzero]])
  then show ?thesis
    using assms char lx_forth_refl [of x x] by (auto simp: lx_comment_start_def Let_def split: if_splits)
qed

lemma lx_comment_start_slash:
  assumes "lx_comment_start x = (SLASH_NOT_COMMENT, y)"
  shows "token_slice [] x y"
proof -
  have y: "y = tz_slash_token (lx_char x)" "peek x = 0x2F"
    using assms by (auto simp: lx_comment_start_def Let_def split: if_splits)
  then have "lx_text x = 0x2F # lx_text (lx_char x)" "lx_pos (lx_char x) = advance 0x2F (lx_pos x)"
    using lx_chars_pos [of "[peek x]" x] by (auto simp: peek_def lx_char_def split: list.splits)
  then show ?thesis
    by (simp add: token_slice_def y(1) tz_slash_token_def advance_def lx_pos_def)
qed

lemma lx_next_loop_slice:
  "lx_next_loop x = (True, y) \<Longrightarrow> \<exists>skipped. token_slice skipped x y"
proof (induction x rule: lx_next_loop.induct)
  case (1 x)
  obtain status z where z: "lx_comment_start (lx_while Whitespace x) = (status, z)" by fastforce
  note w = lx_step_passed [OF lx_step_while [of x Whitespace]]
  have xz: "lx_forth x z" if "status \<noteq> SLASH_NOT_COMMENT"
    by (rule lx_forth_trans [OF w lx_comment_start_forth [OF z that]])
  have ne: "lx_text x \<noteq> []" using 1(4) by (subst (asm) lx_next_loop.simps) (auto split: if_splits)
  note IH = 1(1-3) [OF ne z [symmetric] refl]
  note y = 1(4) [unfolded lx_next_loop.simps [of x] z, simplified ne Let_def prod.case if_False]
  show ?case
  proof (cases status)
    case LINE_COMMENT
    then show ?thesis
      using y IH(1) token_slice_forth [OF lx_forth_trans [OF xz lx_forth_line_comment]] by auto
  next
    case BLOCK_COMMENT
    then show ?thesis
      using y IH(2) token_slice_forth [OF lx_forth_trans [OF xz lx_forth_block_comment]] by auto
  next
    case SLASH_NOT_COMMENT
    then have "token_slice [] (lx_while Whitespace x) y" using y lx_comment_start_slash z by simp
    then show ?thesis by (rule token_slice_forth [OF w])
  next
    case NO_COMMENT
    then have zne: "lx_text z \<noteq> []" using y by (auto split: if_splits)
    show ?thesis
    proof (cases "peek z < 0x20")
      case True
      then show ?thesis
        using y NO_COMMENT zne IH(3) token_slice_forth [OF lx_forth_trans [OF xz lx_forth_control [OF zne]]] by auto
    next
      case False
      then have "y = lx_token z" using y NO_COMMENT zne by simp
      then show ?thesis using token_slice_forth [OF xz lx_token_slice [OF zne]] NO_COMMENT by simp
    qed
  qed
qed

lemma lx_Next_slice: "lx_Next x = (True, y) \<Longrightarrow> \<exists>skipped. token_slice skipped x y"
  using lx_next_loop_slice [of "x\<lparr>tz_previous := tz_current x\<rparr>" y]
  by (simp add: lx_Next_def token_slice_def)

lemma lx_Next_shorter: "lx_Next x = (True, y) \<Longrightarrow> length (lx_text y) < length (lx_text x)"
  using lx_Next_slice [of x y] by (auto simp: token_slice_def Let_def)

lemma lx_next_loop_end: "lx_next_loop x = (False, y) \<Longrightarrow> lx_text y = [] \<and> tok_type (tz_current y) = TYPE_END"
proof (induction x rule: lx_next_loop.induct)
  case (1 x)
  obtain status z where z: "lx_comment_start (lx_while Whitespace x) = (status, z)" by fastforce
  show ?case
    using 1(1-3) [OF _ z [symmetric] refl] 1(4)
    by (cases status; subst (asm) (4) lx_next_loop.simps) (auto simp: z tz_end_of_input_def split: if_splits)
qed

lemma lx_Next_end: "lx_Next x = (False, y) \<Longrightarrow> lx_text y = [] \<and> tok_type (tz_current y) = TYPE_END"
  unfolding lx_Next_def by (rule lx_next_loop_end)

lemma lx_tokens_end:
  "length (lx_text x) < n \<Longrightarrow> \<exists>ts e. lx_tokens n x = (ts @ [e], snd (lx_tokens n x)) \<and> tok_type e = TYPE_END \<and>
     length ts \<le> length (lx_text x) \<and> lx_text (snd (lx_tokens n x)) = []"
proof (induction n arbitrary: x)
  case (Suc n)
  obtain more y where y: "lx_Next x = (more, y)" by fastforce
  show ?case
  proof (cases more)
    case True
    then have less: "length (lx_text y) < length (lx_text x)" using lx_Next_shorter y by simp
    then have "length (lx_text y) < n" using Suc.prems by simp
    from Suc.IH [OF this] obtain ts e where ts: "fst (lx_tokens n y) = ts @ [e]" "tok_type e = TYPE_END"
        "length ts \<le> length (lx_text y)" "lx_text (snd (lx_tokens n y)) = []"
      by (metis fst_conv)
    then show ?thesis
      using True y less by (intro exI [of _ "tz_current y # ts"] exI [of _ e]) (simp add: split_def)
  next
    case False
    then show ?thesis using y lx_Next_end by (intro exI [of _ "[]"]) auto
  qed
qed simp

end
