(* ===== verification/C_Strings.thy ===== *)
theory C_Strings
  imports Wire_Prelude
begin

text \<open>
  \<open>stubs/strutil.cc\<close>, C-style escaping: the escapers write to a buffer through a pointer, so a store
  outside the buffer is \<open>None\<close>; the unescaper reads a C string, whose end is the first NUL.
\<close>

section \<open>C strings and buffers\<close>

definition deref :: "bytes \<Rightarrow> uint8" where
  \<comment> \<open>\<open>*p\<close> for a pointer into a C string, given as what it points to; the string ends with a NUL.\<close>
  "deref p = (case p of [] \<Rightarrow> 0 | c # _ \<Rightarrow> c)"

definition store :: "bytes \<Rightarrow> nat \<Rightarrow> bytes \<Rightarrow> bytes option" where
  \<comment> \<open>Stores into an array of fixed size; \<open>None\<close> where they leave it.\<close>
  "store mem i bs = (if i + length bs \<le> length mem then Some (mem_write mem i bs) else None)"

section \<open>Character classes\<close>

definition isxdigit :: "uint8 \<Rightarrow> bool" where
  "isxdigit c \<longleftrightarrow> (0x30 \<le> c \<and> c \<le> 0x39) \<or> (0x61 \<le> c \<and> c \<le> 0x66) \<or> (0x41 \<le> c \<and> c \<le> 0x46)"

definition isprint :: "uint8 \<Rightarrow> bool" where
  \<comment> \<open>\<open>char\<close> is signed or not: bytes from 0x80 on are outside in both cases.\<close>
  "isprint c \<longleftrightarrow> 0x20 \<le> c \<and> c \<le> 0x7E"

definition hex_digit_to_int :: "uint8 \<Rightarrow> int" where
  "hex_digit_to_int c = (let x = uint c; x = (if x > 0x39 then x + 9 else x) in x AND 0xF)"

definition hex_digit :: "nat \<Rightarrow> uint8" where
  \<comment> \<open>A digit of \<open>%x\<close> of \<open>sprintf\<close>.\<close>
  "hex_digit n = (if n < 10 then of_nat (0x30 + n) else of_nat (0x61 + (n - 10)))"

section \<open>Escaping\<close>

definition short_escape :: "uint8 \<Rightarrow> uint8 option" where
  \<comment> \<open>The cases of the \<open>switch\<close> in both escapers: \<open>\n \r \t \" \' \\\<close>\<close>
  "short_escape c =
     (if c = 0x0A then Some 0x6E else if c = 0x0D then Some 0x72 else if c = 0x09 then Some 0x74
      else if c = 0x22 then Some 0x22 else if c = 0x27 then Some 0x27 else if c = 0x5C then Some 0x5C else None)"

definition sprintf_escape :: "bool \<Rightarrow> uint8 \<Rightarrow> bytes" where
  \<comment> \<open>\<open>sprintf\<close> with \<open>\x%02x\<close> or \<open>\%03o\<close>, without the NUL it ends with\<close>
  "sprintf_escape use_hex c =
     (if use_hex then [0x5C, 0x78, hex_digit (unat c div 16), hex_digit (unat c mod 16)]
      else [0x5C, hex_digit (unat c div 64), hex_digit (unat c div 8 mod 8), hex_digit (unat c mod 8)])"

fun CEscape_loop :: "bool \<Rightarrow> bool \<Rightarrow> bool \<Rightarrow> bytes \<Rightarrow> nat \<Rightarrow> bytes \<Rightarrow> (int \<times> bytes) option" where
  \<comment> \<open>The loop of \<open>CEscapeInternal\<close>; the result is the return value and the buffer.\<close>
  "CEscape_loop use_hex utf8_safe last_hex_escape dest used [] =
     (if length dest - used < 1 then Some (- 1, dest)
      else do { dest \<leftarrow> store dest used [0]; Some (int used, dest) })"
| "CEscape_loop use_hex utf8_safe last_hex_escape dest used (c # src) =
     (if length dest - used < 2 then Some (- 1, dest)
      else case short_escape c of
        Some e \<Rightarrow> do { dest \<leftarrow> store dest used [0x5C, e]; CEscape_loop use_hex utf8_safe False dest (used + 2) src }
      | None \<Rightarrow>
          if (\<not> utf8_safe \<or> c < 0x80) \<and> (\<not> isprint c \<or> (last_hex_escape \<and> isxdigit c)) then
            if length dest - used < 4 then Some (- 1, dest)
            else do {
              dest \<leftarrow> store dest used (sprintf_escape use_hex c @ [0]);
              CEscape_loop use_hex utf8_safe use_hex dest (used + 4) src
            }
          else do { dest \<leftarrow> store dest used [c]; CEscape_loop use_hex utf8_safe False dest (used + 1) src })"

definition CEscapeInternal :: "bytes \<Rightarrow> bytes \<Rightarrow> bool \<Rightarrow> bool \<Rightarrow> (int \<times> bytes) option" where
  \<comment> \<open>\<open>dest\<close> is the array of \<open>dest_len\<close> bytes.\<close>
  "CEscapeInternal src dest use_hex utf8_safe = CEscape_loop use_hex utf8_safe False dest 0 src"

definition Utf8SafeCEscape :: "bytes \<Rightarrow> bytes option" where
  \<comment> \<open>A negative length is refused by \<open>string\<close>.\<close>
  "Utf8SafeCEscape src = do {
     (len, dest) \<leftarrow> CEscapeInternal src (replicate (length src * 4 + 1) 0) False True;
     if len < 0 then None else mem_read dest 0 len
   }"

definition CHexEscape :: "bytes \<Rightarrow> bytes option" where
  "CHexEscape src = do {
     (len, dest) \<leftarrow> CEscapeInternal src (replicate (length src * 4 + 1) 0) True False;
     if len < 0 then None else mem_read dest 0 len
   }"

definition c_escaped_len :: "nat list" where
  "c_escaped_len =
    [4, 4, 4, 4, 4, 4, 4, 4, 4, 2, 2, 4, 4, 2, 4, 4,
     4, 4, 4, 4, 4, 4, 4, 4, 4, 4, 4, 4, 4, 4, 4, 4,
     1, 1, 2, 1, 1, 1, 1, 2, 1, 1, 1, 1, 1, 1, 1, 1,
     1, 1, 1, 1, 1, 1, 1, 1, 1, 1, 1, 1, 1, 1, 1, 1,
     1, 1, 1, 1, 1, 1, 1, 1, 1, 1, 1, 1, 1, 1, 1, 1,
     1, 1, 1, 1, 1, 1, 1, 1, 1, 1, 1, 1, 2, 1, 1, 1,
     1, 1, 1, 1, 1, 1, 1, 1, 1, 1, 1, 1, 1, 1, 1, 1,
     1, 1, 1, 1, 1, 1, 1, 1, 1, 1, 1, 1, 1, 1, 1, 4,
     4, 4, 4, 4, 4, 4, 4, 4, 4, 4, 4, 4, 4, 4, 4, 4,
     4, 4, 4, 4, 4, 4, 4, 4, 4, 4, 4, 4, 4, 4, 4, 4,
     4, 4, 4, 4, 4, 4, 4, 4, 4, 4, 4, 4, 4, 4, 4, 4,
     4, 4, 4, 4, 4, 4, 4, 4, 4, 4, 4, 4, 4, 4, 4, 4,
     4, 4, 4, 4, 4, 4, 4, 4, 4, 4, 4, 4, 4, 4, 4, 4,
     4, 4, 4, 4, 4, 4, 4, 4, 4, 4, 4, 4, 4, 4, 4, 4,
     4, 4, 4, 4, 4, 4, 4, 4, 4, 4, 4, 4, 4, 4, 4, 4,
     4, 4, 4, 4, 4, 4, 4, 4, 4, 4, 4, 4, 4, 4, 4, 4]"

definition CEscapedLength :: "bytes \<Rightarrow> nat" where
  "CEscapedLength src = fold (\<lambda>c escaped_len. escaped_len + c_escaped_len ! unat c) src 0"

fun CEscapeAndAppend_loop :: "bytes \<Rightarrow> nat \<Rightarrow> bytes \<Rightarrow> bytes option" where
  "CEscapeAndAppend_loop dest append_ptr [] = Some dest"
| "CEscapeAndAppend_loop dest append_ptr (c # src) =
     (case short_escape c of
        Some e \<Rightarrow> do { dest \<leftarrow> store dest append_ptr [0x5C, e]; CEscapeAndAppend_loop dest (append_ptr + 2) src }
      | None \<Rightarrow>
          if \<not> isprint c then do {
            dest \<leftarrow> store dest append_ptr [0x5C, 0x30 + c div 64, 0x30 + c mod 64 div 8, 0x30 + c mod 8];
            CEscapeAndAppend_loop dest (append_ptr + 4) src
          }
          else do { dest \<leftarrow> store dest append_ptr [c]; CEscapeAndAppend_loop dest (append_ptr + 1) src })"

definition CEscapeAndAppend :: "bytes \<Rightarrow> bytes \<Rightarrow> bytes option" where
  "CEscapeAndAppend src dest =
     (let escaped_len = CEscapedLength src in
      if escaped_len = length src then Some (dest @ src)
      else CEscapeAndAppend_loop (dest @ replicate escaped_len 0) (length dest) src)"

definition CEscape :: "bytes \<Rightarrow> bytes option" where
  "CEscape src = CEscapeAndAppend src []"

section \<open>Unescaping\<close>

definition is_octal_digit :: "uint8 \<Rightarrow> bool" where
  "is_octal_digit c \<longleftrightarrow> 0x30 \<le> c \<and> c \<le> 0x37"

definition simple_unescape :: "uint8 \<Rightarrow> uint8 option" where
  \<comment> \<open>\<open>a b f n r t v \ ? ' "\<close>\<close>
  "simple_unescape e =
     (if e = 0x61 then Some 0x07 else if e = 0x62 then Some 0x08 else if e = 0x66 then Some 0x0C else if e = 0x6E then Some 0x0A
      else if e = 0x72 then Some 0x0D else if e = 0x74 then Some 0x09 else if e = 0x76 then Some 0x0B else if e = 0x5C then Some 0x5C
      else if e = 0x3F then Some 0x3F else if e = 0x27 then Some 0x27 else if e = 0x22 then Some 0x22 else None)"

definition unescape_octal_digit :: "uint8 \<times> bytes \<Rightarrow> uint8 \<times> bytes" where
  \<comment> \<open>\<open>if (IS_OCTAL_DIGIT(p[1])) ch = ch * 8 + *++p - '0'\<close>; the bytes are those behind \<open>p\<close>.\<close>
  "unescape_octal_digit q =
     (case q of (ch, p) \<Rightarrow> if is_octal_digit (deref p) then (ch * 8 + deref p - 0x30, tl p) else (ch, p))"

fun unescape_hex :: "uint32 \<Rightarrow> bytes \<Rightarrow> uint32 \<times> bytes" where
  "unescape_hex ch (c # p) =
     (if isxdigit c then unescape_hex (push_bit 4 ch + word_of_int (hex_digit_to_int c)) p else (ch, c # p))"
| "unescape_hex ch [] = (ch, [])"

lemma unescape_octal_length: "length (snd (unescape_octal_digit q)) \<le> length (snd q)"
  by (cases q) (simp add: unescape_octal_digit_def)

lemma unescape_hex_length: "length (snd (unescape_hex ch p)) \<le> length p"
  by (induction ch p rule: unescape_hex.induct) auto

function UnescapeCEscapeSequences :: "bytes \<Rightarrow> bytes" where
  \<comment> \<open>\<open>source\<close> and \<open>dest\<close> are different arrays, as in all callers under \<open>src/\<close>; the result is what was
     stored in \<open>dest\<close> before the NUL. The errors are only logged.\<close>
  "UnescapeCEscapeSequences p =
     (if deref p = 0 then []
      else if deref p \<noteq> 0x5C then deref p # UnescapeCEscapeSequences (tl p)
      else
        let p = tl p; e = deref p; p = tl p in
        if e = 0 then []
        else case simple_unescape e of
          Some c \<Rightarrow> c # UnescapeCEscapeSequences p
        | None \<Rightarrow>
            if is_octal_digit e then
              let (ch, p) = unescape_octal_digit (unescape_octal_digit (e - 0x30, p)) in ch # UnescapeCEscapeSequences p
            else if e = 0x78 \<or> e = 0x58 then
              if \<not> isxdigit (deref p) then UnescapeCEscapeSequences p
              else let (ch, p) = unescape_hex 0 p in ucast ch # UnescapeCEscapeSequences p
            else UnescapeCEscapeSequences p)"
  by auto

lemma deref_length: "deref p \<noteq> 0 \<Longrightarrow> 0 < length p"
  by (cases p) (auto simp: deref_def)

lemma unescape_octals_length: "length (snd (unescape_octal_digit (unescape_octal_digit (c, p)))) \<le> length p"
  using unescape_octal_length [of "unescape_octal_digit (c, p)"] unescape_octal_length [of "(c, p)"] by simp

termination UnescapeCEscapeSequences
proof (relation "measure length", goal_cases)
  case (3 p q e r pair ch s)
  have "length s \<le> length r"
    using 3 unescape_octals_length [of "e - 0x30" r] by (metis snd_conv)
  then show ?case using 3 deref_length [of p] by (cases p) auto
next
  case (5 p q e r pair ch s)
  have "length s \<le> length r"
    using 5 unescape_hex_length [of 0 r] by (metis snd_conv)
  then show ?case using 5 deref_length [of p] by (cases p) auto
qed (use deref_length in auto)

declare UnescapeCEscapeSequences.simps [simp del]

definition UnescapeCEscapeString :: "bytes \<Rightarrow> bytes" where
  "UnescapeCEscapeString src = UnescapeCEscapeSequences src"

end
