(* ===== verification/Token_Values.thy ===== *)
theory Token_Values
  imports Tokenizer C_Strings
begin

text \<open>
  The second half of \<open>io/tokenizer.cc\<close>: the values of tokens, that is \<open>ParseInteger\<close>, \<open>ParseFloat\<close>,
  \<open>ParseStringAppend\<close> with its Unicode escapes, and \<open>IsIdentifier\<close>. A token's text is read through
  \<open>c_str()\<close>, so it ends at its first NUL; a pointer into it is what it points to.
\<close>

section \<open>Numbers\<close>

fun ParseInteger_loop :: "int \<Rightarrow> uint64 \<Rightarrow> bytes \<Rightarrow> uint64 \<Rightarrow> uint64 option" where
  "ParseInteger_loop base max_value [] result = Some result"
| "ParseInteger_loop base max_value (c # ptr) result =
     (if c = 0 then Some result
      else
        let digit = DigitValue c in
        if digit < 0 \<or> digit \<ge> base then None
        else if (word_of_int digit :: uint64) > max_value \<or> result > (max_value - word_of_int digit) div word_of_int base then None
        else ParseInteger_loop base max_value ptr (result * word_of_int base + word_of_int digit))"

definition ParseInteger :: "bytes \<Rightarrow> uint64 \<Rightarrow> uint64 option" where
  \<comment> \<open>\<open>None\<close> is the result false, which leaves \<open>*output\<close> alone.\<close>
  "ParseInteger str max_value =
     (let ptr = str;
          (base, ptr) =
            (if deref ptr = 0x30 then
               (if deref (tl ptr) = 0x78 \<or> deref (tl ptr) = 0x58 then (16, tl (tl ptr)) else (8, ptr))
             else (10, ptr))
      in ParseInteger_loop base max_value ptr 0)"

definition LocalizeRadix :: "bytes \<Rightarrow> bytes \<Rightarrow> nat \<Rightarrow> bytes" where
  \<comment> \<open>\<open>radix\<close> is what \<open>sprintf\<close> puts between the digits of 1.5; \<open>radix_pos\<close> is an offset.\<close>
  "LocalizeRadix radix input radix_pos = take radix_pos input @ radix @ drop (radix_pos + 1) input"

definition NoLocaleStrtod :: "(bytes \<Rightarrow> 'd \<times> nat) \<Rightarrow> bytes \<Rightarrow> bytes \<Rightarrow> 'd \<times> int" where
  \<comment> \<open>\<open>strtod\<close> is the C library's, with the end as an offset; so is the second result.\<close>
  "NoLocaleStrtod strtod radix str =
     (let (result, temp_end) = strtod str in
      if deref (drop temp_end str) \<noteq> 0x2E then (result, int temp_end)
      else
        let localized = LocalizeRadix radix str temp_end;
            (result, localized_end) = strtod localized
        in (result,
            if localized_end > temp_end then int localized_end - (int (length localized) - int (length str)) else int temp_end))"

definition ParseFloat :: "(bytes \<Rightarrow> 'd \<times> nat) \<Rightarrow> bytes \<Rightarrow> bytes \<Rightarrow> 'd \<times> bool" where
  \<comment> \<open>The second result: nothing is logged. The text has no NUL.\<close>
  "ParseFloat strtod radix str =
     (let (result, end_pos) = NoLocaleStrtod strtod radix str;
          at = (\<lambda>i. deref (drop (nat i) str));
          end_pos =
            (if at end_pos = 0x65 \<or> at end_pos = 0x45 then
               let end_pos = end_pos + 1 in if at end_pos = 0x2D \<or> at end_pos = 0x2B then end_pos + 1 else end_pos
             else end_pos);
          end_pos = (if at end_pos = 0x66 \<or> at end_pos = 0x46 then end_pos + 1 else end_pos)
      in (result, \<not> (end_pos \<noteq> int (length str) \<or> deref str = 0x2D)))"

section \<open>Unicode\<close>

definition hex8 :: "uint32 \<Rightarrow> bytes" where
  \<comment> \<open>\<open>%08x\<close> of \<open>StringAppendF\<close>\<close>
  "hex8 w = map (\<lambda>i. hex_digit (unat (drop_bit (4 * i) w AND 0xF))) [7, 6, 5, 4, 3, 2, 1, 0]"

definition network_bytes :: "uint32 \<Rightarrow> bytes" where
  \<comment> \<open>The memory of \<open>ghtonl(tmp)\<close>: the bytes of \<open>tmp\<close>, the most significant first.\<close>
  "network_bytes w = [ucast (drop_bit 24 w), ucast (drop_bit 16 w), ucast (drop_bit 8 w), ucast w]"

definition AppendUTF8 :: "uint32 \<Rightarrow> bytes \<Rightarrow> bytes" where
  "AppendUTF8 code_point output =
     (if code_point > 0x1fffff then output @ [0x5C, 0x55] @ hex8 code_point
      else
        let (tmp, len) =
          (if code_point \<le> 0x7f then (code_point, 1)
           else if code_point \<le> 0x07ff then
             (0x0000c080 OR push_bit 2 (code_point AND 0x07c0) OR (code_point AND 0x003f), 2)
           else if code_point \<le> 0xffff then
             (0x00e08080 OR push_bit 4 (code_point AND 0xf000) OR push_bit 2 (code_point AND 0x0fc0) OR
                (code_point AND 0x003f), 3)
           else
             (0xf0808080 OR push_bit 6 (code_point AND 0x1c0000) OR push_bit 4 (code_point AND 0x03f000) OR
                push_bit 2 (code_point AND 0x000fc0) OR (code_point AND 0x003f), 4))
        in output @ drop (4 - len) (network_bytes tmp))"

fun ReadHexDigits :: "nat \<Rightarrow> bytes \<Rightarrow> uint32 \<Rightarrow> uint32 option" where
  \<comment> \<open>The loop of \<open>ReadHexDigits\<close>, which starts with 0; \<open>None\<close> is false.\<close>
  "ReadHexDigits 0 ptr result = Some result"
| "ReadHexDigits (Suc len) ptr result =
     (if deref ptr = 0 then None
      else ReadHexDigits len (tl ptr) (push_bit 4 result + word_of_int (DigitValue (deref ptr))))"

definition kMinHeadSurrogate :: uint32 where "kMinHeadSurrogate = 0xd800"
definition kMaxHeadSurrogate :: uint32 where "kMaxHeadSurrogate = 0xdc00"
definition kMinTrailSurrogate :: uint32 where "kMinTrailSurrogate = 0xdc00"
definition kMaxTrailSurrogate :: uint32 where "kMaxTrailSurrogate = 0xe000"

definition IsHeadSurrogate :: "uint32 \<Rightarrow> bool" where
  "IsHeadSurrogate code_point \<longleftrightarrow> code_point \<ge> kMinHeadSurrogate \<and> code_point < kMaxHeadSurrogate"

definition IsTrailSurrogate :: "uint32 \<Rightarrow> bool" where
  "IsTrailSurrogate code_point \<longleftrightarrow> code_point \<ge> kMinTrailSurrogate \<and> code_point < kMaxTrailSurrogate"

definition AssembleUTF16 :: "uint32 \<Rightarrow> uint32 \<Rightarrow> uint32" where
  "AssembleUTF16 head_surrogate trail_surrogate =
     0x10000 + (push_bit 10 (head_surrogate - kMinHeadSurrogate) OR (trail_surrogate - kMinTrailSurrogate))"

definition UnicodeLength :: "uint8 \<Rightarrow> nat" where
  "UnicodeLength key = (if key = 0x75 then 4 else if key = 0x55 then 8 else 0)"

definition FetchUnicodePoint :: "bytes \<Rightarrow> (uint32 \<times> bytes) option" where
  \<comment> \<open>The code point and the pointer behind the sequence; \<open>None\<close> where \<open>ptr\<close> itself is returned.\<close>
  "FetchUnicodePoint ptr = do {
     let len = UnicodeLength (deref ptr);
     let p = tl ptr;
     code_point \<leftarrow> (if len = 0 then None else ReadHexDigits len p 0);
     let p = drop len p;
     Some (if IsHeadSurrogate code_point \<and> deref p = 0x5C \<and> deref (tl p) = 0x75 then
             case ReadHexDigits 4 (drop 2 p) 0 of
               None \<Rightarrow> (code_point, p)
             | Some trail_surrogate \<Rightarrow>
                 if IsTrailSurrogate trail_surrogate
                 then (AssembleUTF16 code_point trail_surrogate, drop 6 p) else (code_point, p)
           else (code_point, p))
   }"

section \<open>Strings\<close>

definition parse_octal_digit :: "int \<times> bytes \<Rightarrow> int \<times> bytes" where
  \<comment> \<open>One more octal digit, if there is one; the bytes are those behind \<open>ptr\<close>.\<close>
  "parse_octal_digit q =
     (case q of (code, ptr) \<Rightarrow> if OctalDigit (deref ptr) then (code * 8 + DigitValue (deref ptr), tl ptr) else (code, ptr))"

definition parse_hex_digit :: "int \<times> bytes \<Rightarrow> int \<times> bytes" where
  \<comment> \<open>The first digit of the two is not added to \<open>code * 16\<close>, which is 0.\<close>
  "parse_hex_digit q =
     (case q of (code, ptr) \<Rightarrow> if HexDigit (deref ptr) then (code * 16 + DigitValue (deref ptr), tl ptr) else (code, ptr))"

definition parse_escape :: "bytes \<Rightarrow> bytes \<Rightarrow> bytes \<times> bytes" where
  \<comment> \<open>The body of \<open>An escape sequence\<close>, with \<open>ptr\<close> at the character behind the backslash: the output and
     the pointer for the next round of the loop.\<close>
  "parse_escape ptr output =
     (if OctalDigit (deref ptr) then
        let (code, ptr) = parse_octal_digit (parse_octal_digit (DigitValue (deref ptr), tl ptr))
        in (output @ [word_of_int code], ptr)
      else if deref ptr = 0x78 then
        let (code, ptr) = parse_hex_digit (parse_hex_digit (0, tl ptr)) in (output @ [word_of_int code], ptr)
      else if deref ptr = 0x75 \<or> deref ptr = 0x55 then
        case FetchUnicodePoint ptr of
          None \<Rightarrow> (output @ [deref ptr], tl ptr)
        | Some (unicode, p) \<Rightarrow> (AppendUTF8 unicode output, p)
      else (output @ [TranslateEscape (deref ptr)], tl ptr))"

lemma parse_digit_length:
  "length (snd (parse_octal_digit q)) \<le> length (snd q)" "length (snd (parse_hex_digit q)) \<le> length (snd q)"
  by (cases q; simp add: parse_octal_digit_def parse_hex_digit_def)+

lemma parse_escape_length: "length (snd (parse_escape ptr output)) \<le> length (tl ptr)"
proof -
  have "length (snd (parse_octal_digit (parse_octal_digit (code, tl ptr)))) \<le> length (tl ptr)"
    "length (snd (parse_hex_digit (parse_hex_digit (code, tl ptr)))) \<le> length (tl ptr)" for code
    using parse_digit_length [of "parse_octal_digit (code, tl ptr)"] parse_digit_length [of "(code, tl ptr)"]
      parse_digit_length [of "parse_hex_digit (code, tl ptr)"] by simp_all
  moreover have "FetchUnicodePoint ptr = Some (u, p) \<Longrightarrow> length p \<le> length (tl ptr)" for u p
    by (auto simp: FetchUnicodePoint_def Let_def bind_eq_Some_conv split: if_splits option.splits)
  ultimately show ?thesis
    by (auto simp: parse_escape_def Let_def split_def split: option.split)
qed

function ParseString_loop :: "uint8 \<Rightarrow> bytes \<Rightarrow> bytes \<Rightarrow> bytes" where
  \<comment> \<open>\<open>quote\<close> is \<open>text[0]\<close>.\<close>
  "ParseString_loop quote ptr output =
     (if deref ptr = 0 then output
      else if deref ptr = 0x5C \<and> deref (tl ptr) \<noteq> 0 then
        let (output, ptr) = parse_escape (tl ptr) output in ParseString_loop quote ptr output
      else if deref ptr = quote \<and> deref (tl ptr) = 0 then ParseString_loop quote (tl ptr) output
      else ParseString_loop quote (tl ptr) (output @ [deref ptr]))"
  by auto

lemma deref_tl_length: "deref ptr \<noteq> 0 \<Longrightarrow> length (tl ptr) < length ptr"
  by (cases ptr) (auto simp: deref_def)

termination ParseString_loop
proof (relation "measure (\<lambda>(_, ptr, _). length ptr)", goal_cases)
  case (2 quote ptr out0 pair out1 p)
  then have "length p \<le> length (tl (tl ptr))" using parse_escape_length [of "tl ptr" out0] by (metis snd_conv)
  then show ?case using 2 deref_tl_length [of ptr] by auto
qed (use deref_tl_length in auto)

declare ParseString_loop.simps [simp del]

definition ParseStringAppend :: "bytes \<Rightarrow> bytes \<Rightarrow> bytes" where
  \<comment> \<open>The \<open>reserve\<close> of the output has no effect on its value; an empty text is only logged.\<close>
  "ParseStringAppend str output = (if length str = 0 then output else ParseString_loop (hd str) (tl str) output)"

definition ParseString :: "bytes \<Rightarrow> bytes" where
  "ParseString str = ParseStringAppend str []"

section \<open>Identifiers\<close>

definition IsIdentifier :: "bytes \<Rightarrow> bool" where
  "IsIdentifier str \<longleftrightarrow> length str \<noteq> 0 \<and> Letter (hd str) \<and> list_all Alphanumeric (tl str)"

end
