(* ===== verification/C_Strings_Lemmas.thy ===== *)
theory C_Strings_Lemmas
  imports C_Strings
begin

text \<open>
  The escapers write, without leaving their buffers, what the reference function says, and the unescaper
  undoes all of them.
\<close>

section \<open>What the escapers write\<close>

definition must_escape :: "bool \<Rightarrow> bool \<Rightarrow> uint8 \<Rightarrow> bool" where
  "must_escape utf8_safe last_hex c \<longleftrightarrow> (\<not> utf8_safe \<or> c < 0x80) \<and> (\<not> isprint c \<or> (last_hex \<and> isxdigit c))"

fun escaped :: "bool \<Rightarrow> bool \<Rightarrow> bool \<Rightarrow> bytes \<Rightarrow> bytes" where
  "escaped use_hex utf8_safe last_hex [] = []"
| "escaped use_hex utf8_safe last_hex (c # src) =
     (case short_escape c of
        Some e \<Rightarrow> 0x5C # e # escaped use_hex utf8_safe False src
      | None \<Rightarrow>
          if must_escape utf8_safe last_hex c then sprintf_escape use_hex c @ escaped use_hex utf8_safe use_hex src
          else c # escaped use_hex utf8_safe False src)"

lemma store_ok: "i + length bs \<le> length mem \<Longrightarrow> store mem i bs = Some (mem_write mem i bs)"
  by (simp add: store_def)

lemma take_store: "i + length bs \<le> length mem \<Longrightarrow> take (i + length bs) (mem_write mem i bs) = take i mem @ bs"
  by (simp add: mem_write_def)

lemma length_sprintf_escape [simp]: "length (sprintf_escape h c) = 4"
  by (simp add: sprintf_escape_def)

definition written_to :: "nat \<Rightarrow> bytes \<Rightarrow> bytes \<Rightarrow> bytes \<Rightarrow> bool" where
  \<comment> \<open>In the second array the bytes given follow the first \<open>i\<close> bytes of the first.\<close>
  "written_to i mem bs mem' \<longleftrightarrow> length mem' = length mem \<and> take (i + length bs) mem' = take i mem @ bs"

lemma written_to_step:
  assumes "written_to (i + length as) (mem_write mem i cs) bs mem'" "i + length cs \<le> length mem" "cs = as @ ds"
  shows "written_to i mem (as @ bs) mem'"
  using assms by (simp add: written_to_def mem_write_def add.assoc)

lemma CEscape_loop_ok:
  "used + 4 * length src + 1 \<le> length dest \<Longrightarrow>
   \<exists>dest'. CEscape_loop h u l dest used src = Some (int (used + length (escaped h u l src)), dest') \<and>
     written_to used dest (escaped h u l src) dest'"
proof (induction h u l dest used src rule: CEscape_loop.induct)
  case (1 h u l dest used)
  then show ?case by (auto simp: store_ok written_to_def mem_write_def)
next
  case (2 h u l dest used c src)
  have room: "\<not> length dest - used < 2" "\<not> length dest - used < 4" using "2.prems" by simp_all
  have ih: "used' + 4 * length src + 1 \<le> length (mem_write dest used bs)" if "used' \<le> used + 4" "used + length bs \<le> length dest" for used' bs
    using that "2.prems" by simp
  show ?case
  proof (cases "short_escape c")
    case (Some e)
    have fits: "used + length [0x5C, e] \<le> length dest" using "2.prems" by simp
    from "2.IH"(3) [OF room(1) Some store_ok [OF fits] ih [OF _ fits]]
    obtain dest' where "CEscape_loop h u False (mem_write dest used [0x5C, e]) (used + 2) src =
        Some (int (used + 2 + length (escaped h u False src)), dest')"
      "written_to (used + 2) (mem_write dest used [0x5C, e]) (escaped h u False src) dest'" by auto
    then show ?thesis
      using room Some fits written_to_step [of used "[0x5C, e]" dest "[0x5C, e]"] by (auto simp: store_ok)
  next
    case None
    show ?thesis
    proof (cases "must_escape u l c")
      case True
      let ?bs = "sprintf_escape h c"
      have fits: "used + length (?bs @ [0]) \<le> length dest" using "2.prems" by simp
      from "2.IH"(1) [OF room(1) None True [unfolded must_escape_def] room(2) store_ok [OF fits] ih [OF _ fits]]
      obtain dest' where "CEscape_loop h u h (mem_write dest used (?bs @ [0])) (used + 4) src =
          Some (int (used + 4 + length (escaped h u h src)), dest')"
        "written_to (used + 4) (mem_write dest used (?bs @ [0])) (escaped h u h src) dest'" by auto
      then show ?thesis
        using room None True fits written_to_step [of used ?bs dest "?bs @ [0]"] by (auto simp: store_ok must_escape_def)
    next
      case False
      have fits: "used + length [c] \<le> length dest" using "2.prems" by simp
      from "2.IH"(2) [OF room(1) None False [unfolded must_escape_def] store_ok [OF fits] ih [OF _ fits]]
      obtain dest' where "CEscape_loop h u False (mem_write dest used [c]) (used + 1) src =
          Some (int (used + 1 + length (escaped h u False src)), dest')"
        "written_to (used + 1) (mem_write dest used [c]) (escaped h u False src) dest'" by auto
      then show ?thesis
        using room None False fits written_to_step [of used "[c]" dest "[c]"] by (auto simp: store_ok must_escape_def)
    qed
  qed
qed

lemma escaped_array:
  assumes "4 * length src + 1 \<le> length dest"
  shows "\<exists>dest'. CEscapeInternal src dest h u = Some (int (length (escaped h u False src)), dest') \<and>
    length dest' = length dest \<and> mem_read dest' 0 (int (length (escaped h u False src))) = Some (escaped h u False src)"
proof -
  obtain dest' where d: "CEscapeInternal src dest h u = Some (int (length (escaped h u False src)), dest')"
      "length dest' = length dest" "take (length (escaped h u False src)) dest' = escaped h u False src"
    using CEscape_loop_ok [of 0 src dest h u False] assms by (auto simp: CEscapeInternal_def written_to_def)
  moreover have "length (escaped h u False src) \<le> length dest'"
    using arg_cong [OF d(3), of length] by simp
  ultimately show ?thesis by (simp add: mem_read_def)
qed

lemma Utf8SafeCEscape_eq: "Utf8SafeCEscape src = Some (escaped False True False src)"
  using escaped_array [of src "replicate (length src * 4 + 1) 0" False True] by (auto simp: Utf8SafeCEscape_def)

lemma CHexEscape_eq: "CHexEscape src = Some (escaped True False False src)"
  using escaped_array [of src "replicate (length src * 4 + 1) 0" True False] by (auto simp: CHexEscape_def)

section \<open>The table of lengths\<close>

definition escaped_len :: "uint8 \<Rightarrow> nat" where
  "escaped_len c = (if short_escape c \<noteq> None then 2 else if isprint c then 1 else 4)"

lemma escaped_len_table: "c_escaped_len ! unat c = escaped_len c"
proof -
  have "list_all (\<lambda>k. c_escaped_len ! k = escaped_len (word_of_nat k)) [0..<256]"
    by code_simp
  then have "c_escaped_len ! k = escaped_len (word_of_nat k)" if "k < 256" for k
    using that by (simp add: list_all_iff)
  moreover have "unat c < 256" by (rule unat_less_256)
  ultimately show ?thesis by simp
qed

lemma octal_bytes: "[0x5C, 0x30 + c div 64, 0x30 + c mod 64 div 8, 0x30 + c mod 8] = sprintf_escape False c" for c :: uint8
proof -
  have "unat c < 256" by (rule unat_less_256)
  then have "unat c div 64 < 10" "unat c div 8 mod 8 < 10" "unat c mod 8 < 10" by simp_all
  moreover have "unat c mod 64 div 8 = unat c div 8 mod 8"
    using mod_mult2_eq [of "unat c" 8 8] by simp
  moreover have "unat (word_of_nat (unat c mod 64) :: uint8) = unat c mod 64"
    by (simp add: unat_of_nat)
  ultimately show ?thesis
    by (simp add: sprintf_escape_def hex_digit_def word_arith_nat_div word_arith_nat_mod unat_word_ariths)
qed

lemma length_escaped: "length (escaped False False False src) = sum_list (map escaped_len src)"
  by (induction src) (auto simp: escaped_len_def must_escape_def split: option.split)

lemma CEscapedLength_eq: "CEscapedLength src = length (escaped False False False src)"
proof -
  have "fold (\<lambda>c n. n + c_escaped_len ! unat c) src n = n + sum_list (map escaped_len src)" for n
    by (induction src arbitrary: n) (simp_all add: escaped_len_table)
  then show ?thesis by (simp add: CEscapedLength_def length_escaped)
qed

lemma CEscapeAndAppend_loop_ok:
  "length dest = i + length (escaped False False False src) \<Longrightarrow>
   CEscapeAndAppend_loop dest i src = Some (take i dest @ escaped False False False src)"
proof (induction dest i src rule: CEscapeAndAppend_loop.induct)
  case (2 dest i c src)
  have step: "CEscapeAndAppend_loop (mem_write dest i bs) (i + length bs) src = Some (take i dest @ bs @ escaped False False False src)"
    if "length dest = i + length bs + length (escaped False False False src)"
      "length (mem_write dest i bs) = i + length bs + length (escaped False False False src) \<Longrightarrow>
       CEscapeAndAppend_loop (mem_write dest i bs) (i + length bs) src =
         Some (take (i + length bs) (mem_write dest i bs) @ escaped False False False src)" for bs
    using that by (simp add: take_store)
  show ?case
    using "2.prems" "2.IH" step [of "[0x5C, the (short_escape c)]"] step [of "[c]"] step [of "sprintf_escape False c"]
    by (cases "short_escape c") (auto simp: store_ok must_escape_def octal_bytes)
qed simp

lemma escaped_len_pos: "1 \<le> escaped_len c"
  by (simp add: escaped_len_def)

lemma escaped_id: "length (escaped False False False src) = length src \<Longrightarrow> escaped False False False src = src"
proof (induction src)
  case (Cons c src)
  have "length src \<le> sum_list (map escaped_len src)"
    by (induction src) (use escaped_len_pos in \<open>auto intro: add_le_mono [of 1, simplified]\<close>)
  then have "escaped_len c = 1" "length (escaped False False False src) = length src"
    using Cons.prems escaped_len_pos [of c] unfolding length_escaped by auto
  then show ?case
    using Cons.IH by (auto simp: escaped_len_def must_escape_def split: if_splits option.splits)
qed simp

lemma CEscapeAndAppend_eq: "CEscapeAndAppend src dest = Some (dest @ escaped False False False src)"
  using CEscapeAndAppend_loop_ok [of "dest @ replicate (CEscapedLength src) 0" "length dest" src]
  by (simp add: CEscapeAndAppend_def Let_def CEscapedLength_eq escaped_id)

lemma CEscape_eq: "CEscape src = Some (escaped False False False src)"
  by (simp add: CEscape_def CEscapeAndAppend_eq)

section \<open>Unescaping what was escaped\<close>

lemma deref_Cons [simp]: "deref (c # p) = c" "deref [] = 0"
  by (simp_all add: deref_def)

lemma unescape_plain: "c \<noteq> 0 \<Longrightarrow> c \<noteq> 0x5C \<Longrightarrow> UnescapeCEscapeSequences (c # p) = c # UnescapeCEscapeSequences p"
  by (subst UnescapeCEscapeSequences.simps) simp

lemma unescape_short: "short_escape c = Some e \<Longrightarrow> UnescapeCEscapeSequences (0x5C # e # p) = c # UnescapeCEscapeSequences p"
  by (subst UnescapeCEscapeSequences.simps) (auto simp: short_escape_def simple_unescape_def Let_def split: if_splits)

lemma octal_digit: "n < 8 \<Longrightarrow> is_octal_digit (hex_digit n) \<and> simple_unescape (hex_digit n) = None \<and> hex_digit n \<noteq> 0 \<and>
    hex_digit n - 0x30 = of_nat n"
proof -
  have "list_all (\<lambda>n. is_octal_digit (hex_digit n) \<and> simple_unescape (hex_digit n) = None \<and> hex_digit n \<noteq> 0 \<and>
    hex_digit n - 0x30 = of_nat n) [0..<8]" by code_simp
  then show "n < 8 \<Longrightarrow> is_octal_digit (hex_digit n) \<and> simple_unescape (hex_digit n) = None \<and> hex_digit n \<noteq> 0 \<and>
    hex_digit n - 0x30 = of_nat n" by (simp add: list_all_iff)
qed

lemma hex_digit_value: "n < 16 \<Longrightarrow> isxdigit (hex_digit n) \<and> hex_digit_to_int (hex_digit n) = int n"
proof -
  have "list_all (\<lambda>n. isxdigit (hex_digit n) \<and> hex_digit_to_int (hex_digit n) = int n) [0..<16]" by code_simp
  then show "n < 16 \<Longrightarrow> isxdigit (hex_digit n) \<and> hex_digit_to_int (hex_digit n) = int n" by (simp add: list_all_iff)
qed

lemma octal_digits_value: "(of_nat (unat c div 64) * 8 + of_nat (unat c div 8 mod 8)) * 8 + of_nat (unat c mod 8) = (c :: uint8)"
proof -
  have "(k div 64 * 8 + k div 8 mod 8) * 8 + k mod 8 = k" for k :: nat
    using div_mult2_eq [of k 8 8] by simp
  then have "(of_nat ((unat c div 64 * 8 + unat c div 8 mod 8) * 8 + unat c mod 8) :: uint8) = c" by simp
  then show ?thesis by (simp only: of_nat_add of_nat_mult of_nat_numeral)
qed

lemma unescape_octal: "UnescapeCEscapeSequences (sprintf_escape False c @ p) = c # UnescapeCEscapeSequences p"
proof -
  let ?k = "unat c"
  have d: "?k div 64 < 8" "?k div 8 mod 8 < 8" "?k mod 8 < 8" using unat_less_256 [of c] by simp_all
  note digits = d [THEN octal_digit]
  have digit_value: "hex_digit n - 0x30 = (of_nat n :: uint8)" if "n < 8" for n
    using octal_digit [OF that] by simp
  have "(of_nat (?k div 64) * 8 + hex_digit (?k div 8 mod 8) - 0x30) * 8 + hex_digit (?k mod 8) - 0x30 =
      (of_nat (?k div 64) * 8 + of_nat (?k div 8 mod 8)) * 8 + (of_nat (?k mod 8) :: uint8)"
    by (simp only: add_diff_eq [symmetric] digit_value [OF d(2)] digit_value [OF d(3)])
  also have "\<dots> = c"
    by (rule octal_digits_value)
  finally have "unescape_octal_digit (unescape_octal_digit (hex_digit (?k div 64) - 0x30,
      hex_digit (?k div 8 mod 8) # hex_digit (?k mod 8) # p)) = (c, p)"
    using digits by (simp add: unescape_octal_digit_def)
  then show ?thesis
    using digits by (subst UnescapeCEscapeSequences.simps) (simp add: sprintf_escape_def Let_def)
qed

lemma unescape_hex_stop: "\<not> isxdigit (deref p) \<Longrightarrow> unescape_hex ch p = (ch, p)"
  by (cases p) auto

lemma unescape_hex_byte:
  assumes "\<not> isxdigit (deref p)"
  shows "UnescapeCEscapeSequences (sprintf_escape True c @ p) = c # UnescapeCEscapeSequences p"
proof -
  let ?k = "unat c"
  have d: "?k div 16 < 16" "?k mod 16 < 16" using unat_less_256 [of c] by simp_all
  note digits = d [THEN hex_digit_value]
  have "push_bit 4 (of_nat (?k div 16)) + of_nat (?k mod 16) = (of_nat (?k div 16 * 16 + ?k mod 16) :: uint32)"
    by (simp only: push_bit_eq_mult of_nat_add of_nat_mult of_nat_numeral) simp
  also have "\<dots> = ucast c" by simp
  finally have "unescape_hex 0 (hex_digit (?k div 16) # hex_digit (?k mod 16) # p) = (ucast c, p)"
    using digits unescape_hex_stop [OF assms] by simp
  moreover have "ucast (ucast c :: uint32) = c"
    by (rule bit_word_eqI) (simp add: bit_simps)
  ultimately show ?thesis
    using digits by (subst UnescapeCEscapeSequences.simps) (simp add: sprintf_escape_def Let_def simple_unescape_def is_octal_digit_def)
qed

lemma escaped_hex_end: "\<not> isxdigit (deref (escaped True u True src))"
  by (cases src) (auto simp: must_escape_def sprintf_escape_def isxdigit_def isprint_def word_le_nat_alt word_less_nat_alt split: option.split)

lemma unescape_escaped:
  "(l \<Longrightarrow> h) \<Longrightarrow> UnescapeCEscapeSequences (escaped h u l src) = src"
proof (induction src arbitrary: l)
  case (Cons c src)
  have "must_escape u l 0" by (simp add: must_escape_def isprint_def)
  then have "c \<noteq> 0" "c \<noteq> 0x5C" if "\<not> must_escape u l c" "short_escape c = None"
    using that by (auto simp: short_escape_def)
  then show ?case
    using Cons.IH [of False] Cons.IH [of h] unescape_octal [of c] unescape_hex_byte [OF escaped_hex_end, of c u src]
    by (cases h) (auto simp: unescape_short unescape_plain split: option.split)
qed (subst UnescapeCEscapeSequences.simps, simp)

lemma unescape_length: "length (UnescapeCEscapeSequences p) \<le> length p"
proof (induction "length p" arbitrary: p rule: less_induct)
  case less
  have ih: "length (UnescapeCEscapeSequences q) < length p" if "length q < length p" for q
    using less [OF that] that by simp
  show ?case
  proof (cases "deref p = 0")
    case True
    then show ?thesis by (subst UnescapeCEscapeSequences.simps) simp
  next
    case False
    then have p: "length (tl p) < length p" using deref_length [of p] by simp
    define r where "r = tl (tl p)"
    have r: "length r < length p" using p by (simp add: r_def)
    have "length (UnescapeCEscapeSequences (snd (unescape_octal_digit (unescape_octal_digit (c, r))))) < length p" for c
      by (rule ih) (use unescape_octals_length [of c r] r in simp)
    moreover have "length (UnescapeCEscapeSequences (snd (unescape_hex 0 r))) < length p"
      by (rule ih) (use unescape_hex_length [of 0 r] r in simp)
    ultimately show ?thesis
      using False ih [OF p] ih [OF r]
      by (subst UnescapeCEscapeSequences.simps)
        (auto simp: Let_def split_def Suc_le_eq less_imp_le simp flip: r_def split: option.split)
  qed
qed

end
