(* ===== verification/Token_Values_Lemmas.thy ===== *)
theory Token_Values_Lemmas
  imports Token_Values C_Strings_Lemmas Utf8_Encoding
begin

text \<open>
  The values of tokens: integers against their value as numbers, UTF-8 against the encoding of code
  points, strings against the escapers.
\<close>

section \<open>Integers\<close>

definition digits_value :: "int \<Rightarrow> int \<Rightarrow> bytes \<Rightarrow> int" where
  "digits_value base v ds = foldl (\<lambda>v d. v * base + DigitValue d) v ds"

definition valid_digits :: "int \<Rightarrow> bytes \<Rightarrow> bool" where
  "valid_digits base ds \<longleftrightarrow> list_all (\<lambda>d. 0 \<le> DigitValue d \<and> DigitValue d < base) ds"

lemma digits_value_le: "valid_digits base ds \<Longrightarrow> 0 \<le> v \<Longrightarrow> 1 \<le> base \<Longrightarrow> v \<le> digits_value base v ds"
proof (induction ds arbitrary: v)
  case (Cons d ds)
  have "v * 1 \<le> v * base" using Cons.prems by (intro mult_left_mono) auto
  then have "v \<le> v * base + DigitValue d" "0 \<le> v * base + DigitValue d" using Cons.prems by (auto simp: valid_digits_def)
  with Cons.IH [of "v * base + DigitValue d"] Cons.prems show ?case
    by (simp add: digits_value_def valid_digits_def)
qed (simp add: digits_value_def)

lemma int_div_less_iff: "x div b < n \<longleftrightarrow> x < n * b" if "0 < b" for x b n :: int
proof -
  have x: "x div b * b \<le> x" "x < x div b * b + b"
    using pos_mod_bound [OF that, of x] pos_mod_sign [OF that, of x] div_mult_mod_eq [of x b] by linarith+
  have "x div b * b + b \<le> n * b" if "x div b < n"
    using mult_right_mono [of "x div b + 1" n b] that \<open>0 < b\<close> by (simp add: distrib_right)
  moreover have "n * b \<le> x" if "n \<le> x div b"
    by (rule order_trans [OF mult_right_mono x(1)]) (use that \<open>0 < b\<close> in simp_all)
  ultimately show ?thesis using x by (cases "x div b < n") (auto simp: not_less dest: order_trans)
qed

lemma overflow_check:
  fixes max_value result :: uint64
  assumes "0 \<le> d" "d < base" "base \<le> 16"
  shows "(word_of_int d :: uint64) > max_value \<or> result > (max_value - word_of_int d) div word_of_int base \<longleftrightarrow>
    uint max_value < uint result * base + d"
proof -
  have w: "uint (word_of_int d :: uint64) = d" "uint (word_of_int base :: uint64) = base"
    using assms by (simp_all add: uint_word_of_int)
  show ?thesis
  proof (cases "d \<le> uint max_value")
    case True
    then have "uint (max_value - word_of_int d) = uint max_value - d"
      using w(1) by (simp add: uint_sub_if')
    then have "uint ((max_value - word_of_int d) div word_of_int base) = (uint max_value - d) div base"
      using w(2) by (simp add: uint_div)
    moreover have "(uint max_value - d) div base < uint result \<longleftrightarrow> uint max_value - d < uint result * base"
      by (rule int_div_less_iff) (use assms in simp)
    ultimately show ?thesis
      using True w(1) by (auto simp: word_less_def)
  next
    case False
    have "0 \<le> uint result * base" using assms by simp
    then show ?thesis
      using False w(1) by (auto simp: word_less_def)
  qed
qed

lemma ParseInteger_loop_ok:
  assumes "1 < base" "base \<le> 16"
  shows "0 \<notin> set ptr \<Longrightarrow> uint result \<le> uint max_value \<Longrightarrow>
    ParseInteger_loop base max_value ptr result =
      (if valid_digits base ptr \<and> digits_value base (uint result) ptr \<le> uint max_value
       then Some (word_of_int (digits_value base (uint result) ptr)) else None)"
proof (induction ptr arbitrary: result)
  case (Cons c ptr)
  let ?d = "DigitValue c"
  show ?case
  proof (cases "0 \<le> ?d \<and> ?d < base")
    case True
    let ?r = "result * word_of_int base + word_of_int ?d"
    have check: "(word_of_int ?d :: uint64) > max_value \<or> result > (max_value - word_of_int ?d) div word_of_int base \<longleftrightarrow>
        uint max_value < uint result * base + ?d"
      by (rule overflow_check) (use True assms in auto)
    show ?thesis
    proof (cases "uint max_value < uint result * base + ?d")
      case over: True
      have "0 \<le> uint result * base + ?d" using True assms by simp
      then have "uint max_value < digits_value base (uint result * base + ?d) ptr" if "valid_digits base ptr"
        using digits_value_le [OF that, of "uint result * base + ?d"] over assms by simp
      then show ?thesis
        using over check Cons.prems(1) True by (auto simp: Let_def digits_value_def valid_digits_def)
    next
      case False
      have "uint result * base + ?d < 2 ^ 64" using False uint_lt2p [of max_value] by simp
      moreover have "0 \<le> uint result * base + ?d" using True assms by simp
      moreover have "?r = word_of_int (uint result * base + ?d)" by simp
      ultimately have r: "uint ?r = uint result * base + ?d"
        by (simp only: uint_word_of_int) simp
      have "ParseInteger_loop base max_value ptr ?r =
          (if valid_digits base ptr \<and> digits_value base (uint ?r) ptr \<le> uint max_value
           then Some (word_of_int (digits_value base (uint ?r) ptr)) else None)"
        by (rule Cons.IH) (use Cons.prems r False in auto)
      then show ?thesis
        using False check Cons.prems(1) True r by (simp add: Let_def digits_value_def valid_digits_def)
    qed
  next
    case False
    then show ?thesis
      using Cons.prems by (auto simp: Let_def valid_digits_def)
  qed
qed (simp add: digits_value_def valid_digits_def)

definition integer_literal :: "bytes \<Rightarrow> int \<times> bytes" where
  \<comment> \<open>The base of a literal, and its digits.\<close>
  "integer_literal str =
     (case str of
        c # d # ds \<Rightarrow> if c = 0x30 then if d = 0x78 \<or> d = 0x58 then (16, ds) else (8, str) else (10, str)
      | _ \<Rightarrow> if str = [0x30] then (8, str) else (10, str))"

lemma ParseInteger_ok:
  assumes "0 \<notin> set str"
  shows "ParseInteger str max_value =
    (case integer_literal str of (base, ds) \<Rightarrow>
       if valid_digits base ds \<and> digits_value base 0 ds \<le> uint max_value
       then Some (word_of_int (digits_value base 0 ds)) else None)"
proof -
  obtain base ds where lit: "integer_literal str = (base, ds)" by fastforce
  then have b: "1 < base" "base \<le> 16" "set ds \<subseteq> set str"
    by (auto simp: integer_literal_def split: list.splits if_splits)
  have zero: "0 \<notin> set ds" using b(3) assms by blast
  have "ParseInteger str max_value = ParseInteger_loop base max_value ds 0"
    using lit by (auto simp: integer_literal_def ParseInteger_def deref_def split: list.splits if_splits)
  then show ?thesis
    using ParseInteger_loop_ok [OF b(1,2), of ds 0 max_value] zero by (simp add: lit)
qed

section \<open>UTF-8\<close>

lemma byte_bits: "a = b \<longleftrightarrow> (bit a 0 = bit b 0) \<and> (bit a 1 = bit b 1) \<and> (bit a 2 = bit b 2) \<and> (bit a 3 = bit b 3) \<and>
    (bit a 4 = bit b 4) \<and> (bit a 5 = bit b 5) \<and> (bit a 6 = bit b 6) \<and> (bit a 7 = bit b 7)" for a b :: uint8
proof (intro iffI conjI)
  assume bits: "(bit a 0 = bit b 0) \<and> (bit a 1 = bit b 1) \<and> (bit a 2 = bit b 2) \<and> (bit a 3 = bit b 3) \<and>
    (bit a 4 = bit b 4) \<and> (bit a 5 = bit b 5) \<and> (bit a 6 = bit b 6) \<and> (bit a 7 = bit b 7)"
  show "a = b"
  proof (rule bit_word_eqI)
    fix n assume "n < LENGTH(8)"
    then have "n = 0 \<or> n = 1 \<or> n = 2 \<or> n = 3 \<or> n = 4 \<or> n = 5 \<or> n = 6 \<or> n = 7" by simp presburger
    then show "bit a n = bit b n" using bits by (elim disjE) simp_all
  qed
qed auto

lemma cont_byte: "(of_nat (0x80 + n mod 64) :: uint8) = 0x80 OR (of_nat n AND 0x3F)"
proof -
  have "list_all (\<lambda>m. (of_nat (0x80 + m) :: uint8) = 0x80 OR of_nat m) [0..<64]" by code_simp
  then have "(of_nat (0x80 + n mod 64) :: uint8) = 0x80 OR of_nat (n mod 64)" by (simp add: list_all_iff)
  moreover have "(of_nat (n mod 64) :: uint8) = of_nat n AND 0x3F"
  proof -
    have "take_bit 6 n = n mod 64" "take_bit 6 (of_nat n :: uint8) = of_nat n AND 0x3F"
      by (simp add: take_bit_eq_mod) (simp add: take_bit_eq_mask mask_eq_exp_minus_1)
    then show ?thesis by (metis of_nat_take_bit)
  qed
  ultimately show ?thesis by simp
qed

lemma lead_byte:
  "n < 32 \<Longrightarrow> (of_nat (0xC0 + n) :: uint8) = 0xC0 OR of_nat n" "n < 16 \<Longrightarrow> (of_nat (0xE0 + n) :: uint8) = 0xE0 OR of_nat n"
  "n < 8 \<Longrightarrow> (of_nat (0xF0 + n) :: uint8) = 0xF0 OR of_nat n"
proof -
  have "list_all (\<lambda>m. (of_nat (0xC0 + m) :: uint8) = 0xC0 OR of_nat m) [0..<32]"
    "list_all (\<lambda>m. (of_nat (0xE0 + m) :: uint8) = 0xE0 OR of_nat m) [0..<16]"
    "list_all (\<lambda>m. (of_nat (0xF0 + m) :: uint8) = 0xF0 OR of_nat m) [0..<8]" by code_simp+
  then show "n < 32 \<Longrightarrow> (of_nat (0xC0 + n) :: uint8) = 0xC0 OR of_nat n" "n < 16 \<Longrightarrow> (of_nat (0xE0 + n) :: uint8) = 0xE0 OR of_nat n"
    "n < 8 \<Longrightarrow> (of_nat (0xF0 + n) :: uint8) = 0xF0 OR of_nat n" by (simp_all add: list_all_iff)
qed

lemma of_nat_div_word: "(of_nat (unat w div 2 ^ n) :: uint8) = ucast (drop_bit n w)" for w :: uint32
proof -
  have "unat w div 2 ^ n = unat (drop_bit n w)"
    using drop_bit_eq_div [of n "unat w"] by (simp add: unat_drop_bit_eq)
  then show ?thesis by simp
qed

lemma high_bits_zero:
  fixes w :: uint32
  assumes "unat w < 2 ^ n" "n \<le> k"
  shows "\<not> bit w k"
proof -
  have "unat (drop_bit n w) = 0" using drop_bit_eq_div [of n "unat w"] assms(1) by (simp add: unat_drop_bit_eq)
  then have "drop_bit n w = 0" by (simp add: unat_eq_0)
  then have "\<not> bit (drop_bit n w) (k - n)" by simp
  then show ?thesis using assms(2) by (simp add: bit_drop_bit_eq)
qed

lemma utf8_bytes:
  fixes w :: uint32
  shows "unat w < 0x80 \<Longrightarrow> utf8_encode (unat w) = [ucast w]"
    "\<not> unat w < 0x80 \<Longrightarrow> unat w < 0x800 \<Longrightarrow>
       utf8_encode (unat w) = [0xC0 OR ucast (drop_bit 6 w), 0x80 OR (ucast w AND 0x3F)]"
    "\<not> unat w < 0x800 \<Longrightarrow> unat w < 0x10000 \<Longrightarrow>
       utf8_encode (unat w) = [0xE0 OR ucast (drop_bit 12 w), 0x80 OR (ucast (drop_bit 6 w) AND 0x3F), 0x80 OR (ucast w AND 0x3F)]"
    "\<not> unat w < 0x10000 \<Longrightarrow> unat w < 0x200000 \<Longrightarrow>
       utf8_encode (unat w) = [0xF0 OR ucast (drop_bit 18 w), 0x80 OR (ucast (drop_bit 12 w) AND 0x3F),
         0x80 OR (ucast (drop_bit 6 w) AND 0x3F), 0x80 OR (ucast w AND 0x3F)]"
proof -
  note words = of_nat_div_word [of w 6, simplified] of_nat_div_word [of w 12, simplified] of_nat_div_word [of w 18, simplified]
  show "utf8_encode (unat w) = [ucast w]" if "unat w < 0x80"
    using that by (simp add: utf8_encode_def)
  show "utf8_encode (unat w) = [0xC0 OR ucast (drop_bit 6 w), 0x80 OR (ucast w AND 0x3F)]"
    if c: "\<not> unat w < 0x80" "unat w < 0x800"
  proof -
    have "unat w div 64 < 32" using c by simp
    then show ?thesis using c by (simp only: utf8_encode_def if_True if_False cont_byte lead_byte words) simp
  qed
  show "utf8_encode (unat w) = [0xE0 OR ucast (drop_bit 12 w), 0x80 OR (ucast (drop_bit 6 w) AND 0x3F), 0x80 OR (ucast w AND 0x3F)]"
    if c: "\<not> unat w < 0x800" "unat w < 0x10000"
  proof -
    have "unat w div 4096 < 16" "\<not> unat w < 0x80" using c by simp_all
    then show ?thesis using c by (simp only: utf8_encode_def if_True if_False cont_byte lead_byte words) simp
  qed
  show "utf8_encode (unat w) = [0xF0 OR ucast (drop_bit 18 w), 0x80 OR (ucast (drop_bit 12 w) AND 0x3F),
         0x80 OR (ucast (drop_bit 6 w) AND 0x3F), 0x80 OR (ucast w AND 0x3F)]"
    if c: "\<not> unat w < 0x10000" "unat w < 0x200000"
  proof -
    have "unat w div 262144 < 8" "\<not> unat w < 0x80" "\<not> unat w < 0x800" using c by simp_all
    then show ?thesis using c by (simp only: utf8_encode_def if_True if_False cont_byte lead_byte words) simp
  qed
qed

lemma AppendUTF8_ok:
  assumes "unat w < 0x200000"
  shows "AppendUTF8 w out = out @ utf8_encode (unat w)"
proof -
  have le: "w \<le> 0x7f \<longleftrightarrow> unat w < 0x80" "w \<le> 0x7ff \<longleftrightarrow> unat w < 0x800" "w \<le> 0xffff \<longleftrightarrow> unat w < 0x10000"
    "w > 0x1fffff \<longleftrightarrow> \<not> unat w < 0x200000"
    by (auto simp: word_le_nat_alt word_less_nat_alt)
  note zero = high_bits_zero [of w]
  consider "unat w < 0x80" | "\<not> unat w < 0x80" "unat w < 0x800" | "\<not> unat w < 0x80" "\<not> unat w < 0x800" "unat w < 0x10000"
    | "\<not> unat w < 0x80" "\<not> unat w < 0x800" "\<not> unat w < 0x10000" by blast
  then show ?thesis
  proof cases
    case 1
    then show ?thesis using assms by (simp add: AppendUTF8_def le network_bytes_def utf8_bytes)
  next
    case 2
    have "bit w 11 = False" "bit w 12 = False" "bit w 13 = False" using zero [of 11] 2 by simp_all
    then show ?thesis
      using assms 2 by (simp add: AppendUTF8_def le network_bytes_def utf8_bytes byte_bits bit_simps)
  next
    case 3
    have "bit w 16 = False" "bit w 17 = False" "bit w 18 = False" "bit w 19 = False" using zero [of 16] 3 by simp_all
    then show ?thesis
      using assms 3 by (simp add: AppendUTF8_def le network_bytes_def utf8_bytes byte_bits bit_simps)
  next
    case 4
    have "bit w 21 = False" "bit w 22 = False" "bit w 23 = False" "bit w 24 = False" "bit w 25 = False"
      using zero [of 21] assms by simp_all
    then show ?thesis
      using assms 4 by (simp add: AppendUTF8_def le network_bytes_def utf8_bytes byte_bits bit_simps)
  qed
qed

section \<open>Unicode escapes\<close>

definition hex4 :: "nat \<Rightarrow> bytes" where
  "hex4 n = [hex_digit (n div 4096), hex_digit (n div 256 mod 16), hex_digit (n div 16 mod 16), hex_digit (n mod 16)]"

definition utf16_escapes :: "nat \<Rightarrow> bytes" where
  \<comment> \<open>A code point as one or two \<open>\u\<close> escapes.\<close>
  "utf16_escapes c =
     (if c < 0x10000 then [0x5C, 0x75] @ hex4 c
      else [0x5C, 0x75] @ hex4 (0xD800 + (c - 0x10000) div 1024) @ [0x5C, 0x75] @ hex4 (0xDC00 + (c - 0x10000) mod 1024))"

lemma hex_digit_DigitValue: "n < 16 \<Longrightarrow> DigitValue (hex_digit n) = int n \<and> hex_digit n \<noteq> 0"
proof -
  have "list_all (\<lambda>n. DigitValue (hex_digit n) = int n \<and> hex_digit n \<noteq> 0) [0..<16]" by code_simp
  then show "n < 16 \<Longrightarrow> DigitValue (hex_digit n) = int n \<and> hex_digit n \<noteq> 0" by (simp add: list_all_iff)
qed

lemma ReadHexDigits_step:
  "n < 16 \<Longrightarrow> ReadHexDigits (Suc len) (hex_digit n # p) (of_nat r) = ReadHexDigits len p (of_nat (r * 16 + n))"
  using hex_digit_DigitValue [of n] by (simp add: push_bit_eq_mult mult.commute)

lemma ReadHexDigits_four:
  assumes "a < 16" "b < 16" "c < 16" "d < 16"
  shows "ReadHexDigits 4 (hex_digit a # hex_digit b # hex_digit c # hex_digit d # p) 0 =
    Some (of_nat (((a * 16 + b) * 16 + c) * 16 + d))"
proof -
  have "ReadHexDigits (Suc (Suc (Suc (Suc 0)))) (hex_digit a # hex_digit b # hex_digit c # hex_digit d # p) (of_nat 0) =
      Some (of_nat ((((0 * 16 + a) * 16 + b) * 16 + c) * 16 + d))"
    by (simp only: ReadHexDigits_step [OF assms(1)] ReadHexDigits_step [OF assms(2)] ReadHexDigits_step [OF assms(3)]
        ReadHexDigits_step [OF assms(4)] ReadHexDigits.simps(1))
  moreover have "Suc (Suc (Suc (Suc 0))) = 4" by simp
  ultimately show ?thesis by (simp only: semiring_1_class.of_nat_0 mult_zero_left add_0)
qed

lemma ReadHexDigits_hex4:
  assumes "n < 0x10000"
  shows "ReadHexDigits 4 (hex4 n @ p) 0 = Some (of_nat n)"
proof -
  have d: "n div 4096 < 16" "n div 256 mod 16 < 16" "n div 16 mod 16 < 16" "n mod 16 < 16" using assms by simp_all
  have "((n div 4096 * 16 + n div 256 mod 16) * 16 + n div 16 mod 16) * 16 + n mod 16 = n"
    using div_mult2_eq [of n 256 16] div_mult2_eq [of n 16 16] by simp
  then show ?thesis using ReadHexDigits_four [OF d] by (simp add: hex4_def)
qed

lemma length_hex4 [simp]: "length (hex4 n) = 4"
  by (simp add: hex4_def)

lemma surrogates:
  assumes "n < 0x100000"
  shows "IsHeadSurrogate (of_nat (0xD800 + n div 1024))" "IsTrailSurrogate (of_nat (0xDC00 + n mod 1024))"
    "AssembleUTF16 (of_nat (0xD800 + n div 1024)) (of_nat (0xDC00 + n mod 1024)) = of_nat (0x10000 + n)"
proof -
  have n: "n div 1024 < 1024" "n mod 1024 < 1024" using assms by simp_all
  have u: "unat (of_nat k :: uint32) = k" if "k < 0x200000" for k
    using that by (simp add: unat_of_nat)
  show "IsHeadSurrogate (of_nat (0xD800 + n div 1024))" "IsTrailSurrogate (of_nat (0xDC00 + n mod 1024))"
    using n u [of "0xD800 + n div 1024"] u [of "0xDC00 + n mod 1024"]
    unfolding IsHeadSurrogate_def IsTrailSurrogate_def kMinHeadSurrogate_def kMaxHeadSurrogate_def kMinTrailSurrogate_def
      kMaxTrailSurrogate_def word_le_nat_alt word_less_nat_alt by (simp_all del: of_nat_add)
  have "push_bit 10 (of_nat (n div 1024)) OR of_nat (n mod 1024) = (of_nat n :: uint32)"
  proof -
    have "push_bit 10 (n div 1024) OR (n mod 1024) = n"
      by (rule bit_eqI) (auto simp: bit_simps drop_bit_eq_div [of 10, simplified, symmetric] take_bit_eq_mod [of 10, simplified, symmetric])
    then show ?thesis by (metis of_nat_or_eq of_nat_push_bit)
  qed
  then show "AssembleUTF16 (of_nat (0xD800 + n div 1024)) (of_nat (0xDC00 + n mod 1024)) = of_nat (0x10000 + n)"
    by (simp add: AssembleUTF16_def kMinHeadSurrogate_def kMinTrailSurrogate_def)
qed

lemma FetchUnicodePoint_short:
  assumes "n < 0x10000" "\<not> IsHeadSurrogate (of_nat n)"
  shows "FetchUnicodePoint (0x75 # hex4 n @ p) = Some (of_nat n, p)"
  using assms ReadHexDigits_hex4 [OF assms(1)] by (simp add: FetchUnicodePoint_def UnicodeLength_def)

lemma FetchUnicodePoint_pair:
  assumes "n < 0x100000"
  shows "FetchUnicodePoint (0x75 # hex4 (0xD800 + n div 1024) @ [0x5C, 0x75] @ hex4 (0xDC00 + n mod 1024) @ p) =
    Some (of_nat (0x10000 + n), p)"
proof -
  have "0xD800 + n div 1024 < 0x10000" "0xDC00 + n mod 1024 < 0x10000" using assms by simp_all
  note read = this [THEN ReadHexDigits_hex4]
  have "drop 6 (0x5C # 0x75 # hex4 m @ p) = p" for m by (simp add: hex4_def)
  then show ?thesis
    using read surrogates [OF assms] by (simp add: FetchUnicodePoint_def UnicodeLength_def)
qed

section \<open>Strings\<close>

lemma parse_string_escape:
  "deref p \<noteq> 0 \<Longrightarrow> ParseString_loop q (0x5C # p) out = (let (out, p) = parse_escape p out in ParseString_loop q p out)"
  by (subst ParseString_loop.simps) simp

lemma parse_string_plain:
  "c \<noteq> 0 \<Longrightarrow> c \<noteq> 0x5C \<Longrightarrow> c \<noteq> q \<Longrightarrow> ParseString_loop q (c # p) out = ParseString_loop q p (out @ [c])"
  by (subst ParseString_loop.simps) simp

lemma parse_string_end: "ParseString_loop q [q] out = out" if "q \<noteq> 0" "q \<noteq> 0x5C"
proof -
  have "ParseString_loop q [] out = out" by (subst ParseString_loop.simps) simp
  then show ?thesis using that by (subst ParseString_loop.simps) simp
qed

lemma parse_string_code_point:
  assumes "scalar_value c"
  shows "ParseString_loop q (utf16_escapes c @ p) out = ParseString_loop q p (out @ utf8_encode c)"
proof -
  have not_octal: "\<not> OctalDigit 0x75" by (simp add: OctalDigit_def)
  have c: "c < 0x110000" using assms by (auto simp: scalar_value_def)
  then have u: "unat (of_nat c :: uint32) = c" by (simp add: unat_of_nat)
  have out: "AppendUTF8 (of_nat c) out = out @ utf8_encode c"
    using AppendUTF8_ok [of "of_nat c" out] u c by simp
  show ?thesis
  proof (cases "c < 0x10000")
    case True
    have "\<not> IsHeadSurrogate (of_nat c)"
      using assms u by (auto simp: scalar_value_def IsHeadSurrogate_def kMinHeadSurrogate_def kMaxHeadSurrogate_def
          word_le_nat_alt word_less_nat_alt)
    from FetchUnicodePoint_short [OF True this, of p] show ?thesis
      using True out not_octal by (simp add: utf16_escapes_def parse_string_escape parse_escape_def)
  next
    case False
    then have "c - 0x10000 < 0x100000" "0x10000 + (c - 0x10000) = c" using c by simp_all
    with FetchUnicodePoint_pair [OF this(1), of p] show ?thesis
      using False out not_octal by (simp add: utf16_escapes_def parse_string_escape parse_escape_def del: of_nat_add)
  qed
qed

lemma parse_string_code_points:
  "list_all scalar_value cs \<Longrightarrow> q \<noteq> 0 \<Longrightarrow> q \<noteq> 0x5C \<Longrightarrow>
   ParseString_loop q (concat (map utf16_escapes cs) @ [q]) out = out @ concat (map utf8_encode cs)"
  by (induction cs arbitrary: out) (simp_all add: parse_string_code_point parse_string_end)

lemma OctalDigit_digit: "n < 8 \<Longrightarrow> OctalDigit (hex_digit n)"
  using octal_digit [of n] by (simp add: OctalDigit_def is_octal_digit_def)

lemma HexDigit_digit: "n < 16 \<Longrightarrow> HexDigit (hex_digit n)"
  using hex_digit_value [of n] by (simp add: HexDigit_def isxdigit_def)

lemma parse_escape_short: "short_escape c = Some e \<Longrightarrow> parse_escape (e # p) out = (out @ [c], p)"
  by (auto simp: short_escape_def parse_escape_def OctalDigit_def TranslateEscape_def split: if_splits)

lemma parse_escape_octal: "parse_escape (tl (sprintf_escape False c) @ p) out = (out @ [c], p)"
proof -
  let ?k = "unat c"
  have d: "?k div 64 < 8" "?k div 8 mod 8 < 8" "?k mod 8 < 8" using unat_less_256 [of c] by simp_all
  then have d': "?k div 64 < 16" "?k div 8 mod 8 < 16" "?k mod 8 < 16" by simp_all
  note digits = d [THEN OctalDigit_digit] d' [THEN hex_digit_DigitValue]
  have "(int (?k div 64) * 8 + int (?k div 8 mod 8)) * 8 + int (?k mod 8) = int ?k"
  proof -
    have "(?k div 64 * 8 + ?k div 8 mod 8) * 8 + ?k mod 8 = ?k"
      using div_mult2_eq [of ?k 8 8] by simp
    then show ?thesis by (metis of_nat_add of_nat_mult of_nat_numeral)
  qed
  then have "parse_octal_digit (parse_octal_digit (int (?k div 64), hex_digit (?k div 8 mod 8) # hex_digit (?k mod 8) # p)) = (int ?k, p)"
    using digits by (simp add: parse_octal_digit_def)
  moreover have "word_of_int (int ?k) = c" by simp
  ultimately show ?thesis
    using digits by (simp add: parse_escape_def sprintf_escape_def del: of_nat_numeral)
qed

lemma parse_escape_hex: "parse_escape (tl (sprintf_escape True c) @ p) out = (out @ [c], p)"
proof -
  let ?k = "unat c"
  have d: "?k div 16 < 16" "?k mod 16 < 16" using unat_less_256 [of c] by simp_all
  note digits = d [THEN HexDigit_digit] d [THEN hex_digit_DigitValue]
  have "int (?k div 16) * 16 + int (?k mod 16) = int ?k"
    by (metis div_mult_mod_eq of_nat_add of_nat_mult of_nat_numeral)
  then have "parse_hex_digit (parse_hex_digit (0, hex_digit (?k div 16) # hex_digit (?k mod 16) # p)) = (int ?k, p)"
    using digits by (simp add: parse_hex_digit_def)
  moreover have "word_of_int (int ?k) = c" by simp
  moreover have "\<not> OctalDigit 0x78" by (simp add: OctalDigit_def)
  ultimately show ?thesis
    by (simp add: parse_escape_def sprintf_escape_def del: of_nat_numeral)
qed

lemma parse_string_sprintf:
  "ParseString_loop q (sprintf_escape h c @ p) out = ParseString_loop q p (out @ [c])"
proof -
  let ?t = "tl (sprintf_escape h c)"
  have "sprintf_escape h c = 0x5C # ?t" "deref (?t @ p) \<noteq> 0" "parse_escape (?t @ p) out = (out @ [c], p)"
    using parse_escape_octal [of c p out] parse_escape_hex [of c p out] unat_less_256 [of c] octal_digit [of "unat c div 64"]
    by (cases h; auto simp: sprintf_escape_def)+
  then show ?thesis
    using parse_string_escape [of "?t @ p" q out] by (metis append_Cons case_prod_conv)
qed

lemma escaped_plain:
  assumes "short_escape c = None" "\<not> must_escape u l c"
  shows "c \<noteq> 0" "c \<noteq> 0x0A" "c \<noteq> 0x5C" "c \<noteq> 0x22" "c \<noteq> 0x27"
proof -
  have "must_escape u l 0" by (simp add: must_escape_def isprint_def)
  then show "c \<noteq> 0" using assms by auto
qed (use assms in \<open>auto simp: short_escape_def\<close>)

lemma parse_string_escaped:
  "q = 0x22 \<or> q = 0x27 \<Longrightarrow> ParseString_loop q (escaped h u l src @ p) out = ParseString_loop q p (out @ src)"
proof (induction src arbitrary: l out)
  case (Cons c src)
  note IH = Cons.IH [OF Cons.prems]
  show ?case
  proof (cases "short_escape c")
    case None
    show ?thesis
    proof (cases "must_escape u l c")
      case True
      then show ?thesis using None IH [of h] by (simp add: parse_string_sprintf)
    next
      case False
      then show ?thesis
        using None IH [of False] escaped_plain [OF None False] Cons.prems by (auto simp: parse_string_plain)
    qed
  next
    case (Some e)
    then have "e \<noteq> 0" by (auto simp: short_escape_def split: if_splits)
    then show ?thesis using Some IH [of False] by (simp add: parse_string_escape parse_escape_short)
  qed
qed simp

lemma ParseString_escaped:
  "q = 0x22 \<or> q = 0x27 \<Longrightarrow> ParseString (q # escaped h u False src @ [q]) = src"
  using parse_string_end [of q "[] @ src"] by (auto simp: ParseString_def ParseStringAppend_def parse_string_escaped)

lemma ParseString_code_points:
  "list_all scalar_value cs \<Longrightarrow> q = 0x22 \<or> q = 0x27 \<Longrightarrow>
   ParseString (q # concat (map utf16_escapes cs) @ [q]) = concat (map utf8_encode cs)"
  by (auto simp: ParseString_def ParseStringAppend_def parse_string_code_points)

end
