(* ===== verification/Tokenizer_Tokens.thy ===== *)
theory Tokenizer_Tokens
  imports Tokenizer_Text Token_Values_Lemmas
begin

text \<open>
  What the lexer makes of given texts: of an escaped string between quotes, and of an identifier.
\<close>

section \<open>One token\<close>

lemma lx_char_chars: "lx_text x = c # p \<Longrightarrow> lx_char x = lx_chars [c] x"
  by (simp add: lx_char_def peek_def)

lemma peek_Cons: "lx_text x = c # p \<Longrightarrow> peek x = c"
  by (simp add: peek_def)

lemma lx_chars_recording:
  assumes "tz_record_target x = Some Current_text"
  shows "tz_current (lx_chars bs x) = (tz_current x)\<lparr>tok_text := tok_text (tz_current x) @ bs\<rparr>"
proof -
  have "tz_current (count_chars bs z) = tz_current z" for bs and z :: lexer
    by (induction bs arbitrary: z) (simp_all add: count_chars_def count_char_def)
  then show ?thesis using assms by (simp add: lx_chars_def append_to_target_def)
qed

lemma lx_token_chars:
  assumes "lx_read_token (lx_start_token x) = (ty, lx_chars bs (lx_start_token x))"
  shows "tok_type (tz_current (lx_token x)) = ty" "tok_text (tz_current (lx_token x)) = bs"
    "tz_errors (lx_token x) = tz_errors x" "lx_text (lx_token x) = drop (length bs) (lx_text x)"
  using assms lx_chars_recording [of "lx_start_token x" bs] lx_chars_errors_same [of bs "lx_start_token x"]
  by (simp_all add: lx_token_def lx_end_token_def tz_set_type_def lx_start_token_def)

lemma lx_Next_token:
  assumes "lx_text x = c # p" "\<not> Whitespace c" "c \<noteq> 0x2F" "c \<noteq> 0x23" "\<not> c < 0x20"
  shows "lx_Next x = (True, lx_token (x\<lparr>tz_previous := tz_current x\<rparr>))"
proof -
  let ?x = "x\<lparr>tz_previous := tz_current x\<rparr>"
  have x: "lx_text ?x = c # p" "peek ?x = c" using assms(1) by (simp_all add: peek_def)
  then have "lx_while Whitespace ?x = ?x" using assms(2) by (simp add: lx_while_def)
  then show ?thesis
    using x assms(3-5) unfolding lx_Next_def by (subst lx_next_loop.simps) (simp add: lx_comment_start_def)
qed

section \<open>Strings\<close>

lemma lx_string_plain:
  assumes "lx_text x = c # p" "c \<noteq> 0" "c \<noteq> 0x0A" "c \<noteq> 0x5C" "c \<noteq> q"
  shows "lx_string q x = lx_string q (lx_chars [c] x)"
  using assms peek_Cons [OF assms(1)] by (subst lx_string.simps) (simp add: lx_char_chars [OF assms(1)])

lemma lx_string_end:
  assumes "lx_text x = q # p" "q \<noteq> 0" "q \<noteq> 0x0A" "q \<noteq> 0x5C"
  shows "lx_string q x = lx_chars [q] x"
  using assms peek_Cons [OF assms(1)] by (subst lx_string.simps) (simp add: lx_char_chars [OF assms(1)])

lemma lx_string_escape:
  assumes "lx_text x = 0x5C # e # p" "Escape e \<or> OctalDigit e"
  shows "lx_string q x = lx_string q (lx_chars [0x5C, e] x)"
proof -
  have "peek (lx_chars [0x5C] x) = e" "lx_text (lx_chars [0x5C] x) = e # p" using assms(1) by (simp_all add: peek_def)
  then have "lx_escape (lx_chars [0x5C] x) = lx_chars [0x5C, e] x"
    using assms(2) by (simp add: lx_escape_def lx_char_chars lx_chars_chars)
  then show ?thesis
    using peek_Cons [OF assms(1)] by (subst lx_string.simps) (simp add: lx_char_chars [OF assms(1)])
qed

lemma lx_string_hex:
  assumes "lx_text x = 0x5C # 0x78 # h # p" "HexDigit h"
  shows "lx_string q x = lx_string q (lx_chars [0x5C, 0x78, h] x)"
proof -
  have p: "peek (lx_chars [0x5C] x) = 0x78" "lx_text (lx_chars [0x5C] x) = 0x78 # h # p"
    "peek (lx_chars [0x5C, 0x78] x) = h" "lx_text (lx_chars [0x5C, 0x78] x) = h # p"
    using assms(1) by (simp_all add: peek_def)
  moreover have "\<not> Escape 0x78" "\<not> OctalDigit 0x78" by (simp_all add: Escape_def OctalDigit_def)
  ultimately have "lx_escape (lx_chars [0x5C] x) = lx_chars [0x5C, 0x78, h] x"
    using assms(2) lx_char_chars [OF p(2)] lx_char_chars [OF p(4)] by (simp add: lx_escape_def lx_chars_chars lx_try_def)
  then show ?thesis
    using peek_Cons [OF assms(1)] by (subst lx_string.simps) (simp add: lx_char_chars [OF assms(1)])
qed

lemma hex_digit_plain:
  assumes "n < 16" "q = 0x22 \<or> q = 0x27"
  shows "hex_digit n \<noteq> 0" "hex_digit n \<noteq> 0x0A" "hex_digit n \<noteq> 0x5C" "hex_digit n \<noteq> q"
proof -
  have "list_all (\<lambda>n. hex_digit n \<noteq> 0 \<and> hex_digit n \<noteq> 0x0A \<and> hex_digit n \<noteq> 0x5C \<and> hex_digit n \<noteq> 0x22 \<and>
      hex_digit n \<noteq> 0x27) [0..<16]" by code_simp
  then show "hex_digit n \<noteq> 0" "hex_digit n \<noteq> 0x0A" "hex_digit n \<noteq> 0x5C" "hex_digit n \<noteq> q"
    using assms by (auto simp: list_all_iff)
qed

lemma lx_string_sprintf:
  assumes "lx_text x = sprintf_escape h c @ p" "q = 0x22 \<or> q = 0x27"
  shows "lx_string q x = lx_string q (lx_chars (sprintf_escape h c) x)"
proof -
  let ?k = "unat c"
  have k: "?k div 64 < 16" "?k div 8 mod 8 < 16" "?k mod 8 < 16" "?k div 16 < 16" "?k mod 16 < 16" "?k div 64 < 8"
    using unat_less_256 [of c] by simp_all
  show ?thesis
  proof (cases h)
    case True
    then have x: "lx_text x = 0x5C # 0x78 # hex_digit (?k div 16) # hex_digit (?k mod 16) # p"
      using assms(1) by (simp add: sprintf_escape_def)
    have "lx_text (lx_chars [0x5C, 0x78, hex_digit (?k div 16)] x) = hex_digit (?k mod 16) # p" by (simp add: x)
    from lx_string_hex [OF x HexDigit_digit [OF k(4)]] lx_string_plain [OF this hex_digit_plain [OF k(5) assms(2)]] True show ?thesis
      by (simp add: sprintf_escape_def lx_chars_chars)
  next
    case False
    then have x: "lx_text x = 0x5C # hex_digit (?k div 64) # hex_digit (?k div 8 mod 8) # hex_digit (?k mod 8) # p"
      using assms(1) by (simp add: sprintf_escape_def)
    have y: "lx_text (lx_chars [0x5C, hex_digit (?k div 64)] x) = hex_digit (?k div 8 mod 8) # hex_digit (?k mod 8) # p"
      "lx_text (lx_chars [0x5C, hex_digit (?k div 64), hex_digit (?k div 8 mod 8)] x) = hex_digit (?k mod 8) # p" by (simp_all add: x)
    from lx_string_escape [OF x, of q] OctalDigit_digit [OF k(6)] lx_string_plain [OF y(1) hex_digit_plain [OF k(2) assms(2)]]
      lx_string_plain [OF y(2) hex_digit_plain [OF k(3) assms(2)]] False show ?thesis
      by (simp add: sprintf_escape_def lx_chars_chars)
  qed
qed

lemma short_escape_Escape: "short_escape c = Some e \<Longrightarrow> Escape e"
  by (auto simp: short_escape_def Escape_def split: if_splits)

lemma lx_string_escaped:
  "lx_text x = escaped h u l src @ p \<Longrightarrow> q = 0x22 \<or> q = 0x27 \<Longrightarrow> lx_string q x = lx_string q (lx_chars (escaped h u l src) x)"
proof (induction src arbitrary: l x)
  case (Cons c src)
  show ?case
  proof (cases "short_escape c")
    case None
    show ?thesis
    proof (cases "must_escape u l c")
      case True
      then have x: "lx_text x = sprintf_escape h c @ escaped h u h src @ p" using Cons.prems(1) None by simp
      then have "lx_text (lx_chars (sprintf_escape h c) x) = escaped h u h src @ p" by simp
      from Cons.IH [OF this Cons.prems(2)] lx_string_sprintf [OF x Cons.prems(2)] show ?thesis
        using None True by (simp add: lx_chars_chars)
    next
      case False
      then have x: "lx_text x = c # escaped h u False src @ p" using Cons.prems(1) None by simp
      then have "lx_text (lx_chars [c] x) = escaped h u False src @ p" by simp
      from Cons.IH [OF this Cons.prems(2)] lx_string_plain [OF x, of q] show ?thesis
        using None False escaped_plain [OF None False] Cons.prems(2) by (auto simp: lx_chars_chars)
    qed
  next
    case (Some e)
    then have x: "lx_text x = 0x5C # e # escaped h u False src @ p" using Cons.prems(1) by simp
    then have "lx_text (lx_chars [0x5C, e] x) = escaped h u False src @ p" by simp
    from Cons.IH [OF this Cons.prems(2)] lx_string_escape [OF x, of q] short_escape_Escape [OF Some] show ?thesis
      using Some by (simp add: lx_chars_chars)
  qed
qed simp

lemma lx_Next_string:
  assumes "lx_text x = q # escaped h u False src @ q # p" "q = 0x22 \<or> q = 0x27"
  shows "\<exists>y. lx_Next x = (True, y) \<and> tok_type (tz_current y) = TYPE_STRING \<and>
    tok_text (tz_current y) = q # escaped h u False src @ [q] \<and> tz_errors y = tz_errors x \<and> lx_text y = p"
proof -
  let ?e = "escaped h u False src"
  let ?x = "x\<lparr>tz_previous := tz_current x\<rparr>"
  let ?s = "lx_start_token ?x"
  have s: "lx_text ?s = q # ?e @ q # p" using assms(1) by (simp add: lx_start_token_def)
  then have t: "lx_text (lx_chars [q] ?s) = ?e @ q # p" "lx_text (lx_chars ([q] @ ?e) ?s) = q # p" by simp_all
  have "lx_string q (lx_chars [q] ?s) = lx_chars (q # ?e @ [q]) ?s"
    using lx_string_escaped [OF t(1) assms(2)] lx_string_end [OF t(2)] assms(2) by (auto simp: lx_chars_chars)
  then have "lx_read_token ?s = (TYPE_STRING, lx_chars (q # ?e @ [q]) ?s)"
    using s assms(2) lx_char_chars [OF s] peek_Cons [OF s] by (auto simp: lx_read_token_def Letter_def Digit_def)
  note token = lx_token_chars [OF this]
  have "lx_Next x = (True, lx_token ?x)"
    by (rule lx_Next_token [OF assms(1)]) (use assms(2) in \<open>auto simp: Whitespace_def\<close>)
  with token show ?thesis using assms(1) by simp
qed

section \<open>Identifiers\<close>

lemma Letter_char: "Letter c \<Longrightarrow> \<not> Whitespace c \<and> c \<noteq> 0x2F \<and> c \<noteq> 0x23 \<and> \<not> c < 0x20"
  unfolding Letter_def Whitespace_def word_le_nat_alt word_less_nat_alt by auto

lemma lx_Next_identifier:
  assumes "lx_text x = ident @ p" "IsIdentifier ident" "p = [] \<or> \<not> Alphanumeric (hd p)"
  shows "\<exists>y. lx_Next x = (True, y) \<and> tok_type (tz_current y) = TYPE_IDENTIFIER \<and>
    tok_text (tz_current y) = ident \<and> tz_errors y = tz_errors x \<and> lx_text y = p"
proof -
  obtain c cs where id: "ident = c # cs" "Letter c" "list_all Alphanumeric cs"
    using assms(2) by (cases ident) (auto simp: IsIdentifier_def)
  let ?x = "x\<lparr>tz_previous := tz_current x\<rparr>"
  let ?s = "lx_start_token ?x"
  have x: "lx_text x = c # cs @ p" using assms(1) id(1) by simp
  have s: "lx_text ?s = c # cs @ p" using x by (simp add: lx_start_token_def)
  have "takeWhile Alphanumeric p = []" using assms(3) by (cases p) auto
  then have "takeWhile Alphanumeric (cs @ p) = cs"
    using id(3) by (subst takeWhile_append2) (auto simp: list_all_iff)
  then have "lx_while Alphanumeric (lx_char ?s) = lx_chars ident ?s"
    using s id(1) by (simp add: lx_while_def lx_char_chars [OF s] lx_chars_chars)
  then have "lx_read_token ?s = (TYPE_IDENTIFIER, lx_chars ident ?s)"
    using id(2) peek_Cons [OF s] by (simp add: lx_read_token_def)
  note token = lx_token_chars [OF this]
  have "lx_Next x = (True, lx_token ?x)"
    by (rule lx_Next_token [OF x]) (use Letter_char [OF id(2)] in auto)
  with token show ?thesis using assms(1) by simp
qed

end
