(* ===== verification/Comment_Collector.thy ===== *)
theory Comment_Collector
  imports Tokenizer
begin

text \<open>
  \<open>NextWithComments\<close> of \<open>io/tokenizer.cc\<close> and its \<open>CommentCollector\<close>. The parser of \<open>.proto\<close> files calls
  it to attach comments to declarations. The pointer \<open>GetBufferFor...Comment\<close> returns is that of the
  collector's buffer, which is then the string \<open>content\<close> of the tokenizer; it is copied there and back.
\<close>

section \<open>The collector\<close>

record comment_collector =
  prev_trailing_comments :: "bytes option" \<comment> \<open>\<open>None\<close> is a null pointer\<close>
  detached_comments :: "bytes list option"
  next_leading_comments :: "bytes option"
  comment_buffer :: bytes
  has_comment :: bool
  is_line_comment :: bool
  can_attach_to_prev :: bool

definition CommentCollector :: "bytes option \<Rightarrow> bytes list option \<Rightarrow> bytes option \<Rightarrow> comment_collector" where
  "CommentCollector prev detached next =
     \<lparr>prev_trailing_comments = map_option (\<lambda>_. []) prev, detached_comments = map_option (\<lambda>_. []) detached,
      next_leading_comments = map_option (\<lambda>_. []) next, comment_buffer = [], has_comment = False,
      is_line_comment = False, can_attach_to_prev = True\<rparr>"

definition CommentCollector_destroy :: "comment_collector \<Rightarrow> comment_collector" where
  "CommentCollector_destroy c =
     (case next_leading_comments c of
        Some next \<Rightarrow>
          if has_comment c then c\<lparr>comment_buffer := next, next_leading_comments := Some (comment_buffer c)\<rparr> else c
      | None \<Rightarrow> c)"

definition ClearBuffer :: "comment_collector \<Rightarrow> comment_collector" where
  "ClearBuffer c = c\<lparr>comment_buffer := [], has_comment := False\<rparr>"

definition Flush :: "comment_collector \<Rightarrow> comment_collector" where
  "Flush c =
     (if has_comment c then
        ClearBuffer
          (if can_attach_to_prev c then
             c\<lparr>prev_trailing_comments := map_option (\<lambda>p. p @ comment_buffer c) (prev_trailing_comments c),
               can_attach_to_prev := False\<rparr>
           else c\<lparr>detached_comments := map_option (\<lambda>ds. ds @ [comment_buffer c]) (detached_comments c)\<rparr>)
      else c)"

definition DetachFromPrev :: "comment_collector \<Rightarrow> comment_collector" where
  "DetachFromPrev c = c\<lparr>can_attach_to_prev := False\<rparr>"

definition GetBufferForLineComment :: "comment_collector \<Rightarrow> comment_collector" where
  "GetBufferForLineComment c =
     (let c = (if has_comment c \<and> \<not> is_line_comment c then Flush c else c)
      in c\<lparr>has_comment := True, is_line_comment := True\<rparr>)"

definition GetBufferForBlockComment :: "comment_collector \<Rightarrow> comment_collector" where
  "GetBufferForBlockComment c =
     (let c = (if has_comment c then Flush c else c) in c\<lparr>has_comment := True, is_line_comment := False\<rparr>)"

definition buffer_out :: "comment_collector \<Rightarrow> 'a tok_state_scheme \<Rightarrow> 'a tok_state_scheme" where
  "buffer_out c s = s\<lparr>tz_content := comment_buffer c\<rparr>"

definition buffer_in :: "comment_collector \<Rightarrow> 'a tok_state_scheme \<Rightarrow> comment_collector" where
  "buffer_in c s = c\<lparr>comment_buffer := tz_content s\<rparr>"

section \<open>NextWithComments\<close>

definition collect_line_comment ::
    "'s zc_input_ops \<Rightarrow> comment_collector \<Rightarrow> 's tokenizer \<Rightarrow> (comment_collector \<times> 's tokenizer) option" where
  \<comment> \<open>\<open>ConsumeLineComment(collector.GetBufferForLineComment())\<close>\<close>
  "collect_line_comment ops c s = do {
     let c = GetBufferForLineComment c;
     s \<leftarrow> tz_ConsumeLineComment ops True (buffer_out c s);
     Some (buffer_in c s, s)
   }"

definition collect_block_comment ::
    "'s zc_input_ops \<Rightarrow> comment_collector \<Rightarrow> 's tokenizer \<Rightarrow> (comment_collector \<times> 's tokenizer) option" where
  "collect_block_comment ops c s = do {
     let c = GetBufferForBlockComment c;
     s \<leftarrow> tz_ConsumeBlockComment ops True (buffer_out c s);
     Some (buffer_in c s, s)
   }"

definition at_scope_end :: "bool \<Rightarrow> token \<Rightarrow> bool" where
  \<comment> \<open>\<open>!result\<close>, or the token is \<open>}\<close>, \<open>]\<close> or \<open>)\<close>.\<close>
  "at_scope_end result t \<longleftrightarrow> \<not> result \<or> tok_text t = [0x7D] \<or> tok_text t = [0x5D] \<or> tok_text t = [0x29]"

partial_function (option) tz_comments_loop ::
    "'s zc_input_ops \<Rightarrow> comment_collector \<Rightarrow> 's tokenizer \<Rightarrow> ((bool \<times> comment_collector) \<times> 's tokenizer) option" where
  \<comment> \<open>The loop from the line after the previous token on.\<close>
  "tz_comments_loop ops c s = do {
     s \<leftarrow> tz_ConsumeZeroOrMore ops WhitespaceNoNewline s;
     (status, s) \<leftarrow> tz_TryConsumeCommentStart ops s;
     case status of
       LINE_COMMENT \<Rightarrow> do {
         (c, s) \<leftarrow> collect_line_comment ops c s;
         tz_comments_loop ops c s
       }
     | BLOCK_COMMENT \<Rightarrow> do {
         (c, s) \<leftarrow> collect_block_comment ops c s;
         s \<leftarrow> tz_ConsumeZeroOrMore ops WhitespaceNoNewline s;
         (_, s) \<leftarrow> tz_TryConsume ops 0x0A s;
         tz_comments_loop ops c s
       }
     | SLASH_NOT_COMMENT \<Rightarrow> Some ((True, c), s)
     | NO_COMMENT \<Rightarrow> do {
         (newline, s) \<leftarrow> tz_TryConsume ops 0x0A s;
         if newline then tz_comments_loop ops (DetachFromPrev (Flush c)) s
         else do {
           (result, s) \<leftarrow> tz_Next ops s;
           Some ((result, if at_scope_end result (tz_current s) then Flush c else c), s)
         }
       }
   }"

definition tz_byte_order_mark :: "'s zc_input_ops \<Rightarrow> 's tokenizer \<Rightarrow> (bool \<times> 's tokenizer) option" where
  \<comment> \<open>The first branch: false is the error.\<close>
  "tz_byte_order_mark ops s = do {
     (ef, s) \<leftarrow> tz_TryConsume ops 0xEF s;
     if ef then do {
       (bb, s) \<leftarrow> tz_TryConsume ops 0xBB s;
       (bf, s) \<leftarrow> (if bb then tz_TryConsume ops 0xBF s else Some (False, s));
       Some (bf, if \<not> bf then tz_AddError ''Proto file starts with 0xEF but not UTF-8 BOM. Only UTF-8 is accepted for proto file.'' s
                 else s)
     }
     else Some (True, s)
   }"

definition tz_same_line ::
    "'s zc_input_ops \<Rightarrow> comment_collector \<Rightarrow> 's tokenizer \<Rightarrow> ((bool \<times> comment_collector) \<times> 's tokenizer) option" where
  \<comment> \<open>The second branch: what follows the previous token on its line.\<close>
  "tz_same_line ops c s = do {
     s \<leftarrow> tz_ConsumeZeroOrMore ops WhitespaceNoNewline s;
     (status, s) \<leftarrow> tz_TryConsumeCommentStart ops s;
     case status of
       LINE_COMMENT \<Rightarrow> do {
         (c, s) \<leftarrow> collect_line_comment ops c s;
         tz_comments_loop ops (Flush c) s
       }
     | BLOCK_COMMENT \<Rightarrow> do {
         (c, s) \<leftarrow> collect_block_comment ops c s;
         s \<leftarrow> tz_ConsumeZeroOrMore ops WhitespaceNoNewline s;
         (newline, s) \<leftarrow> tz_TryConsume ops 0x0A s;
         if \<not> newline then do {
           (result, s) \<leftarrow> tz_Next ops s;
           Some ((result, ClearBuffer c), s)
         }
         else tz_comments_loop ops (Flush c) s
       }
     | SLASH_NOT_COMMENT \<Rightarrow> Some ((True, c), s)
     | NO_COMMENT \<Rightarrow> do {
         (newline, s) \<leftarrow> tz_TryConsume ops 0x0A s;
         if \<not> newline then do {
           (result, s) \<leftarrow> tz_Next ops s;
           Some ((result, c), s)
         }
         else tz_comments_loop ops c s
       }
   }"

definition tz_NextWithComments ::
    "'s zc_input_ops \<Rightarrow> bytes option \<Rightarrow> bytes list option \<Rightarrow> bytes option \<Rightarrow> 's tokenizer \<Rightarrow>
     ((bool \<times> comment_collector) \<times> 's tokenizer) option" where
  \<comment> \<open>The three strings are those of the collector that is returned.\<close>
  "tz_NextWithComments ops prev detached next s = do {
     let c = CommentCollector prev detached next;
     ((result, c), s) \<leftarrow>
       (if tok_type (tz_current s) = TYPE_START then do {
          (ok, s) \<leftarrow> tz_byte_order_mark ops s;
          if ok then tz_comments_loop ops (DetachFromPrev c) s else Some ((False, c), s)
        }
        else tz_same_line ops c s);
     Some ((result, CommentCollector_destroy c), s)
   }"

end
