(* ===== verification/Comment_Refine.thy ===== *)
theory Comment_Refine
  imports Tokenizer_Text Comment_Collector
begin

text \<open>
  \<open>NextWithComments\<close> implements its counterpart on the reference lexer, on every stream that keeps its
  contract, and reads the same tokens as \<open>Next\<close>.
\<close>

section \<open>The reference\<close>

definition lx_collect_line :: "comment_collector \<Rightarrow> lexer \<Rightarrow> comment_collector \<times> lexer" where
  "lx_collect_line c x =
     (let c = GetBufferForLineComment c; x = lx_line_comment True (buffer_out c x) in (buffer_in c x, x))"

definition lx_collect_block :: "comment_collector \<Rightarrow> lexer \<Rightarrow> comment_collector \<times> lexer" where
  "lx_collect_block c x =
     (let c = GetBufferForBlockComment c; x = lx_block_comment True (buffer_out c x) in (buffer_in c x, x))"

definition lx_newline :: "lexer \<Rightarrow> bool \<times> lexer" where
  "lx_newline x = lx_try (\<lambda>c. c = 0x0A) x"

lemma buffer_out_simps [simp]:
  "lx_text (buffer_out c x) = lx_text x" "tz_record_target (buffer_out c s) = tz_record_target s"
  by (simp_all add: buffer_out_def)

lemma lx_collect_length:
  "length (lx_text (snd (lx_collect_line c x))) \<le> length (lx_text x)"
  "length (lx_text (snd (lx_collect_block c x))) \<le> length (lx_text x)"
  using lx_line_comment_length [of True "buffer_out (GetBufferForLineComment c) x"]
    lx_block_comment_length [of True "buffer_out (GetBufferForBlockComment c) x"]
  by (simp_all add: lx_collect_line_def lx_collect_block_def Let_def)

lemma lx_newline_step: "lx_step x (snd (lx_newline x))"
  unfolding lx_newline_def by (rule lx_step_try) simp

lemma lx_newline_length: "length (lx_text (snd (lx_newline x))) \<le> length (lx_text x)"
  by (rule lx_step_length [OF lx_newline_step])

function lx_comments_loop :: "comment_collector \<Rightarrow> lexer \<Rightarrow> (bool \<times> comment_collector) \<times> lexer" where
  "lx_comments_loop c x =
     (let (status, x) = lx_comment_start (lx_while WhitespaceNoNewline x) in
      case status of
        LINE_COMMENT \<Rightarrow> let (c, x) = lx_collect_line c x in lx_comments_loop c x
      | BLOCK_COMMENT \<Rightarrow>
          let (c, x) = lx_collect_block c x in lx_comments_loop c (snd (lx_newline (lx_while WhitespaceNoNewline x)))
      | SLASH_NOT_COMMENT \<Rightarrow> ((True, c), x)
      | NO_COMMENT \<Rightarrow>
          let (newline, x) = lx_newline x in
          if newline then lx_comments_loop (DetachFromPrev (Flush c)) x
          else let (result, x) = lx_Next x in ((result, if at_scope_end result (tz_current x) then Flush c else c), x))"
  by auto

lemma lx_comments_shorter:
  assumes "lx_comment_start (lx_while WhitespaceNoNewline x) = (status, y)"
  shows "status = LINE_COMMENT \<Longrightarrow> length (lx_text (snd (lx_collect_line c y))) < length (lx_text x)"
    "status = BLOCK_COMMENT \<Longrightarrow>
      length (lx_text (snd (lx_newline (lx_while WhitespaceNoNewline (snd (lx_collect_block c y)))))) < length (lx_text x)"
    "lx_newline y = (True, z) \<Longrightarrow> status = NO_COMMENT \<Longrightarrow> length (lx_text z) < length (lx_text x)"
proof -
  note le = lx_while_length [of WhitespaceNoNewline x]
  show "length (lx_text (snd (lx_collect_line c y))) < length (lx_text x)" if "status = LINE_COMMENT"
    using lx_comment_start_shorter [OF assms] lx_collect_length(1) [of c y] le that by simp
  have "length (lx_text (snd (lx_newline (lx_while WhitespaceNoNewline w)))) \<le> length (lx_text w)" for w
    by (rule order_trans [OF lx_newline_length lx_while_length])
  from this [of "snd (lx_collect_block c y)"]
  show "length (lx_text (snd (lx_newline (lx_while WhitespaceNoNewline (snd (lx_collect_block c y)))))) < length (lx_text x)"
    if "status = BLOCK_COMMENT"
    using lx_comment_start_shorter [OF assms] lx_collect_length(2) [of c y] le that by simp
  show "length (lx_text z) < length (lx_text x)" if "lx_newline y = (True, z)" "status = NO_COMMENT"
  proof -
    have "y = lx_while WhitespaceNoNewline x" using assms that(2) by (intro lx_comment_start_none) simp
    then show ?thesis using lx_try_shorter [OF that(1) [unfolded lx_newline_def]] le by simp
  qed
qed

termination lx_comments_loop
proof (relation "measure (\<lambda>(c, x). length (lx_text x))", goal_cases)
  case (2 c x p status y q d z)
  then have eq: "lx_comment_start (lx_while WhitespaceNoNewline x) = (status, y)" "lx_collect_line c y = (d, z)"
    by simp_all
  show ?case using 2 eq lx_comments_shorter(1) [of x status y c] by (simp add: split_def)
next
  case (3 c x p status y q d z)
  then have eq: "lx_comment_start (lx_while WhitespaceNoNewline x) = (status, y)" "lx_collect_block c y = (d, z)"
    by simp_all
  show ?case using 3(3) eq lx_comments_shorter(2) [of x status y c] by simp
next
  case (4 c x p status y q newline z)
  then have eq: "lx_comment_start (lx_while WhitespaceNoNewline x) = (status, y)" "lx_newline y = (True, z)"
    by simp_all
  show ?case using 4 eq lx_comments_shorter(3) [of x status y z] by (simp add: split_def)
qed simp

declare lx_comments_loop.simps [simp del]

definition lx_byte_order_mark :: "lexer \<Rightarrow> bool \<times> lexer" where
  "lx_byte_order_mark x =
     (if peek x = 0xEF then
        let (bf, y) = lx_try_all [\<lambda>c. c = 0xBB, \<lambda>c. c = 0xBF] (lx_char x)
        in (bf, if \<not> bf then tz_AddError ''Proto file starts with 0xEF but not UTF-8 BOM. Only UTF-8 is accepted for proto file.'' y
                else y)
      else (True, x))"

definition lx_same_line :: "comment_collector \<Rightarrow> lexer \<Rightarrow> (bool \<times> comment_collector) \<times> lexer" where
  "lx_same_line c x =
     (let (status, x) = lx_comment_start (lx_while WhitespaceNoNewline x) in
      case status of
        LINE_COMMENT \<Rightarrow> let (c, x) = lx_collect_line c x in lx_comments_loop (Flush c) x
      | BLOCK_COMMENT \<Rightarrow>
          let (c, x) = lx_collect_block c x; (newline, x) = lx_newline (lx_while WhitespaceNoNewline x) in
          if \<not> newline then let (result, x) = lx_Next x in ((result, ClearBuffer c), x)
          else lx_comments_loop (Flush c) x
      | SLASH_NOT_COMMENT \<Rightarrow> ((True, c), x)
      | NO_COMMENT \<Rightarrow>
          let (newline, x) = lx_newline x in
          if \<not> newline then let (result, x) = lx_Next x in ((result, c), x)
          else lx_comments_loop c x)"

definition lx_NextWithComments ::
    "bytes option \<Rightarrow> bytes list option \<Rightarrow> bytes option \<Rightarrow> lexer \<Rightarrow> (bool \<times> comment_collector) \<times> lexer" where
  "lx_NextWithComments prev detached next x =
     (let c = CommentCollector prev detached next;
          ((result, c), x) =
            (if tok_type (tz_current x) = TYPE_START then
               let (ok, x) = lx_byte_order_mark x in
               if ok then lx_comments_loop (DetachFromPrev c) x else ((False, c), x)
             else lx_same_line c x)
      in ((result, CommentCollector_destroy c), x))"

section \<open>Refinement\<close>

lemma lx_newline_target: "tz_record_target (snd (lx_newline x)) = tz_record_target x"
  by (simp add: lx_newline_def)

lemma lx_collect_target:
  assumes "tz_record_target x = None"
  shows "tz_record_target (snd (lx_collect_line c x)) = None" "tz_record_target (snd (lx_collect_block c x)) = None"
  using assms lx_next_targets(1) [of "buffer_out (GetBufferForLineComment c) x" True]
    lx_next_targets(2) [of "buffer_out (GetBufferForBlockComment c) x" True]
  by (simp_all add: lx_collect_line_def lx_collect_block_def Let_def)

lemma lx_byte_order_mark_target: "tz_record_target (snd (lx_byte_order_mark x)) = tz_record_target x"
  by (simp add: lx_byte_order_mark_def split_def Let_def)

context zero_copy_input begin

lemma buffer_out_ok:
  assumes "tz_rel s x" "tz_record_target x = None"
  shows "tz_rel (buffer_out c s) (buffer_out c x)"
proof -
  have "tz_record_target s = None" using tz_rel_same(3) assms by simp
  then show ?thesis
    by (intro tz_rel_update [OF assms(1)]) (simp_all add: buffer_out_def lexer_with_def append_to_target_none)
qed

lemma buffer_in_ok: "tz_rel s x \<Longrightarrow> tz_record_target x = None \<Longrightarrow> buffer_in c s = buffer_in c x"
  by (auto simp: buffer_in_def tz_rel_def lexer_of_def lexer_with_def append_to_target_def split: target_splits)

lemma collect_line_ok:
  assumes "tz_rel s x" "tz_record_target x = None"
  shows "outcome (collect_line_comment ops c s) (lx_collect_line c x)"
  unfolding collect_line_comment_def lx_collect_line_def Let_def
proof (rule reaches_bind_outcome [OF ConsumeLineComment_ok [OF buffer_out_ok [OF assms]]])
  show "tz_record_target (buffer_out (GetBufferForLineComment c) x) = None" using assms(2) by simp
  then have "tz_record_target (lx_line_comment True (buffer_out (GetBufferForLineComment c) x)) = None"
    by (rule lx_next_targets(1))
  then show "outcome (Some (buffer_in (GetBufferForLineComment c) t, t))
      (buffer_in (GetBufferForLineComment c) (lx_line_comment True (buffer_out (GetBufferForLineComment c) x)),
       lx_line_comment True (buffer_out (GetBufferForLineComment c) x))"
    if "tz_rel t (lx_line_comment True (buffer_out (GetBufferForLineComment c) x))" for t
    using that buffer_in_ok by simp
qed

lemma collect_block_ok:
  assumes "tz_rel s x" "tz_record_target x = None"
  shows "outcome (collect_block_comment ops c s) (lx_collect_block c x)"
  unfolding collect_block_comment_def lx_collect_block_def Let_def
proof (rule reaches_bind_outcome [OF ConsumeBlockComment_ok [OF buffer_out_ok [OF assms]]])
  show "tz_record_target (buffer_out (GetBufferForBlockComment c) x) = None" using assms(2) by simp
  then have "tz_record_target (lx_block_comment True (buffer_out (GetBufferForBlockComment c) x)) = None"
    by (rule lx_next_targets(2))
  then show "outcome (Some (buffer_in (GetBufferForBlockComment c) t, t))
      (buffer_in (GetBufferForBlockComment c) (lx_block_comment True (buffer_out (GetBufferForBlockComment c) x)),
       lx_block_comment True (buffer_out (GetBufferForBlockComment c) x))"
    if "tz_rel t (lx_block_comment True (buffer_out (GetBufferForBlockComment c) x))" for t
    using that buffer_in_ok by simp
qed

lemma newline_ok: "tz_rel s x \<Longrightarrow> outcome (tz_TryConsume ops 0x0A s) (lx_newline x)"
  unfolding lx_newline_def by (rule TryConsume_ok) simp_all

lemma next_result_ok:
  \<comment> \<open>\<open>Next()\<close>, and then something that depends on the token.\<close>
  assumes "tz_rel s x" "tz_record_target x = None"
  shows "outcome (do { (result, s) \<leftarrow> tz_Next ops s; Some ((result, f result (tz_current s)), s) })
    (let (result, y) = lx_Next x in ((result, f result (tz_current y)), y))"
proof (rule outcome_bind [OF Next_ok [OF assms]])
  show "outcome (Some ((fst (lx_Next x), f (fst (lx_Next x)) (tz_current t)), t))
      (let (result, y) = lx_Next x in ((result, f result (tz_current y)), y))"
    if "tz_rel t (snd (lx_Next x))" for t
    using that tz_rel_current [OF that lx_Next_target [OF assms(2)]] by (simp add: split_def Let_def)
qed

lemma after_block_ok:
  \<comment> \<open>Blanks and a line end behind a block comment.\<close>
  assumes "tz_rel s x" "\<And>t. tz_rel t (snd (lx_newline (lx_while WhitespaceNoNewline x))) \<Longrightarrow>
      outcome (k (fst (lx_newline (lx_while WhitespaceNoNewline x))) t) r"
  shows "outcome (do { s \<leftarrow> tz_ConsumeZeroOrMore ops WhitespaceNoNewline s; (b, s) \<leftarrow> tz_TryConsume ops 0x0A s; k b s }) r"
  by (rule while_outcome [OF assms(1)], simp, erule outcome_bind [OF newline_ok], rule assms(2))

lemma comments_loop_ok:
  "tz_rel s x \<Longrightarrow> tz_record_target x = None \<Longrightarrow> outcome (tz_comments_loop ops c s) (lx_comments_loop c x)"
proof (induction c x arbitrary: s rule: lx_comments_loop.induct)
  case (1 c x)
  define w where "w = lx_while WhitespaceNoNewline x"
  obtain status y where y: "lx_comment_start w = (status, y)" by fastforce
  have w_target: "tz_record_target w = None" using "1.prems"(2) by (simp add: w_def)
  then have y_target: "tz_record_target y = None" by (rule lx_next_targets(3) [OF _ y])
  note IH = "1.IH" [OF y [unfolded w_def, symmetric] refl]
  have lx: "lx_comments_loop c x = (case status of
        LINE_COMMENT \<Rightarrow> let (c, x) = lx_collect_line c y in lx_comments_loop c x
      | BLOCK_COMMENT \<Rightarrow>
          let (c, x) = lx_collect_block c y in lx_comments_loop c (snd (lx_newline (lx_while WhitespaceNoNewline x)))
      | SLASH_NOT_COMMENT \<Rightarrow> ((True, c), y)
      | NO_COMMENT \<Rightarrow>
          let (newline, x) = lx_newline y in
          if newline then lx_comments_loop (DetachFromPrev (Flush c)) x
          else let (result, x) = lx_Next x in ((result, if at_scope_end result (tz_current x) then Flush c else c), x))"
    using y by (subst lx_comments_loop.simps) (simp add: w_def)
  show ?case
    unfolding lx
    apply (subst tz_comments_loop.simps)
    apply (rule while_outcome [OF "1.prems"(1)], simp)
    apply (fold w_def)
    apply (erule outcome_bind [OF TryConsumeCommentStart_ok [OF _ w_target]])
    apply (simp only: y fst_conv snd_conv)
    subgoal premises rel for t u
    proof (cases status)
      case LINE_COMMENT
      obtain d z where z: "lx_collect_line c y = (d, z)" by fastforce
      have target: "tz_record_target z = None" using lx_collect_target(1) [OF y_target, of c] z by simp
      show ?thesis
        unfolding LINE_COMMENT next_comment_status.case
        by (rule outcome_bind [OF collect_line_ok [OF rel y_target]])
          (use z target IH(1) [OF LINE_COMMENT z [symmetric] refl] in \<open>simp add: Let_def\<close>)
    next
      case BLOCK_COMMENT
      obtain d z where z: "lx_collect_block c y = (d, z)" by fastforce
      have target: "tz_record_target z = None" using lx_collect_target(2) [OF y_target, of c] z by simp
      then have "tz_record_target (snd (lx_newline (lx_while WhitespaceNoNewline z))) = None"
        by (simp add: lx_newline_target)
      note ih = IH(2) [OF BLOCK_COMMENT z [symmetric] refl _ this]
      show ?thesis
        unfolding BLOCK_COMMENT next_comment_status.case
        by (rule outcome_bind [OF collect_block_ok [OF rel y_target]])
          (use z in \<open>simp add: Let_def after_block_ok ih\<close>)
    next
      case SLASH_NOT_COMMENT
      with rel show ?thesis by simp
    next
      case NO_COMMENT
      obtain newline z where z: "lx_newline y = (newline, z)" by fastforce
      have target: "tz_record_target z = None" using lx_newline_target [of y] y_target z by simp
      show ?thesis
        unfolding NO_COMMENT next_comment_status.case z
        by (rule outcome_bind [OF newline_ok [OF rel]])
          (use z target IH(3) [OF NO_COMMENT z [symmetric] refl] next_result_ok [OF _ target, of _ "\<lambda>b t. if at_scope_end b t then Flush c else c"]
            in \<open>simp add: Let_def\<close>)
    qed
    done
qed

lemma byte_order_mark_ok:
  assumes "tz_rel s x"
  shows "outcome (tz_byte_order_mark ops s) (lx_byte_order_mark x)"
  unfolding tz_byte_order_mark_def
  apply (rule char_outcome [OF assms], simp)
   apply (simp only: if_True)
   apply (rule char_outcome, assumption, simp)
    apply (simp only: if_True)
    apply (rule char_outcome, assumption, simp)
     apply (simp add: lx_byte_order_mark_def lx_try_def)
    apply (simp add: lx_byte_order_mark_def lx_try_def AddError_ok)
   apply (simp add: lx_byte_order_mark_def lx_try_def AddError_ok)
  apply (simp add: lx_byte_order_mark_def)
  done

lemma same_line_ok:
  assumes "tz_rel s x" "tz_record_target x = None"
  shows "outcome (tz_same_line ops c s) (lx_same_line c x)"
proof -
  define w where "w = lx_while WhitespaceNoNewline x"
  obtain status y where y: "lx_comment_start w = (status, y)" by fastforce
  have w_target: "tz_record_target w = None" using assms(2) by (simp add: w_def)
  then have y_target: "tz_record_target y = None" by (rule lx_next_targets(3) [OF _ y])
  have lx: "lx_same_line c x = (case status of
        LINE_COMMENT \<Rightarrow> let (c, x) = lx_collect_line c y in lx_comments_loop (Flush c) x
      | BLOCK_COMMENT \<Rightarrow>
          let (c, x) = lx_collect_block c y; (newline, x) = lx_newline (lx_while WhitespaceNoNewline x) in
          if \<not> newline then let (result, x) = lx_Next x in ((result, ClearBuffer c), x)
          else lx_comments_loop (Flush c) x
      | SLASH_NOT_COMMENT \<Rightarrow> ((True, c), y)
      | NO_COMMENT \<Rightarrow>
          let (newline, x) = lx_newline y in
          if \<not> newline then let (result, x) = lx_Next x in ((result, c), x)
          else lx_comments_loop c x)"
    using y by (simp add: lx_same_line_def w_def)
  show ?thesis
    unfolding lx tz_same_line_def
    apply (rule while_outcome [OF assms(1)], simp)
    apply (fold w_def)
    apply (erule outcome_bind [OF TryConsumeCommentStart_ok [OF _ w_target]])
    apply (simp only: y fst_conv snd_conv)
    subgoal premises rel for t u
    proof (cases status)
      case LINE_COMMENT
      show ?thesis
        unfolding LINE_COMMENT next_comment_status.case
        by (rule outcome_bind [OF collect_line_ok [OF rel y_target]])
          (use lx_collect_target(1) [OF y_target, of c] in \<open>simp add: split_def Let_def comments_loop_ok\<close>)
    next
      case BLOCK_COMMENT
      obtain d z where z: "lx_collect_block c y = (d, z)" by fastforce
      obtain newline v where v: "lx_newline (lx_while WhitespaceNoNewline z) = (newline, v)" by fastforce
      have target: "tz_record_target v = None"
        using lx_collect_target(2) [OF y_target, of c] z lx_newline_target [of "lx_while WhitespaceNoNewline z"] v by simp
      have after: "outcome (do { s \<leftarrow> tz_ConsumeZeroOrMore ops WhitespaceNoNewline t; (newline, s) \<leftarrow> tz_TryConsume ops 0x0A s;
              if \<not> newline then do { (result, s) \<leftarrow> tz_Next ops s; Some ((result, ClearBuffer d), s) }
              else tz_comments_loop ops (Flush d) s })
            (if \<not> newline then case lx_Next v of (result, x) \<Rightarrow> ((result, ClearBuffer d), x) else lx_comments_loop (Flush d) v)"
        if "tz_rel t z" for t
        by (rule after_block_ok [OF that])
          (use v target next_result_ok [OF _ target, of _ "\<lambda>b t. ClearBuffer d"] in \<open>simp add: comments_loop_ok Let_def\<close>)
      show ?thesis
        unfolding BLOCK_COMMENT next_comment_status.case z v prod.case Let_def
        by (rule outcome_bind [OF collect_block_ok [OF rel y_target]]) (simp only: z fst_conv snd_conv after)
    next
      case SLASH_NOT_COMMENT
      with rel show ?thesis by simp
    next
      case NO_COMMENT
      obtain newline z where z: "lx_newline y = (newline, z)" by fastforce
      have target: "tz_record_target z = None" using lx_newline_target [of y] y_target z by simp
      show ?thesis
        unfolding NO_COMMENT next_comment_status.case z
        by (rule outcome_bind [OF newline_ok [OF rel]])
          (use z target next_result_ok [OF _ target, of _ "\<lambda>b t. c"] in \<open>simp add: Let_def comments_loop_ok\<close>)
    qed
    done
qed

lemma NextWithComments_ok:
  assumes "tz_rel s x" "tz_record_target x = None"
  shows "outcome (tz_NextWithComments ops prev detached next s) (lx_NextWithComments prev detached next x)"
proof -
  let ?c = "CommentCollector prev detached next"
  let ?m = "if tok_type (tz_current s) = TYPE_START then do {
          (ok, s) \<leftarrow> tz_byte_order_mark ops s;
          if ok then tz_comments_loop ops (DetachFromPrev ?c) s else Some ((False, ?c), s)
        } else tz_same_line ops ?c s"
  let ?r = "if tok_type (tz_current x) = TYPE_START then
        let (ok, x) = lx_byte_order_mark x in
        if ok then lx_comments_loop (DetachFromPrev ?c) x else ((False, ?c), x)
      else lx_same_line ?c x"
  have type: "tok_type (tz_current s) = tok_type (tz_current x)" by (rule tz_rel_same(10) [OF assms(1)])
  have "outcome (do { (ok, s) \<leftarrow> tz_byte_order_mark ops s;
          if ok then tz_comments_loop ops (DetachFromPrev ?c) s else Some ((False, ?c), s) })
        (let (ok, x) = lx_byte_order_mark x in
          if ok then lx_comments_loop (DetachFromPrev ?c) x else ((False, ?c), x))"
    by (rule outcome_bind [OF byte_order_mark_ok [OF assms(1)]])
      (use assms(2) lx_byte_order_mark_target [of x] in \<open>simp add: split_def Let_def comments_loop_ok\<close>)
  then have mr: "outcome ?m ?r"
    using same_line_ok [OF assms]
    by (cases "tok_type (tz_current x) = TYPE_START") (simp_all only: type simp_thms if_True if_False)
  define m r where "m = ?m" and "r = ?r"
  have "tz_NextWithComments ops prev detached next s = m \<bind> (\<lambda>((result, c), s). Some ((result, CommentCollector_destroy c), s))"
    unfolding tz_NextWithComments_def m_def Let_def [of ?c] by (rule refl)
  moreover have "lx_NextWithComments prev detached next x = (case r of ((result, c), x) \<Rightarrow> ((result, CommentCollector_destroy c), x))"
    by (simp only: lx_NextWithComments_def r_def Let_def split_def fst_conv snd_conv)
  moreover have "outcome m r" using mr unfolding m_def r_def .
  ultimately show ?thesis by (auto simp: outcome_def split: prod.split)
qed

end

end
