(* ===== verification/Comment_Tokens.thy ===== *)
theory Comment_Tokens
  imports Comment_Refine
begin

text \<open>
  \<open>NextWithComments\<close> and \<open>Next\<close> read the same tokens: collecting a comment and skipping it take the same
  characters and report the same errors.
\<close>

section \<open>Collecting and skipping\<close>

definition norm :: "lexer \<Rightarrow> lexer" where
  \<comment> \<open>Without the comment being collected, and with the previous token set as \<open>Next\<close> does first.\<close>
  "norm x = x\<lparr>tz_content := [], tz_record_target := None, tz_previous := tz_current x\<rparr>"

definition no_token :: "lexer \<Rightarrow> bool" where
  "no_token x \<longleftrightarrow> tz_record_target x \<noteq> Some Current_text"

lemma norm_count_chars: "norm (count_chars bs x) = count_chars bs (norm x)"
proof (induction bs arbitrary: x)
  case (Cons c bs)
  have "norm (count_char c x) = count_char c (norm x)" by (simp add: norm_def count_char_def)
  then show ?case using Cons.IH by (simp add: count_chars_Cons)
qed (simp add: count_chars_def)

lemma norm_fields [simp]:
  "lx_text (norm x) = lx_text x" "tz_record_target (norm x) = None" "tz_current (norm x) = tz_current x"
  "tz_line (norm x) = tz_line x" "tz_column (norm x) = tz_column x" "tz_comment_style (norm x) = tz_comment_style x"
  "peek (norm x) = peek x" "norm (norm x) = norm x" "no_token (norm x)"
  by (simp_all add: norm_def peek_def no_token_def)

lemma norm_updates [simp]:
  "norm (lx_record content t x) = norm x" "norm (tz_comment_end x) = norm x" "norm (buffer_out c x) = norm x"
  "norm (tz_AddError_at l k m x) = tz_AddError_at l k m (norm x)" "norm (tz_AddError m x) = tz_AddError m (norm x)"
  by (simp_all add: norm_def lx_record_def tz_comment_end_def buffer_out_def tz_AddError_def tz_AddError_at_def)

lemma peek_lx_char_norm [simp]: "peek (lx_char (norm x)) = peek (lx_char x)"
  by (simp add: peek_def)

lemma lx_record_False [simp]: "lx_record False t x = x"
  by (simp add: lx_record_def)

lemma norm_chars:
  assumes "no_token x"
  shows "norm (lx_chars bs x) = lx_chars bs (norm x)"
proof -
  have "norm (append_to_target bs (count_chars bs x)\<lparr>lx_text := l\<rparr>) = norm (count_chars bs x)\<lparr>lx_text := l\<rparr>" for l
    using assms by (auto simp: norm_def no_token_def append_to_target_def split: target_splits)
  then show ?thesis
    by (simp add: lx_chars_def norm_count_chars append_to_target_none)
qed

lemma norm_steps [simp]:
  assumes "no_token x"
  shows "norm (lx_char x) = lx_char (norm x)" "norm (lx_while C x) = lx_while C (norm x)"
    "norm (snd (lx_try C x)) = snd (lx_try C (norm x))" "fst (lx_try C x) = fst (lx_try C (norm x))"
  using norm_chars [OF assms] by (simp_all add: lx_char_def lx_while_def lx_try_def)

lemma no_token_steps [simp]:
  "no_token (lx_char x) = no_token x" "no_token (lx_while C x) = no_token x" "no_token (snd (lx_try C x)) = no_token x"
  "no_token (snd (lx_star_slash x)) = no_token x" "no_token (tz_AddError m x) = no_token x"
  "no_token (snd (lx_newline x)) = no_token x"
  by (simp_all add: no_token_def lx_newline_def)

lemma no_token_record: "no_token x \<Longrightarrow> t \<noteq> Some Current_text \<Longrightarrow> no_token (lx_record content t x)"
  by (simp add: no_token_def lx_record_def)

lemma norm_star_slash:
  assumes "no_token x"
  shows "norm (snd (lx_star_slash x)) = snd (lx_star_slash (norm x))" "fst (lx_star_slash x) = fst (lx_star_slash (norm x))"
  using assms by (simp_all add: lx_star_slash_def lx_try_def Let_def)

lemma norm_line_comment:
  assumes "no_token x"
  shows "norm (lx_line_comment content x) = lx_line_comment False (norm x)"
proof -
  have "no_token (lx_record content (Some Content) x)" by (rule no_token_record [OF assms]) simp
  then show ?thesis by (simp add: lx_line_comment_def)
qed

lemma norm_block_loop:
  "no_token x \<Longrightarrow> norm (lx_block_loop content l k x) = lx_block_loop False l k (norm x)"
proof (induction content l k x rule: lx_block_loop.induct)
  case (1 content l k x)
  define N where "N = (\<lambda>c :: 8 word. c \<noteq> 0 \<and> c \<noteq> 0x2A \<and> c \<noteq> 0x2F \<and> c \<noteq> 0x0A)"
  define w where "w = lx_while N x"
  note IH = 1(1-3) [OF w_def [unfolded N_def]]
  have w: "no_token w" "norm w = lx_while N (norm x)" using 1(4) by (simp_all add: w_def)
  define v where "v = lx_while WhitespaceNoNewline (lx_record content None (lx_char w))"
  have v: "no_token v" "norm v = lx_while WhitespaceNoNewline (lx_record False None (lx_char (norm w)))"
    using w(1) no_token_record [of "lx_char w" None content] by (simp_all add: v_def)
  obtain ok1 y1 where y1: "lx_star_slash v = (ok1, y1)" by fastforce
  obtain ok2 y2 where y2: "lx_star_slash w = (ok2, y2)" by fastforce
  obtain sl z where z: "lx_try (\<lambda>c. c = 0x2F) y2 = (sl, z)" by fastforce
  have n1: "lx_star_slash (norm v) = (ok1, norm y1)" "no_token y1"
    using norm_star_slash [OF v(1)] y1 no_token_steps(4) [of v] v(1) by (simp_all add: prod_eq_iff del: no_token_steps)
  have n2: "lx_star_slash (norm w) = (ok2, norm y2)" "no_token y2"
    using norm_star_slash [OF w(1)] y2 no_token_steps(4) [of w] w(1) by (simp_all add: prod_eq_iff del: no_token_steps)
  have n3: "lx_try (\<lambda>c. c = 0x2F) (norm y2) = (sl, norm z)" "no_token z"
    using norm_steps(3) [OF n2(2), of "\<lambda>c. c = 0x2F", symmetric] norm_steps(4) [OF n2(2), of "\<lambda>c. c = 0x2F"] z no_token_steps(3) [of "\<lambda>c. c = 0x2F" y2] n2(2) by (simp_all add: prod_eq_iff del: no_token_steps norm_steps)
  show ?case
  proof (cases "peek w = 0x0A")
    case True
    have ih: "norm (lx_block_loop content l k (lx_record content (Some Content) y1)) = lx_block_loop False l k (norm y1)" if "\<not> ok1"
      using IH(1) [OF True y1 [unfolded v_def, symmetric] refl that no_token_record [OF n1(2)]] by simp
    have "lx_block_loop content l k x = (if ok1 then y1 else lx_block_loop content l k (lx_record content (Some Content) y1))"
      using True y1 by (subst lx_block_loop.simps) (simp add: N_def [symmetric] w_def [symmetric] v_def [symmetric])
    moreover have "lx_block_loop False l k (norm x) = (if ok1 then norm y1 else lx_block_loop False l k (norm y1))"
      using True n1(1) v(2)
      by (subst lx_block_loop.simps) (simp add: N_def [symmetric] w(2) [symmetric])
    ultimately show ?thesis using ih by simp
  next
    case False
    let ?nested = "CHR 0x22 # ''/*'' @ CHR 0x22 # '' inside block comment.  Block comments cannot be nested.''"
    have ih: "norm (lx_block_loop content l k (tz_AddError ?nested z)) = lx_block_loop False l k (tz_AddError ?nested (norm z))"
        if "\<not> ok2" "sl \<and> peek z = 0x2A"
      using IH(2) [OF False y2 [symmetric] refl that(1) z [symmetric] refl that(2)] n3(2) by simp
    have ih': "norm (lx_block_loop content l k z) = lx_block_loop False l k (norm z)"
        if "\<not> ok2" "\<not> (sl \<and> peek z = 0x2A)" "peek z \<noteq> 0"
      using IH(3) [OF False y2 [symmetric] refl that(1) z [symmetric] refl that(2,3) n3(2)] .
    have "lx_block_loop content l k x =
        (if ok2 then (if content then tz_comment_end (lx_record content None y2) else y2)
         else if sl \<and> peek z = 0x2A then lx_block_loop content l k (tz_AddError ?nested z)
         else if peek z = 0 then lx_record content None (tz_AddError_at l k ''  Comment started here.''
              (tz_AddError ''End-of-file inside block comment.'' z))
         else lx_block_loop content l k z)"
      using False y2 z by (subst lx_block_loop.simps) (simp add: N_def [symmetric] w_def [symmetric] del: append.simps)
    moreover have "lx_block_loop False l k (norm x) =
        (if ok2 then norm y2
         else if sl \<and> peek z = 0x2A then lx_block_loop False l k (tz_AddError ?nested (norm z))
         else if peek z = 0 then tz_AddError_at l k ''  Comment started here.''
              (tz_AddError ''End-of-file inside block comment.'' (norm z))
         else lx_block_loop False l k (norm z))"
      using False n2(1) n3(1)
      by (subst lx_block_loop.simps) (simp add: N_def [symmetric] w(2) [symmetric] del: append.simps)
    ultimately show ?thesis using ih ih' by simp
  qed
qed

lemma norm_block_comment:
  assumes "no_token x"
  shows "norm (lx_block_comment content x) = lx_block_comment False (norm x)"
  using norm_block_loop [OF no_token_record [OF assms]] by (simp add: lx_block_comment_def)

lemma norm_collect:
  assumes "no_token x"
  shows "norm (snd (lx_collect_line c x)) = lx_line_comment False (norm x)"
    "norm (snd (lx_collect_block c x)) = lx_block_comment False (norm x)"
proof -
  have "no_token (buffer_out d x)" for d using assms by (simp add: no_token_def)
  then show "norm (snd (lx_collect_line c x)) = lx_line_comment False (norm x)"
    "norm (snd (lx_collect_block c x)) = lx_block_comment False (norm x)"
    by (simp_all add: lx_collect_line_def lx_collect_block_def Let_def norm_line_comment norm_block_comment)
qed

lemma norm_comment_start:
  assumes "lx_comment_start x = (status, y)" "no_token x" "status \<noteq> SLASH_NOT_COMMENT"
  shows "lx_comment_start (norm x) = (status, norm y)"
  using assms by (auto simp: lx_comment_start_def Let_def split: if_splits)

section \<open>Tokens and the string of comments\<close>

definition with_content :: "bytes \<Rightarrow> lexer \<Rightarrow> lexer" where
  "with_content b x = x\<lparr>tz_content := b\<rparr>"

definition no_comment :: "lexer \<Rightarrow> bool" where
  "no_comment x \<longleftrightarrow> tz_record_target x \<noteq> Some Content"

lemma content_fields [simp]:
  "lx_text (with_content b x) = lx_text x" "tz_record_target (with_content b x) = tz_record_target x"
  "tz_comment_style (with_content b x) = tz_comment_style x" "peek (with_content b x) = peek x"
  "tz_allow_f_after_float (with_content b x) = tz_allow_f_after_float x"
  "tz_allow_multiline_strings (with_content b x) = tz_allow_multiline_strings x"
  "tz_line (with_content b x) = tz_line x" "tz_column (with_content b x) = tz_column x"
  "no_comment (with_content b x) = no_comment x" "tz_current (with_content b x) = tz_current x"
  by (simp_all add: with_content_def peek_def no_comment_def)

lemma content_updates [simp]:
  "tz_AddError m (with_content b x) = with_content b (tz_AddError m x)"
  "tz_AddError_at l k m (with_content b x) = with_content b (tz_AddError_at l k m x)"
  "tz_set_type ty (with_content b x) = with_content b (tz_set_type ty x)"
  "tz_check_dot (with_content b x) = with_content b (tz_check_dot x)"
  "tz_check_ascii c (with_content b x) = with_content b (tz_check_ascii c x)"
  "tz_CheckNumberEnd c f (with_content b x) = with_content b (tz_CheckNumberEnd c f x)"
  "tz_slash_token (with_content b x) = with_content b (tz_slash_token x)"
  "tz_end_of_input (with_content b x) = with_content b (tz_end_of_input x)"
  "lx_start_token (with_content b x) = with_content b (lx_start_token x)"
  "lx_end_token (with_content b x) = with_content b (lx_end_token x)"
  by (simp_all add: with_content_def tz_AddError_def tz_AddError_at_def tz_set_type_def tz_check_dot_def tz_check_ascii_def
      tz_CheckNumberEnd_def tz_slash_token_def tz_end_of_input_def lx_start_token_def lx_end_token_def)

lemma content_count_chars: "count_chars bs (with_content b x) = with_content b (count_chars bs x)"
proof (induction bs arbitrary: x)
  case (Cons c bs)
  have "count_char c (with_content b x) = with_content b (count_char c x)" by (simp add: with_content_def count_char_def)
  then show ?case using Cons.IH by (simp add: count_chars_Cons)
qed (simp add: count_chars_def)

lemma content_chars:
  assumes "no_comment x"
  shows "lx_chars bs (with_content b x) = with_content b (lx_chars bs x)"
proof -
  have "append_to_target bs (with_content b (count_chars bs x)) = with_content b (append_to_target bs (count_chars bs x))"
    using assms by (auto simp: with_content_def no_comment_def append_to_target_def split: target_splits)
  moreover have "with_content b y\<lparr>lx_text := l\<rparr> = with_content b (y\<lparr>lx_text := l\<rparr>)" for y l
    by (simp add: with_content_def)
  ultimately show ?thesis by (simp add: lx_chars_def content_count_chars)
qed

lemma content_steps [simp]:
  assumes "no_comment x"
  shows "lx_char (with_content b x) = with_content b (lx_char x)" "lx_while C (with_content b x) = with_content b (lx_while C x)"
    "lx_try C (with_content b x) = map_prod id (with_content b) (lx_try C x)"
    "lx_one_or_more C m (with_content b x) = with_content b (lx_one_or_more C m x)"
  using content_chars [OF assms] by (simp_all add: lx_char_def lx_while_def lx_try_def lx_one_or_more_def)

lemma no_comment_error [simp]: "no_comment (tz_AddError m x) = no_comment x" "no_comment (tz_AddError_at l k m x) = no_comment x"
  by (simp_all add: no_comment_def)

lemma no_comment_steps [simp]:
  "no_comment (lx_char x) = no_comment x" "no_comment (lx_while C x) = no_comment x" "no_comment (snd (lx_try C x)) = no_comment x"
  "no_comment (lx_one_or_more C m x) = no_comment x"
  by (simp_all add: no_comment_def lx_one_or_more_def)

lemma no_comment_step: "lx_step x y \<Longrightarrow> no_comment y = no_comment x"
  by (auto simp: lx_step_def no_comment_def)

lemma content_try_all: "no_comment x \<Longrightarrow> lx_try_all Cs (with_content b x) = map_prod id (with_content b) (lx_try_all Cs x)"
proof (induction Cs arbitrary: x)
  case (Cons C Cs)
  then show ?case
    using Cons.IH [of "snd (lx_try C x)"] by (simp add: split_def Let_def map_prod_def)
qed simp

lemma content_escape: "no_comment x \<Longrightarrow> lx_escape (with_content b x) = with_content b (lx_escape x)"
  by (simp add: lx_escape_def content_try_all split_def Let_def map_prod_def del: lx_try_all.simps append.simps)

lemma content_string: "no_comment x \<Longrightarrow> lx_string q (with_content b x) = with_content b (lx_string q x)"
proof (induction q x rule: lx_string.induct)
  case (1 q x)
  have "no_comment (lx_escape (lx_char x))"
    using 1(4) no_comment_step [OF lx_step_escape, of "lx_char x"] by simp
  then show ?case
    using 1 content_escape [of "lx_char x" b]
    by (subst (1 2) lx_string.simps) (simp del: append.simps)
qed

lemma content_exponent: "no_comment x \<Longrightarrow> lx_exponent f (with_content b x) = map_prod id (with_content b) (lx_exponent f x)"
  by (simp add: lx_exponent_def split_def Let_def map_prod_def del: append.simps)

lemma content_decimal: "no_comment x \<Longrightarrow> lx_decimal d (with_content b x) = map_prod id (with_content b) (lx_decimal d x)"
  by (simp add: lx_decimal_def content_exponent Let_def)

lemma content_number: "no_comment x \<Longrightarrow> lx_number z d (with_content b x) = map_prod id (with_content b) (lx_number z d x)"
  by (cases "z \<and> (peek x = 0x78 \<or> peek x = 0x58)"; cases "z \<and> Digit (peek x)")
    (simp_all add: lx_number_def content_decimal split_def Let_def map_prod_def del: append.simps de_Morgan_conj)

lemma content_read_token: "no_comment x \<Longrightarrow> lx_read_token (with_content b x) = map_prod id (with_content b) (lx_read_token x)"
  using no_comment_step [OF lx_step_check(1), of "lx_char (lx_char x)"] no_comment_step [OF lx_step_check(2), of "peek x" x]
  by (simp add: lx_read_token_def content_number content_string Let_def)

lemma content_token: "lx_token (with_content b x) = with_content b (lx_token x)"
proof -
  have "no_comment (lx_start_token x)" by (simp add: no_comment_def lx_start_token_def)
  then show ?thesis by (simp add: lx_token_def content_read_token split_def Let_def map_prod_def)
qed

lemma content_line_comment: "no_comment x \<Longrightarrow> lx_line_comment False (with_content b x) = with_content b (lx_line_comment False x)"
  by (simp add: lx_line_comment_def map_prod_def split_def)

lemma content_star_slash: "no_comment x \<Longrightarrow> lx_star_slash (with_content b x) = map_prod id (with_content b) (lx_star_slash x)"
  unfolding lx_star_slash_def by (rule content_try_all)

lemma content_block_loop: "no_comment x \<Longrightarrow> lx_block_loop False l k (with_content b x) = with_content b (lx_block_loop False l k x)"
proof (induction "False" l k x rule: lx_block_loop.induct)
  case (1 l k x)
  define N where "N = (\<lambda>c :: 8 word. c \<noteq> 0 \<and> c \<noteq> 0x2A \<and> c \<noteq> 0x2F \<and> c \<noteq> 0x0A)"
  define w where "w = lx_while N x"
  define v where "v = lx_while WhitespaceNoNewline (lx_char w)"
  note IH = 1(1-3) [OF w_def [unfolded N_def]]
  obtain ok1 y1 where y1: "lx_star_slash v = (ok1, y1)" by fastforce
  then have y1': "(ok1, y1) = lx_star_slash (lx_while WhitespaceNoNewline (lx_record False None (lx_char w)))"
    by (simp add: v_def)
  obtain ok2 y2 where y2: "lx_star_slash w = (ok2, y2)" by fastforce
  obtain sl z where z: "lx_try (\<lambda>c. c = 0x2F) y2 = (sl, z)" by fastforce
  have w: "no_comment w" "no_comment v" using 1(4) by (simp_all add: w_def v_def)
  have n: "no_comment y1" "no_comment y2"
    using no_comment_step [OF lx_star_slash_step, of v] no_comment_step [OF lx_star_slash_step, of w] y1 y2 w by simp_all
  then have nz: "no_comment z" using no_comment_steps(3) [of "\<lambda>c. c = 0x2F" y2] z by simp
  have u: "lx_while N (with_content b x) = with_content b w" using 1(4) by (simp add: w_def)
  have c1: "lx_star_slash (with_content b v) = (ok1, with_content b y1)"
    "lx_while WhitespaceNoNewline (lx_char (with_content b w)) = with_content b v"
    using content_star_slash [OF w(2), of b] y1 w(1) by (simp_all add: v_def)
  have c2: "lx_star_slash (with_content b w) = (ok2, with_content b y2)"
    using content_star_slash [OF w(1), of b] y2 by simp
  have c3: "lx_try (\<lambda>c. c = 0x2F) (with_content b y2) = (sl, with_content b z)"
    using z n(2) by simp
  show ?case
  proof (cases "peek w = 0x0A")
    case True
    have "\<not> ok1 \<Longrightarrow> lx_block_loop False l k (with_content b y1) = with_content b (lx_block_loop False l k y1)"
      using IH(1) [OF True y1' refl] n(1) by simp
    then show ?thesis
      using True c1 y1 u by (subst (1 2) lx_block_loop.simps) (simp add: N_def [symmetric] w_def [symmetric] v_def [symmetric])
  next
    case False
    then show ?thesis
      using IH(2) [OF False y2 [symmetric] refl _ z [symmetric] refl] IH(3) [OF False y2 [symmetric] refl _ z [symmetric] refl] nz c2 c3 y2 z u
      by (subst (1 2) lx_block_loop.simps) (simp add: N_def [symmetric] w_def [symmetric] del: append.simps)
  qed
qed

lemma content_block_comment: "no_comment x \<Longrightarrow> lx_block_comment False (with_content b x) = with_content b (lx_block_comment False x)"
  by (simp add: lx_block_comment_def content_block_loop)

lemma content_comment_start:
  "no_comment x \<Longrightarrow> lx_comment_start (with_content b x) = map_prod id (with_content b) (lx_comment_start x)"
  by (simp add: lx_comment_start_def Let_def)

lemma content_control: "no_comment x \<Longrightarrow> lx_control (with_content b x) = with_content b (lx_control x)"
  by (simp add: lx_control_def)

lemma no_comment_None: "tz_record_target x = None \<Longrightarrow> no_comment x"
  by (simp add: no_comment_def)

lemma content_next_loop:
  "tz_record_target x = None \<Longrightarrow> lx_next_loop (with_content b x) = map_prod id (with_content b) (lx_next_loop x)"
proof (induction x rule: lx_next_loop.induct)
  case (1 x)
  define w where "w = lx_while Whitespace x"
  obtain status y where y: "lx_comment_start w = (status, y)" by fastforce
  have w: "tz_record_target w = None" using 1(4) by (simp add: w_def)
  have ty: "tz_record_target y = None" by (rule lx_next_targets(3) [OF w y])
  have cw: "lx_while Whitespace (with_content b x) = with_content b w"
    using no_comment_None [OF 1(4)] by (simp add: w_def)
  have cy: "lx_comment_start (with_content b w) = (status, with_content b y)"
    using content_comment_start [OF no_comment_None [OF w]] y by simp
  note step = content_line_comment [OF no_comment_None [OF ty]] content_block_comment [OF no_comment_None [OF ty]]
    content_control [OF no_comment_None [OF ty]] content_token
  show ?case
    using 1(1-3) [OF _ y [unfolded w_def, symmetric] refl] lx_next_targets(1,2) [OF ty] lx_next_targets(4) [of y] ty
    by (subst (1 2) lx_next_loop.simps) (cases status; simp add: cw cy step y id_def w_def [symmetric])
qed

section \<open>White space\<close>

lemma takeWhile_twice: "(\<And>c. C c \<Longrightarrow> D c) \<Longrightarrow> takeWhile C p @ takeWhile D (dropWhile C p) = takeWhile D p"
  by (induction p) auto

lemma lx_while_twice: "(\<And>c. C c \<Longrightarrow> D c) \<Longrightarrow> lx_while D (lx_while C x) = lx_while D x"
  by (simp add: lx_while_def lx_chars_chars dropWhile_eq_drop [symmetric] takeWhile_twice)

lemma lx_while_skip: "D (peek x) \<Longrightarrow> lx_text x \<noteq> [] \<Longrightarrow> lx_while D (lx_char x) = lx_while D x"
  by (cases "lx_text x") (simp_all add: lx_while_def lx_char_def lx_chars_chars peek_def)

lemma lx_while_stop: "\<not> D (peek x) \<Longrightarrow> lx_while D x = x"
  by (cases "lx_text x") (simp_all add: lx_while_def peek_def)

lemma lx_next_loop_while: "lx_next_loop x = lx_next_loop (lx_while Whitespace x)"
proof (cases "lx_text x = []")
  case True
  then show ?thesis by (simp add: lx_while_def)
next
  case False
  have idem: "lx_while Whitespace (lx_while Whitespace x) = lx_while Whitespace x" by (rule lx_while_twice)
  show ?thesis
  proof (cases "lx_text (lx_while Whitespace x) = []")
    case True
    then have "peek (lx_while Whitespace x) = 0" by (simp add: peek_def)
    then have "lx_comment_start (lx_while Whitespace x) = (NO_COMMENT, lx_while Whitespace x)" by (simp add: lx_comment_start_def)
    then show ?thesis using False True by (subst (1 2) lx_next_loop.simps) simp
  next
    case ne: False
    then show ?thesis using False by (subst (1 2) lx_next_loop.simps) (simp add: idem)
  qed
qed

lemma lx_next_loop_same: "lx_while Whitespace x = lx_while Whitespace y \<Longrightarrow> lx_next_loop x = lx_next_loop y"
  using lx_next_loop_while by metis

lemma blank_Whitespace: "WhitespaceNoNewline c \<Longrightarrow> Whitespace c"
  by (auto simp: WhitespaceNoNewline_def Whitespace_def)

lemma lx_next_loop_blanks: "lx_next_loop (lx_while WhitespaceNoNewline x) = lx_next_loop x"
  by (rule lx_next_loop_same [OF lx_while_twice [OF blank_Whitespace]])

lemma lx_next_loop_newline: "lx_next_loop (snd (lx_newline x)) = lx_next_loop x"
proof (cases "peek x = 0x0A")
  case True
  then have "lx_text x \<noteq> []" "Whitespace (peek x)" by (auto simp: peek_def Whitespace_def)
  then show ?thesis using True by (simp add: lx_newline_def lx_try_def lx_next_loop_same [OF lx_while_skip])
qed (simp add: lx_newline_def lx_try_def)

section \<open>The same tokens\<close>

definition same_token :: "(bool \<times> comment_collector) \<times> lexer \<Rightarrow> bool \<times> lexer \<Rightarrow> bool" where
  "same_token r q \<longleftrightarrow> fst (fst r) = fst q \<and> norm (snd r) = norm (snd q)"

lemma Next_norm:
  assumes "tz_record_target x = None"
  shows "fst (lx_Next x) = fst (lx_next_loop (norm x)) \<and> norm (snd (lx_Next x)) = norm (snd (lx_next_loop (norm x)))"
proof -
  have x: "x\<lparr>tz_previous := tz_current x\<rparr> = with_content (tz_content x) (norm x)"
    using assms by (simp add: with_content_def norm_def)
  have "norm (with_content b y) = norm y" for b y by (simp add: norm_def with_content_def)
  then show ?thesis
    using content_next_loop [of "norm x" "tz_content x"] by (simp add: lx_Next_def x)
qed

lemma norm_newline: "no_token x \<Longrightarrow> norm (snd (lx_newline x)) = snd (lx_newline (norm x))"
  by (simp add: lx_newline_def)

lemma slash_norm: "norm (tz_slash_token x) = norm (tz_slash_token (norm x))"
  by (simp add: norm_def tz_slash_token_def)

lemma comment_start_blanks:
  \<comment> \<open>A comment starts where \<open>Next\<close> too sees it start.\<close>
  assumes "lx_comment_start (lx_while WhitespaceNoNewline x) = (status, y)" "tz_record_target x = None" "status \<noteq> NO_COMMENT"
  shows "lx_while Whitespace (norm x) = norm (lx_while WhitespaceNoNewline x)" "lx_text x \<noteq> []"
proof -
  let ?w = "lx_while WhitespaceNoNewline x"
  have n: "no_token x" using assms(2) by (simp add: no_token_def)
  have "peek ?w = 0x2F \<or> peek ?w = 0x23"
    using assms(1,3) by (auto simp: lx_comment_start_def split: if_splits)
  then have p: "\<not> Whitespace (peek ?w)" "peek ?w \<noteq> 0" by (auto simp: Whitespace_def)
  have "lx_while Whitespace (norm x) = lx_while Whitespace (lx_while WhitespaceNoNewline (norm x))"
    by (simp add: lx_while_twice [OF blank_Whitespace])
  also have "\<dots> = lx_while Whitespace (norm ?w)" using n by simp
  also have "\<dots> = norm ?w" by (rule lx_while_stop) (simp only: norm_fields p(1) not_False_eq_True)
  finally show "lx_while Whitespace (norm x) = norm ?w" .
  show "lx_text x \<noteq> []" using peek_text [OF p(2)] by (auto simp: lx_while_def)
qed

lemma lx_next_loop_comment:
  assumes "lx_comment_start (lx_while WhitespaceNoNewline x) = (status, y)" "tz_record_target x = None"
  shows "status = LINE_COMMENT \<Longrightarrow> lx_next_loop (norm x) = lx_next_loop (lx_line_comment False (norm y))"
    "status = BLOCK_COMMENT \<Longrightarrow> lx_next_loop (norm x) = lx_next_loop (lx_block_comment False (norm y))"
    "status = SLASH_NOT_COMMENT \<Longrightarrow> fst (lx_next_loop (norm x)) \<and> norm (snd (lx_next_loop (norm x))) = norm y"
proof -
  let ?w = "lx_while WhitespaceNoNewline x"
  have n: "no_token ?w" using assms(2) by (simp add: no_token_def)
  show "lx_next_loop (norm x) = lx_next_loop (lx_line_comment False (norm y))" if "status = LINE_COMMENT"
    using comment_start_blanks [OF assms] norm_comment_start [OF assms(1) n] that
    by (subst lx_next_loop.simps) simp
  show "lx_next_loop (norm x) = lx_next_loop (lx_block_comment False (norm y))" if "status = BLOCK_COMMENT"
    using comment_start_blanks [OF assms] norm_comment_start [OF assms(1) n] that
    by (subst lx_next_loop.simps) simp
  show "fst (lx_next_loop (norm x)) \<and> norm (snd (lx_next_loop (norm x))) = norm y" if slash: "status = SLASH_NOT_COMMENT"
  proof -
    have y: "y = tz_slash_token (lx_char ?w)" and "lx_comment_start (norm ?w) = (SLASH_NOT_COMMENT, tz_slash_token (lx_char (norm ?w)))"
      using assms(1) slash by (auto simp: lx_comment_start_def Let_def split: if_splits)
    then have "lx_next_loop (norm x) = (True, tz_slash_token (lx_char (norm ?w)))"
      using comment_start_blanks [OF assms] slash by (subst lx_next_loop.simps) simp
    then show ?thesis using y slash_norm [of "lx_char ?w"] n by simp
  qed
qed

lemma same_token_result: "same_token ((b, c), y) (lx_next_loop x) \<longleftrightarrow> fst (lx_next_loop x) = b \<and> norm y = norm (snd (lx_next_loop x))"
  by (auto simp: same_token_def)

lemma same_token_Next:
  assumes "tz_record_target x = None"
  shows "same_token (let (result, y) = lx_Next x in ((result, f result y), y)) (lx_next_loop (norm x))"
  using Next_norm [OF assms] by (simp add: same_token_def split_def Let_def)

lemma blanks_newline:
  \<comment> \<open>Blanks and a line end may be skipped before \<open>Next\<close>.\<close>
  assumes "no_token x"
  shows "lx_next_loop (norm (snd (lx_newline (lx_while WhitespaceNoNewline x)))) = lx_next_loop (norm x)"
  using norm_newline [of "lx_while WhitespaceNoNewline x"] assms by (simp add: lx_next_loop_newline lx_next_loop_blanks)

lemma comments_loop_same:
  "tz_record_target x = None \<Longrightarrow> same_token (lx_comments_loop c x) (lx_next_loop (norm x))"
proof (induction c x rule: lx_comments_loop.induct)
  case (1 c x)
  define w where "w = lx_while WhitespaceNoNewline x"
  obtain status y where y: "lx_comment_start w = (status, y)" by fastforce
  have w_target: "tz_record_target w = None" using "1.prems" by (simp add: w_def)
  then have y_target: "tz_record_target y = None" by (rule lx_next_targets(3) [OF _ y])
  note IH = "1.IH" [OF y [unfolded w_def, symmetric] refl]
  note skipped = lx_next_loop_comment [OF y [unfolded w_def] "1.prems"]
  have n: "no_token y" "no_token w" using y_target w_target by (simp_all add: no_token_def)
  show ?case
  proof (cases status)
    case LINE_COMMENT
    obtain d z where z: "lx_collect_line c y = (d, z)" by fastforce
    have "tz_record_target z = None" using lx_collect_target(1) [OF y_target, of c] z by simp
    then have "same_token (lx_comments_loop d z) (lx_next_loop (norm z))"
      by (rule IH(1) [OF LINE_COMMENT z [symmetric] refl])
    moreover have "norm z = lx_line_comment False (norm y)" using norm_collect(1) [OF n(1), of c] z by simp
    ultimately show ?thesis
      using skipped(1) [OF LINE_COMMENT] LINE_COMMENT y z by (subst lx_comments_loop.simps) (simp add: w_def [symmetric])
  next
    case BLOCK_COMMENT
    obtain d z where z: "lx_collect_block c y = (d, z)" by fastforce
    have z_target: "tz_record_target z = None" using lx_collect_target(2) [OF y_target, of c] z by simp
    let ?u = "snd (lx_newline (lx_while WhitespaceNoNewline z))"
    have "tz_record_target ?u = None" using z_target by (simp add: lx_newline_target)
    then have "same_token (lx_comments_loop d ?u) (lx_next_loop (norm ?u))"
      by (rule IH(2) [OF BLOCK_COMMENT z [symmetric] refl])
    moreover have "lx_next_loop (norm ?u) = lx_next_loop (norm z)"
      by (rule blanks_newline) (simp add: no_token_def z_target)
    moreover have "norm z = lx_block_comment False (norm y)" using norm_collect(2) [OF n(1), of c] z by simp
    ultimately show ?thesis
      using skipped(2) [OF BLOCK_COMMENT] BLOCK_COMMENT y z by (subst lx_comments_loop.simps) (simp add: w_def [symmetric])
  next
    case SLASH_NOT_COMMENT
    then show ?thesis
      using skipped(3) y by (subst lx_comments_loop.simps) (simp add: w_def [symmetric] same_token_result)
  next
    case NO_COMMENT
    then have "y = w" using lx_comment_start_none [of w y] y by simp
    obtain newline z where z: "lx_newline y = (newline, z)" by fastforce
    have z_target: "tz_record_target z = None" using lx_newline_target [of y] y_target z by simp
    have skip: "lx_next_loop (norm z) = lx_next_loop (norm x)"
      using blanks_newline [of x] z "1.prems" \<open>y = w\<close> by (simp add: w_def no_token_def)
    show ?thesis
    proof (cases newline)
      case True
      then show ?thesis
        using IH(3) [OF NO_COMMENT z [symmetric] refl _ z_target] NO_COMMENT y z skip
        by (subst lx_comments_loop.simps) (simp add: w_def [symmetric])
    next
      case False
      then show ?thesis
        using same_token_Next [OF z_target, of "\<lambda>b y. if at_scope_end b (tz_current y) then Flush c else c"] NO_COMMENT y z skip
        by (subst lx_comments_loop.simps) (simp add: w_def [symmetric])
    qed
  qed
qed

lemma same_line_same:
  assumes "tz_record_target x = None"
  shows "same_token (lx_same_line c x) (lx_next_loop (norm x))"
proof -
  define w where "w = lx_while WhitespaceNoNewline x"
  obtain status y where y: "lx_comment_start w = (status, y)" by fastforce
  have w_target: "tz_record_target w = None" using assms by (simp add: w_def)
  then have y_target: "tz_record_target y = None" by (rule lx_next_targets(3) [OF _ y])
  note skipped = lx_next_loop_comment [OF y [unfolded w_def] assms]
  have n: "no_token y" "no_token w" using y_target w_target by (simp_all add: no_token_def)
  show ?thesis
  proof (cases status)
    case LINE_COMMENT
    obtain d z where z: "lx_collect_line c y = (d, z)" by fastforce
    have "tz_record_target z = None" using lx_collect_target(1) [OF y_target, of c] z by simp
    then have "same_token (lx_comments_loop (Flush d) z) (lx_next_loop (norm z))" by (rule comments_loop_same)
    moreover have "norm z = lx_line_comment False (norm y)" using norm_collect(1) [OF n(1), of c] z by simp
    ultimately show ?thesis
      using skipped(1) [OF LINE_COMMENT] LINE_COMMENT y z by (simp add: lx_same_line_def w_def [symmetric])
  next
    case BLOCK_COMMENT
    obtain d z where z: "lx_collect_block c y = (d, z)" by fastforce
    have z_target: "tz_record_target z = None" using lx_collect_target(2) [OF y_target, of c] z by simp
    obtain newline u where u: "lx_newline (lx_while WhitespaceNoNewline z) = (newline, u)" by fastforce
    have u_target: "tz_record_target u = None"
      using z_target lx_newline_target [of "lx_while WhitespaceNoNewline z"] u by simp
    have "lx_next_loop (norm u) = lx_next_loop (norm z)"
      using blanks_newline [of z] u z_target by (simp add: no_token_def)
    moreover have "norm z = lx_block_comment False (norm y)" using norm_collect(2) [OF n(1), of c] z by simp
    ultimately show ?thesis
      using skipped(2) [OF BLOCK_COMMENT] BLOCK_COMMENT y z u comments_loop_same [OF u_target] same_token_Next [OF u_target]
      by (simp add: lx_same_line_def w_def [symmetric])
  next
    case SLASH_NOT_COMMENT
    then show ?thesis using skipped(3) y by (simp add: lx_same_line_def w_def [symmetric] same_token_result)
  next
    case NO_COMMENT
    then have "y = w" using lx_comment_start_none [of w y] y by simp
    obtain newline z where z: "lx_newline y = (newline, z)" by fastforce
    have z_target: "tz_record_target z = None" using lx_newline_target [of y] y_target z by simp
    have "lx_next_loop (norm z) = lx_next_loop (norm x)"
      using blanks_newline [of x] z assms \<open>y = w\<close> by (simp add: w_def no_token_def)
    then show ?thesis
      using NO_COMMENT y z comments_loop_same [OF z_target] same_token_Next [OF z_target]
      by (simp add: lx_same_line_def w_def [symmetric])
  qed
qed

lemma NextWithComments_same:
  assumes "tz_record_target x = None" "tok_type (tz_current x) \<noteq> TYPE_START \<or> peek x \<noteq> 0xEF"
  shows "fst (fst (lx_NextWithComments prev detached next x)) = fst (lx_Next x) \<and>
    norm (snd (lx_NextWithComments prev detached next x)) = norm (snd (lx_Next x))"
proof -
  let ?c = "CommentCollector prev detached next"
  define r where "r = (if tok_type (tz_current x) = TYPE_START then
        let (ok, x) = lx_byte_order_mark x in
        if ok then lx_comments_loop (DetachFromPrev ?c) x else ((False, ?c), x)
      else lx_same_line ?c x)"
  have "same_token r (lx_next_loop (norm x))"
    using assms same_line_same [OF assms(1)] comments_loop_same [OF assms(1)]
    by (auto simp: r_def lx_byte_order_mark_def)
  moreover have "fst (fst (lx_NextWithComments prev detached next x)) = fst (fst r)"
    "snd (lx_NextWithComments prev detached next x) = snd r"
    by (simp_all add: lx_NextWithComments_def r_def Let_def split_def)
  ultimately show ?thesis
    using Next_norm [OF assms(1)] by (simp add: same_token_def)
qed

lemma norm_eq_fields:
  assumes "norm x = norm y"
  shows "tz_current x = tz_current y" "tz_errors x = tz_errors y" "lx_pos x = lx_pos y" "lx_text x = lx_text y"
  using assms by (cases x; cases y; simp add: norm_def lx_pos_def)+

section \<open>Nothing is being recorded behind the call\<close>

lemma lx_comments_loop_target: "tz_record_target x = None \<Longrightarrow> tz_record_target (snd (lx_comments_loop c x)) = None"
proof (induction c x rule: lx_comments_loop.induct)
  case (1 c x)
  obtain status y where y: "lx_comment_start (lx_while WhitespaceNoNewline x) = (status, y)" by fastforce
  have y_target: "tz_record_target y = None" by (rule lx_next_targets(3) [OF _ y]) (use "1.prems" in simp)
  note IH = "1.IH" [OF y [symmetric] refl]
  obtain d z where z: "lx_collect_line c y = (d, z)" by fastforce
  obtain e v where v: "lx_collect_block c y = (e, v)" by fastforce
  obtain newline w where w: "lx_newline y = (newline, w)" by fastforce
  have "tz_record_target z = None" "tz_record_target v = None" "tz_record_target w = None"
    using lx_collect_target [OF y_target, of c] lx_newline_target [of y] y_target z v w by simp_all
  then show ?case
    using IH(1) [OF _ z [symmetric] refl] IH(2) [OF _ v [symmetric] refl] IH(3) [OF _ w [symmetric] refl]
      lx_Next_target [of w] y_target y z v w
    by (subst lx_comments_loop.simps) (cases status; simp add: split_def Let_def lx_newline_target)
qed

lemma lx_same_line_target:
  assumes "tz_record_target x = None"
  shows "tz_record_target (snd (lx_same_line c x)) = None"
proof -
  obtain status y where y: "lx_comment_start (lx_while WhitespaceNoNewline x) = (status, y)" by fastforce
  have "tz_record_target y = None" by (rule lx_next_targets(3) [OF _ y]) (use assms in simp)
  then show ?thesis
    using y lx_collect_target [of y c]
    by (cases status) (simp_all add: lx_same_line_def split_def Let_def lx_comments_loop_target lx_Next_target lx_newline_target)
qed

lemma lx_NextWithComments_target:
  assumes "tz_record_target x = None"
  shows "tz_record_target (snd (lx_NextWithComments prev detached next x)) = None"
  using assms lx_byte_order_mark_target [of x]
  by (simp add: lx_NextWithComments_def split_def Let_def lx_comments_loop_target lx_same_line_target)

end
