(* ===== verification/Tokenizer_Properties.thy ===== *)
theory Tokenizer_Properties
  imports Tokenizer_Tokens Comment_Tokens Example_Streams
begin

text \<open>
  The properties of the tokenizer, on every input stream that keeps its contract, and of the values of
  its tokens; with the witnesses, which run on an \<open>ArrayInputStream\<close>.
\<close>

section \<open>Kinds of tokens\<close>

definition tz_unread :: "('s \<Rightarrow> bytes) \<Rightarrow> 's tokenizer \<Rightarrow> bytes" where
  \<comment> \<open>The bytes the tokenizer has not consumed: of its buffer, and of the stream.\<close>
  "tz_unread rest s = drop (nat (tz_buffer_pos s)) (tz_buffer s) @ rest (tz_input s)"

lemma lx_next_loop_token:
  "lx_next_loop x = (True, y) \<Longrightarrow> (\<exists>z. lx_text z \<noteq> [] \<and> y = lx_token z) \<or> tok_type (tz_current y) = TYPE_SYMBOL"
proof (induction x rule: lx_next_loop.induct)
  case (1 x)
  obtain status z where z: "lx_comment_start (lx_while Whitespace x) = (status, z)" by fastforce
  have ne: "lx_text x \<noteq> []" using 1(4) by (subst (asm) lx_next_loop.simps) (auto split: if_splits)
  note IH = 1(1-3) [OF ne z [symmetric] refl]
  note y = 1(4) [unfolded lx_next_loop.simps [of x] z, simplified ne Let_def prod.case if_False]
  show ?case
  proof (cases status)
    case SLASH_NOT_COMMENT
    then have "y = z" using y by simp
    moreover have "z = tz_slash_token (lx_char (lx_while Whitespace x))"
      using z SLASH_NOT_COMMENT by (auto simp: lx_comment_start_def Let_def split: if_splits)
    ultimately show ?thesis by (simp add: tz_slash_token_def)
  next
    case NO_COMMENT
    then show ?thesis using y IH(3) by (auto split: if_splits)
  qed (use y IH(1,2) in auto)
qed

lemma lx_read_token_type:
  "fst (lx_read_token x) \<noteq> TYPE_START \<and> fst (lx_read_token x) \<noteq> TYPE_END \<and>
     (fst (lx_read_token x) = TYPE_IDENTIFIER \<longrightarrow> Letter (peek x))"
  by (auto simp: lx_read_token_def lx_number_def Let_def split_def)

lemma lx_token_type:
  assumes "lx_text x \<noteq> []"
  shows "tok_type (tz_current (lx_token x)) \<noteq> TYPE_START" "tok_type (tz_current (lx_token x)) \<noteq> TYPE_END"
    "tok_type (tz_current (lx_token x)) = TYPE_IDENTIFIER \<Longrightarrow> IsIdentifier (tok_text (tz_current (lx_token x)))"
proof -
  let ?s = "lx_start_token x"
  have ty: "tok_type (tz_current (lx_token x)) = fst (lx_read_token ?s)"
    by (simp add: lx_token_def split_def Let_def lx_end_token_def tz_set_type_def)
  show "tok_type (tz_current (lx_token x)) \<noteq> TYPE_START" "tok_type (tz_current (lx_token x)) \<noteq> TYPE_END"
    using lx_read_token_type [of ?s] ty by simp_all
  show "IsIdentifier (tok_text (tz_current (lx_token x)))" if "tok_type (tz_current (lx_token x)) = TYPE_IDENTIFIER"
  proof -
    obtain c p where s: "lx_text ?s = c # p" using assms by (cases "lx_text x") (simp_all add: lx_start_token_def)
    have letter: "Letter c" using lx_read_token_type [of ?s] ty that peek_Cons [OF s] by simp
    let ?id = "c # takeWhile Alphanumeric p"
    have "lx_read_token ?s = (TYPE_IDENTIFIER, lx_chars ?id ?s)"
      using letter peek_Cons [OF s] by (simp add: lx_read_token_def lx_while_def lx_char_chars [OF s] lx_chars_chars s)
    from lx_token_chars(2) [OF this] show ?thesis
      using letter set_takeWhileD by (force simp: IsIdentifier_def list_all_iff)
  qed
qed

lemma lx_Next_type:
  assumes "lx_Next x = (True, y)"
  shows "tok_type (tz_current y) \<noteq> TYPE_START" "tok_type (tz_current y) \<noteq> TYPE_END"
    "tok_type (tz_current y) = TYPE_IDENTIFIER \<Longrightarrow> IsIdentifier (tok_text (tz_current y))"
  using lx_next_loop_token [OF assms [unfolded lx_Next_def]] lx_token_type by auto

context zero_copy_input begin

lemma tz_rel_unread: "tz_rel s x \<Longrightarrow> tz_unread rest s = lx_text x"
  by (simp add: tz_unread_def tz_rel_text)

lemma Next_slice:
  assumes "tz_rel s x" "tz_record_target s = None" "tz_Next ops s = Some (True, t)"
  shows "\<exists>y skipped. lx_Next x = (True, y) \<and> tz_rel t y \<and> tz_record_target t = None \<and> tz_current t = tz_current y \<and>
    token_slice skipped x y"
proof -
  have none: "tz_record_target x = None" using tz_rel_same(3) assms(1,2) by simp
  obtain y where y: "lx_Next x = (True, y)" "tz_rel t y"
    using Next_ok [OF assms(1) none] assms(3) by (cases "lx_Next x") (auto simp: outcome_def)
  then have "tz_record_target y = None" using lx_Next_target [OF none] by simp
  with y lx_Next_slice [OF y(1)] show ?thesis
    using tz_rel_current tz_rel_same(3) by metis
qed

lemma first_token_ok:
  \<comment> \<open>The first token of a stream is that of the reference lexer on its bytes.\<close>
  assumes "inv i" "lx_Next (tz_configure options (lexer_start (rest i))) = (b, y)"
  shows "\<exists>s t j. Tokenizer ops i = Some s \<and> tz_Next ops (tz_configure options s) = Some (b, t) \<and>
    tz_current t = tz_current y \<and> tz_errors t = tz_errors y \<and>
    Tokenizer_destroy ops t = Some j \<and> inv j \<and> rest j = lx_text y"
proof -
  let ?x = "tz_configure options (lexer_start (rest i))"
  obtain s where s: "Tokenizer ops i = Some s" "tz_rel s (lexer_start (rest i))"
    using Tokenizer_ok [OF assms(1)] by blast
  have x: "tz_rel (tz_configure options s) ?x" "tz_record_target ?x = None"
    by (rule configure_ok [OF s(2)]) simp_all
  obtain t where t: "tz_Next ops (tz_configure options s) = Some (b, t)" "tz_rel t y"
    using Next_ok [OF x] assms(2) by (auto simp: outcome_def)
  have "tz_record_target y = None" using lx_Next_target [OF x(2)] assms(2) by simp
  then show ?thesis
    using s(1) t destroy_ok [OF t(2)] tz_rel_current [OF t(2)] tz_rel_same(9) [OF t(2)] by blast
qed

end

lemma configured_text [simp]:
  "lx_text (tz_configure options x) = lx_text x" "tz_errors (tz_configure options s) = tz_errors s"
  by (simp_all add: tz_configure_def set_allow_f_after_float_def set_comment_style_def set_require_space_after_number_def
      set_allow_multiline_strings_def split: prod.split)

lemma array_stream:
  "int (length bs) \<le> INT_MAX \<Longrightarrow> array_input_inv (ArrayInputStream bs k) \<and> array_input_rest (ArrayInputStream bs k) = bs"
  by (simp add: array_input_start)

lemma small_array: "int (length [a, b, c]) \<le> INT_MAX" "int (length [a, b]) \<le> INT_MAX" "int (length [a]) \<le> INT_MAX"
  by (simp_all add: INT_MAX_def)

lemma first_identifier:
  assumes "lx_text x = ident @ p" "IsIdentifier ident" "p = [] \<or> \<not> Alphanumeric (hd p)"
  shows "map tok_text (fst (lx_tokens 1 x)) = [ident]" "lx_text (snd (lx_tokens 1 x)) = p"
  using lx_Next_identifier [OF assms] by auto

section \<open>Properties\<close>

text \<open>C5. Whatever stream class the text comes through, in whatever chunks, the tokenizer reads the tokens of
  the reference lexer on the bytes of the stream, reports the same errors, and its destructor leaves the
  stream right behind the last token.\<close>

theorem tokenizer_reads_text:
  assumes "zero_copy_input ops ok rest last_chunk empties" "ok i"
  shows "\<exists>s t j. Tokenizer ops i = Some s \<and>
    tz_tokens ops n (tz_configure options s) = Some (fst (lx_tokens n (tz_configure options (lexer_start (rest i)))), t) \<and>
    tz_errors t = tz_errors (snd (lx_tokens n (tz_configure options (lexer_start (rest i))))) \<and>
    Tokenizer_destroy ops t = Some j \<and> ok j \<and>
    rest j = lx_text (snd (lx_tokens n (tz_configure options (lexer_start (rest i)))))"
  by (rule zero_copy_input.run_ok [OF assms])

lemma tokenizer_reads_text_witness:
  "\<exists>s ts t j. Tokenizer array_input_ops (ArrayInputStream [0x78, 0x2B, 0x79] 1) = Some s \<and>
     tz_tokens array_input_ops 1 (tz_configure (False, SH_COMMENT_STYLE, True, False) s) = Some (ts, t) \<and>
     map tok_text ts = [[0x78]] \<and> Tokenizer_destroy array_input_ops t = Some j \<and> array_input_rest j = [0x2B, 0x79]"
proof -
  let ?o = "(False, SH_COMMENT_STYLE, True, False)"
  let ?i = "ArrayInputStream [0x78, 0x2B, 0x79] 1"
  have "map tok_text (fst (lx_tokens 1 (tz_configure ?o (lexer_start [0x78, 0x2B, 0x79])))) = [[0x78]]"
    "lx_text (snd (lx_tokens 1 (tz_configure ?o (lexer_start [0x78, 0x2B, 0x79])))) = [0x2B, 0x79]"
    using first_identifier [of "tz_configure ?o (lexer_start [0x78, 0x2B, 0x79])" "[0x78]" "[0x2B, 0x79]"]
    by (simp_all add: IsIdentifier_def Letter_def Alphanumeric_def)
  with tokenizer_reads_text [OF array_in.zero_copy_input_axioms, of ?i 1 ?o] array_stream [of "[0x78, 0x2B, 0x79]" 1, OF small_array(1)]
  show ?thesis by (metis (no_types, lifting))
qed

text \<open>C10. \<open>Next\<close> always returns and gets to the end: within one call more than there are bytes left it
  returns false with a token of type \<open>TYPE_END\<close>, and everything has been read.\<close>

theorem tokenizer_reaches_end:
  assumes "zero_copy_input ops ok rest last_chunk empties" "ok i" "length (rest i) < n"
  shows "\<exists>s ts e t j. Tokenizer ops i = Some s \<and> tz_tokens ops n (tz_configure options s) = Some (ts @ [e], t) \<and>
    tok_type e = TYPE_END \<and> length ts \<le> length (rest i) \<and>
    Tokenizer_destroy ops t = Some j \<and> ok j \<and> rest j = []"
proof -
  have "length (lx_text (tz_configure options (lexer_start (rest i)))) < n" using assms(3) by simp
  from lx_tokens_end [OF this] obtain ts e where
      "fst (lx_tokens n (tz_configure options (lexer_start (rest i)))) = ts @ [e]" "tok_type e = TYPE_END"
      "length ts \<le> length (rest i)" "lx_text (snd (lx_tokens n (tz_configure options (lexer_start (rest i))))) = []"
    by (metis fst_conv configured_text(1) lexer_start_simps(2))
  then show ?thesis
    using zero_copy_input.run_ok [OF assms(1,2), of n options] by metis
qed

lemma tokenizer_reaches_end_witness:
  "\<exists>s ts e t. Tokenizer array_input_ops (ArrayInputStream [0x2F, 0x2A] 1) = Some s \<and>
     tz_tokens array_input_ops 3 (tz_configure (False, CPP_COMMENT_STYLE, True, False) s) = Some (ts @ [e], t) \<and> tok_type e = TYPE_END"
  using tokenizer_reaches_end [OF array_in.zero_copy_input_axioms, of "ArrayInputStream [0x2F, 0x2A] 1" 3]
    array_stream [of "[0x2F, 0x2A]" 1]
  by (fastforce simp: INT_MAX_def)

text \<open>C11. When \<open>Next\<close> returns true, the text of the token is a non-empty slice of the input, taken behind
  what was skipped as white space and comments; its line and columns are those of that slice; an
  identifier is what \<open>IsIdentifier\<close> says; and the tokenizer is ready for the next call.\<close>

theorem tokens_are_slices:
  assumes "zero_copy_input ops ok rest last_chunk empties" "tz_inv ok rest last_chunk s" "tz_record_target s = None"
    "tz_Next ops s = Some (True, t)"
  shows "\<exists>skipped. tz_unread rest s = skipped @ tok_text (tz_current t) @ tz_unread rest t \<and>
    tok_text (tz_current t) \<noteq> [] \<and>
    (tok_line (tz_current t), tok_column (tz_current t)) = fold advance skipped (lx_pos s) \<and>
    lx_pos t = fold advance (tok_text (tz_current t)) (tok_line (tz_current t), tok_column (tz_current t)) \<and>
    tok_end_column (tz_current t) = tz_column t \<and>
    tok_type (tz_current t) \<noteq> TYPE_START \<and> tok_type (tz_current t) \<noteq> TYPE_END \<and>
    (tok_type (tz_current t) = TYPE_IDENTIFIER \<longrightarrow> IsIdentifier (tok_text (tz_current t))) \<and>
    tz_inv ok rest last_chunk t \<and> tz_record_target t = None"
proof -
  note contract = assms(1)
  let ?x = "lexer_of rest s"
  have s: "zero_copy_input.tz_rel ok rest last_chunk s ?x"
    using assms(2) by (simp add: zero_copy_input.tz_rel_def [OF contract])
  obtain y skipped where y: "lx_Next ?x = (True, y)" "zero_copy_input.tz_rel ok rest last_chunk t y"
      "tz_record_target t = None" "tz_current t = tz_current y" "token_slice skipped ?x y"
    using zero_copy_input.Next_slice [OF contract s assms(3,4)] by blast
  note same = zero_copy_input.tz_rel_same(1,2) [OF contract s] zero_copy_input.tz_rel_same(1,2) [OF contract y(2)]
    zero_copy_input.tz_rel_unread [OF contract s] zero_copy_input.tz_rel_unread [OF contract y(2)]
  have inv: "tz_inv ok rest last_chunk t" using y(2) by (simp add: zero_copy_input.tz_rel_def [OF contract])
  show ?thesis
    using y(3-5) inv lx_Next_type [OF y(1)] same by (intro exI [of _ skipped]) (simp add: token_slice_def Let_def lx_pos_def)
qed

abbreviation array_rel :: "array_input tokenizer \<Rightarrow> lexer \<Rightarrow> bool" where
  "array_rel \<equiv> zero_copy_input.tz_rel array_input_inv array_input_rest array_input_last"

lemma array_tokenizer:
  assumes "int (length bs) \<le> INT_MAX" "Tokenizer array_input_ops (ArrayInputStream bs k) = Some s"
  shows "tz_inv array_input_inv array_input_rest array_input_last s" "tz_record_target s = None"
    "tz_unread array_input_rest s = bs" "lx_pos s = (0, 0)"
proof -
  obtain t where t: "Tokenizer array_input_ops (ArrayInputStream bs k) = Some t" "array_rel t (lexer_start bs)"
    using zero_copy_input.Tokenizer_ok [OF array_in.zero_copy_input_axioms, of "ArrayInputStream bs k"] array_stream [OF assms(1), of k] by auto
  then have "s = t" using assms(2) by simp
  with t(2) show "tz_inv array_input_inv array_input_rest array_input_last s" "tz_record_target s = None"
    "tz_unread array_input_rest s = bs" "lx_pos s = (0, 0)"
    using zero_copy_input.tz_rel_same(1-3) [OF array_in.zero_copy_input_axioms t(2)]
      zero_copy_input.tz_rel_unread [OF array_in.zero_copy_input_axioms t(2)]
    by (simp_all add: zero_copy_input.tz_rel_def [OF array_in.zero_copy_input_axioms] lx_pos_def)
qed

lemma tokens_are_slices_witness:
  "\<exists>s t. Tokenizer array_input_ops (ArrayInputStream [0x20, 0x78] 1) = Some s \<and> tz_Next array_input_ops s = Some (True, t) \<and>
     (\<exists>skipped. [0x20, 0x78] = skipped @ tok_text (tz_current t) @ tz_unread array_input_rest t)"
proof -
  obtain s where s: "Tokenizer array_input_ops (ArrayInputStream [0x20, 0x78] 1) = Some s" "array_rel s (lexer_start [0x20, 0x78])"
    using zero_copy_input.Tokenizer_ok [OF array_in.zero_copy_input_axioms, of "ArrayInputStream [0x20, 0x78] 1"] array_stream [of "[0x20, 0x78]" 1]
    by (auto simp: INT_MAX_def)
  let ?x = "lexer_start [0x20, 0x78]\<lparr>tz_previous := tz_current (lexer_start [0x20, 0x78])\<rparr>"
  have "lx_while Whitespace ?x = lx_chars [0x20] ?x" by (simp add: lx_while_def Whitespace_def lexer_start_def)
  moreover have "peek (lx_chars [0x20] ?x) = 0x78" "lx_text (lx_chars [0x20] ?x) = [0x78]" by (simp_all add: peek_def)
  ultimately have "\<exists>y. lx_Next (lexer_start [0x20, 0x78]) = (True, y)"
    unfolding lx_Next_def by (subst lx_next_loop.simps) (simp add: lx_comment_start_def)
  then obtain t where t: "tz_Next array_input_ops s = Some (True, t)"
    using zero_copy_input.Next_ok [OF array_in.zero_copy_input_axioms s(2)] by (auto simp: zero_copy_input.outcome_def [OF array_in.zero_copy_input_axioms])
  from tokens_are_slices [OF array_in.zero_copy_input_axioms array_tokenizer(1,2) [OF small_array(2) s(1)] t]
    array_tokenizer(3) [OF small_array(2) s(1)] s(1) t show ?thesis by metis
qed

end
