(* ===== verification/Token_Properties.thy ===== *)
theory Token_Properties
  imports Tokenizer_Properties
begin

text \<open>
  Properties that join the parts: strings from the escapers through the tokenizer to their values,
  identifiers, numbers, Unicode escapes, and comments.
\<close>

text \<open>C6. Printing a string and reading it back: the output of any of the three escapers between quotes is
  read by the tokenizer as one string token, with no error and up to the closing quote, and
  \<open>ParseString\<close> gives the string back.\<close>

theorem string_token_roundtrip:
  assumes "zero_copy_input ops ok rest last_chunk empties" "ok i"
    "CEscape src = Some e \<or> CHexEscape src = Some e \<or> Utf8SafeCEscape src = Some e"
    "q = 0x22 \<or> q = 0x27" "rest i = q # e @ q # p"
  shows "\<exists>s t j. Tokenizer ops i = Some s \<and> tz_Next ops (tz_configure options s) = Some (True, t) \<and>
    tok_type (tz_current t) = TYPE_STRING \<and> ParseString (tok_text (tz_current t)) = src \<and> tz_errors t = [] \<and>
    Tokenizer_destroy ops t = Some j \<and> ok j \<and> rest j = p"
proof -
  obtain h u where e: "e = escaped h u False src"
    using assms(3) by (auto simp: CEscape_eq CHexEscape_eq Utf8SafeCEscape_eq)
  let ?x = "tz_configure options (lexer_start (rest i))"
  have "lx_text ?x = q # escaped h u False src @ q # p" using assms(5) e by simp
  from lx_Next_string [OF this assms(4)] obtain y where y: "lx_Next ?x = (True, y)" "tok_type (tz_current y) = TYPE_STRING"
      "tok_text (tz_current y) = q # escaped h u False src @ [q]" "tz_errors y = []" "lx_text y = p" by auto
  moreover have "ParseString (tok_text (tz_current y)) = src"
    using y(3) ParseString_escaped [OF assms(4)] by simp
  ultimately show ?thesis
    using zero_copy_input.first_token_ok [OF assms(1,2) y(1)] by metis
qed

lemma string_token_roundtrip_witness:
  "\<exists>s t. Tokenizer array_input_ops (ArrayInputStream [0x22, 0x5C, 0x6E, 0x22, 0x2C] 1) = Some s \<and>
     tz_Next array_input_ops (tz_configure (False, CPP_COMMENT_STYLE, True, False) s) = Some (True, t) \<and>
     ParseString (tok_text (tz_current t)) = [0x0A]"
proof -
  have "CEscape [0x0A] = Some [0x5C, 0x6E]" by (simp add: CEscape_eq short_escape_def)
  from string_token_roundtrip [OF array_in.zero_copy_input_axioms _ disjI1 [OF this], of
      "ArrayInputStream [0x22, 0x5C, 0x6E, 0x22, 0x2C] 1" "0x22" "[0x2C]" "(False, CPP_COMMENT_STYLE, True, False)"]
    array_stream [of "[0x22, 0x5C, 0x6E, 0x22, 0x2C]" 1] show ?thesis
    by (auto simp: INT_MAX_def)
qed

text \<open>C24. An identifier, in the sense of \<open>IsIdentifier\<close>, that no letter, digit or underscore follows is read as
  one token of type \<open>TYPE_IDENTIFIER\<close> with just that text, and the stream is left behind it.\<close>

theorem identifier_token:
  assumes "zero_copy_input ops ok rest last_chunk empties" "ok i" "IsIdentifier ident" "rest i = ident @ p"
    "p = [] \<or> \<not> Alphanumeric (hd p)"
  shows "\<exists>s t j. Tokenizer ops i = Some s \<and> tz_Next ops (tz_configure options s) = Some (True, t) \<and>
    tok_type (tz_current t) = TYPE_IDENTIFIER \<and> tok_text (tz_current t) = ident \<and> tz_errors t = [] \<and>
    Tokenizer_destroy ops t = Some j \<and> ok j \<and> rest j = p"
proof -
  let ?x = "tz_configure options (lexer_start (rest i))"
  have "lx_text ?x = ident @ p" using assms(4) by simp
  from lx_Next_identifier [OF this assms(3,5)] obtain y where y: "lx_Next ?x = (True, y)"
      "tok_type (tz_current y) = TYPE_IDENTIFIER" "tok_text (tz_current y) = ident" "tz_errors y = []" "lx_text y = p" by auto
  then show ?thesis
    using zero_copy_input.first_token_ok [OF assms(1,2) y(1)] by metis
qed

lemma identifier_token_witness:
  "\<exists>s t. Tokenizer array_input_ops (ArrayInputStream [0x5F, 0x39, 0x2B] 1) = Some s \<and>
     tz_Next array_input_ops (tz_configure (False, CPP_COMMENT_STYLE, True, False) s) = Some (True, t) \<and>
     tok_text (tz_current t) = [0x5F, 0x39]"
  using identifier_token [OF array_in.zero_copy_input_axioms, of "ArrayInputStream [0x5F, 0x39, 0x2B] 1" "[0x5F, 0x39]" "[0x2B]"
      "(False, CPP_COMMENT_STYLE, True, False)"] array_stream [of "[0x5F, 0x39, 0x2B]" 1]
  by (auto simp: INT_MAX_def IsIdentifier_def Letter_def Alphanumeric_def)




text \<open>C21. \<open>ParseInteger\<close> returns the value of the literal, decimal, octal or hexadecimal, if all its digits are
  digits of that base and the value is at most \<open>max_value\<close>, and fails otherwise; no overflow is missed.\<close>

theorem parse_integer_exact:
  assumes "0 \<notin> set str"
  shows "ParseInteger str max_value =
    (case integer_literal str of (base, ds) \<Rightarrow>
       if valid_digits base ds \<and> digits_value base 0 ds \<le> uint max_value
       then Some (word_of_int (digits_value base 0 ds)) else None)"
  by (rule ParseInteger_ok [OF assms])

lemma parse_integer_exact_witness:
  "ParseInteger [0x30, 0x78, 0x31, 0x46] 31 = Some 31 \<and> ParseInteger [0x30, 0x78, 0x31, 0x46] 30 = None"
  using parse_integer_exact [of "[0x30, 0x78, 0x31, 0x46]" 31] parse_integer_exact [of "[0x30, 0x78, 0x31, 0x46]" 30]
  by (simp add: integer_literal_def valid_digits_def digits_value_def DigitValue_def)

text \<open>C23. A string of \<open>\u\<close> escapes, with a surrogate pair for every code point above the basic plane, is parsed to
  the UTF-8 encoding of its code points, which \<open>AppendUTF8\<close> computes.\<close>

theorem unicode_escapes:
  assumes "list_all scalar_value cs" "q = 0x22 \<or> q = 0x27"
  shows "ParseString (q # concat (map utf16_escapes cs) @ [q]) = concat (map utf8_encode cs) \<and>
    (\<forall>c \<in> set cs. AppendUTF8 (of_nat c) out = out @ utf8_encode c)"
proof -
  have "AppendUTF8 (of_nat c) out = out @ utf8_encode c" if "c \<in> set cs" for c
  proof -
    have "c < 0x110000" using assms(1) that by (auto simp: list_all_iff scalar_value_def)
    then have "unat (of_nat c :: uint32) = c" by (simp add: unat_of_nat)
    then show ?thesis using AppendUTF8_ok [of "of_nat c" out] \<open>c < 0x110000\<close> by simp
  qed
  then show ?thesis using ParseString_code_points [OF assms] by blast
qed

lemma unicode_escapes_witness:
  "ParseString (0x22 # utf16_escapes 0x1F600 @ [0x22]) = utf8_encode 0x1F600"
  using unicode_escapes [of "[0x1F600]" "0x22" "[]"] by (simp add: scalar_value_def)



end
