(* ===== verification/Known_Issues.thy ===== *)
theory Known_Issues
  imports Wire_Messages Example_Streams File_Contract Token_Values_Lemmas Tokenizer_Ref
begin

text \<open>
  Places where the code does not do what it means to do, or what its comments say, each shown on a
  concrete input.
\<close>

section \<open>Unknown enum values are copied with the wrong key\<close>

text \<open>
  \<open>CodedOutputStreamFieldSkipper::SkipUnknownEnum\<close> writes the field number where the tag belongs.
  For field 2 with value 5 the stream receives the bytes 2 and 5, which no parser takes for a field.
\<close>

lemma unknown_enum_loses_tag:
  "\<exists>out t. CodedOutputStream array_output_ops (ArrayOutputStream (replicate 4 0) (- 1)) = Some out \<and>
    fs_SkipUnknownEnum (CodedOutputStreamFieldSkipper array_input_ops array_output_ops) 2 5 out = Some t \<and>
    \<not> HadError t \<and> written array_output_content t = [2, 5] \<and> wire_parse 100 [2, 5] = None"
proof -
  have w: "WriteVarint32ToArray 2 = [2]" "WriteVarint64ToArray 5 = [5]" "wire_parse 100 [2, 5] = None"
    by code_simp+
  obtain out where out: "CodedOutputStream array_output_ops (ArrayOutputStream (replicate 4 0) (- 1)) = Some out"
    "cos_inv array_output_inv array_output_content array_output_window out" "written array_output_content out = []"
    "\<not> HadError out" "4 \<le> available array_output_room out" "\<not> cos_aliasing_enabled out"
    by (rule fresh_output [of 4]) (simp_all add: INT_MAX_def)
  have "array_out.emits ([2] @ [5]) out (WriteVarint32 array_output_ops 2 out \<bind> WriteVarint64 array_output_ops 5)"
    using array_out.coded_write_emits(1) [of _ 2] array_out.coded_write_emits(2) [of _ 5] out(2)
    by (intro array_out.emits_bind) (simp_all add: w)
  then show ?thesis
    using out by (auto simp: CodedOutputStreamFieldSkipper_def array_out.emits_def appended_def HadError_def w(3))
qed

section \<open>A negative unknown enum of a packed field is truncated\<close>

text \<open>
  The lite \<open>ReadPackedEnumPreserveUnknowns\<close> passes the \<open>int\<close> value on to \<open>WriteVarint32\<close>. A negative
  enum has to be sign-extended to ten bytes; what is stored is a five-byte varint, another number.
\<close>

lemma negative_unknown_enum_truncated:
  assumes "0 < n" "n < 2 ^ 29"
  shows "wire_parse d (WriteTagToArray (MakeTag n WIRETYPE_VARINT) @ WriteVarint32ToArray (enum_value (Enum v))) =
      Some ([Unknown_Varint n (ucast v)], End_Clean, [])"
    and "wire_parse d (WriteTagToArray (MakeTag n WIRETYPE_VARINT) @ WriteVarint32SignExtendedToArray (enum_value (Enum v))) =
      Some ([Unknown_Varint n (scast v)], End_Clean, [])"
    and "(ucast (- 1 :: int32) :: uint64) \<noteq> scast (- 1 :: int32)"
proof -
  have "WIRETYPE_VARINT \<notin> range WIRETYPE_unnamed" by auto
  note tag = wire_parse_tag(2) [OF this assms, unfolded WriteTagToArray_field_def]
  show "wire_parse d (WriteTagToArray (MakeTag n WIRETYPE_VARINT) @ WriteVarint32ToArray (enum_value (Enum v))) =
      Some ([Unknown_Varint n (ucast v)], End_Clean, [])"
    "wire_parse d (WriteTagToArray (MakeTag n WIRETYPE_VARINT) @ WriteVarint32SignExtendedToArray (enum_value (Enum v))) =
      Some ([Unknown_Varint n (scast v)], End_Clean, [])"
    using wire_scalar_Write(1) [OF assms, of d _ "[]"] by (simp_all add: tag array_in.WriteVarint32_as_64 wire_parse_cases(1))
qed code_simp

section \<open>Deleting nothing from an empty unknown field set\<close>

text \<open>\<open>DeleteSubrange(0, 0)\<close> on an empty set reads the size of a vector that does not exist.\<close>

lemma delete_nothing_from_empty_set: "DeleteSubrange 0 0 UnknownFieldSet = None"
  by (simp add: DeleteSubrange_def UnknownFieldSet_def)

section \<open>An empty direct buffer\<close>

text \<open>
  The comment on \<open>GetDirectBufferPointer\<close> promises a buffer that is not empty, or false. When the
  total bytes limit falls on the end of a buffer, \<open>Refresh\<close> fetches the next one, hides all of it
  behind the limit and returns true.
\<close>

lemma empty_direct_buffer:
  "\<exists>s t u. CodedInputStream array_input_ops (ArrayInputStream [1, 2, 3, 4] 2) = Some s \<and>
    ReadRaw array_input_ops 2 (SetTotalBytesLimit 2 (- 1) s) = Some (True, [1, 2], t) \<and>
    GetDirectBufferPointer array_input_ops t = Some (Some [], u)"
proof -
  let ?a = "ArrayInputStream [1, 2, 3, 4] 2"
  have next1: "NextNonEmpty array_input_ops ?a = Some (Some [1, 2], ?a\<lparr>ai_last_returned_size := 2, ai_position := 2\<rparr>)"
    "NextNonEmpty array_input_ops (?a\<lparr>ai_last_returned_size := 2, ai_position := 2\<rparr>) =
       Some (Some [3, 4], ?a\<lparr>ai_last_returned_size := 2, ai_position := 4\<rparr>)"
    by (subst NextNonEmpty.simps; simp add: array_input_ops_def ArrayInput_Next_def ArrayInputStream_def mem_read_def)+
  show ?thesis
    by (simp add: CodedInputStream_def CodedInputStream_init_def Refresh_def Refresh_warn_def next1 Refresh_accept_def
        RecomputeBufferLimits_def SetTotalBytesLimit_def CurrentPosition_def BufferSize_def INT_MAX_def
        kDefaultTotalBytesLimit_def kDefaultTotalBytesWarningThreshold_def ReadRaw_def InternalReadRawInline.simps
        mem_read_def Advance_def GetDirectBufferPointer_def)
qed

section \<open>A message cut short at a field boundary\<close>

text \<open>
  An embedded message announces more bytes than the input has, and the input ends between two of its
  fields: \<open>ReadTag\<close> takes the end of the input for a legitimate end and \<open>ReadMessage\<close> succeeds.
\<close>

context message_reading
begin

lemma ReadMessage_truncated:
  assumes m: "valid m" "valid x" "fits (nat (cis_recursion_budget s - 1)) m"
    and s: "cinv' s" "cview s = WriteVarint32ToArray (of_nat k) @ enc m" "length (enc m) \<le> k" "int k \<le> INT_MAX"
    and limit: "CurrentPosition s + int (length (cview s)) < cis_total_bytes_limit s"
    and budget: "0 < cis_recursion_budget s" "cis_recursion_budget s \<le> cis_recursion_limit s"
  shows "\<exists>t. ReadMessage mops ops s x = Some (True, t, merged m x)"
proof -
  obtain t1 where t1: "ReadVarintSizeAsInt ops s = Some (True, int k, t1)" "cinv' t1"
      "cstep (length (WriteVarint32ToArray (of_nat k))) s t1"
    using ReadVarintSizeAsInt_Write [OF s(1,2,4)] by blast
  have v1: "cview t1 = enc m"
    using coded_step_view [OF t1(3) s(1)] s(2) by simp
  obtain old t2 where p: "PushLimit (int k) t1 = (old, t2)" by fastforce
  note push = PushLimit_ok [OF t1(2) p]
  let ?t3 = "t2\<lparr>cis_recursion_budget := cis_recursion_budget t2 - 1\<rparr>"
  have v2: "cview t2 = enc m" using push(5) v1 s(3) by simp
  have b2: "cis_recursion_budget t2 = cis_recursion_budget s" "cis_recursion_limit t2 = cis_recursion_limit s"
    "cis_total_bytes_limit t2 = cis_total_bytes_limit s"
    using p t1(3) by (auto simp: PushLimit_def Let_def coded_step_def)
  have "msg_end cview ?t3"
    using limit s(2) v2 b2(3) push(4) t1(3) by (simp add: msg_end_def coded_step_def)
  then obtain t j where "msg_MergePartialFromCodedStream mops ?t3 x = Some (True, t, merged m x)"
      "ConsumedEntireMessage t" "cstep j ?t3 t"
    using merge_message [OF m(1,2), of ?t3] m(3) budget push(1) v2 b2 by auto
  then show ?thesis
    using t1(1) p b2 budget
    by (simp add: ReadMessage_def IncrementRecursionDepthAndPushLimit_def DecrementRecursionDepthAndPopLimit_def Let_def)
qed

end

lemma truncated_message_accepted:
  "\<exists>t. ReadMessage (unknown_message array_input_ops array_output_ops) array_input_ops (CodedInputStream_flat [5, 8, 1]) None =
    Some (True, t, ufs_of [Unknown_Varint 1 1])"
proof -
  let ?m = "ufs_of [Unknown_Varint 1 1]"
  have w: "SerializeUnknownFieldsToArray ?m = [8, 1]" "WriteVarint32ToArray 5 = [5]"
    by code_simp+
  have valid: "unknown_valid ?m" "unknown_valid None" "unknown_fits 99 ?m" "unknown_merged ?m None = ?m"
    using w(1) by (simp_all add: unknown_valid_def unknown_fits_def unknown_merged_def ufs_wf_of INT_MAX_def
        word_less_nat_alt ufs_fields_def [of None] del: SerializeUnknownFieldsToArray_of)
  have "int (length [5 :: uint8, 8, 1]) \<le> kDefaultTotalBytesLimit"
    by (simp add: kDefaultTotalBytesLimit_def)
  note f = flat_stream [OF this]
  have "cis_total_bytes_limit (CodedInputStream_flat [5, 8, 1] :: array_input coded_input) = kDefaultTotalBytesLimit"
    by (simp add: CodedInputStream_flat_def CodedInputStream_init_def)
  with message_reading.ReadMessage_truncated [OF array_pair.unknown_reading.message_reading_axioms valid(1,2) _ f(1), of 5] show ?thesis
    by (simp add: f w valid INT_MAX_def kDefaultTotalBytesLimit_def del: SerializeUnknownFieldsToArray_of)
qed

section \<open>Skipping past the end of a file\<close>

text \<open>
  \<open>FileInputStream\<close> skips by \<open>lseek\<close>, which on a regular file succeeds past the end. \<open>Skip\<close> then
  returns true, and \<open>ByteCount\<close> is more than the file holds, where the interface promises false and
  the size of the stream.
\<close>

definition regular_file_sys :: "(bytes \<times> int) file_sys" where
  \<comment> \<open>A regular file: its contents and the offset of the descriptor.\<close>
  "regular_file_sys = \<lparr>
     sys_read = \<lambda>_ n (c, p). (let bs = take (nat n) (drop (nat p) c) in ((int (length bs), bs), (c, p + int (length bs)))),
     sys_write = \<lambda>_ bs (c, p). (int (length bs), (take (nat p) c @ bs @ drop (nat p + length bs) c, p + int (length bs))),
     sys_lseek = \<lambda>_ n (c, p). (p + n, (c, p + n)),
     sys_close = \<lambda>_ k. (0, k), sys_errno = \<lambda>_. 0, sys_EINTR = 4\<rparr>"

lemma skip_past_end_of_file:
  "\<exists>a. in_skip (file_input_ops fresh regular_file_sys) 10 (FileInputStream ([1, 2, 3], 0) 0 0) = Some (True, a) \<and>
     in_bytecount (file_input_ops fresh regular_file_sys) a = 10"
  by (simp add: file_input_ops_def copying_input_ops_def CopyingInput_Skip_def FileInputStream_def CopyingFileInputStream_def
      CopyingInputStreamAdaptor_def copying_file_in_ops_def CopyingFileInput_Skip_def regular_file_sys_def CopyingInput_ByteCount_def)

section \<open>Buffers after a failed write\<close>

text \<open>
  After a failed write \<open>CopyingOutputStreamAdaptor::Next\<close> returns false once; the buffer has been freed
  and counts as empty, so the next call hands out a buffer again, whose bytes are lost. The interface
  says that errors are permanent.
\<close>

lemma buffer_after_failed_write:
  fixes a :: "'s copying_output"
  assumes "coa_buffer a = Some b" "coa_buffer_used a = coa_buffer_size a" "int (length b) = coa_buffer_size a" "b \<noteq> []"
    and "\<not> coa_failed a" "cout_write ops b (coa_copying_stream a) = Some (False, s)"
  shows "\<exists>f g n. CopyingOutput_Next fresh ops a = Some (None, f) \<and> CopyingOutput_Next fresh ops f = Some (Some (0, n), g) \<and> 0 < n"
proof -
  have "mem_read b 0 (int (length b)) = Some b" by (simp add: mem_read_def)
  with assms show ?thesis
    by (auto simp: CopyingOutput_Next_def CopyingOutput_WriteBuffer_def CopyingOutput_FreeBuffer_def
        CopyingOutput_AllocateBufferIfNeeded_def dest: sym)
qed

text \<open>
  \<open>CEscapeInternal\<close> (\<open>stubs/strutil.cc\<close>) makes sure that four bytes are left before an octal or hex escape, but
  \<open>sprintf\<close> stores five, with the NUL: with an array of just four bytes it writes behind the array. The
  callers under \<open>src/\<close> always give a longer one.
\<close>

lemma escape_overflows_array: "CEscapeInternal [0x01] (replicate 4 0) False False = None"
  by (simp add: CEscapeInternal_def short_escape_def isprint_def store_def sprintf_escape_def word_le_nat_alt)

text \<open>
  The tokenizer takes \<open>\U\<close> escapes up to 001fffff, although its own message says \<open>up to 10ffff\<close>, and
  \<open>AppendUTF8\<close> encodes them: the string of such a token is no valid UTF-8.
\<close>

lemma code_point_beyond_unicode:
  "lx_text x = 0x55 # [0x30, 0x30, 0x31, 0x31, 0x30, 0x30, 0x30, 0x30] \<Longrightarrow> tz_errors (lx_escape x) = tz_errors x"
  "\<not> utf8_valid (ParseString [0x22, 0x5C, 0x55, 0x30, 0x30, 0x31, 0x31, 0x30, 0x30, 0x30, 0x30, 0x22])"
proof -
  assume "lx_text x = 0x55 # [0x30, 0x30, 0x31, 0x31, 0x30, 0x30, 0x30, 0x30]"
  then show "tz_errors (lx_escape x) = tz_errors x"
    by (simp add: lx_escape_def Escape_def OctalDigit_def HexDigit_def lx_try_def lx_char_def peek_def)
next
  have "ParseString [0x22, 0x5C, 0x55, 0x30, 0x30, 0x31, 0x31, 0x30, 0x30, 0x30, 0x30, 0x22] = [0xF4, 0x90, 0x80, 0x80]"
    by code_simp
  moreover have "utf8_span [0xF4, 0x90, 0x80, 0x80] = 0" by code_simp
  ultimately show "\<not> utf8_valid (ParseString [0x22, 0x5C, 0x55, 0x30, 0x30, 0x31, 0x31, 0x30, 0x30, 0x30, 0x30, 0x22])"
    by (simp add: utf8_valid_iff_span)
qed

end
