(* ===== verification/Spec2Isabelle.thy ===== *)
theory Spec2Isabelle
  imports Codec_Properties Wire_Properties Field_Properties Stream_Properties Message_Properties
    Utf8_Properties File_Properties Repeated_Ptr_Properties Tokenizer_Properties
    Token_Properties Known_Issues
begin

text \<open>
  The wire format layer of Protocol Buffers 3.1.0 (below \<open>src/conf/protobuf-3.1.0/src/google/protobuf\<close>),
  the C++ library that encodes and decodes every message of this repository's server.

  \<^bold>\<open>The program.\<close> Bytes come from and go to \<open>zero-copy streams\<close>, abstract classes that hand out
  buffers (\<open>io/zero_copy_stream.h\<close>). Their implementations hold arrays and strings
  (\<open>io/zero_copy_stream_impl_lite.cc\<close>), cut or join other streams, or copy from and to file
  descriptors and C++ streams (\<open>io/zero_copy_stream_impl.cc\<close>). On a stream sit \<open>CodedInputStream\<close>
  and \<open>CodedOutputStream\<close> (\<open>io/coded_stream.{h,cc}\<close>, \<open>io/coded_stream_inl.h\<close>), which read and write
  varints, fixed-width integers, raw bytes and tags, and enforce limits. \<open>WireFormatLite\<close>
  (\<open>wire_format_lite.{h,cc}\<close>, \<open>wire_format_lite_inl.h\<close>) puts single, repeated and packed fields, groups
  and embedded messages on top, with \<open>RepeatedField\<close> and \<open>RepeatedPtrField\<close> (\<open>repeated_field.{h,cc}\<close>) as
  the containers, and checks
  strings with \<open>stubs/structurally_valid.cc\<close>. Fields that a parser does not know are skipped, copied,
  or kept in an \<open>UnknownFieldSet\<close> (\<open>unknown_field_set.{h,cc}\<close>, \<open>wire_format.cc\<close>). \<open>.proto\<close> files and the
  text format are cut into tokens by \<open>io/tokenizer.{h,cc}\<close>, which reads the same streams; strings are
  printed for it with the escapers of \<open>stubs/strutil.cc\<close>.

  \<^bold>\<open>Theories and sources.\<close>
  \<^item> \<open>Wire_Prelude\<close>: machine types, bounded memory reads, shared lemmas.
  \<^item> \<open>Varint\<close>: the integer codecs of \<open>coded_stream\<close> on an array, unrolled as in the source, and the
    reference \<open>varint_split\<close> and \<open>varint_enc\<close> they compute.
  \<^item> \<open>Zero_Copy\<close>: the stream interfaces as records of functions, their documented contracts as the
    locales \<open>zero_copy_input\<close> and \<open>zero_copy_output\<close>.
  \<^item> \<open>Zero_Copy_Lite\<close>: the array and string streams, which are interpretations of the contracts.
    \<open>Zero_Copy_Impl\<close>: the limiting and the concatenating stream, which keep the contract when the
    streams below them do.
  \<^item> \<open>Zero_Copy_Copying\<close>: \<open>CopyingInputStream::Skip\<close>, \<open>CopyingInputStreamAdaptor\<close> and
    \<open>CopyingOutputStreamAdaptor\<close>; \<open>Copying_Contract\<close>: the contracts \<open>copying_reader\<close>, \<open>copying_source\<close>,
    \<open>copying_sink\<close>, and the adaptors' proofs of the zero-copy contracts on top of them.
    \<open>Zero_Copy_File\<close> and \<open>File_Contract\<close>: the file and C++ streams, which keep those contracts.
  \<^item> \<open>Coded_Input\<close>: \<open>CodedInputStream\<close>, one field per data member, one definition per member function;
    \<open>Coded_Input_Spec\<close>: its abstraction \<open>view\<close>, the bytes left in front of the closest limit, and
    limits; \<open>Coded_Input_Read\<close>: the reads specified on the view.
  \<^item> \<open>Coded_Output\<close>: \<open>CodedOutputStream\<close>, its abstraction \<open>written\<close>, and \<open>emits\<close>, the statement that
    an operation appends given bytes or sets the error flag.
  \<^item> \<open>Repeated_Field\<close>: the growable array with its reallocation policy, refined to a list.
    \<open>Repeated_Ptr_Field\<close>: the array of pointers, over a store of objects on the heap and on arenas;
    \<open>Repeated_Ptr_Lemmas\<close> and \<open>Repeated_Ptr_Ops\<close>: which pointers it holds and owns after each operation
    (the locale \<open>element_type\<close> is what it asks of its elements); \<open>Repeated_Ptr_Owner\<close> and
    \<open>Repeated_Ptr_Heap\<close>: objects handed over, and the heap that is left when the field is gone.
  \<^item> \<open>Wire_Format_Lite\<close>, \<open>Wire_Fields\<close>, \<open>Wire_Field_Lemmas\<close>, \<open>Wire_Messages\<close>: tags, zigzag, the
    readers, writers and sizes of values and fields; groups and embedded messages over a message
    class given by its functions, with the contracts \<open>message_writing\<close> and \<open>message_reading\<close>.
  \<^item> \<open>Unknown_Fields\<close>, \<open>Wire_Skip\<close>, \<open>Wire_Format\<close>: unknown field sets, the three mutually recursive
    skippers and the entry points of parsing, the serialisers. \<open>Wire_Parse\<close> is the grammar as a
    function on byte lists; \<open>Skip_Contract\<close> and \<open>Skippers\<close> show that every skipper follows it.
  \<^item> \<open>Utf8_Valid\<close>: tables and scanners of the UTF-8 check; \<open>Utf8_Lemmas\<close>: they compute \<open>utf8_span\<close>;
    \<open>Utf8_Encoding\<close>: the span is the longest sequence of encodings of scalar values.
  \<^item> \<open>Tokenizer\<close>: the class \<open>Tokenizer\<close> over its buffer and stream; \<open>Tokenizer_Ref\<close>: the reference lexer on
    a list of bytes; \<open>Tokenizer_Spec\<close> and \<open>Tokenizer_Refine\<close>: each member function implements its part of
    the lexer, by a relation \<open>tz_rel\<close> in which the bytes still to be recorded count as recorded;
    \<open>Tokenizer_Run\<close>: whole runs; \<open>Tokenizer_Text\<close>: tokens are slices of the text, runs end;
    \<open>Tokenizer_Tokens\<close>: what is made of strings and identifiers.
  \<^item> \<open>Comment_Collector\<close>: \<open>NextWithComments\<close>; \<open>Comment_Refine\<close>: its refinement; \<open>Comment_Tokens\<close>: it reads
    what \<open>Next\<close> reads.
  \<^item> \<open>C_Strings\<close>, \<open>C_Strings_Lemmas\<close>: escaping and unescaping; \<open>Token_Values\<close>, \<open>Token_Values_Lemmas\<close>: the
    numbers and strings that tokens stand for.
  \<^item> The properties (C1 to C40) are in \<open>Codec_Properties\<close>, \<open>Wire_Properties\<close>, \<open>Field_Properties\<close>,
    \<open>Stream_Properties\<close>, \<open>Message_Properties\<close>, \<open>Utf8_Properties\<close>, \<open>File_Properties\<close>,
    \<open>Repeated_Ptr_Properties\<close>, \<open>Tokenizer_Properties\<close> and \<open>Token_Properties\<close>; \<open>Known_Issues\<close> holds the
    inputs on which the code does not do what it means to. \<open>Example_Streams\<close> has the concrete streams
    that the witnesses share.

  \<^bold>\<open>How the model is built.\<close> A C++ class is a record, a member function a definition that takes and
  returns the record. A result \<open>None\<close> is undefined behaviour, a failed \<open>GOOGLE_CHECK\<close> or a loop that
  does not end, so a theorem that says \<open>= Some\<close> says that none of these happens. C++ \<open>int\<close> is an
  Isabelle integer where the code keeps it in range (the invariants say so, with \<open>INT_MAX\<close>), and a
  word where it wraps. Loops that are not structural are \<open>partial_function (option)\<close> or \<open>function\<close>
  with a measure; that they return is part of the theorems. Nothing runs on fuel; \<open>wire_parse d\<close>
  carries the recursion depth that the code has left.

  \<^bold>\<open>What the theorems show.\<close> Round trips from varints up to unknown field sets and embedded messages;
  agreement of the unrolled, buffered and slow paths with their reference; the parse as a function
  of the bytes only, on every stream that keeps the contract, so for arrays, limited and joined
  streams, files and C++ streams alike; limits and the recursion limit are enforced and restored; the
  destructor of a coded stream leaves the stream below exactly behind what was read or written;
  writing through any stack of streams appends exactly the bytes of the array writers or reports an
  error; computed sizes are exact; UTF-8 validation is exact; the containers are lists, and the one of
  pointers frees every object it owns exactly once; the tokenizer reads the same tokens however its
  text is cut into buffers, collecting comments does not change them, and strings survive escaping,
  tokenizing and unescaping.

  \<^bold>\<open>Bounds.\<close> The recursion limit is 100 by default and the total bytes limit 64 MB, as in the source;
  theorems on whole parses ask for an input below that limit. \<open>RepeatedField\<close> is correct up to 2^30
  elements, beyond which the doubling of its capacity overflows; string streams up to 2^30 bytes.
  The \<open>int\<close> counters of the output side and the \<open>size_t\<close> sums of the size functions are not
  bounded in the model.

  \<^bold>\<open>Parameters.\<close> The system calls (with the hypotheses \<open>reads_descriptor\<close> and \<open>accepts_descriptor\<close>: calls
  may be short, and interrupted finitely often), the contents of newly allocated memory, the
  capacities that \<open>std::string\<close> picks, the address of a string and the byte order in the UTF-8 scan,
  the class of an embedded message, \<open>strtod\<close> and the radix character of the locale. C++ streams are written out for a buffer in memory.

  \<^bold>\<open>Not modelled.\<close> The variant compiled with \<open>PROTOBUF_LITTLE_ENDIAN\<close>; \<open>GOOGLE_DCHECK\<close>, which a release
  build drops; \<open>SpaceUsed\<close> of unknown fields and the inside of arenas; who frees an underlying stream;
  the iterators of \<open>repeated_field.h\<close>, which are positions in the model; the reflection-driven half of
  \<open>wire_format.cc\<close>, descriptors, reflection, extensions and maps, which need the descriptors of
  generated classes; text and JSON formats above the tokenizer; the other helpers of \<open>stubs/strutil.cc\<close>; \<open>gzip_stream.cc\<close>, a wrapper of zlib;
  the compiler \<open>protoc\<close>; generated code, tests, gmock and gtest; the Java game server.
\<close>

end
